(* ===== verification/Prelude.thy ===== *)
theory Prelude
  imports
    Complex_Main
    "HOL-Library.Char_ord"
    "HOL-Library.List_Lexorder"
    "HOL-Library.Product_Lexorder"
    "HOL-Library.Multiset"
    "HOL-Library.AList"
begin

text \<open>
  Shared vocabulary of the development: exceptions and results, insertion-ordered
  dictionaries, Python strings, table cells and JSON values, and the generic lemmas the
  component theories rely on.

  \<^item> A Python call that may raise has a result of type \<open>'a res\<close>: \<open>Inl\<close> the exception,
    \<open>Inr\<close> the returned value. An exception keeps its class and the fixed head of its message;
    the interpolated part of the message is not modelled.
  \<^item> A \<open>dict\<close> is an association list in insertion order; \<open>AList.update\<close> overwrites in place or
    appends, which is what \<open>d[k] = v\<close> does.
  \<^item> A \<open>str\<close> is a \<open>string\<close> whose characters stand for the code points U+0000 to U+00FF. White
    space, digits and case are those of Python on that range. Strings compare by code point.
  \<^item> A table cell is null, an int64 or a string (the column types of the link and document
    tables); a JSON value is one of the values \<open>json.loads\<close> returns, floats excepted.
\<close>

named_theorems res_simps \<open>unfolding rules for results\<close>

named_theorems str_simps \<open>unfolding rules for Python string operations\<close>

section \<open>Exceptions and results\<close>

datatype exn =
    ValueError string
  | TypeError string
  | KeyError string
  | RuntimeError string
  | FileNotFoundError string
  | OSError string
  | AttributeError string

type_synonym 'a res = "exn + 'a"

definition res_bind :: "'a res \<Rightarrow> ('a \<Rightarrow> 'b res) \<Rightarrow> 'b res" where
  "res_bind m f = (case m of Inl e \<Rightarrow> Inl e | Inr x \<Rightarrow> f x)"

definition guard :: "bool \<Rightarrow> exn \<Rightarrow> unit res" where
  "guard ok e = (if ok then Inr () else Inl e)"

lemma res_bind_simps [simp]:
  "res_bind (Inl e) f = Inl e"
  "res_bind (Inr x) f = f x"
  by (simp_all add: res_bind_def)

lemma guard_simps [simp]:
  "guard True e = Inr ()"
  "guard False e = Inl e"
  by (simp_all add: guard_def)

lemma res_bind_Inr_iff [simp]:
  "res_bind m f = Inr y \<longleftrightarrow> (\<exists>x. m = Inr x \<and> f x = Inr y)"
  by (cases m) auto

lemma guard_Inr_iff [simp]: "guard ok e = Inr u \<longleftrightarrow> ok"
  by (simp add: guard_def)

lemma guard_Inl_iff [simp]: "guard ok e = Inl x \<longleftrightarrow> \<not> ok \<and> x = e"
  by (auto simp: guard_def)

lemma res_bind_cong [fundef_cong]:
  "m = m' \<Longrightarrow> (\<And>x. m' = Inr x \<Longrightarrow> f x = g x) \<Longrightarrow> res_bind m f = res_bind m' g"
  by (cases m') auto

text \<open>A loop that maps a fallible function, and one that threads an accumulator.\<close>

fun res_map :: "('a \<Rightarrow> 'b res) \<Rightarrow> 'a list \<Rightarrow> 'b list res" where
  "res_map f [] = Inr []"
| "res_map f (x # xs) =
     res_bind (f x) (\<lambda>y. res_bind (res_map f xs) (\<lambda>ys. Inr (y # ys)))"

fun res_fold :: "('a \<Rightarrow> 's \<Rightarrow> 's res) \<Rightarrow> 'a list \<Rightarrow> 's \<Rightarrow> 's res" where
  "res_fold f [] s = Inr s"
| "res_fold f (x # xs) s = res_bind (f x s) (res_fold f xs)"

lemma res_map_Inr_iff:
  "res_map f xs = Inr ys \<longleftrightarrow> list_all2 (\<lambda>x y. f x = Inr y) xs ys"
proof (induction xs arbitrary: ys)
  case Nil
  then show ?case by (cases ys) auto
next
  case (Cons x xs)
  then show ?case by (cases ys) (auto simp: list_all2_Cons1)
qed

lemma res_map_Inr_iff_all:
  "(\<exists>ys. res_map f xs = Inr ys) \<longleftrightarrow> (\<forall>x\<in>set xs. \<exists>y. f x = Inr y)"
  by (induction xs) auto

lemma res_map_total: "res_map f xs = Inr ys \<Longrightarrow> \<forall>x\<in>set xs. \<exists>y. f x = Inr y"
  by (induction xs arbitrary: ys) auto

lemma res_map_set:
  "res_map f xs = Inr ys \<Longrightarrow> set ys = {y. \<exists>x\<in>set xs. f x = Inr y}"
  by (induction xs arbitrary: ys) auto

lemma res_map_eq_map: "map f xs = map Inr ys \<Longrightarrow> res_map f xs = Inr ys"
  by (induction xs arbitrary: ys) (auto simp: Cons_eq_map_conv)

lemma res_map_Inr_preimage:
  assumes "\<And>x y. f x = Inr y \<longleftrightarrow> x = g y \<and> P y"
  shows "res_map f xs = Inr ys \<longleftrightarrow> xs = map g ys \<and> (\<forall>y\<in>set ys. P y)"
proof (induction ys arbitrary: xs)
  case Nil
  then show ?case by (cases xs) auto
next
  case (Cons y ys)
  then show ?case by (cases xs) (auto simp: assms)
qed

lemma res_map_length: "res_map f xs = Inr ys \<Longrightarrow> length ys = length xs"
  by (induction xs arbitrary: ys) auto

lemma res_fold_append:
  "res_fold f (xs @ ys) s = res_bind (res_fold f xs s) (res_fold f ys)"
  by (induction xs arbitrary: s) (auto simp: res_bind_def split: sum.splits)

lemma res_fold_total:
  "(\<And>x s. x \<in> set xs \<Longrightarrow> \<exists>s'. f x s = Inr s') \<Longrightarrow> \<exists>s'. res_fold f xs s = Inr s'"
proof (induction xs arbitrary: s)
  case (Cons x xs)
  then obtain s1 where "f x s = Inr s1"
    by (meson list.set_intros(1))
  then show ?case
    using Cons by simp
qed simp

section \<open>Slices\<close>

text \<open>
  Consecutive slices of \<open>n\<close> elements: what \<open>xs[i : i + n] for i in range(0, len(xs), n)\<close> and
  repeated reads of \<open>n\<close> bytes up to the first empty one yield.
\<close>

function slices :: "nat \<Rightarrow> 'a list \<Rightarrow> 'a list list" where
  "slices n xs = (if n = 0 \<or> xs = [] then [] else take n xs # slices n (drop n xs))"
  by pat_completeness auto
termination by (relation "measure (\<lambda>(n, xs). length xs)") auto

declare slices.simps [simp del]

lemma concat_slices: "0 < n \<Longrightarrow> concat (slices n xs) = xs"
proof (induction n xs rule: slices.induct)
  case (1 n xs)
  then show ?case
    by (subst slices.simps) simp
qed

lemma slices_bounds: "ys \<in> set (slices n xs) \<Longrightarrow> ys \<noteq> [] \<and> length ys \<le> n \<and> set ys \<subseteq> set xs"
proof (induction n xs rule: slices.induct)
  case (1 n xs)
  show ?case
  proof (cases "n = 0 \<or> xs = []")
    case True
    then show ?thesis
      using "1.prems" by (simp add: slices.simps)
  next
    case False
    then have "ys = take n xs \<or> ys \<in> set (slices n (drop n xs))"
      using "1.prems" by (simp add: slices.simps [of n xs])
    then show ?thesis
    proof
      assume "ys = take n xs"
      then show ?thesis
        using False set_take_subset [of n xs] by simp
    next
      assume "ys \<in> set (slices n (drop n xs))"
      then show ?thesis
        using "1.IH" False set_drop_subset [of n xs] by blast
    qed
  qed
qed

section \<open>Dictionaries\<close>

type_synonym ('k, 'v) dict = "('k \<times> 'v) list"

definition dict_get :: "('k, 'v) dict \<Rightarrow> 'k \<Rightarrow> 'v \<Rightarrow> 'v" where
  "dict_get d k dflt = (case map_of d k of None \<Rightarrow> dflt | Some v \<Rightarrow> v)"

definition dict_item :: "('k, 'v) dict \<Rightarrow> 'k \<Rightarrow> 'v res" where
  "dict_item d k = (case map_of d k of None \<Rightarrow> Inl (KeyError []) | Some v \<Rightarrow> Inr v)"

definition dict_wf :: "('k, 'v) dict \<Rightarrow> bool" where
  "dict_wf d \<longleftrightarrow> distinct (map fst d)"

lemma map_of_dict_update [simp]:
  "map_of (AList.update k v d) = (map_of d)(k \<mapsto> v)"
  by (rule update_conv')

lemma dict_wf_update: "dict_wf d \<Longrightarrow> dict_wf (AList.update k v d)"
  unfolding dict_wf_def by (rule distinct_update)

lemma dict_get_update:
  "dict_get (AList.update k v d) k' dflt = (if k' = k then v else dict_get d k' dflt)"
  by (simp add: dict_get_def update_conv')

lemma dict_keys_update [simp]:
  "fst ` set (AList.update k v d) = insert k (fst ` set d)"
  by (simp add: dom_update)

lemma set_AList_update: "set (AList.update k v d) \<subseteq> insert (k, v) (set d)"
  by (induction d) auto

text \<open>\<open>dict.fromkeys(xs)\<close>: the distinct elements in the order of their first occurrence.\<close>

primrec dedup_first :: "'a list \<Rightarrow> 'a list" where
  "dedup_first [] = []"
| "dedup_first (x # xs) = x # removeAll x (dedup_first xs)"

lemma set_dedup_first [simp]: "set (dedup_first xs) = set xs"
  by (induction xs) auto

lemma distinct_dedup_first [simp]: "distinct (dedup_first xs)"
  by (induction xs) (auto simp: distinct_removeAll)

lemma dedup_first_distinct: "distinct xs \<Longrightarrow> dedup_first xs = xs"
  by (induction xs) (auto simp: removeAll_id)

lemma dedup_first_Nil_iff [simp]: "dedup_first xs = [] \<longleftrightarrow> xs = []"
  by (cases xs) auto

section \<open>Python strings\<close>

definition py_isspace :: "char \<Rightarrow> bool" where
  "py_isspace c \<longleftrightarrow>
     (let n = (of_char c :: nat) in
      9 \<le> n \<and> n \<le> 13 \<or> 28 \<le> n \<and> n \<le> 32 \<or> n = 133 \<or> n = 160)"

definition py_isdigit :: "char \<Rightarrow> bool" where
  "py_isdigit c \<longleftrightarrow> (let n = (of_char c :: nat) in 48 \<le> n \<and> n \<le> 57)"

text \<open>\<open>s.lower()\<close> on the characters of Latin-1.\<close>

definition py_lower_char :: "char \<Rightarrow> char" where
  "py_lower_char c =
     (let n = (of_char c :: nat) in
      if 65 \<le> n \<and> n \<le> 90 \<or> 192 \<le> n \<and> n \<le> 222 \<and> n \<noteq> 215 then char_of (n + 32) else c)"

definition py_lower :: "string \<Rightarrow> string" where
  "py_lower s = map py_lower_char s"

definition py_lstrip :: "string \<Rightarrow> string" where
  "py_lstrip s = dropWhile py_isspace s"

definition py_strip :: "string \<Rightarrow> string" where
  "py_strip s = rev (dropWhile py_isspace (rev (py_lstrip s)))"

text \<open>\<open>s.split(c)\<close> for a one-character separator, and its inverse \<open>c.join(parts)\<close>.\<close>

fun py_split :: "char \<Rightarrow> string \<Rightarrow> string list" where
  "py_split c [] = [[]]"
| "py_split c (x # xs) =
     (if x = c then [] # py_split c xs
      else (case py_split c xs of [] \<Rightarrow> [[x]] | p # ps \<Rightarrow> (x # p) # ps))"

fun py_join :: "string \<Rightarrow> string list \<Rightarrow> string" where
  "py_join sep [] = []"
| "py_join sep [s] = s"
| "py_join sep (s # t # ss) = s @ sep @ py_join sep (t # ss)"

definition py_startswith :: "string \<Rightarrow> string \<Rightarrow> bool" where
  "py_startswith s p \<longleftrightarrow> take (length p) s = p"

definition py_endswith :: "string \<Rightarrow> string \<Rightarrow> bool" where
  "py_endswith s p \<longleftrightarrow> length p \<le> length s \<and> drop (length s - length p) s = p"

definition py_removeprefix :: "string \<Rightarrow> string \<Rightarrow> string" where
  "py_removeprefix s p = (if py_startswith s p then drop (length p) s else s)"

definition py_removesuffix :: "string \<Rightarrow> string \<Rightarrow> string" where
  "py_removesuffix s p = (if py_endswith s p then take (length s - length p) s else s)"

lemma py_strip_id: "(\<And>c. c \<in> set s \<Longrightarrow> \<not> py_isspace c) \<Longrightarrow> py_strip s = s"
proof -
  assume "\<And>c. c \<in> set s \<Longrightarrow> \<not> py_isspace c"
  then have "dropWhile py_isspace s = s" "dropWhile py_isspace (rev s) = rev s"
    by (cases s, simp_all) (metis dropWhile_eq_self_iff hd_in_set rev.simps(2) rev_is_Nil_conv set_rev)
  then show ?thesis by (simp add: py_strip_def py_lstrip_def)
qed

lemma py_split_nonempty [simp]: "py_split c s \<noteq> []"
  by (cases s) (auto split: list.splits)

lemma py_split_no_sep: "p \<in> set (py_split c s) \<Longrightarrow> c \<notin> set p"
  by (induction s arbitrary: p) (auto split: if_splits list.splits)

lemma py_split_id: "c \<notin> set s \<Longrightarrow> py_split c s = [s]"
  by (induction s) auto

lemma py_split_append:
  "c \<notin> set s \<Longrightarrow> py_split c (s @ c # t) = s # py_split c t"
  by (induction s) auto

lemma py_join_split: "py_join [c] (py_split c s) = s"
proof (induction s)
  case Nil
  then show ?case by simp
next
  case (Cons x xs)
  obtain p ps where ps: "py_split c xs = p # ps"
    by (cases "py_split c xs") auto
  show ?case
    using Cons ps by (cases ps) auto
qed

lemma py_split_join:
  "parts \<noteq> [] \<Longrightarrow> (\<forall>p\<in>set parts. c \<notin> set p) \<Longrightarrow> py_split c (py_join [c] parts) = parts"
proof (induction parts rule: induct_list012)
  case 1
  then show ?case by simp
next
  case (2 p)
  then show ?case by (simp add: py_split_id)
next
  case (3 p q ps)
  then show ?case by (simp add: py_split_append)
qed

lemma py_removesuffix_append [simp]: "py_removesuffix (s @ p) p = s"
  by (simp add: py_removesuffix_def py_endswith_def)

lemma py_removeprefix_append [simp]: "py_removeprefix (p @ s) p = s"
  by (simp add: py_removeprefix_def py_startswith_def)

lemma py_endswith_append [simp]: "py_endswith (s @ p) p"
  by (simp add: py_endswith_def)

lemma py_endswith_iff: "py_endswith s p \<longleftrightarrow> (\<exists>t. s = t @ p)"
  by (metis append_take_drop_id py_endswith_append py_endswith_def)

text \<open>Decimal rendering of integers (\<open>str(i)\<close>, \<open>f"{i:06d}"\<close>).\<close>

definition digit_char :: "nat \<Rightarrow> char" where
  "digit_char d = ''0123456789'' ! d"

fun nat_digits :: "nat \<Rightarrow> string" where
  "nat_digits n = (if n < 10 then [digit_char n] else nat_digits (n div 10) @ [digit_char (n mod 10)])"

declare nat_digits.simps [simp del]

definition py_str_int :: "int \<Rightarrow> string" where
  "py_str_int i = (if i < 0 then CHR ''-'' # nat_digits (nat (- i)) else nat_digits (nat i))"

definition zero_pad :: "nat \<Rightarrow> nat \<Rightarrow> string" where
  "zero_pad w n = replicate (w - length (nat_digits n)) (CHR ''0'') @ nat_digits n"

definition digit_val :: "char \<Rightarrow> nat" where
  "digit_val c = of_char c - 48"

definition nat_of_digits :: "string \<Rightarrow> nat" where
  "nat_of_digits s = foldl (\<lambda>acc c. 10 * acc + digit_val c) 0 s"

lemma digit_cases: "d < 10 \<Longrightarrow> d \<in> {0, 1, 2, 3, 4, 5, 6, 7, 8, 9 :: nat}"
  by auto

lemma digit_char_props:
  assumes "d < 10"
  shows "py_isdigit (digit_char d)" and "digit_val (digit_char d) = d"
  using digit_cases [OF assms]
  by (auto simp: digit_char_def py_isdigit_def digit_val_def Let_def)

lemma nat_digits_all_digits: "c \<in> set (nat_digits n) \<Longrightarrow> py_isdigit c"
proof (induction n rule: nat_digits.induct)
  case (1 n)
  then show ?case
    by (subst (asm) nat_digits.simps) (auto split: if_splits intro: digit_char_props)
qed

lemma nat_digits_nonempty [simp]: "nat_digits n \<noteq> []"
  by (subst nat_digits.simps) simp

lemma nat_of_digits_snoc: "nat_of_digits (s @ [c]) = 10 * nat_of_digits s + digit_val c"
  by (simp add: nat_of_digits_def)

lemma nat_of_digits_nat_digits [simp]: "nat_of_digits (nat_digits n) = n"
proof (induction n rule: nat_digits.induct)
  case (1 n)
  show ?case
  proof (cases "n < 10")
    case True
    then show ?thesis
      by (subst nat_digits.simps) (simp add: nat_of_digits_def digit_char_props)
  next
    case False
    then have "nat_of_digits (nat_digits (n div 10)) = n div 10"
      by (rule "1.IH")
    moreover have "digit_val (digit_char (n mod 10)) = n mod 10"
      by (rule digit_char_props) simp
    ultimately show ?thesis
      using False by (subst nat_digits.simps) (simp add: nat_of_digits_snoc)
  qed
qed

lemma nat_digits_inject [simp]: "nat_digits m = nat_digits n \<longleftrightarrow> m = n"
  by (metis nat_of_digits_nat_digits)

lemma not_digit_not_in_digits: "\<not> py_isdigit c \<Longrightarrow> c \<notin> set (nat_digits n)"
  using nat_digits_all_digits by blast

lemma minus_notin_digits [simp]: "CHR ''-'' \<notin> set (nat_digits n)"
  by (rule not_digit_not_in_digits) (simp add: py_isdigit_def)

lemma colon_notin_digits [simp]: "CHR '':'' \<notin> set (nat_digits n)"
  by (rule not_digit_not_in_digits) (simp add: py_isdigit_def)

lemma colon_notin_str_int [simp]: "CHR '':'' \<notin> set (py_str_int i)"
  by (simp add: py_str_int_def)

lemma py_str_int_inject [simp]: "py_str_int i = py_str_int j \<longleftrightarrow> i = j"
proof -
  have "nat_digits m \<noteq> CHR ''-'' # t" for m t
    by (metis list.set_intros(1) minus_notin_digits)
  then show ?thesis
    by (auto simp: py_str_int_def dest: sym)
qed

lemma nat_of_digits_zeros [simp]:
  "nat_of_digits (replicate k (CHR ''0'') @ s) = nat_of_digits s"
proof -
  have "foldl (\<lambda>acc c. 10 * acc + digit_val c) 0 (replicate k (CHR ''0'')) = 0"
    by (induction k) (simp_all add: digit_val_def)
  then show ?thesis by (simp add: nat_of_digits_def)
qed

lemma zero_pad_inject [simp]: "zero_pad w m = zero_pad w n \<longleftrightarrow> m = n"
  by (metis nat_of_digits_nat_digits nat_of_digits_zeros zero_pad_def)

section \<open>Table cells and JSON values\<close>

datatype cell = CNull | CInt int | CStr string

definition cell_str :: "cell \<Rightarrow> string" where
  "cell_str c = (case c of CNull \<Rightarrow> ''None'' | CInt i \<Rightarrow> py_str_int i | CStr s \<Rightarrow> s)"

text \<open>
  \<open>int(s)\<close> of a string: surrounding white space, one sign, decimal digits with single
  underscores between them.
\<close>

fun int_digits_ok :: "string \<Rightarrow> bool" where
  "int_digits_ok [] = False"
| "int_digits_ok [c] = py_isdigit c"
| "int_digits_ok (c # d # s) =
     (py_isdigit c \<and> (if d = CHR ''_'' then int_digits_ok s else int_digits_ok (d # s)))"

lemma zero_pad_digits: "c \<in> set (zero_pad w n) \<Longrightarrow> py_isdigit c"
  by (auto simp: zero_pad_def py_isdigit_def nat_digits_all_digits [unfolded py_isdigit_def])

lemma int_digits_ok_digits: "s \<noteq> [] \<Longrightarrow> \<forall>c\<in>set s. py_isdigit c \<Longrightarrow> int_digits_ok s"
proof (induction s rule: int_digits_ok.induct)
  case (3 c d s)
  then have "d \<noteq> CHR ''_''"
    by (auto simp: py_isdigit_def)
  then show ?case
    using 3 by simp
qed simp_all

lemma isdigit_not_space: "py_isdigit c \<Longrightarrow> \<not> py_isspace c"
  by (auto simp: py_isdigit_def py_isspace_def Let_def)

definition parse_unsigned :: "string \<Rightarrow> int res" where
  "parse_unsigned s =
     (if int_digits_ok s then Inr (int (nat_of_digits (filter py_isdigit s)))
      else Inl (ValueError ''invalid literal for int()''))"

definition py_int_str :: "string \<Rightarrow> int res" where
  "py_int_str s =
     (case py_strip s of
        [] \<Rightarrow> Inl (ValueError ''invalid literal for int()'')
      | c # t \<Rightarrow>
          if c = CHR ''-'' then res_bind (parse_unsigned t) (\<lambda>n. Inr (- n))
          else if c = CHR ''+'' then parse_unsigned t
          else parse_unsigned (c # t))"

definition cell_int :: "cell \<Rightarrow> int res" where
  "cell_int c =
     (case c of
        CNull \<Rightarrow> Inl (TypeError ''int() argument must be a string or a number'')
      | CInt i \<Rightarrow> Inr i
      | CStr s \<Rightarrow> py_int_str s)"

datatype json =
    JNull
  | JBool bool
  | JInt int
  | JStr string
  | JList "json list"
  | JObj "(string \<times> json) list"

text \<open>
  Cells are ordered null first, then integers, then strings. Python compares two cells of
  different classes only by equality; where the code sorts cells, \<open>cells_comparable\<close> says
  whether the sort goes through.
\<close>

instantiation cell :: linorder
begin

definition less_eq_cell :: "cell \<Rightarrow> cell \<Rightarrow> bool" where
  "less_eq_cell a b =
     (case a of
        CNull \<Rightarrow> True
      | CInt i \<Rightarrow> (case b of CNull \<Rightarrow> False | CInt j \<Rightarrow> i \<le> j | CStr t \<Rightarrow> True)
      | CStr s \<Rightarrow> (case b of CNull \<Rightarrow> False | CInt j \<Rightarrow> False | CStr t \<Rightarrow> s \<le> t))"

definition less_cell :: "cell \<Rightarrow> cell \<Rightarrow> bool" where
  "less_cell a b \<longleftrightarrow> a \<le> b \<and> \<not> b \<le> (a :: cell)"

instance
  by standard (auto simp: less_eq_cell_def less_cell_def split: cell.splits)

end

definition same_class :: "cell \<Rightarrow> cell \<Rightarrow> bool" where
  "same_class a b \<longleftrightarrow>
     (case a of
        CNull \<Rightarrow> b = CNull
      | CInt i \<Rightarrow> (case b of CInt j \<Rightarrow> True | _ \<Rightarrow> False)
      | CStr s \<Rightarrow> (case b of CStr t \<Rightarrow> True | _ \<Rightarrow> False))"

definition cells_comparable :: "cell list \<Rightarrow> bool" where
  "cells_comparable cs \<longleftrightarrow> (\<forall>a\<in>set cs. \<forall>b\<in>set cs. same_class a b)"

text \<open>\<open>[d[k] for k in sorted(d)]\<close>.\<close>

definition dict_sorted_values :: "('k::linorder, 'v) dict \<Rightarrow> 'v list" where
  "dict_sorted_values d = map (\<lambda>k. the (map_of d k)) (sort (map fst d))"

lemma dict_update_same: "map_of d k = Some v \<Longrightarrow> AList.update k v d = d"
  by (induction d) auto

lemma dict_update_new: "map_of d k = None \<Longrightarrow> AList.update k v d = d @ [(k, v)]"
  by (induction d) auto

lemma map_of_wf_iff: "dict_wf d \<Longrightarrow> map_of d k = Some v \<longleftrightarrow> (k, v) \<in> set d"
  by (simp add: dict_wf_def)

lemma set_dict_sorted_values: "dict_wf d \<Longrightarrow> set (dict_sorted_values d) = snd ` set d"
proof -
  assume wf: "dict_wf d"
  have "set (dict_sorted_values d) = (\<lambda>k. the (map_of d k)) ` fst ` set d"
    by (simp add: dict_sorted_values_def)
  also have "\<dots> = snd ` set d"
    unfolding image_image
    using wf by (intro image_cong) (auto simp: dict_wf_def)
  finally show ?thesis .
qed

lemma length_dict_sorted_values [simp]: "length (dict_sorted_values d) = length d"
  by (simp add: dict_sorted_values_def)

lemma dict_sorted_values_unique:
  assumes "dict_wf d" "dict_wf e" "set d = set e"
  shows "dict_sorted_values d = dict_sorted_values e"
proof -
  have "map_of d = map_of e"
    using assms by (metis dict_wf_def map_of_inject_set)
  moreover have "sort (map fst d) = sort (map fst e)"
    using assms by (metis dict_wf_def list.set_map mset_map properties_for_sort set_eq_iff_mset_eq_distinct
        sorted_sort mset_sort)
  ultimately show ?thesis by (simp add: dict_sorted_values_def)
qed

lemma dict_sorted_values_keys:
  assumes "dict_wf d" "\<And>k v. (k, v) \<in> set d \<Longrightarrow> f v = k"
  shows "map f (dict_sorted_values d) = sort (map fst d)"
proof -
  have "f (the (map_of d k)) = k" if "k \<in> set (map fst d)" for k
    using that assms by (auto simp: map_of_wf_iff [OF assms(1)] dict_wf_def)
  then show ?thesis by (auto simp: dict_sorted_values_def intro!: map_idI)
qed

end
