(* ===== verification/Osm_Domain.thy ===== *)
theory Osm_Domain
  imports Prelude
begin

text \<open>
  The pure domain rules of \<^verbatim>\<open>src/src/osm_polygon_wikidata_only/domain\<close>: the element filter
  (\<^verbatim>\<open>filters.py\<close>), stable identifiers (\<^verbatim>\<open>ids.py\<close>, \<^verbatim>\<open>v2/models.py\<close>), the path-safety predicate
  (\<^verbatim>\<open>stems.py\<close>), QID parsing (\<^verbatim>\<open>wikidata_qids.py\<close>) and the analysis labels (\<^verbatim>\<open>analysis.py\<close>).
\<close>

section \<open>Element filter\<close>

definition has_wikidata :: "(string, string) dict \<Rightarrow> bool" where
  "has_wikidata tags \<longleftrightarrow> py_strip (dict_get tags ''wikidata'' []) \<noteq> []"

section \<open>Identifiers\<close>

definition polygon_id :: "string \<Rightarrow> string \<Rightarrow> int \<Rightarrow> string" where
  "polygon_id source_pbf_stem osm_type osm_id =
     source_pbf_stem @ '':'' @ osm_type @ '':'' @ py_str_int osm_id"

definition article_id :: "string \<Rightarrow> string \<Rightarrow> int \<Rightarrow> int \<Rightarrow> string" where
  "article_id wikidata language page_id revision_id =
     wikidata @ '':'' @ language @ '':'' @ py_str_int page_id @ '':'' @ py_str_int revision_id"

definition v2_prefix :: "string option \<Rightarrow> string" where
  "v2_prefix wikidata = (case wikidata of None \<Rightarrow> ''osm'' | Some q \<Rightarrow> if q = [] then ''osm'' else q)"

definition v2_document_id :: "string option \<Rightarrow> string \<Rightarrow> int \<Rightarrow> int \<Rightarrow> string" where
  "v2_document_id wikidata language page_id revision_id =
     v2_prefix wikidata @ '':wikipedia:'' @ language @ '':'' @ py_str_int page_id @ '':''
       @ py_str_int revision_id"

definition v2_article_id :: "string option \<Rightarrow> string \<Rightarrow> int \<Rightarrow> int \<Rightarrow> string" where
  "v2_article_id wikidata language page_id revision_id =
     v2_prefix wikidata @ '':'' @ language @ '':'' @ py_str_int page_id @ '':''
       @ py_str_int revision_id"

text \<open>The sidecar identifier of \<^verbatim>\<open>augmentation/models.py\<close>.\<close>

definition document_id :: "string \<Rightarrow> string \<Rightarrow> string \<Rightarrow> int \<Rightarrow> int \<Rightarrow> string" where
  "document_id wikidata project language page_id revision_id =
     wikidata @ '':'' @ project @ '':'' @ language @ '':'' @ py_str_int page_id @ '':''
       @ py_str_int revision_id"

section \<open>Path-safe stems\<close>

definition is_safe_stem :: "json \<Rightarrow> bool" where
  "is_safe_stem stem =
     (case stem of
        JStr s \<Rightarrow> s \<noteq> [] \<and> s \<notin> {''.'', ''..''} \<and> CHR ''/'' \<notin> set s \<and> CHR 0x5C \<notin> set s
      | _ \<Rightarrow> False)"

definition require_safe_stem :: "string \<Rightarrow> exn \<Rightarrow> string res" where
  "require_safe_stem stem err = (if \<not> is_safe_stem (JStr stem) then Inl err else Inr stem)"

section \<open>Wikidata QIDs\<close>

text \<open>\<open>re.compile(r"^Q[1-9]\d*$").fullmatch\<close>.\<close>

fun is_valid_qid :: "string \<Rightarrow> bool" where
  "is_valid_qid (q # d # ds) =
     (q = CHR ''Q'' \<and> py_isdigit d \<and> d \<noteq> CHR ''0'' \<and> list_all py_isdigit ds)"
| "is_valid_qid _ = False"

definition qids_from_osm_tag :: "string \<Rightarrow> string list" where
  "qids_from_osm_tag value =
     (let components = map py_strip (py_split (CHR '';'') value)
      in if list_ex (\<lambda>c. \<not> is_valid_qid c) components then [] else dedup_first components)"

section \<open>Analysis labels\<close>

definition AREA_BUCKETS :: "(real \<times> string) list" where
  "AREA_BUCKETS =
     [(100, ''<100m2''), (1000, ''100m2-1k_m2''), (10000, ''1k_m2-10k_m2''),
      (100000, ''10k_m2-100k_m2''), (1000000, ''0.1-1km2''), (10000000, ''1-10km2''),
      (100000000, ''10-100km2'')]"

definition INF_BUCKET :: string where
  "INF_BUCKET = ''>100km2''"

fun first_bucket :: "real \<Rightarrow> (real \<times> string) list \<Rightarrow> string" where
  "first_bucket area [] = INF_BUCKET"
| "first_bucket area ((upper, label) # bs) = (if area < upper then label else first_bucket area bs)"

definition area_bucket :: "real \<Rightarrow> string" where
  "area_bucket area_m2 = (if area_m2 < 0 then ''<100m2'' else first_bucket area_m2 AREA_BUCKETS)"

definition PRIMARY_TAG_PREFERENCE :: "string list" where
  "PRIMARY_TAG_PREFERENCE =
     [''boundary'', ''landuse'', ''natural'', ''place'', ''building'', ''leisure'', ''amenity'',
      ''waterway'', ''highway'', ''aeroway'', ''railway'', ''man_made'', ''historic'', ''tourism'',
      ''shop'', ''office'', ''craft'', ''public_transport'']"

fun first_tag :: "(string, string) dict \<Rightarrow> string list \<Rightarrow> string" where
  "first_tag tags [] = []"
| "first_tag tags (key # keys) =
     (if dict_get tags key [] \<noteq> [] then key @ ''='' @ dict_get tags key [] else first_tag tags keys)"

definition osm_primary_tag :: "(string, string) dict \<Rightarrow> string" where
  "osm_primary_tag tags = first_tag tags PRIMARY_TAG_PREFERENCE"

section \<open>Facts about QIDs and stems\<close>

lemma is_valid_qid_chars:
  "is_valid_qid s \<Longrightarrow> c \<in> set s \<Longrightarrow> c = CHR ''Q'' \<or> py_isdigit c"
  by (induction s rule: is_valid_qid.induct) (auto simp: list_all_iff)

lemma is_valid_qid_nonempty: "is_valid_qid s \<Longrightarrow> s \<noteq> []"
  by (cases s) auto

lemma digit_not_space: "py_isdigit c \<Longrightarrow> \<not> py_isspace c"
  by (auto simp: py_isdigit_def py_isspace_def Let_def)

lemma qid_not_space: "is_valid_qid s \<Longrightarrow> c \<in> set s \<Longrightarrow> \<not> py_isspace c"
  using is_valid_qid_chars [of s c] digit_not_space by (auto simp: py_isspace_def)

lemma qid_no_char: "is_valid_qid s \<Longrightarrow> c \<noteq> CHR ''Q'' \<Longrightarrow> \<not> py_isdigit c \<Longrightarrow> c \<notin> set s"
  using is_valid_qid_chars by blast

lemma qid_no_semicolon: "is_valid_qid s \<Longrightarrow> CHR '';'' \<notin> set s"
  by (rule qid_no_char) (auto simp: py_isdigit_def)

lemma qid_no_colon: "is_valid_qid s \<Longrightarrow> CHR '':'' \<notin> set s"
  by (rule qid_no_char) (auto simp: py_isdigit_def)

lemma py_strip_qid: "is_valid_qid s \<Longrightarrow> py_strip s = s"
  by (rule py_strip_id) (rule qid_not_space)

lemma space_no_semicolon: "list_all py_isspace pad \<Longrightarrow> CHR '';'' \<notin> set pad"
  by (auto simp: list_all_iff py_isspace_def)

lemma py_strip_padded_qid:
  assumes "is_valid_qid q" and "\<forall>c\<in>set pad. py_isspace c"
  shows "py_strip (pad @ q @ pad) = q"
proof -
  obtain c t where q: "q = c # t"
    using is_valid_qid_nonempty [OF assms(1)] by (cases q) auto
  have "\<not> py_isspace c"
    using qid_not_space [OF assms(1)] q by simp
  then have left: "py_lstrip (pad @ q @ pad) = q @ pad"
    using assms(2) q by (simp add: py_lstrip_def dropWhile_append2)
  have "dropWhile py_isspace (rev pad @ rev q) = dropWhile py_isspace (rev q)"
    using assms(2) by (intro dropWhile_append2) auto
  moreover have "rev (dropWhile py_isspace (rev (py_lstrip q))) = q"
    using py_strip_qid [OF assms(1)] by (simp add: py_strip_def)
  moreover have "py_lstrip q = q"
    using \<open>\<not> py_isspace c\<close> q by (simp add: py_lstrip_def)
  ultimately show ?thesis
    by (simp add: py_strip_def left)
qed

lemma qids_from_osm_tag_mem:
  "q \<in> set (qids_from_osm_tag value) \<Longrightarrow>
     is_valid_qid q \<and> (\<exists>part\<in>set (py_split (CHR '';'') value). py_strip part = q)"
  by (auto simp: qids_from_osm_tag_def Let_def list_ex_iff split: if_splits)

lemma qids_from_osm_tag_distinct: "distinct (qids_from_osm_tag value)"
  by (simp add: qids_from_osm_tag_def Let_def)

lemma qids_from_single: "is_valid_qid q \<Longrightarrow> qids_from_osm_tag q = [q]"
  by (simp add: qids_from_osm_tag_def Let_def py_split_id qid_no_semicolon py_strip_qid)

section \<open>Facts about identifiers and labels\<close>

lemma first_sep_split:
  "c \<notin> set a \<Longrightarrow> c \<notin> set a' \<Longrightarrow> a @ c # b = a' @ c # b' \<Longrightarrow> a = a' \<and> b = b'"
proof (induction a arbitrary: a')
  case Nil
  then show ?case by (cases a') auto
next
  case (Cons x a)
  then show ?case by (cases a') auto
qed

lemma last_colon_split:
  assumes "c \<notin> set t" "c \<notin> set t'" "s @ [c] @ t = s' @ [c] @ t'"
  shows "t = t' \<and> s = s'"
proof -
  have "rev t @ c # rev s = rev t' @ c # rev s'"
    using arg_cong [OF assms(3), of rev] by simp
  then have "rev t = rev t' \<and> rev s = rev s'"
    using first_sep_split [of c "rev t" "rev t'" "rev s" "rev s'"] assms(1,2) by simp
  then show ?thesis by simp
qed

lemma first_bucket_count:
  "sorted (map fst bs) \<Longrightarrow>
     first_bucket a bs = (map snd bs @ [INF_BUCKET]) ! length (filter (\<lambda>(upper, _). upper \<le> a) bs)"
proof (induction bs)
  case Nil
  then show ?case by simp
next
  case (Cons b bs)
  obtain u l where b: "b = (u, l)" by force
  have "filter (\<lambda>(upper, _). upper \<le> a) bs = []" if "a < u"
    using that Cons.prems b by (force simp: filter_empty_conv)
  then show ?case
    using Cons b by (auto simp: not_less)
qed

lemma sorted_AREA_BUCKETS: "sorted (map fst AREA_BUCKETS)"
  by (simp add: AREA_BUCKETS_def)

lemma filter_length_mono:
  "(\<And>x. x \<in> set xs \<Longrightarrow> P x \<Longrightarrow> Q x) \<Longrightarrow> length (filter P xs) \<le> length (filter Q xs)"
  by (induction xs) (auto intro: le_SucI)

lemma first_tag_find:
  "first_tag tags ks =
     (case List.find (\<lambda>k. dict_get tags k [] \<noteq> []) ks of
        None \<Rightarrow> []
      | Some k \<Rightarrow> k @ ''='' @ dict_get tags k [])
   \<and> (first_tag tags ks = [] \<longleftrightarrow> list_all (\<lambda>k. dict_get tags k [] = []) ks)"
  by (induction ks) auto

section \<open>Properties\<close>

text \<open>
  Parsing a \<^verbatim>\<open>wikidata=*\<close> value never drops source data: the result is empty exactly when some
  component is malformed; otherwise it is the list of all trimmed components without repetitions,
  each of them a valid QID.
\<close>

theorem qids_from_osm_tag_lossless:
  "(if \<forall>part\<in>set (py_split (CHR '';'') value). is_valid_qid (py_strip part)
    then qids_from_osm_tag value \<noteq> []
      \<and> set (qids_from_osm_tag value) = py_strip ` set (py_split (CHR '';'') value)
    else qids_from_osm_tag value = [])
   \<and> distinct (qids_from_osm_tag value)
   \<and> list_all is_valid_qid (qids_from_osm_tag value)"
  by (auto simp: qids_from_osm_tag_def Let_def list_ex_iff list_all_iff)

theorem qids_from_osm_tag_lossless_witness:
  "list_all (\<lambda>part. is_valid_qid (py_strip part)) (py_split (CHR '';'') ''Q2; Q1;Q2'')
   \<and> qids_from_osm_tag ''Q2; Q1;Q2'' \<noteq> []
   \<and> set (qids_from_osm_tag ''Q2; Q1;Q2'') = {''Q1'', ''Q2''}"
proof -
  have ok: "\<forall>part\<in>set (py_split (CHR '';'') ''Q2; Q1;Q2''). is_valid_qid (py_strip part)"
    by code_simp
  have parts: "py_strip ` set (py_split (CHR '';'') ''Q2; Q1;Q2'') = {''Q1'', ''Q2''}"
    by code_simp
  have "qids_from_osm_tag ''Q2; Q1;Q2'' \<noteq> []
      \<and> set (qids_from_osm_tag ''Q2; Q1;Q2'') = {''Q1'', ''Q2''}"
    using qids_from_osm_tag_lossless [of "''Q2; Q1;Q2''"]
    unfolding if_P [OF ok] parts by (elim conjE, intro conjI)
  then show ?thesis
    unfolding list_all_iff by (rule conjI [OF ok])
qed

text \<open>
  Round trip: joining any non-empty list of distinct valid QIDs with semicolons, with any
  white space around each of them, and parsing the value gives the list back in order.
\<close>

theorem qids_roundtrip:
  assumes "qs \<noteq> []" and "distinct qs" and "list_all is_valid_qid qs"
    and "list_all py_isspace pad"
  shows "qids_from_osm_tag (py_join '';'' (map (\<lambda>q. pad @ q @ pad) qs)) = qs"
proof -
  have split: "py_split (CHR '';'') (py_join '';'' (map (\<lambda>q. pad @ q @ pad) qs)) =
      map (\<lambda>q. pad @ q @ pad) qs"
    using assms space_no_semicolon qid_no_semicolon
    by (intro py_split_join) (auto simp: list_all_iff)
  have strip: "map py_strip (map (\<lambda>q. pad @ q @ pad) qs) = qs"
    using assms(3,4) by (auto simp: list_all_iff py_strip_padded_qid intro: map_idI)
  show ?thesis
    using assms unfolding qids_from_osm_tag_def split strip Let_def
    by (auto simp: list_ex_iff list_all_iff dedup_first_distinct)
qed

theorem qids_roundtrip_witness:
  "[''Q5'', ''Q12''] \<noteq> [] \<and> distinct [''Q5'', ''Q12''] \<and> list_all is_valid_qid [''Q5'', ''Q12'']
   \<and> list_all py_isspace '' ''
   \<and> qids_from_osm_tag (py_join '';'' (map (\<lambda>q. '' '' @ q @ '' '') [''Q5'', ''Q12''])) = [''Q5'', ''Q12'']"
proof -
  have h: "[''Q5'', ''Q12''] \<noteq> []" "distinct [''Q5'', ''Q12'']"
    "list_all is_valid_qid [''Q5'', ''Q12'']" "list_all py_isspace '' ''"
    by code_simp+
  show ?thesis
    using h qids_roundtrip [OF h] by blast
qed

text \<open>
  Polygon identifiers are unambiguous: for OSM element types without a colon (the code uses
  \<open>way\<close> and \<open>relation\<close>) equal identifiers have equal stem, type and id, whatever the stem holds.
\<close>

theorem polygon_id_inject:
  assumes "CHR '':'' \<notin> set t" and "CHR '':'' \<notin> set t'"
    and "polygon_id s t i = polygon_id s' t' i'"
  shows "s = s' \<and> t = t' \<and> i = i'"
proof -
  have "py_str_int i = py_str_int i' \<and> s @ '':'' @ t = s' @ '':'' @ t'"
    using last_colon_split [of "CHR '':''" "py_str_int i" "py_str_int i'" "s @ '':'' @ t" "s' @ '':'' @ t'"] assms(3)
    by (simp add: polygon_id_def)
  then show ?thesis
    using last_colon_split [OF assms(1,2), of s s'] by simp
qed

theorem polygon_id_inject_witness:
  "CHR '':'' \<notin> set ''way'' \<and> polygon_id ''a:b'' ''way'' 7 = polygon_id ''a:b'' ''way'' 7 \<and> (7::int) = 7"
proof -
  have h: "CHR '':'' \<notin> set ''way''" by simp
  show ?thesis
    using h polygon_id_inject [OF h h refl, of "''a:b''" 7] by blast
qed

text \<open>
  The area label is a function of how many thresholds the area reaches: boundaries are
  inclusive at the lower end, every area has a label, and larger areas never get an earlier label.
\<close>

theorem area_bucket_by_threshold:
  "area_bucket a =
     (map snd AREA_BUCKETS @ [INF_BUCKET]) ! length (filter (\<lambda>(upper, _). upper \<le> a) AREA_BUCKETS)
   \<and> (a \<le> b \<longrightarrow> length (filter (\<lambda>(upper, _). upper \<le> a) AREA_BUCKETS)
              \<le> length (filter (\<lambda>(upper, _). upper \<le> b) AREA_BUCKETS))"
proof
  show "area_bucket a =
     (map snd AREA_BUCKETS @ [INF_BUCKET]) ! length (filter (\<lambda>(upper, _). upper \<le> a) AREA_BUCKETS)"
  proof (cases "a < 0")
    case True
    then show ?thesis
      by (simp add: area_bucket_def AREA_BUCKETS_def)
  next
    case False
    then show ?thesis
      using first_bucket_count [of AREA_BUCKETS a] sorted_AREA_BUCKETS by (simp add: area_bucket_def)
  qed
  show "a \<le> b \<longrightarrow> length (filter (\<lambda>(upper, _). upper \<le> a) AREA_BUCKETS)
              \<le> length (filter (\<lambda>(upper, _). upper \<le> b) AREA_BUCKETS)"
    by (auto intro!: filter_length_mono)
qed

theorem area_bucket_by_threshold_witness:
  "area_bucket 100 = ''100m2-1k_m2'' \<and> area_bucket 250000000 = ''>100km2''"
  using area_bucket_by_threshold [of 100 100] area_bucket_by_threshold [of 250000000 250000000]
  by (simp add: AREA_BUCKETS_def INF_BUCKET_def)

text \<open>
  The primary tag is the first preferred key that has a non-empty value, rendered as
  \<open>key=value\<close>; it is empty exactly when no preferred key has one.
\<close>

theorem osm_primary_tag_spec:
  "osm_primary_tag tags =
     (case List.find (\<lambda>k. dict_get tags k [] \<noteq> []) PRIMARY_TAG_PREFERENCE of
        None \<Rightarrow> []
      | Some k \<Rightarrow> k @ ''='' @ dict_get tags k [])
   \<and> (osm_primary_tag tags = [] \<longleftrightarrow> list_all (\<lambda>k. dict_get tags k [] = []) PRIMARY_TAG_PREFERENCE)"
  unfolding osm_primary_tag_def by (rule first_tag_find)

end
