(* ===== verification/Keyed_Rows.thy ===== *)
theory Keyed_Rows
  imports Prelude
begin

text \<open>
  The contract shared by the row collectors of the code: rows are validated one by one, the
  validated row is entered in a dictionary under its identity, an identical repetition is
  harmless, and a different row under a known identity is refused. The client lemmas say that
  such a collector loses no row, keeps one row per identity and is insensitive to the order
  and multiplicity of its input.
\<close>

definition consistent_rows :: "('k \<times> 'r) list \<Rightarrow> bool" where
  "consistent_rows prs \<longleftrightarrow> (\<forall>p\<in>set prs. \<forall>q\<in>set prs. fst p = fst q \<longrightarrow> snd p = snd q)"

lemma consistent_rows_Nil [simp]: "consistent_rows []"
  by (simp add: consistent_rows_def)

lemma consistent_rows_subset: "consistent_rows qs \<Longrightarrow> set ps \<subseteq> set qs \<Longrightarrow> consistent_rows ps"
  unfolding consistent_rows_def by blast

lemma consistent_rows_snoc:
  "consistent_rows (ps @ [p]) \<longleftrightarrow> consistent_rows ps \<and> (\<forall>q\<in>set ps. fst q = fst p \<longrightarrow> snd q = snd p)"
  unfolding consistent_rows_def by auto

lemma consistent_rows_wf: "dict_wf d \<Longrightarrow> consistent_rows d"
  by (force simp: consistent_rows_def dict_wf_def distinct_map inj_on_def)

locale keyed_rows =
  fixes prep :: "'raw \<Rightarrow> ('k::linorder \<times> 'r) res"
    and add :: "'raw \<Rightarrow> ('k, 'r) dict \<Rightarrow> ('k, 'r) dict res"
  assumes add_bad: "prep raw = Inl e \<Longrightarrow> add raw d = Inl e"
    and add_new: "prep raw = Inr (k, r) \<Longrightarrow> map_of d k = None \<Longrightarrow> add raw d = Inr (AList.update k r d)"
    and add_same: "prep raw = Inr (k, r) \<Longrightarrow> map_of d k = Some r \<Longrightarrow> add raw d = Inr d"
    and add_conflict:
      "prep raw = Inr (k, r) \<Longrightarrow> map_of d k = Some q \<Longrightarrow> q \<noteq> r \<Longrightarrow> \<exists>e. add raw d = Inl e"
begin

lemma add_Inr_prep: "add raw d = Inr d' \<Longrightarrow> \<exists>k r. prep raw = Inr (k, r)"
  using add_bad by (cases "prep raw") auto

lemma add_Inr_iff:
  assumes "prep raw = Inr (k, r)" and wf: "dict_wf d"
  shows "add raw d = Inr d' \<longleftrightarrow>
    (\<forall>q\<in>set d. fst q = k \<longrightarrow> snd q = r) \<and>
    d' = (if (k, r) \<in> set d then d else d @ [(k, r)])"
proof (cases "map_of d k")
  case None
  then have "k \<notin> fst ` set d"
    by (simp add: map_of_eq_None_iff)
  then have "(k, r) \<notin> set d" and "\<forall>q\<in>set d. fst q = k \<longrightarrow> snd q = r"
    by force+
  then show ?thesis
    using add_new [OF assms(1) None] dict_update_new [OF None, of r] by auto
next
  case (Some q)
  then have q: "(k, q) \<in> set d"
    by (simp add: map_of_wf_iff [OF wf])
  moreover have "(k, r) \<in> set d \<longleftrightarrow> q = r"
    using Some map_of_wf_iff [OF wf, of k r] by auto
  moreover have "(\<forall>p\<in>set d. fst p = k \<longrightarrow> snd p = r) \<longleftrightarrow> q = r"
    using consistent_rows_wf [OF wf] q unfolding consistent_rows_def by fastforce
  moreover have "add raw d = Inr d' \<longleftrightarrow> q = r \<and> d' = d"
  proof (cases "q = r")
    case True
    then have "add raw d = Inr d"
      using add_same [OF assms(1)] Some by blast
    with True show ?thesis by auto
  next
    case False
    then obtain e where "add raw d = Inl e"
      using add_conflict [OF assms(1) Some] by blast
    with False show ?thesis by simp
  qed
  ultimately show ?thesis
    by simp
qed

lemma fold_snoc_cases:
  assumes "res_fold add raws [] = Inr d"
  shows "dict_wf d \<and> (\<exists>prs. res_map prep raws = Inr prs \<and> consistent_rows prs \<and> set d = set prs)"
  using assms
proof (induction raws arbitrary: d rule: rev_induct)
  case Nil
  then show ?case by (simp add: dict_wf_def)
next
  case (snoc raw raws)
  then obtain d0 where d0: "res_fold add raws [] = Inr d0" and step: "add raw d0 = Inr d"
    by (auto simp: res_fold_append)
  obtain prs where wf: "dict_wf d0" and prs: "res_map prep raws = Inr prs"
    "consistent_rows prs" "set d0 = set prs"
    using snoc.IH [OF d0] by blast
  obtain k r where p: "prep raw = Inr (k, r)"
    using add_Inr_prep [OF step] by blast
  have agree: "\<forall>q\<in>set d0. fst q = k \<longrightarrow> snd q = r"
    and d: "d = (if (k, r) \<in> set d0 then d0 else d0 @ [(k, r)])"
    using step add_Inr_iff [OF p wf] by auto
  have "res_map prep (raws @ [raw]) = Inr (prs @ [(k, r)])"
    using prs(1) p by (simp add: res_map_Inr_iff list_all2_appendI)
  moreover have "consistent_rows (prs @ [(k, r)])"
    using agree prs by (simp add: consistent_rows_snoc)
  moreover have "dict_wf d"
    using wf d agree by (force simp: dict_wf_def)
  moreover have "set d = set (prs @ [(k, r)])"
    using d prs(3) by auto
  ultimately show ?case by blast
qed

lemma collect_sound:
  assumes "res_fold add raws [] = Inr d"
  obtains prs where "res_map prep raws = Inr prs" "consistent_rows prs" "set d = set prs" "dict_wf d"
  using fold_snoc_cases [OF assms] by blast

lemma collect_complete:
  assumes "res_map prep raws = Inr prs" "consistent_rows prs"
  shows "\<exists>d. res_fold add raws [] = Inr d"
  using assms
proof (induction raws arbitrary: prs rule: rev_induct)
  case Nil
  then show ?case by simp
next
  case (snoc raw raws)
  then obtain ps k r where ps: "prs = ps @ [(k, r)]" "res_map prep raws = Inr ps" "prep raw = Inr (k, r)"
    by (auto simp: res_map_Inr_iff list_all2_append1 list_all2_Cons1)
  have "consistent_rows ps"
    using snoc.prems(2) ps(1) by (simp add: consistent_rows_snoc)
  then obtain d where d: "res_fold add raws [] = Inr d"
    using snoc.IH ps(2) by blast
  from fold_snoc_cases [OF d] ps(2) have "dict_wf d" "set d = set ps"
    by auto
  then have "\<exists>d'. add raw d = Inr d'"
    using snoc.prems(2) ps by (simp add: add_Inr_iff consistent_rows_snoc)
  with d show ?case by (auto simp: res_fold_append)
qed

lemma collect_iff:
  "(\<exists>d. res_fold add raws [] = Inr d) \<longleftrightarrow>
   (\<exists>prs. res_map prep raws = Inr prs \<and> consistent_rows prs)"
  using collect_complete fold_snoc_cases by blast

lemma collect_order_free:
  assumes d: "res_fold add raws [] = Inr d" and same: "set raws' = set raws"
  shows "\<exists>d'. res_fold add raws' [] = Inr d' \<and> dict_sorted_values d' = dict_sorted_values d"
proof -
  obtain prs where prs: "res_map prep raws = Inr prs" "consistent_rows prs" "set d = set prs" "dict_wf d"
    using collect_sound [OF d] by blast
  have "\<forall>x\<in>set raws'. \<exists>y. prep x = Inr y"
    using prs(1) same by (metis res_map_Inr_iff_all)
  then obtain prs' where prs': "res_map prep raws' = Inr prs'"
    by (metis res_map_Inr_iff_all)
  have eq: "set prs' = set prs"
    using res_map_set [OF prs'] res_map_set [OF prs(1)] same by simp
  then have "consistent_rows prs'"
    using prs(2) consistent_rows_subset by blast
  then obtain d' where d': "res_fold add raws' [] = Inr d'"
    using collect_complete prs' by blast
  with fold_snoc_cases [OF d'] prs' have "dict_wf d'" "set d' = set prs'"
    by auto
  with d' prs eq show ?thesis
    using dict_sorted_values_unique by metis
qed

lemma collect_idem:
  assumes d: "res_fold add raws [] = Inr d"
    and again: "\<And>k r. (k, r) \<in> set d \<Longrightarrow> prep (emb r) = Inr (k, r)"
  shows "\<exists>d'. res_fold add (map emb (dict_sorted_values d)) [] = Inr d'
    \<and> dict_sorted_values d' = dict_sorted_values d"
proof -
  have wf: "dict_wf d"
    using collect_sound [OF d] by blast
  define ks where "ks = sort (map fst d)"
  define prs where "prs = map (\<lambda>k. (k, the (map_of d k))) ks"
  have mem: "(k, the (map_of d k)) \<in> set d" if "k \<in> set ks" for k
    using that wf by (auto simp: ks_def map_of_wf_iff [OF wf] dict_wf_def)
  have "res_map prep (map emb (dict_sorted_values d)) = Inr prs"
    using again mem
    by (auto simp: res_map_Inr_iff prs_def dict_sorted_values_def ks_def [symmetric]
        list_all2_map1 list_all2_map2 list.rel_refl_strong)
  moreover have set_prs: "set prs = set d"
  proof
    show "set prs \<subseteq> set d"
      using mem by (auto simp: prs_def)
    show "set d \<subseteq> set prs"
      using wf by (force simp: prs_def ks_def dict_wf_def)
  qed
  moreover have "consistent_rows prs"
    using consistent_rows_subset [OF consistent_rows_wf [OF wf]] set_prs by blast
  ultimately obtain d' where d': "res_fold add (map emb (dict_sorted_values d)) [] = Inr d'"
    using collect_complete by blast
  then have "dict_wf d'" "set d' = set d"
    using fold_snoc_cases [OF d'] \<open>res_map prep _ = Inr prs\<close> set_prs by auto
  with d' wf show ?thesis
    using dict_sorted_values_unique by metis
qed

end

end
