(* ===== verification/Doc_Links.thy ===== *)
theory Doc_Links
  imports Osm_Domain Keyed_Rows
begin

text \<open>
  The canonical polygon-to-document link table (\<^verbatim>\<open>domain/polygon_document_links.py\<close>): the join of
  polygons and documents by QID, the validation of link rows, and their deduplication. A row is a
  dictionary from column names to cells; the rows of the coerced polygon table are records.
\<close>

section \<open>Rows\<close>

type_synonym row = "(string, cell) dict"

definition CANONICAL_COLUMNS :: "string list" where
  "CANONICAL_COLUMNS =
     [''polygon_id'', ''document_id'', ''project'', ''wikidata'', ''language'', ''source_pbf'',
      ''region'', ''osm_type'', ''osm_id'', ''page_id'', ''revision_id'']"

definition PROJECTS :: "string list" where
  "PROJECTS = [''wikipedia'', ''wikivoyage'']"

text \<open>\<open>str(row.get(col, ""))\<close> and \<open>int(row.get(col, 0))\<close>.\<close>

definition row_str :: "row \<Rightarrow> string \<Rightarrow> string" where
  "row_str r c = cell_str (dict_get r c (CStr []))"

definition row_int :: "row \<Rightarrow> string \<Rightarrow> int res" where
  "row_int r c = cell_int (dict_get r c (CInt 0))"

section \<open>Document identifier slots\<close>

definition document_id_project :: "string \<Rightarrow> string option" where
  "document_id_project doc_id =
     (let parts = py_split (CHR '':'') doc_id in
      if length parts < 2 then None
      else if parts ! 1 \<in> set PROJECTS then Some (parts ! 1) else None)"

definition document_id_wikidata :: "string \<Rightarrow> string option" where
  "document_id_wikidata doc_id =
     (let candidate = hd (py_split (CHR '':'') doc_id) in
      if is_valid_qid candidate then Some candidate else None)"

definition document_id_language :: "string \<Rightarrow> string option" where
  "document_id_language doc_id =
     (let parts = py_split (CHR '':'') doc_id in
      if length parts < 4 then None else Some (parts ! 2))"

section \<open>Join\<close>

record polygon_fields =
  pf_polygon_id :: string
  pf_wikidata_tag :: string
  pf_wikidata_qids :: "string list"
  pf_source_pbf :: string
  pf_region :: string
  pf_osm_type :: string
  pf_osm_id :: int

definition coerce_polygon_row :: "row \<Rightarrow> polygon_fields res" where
  "coerce_polygon_row polygon =
     (let pid = row_str polygon ''polygon_id'' in
      if \<not> is_safe_stem (JStr pid) then Inl (ValueError ''Invalid polygon_id'')
      else
        (let raw_wikidata = row_str polygon ''wikidata''; qids = qids_from_osm_tag raw_wikidata in
         if qids = [] then Inl (ValueError ''Polygon has invalid wikidata'')
         else res_bind (row_int polygon ''osm_id'') (\<lambda>osm_id.
           Inr \<lparr>pf_polygon_id = pid, pf_wikidata_tag = raw_wikidata, pf_wikidata_qids = qids,
                pf_source_pbf = row_str polygon ''source_pbf'', pf_region = row_str polygon ''region'',
                pf_osm_type = row_str polygon ''osm_type'', pf_osm_id = osm_id\<rparr>)))"

definition validate_document :: "row \<Rightarrow> unit res" where
  "validate_document doc =
     (let doc_id = row_str doc ''document_id''; project = row_str doc ''project'' in
      if doc_id = [] then Inl (ValueError ''Document is missing document_id'')
      else if project \<notin> set PROJECTS then Inl (ValueError ''Document has invalid project'')
      else if document_id_project doc_id \<noteq> Some project
        then Inl (ValueError ''Document project slot disagrees with project field'')
      else if \<not> is_valid_qid (row_str doc ''wikidata'')
        then Inl (ValueError ''Document has invalid wikidata'')
      else Inr ())"

definition build_link_row :: "polygon_fields \<Rightarrow> row \<Rightarrow> row res" where
  "build_link_row pf doc =
     res_bind (dict_item doc ''document_id'') (\<lambda>doc_id.
     res_bind (dict_item doc ''project'') (\<lambda>project.
     res_bind (dict_item doc ''wikidata'') (\<lambda>wikidata.
     res_bind (row_int doc ''page_id'') (\<lambda>page_id.
     res_bind (row_int doc ''revision_id'') (\<lambda>revision_id.
       Inr [(''polygon_id'', CStr (pf_polygon_id pf)),
            (''document_id'', CStr (cell_str doc_id)),
            (''project'', CStr (cell_str project)),
            (''wikidata'', CStr (cell_str wikidata)),
            (''language'', CStr (row_str doc ''language'')),
            (''source_pbf'', CStr (pf_source_pbf pf)),
            (''region'', CStr (pf_region pf)),
            (''osm_type'', CStr (pf_osm_type pf)),
            (''osm_id'', CInt (pf_osm_id pf)),
            (''page_id'', CInt page_id),
            (''revision_id'', CInt revision_id)])))))"

section \<open>Validation of link rows\<close>

fun copy_columns :: "string list \<Rightarrow> row \<Rightarrow> row res" where
  "copy_columns [] r = Inr []"
| "copy_columns (col # cols) r =
     (case map_of r col of
        None \<Rightarrow> Inl (ValueError ''Link row is missing required column'')
      | Some v \<Rightarrow> res_bind (copy_columns cols r) (\<lambda>rest. Inr ((col, v) # rest)))"

definition copy_canonical_columns :: "row \<Rightarrow> row res" where
  "copy_canonical_columns r = copy_columns CANONICAL_COLUMNS r"

definition validated_polygon_id :: "cell \<Rightarrow> string res" where
  "validated_polygon_id value =
     (if is_safe_stem (JStr (cell_str value)) then Inr (cell_str value)
      else Inl (ValueError ''Invalid polygon_id''))"

definition validate_document_project :: "string \<Rightarrow> cell \<Rightarrow> unit res" where
  "validate_document_project doc_id project =
     (case project of
        CStr p \<Rightarrow>
          if p \<notin> set PROJECTS then Inl (ValueError ''invalid project'')
          else guard (document_id_project doc_id = Some p)
                 (ValueError ''project slot disagrees with project column'')
      | _ \<Rightarrow> Inl (ValueError ''invalid project''))"

definition validate_document_language :: "string \<Rightarrow> cell \<Rightarrow> unit res" where
  "validate_document_language doc_id language =
     (case document_id_language doc_id of
        None \<Rightarrow> Inr ()
      | Some declared \<Rightarrow>
          guard (CStr declared = language) (ValueError ''language slot disagrees with language column''))"

definition validate_document_wikidata :: "string \<Rightarrow> cell \<Rightarrow> unit res" where
  "validate_document_wikidata doc_id value =
     (let wikidata = cell_str value in
      if \<not> is_valid_qid wikidata then Inl (ValueError ''invalid wikidata'')
      else (case document_id_wikidata doc_id of
              None \<Rightarrow> Inr ()
            | Some q \<Rightarrow> guard (q = wikidata) (ValueError ''wikidata slot disagrees with wikidata column'')))"

definition coerce_numeric_columns :: "row \<Rightarrow> row res" where
  "coerce_numeric_columns r =
     res_fold (\<lambda>column coerced.
        res_bind (dict_item coerced column) (\<lambda>v.
        res_bind (cell_int v) (\<lambda>i. Inr (AList.update column (CInt i) coerced))))
       [''osm_id'', ''page_id'', ''revision_id''] r"

text \<open>\<open>coerced[column]\<close> for a column that \<open>copy_canonical_columns\<close> has filled.\<close>

definition col :: "row \<Rightarrow> string \<Rightarrow> cell" where
  "col r c = dict_get r c CNull"

definition coerce_row :: "row \<Rightarrow> row res" where
  "coerce_row r =
     res_bind (copy_canonical_columns r) (\<lambda>coerced.
     res_bind (validated_polygon_id (col coerced ''polygon_id'')) (\<lambda>pid.
       (let doc_id = cell_str (col coerced ''document_id'') in
        res_bind (validate_document_project doc_id (col coerced ''project'')) (\<lambda>_.
        res_bind (validate_document_language doc_id (col coerced ''language'')) (\<lambda>_.
        res_bind (validate_document_wikidata doc_id (col coerced ''wikidata'')) (\<lambda>_.
          coerce_numeric_columns coerced))))))"

type_synonym link_key = "cell \<times> cell \<times> cell"

definition link_key :: "row \<Rightarrow> link_key" where
  "link_key r = (col r ''polygon_id'', col r ''project'', col r ''document_id'')"

definition merge_link_row :: "row \<Rightarrow> (link_key, row) dict \<Rightarrow> (link_key, row) dict res" where
  "merge_link_row r out =
     (case map_of out (link_key r) of
        None \<Rightarrow> Inr (AList.update (link_key r) r out)
      | Some existing \<Rightarrow>
          if existing \<noteq> r then Inl (ValueError ''Conflicting duplicate link identity'') else Inr out)"

definition add_link_row :: "row \<Rightarrow> (link_key, row) dict \<Rightarrow> (link_key, row) dict res" where
  "add_link_row raw out = res_bind (coerce_row raw) (\<lambda>r. merge_link_row r out)"

text \<open>
  The output is sorted by identity. Python raises a \<open>TypeError\<close> when two polygon identifiers of
  different classes have to be compared; the project and document cells of validated rows are
  strings.
\<close>

definition validate_polygon_document_links :: "row list \<Rightarrow> row list res" where
  "validate_polygon_document_links rows =
     res_bind (res_fold add_link_row rows []) (\<lambda>out.
       if cells_comparable (map (\<lambda>(k, _). fst k) out) then Inr (dict_sorted_values out)
       else Inl (TypeError ''not supported between instances''))"

definition index_polygon :: "row \<Rightarrow> (string, polygon_fields list) dict \<Rightarrow> (string, polygon_fields list) dict res" where
  "index_polygon raw by_qid =
     res_bind (coerce_polygon_row raw) (\<lambda>fields.
       Inr (fold (\<lambda>qid m. AList.update qid (dict_get m qid [] @ [fields]) m) (pf_wikidata_qids fields) by_qid))"

definition link_document ::
  "(string, polygon_fields list) dict \<Rightarrow> row \<Rightarrow> row list \<Rightarrow> row list res" where
  "link_document by_qid doc links =
     res_bind (validate_document doc) (\<lambda>_.
     res_bind (dict_item doc ''wikidata'') (\<lambda>w.
     res_bind (res_map (\<lambda>pf. build_link_row pf doc) (dict_get by_qid (cell_str w) [])) (\<lambda>new.
       Inr (links @ new))))"

definition build_polygon_document_links :: "row list \<Rightarrow> row list \<Rightarrow> row list \<Rightarrow> row list res" where
  "build_polygon_document_links polygons wikipedia_documents wikivoyage_documents =
     res_bind (res_fold index_polygon polygons []) (\<lambda>by_qid.
     res_bind (res_fold (link_document by_qid) (wikipedia_documents @ wikivoyage_documents) []) (\<lambda>links.
       validate_polygon_document_links links))"

section \<open>Valid link rows\<close>

text \<open>The invariant of a published link row, column by column.\<close>

definition link_row_ok :: "row \<Rightarrow> bool" where
  "link_row_ok r \<longleftrightarrow>
     map fst r = CANONICAL_COLUMNS
   \<and> is_safe_stem (JStr (cell_str (col r ''polygon_id'')))
   \<and> validate_document_project (cell_str (col r ''document_id'')) (col r ''project'') = Inr ()
   \<and> validate_document_language (cell_str (col r ''document_id'')) (col r ''language'') = Inr ()
   \<and> validate_document_wikidata (cell_str (col r ''document_id'')) (col r ''wikidata'') = Inr ()
   \<and> list_all (\<lambda>c. \<exists>i. col r c = CInt i) [''osm_id'', ''page_id'', ''revision_id'']"

definition canonical_row ::
  "cell \<Rightarrow> cell \<Rightarrow> cell \<Rightarrow> cell \<Rightarrow> cell \<Rightarrow> cell \<Rightarrow> cell \<Rightarrow> cell \<Rightarrow> cell \<Rightarrow> cell \<Rightarrow> cell \<Rightarrow> row" where
  "canonical_row a b c d e f g h i j k =
     [(''polygon_id'', a), (''document_id'', b), (''project'', c), (''wikidata'', d), (''language'', e),
      (''source_pbf'', f), (''region'', g), (''osm_type'', h), (''osm_id'', i), (''page_id'', j),
      (''revision_id'', k)]"

lemma canonical_rowE:
  assumes "map fst r = CANONICAL_COLUMNS"
  obtains a b c d e f g h i j k where "r = canonical_row a b c d e f g h i j k"
  using assms that unfolding CANONICAL_COLUMNS_def canonical_row_def
  by (auto simp: map_eq_Cons_conv)

lemma col_canonical_row [simp]:
  "col (canonical_row a b c d e f g h i j k) ''polygon_id'' = a"
  "col (canonical_row a b c d e f g h i j k) ''document_id'' = b"
  "col (canonical_row a b c d e f g h i j k) ''project'' = c"
  "col (canonical_row a b c d e f g h i j k) ''wikidata'' = d"
  "col (canonical_row a b c d e f g h i j k) ''language'' = e"
  "col (canonical_row a b c d e f g h i j k) ''source_pbf'' = f"
  "col (canonical_row a b c d e f g h i j k) ''region'' = g"
  "col (canonical_row a b c d e f g h i j k) ''osm_type'' = h"
  "col (canonical_row a b c d e f g h i j k) ''osm_id'' = i"
  "col (canonical_row a b c d e f g h i j k) ''page_id'' = j"
  "col (canonical_row a b c d e f g h i j k) ''revision_id'' = k"
  by (simp_all add: col_def dict_get_def canonical_row_def)

lemma map_fst_canonical_row [simp]:
  "map fst (canonical_row a b c d e f g h i j k) = CANONICAL_COLUMNS"
  by (simp add: canonical_row_def CANONICAL_COLUMNS_def)

lemma copy_columns_keys: "copy_columns cols r = Inr r' \<Longrightarrow> map fst r' = cols"
  by (induction cols arbitrary: r') (auto split: option.splits)

lemma copy_columns_same:
  "distinct (map fst r) \<Longrightarrow> set ps \<subseteq> set r \<Longrightarrow> copy_columns (map fst ps) r = Inr ps"
  by (induction ps) (auto simp: map_of_eq_None_iff dest: eq_key_imp_eq_value split: option.splits)

lemma copy_canonical_row [simp]:
  "copy_canonical_columns (canonical_row a b c d e f g h i j k) = Inr (canonical_row a b c d e f g h i j k)"
proof -
  let ?r = "canonical_row a b c d e f g h i j k"
  have "distinct (map fst ?r)"
    by (simp add: CANONICAL_COLUMNS_def)
  then show ?thesis
    using copy_columns_same [of ?r ?r] by (simp add: copy_canonical_columns_def)
qed

lemma coerce_numeric_canonical:
  "coerce_numeric_columns (canonical_row a b c d e f g h i j k) =
     res_bind (cell_int i) (\<lambda>i'. res_bind (cell_int j) (\<lambda>j'. res_bind (cell_int k) (\<lambda>k'.
       Inr (canonical_row a b c d e f g h (CInt i') (CInt j') (CInt k')))))"
  by (simp add: coerce_numeric_columns_def dict_item_def canonical_row_def
      res_bind_def split: sum.splits)

lemma coerce_row_ok:
  assumes "coerce_row raw = Inr r"
  shows "link_row_ok r"
proof -
  obtain cs where cs: "copy_canonical_columns raw = Inr cs"
    using assms by (auto simp: coerce_row_def)
  then have "map fst cs = CANONICAL_COLUMNS"
    by (auto simp: copy_canonical_columns_def dest: copy_columns_keys)
  then obtain a b c d e f g h i j k where row: "cs = canonical_row a b c d e f g h i j k"
    by (rule canonical_rowE)
  show ?thesis
    using assms cs
    by (auto simp: coerce_row_def row coerce_numeric_canonical link_row_ok_def validated_polygon_id_def
        Let_def split: if_splits)
qed

lemma coerce_row_fixed:
  assumes "link_row_ok r"
  shows "coerce_row r = Inr r"
proof -
  have "map fst r = CANONICAL_COLUMNS"
    using assms by (simp add: link_row_ok_def)
  then obtain a b c d e f g h i j k where row: "r = canonical_row a b c d e f g h i j k"
    by (rule canonical_rowE)
  show ?thesis
    using assms
    by (auto simp: coerce_row_def row coerce_numeric_canonical link_row_ok_def validated_polygon_id_def
        cell_int_def Let_def)
qed

definition prep_link_row :: "row \<Rightarrow> (link_key \<times> row) res" where
  "prep_link_row raw = res_bind (coerce_row raw) (\<lambda>r. Inr (link_key r, r))"

interpretation link_rows: keyed_rows prep_link_row add_link_row
proof
  fix raw e d
  assume "prep_link_row raw = Inl e"
  then show "add_link_row raw d = Inl e"
    by (cases "coerce_row raw") (auto simp: prep_link_row_def add_link_row_def)
qed (auto simp: prep_link_row_def add_link_row_def merge_link_row_def split: option.splits)

definition coerced_rows :: "row list \<Rightarrow> row set" where
  "coerced_rows rows = {r. \<exists>raw\<in>set rows. coerce_row raw = Inr r}"

lemma res_map_prep_link_row:
  "res_map prep_link_row rows = Inr prs \<longleftrightarrow>
     (\<exists>cs. res_map coerce_row rows = Inr cs \<and> prs = map (\<lambda>r. (link_key r, r)) cs)"
proof (induction rows arbitrary: prs)
  case Nil
  then show ?case by auto
next
  case (Cons raw rows)
  then show ?case
    by (cases "coerce_row raw") (auto simp: prep_link_row_def simp del: split_paired_Ex)
qed

lemma link_rows_entries:
  assumes "res_fold add_link_row rows [] = Inr d"
  shows "dict_wf d" and "set d = (\<lambda>r. (link_key r, r)) ` coerced_rows rows"
proof -
  obtain prs where prs: "res_map prep_link_row rows = Inr prs" "set d = set prs" "dict_wf d"
    using link_rows.collect_sound [OF assms] by metis
  then show "dict_wf d" by blast
  obtain cs where "res_map coerce_row rows = Inr cs" "prs = map (\<lambda>r. (link_key r, r)) cs"
    using prs(1) res_map_prep_link_row by blast
  then show "set d = (\<lambda>r. (link_key r, r)) ` coerced_rows rows"
    using prs(2) res_map_set [of coerce_row rows cs] by (simp add: coerced_rows_def)
qed

lemma cells_comparable_set: "set xs = set ys \<Longrightarrow> cells_comparable xs = cells_comparable ys"
  by (simp add: cells_comparable_def)

lemma validate_links_InrE:
  assumes "validate_polygon_document_links rows = Inr out"
  obtains d where "res_fold add_link_row rows [] = Inr d" "out = dict_sorted_values d"
    "cells_comparable (map (\<lambda>(k, _). fst k) d)"
  using assms that by (auto simp: validate_polygon_document_links_def split: if_splits)

lemma coerced_rows_again:
  assumes "res_fold add_link_row rows [] = Inr d"
  shows "coerced_rows (dict_sorted_values d) = coerced_rows rows"
proof -
  have "set (dict_sorted_values d) = coerced_rows rows"
    using set_dict_sorted_values [OF link_rows_entries(1) [OF assms]] link_rows_entries(2) [OF assms]
    by (simp add: image_image)
  moreover have "coerce_row r = Inr r" if "r \<in> coerced_rows rows" for r
    using that coerce_row_ok coerce_row_fixed by (auto simp: coerced_rows_def)
  ultimately show ?thesis
    unfolding coerced_rows_def [of "dict_sorted_values d"] by auto
qed

lemma comparable_keys:
  assumes "set d = set (map (\<lambda>r. (link_key r, r)) cs)"
  shows "cells_comparable (map (\<lambda>(k, _). fst k) d) = cells_comparable (map (\<lambda>r. col r ''polygon_id'') cs)"
proof (rule cells_comparable_set)
  have "set (map (\<lambda>(k, _). fst k) d) = (\<lambda>(k, _). fst k) ` set (map (\<lambda>r. (link_key r, r)) cs)"
    using assms by simp
  then show "set (map (\<lambda>(k, _). fst k) d) = set (map (\<lambda>r. col r ''polygon_id'') cs)"
    by (simp add: image_image link_key_def)
qed

section \<open>The join\<close>

lemma dict_get_append_fold:
  "distinct ks \<Longrightarrow>
     dict_get (fold (\<lambda>k m. AList.update k (dict_get m k [] @ [x]) m) ks d) q [] =
       dict_get d q [] @ (if q \<in> set ks then [x] else [])"
  by (induction ks arbitrary: d) (auto simp: dict_get_update)

lemma coerce_polygon_row_fields:
  "coerce_polygon_row p = Inr pf \<Longrightarrow>
     pf_polygon_id pf = row_str p ''polygon_id'' \<and> pf_wikidata_qids pf = qids_from_osm_tag (row_str p ''wikidata'')"
  by (auto simp: coerce_polygon_row_def Let_def split: if_splits)

lemma index_polygons:
  assumes "res_fold index_polygon polygons d = Inr by_qid"
  shows "\<exists>pfs. res_map coerce_polygon_row polygons = Inr pfs \<and>
    (\<forall>q. dict_get by_qid q [] = dict_get d q [] @ filter (\<lambda>pf. q \<in> set (pf_wikidata_qids pf)) pfs)"
  using assms
proof (induction polygons arbitrary: d)
  case Nil
  then show ?case by simp
next
  case (Cons p ps)
  obtain pf d' where pf: "coerce_polygon_row p = Inr pf"
    and d': "d' = fold (\<lambda>k m. AList.update k (dict_get m k [] @ [pf]) m) (pf_wikidata_qids pf) d"
    and rest: "res_fold index_polygon ps d' = Inr by_qid"
    using Cons.prems by (auto simp: index_polygon_def [of p])
  have "distinct (pf_wikidata_qids pf)"
    using coerce_polygon_row_fields [OF pf] by (simp add: qids_from_osm_tag_distinct)
  then have "dict_get d' q [] = dict_get d q [] @ (if q \<in> set (pf_wikidata_qids pf) then [pf] else [])" for q
    unfolding d' by (rule dict_get_append_fold)
  with Cons.IH [OF rest] pf show ?case by auto
qed

lemma dict_item_row_str: "dict_item d c = Inr v \<Longrightarrow> cell_str v = row_str d c"
  by (auto simp: dict_item_def row_str_def dict_get_def split: option.splits)

lemma link_document_Inr_iff:
  "link_document by_qid doc acc = Inr links \<longleftrightarrow>
     validate_document doc = Inr () \<and>
     (\<exists>w new. dict_item doc ''wikidata'' = Inr w
        \<and> res_map (\<lambda>pf. build_link_row pf doc) (dict_get by_qid (cell_str w) []) = Inr new \<and> links = acc @ new)"
  by (auto simp: link_document_def)

lemma link_documents:
  assumes "res_fold (link_document by_qid) docs acc = Inr links"
  shows "set links = set acc \<union> {r. \<exists>d\<in>set docs. \<exists>pf\<in>set (dict_get by_qid (row_str d ''wikidata'') []).
      build_link_row pf d = Inr r}
    \<and> (\<forall>d\<in>set docs. \<forall>pf\<in>set (dict_get by_qid (row_str d ''wikidata'') []). \<exists>r. build_link_row pf d = Inr r)"
  using assms
proof (induction docs arbitrary: acc)
  case Nil
  then show ?case by simp
next
  case (Cons d ds)
  obtain acc' where "link_document by_qid d acc = Inr acc'"
    and rest': "res_fold (link_document by_qid) ds acc' = Inr links"
    using Cons.prems by auto
  then obtain w new where w: "dict_item d ''wikidata'' = Inr w"
    and new: "res_map (\<lambda>pf. build_link_row pf d) (dict_get by_qid (cell_str w) []) = Inr new"
    and acc': "acc' = acc @ new"
    by (metis link_document_Inr_iff)
  have "\<forall>pf\<in>set (dict_get by_qid (cell_str w) []). \<exists>r. build_link_row pf d = Inr r"
    by (rule res_map_total [OF new])
  moreover have "set new = {r. \<exists>pf\<in>set (dict_get by_qid (cell_str w) []). build_link_row pf d = Inr r}"
    by (rule res_map_set [OF new])
  ultimately show ?case
    using Cons.IH [OF rest'] unfolding acc' dict_item_row_str [OF w] by auto
qed

lemma build_link_row_canonical:
  assumes "build_link_row pf doc = Inr r"
  shows "link_key r = (CStr (pf_polygon_id pf), CStr (row_str doc ''project''), CStr (row_str doc ''document_id''))"
    and "coerce_row r = Inr r' \<Longrightarrow> r' = r"
proof -
  obtain b c w i j where b: "dict_item doc ''document_id'' = Inr b" and c: "dict_item doc ''project'' = Inr c"
    and w: "dict_item doc ''wikidata'' = Inr w" "row_int doc ''page_id'' = Inr i" "row_int doc ''revision_id'' = Inr j"
    using assms unfolding build_link_row_def res_bind_Inr_iff by metis
  have r: "r = canonical_row (CStr (pf_polygon_id pf)) (CStr (cell_str b)) (CStr (cell_str c)) (CStr (cell_str w))
      (CStr (row_str doc ''language'')) (CStr (pf_source_pbf pf)) (CStr (pf_region pf)) (CStr (pf_osm_type pf))
      (CInt (pf_osm_id pf)) (CInt i) (CInt j)"
    using assms by (simp add: build_link_row_def b c w canonical_row_def)
  show "link_key r = (CStr (pf_polygon_id pf), CStr (row_str doc ''project''), CStr (row_str doc ''document_id''))"
    by (simp add: r link_key_def dict_item_row_str [OF b] dict_item_row_str [OF c])
  show "coerce_row r = Inr r' \<Longrightarrow> r' = r"
    by (auto simp: coerce_row_def r coerce_numeric_canonical cell_int_def Let_def)
qed

lemma validate_links_rows:
  assumes "validate_polygon_document_links rows = Inr out"
  shows "set out = coerced_rows rows" and "\<forall>raw\<in>set rows. \<exists>r. coerce_row raw = Inr r"
proof -
  obtain d where d: "res_fold add_link_row rows [] = Inr d" "out = dict_sorted_values d"
    using assms by (rule validate_links_InrE)
  show "set out = coerced_rows rows"
    unfolding d(2) set_dict_sorted_values [OF link_rows_entries(1) [OF d(1)]] link_rows_entries(2) [OF d(1)]
    by (simp add: image_image)
  obtain prs where "res_map prep_link_row rows = Inr prs"
    using d(1) by (rule link_rows.collect_sound)
  then show "\<forall>raw\<in>set rows. \<exists>r. coerce_row raw = Inr r"
    unfolding res_map_prep_link_row using res_map_total by blast
qed

lemma build_links_rows:
  assumes "build_polygon_document_links polygons wikipedia wikivoyage = Inr out"
  defines "matching p d pf \<equiv> p \<in> set polygons \<and> d \<in> set (wikipedia @ wikivoyage) \<and> coerce_polygon_row p = Inr pf
    \<and> row_str d ''wikidata'' \<in> set (pf_wikidata_qids pf)"
  shows "r \<in> set out \<longleftrightarrow> (\<exists>p d pf. matching p d pf \<and> build_link_row pf d = Inr r)"
    and "p \<in> set polygons \<Longrightarrow> \<exists>pf. coerce_polygon_row p = Inr pf"
    and "matching p d pf \<Longrightarrow> \<exists>r. build_link_row pf d = Inr r"
proof -
  let ?docs = "wikipedia @ wikivoyage"
  obtain by_qid links where idx: "res_fold index_polygon polygons [] = Inr by_qid"
    and lnk: "res_fold (link_document by_qid) ?docs [] = Inr links"
    and out: "validate_polygon_document_links links = Inr out"
    using assms by (auto simp: build_polygon_document_links_def)
  obtain pfs where pfs: "res_map coerce_polygon_row polygons = Inr pfs"
    and by_qid: "\<And>q. dict_get by_qid q [] = filter (\<lambda>pf. q \<in> set (pf_wikidata_qids pf)) pfs"
    using index_polygons [OF idx] by (auto simp: dict_get_def [of "[]"])
  have set_pfs: "set pfs = {pf. \<exists>p\<in>set polygons. coerce_polygon_row p = Inr pf}"
    by (rule res_map_set [OF pfs])
  have links: "set links = {r. \<exists>p d pf. matching p d pf \<and> build_link_row pf d = Inr r}"
    using link_documents [OF lnk] set_pfs unfolding by_qid matching_def by auto
  have total: "\<forall>p d pf. matching p d pf \<longrightarrow> (\<exists>r. build_link_row pf d = Inr r)"
    using link_documents [OF lnk] set_pfs unfolding by_qid matching_def set_filter by blast
  have "set out = set links"
    using validate_links_rows [OF out] links build_link_row_canonical(2)
    unfolding coerced_rows_def by blast
  with links show "r \<in> set out \<longleftrightarrow> (\<exists>p d pf. matching p d pf \<and> build_link_row pf d = Inr r)"
    by simp
  show "p \<in> set polygons \<Longrightarrow> \<exists>pf. coerce_polygon_row p = Inr pf"
    using res_map_total [OF pfs] by blast
  show "matching p d pf \<Longrightarrow> \<exists>r. build_link_row pf d = Inr r"
    using total by blast
qed

section \<open>Examples\<close>

definition example_polygon :: "string \<Rightarrow> string \<Rightarrow> row" where
  "example_polygon pid tag = [(''polygon_id'', CStr pid), (''wikidata'', CStr tag), (''osm_id'', CInt 1)]"

definition example_fields :: "string \<Rightarrow> string \<Rightarrow> string list \<Rightarrow> polygon_fields" where
  "example_fields pid tag qids = \<lparr>pf_polygon_id = pid, pf_wikidata_tag = tag, pf_wikidata_qids = qids,
     pf_source_pbf = [], pf_region = [], pf_osm_type = [], pf_osm_id = 1\<rparr>"

definition example_document :: row where
  "example_document =
     [(''document_id'', CStr ''Q5:wikipedia:en:7:9''), (''project'', CStr ''wikipedia''), (''wikidata'', CStr ''Q5''),
      (''language'', CStr ''en''), (''page_id'', CInt 7), (''revision_id'', CInt 9)]"

definition example_link :: "string \<Rightarrow> row" where
  "example_link pid = canonical_row (CStr pid) (CStr ''Q5:wikipedia:en:7:9'') (CStr ''wikipedia'')
     (CStr ''Q5'') (CStr ''en'') (CStr []) (CStr []) (CStr []) (CInt 1) (CInt 7) (CInt 9)"

definition example_raw :: "row list" where
  "example_raw = [example_link ''m:way:2'', example_link ''m:way:1'', example_link ''m:way:2'']"

definition example_key :: "string \<Rightarrow> link_key" where
  "example_key pid = (CStr pid, CStr ''wikipedia'', CStr ''Q5:wikipedia:en:7:9'')"

lemma example_link_key [simp]: "link_key (example_link pid) = example_key pid"
  by (simp add: link_key_def example_link_def example_key_def)

lemma example_link_ok:
  assumes "is_safe_stem (JStr pid)"
  shows "link_row_ok (example_link pid)"
proof -
  have "validate_document_project ''Q5:wikipedia:en:7:9'' (CStr ''wikipedia'') = Inr ()"
    and "validate_document_language ''Q5:wikipedia:en:7:9'' (CStr ''en'') = Inr ()"
    and "validate_document_wikidata ''Q5:wikipedia:en:7:9'' (CStr ''Q5'') = Inr ()"
    by code_simp+
  with assms show ?thesis
    by (simp add: link_row_ok_def example_link_def cell_str_def)
qed

lemma example_coerced:
  "coerce_row (example_link ''m:way:1'') = Inr (example_link ''m:way:1'')"
  "coerce_row (example_link ''m:way:2'') = Inr (example_link ''m:way:2'')"
  by (intro coerce_row_fixed example_link_ok, code_simp)+

lemma example_key_sort:
  "sort [example_key ''m:way:2'', example_key ''m:way:1''] = [example_key ''m:way:1'', example_key ''m:way:2'']"
  "example_key ''m:way:1'' \<noteq> example_key ''m:way:2''"
proof -
  have "CStr ''m:way:1'' < CStr ''m:way:2''"
    by code_simp
  then have "example_key ''m:way:1'' < example_key ''m:way:2''"
    by (simp add: example_key_def less_prod_def)
  then show "sort [example_key ''m:way:2'', example_key ''m:way:1''] = [example_key ''m:way:1'', example_key ''m:way:2'']"
    "example_key ''m:way:1'' \<noteq> example_key ''m:way:2''"
    by auto
qed

lemma example_collected:
  "(if cells_comparable (map (\<lambda>(k, _). fst k) [(example_key ''m:way:2'', example_link ''m:way:2''), (example_key ''m:way:1'', example_link ''m:way:1'')])
    then Inr (dict_sorted_values [(example_key ''m:way:2'', example_link ''m:way:2''), (example_key ''m:way:1'', example_link ''m:way:1'')])
    else Inl e) = Inr [example_link ''m:way:1'', example_link ''m:way:2'']"
  using example_key_sort
  by (simp add: dict_sorted_values_def cells_comparable_def same_class_def example_key_def [of "''m:way:1''"]
      example_key_def [of "''m:way:2''"])

lemma example_validates:
  "validate_polygon_document_links example_raw = Inr [example_link ''m:way:1'', example_link ''m:way:2'']"
proof -
  have "res_fold add_link_row example_raw [] =
      Inr [(example_key ''m:way:2'', example_link ''m:way:2''), (example_key ''m:way:1'', example_link ''m:way:1'')]"
    using example_key_sort(2) by (simp add: example_raw_def add_link_row_def merge_link_row_def example_coerced)
  then show ?thesis
    by (simp only: validate_polygon_document_links_def res_bind_simps example_collected)
qed

lemma example_fields_coerced:
  "coerce_polygon_row (example_polygon ''m:way:1'' ''Q4;Q5'') = Inr (example_fields ''m:way:1'' ''Q4;Q5'' [''Q4'', ''Q5''])"
  "coerce_polygon_row (example_polygon ''m:way:2'' ''Q5'') = Inr (example_fields ''m:way:2'' ''Q5'' [''Q5''])"
proof -
  have "qids_from_osm_tag ''Q4;Q5'' = [''Q4'', ''Q5'']" "qids_from_osm_tag ''Q5'' = [''Q5'']"
    "is_safe_stem (JStr ''m:way:1'')" "is_safe_stem (JStr ''m:way:2'')"
    by code_simp+
  then show
    "coerce_polygon_row (example_polygon ''m:way:1'' ''Q4;Q5'') = Inr (example_fields ''m:way:1'' ''Q4;Q5'' [''Q4'', ''Q5''])"
    "coerce_polygon_row (example_polygon ''m:way:2'' ''Q5'') = Inr (example_fields ''m:way:2'' ''Q5'' [''Q5''])"
    by (simp_all add: coerce_polygon_row_def example_polygon_def example_fields_def row_str_def row_int_def
        dict_get_def cell_str_def cell_int_def Let_def)
qed

lemma example_link_built:
  "build_link_row (example_fields pid tag qids) example_document = Inr (example_link pid)"
  by (simp add: build_link_row_def example_document_def example_fields_def example_link_def canonical_row_def
      dict_item_def row_str_def row_int_def dict_get_def cell_str_def cell_int_def)

lemma example_joins:
  "build_polygon_document_links [example_polygon ''m:way:2'' ''Q5'', example_polygon ''m:way:1'' ''Q4;Q5''] [example_document] [] =
     Inr [example_link ''m:way:1'', example_link ''m:way:2'']"
proof -
  define f g where "f = example_fields ''m:way:1'' ''Q4;Q5'' [''Q4'', ''Q5'']" and "g = example_fields ''m:way:2'' ''Q5'' [''Q5'']"
  have fg: "pf_wikidata_qids f = [''Q4'', ''Q5'']" "pf_wikidata_qids g = [''Q5'']"
    by (simp_all add: f_def g_def example_fields_def)
  have idx: "res_fold index_polygon [example_polygon ''m:way:2'' ''Q5'', example_polygon ''m:way:1'' ''Q4;Q5''] [] =
      Inr [(''Q5'', [g, f]), (''Q4'', [f])]"
    by (simp add: index_polygon_def example_fields_coerced f_def [symmetric] g_def [symmetric] fg dict_get_def)
  have "validate_document example_document = Inr ()"
    by code_simp
  then have lnk: "res_fold (link_document [(''Q5'', [g, f]), (''Q4'', [f])]) ([example_document] @ []) [] =
      Inr [example_link ''m:way:2'', example_link ''m:way:1'']"
    by (simp add: link_document_def f_def g_def example_link_built)
      (simp add: example_document_def dict_item_def dict_get_def cell_str_def
        example_link_built [unfolded example_document_def])
  have "res_fold add_link_row [example_link ''m:way:2'', example_link ''m:way:1''] [] =
      Inr [(example_key ''m:way:2'', example_link ''m:way:2''), (example_key ''m:way:1'', example_link ''m:way:1'')]"
    using example_key_sort(2) by (simp add: add_link_row_def merge_link_row_def example_coerced)
  then show ?thesis
    by (simp only: build_polygon_document_links_def idx lnk validate_polygon_document_links_def res_bind_simps example_collected)
qed

section \<open>Properties\<close>

text \<open>
  C16. The validated link table is complete, well formed and canonical: it holds exactly the coerced
  input rows, every one satisfies the column invariant, and the rows are in strictly increasing
  order of their identity, so no identity occurs twice.
\<close>

theorem validate_links_canonical:
  assumes "validate_polygon_document_links rows = Inr out"
  shows "set out = {r. \<exists>raw\<in>set rows. coerce_row raw = Inr r}
    \<and> (\<forall>r\<in>set out. link_row_ok r)
    \<and> sorted_wrt (<) (map link_key out)"
proof -
  obtain d where d: "res_fold add_link_row rows [] = Inr d" "out = dict_sorted_values d"
    using assms by (rule validate_links_InrE)
  note wf = link_rows_entries(1) [OF d(1)] and entries = link_rows_entries(2) [OF d(1)]
  note out = validate_links_rows(1) [OF assms]
  have "map link_key out = sort (map fst d)"
    unfolding d(2) using entries by (intro dict_sorted_values_keys [OF wf]) auto
  moreover have "sorted_wrt (<) (sort (map fst d))"
    using wf by (simp add: strict_sorted_iff dict_wf_def)
  ultimately show ?thesis
    using out by (auto simp: coerced_rows_def dest: coerce_row_ok)
qed

theorem validate_links_canonical_witness:
  "validate_polygon_document_links example_raw = Inr [example_link ''m:way:1'', example_link ''m:way:2'']
   \<and> link_row_ok (example_link ''m:way:1'')
   \<and> link_key (example_link ''m:way:1'') < link_key (example_link ''m:way:2'')"
  using example_validates validate_links_canonical [OF example_validates] by simp

text \<open>
  C30. Validation fails closed, and only then: it succeeds exactly when every row passes the column
  checks, rows with equal identity are equal, and the polygon identifiers are of one class.
\<close>

theorem validate_links_accepts_iff:
  "(\<exists>out. validate_polygon_document_links rows = Inr out) \<longleftrightarrow>
     (\<exists>coerced. res_map coerce_row rows = Inr coerced
        \<and> (\<forall>r\<in>set coerced. \<forall>r'\<in>set coerced. link_key r = link_key r' \<longrightarrow> r = r')
        \<and> cells_comparable (map (\<lambda>r. col r ''polygon_id'') coerced))"
    (is "?L \<longleftrightarrow> (\<exists>cs. ?R cs)")
proof
  assume ?L
  then obtain out where "validate_polygon_document_links rows = Inr out" ..
  then obtain d where d: "res_fold add_link_row rows [] = Inr d"
    and cmp: "cells_comparable (map (\<lambda>(k, _). fst k) d)"
    by (rule validate_links_InrE)
  obtain prs where prs: "res_map prep_link_row rows = Inr prs" "consistent_rows prs" "set d = set prs"
    using d by (rule link_rows.collect_sound)
  obtain cs where cs: "res_map coerce_row rows = Inr cs" and "prs = map (\<lambda>r. (link_key r, r)) cs"
    using prs(1) res_map_prep_link_row by blast
  then have ok: "consistent_rows (map (\<lambda>r. (link_key r, r)) cs)"
    and d_cs: "set d = set (map (\<lambda>r. (link_key r, r)) cs)"
    using prs by auto
  have "cells_comparable (map (\<lambda>r. col r ''polygon_id'') cs)"
    using cmp comparable_keys [OF d_cs] by simp
  with cs ok have "?R cs" by (simp add: consistent_rows_def)
  then show "\<exists>cs. ?R cs" ..
next
  assume "\<exists>cs. ?R cs"
  then obtain cs where cs: "?R cs" ..
  then have "res_map prep_link_row rows = Inr (map (\<lambda>r. (link_key r, r)) cs)"
    using res_map_prep_link_row by blast
  moreover have "consistent_rows (map (\<lambda>r. (link_key r, r)) cs)"
    using cs by (simp add: consistent_rows_def)
  ultimately obtain d where d: "res_fold add_link_row rows [] = Inr d"
    using link_rows.collect_complete by blast
  have "set d = set (map (\<lambda>r. (link_key r, r)) cs)"
    using link_rows_entries(2) [OF d] cs res_map_set [of coerce_row rows cs]
    by (simp add: coerced_rows_def)
  then have "cells_comparable (map (\<lambda>(k, _). fst k) d)"
    using cs comparable_keys by blast
  with d show ?L by (simp add: validate_polygon_document_links_def)
qed

theorem validate_links_accepts_iff_witness:
  "\<exists>out. validate_polygon_document_links [example_link ''m:way:1''] = Inr out"
proof -
  have "res_map coerce_row [example_link ''m:way:1''] = Inr [example_link ''m:way:1'']"
    by (simp add: example_coerced)
  then have "\<exists>coerced. res_map coerce_row [example_link ''m:way:1''] = Inr coerced
      \<and> (\<forall>r\<in>set coerced. \<forall>r'\<in>set coerced. link_key r = link_key r' \<longrightarrow> r = r')
      \<and> cells_comparable (map (\<lambda>r. col r ''polygon_id'') coerced)"
    by (intro exI [of _ "[example_link ''m:way:1'']"]) (simp add: cells_comparable_def example_link_def same_class_def)
  then show ?thesis
    unfolding validate_links_accepts_iff .
qed

text \<open>
  Validation is idempotent: a validated table validates to itself.
\<close>

theorem validate_links_idempotent:
  assumes "validate_polygon_document_links rows = Inr out"
  shows "validate_polygon_document_links out = Inr out"
proof -
  obtain d where d: "res_fold add_link_row rows [] = Inr d" "out = dict_sorted_values d"
    and cmp: "cells_comparable (map (\<lambda>(k, _). fst k) d)"
    using assms by (rule validate_links_InrE)
  have fixed: "prep_link_row r = Inr (k, r)" if "(k, r) \<in> set d" for k r
    using that link_rows_entries(2) [OF d(1)]
    by (auto simp: prep_link_row_def coerced_rows_def coerce_row_fixed coerce_row_ok)
  then obtain d' where d': "res_fold add_link_row out [] = Inr d'" "dict_sorted_values d' = out"
    using link_rows.collect_idem [OF d(1), of id] d(2) by auto
  have "set d' = set d"
    using link_rows_entries(2) [OF d'(1)] link_rows_entries(2) [OF d(1)] coerced_rows_again [OF d(1)] d(2)
    by simp
  then have "cells_comparable (map (\<lambda>(k, _). fst k) d')"
    using cmp by (simp add: cells_comparable_def)
  then show ?thesis
    using d' by (simp add: validate_polygon_document_links_def)
qed

theorem validate_links_idempotent_witness:
  "validate_polygon_document_links [example_link ''m:way:1'', example_link ''m:way:2''] =
     Inr [example_link ''m:way:1'', example_link ''m:way:2'']"
  by (rule validate_links_idempotent [OF example_validates])

text \<open>
  The result does not depend on the order or the multiplicity of the input rows.
\<close>

theorem validate_links_order_free:
  assumes "validate_polygon_document_links rows = Inr out" and "set rows' = set rows"
  shows "validate_polygon_document_links rows' = Inr out"
proof -
  obtain d where d: "res_fold add_link_row rows [] = Inr d" "out = dict_sorted_values d"
    and cmp: "cells_comparable (map (\<lambda>(k, _). fst k) d)"
    using assms(1) by (rule validate_links_InrE)
  obtain d' where d': "res_fold add_link_row rows' [] = Inr d'" "dict_sorted_values d' = out"
    using link_rows.collect_order_free [OF d(1) assms(2)] d(2) by auto
  have "set d' = set d"
    using link_rows_entries(2) [OF d'(1)] link_rows_entries(2) [OF d(1)] assms(2)
    by (simp add: coerced_rows_def)
  then have "cells_comparable (map (\<lambda>(k, _). fst k) d')"
    using cmp by (simp add: cells_comparable_def)
  then show ?thesis
    using d' by (simp add: validate_polygon_document_links_def)
qed

theorem validate_links_order_free_witness:
  "validate_polygon_document_links [example_link ''m:way:1'', example_link ''m:way:2''] =
     Inr [example_link ''m:way:1'', example_link ''m:way:2'']"
proof -
  have "set [example_link ''m:way:1'', example_link ''m:way:2''] = set example_raw"
    by (auto simp: example_raw_def)
  then show ?thesis
    by (rule validate_links_order_free [OF example_validates])
qed

text \<open>
  C11. The builder is the exact join: the identities of the published links are precisely the pairs
  of an input polygon and an input document of either project whose QID occurs in the polygon's
  \<^verbatim>\<open>wikidata\<close> tag.
\<close>

theorem build_links_exact_join:
  assumes "build_polygon_document_links polygons wikipedia wikivoyage = Inr out"
  shows "link_key ` set out =
    {(CStr (row_str p ''polygon_id''), CStr (row_str d ''project''), CStr (row_str d ''document_id'')) | p d.
       p \<in> set polygons \<and> d \<in> set (wikipedia @ wikivoyage)
       \<and> row_str d ''wikidata'' \<in> set (qids_from_osm_tag (row_str p ''wikidata''))}"
proof -
  note rows = build_links_rows [OF assms]
  have key: "link_key r = (CStr (row_str p ''polygon_id''), CStr (row_str d ''project''), CStr (row_str d ''document_id''))"
    if "coerce_polygon_row p = Inr pf" "build_link_row pf d = Inr r" for p pf d r
    using coerce_polygon_row_fields [OF that(1)] build_link_row_canonical(1) [OF that(2)] by simp
  show ?thesis (is "_ = ?J")
  proof
    show "link_key ` set out \<subseteq> ?J"
      using key coerce_polygon_row_fields by (fastforce simp: rows(1))
    show "?J \<subseteq> link_key ` set out"
    proof
      fix k
      assume "k \<in> ?J"
      then obtain p d where k: "k = (CStr (row_str p ''polygon_id''), CStr (row_str d ''project''), CStr (row_str d ''document_id''))"
        and pd: "p \<in> set polygons" "d \<in> set (wikipedia @ wikivoyage)"
          "row_str d ''wikidata'' \<in> set (qids_from_osm_tag (row_str p ''wikidata''))"
        by blast
      obtain pf where pf: "coerce_polygon_row p = Inr pf" "row_str d ''wikidata'' \<in> set (pf_wikidata_qids pf)"
        using rows(2) [OF pd(1)] pd(3) coerce_polygon_row_fields by metis
      obtain r where r: "build_link_row pf d = Inr r"
        using rows(3) pd(1,2) pf by blast
      then have "r \<in> set out"
        using rows(1) pd pf by blast
      with key [OF pf(1) r] k show "k \<in> link_key ` set out" by (metis imageI)
    qed
  qed
qed

theorem build_links_exact_join_witness:
  "link_key ` set [example_link ''m:way:1'', example_link ''m:way:2''] =
    {(CStr (row_str p ''polygon_id''), CStr (row_str d ''project''), CStr (row_str d ''document_id'')) | p d.
       p \<in> set [example_polygon ''m:way:2'' ''Q5'', example_polygon ''m:way:1'' ''Q4;Q5'']
       \<and> d \<in> set ([example_document] @ [])
       \<and> row_str d ''wikidata'' \<in> set (qids_from_osm_tag (row_str p ''wikidata''))}"
  by (rule build_links_exact_join [OF example_joins])

end
