(* ===== verification/V2_Dedup.thy ===== *)
theory V2_Dedup
  imports Osm_Domain Keyed_Rows "HOL-Library.Finite_Map"
begin

text \<open>
  Deduplication of the V2 document and link artifacts (\<^verbatim>\<open>v2/deduplication.py\<close>). The rows are only
  read with \<open>get\<close> and compared with \<open>==\<close>, which ignores insertion order, so a row is a finite map.
  Both collectors are instances of the keyed-row contract.
\<close>

type_synonym v2_row = "(string, cell) fmap"

definition v2_str :: "v2_row \<Rightarrow> string \<Rightarrow> string" where
  "v2_str r c = cell_str (case fmlookup r c of None \<Rightarrow> CStr [] | Some v \<Rightarrow> v)"

definition document_identity :: "v2_row \<Rightarrow> string res" where
  "document_identity raw =
     (let identity = v2_str raw ''document_id'' in
      if identity = [] then Inl (ValueError ''Document row is missing document_id'') else Inr identity)"

definition link_identity :: "v2_row \<Rightarrow> (string \<times> string \<times> string) res" where
  "link_identity raw =
     (let p = v2_str raw ''polygon_id''; j = v2_str raw ''project''; d = v2_str raw ''document_id'' in
      if p \<noteq> [] \<and> j \<noteq> [] \<and> d \<noteq> [] then Inr (p, j, d)
      else Inl (ValueError ''Link row is missing identity fields''))"

definition deduplicate_row ::
  "(v2_row \<Rightarrow> 'k res) \<Rightarrow> v2_row \<Rightarrow> ('k, v2_row) dict \<Rightarrow> ('k, v2_row) dict res" where
  "deduplicate_row identity_of raw by_identity =
     res_bind (identity_of raw) (\<lambda>identity.
       case map_of by_identity identity of
         Some previous \<Rightarrow>
           if previous \<noteq> raw then Inl (ValueError ''Conflicting duplicate identity'')
           else Inr (AList.update identity raw by_identity)
       | None \<Rightarrow> Inr (AList.update identity raw by_identity))"

definition deduplicate_rows :: "(v2_row \<Rightarrow> ('k::linorder) res) \<Rightarrow> v2_row list \<Rightarrow> v2_row list res" where
  "deduplicate_rows identity_of rows =
     res_bind (res_fold (deduplicate_row identity_of) rows []) (\<lambda>by_identity.
       Inr (dict_sorted_values by_identity))"

definition deduplicate_documents :: "v2_row list \<Rightarrow> v2_row list res" where
  "deduplicate_documents rows = deduplicate_rows document_identity rows"

definition deduplicate_links :: "v2_row list \<Rightarrow> v2_row list res" where
  "deduplicate_links rows = deduplicate_rows link_identity rows"

section \<open>Both collectors satisfy the keyed-row contract\<close>

definition prep_row :: "(v2_row \<Rightarrow> 'k res) \<Rightarrow> v2_row \<Rightarrow> ('k \<times> v2_row) res" where
  "prep_row identity_of raw = res_bind (identity_of raw) (\<lambda>k. Inr (k, raw))"

lemma deduplicate_keyed: "keyed_rows (prep_row identity_of) (deduplicate_row identity_of)"
proof
  fix raw e d
  assume "prep_row identity_of raw = Inl e"
  then show "deduplicate_row identity_of raw d = Inl e"
    by (cases "identity_of raw") (auto simp: prep_row_def deduplicate_row_def)
qed (auto simp: prep_row_def deduplicate_row_def dict_update_same split: option.splits)

interpretation document_rows: keyed_rows "prep_row document_identity" "deduplicate_row document_identity"
  by (rule deduplicate_keyed)

interpretation v2_link_rows: keyed_rows "prep_row link_identity" "deduplicate_row link_identity"
  by (rule deduplicate_keyed)

lemma res_map_prep_row:
  "res_map (prep_row ident) rows = Inr prs \<longleftrightarrow>
     (\<exists>ks. res_map ident rows = Inr ks \<and> prs = zip ks rows)"
proof (induction rows arbitrary: prs)
  case Nil
  then show ?case by auto
next
  case (Cons r rows)
  then show ?case
    by (cases "ident r") (auto simp: prep_row_def)
qed

lemma res_map_prep_row_set:
  assumes "res_map (prep_row ident) rows = Inr prs"
  shows "set prs = {(k, r). r \<in> set rows \<and> ident r = Inr k}"
  using res_map_set [OF assms] by (auto simp: prep_row_def)

lemma prep_row_consistent:
  assumes "res_map (prep_row ident) rows = Inr prs"
  shows "consistent_rows prs \<longleftrightarrow>
    (\<forall>r\<in>set rows. \<forall>s\<in>set rows. ident r = ident s \<longrightarrow> r = s)"
proof -
  have tot: "\<forall>r\<in>set rows. \<exists>k. ident r = Inr k"
    using res_map_total [OF assms] by (auto simp: prep_row_def)
  show ?thesis
    unfolding consistent_rows_def res_map_prep_row_set [OF assms] using tot by fastforce
qed

lemma prep_row_ok_iff:
  "(\<exists>prs. res_map (prep_row ident) rows = Inr prs) \<longleftrightarrow> (\<forall>r\<in>set rows. \<exists>k. ident r = Inr k)"
  by (simp add: res_map_Inr_iff_all prep_row_def)

lemma deduplicate_rows_spec:
  fixes ident :: "v2_row \<Rightarrow> ('k::linorder) res"
  shows "(\<exists>out. deduplicate_rows ident rows = Inr out) \<longleftrightarrow>
      (\<forall>r\<in>set rows. \<exists>k. ident r = Inr k)
      \<and> (\<forall>r\<in>set rows. \<forall>s\<in>set rows. ident r = ident s \<longrightarrow> r = s)"
    and "deduplicate_rows ident rows = Inr out \<Longrightarrow>
      set out = set rows \<and> (\<exists>ks. res_map ident out = Inr ks \<and> sorted_wrt (<) ks)"
proof -
  let ?prep = "prep_row ident" and ?add = "deduplicate_row ident"
  note iff = keyed_rows.collect_iff [OF deduplicate_keyed, of ident rows]
  show "(\<exists>out. deduplicate_rows ident rows = Inr out) \<longleftrightarrow>
      (\<forall>r\<in>set rows. \<exists>k. ident r = Inr k)
      \<and> (\<forall>r\<in>set rows. \<forall>s\<in>set rows. ident r = ident s \<longrightarrow> r = s)"
  proof -
    have "(\<exists>out. deduplicate_rows ident rows = Inr out) \<longleftrightarrow> (\<exists>d. res_fold ?add rows [] = Inr d)"
      by (simp add: deduplicate_rows_def)
    also have "\<dots> \<longleftrightarrow> (\<exists>prs. res_map ?prep rows = Inr prs \<and>
        (\<forall>r\<in>set rows. \<forall>s\<in>set rows. ident r = ident s \<longrightarrow> r = s))"
      unfolding iff using prep_row_consistent [of ident rows] by blast
    also have "\<dots> \<longleftrightarrow> (\<exists>prs. res_map ?prep rows = Inr prs) \<and>
        (\<forall>r\<in>set rows. \<forall>s\<in>set rows. ident r = ident s \<longrightarrow> r = s)"
      by blast
    finally show ?thesis
      unfolding prep_row_ok_iff .
  qed
  assume "deduplicate_rows ident rows = Inr out"
  then obtain d where d: "res_fold ?add rows [] = Inr d" and out: "out = dict_sorted_values d"
    by (auto simp: deduplicate_rows_def)
  obtain prs where prs: "res_map ?prep rows = Inr prs" "set d = set prs" and wf: "dict_wf d"
    using keyed_rows.fold_snoc_cases [OF deduplicate_keyed d] by blast
  have entries: "set d = {(k, r). r \<in> set rows \<and> ident r = Inr k}"
    using prs res_map_prep_row_set by blast
  have tot: "\<forall>r\<in>set rows. \<exists>k. ident r = Inr k"
    using prs(1) prep_row_ok_iff by blast
  have "set out = set rows"
    using tot unfolding out set_dict_sorted_values [OF wf] entries by force
  moreover have key: "ident (the (map_of d k)) = Inr k" if k: "k \<in> fst ` set d" for k
  proof -
    obtain r where r: "(k, r) \<in> set d"
      using k by auto
    then have "map_of d k = Some r"
      using map_of_wf_iff [OF wf] by metis
    with r entries show ?thesis by auto
  qed
  have "map ident out = map Inr (sort (map fst d))"
    unfolding out dict_sorted_values_def map_map
    by (rule map_cong [OF refl]) (simp only: set_sort set_map o_apply key)
  then have "res_map ident out = Inr (sort (map fst d))"
    by (rule res_map_eq_map)
  moreover have "sorted_wrt (<) (sort (map fst d))"
    using wf by (simp add: strict_sorted_iff dict_wf_def)
  ultimately show "set out = set rows \<and> (\<exists>ks. res_map ident out = Inr ks \<and> sorted_wrt (<) ks)"
    by blast
qed

section \<open>Properties\<close>

text \<open>
  C39. Document deduplication is lossless and fails closed: it succeeds exactly when every row has an
  identifier and rows with the same identifier are equal; the result holds exactly the input
  rows, in strictly increasing order of their identifiers.
\<close>

theorem deduplicate_documents_lossless:
  "case deduplicate_documents rows of
     Inr out \<Rightarrow> set out = set rows
       \<and> (\<exists>ks. res_map document_identity out = Inr ks \<and> sorted_wrt (<) ks)
   | Inl e \<Rightarrow> (\<exists>r\<in>set rows. v2_str r ''document_id'' = [])
       \<or> (\<exists>r\<in>set rows. \<exists>s\<in>set rows. v2_str r ''document_id'' = v2_str s ''document_id'' \<and> r \<noteq> s)"
proof (cases "deduplicate_documents rows")
  case (Inr out)
  then show ?thesis
    using deduplicate_rows_spec(2) [of document_identity rows out] by (simp add: deduplicate_documents_def)
next
  case (Inl e)
  then have "\<not> (\<exists>out. deduplicate_rows document_identity rows = Inr out)"
    by (simp add: deduplicate_documents_def)
  then show ?thesis
    using Inl unfolding deduplicate_rows_spec(1) by (force simp: document_identity_def Let_def split: if_splits)
qed

text \<open>
  The same for links, whose identity is the triple of polygon, project and document: no link and
  no provenance is lost, and a different row under a known identity is refused.
\<close>

theorem deduplicate_links_lossless:
  "case deduplicate_links rows of
     Inr out \<Rightarrow> set out = set rows
       \<and> (\<exists>ks. res_map link_identity out = Inr ks \<and> sorted_wrt (<) ks)
   | Inl e \<Rightarrow> (\<exists>r\<in>set rows. v2_str r ''polygon_id'' = [] \<or> v2_str r ''project'' = [] \<or> v2_str r ''document_id'' = [])
       \<or> (\<exists>r\<in>set rows. \<exists>s\<in>set rows. v2_str r ''polygon_id'' = v2_str s ''polygon_id''
            \<and> v2_str r ''project'' = v2_str s ''project'' \<and> v2_str r ''document_id'' = v2_str s ''document_id'' \<and> r \<noteq> s)"
proof (cases "deduplicate_links rows")
  case (Inr out)
  then show ?thesis
    using deduplicate_rows_spec(2) [of link_identity rows out] by (simp add: deduplicate_links_def)
next
  case (Inl e)
  then have "\<not> (\<exists>out. deduplicate_rows link_identity rows = Inr out)"
    by (simp add: deduplicate_links_def)
  then show ?thesis
    using Inl unfolding deduplicate_rows_spec(1) by (force simp: link_identity_def Let_def split: if_splits)
qed

text \<open>
  The published document table does not depend on the order in which the shards were read nor
  on how often a row was observed.
\<close>

theorem deduplicate_documents_order_free:
  assumes "deduplicate_documents rows = Inr out" and "set rows' = set rows"
  shows "deduplicate_documents rows' = Inr out"
  using assms document_rows.collect_order_free [of rows _ rows']
  by (auto simp: deduplicate_documents_def deduplicate_rows_def)

definition example_v2_document :: "string \<Rightarrow> v2_row" where
  "example_v2_document doc = fmap_of_list [(''document_id'', CStr doc), (''page_id'', CInt 7)]"

theorem deduplicate_documents_order_free_witness:
  "deduplicate_documents [example_v2_document ''a'', example_v2_document ''a''] = Inr [example_v2_document ''a'']"
proof -
  have "document_identity (example_v2_document ''a'') = Inr ''a''"
    by (simp add: document_identity_def v2_str_def example_v2_document_def cell_str_def fmlookup_of_list)
  then have "deduplicate_documents [example_v2_document ''a''] = Inr [example_v2_document ''a'']"
    by (simp add: deduplicate_documents_def deduplicate_rows_def deduplicate_row_def dict_sorted_values_def)
  then show ?thesis
    by (rule deduplicate_documents_order_free) simp
qed

end
