(* ===== verification/Json_Files.thy ===== *)
theory Json_Files
  imports Prelude
begin

text \<open>
  JSON documents on disk (\<^verbatim>\<open>io/json_files.py\<close>, \<^verbatim>\<open>io/manifest.py\<close>). A file is abstracted to what
  the reader can find there: nothing, bytes that are not UTF-8, blank text, text the parser
  rejects, text that holds an integer past the digit limit, or a JSON value.
\<close>

datatype text_file =
    Absent
  | Undecodable
  | Blank
  | Malformed
  | DigitLimit
  | Parsed json

text \<open>The lenient read: everything that cannot be read or parsed yields \<open>None\<close>.\<close>

definition read_json :: "text_file \<Rightarrow> json" where
  "read_json file = (case file of Parsed v \<Rightarrow> v | _ \<Rightarrow> JNull)"

text \<open>The strict read: \<open>on_malformed\<close> is the exception raised for text that is not JSON.\<close>

definition read_json_strict :: "exn \<Rightarrow> text_file \<Rightarrow> json res" where
  "read_json_strict on_malformed file =
     (case file of
        Absent \<Rightarrow> Inl (FileNotFoundError ''No such file'')
      | Undecodable \<Rightarrow> Inl (ValueError ''invalid start byte'')
      | Blank \<Rightarrow> Inl on_malformed
      | Malformed \<Rightarrow> Inl on_malformed
      | DigitLimit \<Rightarrow> Inl (ValueError ''Exceeds the limit for integer string conversion'')
      | Parsed v \<Rightarrow> Inr v)"

definition require_json_object ::
  "exn \<Rightarrow> exn \<Rightarrow> (string, json) dict option \<Rightarrow> text_file \<Rightarrow> (string, json) dict res" where
  "require_json_object on_malformed on_not_object on_missing file =
     (if on_missing \<noteq> None \<and> file = Absent then Inr (the on_missing)
      else res_bind (read_json_strict on_malformed file) (\<lambda>payload.
        case payload of JObj d \<Rightarrow> Inr d | _ \<Rightarrow> Inl on_not_object))"

text \<open>The processed manifest: absent, blank and non-object files count as empty.\<close>

definition load_manifest :: "text_file \<Rightarrow> (string, json) dict res" where
  "load_manifest file =
     (case file of
        Absent \<Rightarrow> Inr []
      | Undecodable \<Rightarrow> Inl (ValueError ''Malformed processed manifest'')
      | Blank \<Rightarrow> Inr []
      | Malformed \<Rightarrow> Inl (ValueError ''Malformed processed manifest'')
      | DigitLimit \<Rightarrow> Inl (ValueError ''Malformed processed manifest'')
      | Parsed (JObj d) \<Rightarrow> Inr d
      | Parsed _ \<Rightarrow> Inr [])"

definition sorted_entries :: "(string, json) dict \<Rightarrow> (string, json) dict" where
  "sorted_entries entries = map (\<lambda>k. (k, the (map_of entries k))) (sort (map fst entries))"

definition save_manifest :: "(string, json) dict \<Rightarrow> text_file" where
  "save_manifest entries = Parsed (JObj (sorted_entries entries))"

section \<open>Writing JSON with sorted keys\<close>

primrec jsort :: "json \<Rightarrow> json" where
  "jsort JNull = JNull"
| "jsort (JBool b) = JBool b"
| "jsort (JInt i) = JInt i"
| "jsort (JStr s) = JStr s"
| "jsort (JList xs) = JList (map jsort xs)"
| "jsort (JObj kvs) = JObj (sorted_entries (map (map_prod id jsort) kvs))"

text \<open>\<open>==\<close> on JSON values: objects are equal when they have the same items in any order.\<close>

definition json_eq :: "json \<Rightarrow> json \<Rightarrow> bool" where
  "json_eq a b \<longleftrightarrow> jsort a = jsort b"

definition write_json :: "json \<Rightarrow> text_file" where
  "write_json v = Parsed (jsort v)"

lemma map_of_map_key: "map_of (map (\<lambda>k. (k, f k)) ks) k = (if k \<in> set ks then Some (f k) else None)"
  by (induction ks) auto

lemma map_of_sorted_entries: "map_of (sorted_entries d) = map_of d"
proof
  fix k
  show "map_of (sorted_entries d) k = map_of d k"
    using map_of_eq_None_iff [of d k]
    by (cases "map_of d k") (auto simp: sorted_entries_def map_of_map_key)
qed

lemma map_of_jsort_entries:
  "map_of (sorted_entries (map (map_prod id jsort) d)) k = map_option jsort (map_of d k)"
proof -
  have "map_of (map (map_prod id jsort) d) k = map_option jsort (map_of d k)"
    by (induction d) auto
  then show ?thesis
    by (simp add: map_of_sorted_entries)
qed

text \<open>\<open>==\<close> of Python on JSON values, for which \<open>True == 1\<close>.\<close>

primrec bools_as_ints :: "json \<Rightarrow> json" where
  "bools_as_ints JNull = JNull"
| "bools_as_ints (JBool b) = JInt (if b then 1 else 0)"
| "bools_as_ints (JInt i) = JInt i"
| "bools_as_ints (JStr s) = JStr s"
| "bools_as_ints (JList xs) = JList (map bools_as_ints xs)"
| "bools_as_ints (JObj kvs) = JObj (map (map_prod id bools_as_ints) kvs)"

text \<open>\<open>int(v)\<close>, \<open>str(v)\<close> and \<open>bool(v)\<close> of a JSON value.\<close>

definition py_int_json :: "json \<Rightarrow> int res" where
  "py_int_json v =
     (case v of
        JInt i \<Rightarrow> Inr i
      | JBool b \<Rightarrow> Inr (if b then 1 else 0)
      | JStr s \<Rightarrow> py_int_str s
      | _ \<Rightarrow> Inl (TypeError ''int() argument must be a string or a number''))"

text \<open>The text of a list or an object is an argument.\<close>

definition json_text :: "(json \<Rightarrow> string) \<Rightarrow> json \<Rightarrow> string" where
  "json_text container v =
     (case v of JStr s \<Rightarrow> s | JNull \<Rightarrow> ''None'' | JBool b \<Rightarrow> (if b then ''True'' else ''False'') | JInt i \<Rightarrow> py_str_int i | _ \<Rightarrow> container v)"

definition json_truthy :: "json \<Rightarrow> bool" where
  "json_truthy v \<longleftrightarrow> v \<notin> {JNull, JBool False, JInt 0, JStr [], JList [], JObj []}"

text \<open>What Python's \<open>==\<close> can see of a JSON value.\<close>

definition json_view :: "json \<Rightarrow> json" where
  "json_view v = jsort (bools_as_ints v)"

lemma json_view_simps [simp]:
  "json_view JNull = JNull"
  "json_view (JBool b) = JInt (if b then 1 else 0)"
  "json_view (JInt i) = JInt i"
  "json_view (JStr s) = JStr s"
  "json_view (JList xs) = JList (map json_view xs)"
  by (simp_all add: json_view_def comp_def)

lemma json_view_obj: "json_view (JObj d) = JObj (sorted_entries (map (map_prod id json_view) d))"
  by (simp add: json_view_def [abs_def] comp_def map_prod_def case_prod_beta')

lemma map_of_view [simp]: "map_of (sorted_entries (map (map_prod id json_view) d)) k = map_option json_view (map_of d k)"
proof -
  have "map_of (map (map_prod id json_view) d) k = map_option json_view (map_of d k)"
    by (induction d) auto
  then show ?thesis
    by (simp add: map_of_sorted_entries)
qed

definition py_json_eq :: "json \<Rightarrow> json \<Rightarrow> bool" where
  "py_json_eq a b \<longleftrightarrow> json_view a = json_view b"

lemma sorted_entries_cong:
  "map_of d = map_of e \<Longrightarrow> sort (map fst d) = sort (map fst e) \<Longrightarrow> sorted_entries d = sorted_entries e"
  by (simp add: sorted_entries_def)

lemma sorted_entries_keys: "sort (map fst (sorted_entries d)) = sort (map fst d)"
  by (simp add: sorted_entries_def comp_def sorted_sort_id)

lemma map_of_map_values: "map_of (map (map_prod id f) d) k = map_option f (map_of d k)"
  by (induction d) auto

lemma view_jsort: "json_view (jsort v) = json_view v"
proof (induction v)
  case (JList xs)
  then show ?case by simp
next
  case (JObj d)
  have "sorted_entries (map (map_prod id json_view) (sorted_entries (map (map_prod id jsort) d)))
      = sorted_entries (map (map_prod id json_view) d)"
  proof (rule sorted_entries_cong)
    have "map_option json_view (map_option jsort (map_of d k)) = map_option json_view (map_of d k)" for k
      using JObj map_of_SomeD [of d k] by (cases "map_of d k") (auto simp: prod_set_simps intro: snds.intros)
    then show "map_of (map (map_prod id json_view) (sorted_entries (map (map_prod id jsort) d)))
        = map_of (map (map_prod id json_view) d)"
      by (intro ext) (simp add: map_of_map_values map_of_sorted_entries)
    have keys: "map fst (map (map_prod id f) xs) = map fst xs" for f :: "json \<Rightarrow> json" and xs :: "(string \<times> json) list"
      by simp
    show "sort (map fst (map (map_prod id json_view) (sorted_entries (map (map_prod id jsort) d))))
        = sort (map fst (map (map_prod id json_view) d))"
      unfolding keys sorted_entries_keys ..
  qed
  then show ?case
    by (simp add: json_view_obj)
qed simp_all

text \<open>What a process finds in a dictionary that was written.\<close>

definition reread :: "(string, json) dict \<Rightarrow> (string, json) dict" where
  "reread raw = sorted_entries (map (map_prod id jsort) raw)"

lemma read_written: "read_json (write_json (JObj raw)) = JObj (reread raw)"
  by (simp add: read_json_def write_json_def reread_def)

lemma map_of_reread: "map_of (reread raw) k = map_option jsort (map_of raw k)"
  by (simp add: reread_def map_of_jsort_entries)

lemma json_view_fields: "json_view (JObj d) = json_view (JObj e) \<Longrightarrow> map_option json_view (map_of d k) = map_option json_view (map_of e k)"
  by (metis json.inject(5) json_view_obj map_of_view)

lemma json_truthy_jsort [simp]: "json_truthy (jsort v) \<longleftrightarrow> json_truthy v"
proof -
  have "sorted_entries d = [] \<longleftrightarrow> d = []" for d :: "(string, json) dict"
    by (simp add: sorted_entries_def) (metis length_0_conv length_map length_sort)
  then show ?thesis by (cases v) (auto simp: json_truthy_def)
qed

text \<open>
  A saved manifest is read back with the same entries, in increasing order of the keys.
\<close>

theorem manifest_roundtrip:
  assumes "dict_wf entries"
  shows "\<exists>d. load_manifest (save_manifest entries) = Inr d \<and> map_of d = map_of entries
    \<and> sorted_wrt (<) (map fst d)"
proof -
  have "map fst (sorted_entries entries) = sort (map fst entries)"
    by (simp add: sorted_entries_def comp_def)
  then have "sorted_wrt (<) (map fst (sorted_entries entries))"
    using assms by (simp add: strict_sorted_iff dict_wf_def)
  then show ?thesis
    by (simp add: load_manifest_def save_manifest_def map_of_sorted_entries)
qed

end
