(* ===== verification/Sync_Plan.thy ===== *)
theory Sync_Plan
  imports Json_Files
begin

text \<open>
  Planning of \<^verbatim>\<open>sync-dir\<close>: the per-region action (\<^verbatim>\<open>pipeline/sync_planner.py\<close>), the stem sets that
  feed it (\<^verbatim>\<open>pipeline/sync_planning.py\<close>), the repository layout (\<^verbatim>\<open>hf/repo_layout.py\<close>) and the
  reconciliation of the local dataset with the remote inventory (\<^verbatim>\<open>hf/reconciliation.py\<close>,
  \<^verbatim>\<open>pipeline/sync_reconciliation.py\<close>). A path is the list of its components, a stem set is a set
  of strings.
\<close>

section \<open>Actions and their order\<close>

datatype sync_action = RECOVERY | AUGMENT | PROCESS | PUBLISH | COMPLETE

type_synonym path = "string list"

definition path_name :: "path \<Rightarrow> string" where
  "path_name p = (if p = [] then [] else last p)"

record region_sync_state =
  stem :: string
  pbf_path :: path
  action :: sync_action

definition action_for_existing_stem ::
  "string \<Rightarrow> string set \<Rightarrow> string set \<Rightarrow> string set \<Rightarrow> sync_action" where
  "action_for_existing_stem s augmentation_stems pending_stems recovery_stems =
     (if s \<notin> augmentation_stems then AUGMENT
      else if s \<in> recovery_stems then RECOVERY
      else if s \<in> pending_stems then PUBLISH
      else COMPLETE)"

definition action_for_stem ::
  "string \<Rightarrow> string set \<Rightarrow> string set \<Rightarrow> bool \<Rightarrow> string set \<Rightarrow> string set \<Rightarrow> sync_action" where
  "action_for_stem s core_stems augmentation_stems force pending_stems recovery_stems =
     (if force \<or> s \<notin> core_stems then PROCESS
      else action_for_existing_stem s augmentation_stems pending_stems recovery_stems)"

fun sync_priority :: "sync_action \<Rightarrow> nat" where
  "sync_priority RECOVERY = 0"
| "sync_priority AUGMENT = 1"
| "sync_priority PUBLISH = 2"
| "sync_priority PROCESS = 3"
| "sync_priority COMPLETE = 4"

text \<open>Actions are ordered by their execution priority.\<close>

lemma sync_priority_inject: "sync_priority a = sync_priority b \<longleftrightarrow> a = b"
  by (cases a; cases b) auto

instantiation sync_action :: linorder
begin

definition less_eq_sync_action :: "sync_action \<Rightarrow> sync_action \<Rightarrow> bool" where
  "less_eq_sync_action a b \<longleftrightarrow> sync_priority a \<le> sync_priority b"

definition less_sync_action :: "sync_action \<Rightarrow> sync_action \<Rightarrow> bool" where
  "less_sync_action a b \<longleftrightarrow> sync_priority a < sync_priority b"

instance
  by standard (auto simp: less_eq_sync_action_def less_sync_action_def sync_priority_inject)

end

definition pbf_stem :: "path \<Rightarrow> string" where
  "pbf_stem pbf = py_removesuffix (path_name pbf) ''.osm.pbf''"

definition plan_sync_states ::
  "path list \<Rightarrow> string set \<Rightarrow> string set \<Rightarrow> bool \<Rightarrow> string set option \<Rightarrow> string set option
     \<Rightarrow> region_sync_state list" where
  "plan_sync_states pbfs core_stems augmentation_stems force pending_stems recovery_stems =
     (let pending = (case pending_stems of None \<Rightarrow> {} | Some s \<Rightarrow> s);
          recovery = (case recovery_stems of None \<Rightarrow> {} | Some s \<Rightarrow> s);
          states = map (\<lambda>pbf.
            \<lparr>stem = pbf_stem pbf, pbf_path = pbf,
             action = action_for_stem (pbf_stem pbf) core_stems augmentation_stems force pending recovery\<rparr>) pbfs
      in sort_key (\<lambda>s. (sync_priority (action s), stem s)) states)"

section \<open>Stem sets\<close>

record stem_inventory =
  input_stems :: "string set"
  core_stems :: "string set"
  current_augmentation :: "string set"

definition recovery_audit_stems :: "string set \<Rightarrow> string set \<Rightarrow> string set \<Rightarrow> bool \<Rightarrow> string set" where
  "recovery_audit_stems inputs cores current force = (if force then {} else inputs \<inter> cores \<inter> current)"

text \<open>
  \<open>link_plan\<close> is the result of the read-only link-migration planner: each stem with the value of
  its classification.
\<close>

definition plan_sync_states_with_recovery ::
  "path list \<Rightarrow> stem_inventory \<Rightarrow> bool \<Rightarrow> string set \<Rightarrow> string set \<Rightarrow> (string \<times> string) list
     \<Rightarrow> region_sync_state list" where
  "plan_sync_states_with_recovery pbfs sets force pending_stems recovery_stems link_plan =
     (let recovery = recovery_stems
            \<union> recovery_audit_stems (input_stems sets) (core_stems sets) (current_augmentation sets) force
            \<union> fst ` set (filter (\<lambda>(_, classification). classification \<noteq> ''canonical'') link_plan)
      in plan_sync_states pbfs (core_stems sets) (current_augmentation sets) force (Some pending_stems) (Some recovery))"

definition active_pbfs :: "path list \<Rightarrow> string set \<Rightarrow> path list" where
  "active_pbfs pbfs retired_children = filter (\<lambda>pbf. pbf_stem pbf \<notin> retired_children) pbfs"

definition current_augmentation_of :: "(string, bool) dict \<Rightarrow> string set" where
  "current_augmentation_of current = fst ` set (filter snd current)"

definition pending_stems_for_plan :: "string set \<Rightarrow> string set \<Rightarrow> bool \<Rightarrow> string set" where
  "pending_stems_for_plan pending stems_with_gaps push_enabled =
     (if push_enabled then pending \<union> stems_with_gaps else pending)"

definition core_repair_required :: "sync_action \<Rightarrow> string \<Rightarrow> (string \<times> string) set \<Rightarrow> bool" where
  "core_repair_required a s missing =
     (if a = PROCESS then True
      else if a \<notin> {PUBLISH, AUGMENT} then False
      else (s, ''polygons'') \<in> missing \<or> (s, ''polygon_articles'') \<in> missing)"

section \<open>Repository layout\<close>

definition remote_parquet_path :: "string \<Rightarrow> string \<Rightarrow> string" where
  "remote_parquet_path subdir s = subdir @ ''/'' @ s @ ''.parquet''"

definition canonical_region_paths :: "string \<Rightarrow> (string, string) dict" where
  "canonical_region_paths s =
     map (\<lambda>dir. (dir @ ''/'' @ s @ ''.parquet'', dir @ ''/'' @ s @ ''.parquet''))
       [''polygons'', ''polygon_articles'', ''wikipedia/documents'', ''wikipedia/sections'',
        ''wikivoyage/documents'', ''wikivoyage/sections'', ''wikidata/facts'']"

section \<open>Reconciliation\<close>

text \<open>
  The local side: the regular files below \<^verbatim>\<open>processed/\<close> by relative path, the two manifests, and
  the remote inventory as the set of its file names.
\<close>

record local_state =
  ls_files :: "string list"
  ls_manifest :: text_file
  ls_aug_manifest :: text_file

definition is_file :: "local_state \<Rightarrow> string \<Rightarrow> bool" where
  "is_file ls p \<longleftrightarrow> p \<in> set (ls_files ls)"

definition load_augmentation_manifest :: "text_file \<Rightarrow> json res" where
  "load_augmentation_manifest file =
     (if file = Absent then Inr (JObj [])
      else read_json_strict (ValueError ''Malformed augmentation manifest JSON'') file)"

record core_state =
  manifest_exists :: bool
  files_exist :: bool
  any_exists :: bool
  polygons_exists :: bool
  links_exists :: bool

definition core_state_of :: "local_state \<Rightarrow> string \<Rightarrow> (string, json) dict \<Rightarrow> core_state" where
  "core_state_of ls s manifest_entries =
     (let m = (s @ ''.osm.pbf'') \<in> fst ` set manifest_entries;
          p = is_file ls (''polygons/'' @ s @ ''.parquet'');
          l = is_file ls (''polygon_articles/'' @ s @ ''.parquet'')
      in \<lparr>manifest_exists = m, files_exist = p \<and> l, any_exists = m \<or> p \<or> l,
          polygons_exists = p, links_exists = l\<rparr>)"

definition validate_core_state :: "core_state \<Rightarrow> unit res" where
  "validate_core_state c =
     (if any_exists c \<and> \<not> (manifest_exists c \<and> files_exist c)
      then Inl (ValueError ''Inconsistent core state'') else Inr ())"

text \<open>
  \<open>augmentation_is_current\<close> is the validated status the code falls back to when the caller has
  not supplied one for the stem.
\<close>

definition resolve_augmentation_status ::
  "(string \<Rightarrow> bool) \<Rightarrow> local_state \<Rightarrow> string \<Rightarrow> json \<Rightarrow> (string, bool) dict \<Rightarrow> bool res" where
  "resolve_augmentation_status augmentation_is_current ls s augmentation_manifest augmentation_current =
     (let in_aug_manifest = (case augmentation_manifest of JObj d \<Rightarrow> s \<in> fst ` set d | _ \<Rightarrow> False) in
      if in_aug_manifest \<and> \<not> is_file ls (''wikipedia/documents/'' @ s @ ''.parquet'')
      then Inl (ValueError ''Inconsistent augmentation'')
      else case map_of augmentation_current s of
             Some b \<Rightarrow> Inr b
           | None \<Rightarrow> Inr (augmentation_is_current s))"

definition corpus_id :: "string \<Rightarrow> string" where
  "corpus_id rel_path = py_join ''/'' (butlast (py_split (CHR ''/'') rel_path))"

definition expected_region_paths :: "string \<Rightarrow> bool \<Rightarrow> (string, string) dict" where
  "expected_region_paths s augmented =
     filter (\<lambda>(local_rel, _). corpus_id local_rel \<in> {''polygons'', ''polygon_articles''} \<or> augmented)
       (canonical_region_paths s)"

definition collect_region_presence ::
  "string \<Rightarrow> string set \<Rightarrow> (string, string) dict \<Rightarrow> (string \<times> string) list \<times> (string \<times> string) list" where
  "collect_region_presence s inventory expected_paths =
     (map (\<lambda>(rel, _). (s, corpus_id rel)) (filter (\<lambda>(_, remote). remote \<in> inventory) expected_paths),
      map (\<lambda>(rel, _). (s, corpus_id rel)) (filter (\<lambda>(_, remote). remote \<notin> inventory) expected_paths))"

record stem_reconciliation =
  sr_present :: "(string \<times> string) list"
  sr_missing :: "(string \<times> string) list"
  sr_publish :: bool
  sr_augment :: bool

definition plan_stem ::
  "(string \<Rightarrow> bool) \<Rightarrow> local_state \<Rightarrow> string set \<Rightarrow> (string, json) dict \<Rightarrow> json \<Rightarrow> (string, bool) dict
     \<Rightarrow> string \<Rightarrow> stem_reconciliation res" where
  "plan_stem aug_is_current ls inventory manifest_entries aug_manifest aug_current s =
     (let c = core_state_of ls s manifest_entries in
      res_bind (validate_core_state c) (\<lambda>_.
      res_bind (resolve_augmentation_status aug_is_current ls s aug_manifest aug_current) (\<lambda>augmented.
        if \<not> files_exist c then Inr \<lparr>sr_present = [], sr_missing = [], sr_publish = False, sr_augment = False\<rparr>
        else
          (let (present, missing) = collect_region_presence s inventory (expected_region_paths s augmented)
           in Inr \<lparr>sr_present = present, sr_missing = missing,
                   sr_publish = (missing \<noteq> [] \<and> augmented), sr_augment = (\<not> augmented)\<rparr>))))"

text \<open>\<open>Path(name).stem\<close>: the part before the last dot, unless that dot is the first or last character.\<close>

definition name_stem :: "string \<Rightarrow> string" where
  "name_stem name =
     (let tail = takeWhile (\<lambda>c. c \<noteq> CHR ''.'') (rev name);
          cut = length name - Suc (length tail)
      in if CHR ''.'' \<in> set name \<and> 0 < cut \<and> tail \<noteq> [] then take cut name else name)"

definition is_unexpected_region_file :: "string list \<Rightarrow> string list \<Rightarrow> string \<Rightarrow> bool" where
  "is_unexpected_region_file prefixes local_stems remote_file =
     (if \<not> py_endswith remote_file ''.parquet'' then False
      else if \<not> list_ex (py_startswith remote_file) prefixes then False
      else name_stem (last (py_split (CHR ''/'') remote_file)) \<notin> set local_stems)"

definition local_polygon_stems :: "local_state \<Rightarrow> string list" where
  "local_polygon_stems ls =
     map (\<lambda>p. name_stem (last (py_split (CHR ''/'') p)))
       (filter (\<lambda>p. py_startswith p ''polygons/'' \<and> py_endswith p ''.parquet''
           \<and> length (py_split (CHR ''/'') p) = 2) (ls_files ls))"

definition unexpected_remote_files :: "local_state \<Rightarrow> string list \<Rightarrow> string list" where
  "unexpected_remote_files ls inventory_files =
     (let prefixes = sort (remdups (map (\<lambda>(_, remote). py_removesuffix remote ''dummy.parquet'')
                                      (canonical_region_paths ''dummy'')))
      in filter (is_unexpected_region_file prefixes (local_polygon_stems ls)) (sort (remdups inventory_files)))"

definition repository_refresh_files :: "string set \<Rightarrow> string list" where
  "repository_refresh_files inventory =
     filter (\<lambda>p. p \<notin> inventory)
       [''manifests/processed_pbfs.json'', ''manifests/augmentation_manifest.json'', ''README.md'',
        ''assets/coverage_map.png'', ''assets/dataset_hero.png'', ''assets/geographic_text_density.png'',
        ''stats.json'']"

record reconciliation_plan =
  rp_present :: "(string \<times> string) list"
  rp_missing :: "(string \<times> string) list"
  rp_unexpected :: "string list"
  rp_repository_refresh :: "string list"
  rp_stems_to_publish :: "string list"
  rp_stems_to_augment :: "string list"

definition reconciliation_plan_of ::
  "(string \<Rightarrow> bool) \<Rightarrow> local_state \<Rightarrow> string list \<Rightarrow> string list \<Rightarrow> (string, bool) dict \<Rightarrow> reconciliation_plan res" where
  "reconciliation_plan_of aug_is_current ls inventory_files stems aug_current =
     res_bind (load_manifest (ls_manifest ls)) (\<lambda>manifest_entries.
     res_bind (load_augmentation_manifest (ls_aug_manifest ls)) (\<lambda>aug_manifest.
     (let ordered = sort (remdups stems) in
      res_bind (res_map (plan_stem aug_is_current ls (set inventory_files) manifest_entries aug_manifest aug_current)
                  ordered) (\<lambda>results.
        Inr \<lparr>rp_present = sort (concat (map sr_present results)),
             rp_missing = sort (concat (map sr_missing results)),
             rp_unexpected = sort (unexpected_remote_files ls inventory_files),
             rp_repository_refresh = sort (repository_refresh_files (set inventory_files)),
             rp_stems_to_publish = map fst (filter (\<lambda>(_, r). sr_publish r) (zip ordered results)),
             rp_stems_to_augment = map fst (filter (\<lambda>(_, r). sr_augment r) (zip ordered results))\<rparr>))))"

section \<open>Contained regions\<close>

definition remote_child_has_artifact :: "string set \<Rightarrow> string \<Rightarrow> bool" where
  "remote_child_has_artifact inventory child = list_ex (\<lambda>(_, p). p \<in> inventory) (canonical_region_paths child)"

definition containment_publications_for_remote ::
  "(string, string list) dict \<Rightarrow> string set \<Rightarrow> (string, string list) dict" where
  "containment_publications_for_remote parent_children inventory =
     filter (\<lambda>(_, present). present \<noteq> [])
       (map (\<lambda>(parent, children). (parent, filter (remote_child_has_artifact inventory) children)) parent_children)"

definition reconciliation_gap_counts :: "string list \<Rightarrow> (string \<times> string) set \<Rightarrow> nat \<times> nat" where
  "reconciliation_gap_counts inputs missing =
     (length (filter (\<lambda>s. (s, ''polygons'') \<in> missing \<or> (s, ''polygon_articles'') \<in> missing) inputs),
      length (filter (\<lambda>s. list_ex (\<lambda>corpus. (s, corpus) \<in> missing)
         [''wikipedia/documents'', ''wikipedia/sections'', ''wikivoyage/documents'', ''wikivoyage/sections'',
          ''wikidata/facts'']) inputs))"

definition core_will_be_repaired :: "region_sync_state list \<Rightarrow> reconciliation_plan option \<Rightarrow> bool \<Rightarrow> bool" where
  "core_will_be_repaired states plan push_enabled =
     (case plan of
        None \<Rightarrow> False
      | Some p \<Rightarrow> push_enabled \<and> list_ex (\<lambda>s. core_repair_required (action s) (stem s) (set (rp_missing p))) states)"

section \<open>Facts about plans\<close>

lemma sort_key_perm:
  assumes "mset xs = mset ys" and "inj_on f (set xs)"
  shows "sort_key f xs = sort_key f ys"
proof -
  have "sort (map f xs) = map f (sort_key f zs)" if "mset zs = mset xs" for zs
    using that by (intro properties_for_sort) simp_all
  then have "map f (sort_key f xs) = map f (sort_key f ys)"
    using assms(1) by metis
  moreover have "set ys = set xs"
    using assms(1) by (metis mset_eq_setD)
  ultimately show ?thesis
    using assms(2) by (intro map_inj_on [of f]) auto
qed

lemma plan_sync_states_actions:
  assumes "s \<in> set (plan_sync_states pbfs cores augs force pending recovery)"
  shows "pbf_path s \<in> set pbfs" and "stem s = pbf_stem (pbf_path s)"
    and "action s = action_for_stem (stem s) cores augs force
      (case pending of None \<Rightarrow> {} | Some p \<Rightarrow> p) (case recovery of None \<Rightarrow> {} | Some r \<Rightarrow> r)"
  using assms by (auto simp: plan_sync_states_def Let_def)

lemma pbf_stem_suffix: "pbf_stem [name @ ''.osm.pbf''] = name"
  by (simp add: pbf_stem_def path_name_def)

lemma py_split_snoc: "c \<notin> set t \<Longrightarrow> py_split c (d @ c # t) = py_split c d @ [t]"
  by (induction d) (auto simp: py_split_id split: list.splits)

lemma corpus_id_region [simp]:
  "CHR ''/'' \<notin> set s \<Longrightarrow> corpus_id (dir @ CHR ''/'' # s @ ''.parquet'') = dir"
  by (simp add: corpus_id_def py_split_snoc py_join_split)

lemma core_state_of_sel [simp]:
  "manifest_exists (core_state_of ls s m) \<longleftrightarrow> s @ ''.osm.pbf'' \<in> fst ` set m"
  "files_exist (core_state_of ls s m) \<longleftrightarrow>
     is_file ls (''polygons/'' @ s @ ''.parquet'') \<and> is_file ls (''polygon_articles/'' @ s @ ''.parquet'')"
  "any_exists (core_state_of ls s m) \<longleftrightarrow>
     s @ ''.osm.pbf'' \<in> fst ` set m \<or> is_file ls (''polygons/'' @ s @ ''.parquet'')
     \<or> is_file ls (''polygon_articles/'' @ s @ ''.parquet'')"
  by (simp_all add: core_state_of_def Let_def)

definition core_files :: "local_state \<Rightarrow> string \<Rightarrow> bool" where
  "core_files ls s \<longleftrightarrow>
     is_file ls (remote_parquet_path ''polygons'' s) \<and> is_file ls (remote_parquet_path ''polygon_articles'' s)"

text \<open>The artifacts a region must have remotely, as corpus names.\<close>

definition expected_corpora :: "bool \<Rightarrow> string set" where
  "expected_corpora augmented =
     (if augmented
      then {''polygons'', ''polygon_articles'', ''wikipedia/documents'', ''wikipedia/sections'',
            ''wikivoyage/documents'', ''wikivoyage/sections'', ''wikidata/facts''}
      else {''polygons'', ''polygon_articles''})"

lemma expected_region_paths_set:
  assumes "CHR ''/'' \<notin> set s"
  shows "set (expected_region_paths s augmented) =
    (\<lambda>dir. (remote_parquet_path dir s, remote_parquet_path dir s)) ` expected_corpora augmented"
  using assms
  by (cases augmented) (simp_all add: expected_region_paths_def canonical_region_paths_def expected_corpora_def
      remote_parquet_path_def corpus_id_region [where dir = "''polygons''", simplified]
      corpus_id_region [where dir = "''polygon_articles''", simplified]
      corpus_id_region [where dir = "''wikipedia/documents''", simplified]
      corpus_id_region [where dir = "''wikipedia/sections''", simplified]
      corpus_id_region [where dir = "''wikivoyage/documents''", simplified]
      corpus_id_region [where dir = "''wikivoyage/sections''", simplified]
      corpus_id_region [where dir = "''wikidata/facts''", simplified])

lemma collect_region_presence_sets:
  fixes remote :: "string set" and augmented :: bool
  assumes "CHR ''/'' \<notin> set s"
  defines "found \<equiv> collect_region_presence s remote (expected_region_paths s augmented)"
  shows "set (fst found) = {(s, c) | c. c \<in> expected_corpora augmented \<and> remote_parquet_path c s \<in> remote}"
    and "set (snd found) = {(s, c) | c. c \<in> expected_corpora augmented \<and> remote_parquet_path c s \<notin> remote}"
proof -
  have "corpus_id (remote_parquet_path c s) = c" for c
    using assms(1) by (simp add: remote_parquet_path_def)
  then show "set (fst found) = {(s, c) | c. c \<in> expected_corpora augmented \<and> remote_parquet_path c s \<in> remote}"
    and "set (snd found) = {(s, c) | c. c \<in> expected_corpora augmented \<and> remote_parquet_path c s \<notin> remote}"
    unfolding found_def collect_region_presence_def fst_conv snd_conv set_map set_filter
      expected_region_paths_set [OF assms(1)] Compr_image_eq image_image
    by auto
qed

definition stem_consistent :: "local_state \<Rightarrow> (string, json) dict \<Rightarrow> json \<Rightarrow> string \<Rightarrow> bool" where
  "stem_consistent ls m aug_manifest s \<longleftrightarrow>
     (s @ ''.osm.pbf'' \<in> fst ` set m \<or> is_file ls (remote_parquet_path ''polygons'' s)
       \<or> is_file ls (remote_parquet_path ''polygon_articles'' s)
      \<longrightarrow> s @ ''.osm.pbf'' \<in> fst ` set m \<and> core_files ls s)
   \<and> (\<forall>d. aug_manifest = JObj d \<longrightarrow> s \<in> fst ` set d
      \<longrightarrow> is_file ls (remote_parquet_path ''wikipedia/documents'' s))"

definition augmented_status :: "(string \<Rightarrow> bool) \<Rightarrow> (string, bool) dict \<Rightarrow> string \<Rightarrow> bool" where
  "augmented_status aug_is_current aug_current s =
     (case map_of aug_current s of Some b \<Rightarrow> b | None \<Rightarrow> aug_is_current s)"

definition stem_result :: "local_state \<Rightarrow> string set \<Rightarrow> bool \<Rightarrow> string \<Rightarrow> stem_reconciliation" where
  "stem_result ls remote augmented s =
     (if core_files ls s
      then (let found = collect_region_presence s remote (expected_region_paths s augmented)
            in \<lparr>sr_present = fst found, sr_missing = snd found,
                sr_publish = (snd found \<noteq> [] \<and> augmented), sr_augment = (\<not> augmented)\<rparr>)
      else \<lparr>sr_present = [], sr_missing = [], sr_publish = False, sr_augment = False\<rparr>)"

lemma core_files_alt:
  "core_files ls s \<longleftrightarrow>
     is_file ls (''polygons/'' @ s @ ''.parquet'') \<and> is_file ls (''polygon_articles/'' @ s @ ''.parquet'')"
  by (simp add: core_files_def remote_parquet_path_def)

lemma resolve_augmentation_status_eq:
  "resolve_augmentation_status aug ls s am ac =
     (if \<forall>d. am = JObj d \<longrightarrow> s \<in> fst ` set d \<longrightarrow> is_file ls (remote_parquet_path ''wikipedia/documents'' s)
      then Inr (augmented_status aug ac s) else Inl (ValueError ''Inconsistent augmentation''))"
  by (cases am) (auto simp: resolve_augmentation_status_def augmented_status_def Let_def remote_parquet_path_def
      split: option.splits)

lemma validate_core_state_Inr_iff:
  "validate_core_state c = Inr u \<longleftrightarrow> (any_exists c \<longrightarrow> manifest_exists c \<and> files_exist c)"
  by (auto simp: validate_core_state_def)

lemma plan_stem_Inr_iff:
  "plan_stem aug ls remote m am ac s = Inr r \<longleftrightarrow>
     stem_consistent ls m am s \<and> r = stem_result ls remote (augmented_status aug ac s) s"
proof -
  have core: "validate_core_state (core_state_of ls s m) = Inr () \<longleftrightarrow>
      (s @ ''.osm.pbf'' \<in> fst ` set m \<or> is_file ls (remote_parquet_path ''polygons'' s)
       \<or> is_file ls (remote_parquet_path ''polygon_articles'' s)
      \<longrightarrow> s @ ''.osm.pbf'' \<in> fst ` set m \<and> core_files ls s)"
    by (simp add: validate_core_state_Inr_iff core_files_alt remote_parquet_path_def)
  show ?thesis
    unfolding plan_stem_def Let_def res_bind_Inr_iff resolve_augmentation_status_eq stem_consistent_def
    using core core_files_alt [of ls s]
    by (auto simp: stem_result_def Let_def split_beta split: if_splits)
qed

lemma res_map_Inr_map:
  "(\<And>x y. f x = Inr y \<longleftrightarrow> P x \<and> y = g x) \<Longrightarrow> res_map f xs = Inr ys \<longleftrightarrow> (\<forall>x\<in>set xs. P x) \<and> ys = map g xs"
  by (induction xs arbitrary: ys) auto

lemma reconciliation_plan_Inr:
  fixes aug ls ac inventory
  defines "result \<equiv> \<lambda>s. stem_result ls (set inventory) (augmented_status aug ac s) s"
  assumes "reconciliation_plan_of aug ls inventory stems ac = Inr plan"
  shows "\<exists>m am. load_manifest (ls_manifest ls) = Inr m \<and> load_augmentation_manifest (ls_aug_manifest ls) = Inr am
      \<and> (\<forall>s\<in>set stems. stem_consistent ls m am s)"
    and "set (rp_present plan) = (\<Union>s\<in>set stems. set (sr_present (result s)))"
    and "set (rp_missing plan) = (\<Union>s\<in>set stems. set (sr_missing (result s)))"
    and "set (rp_stems_to_publish plan) = {s \<in> set stems. sr_publish (result s)}"
    and "set (rp_stems_to_augment plan) = {s \<in> set stems. sr_augment (result s)}"
proof -
  obtain m am results where m: "load_manifest (ls_manifest ls) = Inr m"
    and am: "load_augmentation_manifest (ls_aug_manifest ls) = Inr am"
    and res: "res_map (plan_stem aug ls (set inventory) m am ac) (sort (remdups stems)) = Inr results"
    and plan: "rp_present plan = sort (concat (map sr_present results))"
      "rp_missing plan = sort (concat (map sr_missing results))"
      "rp_stems_to_publish plan = map fst (filter (\<lambda>(_, r). sr_publish r) (zip (sort (remdups stems)) results))"
      "rp_stems_to_augment plan = map fst (filter (\<lambda>(_, r). sr_augment r) (zip (sort (remdups stems)) results))"
    using assms(2) by (auto simp: reconciliation_plan_of_def Let_def)
  have ok: "\<forall>s\<in>set stems. stem_consistent ls m am s"
    and results: "results = map result (sort (remdups stems))"
    using res unfolding res_map_Inr_map [OF plan_stem_Inr_iff] result_def by simp_all
  show "\<exists>m am. load_manifest (ls_manifest ls) = Inr m \<and> load_augmentation_manifest (ls_aug_manifest ls) = Inr am
      \<and> (\<forall>s\<in>set stems. stem_consistent ls m am s)"
    using m am ok by blast
  show "set (rp_present plan) = (\<Union>s\<in>set stems. set (sr_present (result s)))"
    and "set (rp_missing plan) = (\<Union>s\<in>set stems. set (sr_missing (result s)))"
    and "set (rp_stems_to_publish plan) = {s \<in> set stems. sr_publish (result s)}"
    and "set (rp_stems_to_augment plan) = {s \<in> set stems. sr_augment (result s)}"
    unfolding plan results by (simp_all add: zip_map2 zip_same_conv_map Compr_image_eq image_image)
qed

lemma stem_result_sets:
  assumes "CHR ''/'' \<notin> set s"
  shows "set (sr_missing (stem_result ls remote a s)) =
      {(s, c) | c. core_files ls s \<and> c \<in> expected_corpora a \<and> remote_parquet_path c s \<notin> remote}"
    and "set (sr_present (stem_result ls remote a s)) =
      {(s, c) | c. core_files ls s \<and> c \<in> expected_corpora a \<and> remote_parquet_path c s \<in> remote}"
    and "sr_publish (stem_result ls remote a s) \<longleftrightarrow> core_files ls s \<and> a \<and>
      (\<exists>c\<in>expected_corpora a. remote_parquet_path c s \<notin> remote)"
    and "sr_augment (stem_result ls remote a s) \<longleftrightarrow> core_files ls s \<and> \<not> a"
proof -
  note found = collect_region_presence_sets [OF assms, of remote a]
  show "set (sr_missing (stem_result ls remote a s)) =
      {(s, c) | c. core_files ls s \<and> c \<in> expected_corpora a \<and> remote_parquet_path c s \<notin> remote}"
    and "set (sr_present (stem_result ls remote a s)) =
      {(s, c) | c. core_files ls s \<and> c \<in> expected_corpora a \<and> remote_parquet_path c s \<in> remote}"
    and "sr_augment (stem_result ls remote a s) \<longleftrightarrow> core_files ls s \<and> \<not> a"
    by (simp_all add: stem_result_def Let_def found)
  have "snd (collect_region_presence s remote (expected_region_paths s a)) = [] \<longleftrightarrow>
      set (snd (collect_region_presence s remote (expected_region_paths s a))) = {}"
    by simp
  then show "sr_publish (stem_result ls remote a s) \<longleftrightarrow> core_files ls s \<and> a \<and>
      (\<exists>c\<in>expected_corpora a. remote_parquet_path c s \<notin> remote)"
    unfolding found by (auto simp: stem_result_def Let_def)
qed

lemma reconciliation_plan_ok_iff:
  "(\<exists>plan. reconciliation_plan_of aug ls inventory stems ac = Inr plan) \<longleftrightarrow>
     (\<exists>m am. load_manifest (ls_manifest ls) = Inr m \<and> load_augmentation_manifest (ls_aug_manifest ls) = Inr am
        \<and> (\<forall>s\<in>set stems. stem_consistent ls m am s))" (is "?L \<longleftrightarrow> ?R")
proof
  show "?L \<Longrightarrow> ?R"
    using reconciliation_plan_Inr(1) by blast
  assume ?R
  then obtain m am where m: "load_manifest (ls_manifest ls) = Inr m"
    "load_augmentation_manifest (ls_aug_manifest ls) = Inr am" "\<forall>s\<in>set stems. stem_consistent ls m am s"
    by blast
  then have "\<exists>results. res_map (plan_stem aug ls (set inventory) m am ac) (sort (remdups stems)) = Inr results"
    unfolding res_map_Inr_map [OF plan_stem_Inr_iff] by simp
  with m show ?L
    by (auto simp: reconciliation_plan_of_def Let_def)
qed

text \<open>A dataset with one finalized region whose links are not published yet.\<close>

definition example_local :: local_state where
  "example_local =
     \<lparr>ls_files = [remote_parquet_path ''polygons'' ''a'', remote_parquet_path ''polygon_articles'' ''a''],
      ls_manifest = Parsed (JObj [(''a.osm.pbf'', JNull)]), ls_aug_manifest = Absent\<rparr>"

lemma example_local_plans:
  "\<exists>plan. reconciliation_plan_of (\<lambda>_. True) example_local [remote_parquet_path ''polygons'' ''a''] [''a''] [] = Inr plan"
  unfolding reconciliation_plan_ok_iff
  by (simp add: example_local_def load_manifest_def load_augmentation_manifest_def stem_consistent_def
      core_files_def is_file_def)

lemma example_local_core: "core_files example_local ''a''"
  by (simp add: core_files_def is_file_def example_local_def)

section \<open>Properties\<close>

text \<open>
  The sync plan is a deterministic schedule: it holds every input once, with the action its
  stem sets select, in the order of execution priority and then of the stem; and permuting the
  inputs does not change it.
\<close>

theorem plan_sync_states_deterministic:
  assumes "mset pbfs' = mset pbfs" and "inj_on pbf_stem (set pbfs)"
  shows "plan_sync_states pbfs' cores augs force pending recovery = plan_sync_states pbfs cores augs force pending recovery
    \<and> sorted (map (\<lambda>s. (action s, stem s)) (plan_sync_states pbfs cores augs force pending recovery))
    \<and> mset (map pbf_path (plan_sync_states pbfs cores augs force pending recovery)) = mset pbfs"
proof (intro conjI)
  let ?state = "\<lambda>pbf. \<lparr>stem = pbf_stem pbf, pbf_path = pbf,
    action = action_for_stem (pbf_stem pbf) cores augs force
      (case pending of None \<Rightarrow> {} | Some s \<Rightarrow> s) (case recovery of None \<Rightarrow> {} | Some s \<Rightarrow> s)\<rparr>"
  let ?key = "\<lambda>s. (sync_priority (action s), stem s)"
  have plan: "plan_sync_states ps cores augs force pending recovery = sort_key ?key (map ?state ps)" for ps
    by (simp add: plan_sync_states_def Let_def)
  have "set pbfs' = set pbfs"
    using assms(1) by (rule mset_eq_setD)
  then have "inj_on ?key (set (map ?state pbfs'))"
    using assms(2) by (auto simp: inj_on_def)
  then show "plan_sync_states pbfs' cores augs force pending recovery = plan_sync_states pbfs cores augs force pending recovery"
    unfolding plan using assms(1) by (intro sort_key_perm) simp_all
  have "sorted (map ?key (plan_sync_states pbfs cores augs force pending recovery))"
    unfolding plan by simp
  then show "sorted (map (\<lambda>s. (action s, stem s)) (plan_sync_states pbfs cores augs force pending recovery))"
    by (simp add: sorted_wrt_map less_eq_prod_def less_eq_sync_action_def less_sync_action_def)
  show "mset (map pbf_path (plan_sync_states pbfs cores augs force pending recovery)) = mset pbfs"
    unfolding plan by (simp add: multiset.map_comp comp_def)
qed

theorem plan_sync_states_deterministic_witness:
  "mset [[''b.osm.pbf''], [''a.osm.pbf'']] = mset [[''a.osm.pbf''], [''b.osm.pbf'']]
   \<and> inj_on pbf_stem {[''a.osm.pbf''], [''b.osm.pbf'']}
   \<and> plan_sync_states [[''b.osm.pbf''], [''a.osm.pbf'']] {} {} False None None =
       plan_sync_states [[''a.osm.pbf''], [''b.osm.pbf'']] {} {} False None None"
proof -
  have h: "mset [[''b.osm.pbf''], [''a.osm.pbf'']] = mset [[''a.osm.pbf''], [''b.osm.pbf'']]"
    by simp
  have "pbf_stem [''a.osm.pbf''] = ''a''" "pbf_stem [''b.osm.pbf''] = ''b''"
    using pbf_stem_suffix [of "''a''"] pbf_stem_suffix [of "''b''"] by simp_all
  then have i: "inj_on pbf_stem (set [[''a.osm.pbf''], [''b.osm.pbf'']])"
    by simp
  show ?thesis
    using h i plan_sync_states_deterministic [OF h i, of "{}" "{}" False None None] by simp
qed

text \<open>
  In the plan of \<^verbatim>\<open>sync-dir\<close> every finalized region is audited: whatever the pending set and the
  link plan, a region is processed when it is forced or has no core, augmented when its sidecars
  are not current, and otherwise recovered. No region is skipped as complete.
\<close>

theorem sync_plan_audits_every_region:
  assumes "pbf_stem ` set pbfs \<subseteq> input_stems sets"
    and "s \<in> set (plan_sync_states_with_recovery pbfs sets force pending recovery link_plan)"
  shows "action s =
    (if force \<or> stem s \<notin> core_stems sets then PROCESS
     else if stem s \<notin> current_augmentation sets then AUGMENT
     else RECOVERY)"
proof -
  note plan = assms(2) [unfolded plan_sync_states_with_recovery_def Let_def]
  have "stem s \<in> input_stems sets"
    using assms(1) plan_sync_states_actions(1,2) [OF plan] by auto
  then show ?thesis
    unfolding plan_sync_states_actions(3) [OF plan]
    by (auto simp: action_for_stem_def action_for_existing_stem_def recovery_audit_stems_def)
qed

theorem sync_plan_audits_every_region_witness:
  "\<exists>s\<in>set (plan_sync_states_with_recovery [[''a.osm.pbf'']]
      \<lparr>input_stems = {''a''}, core_stems = {''a''}, current_augmentation = {''a''}\<rparr> False {''a''} {} []).
     action s = RECOVERY"
proof -
  let ?sets = "\<lparr>input_stems = {''a''}, core_stems = {''a''}, current_augmentation = {''a''}\<rparr>"
  have a: "pbf_stem [''a.osm.pbf''] = ''a''"
    using pbf_stem_suffix [of "''a''"] by simp
  obtain s where s: "s \<in> set (plan_sync_states_with_recovery [[''a.osm.pbf'']] ?sets False {''a''} {} [])"
    and "stem s = ''a''"
    using a by (auto simp: plan_sync_states_with_recovery_def plan_sync_states_def Let_def)
  then have "action s = RECOVERY"
    using a sync_plan_audits_every_region [OF _ s] by simp
  with s show ?thesis by blast
qed

text \<open>
  C20. Reconciliation reports exactly the gaps: for regions whose core files exist locally the
  missing and present artifacts are the expected ones that the inventory lacks or has, a region
  is published exactly when it is augmented and has a gap, and augmented exactly when it is not.
\<close>

theorem reconciliation_exact:
  assumes "reconciliation_plan_of aug ls inventory stems ac = Inr plan"
    and "list_all (\<lambda>s. CHR ''/'' \<notin> set s) stems"
  defines "status \<equiv> augmented_status aug ac"
  shows "set (rp_missing plan) = {(s, c). s \<in> set stems \<and> core_files ls s
      \<and> c \<in> expected_corpora (status s) \<and> remote_parquet_path c s \<notin> set inventory}
    \<and> set (rp_present plan) = {(s, c). s \<in> set stems \<and> core_files ls s
      \<and> c \<in> expected_corpora (status s) \<and> remote_parquet_path c s \<in> set inventory}
    \<and> set (rp_stems_to_publish plan) = {s \<in> fst ` set (rp_missing plan). status s}
    \<and> set (rp_stems_to_augment plan) = {s \<in> set stems. core_files ls s \<and> \<not> status s}"
proof -
  have noslash: "\<And>s. s \<in> set stems \<Longrightarrow> CHR ''/'' \<notin> set s"
    using assms(2) by (simp add: list_all_iff)
  note P = reconciliation_plan_Inr(2-5) [OF assms(1), folded status_def]
  have missing: "set (rp_missing plan) = {(s, c). s \<in> set stems \<and> core_files ls s
      \<and> c \<in> expected_corpora (status s) \<and> remote_parquet_path c s \<notin> set inventory}"
    unfolding P using stem_result_sets(1) [OF noslash] by auto
  moreover have "set (rp_present plan) = {(s, c). s \<in> set stems \<and> core_files ls s
      \<and> c \<in> expected_corpora (status s) \<and> remote_parquet_path c s \<in> set inventory}"
    unfolding P using stem_result_sets(2) [OF noslash] by auto
  moreover have "set (rp_stems_to_publish plan) = {s \<in> fst ` set (rp_missing plan). status s}"
  proof -
    have "sr_publish (stem_result ls (set inventory) (status s) s) \<longleftrightarrow> s \<in> fst ` set (rp_missing plan) \<and> status s"
      if "s \<in> set stems" for s
      using that stem_result_sets(3) [OF noslash [OF that]] unfolding missing by (auto simp: image_iff)
    moreover have "fst ` set (rp_missing plan) \<subseteq> set stems"
      unfolding missing by auto
    ultimately show ?thesis
      unfolding P(3) by blast
  qed
  moreover have "set (rp_stems_to_augment plan) = {s \<in> set stems. core_files ls s \<and> \<not> status s}"
    unfolding P(4) using stem_result_sets(4) [OF noslash] by auto
  ultimately show ?thesis by blast
qed

theorem reconciliation_exact_witness:
  "\<exists>plan. reconciliation_plan_of (\<lambda>_. True) example_local [remote_parquet_path ''polygons'' ''a''] [''a''] [] = Inr plan
     \<and> (''a'', ''polygon_articles'') \<in> set (rp_missing plan)"
proof -
  obtain plan where plan:
    "reconciliation_plan_of (\<lambda>_. True) example_local [remote_parquet_path ''polygons'' ''a''] [''a''] [] = Inr plan"
    using example_local_plans ..
  have "list_all (\<lambda>s. CHR ''/'' \<notin> set s) [''a'']"
    by simp
  note exact = reconciliation_exact [OF plan this]
  have "(''a'', ''polygon_articles'') \<in> set (rp_missing plan)"
    using exact example_local_core by (simp add: augmented_status_def expected_corpora_def remote_parquet_path_def)
  with plan show ?thesis by blast
qed

text \<open>
  C32. Reconciliation converges: once the missing artifacts have been uploaded, planning again
  succeeds, finds nothing missing and nothing to publish, and asks for the same augmentations.
\<close>

theorem reconciliation_converges:
  assumes "reconciliation_plan_of aug ls inventory stems ac = Inr plan"
    and "list_all (\<lambda>s. CHR ''/'' \<notin> set s) stems"
  shows "\<exists>plan'. reconciliation_plan_of aug ls
      (inventory @ map (\<lambda>(s, c). remote_parquet_path c s) (rp_missing plan)) stems ac = Inr plan'
    \<and> rp_missing plan' = [] \<and> rp_stems_to_publish plan' = []
    \<and> set (rp_stems_to_augment plan') = set (rp_stems_to_augment plan)"
proof -
  let ?inv' = "inventory @ map (\<lambda>(s, c). remote_parquet_path c s) (rp_missing plan)"
  let ?status = "augmented_status aug ac"
  have noslash: "\<And>s. s \<in> set stems \<Longrightarrow> CHR ''/'' \<notin> set s"
    using assms(2) by (simp add: list_all_iff)
  obtain plan' where plan': "reconciliation_plan_of aug ls ?inv' stems ac = Inr plan'"
    using assms(1) reconciliation_plan_ok_iff by blast
  note P = reconciliation_plan_Inr [OF assms(1)] and P' = reconciliation_plan_Inr [OF plan']
  have found: "remote_parquet_path c s \<in> set ?inv'"
    if "s \<in> set stems" "core_files ls s" "c \<in> expected_corpora (?status s)" for s c
  proof (cases "remote_parquet_path c s \<in> set inventory")
    case False
    then have "(s, c) \<in> set (sr_missing (stem_result ls (set inventory) (?status s) s))"
      unfolding stem_result_sets(1) [OF noslash [OF that(1)]] using that(2,3) by simp
    then have "(s, c) \<in> set (rp_missing plan)"
      unfolding P(3) using that(1) by (rule UN_I [rotated])
    then show ?thesis by force
  qed simp
  have "set (sr_missing (stem_result ls (set ?inv') (?status s) s)) = {}"
    and "\<not> sr_publish (stem_result ls (set ?inv') (?status s) s)" if s: "s \<in> set stems" for s
    unfolding stem_result_sets(1,3) [OF noslash [OF s]] using found [OF s] by blast+
  then have "set (rp_missing plan') = {}" "set (rp_stems_to_publish plan') = {}"
    unfolding P'(3,4) by simp_all
  moreover have "set (rp_stems_to_augment plan') = set (rp_stems_to_augment plan)"
    unfolding P(5) P'(5) using stem_result_sets(4) [OF noslash] by blast
  ultimately show ?thesis
    using plan' by auto
qed

theorem reconciliation_converges_witness:
  "\<exists>plan plan'. reconciliation_plan_of (\<lambda>_. True) example_local [remote_parquet_path ''polygons'' ''a''] [''a''] [] = Inr plan
     \<and> reconciliation_plan_of (\<lambda>_. True) example_local
         ([remote_parquet_path ''polygons'' ''a''] @ map (\<lambda>(s, c). remote_parquet_path c s) (rp_missing plan)) [''a''] [] = Inr plan'
     \<and> rp_missing plan' = []"
proof -
  obtain plan where plan:
    "reconciliation_plan_of (\<lambda>_. True) example_local [remote_parquet_path ''polygons'' ''a''] [''a''] [] = Inr plan"
    using example_local_plans ..
  have "list_all (\<lambda>s. CHR ''/'' \<notin> set s) [''a'']"
    by simp
  from reconciliation_converges [OF plan this] plan show ?thesis by blast
qed

end
