(* ===== verification/Sync_Run.thy ===== *)
theory Sync_Run
  imports Sync_Plan "HOL-Library.Sublist"
begin

text \<open>
  Execution of a sync plan (\<^verbatim>\<open>pipeline/sync_runner.py\<close>, \<^verbatim>\<open>pipeline/sync_orchestrator.py\<close>). The runner
  owns no data: it calls the collaborators it is given. A collaborator is a function from its
  arguments to a result or an exception; \<open>None\<close> is a hook that is not set. A run is its outcome
  together with the sequence of calls it made. A future is the path whose extraction was
  submitted: the extraction itself runs on the worker thread, and its exception, like its value,
  reaches the runner when the future is awaited.
\<close>

section \<open>Runs\<close>

datatype event =
    RecoverCalled string
  | ExtractStarted path
  | ExtractAwaited path
  | ProcessCalled path
  | AugmentCalled string
  | LoadCalled string
  | CompleteCalled string
  | BuildCalled string
  | UploadSubmitted string
  | UploadsClosed

type_synonym 'a run = "'a res \<times> event list"

definition run_ret :: "'a \<Rightarrow> 'a run" where
  "run_ret x = (Inr x, [])"

definition run_fail :: "exn \<Rightarrow> 'a run" where
  "run_fail e = (Inl e, [])"

definition call :: "event \<Rightarrow> 'a res \<Rightarrow> 'a run" where
  "call ev r = (r, [ev])"

definition run_bind :: "'a run \<Rightarrow> ('a \<Rightarrow> 'b run) \<Rightarrow> 'b run" where
  "run_bind m f =
     (case m of
        (Inl e, evs) \<Rightarrow> (Inl e, evs)
      | (Inr x, evs) \<Rightarrow> (case f x of (r, evs') \<Rightarrow> (r, evs @ evs')))"

record ('e, 'c, 'a, 'o) collaborators =
  extract_pbf :: "(path \<Rightarrow> 'e res) option"
  process_extracted_pbf :: "('e \<Rightarrow> 'c res) option"
  augment_region :: "(region_sync_state \<Rightarrow> 'a res) option"
  on_complete :: "(region_sync_state \<Rightarrow> 'a \<Rightarrow> unit res) option"
  load_existing_augmentation :: "(region_sync_state \<Rightarrow> 'a res) option"
  recover_region :: "(region_sync_state \<Rightarrow> 'a option res) option"
  build_upload_files :: "(region_sync_state \<Rightarrow> 'a \<Rightarrow> 'c option \<Rightarrow> 'o list res) option"
  commit_message :: "(region_sync_state \<Rightarrow> string res) option"
  submit_upload :: "('o list \<Rightarrow> string \<Rightarrow> unit res) option"
  close_uploads :: "string list res option"

section \<open>The runner\<close>

definition partition_states ::
  "region_sync_state list \<Rightarrow> region_sync_state list \<times> region_sync_state list \<times> region_sync_state list \<times> region_sync_state list" where
  "partition_states states =
     (filter (\<lambda>s. action s = PROCESS) states, filter (\<lambda>s. action s = AUGMENT) states,
      filter (\<lambda>s. action s = PUBLISH) states, filter (\<lambda>s. action s = RECOVERY) states)"

definition validate_required_collaborators :: "('e, 'c, 'a, 'o) collaborators \<Rightarrow> unit run" where
  "validate_required_collaborators C =
     (if extract_pbf C = None \<or> process_extracted_pbf C = None \<or> augment_region C = None
      then run_fail (RuntimeError ''run_sync requires extract_pbf, process_extracted_pbf, and augment_region'')
      else run_ret ())"

definition maybe_submit ::
  "('e, 'c, 'a, 'o) collaborators \<Rightarrow> region_sync_state \<Rightarrow> 'a \<Rightarrow> 'c option \<Rightarrow> unit run" where
  "maybe_submit C s augmentation core =
     (case (submit_upload C, build_upload_files C) of
        (Some submit, Some build) \<Rightarrow>
          run_bind (call (BuildCalled (stem s)) (build s augmentation core)) (\<lambda>ops.
            if ops = [] then run_ret ()
            else run_bind (case commit_message C of
                             Some message \<Rightarrow> (message s, [])
                           | None \<Rightarrow> run_ret (''Sync complete region '' @ stem s)) (\<lambda>message.
              call (UploadSubmitted message) (submit ops message)))
      | _ \<Rightarrow> run_ret ())"

definition complete_state ::
  "('e, 'c, 'a, 'o) collaborators \<Rightarrow> region_sync_state \<Rightarrow> 'a \<Rightarrow> 'c option \<Rightarrow> unit run" where
  "complete_state C s result core =
     run_bind (case on_complete C of
                 Some f \<Rightarrow> call (CompleteCalled (stem s)) (f s result)
               | None \<Rightarrow> run_ret ()) (\<lambda>_.
       maybe_submit C s result core)"

fun run_each :: "(region_sync_state \<Rightarrow> unit run) \<Rightarrow> region_sync_state list \<Rightarrow> unit run" where
  "run_each step [] = run_ret ()"
| "run_each step (s # ss) = run_bind (step s) (\<lambda>_. run_each step ss)"

definition run_recovery_phase ::
  "('e, 'c, 'a, 'o) collaborators \<Rightarrow> region_sync_state list \<Rightarrow> (string, 'c) dict \<Rightarrow> unit run" where
  "run_recovery_phase C states core_results =
     (if states = [] then run_ret ()
      else (case recover_region C of
              None \<Rightarrow> run_fail (RuntimeError ''run_sync requires recover_region collaborator for RECOVERY states'')
            | Some recover \<Rightarrow>
                run_each (\<lambda>s. run_bind (call (RecoverCalled (stem s)) (recover s)) (\<lambda>result.
                  case result of
                    None \<Rightarrow> run_ret ()
                  | Some r \<Rightarrow> complete_state C s r (map_of core_results (stem s)))) states))"

definition run_augment_phase ::
  "('e, 'c, 'a, 'o) collaborators \<Rightarrow> region_sync_state list \<Rightarrow> (string, 'c) dict \<Rightarrow> unit run" where
  "run_augment_phase C states core_results =
     run_each (\<lambda>s. run_bind (call (AugmentCalled (stem s)) (the (augment_region C) s)) (\<lambda>r.
       complete_state C s r (map_of core_results (stem s)))) states"

definition run_publish_phase ::
  "('e, 'c, 'a, 'o) collaborators \<Rightarrow> region_sync_state list \<Rightarrow> (string, 'c) dict \<Rightarrow> unit run" where
  "run_publish_phase C states core_results =
     (if states = [] then run_ret ()
      else (case load_existing_augmentation C of
              None \<Rightarrow> run_fail (RuntimeError ''run_sync requires load_existing_augmentation collaborator for PUBLISH states'')
            | Some load \<Rightarrow>
                run_each (\<lambda>s. run_bind (call (LoadCalled (stem s)) (load s)) (\<lambda>r.
                  complete_state C s r (map_of core_results (stem s)))) states))"

definition start_extraction_prefetch :: "region_sync_state list \<Rightarrow> path option run" where
  "start_extraction_prefetch states =
     (case states of
        [] \<Rightarrow> run_ret None
      | s # _ \<Rightarrow> call (ExtractStarted (pbf_path s)) (Inr (Some (pbf_path s))))"

fun run_process_phase ::
  "('e, 'c, 'a, 'o) collaborators \<Rightarrow> region_sync_state list \<Rightarrow> path option \<Rightarrow> (string, 'c) dict \<Rightarrow> unit run" where
  "run_process_phase C [] extraction_future core_results = run_ret ()"
| "run_process_phase C (s # ss) extraction_future core_results =
     (case extraction_future of
        None \<Rightarrow> run_fail (RuntimeError ''Missing prefetched extraction for PROCESS state'')
      | Some submitted \<Rightarrow>
          run_bind (call (ExtractAwaited submitted) (the (extract_pbf C) submitted)) (\<lambda>extracted.
          run_bind (start_extraction_prefetch ss) (\<lambda>next_future.
          run_bind (call (ProcessCalled (pbf_path s)) (the (process_extracted_pbf C) extracted)) (\<lambda>result.
          run_bind (call (AugmentCalled (stem s)) (the (augment_region C) s)) (\<lambda>augmentation.
          run_bind (complete_state C s augmentation (Some result)) (\<lambda>_.
            run_process_phase C ss next_future (AList.update (stem s) result core_results)))))))"

definition run_phases :: "('e, 'c, 'a, 'o) collaborators \<Rightarrow> region_sync_state list \<Rightarrow> unit run" where
  "run_phases C states =
     (case partition_states states of (process_states, augment_states, publish_states, recovery_states) \<Rightarrow>
        run_bind (run_recovery_phase C recovery_states []) (\<lambda>_.
        run_bind (start_extraction_prefetch process_states) (\<lambda>extraction_future.
        run_bind (run_augment_phase C augment_states []) (\<lambda>_.
        run_bind (run_publish_phase C publish_states []) (\<lambda>_.
          run_process_phase C process_states extraction_future [])))))"

text \<open>The \<open>finally\<close> clause: an exception of \<open>close_uploads\<close> replaces the outcome of the phases.\<close>

definition finish_run :: "('e, 'c, 'a, 'o) collaborators \<Rightarrow> unit run \<Rightarrow> int run" where
  "finish_run C body =
     (case close_uploads C of
        None \<Rightarrow> run_bind body (\<lambda>_. run_ret 0)
      | Some closing \<Rightarrow>
          (case closing of
             Inl e \<Rightarrow> (Inl e, snd body @ [UploadsClosed])
           | Inr failures \<Rightarrow>
               (case fst body of
                  Inl e \<Rightarrow> (Inl e, snd body @ [UploadsClosed])
                | Inr _ \<Rightarrow> (Inr (if failures = [] then 0 else 1), snd body @ [UploadsClosed]))))"

definition run_sync :: "('e, 'c, 'a, 'o) collaborators \<Rightarrow> region_sync_state list \<Rightarrow> int run" where
  "run_sync C states =
     run_bind (validate_required_collaborators C) (\<lambda>_. finish_run C (run_phases C states))"

text \<open>The simpler sequencer: the regions it completes, with the calls it makes.\<close>

fun run_sync_plan ::
  "(region_sync_state \<Rightarrow> unit res) \<Rightarrow> (region_sync_state \<Rightarrow> unit res) \<Rightarrow> region_sync_state list
     \<Rightarrow> string list \<Rightarrow> string list run" where
  "run_sync_plan process augment [] completed = run_ret completed"
| "run_sync_plan process augment (s # ss) completed =
     (if action s = COMPLETE then run_sync_plan process augment ss completed
      else run_bind (if action s = PROCESS then call (ProcessCalled (pbf_path s)) (process s) else run_ret ()) (\<lambda>_.
           run_bind (call (AugmentCalled (stem s)) (augment s)) (\<lambda>_.
             run_sync_plan process augment ss (completed @ [stem s]))))"

section \<open>Facts about runs\<close>

lemma run_simps [simp]:
  "fst (run_ret x) = Inr x" "snd (run_ret x) = []"
  "fst (run_fail e) = Inl e" "snd (run_fail e) = []"
  "fst (call ev r) = r" "snd (call ev r) = [ev]"
  by (simp_all add: run_ret_def run_fail_def call_def)

lemma fst_run_bind: "fst (run_bind m f) = res_bind (fst m) (\<lambda>x. fst (f x))"
  by (cases m) (auto simp: run_bind_def split: sum.splits prod.splits)

lemma snd_run_bind: "snd (run_bind m f) = snd m @ (case fst m of Inl _ \<Rightarrow> [] | Inr x \<Rightarrow> snd (f x))"
  by (cases m) (auto simp: run_bind_def split: sum.splits prod.splits)

lemmas run_bind_sel = fst_run_bind snd_run_bind

text \<open>\<open>silent P m\<close>: no event of the run satisfies \<open>P\<close>.\<close>

definition silent :: "(event \<Rightarrow> bool) \<Rightarrow> 'a run \<Rightarrow> bool" where
  "silent P m \<longleftrightarrow> (\<forall>ev\<in>set (snd m). \<not> P ev)"

lemma silent_intros [simp, intro]:
  "silent P (run_ret x)" "silent P (run_fail e)"
  "\<not> P ev \<Longrightarrow> silent P (call ev r)"
  "silent P m \<Longrightarrow> (\<And>x. silent P (f x)) \<Longrightarrow> silent P (run_bind m f)"
  by (auto simp: silent_def snd_run_bind split: sum.splits)

lemma silent_pure [simp]: "silent P (r, [])"
  by (simp add: silent_def)

lemma silent_run_each: "(\<And>s. silent P (step s)) \<Longrightarrow> silent P (run_each step ss)"
  by (induction ss) auto

lemma silent_maybe_submit:
  assumes "\<And>s. \<not> P (BuildCalled s)" "\<And>m. \<not> P (UploadSubmitted m)"
  shows "silent P (maybe_submit C s a core)"
  using assms by (auto simp: maybe_submit_def intro!: silent_intros split: option.splits)

lemma silent_complete_state:
  assumes "\<And>s. \<not> P (BuildCalled s)" "\<And>m. \<not> P (UploadSubmitted m)" "\<And>s. \<not> P (CompleteCalled s)"
  shows "silent P (complete_state C s a core)"
  using assms by (auto simp: complete_state_def intro!: silent_intros silent_maybe_submit split: option.splits)

lemma silent_phases:
  assumes "\<And>s. \<not> P (BuildCalled s)" "\<And>m. \<not> P (UploadSubmitted m)" "\<And>s. \<not> P (CompleteCalled s)"
  shows "(\<And>s. \<not> P (RecoverCalled s)) \<Longrightarrow> silent P (run_recovery_phase C ss cores)"
    and "(\<And>s. \<not> P (AugmentCalled s)) \<Longrightarrow> silent P (run_augment_phase C ss cores)"
    and "(\<And>s. \<not> P (LoadCalled s)) \<Longrightarrow> silent P (run_publish_phase C ss cores)"
  using assms silent_complete_state [of P]
  by (auto simp: run_recovery_phase_def run_augment_phase_def run_publish_phase_def
      intro!: silent_run_each silent_intros split: option.splits)

lemma filter_silent: "silent P m \<Longrightarrow> filter P (snd m) = []"
  by (auto simp: silent_def filter_empty_conv)

lemma filter_run_bind:
  "filter P (snd (run_bind m f)) = filter P (snd m) @ (case fst m of Inl _ \<Rightarrow> [] | Inr x \<Rightarrow> filter P (snd (f x)))"
  by (simp add: snd_run_bind split: sum.splits)

section \<open>The extraction pipeline\<close>

fun is_pipeline :: "event \<Rightarrow> bool" where
  "is_pipeline (ExtractStarted p) = True"
| "is_pipeline (ExtractAwaited p) = True"
| "is_pipeline (ProcessCalled p) = True"
| "is_pipeline _ = False"

text \<open>The schedule with one extraction ahead: the next file is submitted before the current one is processed.\<close>

fun pipeline :: "path list \<Rightarrow> event list" where
  "pipeline [] = []"
| "pipeline [p] = [ExtractAwaited p, ProcessCalled p]"
| "pipeline (p # q # ps) = ExtractAwaited p # ExtractStarted q # ProcessCalled p # pipeline (q # ps)"

definition first_future :: "region_sync_state list \<Rightarrow> path option" where
  "first_future states = (case states of [] \<Rightarrow> None | s # _ \<Rightarrow> Some (pbf_path s))"

lemma start_extraction_prefetch_sel [simp]:
  "fst (start_extraction_prefetch ss) = Inr (first_future ss)"
  "snd (start_extraction_prefetch ss) = (case ss of [] \<Rightarrow> [] | s # _ \<Rightarrow> [ExtractStarted (pbf_path s)])"
  by (simp_all add: start_extraction_prefetch_def first_future_def split: list.splits)

lemma silent_pipeline:
  "silent is_pipeline (run_recovery_phase C ss cores)" "silent is_pipeline (run_augment_phase C ss cores)"
  "silent is_pipeline (run_publish_phase C ss cores)" "silent is_pipeline (complete_state C s a core)"
  by (rule silent_phases silent_complete_state; simp)+

lemma filter_pipeline_complete [simp]: "filter is_pipeline (snd (complete_state C s a core)) = []"
  by (rule filter_silent [OF silent_pipeline(4)])

lemma process_phase_pipeline:
  "prefix (filter is_pipeline (snd (run_process_phase C ss (first_future ss) cores))) (pipeline (map pbf_path ss))
   \<and> (fst (run_process_phase C ss (first_future ss) cores) = Inr () \<longrightarrow>
       filter is_pipeline (snd (run_process_phase C ss (first_future ss) cores)) = pipeline (map pbf_path ss))"
proof (induction ss arbitrary: cores)
  case Nil
  then show ?case by simp
next
  case (Cons s ss)
  show ?case
  proof (cases ss)
    case Nil
    then show ?thesis
      by (auto simp: first_future_def filter_run_bind fst_run_bind split: sum.splits)
  next
    case (Cons t ts)
    have "first_future ss = Some (pbf_path t)"
      by (simp add: first_future_def Cons)
    with Cons.IH Cons show ?thesis
      by (auto simp: first_future_def filter_run_bind fst_run_bind split: sum.splits)
  qed
qed

lemma run_phases_filter:
  "snd (run_phases C states) =
     snd (run_recovery_phase C (filter (\<lambda>s. action s = RECOVERY) states) []) @
     (case fst (run_recovery_phase C (filter (\<lambda>s. action s = RECOVERY) states) []) of
        Inl _ \<Rightarrow> []
      | Inr _ \<Rightarrow> snd (run_bind (start_extraction_prefetch (filter (\<lambda>s. action s = PROCESS) states)) (\<lambda>future.
          run_bind (run_augment_phase C (filter (\<lambda>s. action s = AUGMENT) states) []) (\<lambda>_.
          run_bind (run_publish_phase C (filter (\<lambda>s. action s = PUBLISH) states) []) (\<lambda>_.
          run_process_phase C (filter (\<lambda>s. action s = PROCESS) states) future [])))))"
  by (simp add: run_phases_def partition_states_def snd_run_bind)

lemma snd_finish_run:
  "snd (finish_run C body) = snd body @ (if close_uploads C = None then [] else [UploadsClosed])"
  by (auto simp: finish_run_def snd_run_bind split: option.splits sum.splits)

lemma fst_finish_run_Inr: "fst (finish_run C body) = Inr code \<Longrightarrow> fst body = Inr ()"
  by (auto simp: finish_run_def fst_run_bind split: option.splits sum.splits)

lemma snd_run_sync:
  "snd (run_sync C states) =
     (if extract_pbf C = None \<or> process_extracted_pbf C = None \<or> augment_region C = None then []
      else snd (run_phases C states) @ (if close_uploads C = None then [] else [UploadsClosed]))"
  by (simp add: run_sync_def validate_required_collaborators_def snd_run_bind snd_finish_run)

lemma fst_run_sync_Inr: "fst (run_sync C states) = Inr code \<Longrightarrow> fst (run_phases C states) = Inr ()"
  by (auto simp: run_sync_def validate_required_collaborators_def fst_run_bind intro: fst_finish_run_Inr
      split: if_splits)

lemma run_phases_pipeline:
  defines "ps \<equiv> \<lambda>states. map pbf_path (filter (\<lambda>s. action s = PROCESS) states)"
  shows "prefix (filter is_pipeline (snd (run_phases C states)))
      (case ps states of [] \<Rightarrow> [] | p # _ \<Rightarrow> ExtractStarted p # pipeline (ps states))"
    and "fst (run_phases C states) = Inr () \<Longrightarrow> filter is_pipeline (snd (run_phases C states)) =
      (case ps states of [] \<Rightarrow> [] | p # _ \<Rightarrow> ExtractStarted p # pipeline (ps states))"
proof -
  let ?P = "filter (\<lambda>s. action s = PROCESS) states"
  note silent = filter_silent [OF silent_pipeline(1)] filter_silent [OF silent_pipeline(2)]
    filter_silent [OF silent_pipeline(3)]
  show "prefix (filter is_pipeline (snd (run_phases C states)))
      (case ps states of [] \<Rightarrow> [] | p # _ \<Rightarrow> ExtractStarted p # pipeline (ps states))"
    using process_phase_pipeline [of C ?P "[]"] unfolding ps_def
    by (cases ?P) (auto simp: run_phases_def partition_states_def filter_run_bind silent split: sum.splits)
  show "fst (run_phases C states) = Inr () \<Longrightarrow> filter is_pipeline (snd (run_phases C states)) =
      (case ps states of [] \<Rightarrow> [] | p # _ \<Rightarrow> ExtractStarted p # pipeline (ps states))"
    using process_phase_pipeline [of C ?P "[]"] unfolding ps_def
    by (cases ?P) (auto simp: run_phases_def partition_states_def filter_run_bind fst_run_bind silent split: sum.splits)
qed

section \<open>Completed regions\<close>

fun completed_stem :: "event \<Rightarrow> string option" where
  "completed_stem (CompleteCalled s) = Some s"
| "completed_stem _ = None"

definition completed :: "'a run \<Rightarrow> string list" where
  "completed m = List.map_filter completed_stem (snd m)"

lemma completed_simps [simp]:
  "completed (run_ret x) = []" "completed (run_fail e) = []"
  "completed (call ev r) = (case completed_stem ev of None \<Rightarrow> [] | Some s \<Rightarrow> [s])"
  by (simp_all add: completed_def List.map_filter_def split: option.splits)

lemma completed_bind:
  "completed (run_bind m f) = completed m @ (case fst m of Inl _ \<Rightarrow> [] | Inr x \<Rightarrow> completed (f x))"
  by (simp add: completed_def List.map_filter_def snd_run_bind split: sum.splits)

lemma completed_maybe_submit [simp]: "completed (maybe_submit C s a core) = []"
proof -
  have "silent (\<lambda>ev. completed_stem ev \<noteq> None) (maybe_submit C s a core)"
    by (rule silent_maybe_submit) simp_all
  then show ?thesis
    by (auto simp: completed_def List.map_filter_def silent_def)
qed

lemma completed_complete_state [simp]:
  "completed (complete_state C s a core) = (if on_complete C = None then [] else [stem s])"
  by (auto simp: complete_state_def completed_bind split: option.splits sum.splits)

lemma completed_prefetch [simp]: "completed (start_extraction_prefetch ss) = []"
  by (simp add: start_extraction_prefetch_def split: list.splits)

lemma completed_run_each:
  assumes "\<And>s. s \<in> set ss \<Longrightarrow> fst (step s) = Inr () \<Longrightarrow> completed (step s) = f s"
    and "fst (run_each step ss) = Inr ()"
  shows "completed (run_each step ss) = concat (map f ss)"
  using assms by (induction ss) (auto simp: completed_bind fst_run_bind)

lemma completed_process_phase:
  "fst (run_process_phase C ss fut cores) = Inr () \<Longrightarrow> on_complete C \<noteq> None \<Longrightarrow>
     completed (run_process_phase C ss fut cores) = map stem ss"
proof (induction ss arbitrary: fut cores)
  case Nil
  then show ?case by simp
next
  case (Cons s ss)
  then show ?case
    by (cases fut) (auto simp: completed_bind fst_run_bind)
qed

text \<open>The regions a successful recovery phase hands on: those whose recovery returned a result.\<close>

definition recovered :: "('e, 'c, 'a, 'o) collaborators \<Rightarrow> region_sync_state \<Rightarrow> bool" where
  "recovered C s = (case recover_region C of None \<Rightarrow> False | Some f \<Rightarrow> \<exists>r. f s = Inr (Some r))"

lemma completed_recovery_phase:
  assumes "fst (run_recovery_phase C ss cores) = Inr ()" and "on_complete C \<noteq> None"
  shows "completed (run_recovery_phase C ss cores) = map stem (filter (recovered C) ss)"
proof (cases "recover_region C")
  case None
  then show ?thesis
    using assms by (auto simp: run_recovery_phase_def split: if_splits)
next
  case (Some f)
  let ?step = "\<lambda>s. run_bind (call (RecoverCalled (stem s)) (f s)) (\<lambda>result.
    case result of None \<Rightarrow> run_ret () | Some r \<Rightarrow> complete_state C s r (map_of cores (stem s)))"
  have step: "completed (?step s) = (if recovered C s then [stem s] else [])" if "fst (?step s) = Inr ()" for s
    using that assms(2) Some by (cases "f s") (auto simp: completed_bind fst_run_bind recovered_def split: option.splits)
  have phase: "run_recovery_phase C ss cores = run_each ?step ss"
    using Some by (simp add: run_recovery_phase_def)
  have "completed (run_each ?step ss) = concat (map (\<lambda>s. if recovered C s then [stem s] else []) ss)"
    using assms(1) step unfolding phase by (intro completed_run_each) auto
  also have "\<dots> = map stem (filter (recovered C) ss)"
    by (induction ss) auto
  finally show ?thesis unfolding phase .
qed

lemma completed_simple_phases:
  assumes "on_complete C \<noteq> None"
  shows "fst (run_augment_phase C ss cores) = Inr () \<Longrightarrow> completed (run_augment_phase C ss cores) = map stem ss"
    and "fst (run_publish_phase C ss cores) = Inr () \<Longrightarrow> completed (run_publish_phase C ss cores) = map stem ss"
proof -
  have each: "fst (run_each (\<lambda>s. run_bind (call (ev s) (r s)) (\<lambda>x. complete_state C s x (c s))) ss) = Inr () \<Longrightarrow>
      completed (run_each (\<lambda>s. run_bind (call (ev s) (r s)) (\<lambda>x. complete_state C s x (c s))) ss) = map stem ss"
    if "\<And>s. completed_stem (ev s) = None" for ev :: "region_sync_state \<Rightarrow> event" and r c
  proof -
    let ?step = "\<lambda>s. run_bind (call (ev s) (r s)) (\<lambda>x. complete_state C s x (c s))"
    assume ok: "fst (run_each ?step ss) = Inr ()"
    have "completed (?step s) = [stem s]" if "fst (?step s) = Inr ()" for s
      using that assms \<open>\<And>s. completed_stem (ev s) = None\<close> by (auto simp: completed_bind fst_run_bind)
    then show "completed (run_each ?step ss) = map stem ss"
      using completed_run_each [of ss ?step "\<lambda>s. [stem s]"] ok by simp
  qed
  show "fst (run_augment_phase C ss cores) = Inr () \<Longrightarrow> completed (run_augment_phase C ss cores) = map stem ss"
    unfolding run_augment_phase_def by (rule each) simp_all
  show "fst (run_publish_phase C ss cores) = Inr () \<Longrightarrow> completed (run_publish_phase C ss cores) = map stem ss"
    unfolding run_publish_phase_def by (auto intro!: each split: if_splits option.splits)
qed

section \<open>An example run\<close>

text \<open>Collaborators that always succeed; the recovery of region \<open>h\<close> finds it healthy.\<close>

definition example_collaborators :: "(unit, unit, unit, unit) collaborators" where
  "example_collaborators =
     \<lparr>extract_pbf = Some (\<lambda>_. Inr ()), process_extracted_pbf = Some (\<lambda>_. Inr ()), augment_region = Some (\<lambda>_. Inr ()),
      on_complete = Some (\<lambda>_ _. Inr ()), load_existing_augmentation = Some (\<lambda>_. Inr ()),
      recover_region = Some (\<lambda>s. Inr (if stem s = ''h'' then None else Some ())),
      build_upload_files = Some (\<lambda>_ _ _. Inr [()]), commit_message = None, submit_upload = Some (\<lambda>_ _. Inr ()),
      close_uploads = Some (Inr [''a''])\<rparr>"

definition example_states :: "region_sync_state list" where
  "example_states =
     [\<lparr>stem = ''h'', pbf_path = [''h''], action = RECOVERY\<rparr>, \<lparr>stem = ''r'', pbf_path = [''r''], action = RECOVERY\<rparr>,
      \<lparr>stem = ''p'', pbf_path = [''p''], action = PROCESS\<rparr>, \<lparr>stem = ''c'', pbf_path = [''c''], action = COMPLETE\<rparr>]"

lemma example_run_result: "fst (run_sync example_collaborators example_states) = Inr 1"
  by (simp add: run_sync_def validate_required_collaborators_def finish_run_def run_phases_def partition_states_def
      run_recovery_phase_def run_augment_phase_def run_publish_phase_def complete_state_def maybe_submit_def
      start_extraction_prefetch_def example_collaborators_def example_states_def fst_run_bind)

section \<open>Properties\<close>

text \<open>
  C31. Extraction runs exactly one file ahead: whatever the collaborators do, the extraction and
  processing calls are a prefix of the schedule that submits the first file, and then for each
  file awaits it, submits the next one and processes it; a run that returns performs all of it.
\<close>

theorem run_sync_one_file_ahead:
  "let paths = map pbf_path (filter (\<lambda>s. action s = PROCESS) states);
       schedule = (case paths of [] \<Rightarrow> [] | p # _ \<Rightarrow> ExtractStarted p # pipeline paths);
       calls = filter is_pipeline (snd (run_sync C states))
   in prefix calls schedule \<and> (isl (fst (run_sync C states)) \<or> calls = schedule)"
proof -
  let ?calls = "filter is_pipeline (snd (run_sync C states))"
  let ?schedule = "case map pbf_path (filter (\<lambda>s. action s = PROCESS) states) of [] \<Rightarrow> []
    | p # _ \<Rightarrow> ExtractStarted p # pipeline (map pbf_path (filter (\<lambda>s. action s = PROCESS) states))"
  have calls: "?calls = (if extract_pbf C = None \<or> process_extracted_pbf C = None \<or> augment_region C = None then []
      else filter is_pipeline (snd (run_phases C states)))"
    by (simp add: snd_run_sync)
  have "prefix ?calls ?schedule"
    using run_phases_pipeline(1) [of C states] unfolding calls by simp
  moreover have "isl (fst (run_sync C states)) \<or> ?calls = ?schedule"
  proof (cases "fst (run_sync C states)")
    case (Inr code)
    then have "\<not> (extract_pbf C = None \<or> process_extracted_pbf C = None \<or> augment_region C = None)"
      by (auto simp: run_sync_def validate_required_collaborators_def fst_run_bind split: if_splits)
    then show ?thesis
      using run_phases_pipeline(2) [OF fst_run_sync_Inr [OF Inr]] unfolding calls by auto
  qed simp
  ultimately show ?thesis
    unfolding Let_def by blast
qed

text \<open>
  Recovery finishes before extraction begins: in every run all recovery calls precede all
  extraction and processing calls.
\<close>

theorem run_sync_recovery_first:
  "\<exists>before after. snd (run_sync C states) = before @ after
     \<and> list_all (\<lambda>ev. \<not> is_pipeline ev) before \<and> list_all (\<lambda>ev. \<forall>s. ev \<noteq> RecoverCalled s) after"
proof -
  let ?is_rec = "\<lambda>ev. \<exists>s. ev = RecoverCalled s"
  have sil: "silent ?is_rec (run_augment_phase C ss cores)" "silent ?is_rec (run_publish_phase C ss cores)"
    "silent ?is_rec (complete_state C s a core)" for ss cores s a core
    by (rule silent_phases silent_complete_state; simp)+
  have pre: "silent ?is_rec (start_extraction_prefetch ss)" for ss
    by (simp add: start_extraction_prefetch_def split: list.splits)
  have proc: "silent ?is_rec (run_process_phase C ss fut cores)" for ss fut cores
    by (induction ss arbitrary: fut cores) (auto intro!: silent_intros sil pre split: option.splits)
  let ?rest = "case fst (run_recovery_phase C (filter (\<lambda>s. action s = RECOVERY) states) []) of
        Inl _ \<Rightarrow> []
      | Inr _ \<Rightarrow> snd (run_bind (start_extraction_prefetch (filter (\<lambda>s. action s = PROCESS) states)) (\<lambda>future.
          run_bind (run_augment_phase C (filter (\<lambda>s. action s = AUGMENT) states) []) (\<lambda>_.
          run_bind (run_publish_phase C (filter (\<lambda>s. action s = PUBLISH) states) []) (\<lambda>_.
          run_process_phase C (filter (\<lambda>s. action s = PROCESS) states) future []))))"
  have "silent ?is_rec (run_bind (start_extraction_prefetch (filter (\<lambda>s. action s = PROCESS) states)) (\<lambda>future.
          run_bind (run_augment_phase C (filter (\<lambda>s. action s = AUGMENT) states) []) (\<lambda>_.
          run_bind (run_publish_phase C (filter (\<lambda>s. action s = PUBLISH) states) []) (\<lambda>_.
          run_process_phase C (filter (\<lambda>s. action s = PROCESS) states) future []))))"
    by (intro silent_intros sil pre proc)
  then have "list_all (\<lambda>ev. \<forall>s. ev \<noteq> RecoverCalled s) ?rest"
    unfolding silent_def list_all_iff by (auto split: sum.splits)
  moreover have "list_all (\<lambda>ev. \<not> is_pipeline ev)
      (snd (run_recovery_phase C (filter (\<lambda>s. action s = RECOVERY) states) []))"
    using silent_pipeline(1) [of C] by (simp add: silent_def list_all_iff)
  ultimately show ?thesis
    unfolding snd_run_sync run_phases_filter
    by (intro exI [of _ "if extract_pbf C = None \<or> process_extracted_pbf C = None \<or> augment_region C = None then []
          else snd (run_recovery_phase C (filter (\<lambda>s. action s = RECOVERY) states) [])"]
        exI [of _ "if extract_pbf C = None \<or> process_extracted_pbf C = None \<or> augment_region C = None then []
          else ?rest @ (if close_uploads C = None then [] else [UploadsClosed])"])
      (auto simp: list_all_iff)
qed

text \<open>
  C13. A run that returns has completed every actionable region exactly once and in plan order within
  its bucket: the recoveries that returned a result, then the augmentation backlog, the
  publish-only repairs, and the processed regions. No complete region is touched.
\<close>

theorem run_sync_completes_plan:
  assumes "fst (run_sync C states) = Inr code" and "on_complete C \<noteq> None"
  shows "completed (run_sync C states) =
    map stem (filter (\<lambda>s. action s = RECOVERY \<and> recovered C s) states)
    @ map stem (filter (\<lambda>s. action s = AUGMENT) states)
    @ map stem (filter (\<lambda>s. action s = PUBLISH) states)
    @ map stem (filter (\<lambda>s. action s = PROCESS) states)"
proof -
  have ok: "fst (run_phases C states) = Inr ()"
    by (rule fst_run_sync_Inr [OF assms(1)])
  have "completed (run_sync C states) = completed (run_phases C states)"
    using assms(1)
    by (auto simp: completed_def List.map_filter_def run_sync_def validate_required_collaborators_def
        run_bind_sel snd_finish_run split: if_splits)
  moreover have "filter (\<lambda>s. action s = RECOVERY \<and> recovered C s) states =
      filter (recovered C) (filter (\<lambda>s. action s = RECOVERY) states)"
    by (simp add: conj_commute)
  ultimately show ?thesis
    using ok completed_recovery_phase [OF _ assms(2)] completed_simple_phases [OF assms(2)]
      completed_process_phase [OF _ assms(2)]
    by (auto simp: run_phases_def partition_states_def completed_bind fst_run_bind)
qed

theorem run_sync_completes_plan_witness:
  "completed (run_sync example_collaborators example_states) = [''r'', ''p'']"
proof -
  have "on_complete example_collaborators \<noteq> None"
    by (simp add: example_collaborators_def)
  from run_sync_completes_plan [OF example_run_result this] show ?thesis
    by (simp add: example_states_def recovered_def example_collaborators_def)
qed

text \<open>
  C36. The upload queue is closed exactly once, as the last call, on every path on which the runner
  was started, and the exit code is non-zero exactly when uploads failed.
\<close>

theorem run_sync_closes_uploads:
  assumes "close_uploads C = Some (Inr failures)"
    and "extract_pbf C \<noteq> None" and "process_extracted_pbf C \<noteq> None" and "augment_region C \<noteq> None"
  shows "(\<exists>calls. snd (run_sync C states) = calls @ [UploadsClosed] \<and> UploadsClosed \<notin> set calls)
    \<and> fst (run_sync C states) =
        (case fst (run_phases C states) of Inl e \<Rightarrow> Inl e | Inr _ \<Rightarrow> Inr (if failures = [] then 0 else 1))"
proof -
  let ?is_close = "\<lambda>ev. ev = UploadsClosed"
  have sil: "silent ?is_close (run_augment_phase C ss cores)" "silent ?is_close (run_publish_phase C ss cores)"
    "silent ?is_close (run_recovery_phase C ss cores)" "silent ?is_close (complete_state C s a core)" for ss cores s a core
    by (rule silent_phases silent_complete_state; simp)+
  have pre: "silent ?is_close (start_extraction_prefetch ss)" for ss
    by (simp add: start_extraction_prefetch_def split: list.splits)
  have proc: "silent ?is_close (run_process_phase C ss fut cores)" for ss fut cores
    by (induction ss arbitrary: fut cores) (auto intro!: silent_intros sil pre split: option.splits)
  have "silent ?is_close (run_phases C states)"
    unfolding run_phases_def partition_states_def prod.case by (intro silent_intros sil pre proc)
  then have "UploadsClosed \<notin> set (snd (run_phases C states))"
    by (auto simp: silent_def)
  moreover have "snd (run_sync C states) = snd (run_phases C states) @ [UploadsClosed]"
    using assms by (simp add: snd_run_sync)
  moreover have "fst (run_sync C states) =
      (case fst (run_phases C states) of Inl e \<Rightarrow> Inl e | Inr _ \<Rightarrow> Inr (if failures = [] then 0 else 1))"
    using assms by (auto simp: run_sync_def validate_required_collaborators_def finish_run_def fst_run_bind split: sum.splits)
  ultimately show ?thesis by blast
qed

theorem run_sync_closes_uploads_witness:
  "\<exists>calls. snd (run_sync example_collaborators example_states) = calls @ [UploadsClosed] \<and> UploadsClosed \<notin> set calls"
proof -
  have "close_uploads example_collaborators = Some (Inr [''a''])" "extract_pbf example_collaborators \<noteq> None"
    "process_extracted_pbf example_collaborators \<noteq> None" "augment_region example_collaborators \<noteq> None"
    by (simp_all add: example_collaborators_def)
  from run_sync_closes_uploads [OF this, of example_states] show ?thesis by blast
qed

end
