(* ===== verification/Hashing.thy ===== *)
theory Hashing
  imports Json_Files "HOL-Library.Word"
begin

text \<open>
  Content hashes: \<open>hashlib.sha256\<close> (FIPS 180-4, on 32-bit words), the identifiers built from it
  (\<open>content_hash\<close> of \<open>domain/ids.py\<close>, \<open>stable_id\<close> of \<open>augmentation/models.py\<close>), and the
  memoised file digests of \<open>io/hashing.py\<close>.

  A string is encoded in UTF-8; its characters are the code points below 256, so a character takes
  one byte or two. Bytes are natural numbers below 256. The compression function works on
  \<open>32 word\<close> values, where addition wraps as the standard requires.
\<close>

unbundle bit_operations_syntax

section \<open>SHA-256\<close>

definition utf8_char :: "char \<Rightarrow> nat list" where
  "utf8_char c = (let n = (of_char c :: nat) in
     if n < 128 then [n] else [192 + n div 64, 128 + n mod 64])"

definition utf8_encode :: "string \<Rightarrow> nat list" where
  "utf8_encode s = concat (map utf8_char s)"

fun be_bytes :: "nat \<Rightarrow> nat \<Rightarrow> nat list" where
  "be_bytes 0 n = []"
| "be_bytes (Suc k) n = be_bytes k (n div 256) @ [n mod 256]"

definition sha_pad :: "nat list \<Rightarrow> nat list" where
  "sha_pad bs = bs @ [128] @ replicate ((119 - length bs mod 64) mod 64) 0
     @ be_bytes 8 (8 * length bs)"

fun be_words :: "nat list \<Rightarrow> 32 word list" where
  "be_words (a # b # c # d # bs) = (push_bit 24 (word_of_nat a) OR push_bit 16 (word_of_nat b)
       OR push_bit 8 (word_of_nat c) OR word_of_nat d) # be_words bs"
| "be_words bs = []"

definition rotr :: "nat \<Rightarrow> 32 word \<Rightarrow> 32 word" where
  "rotr n x = (drop_bit n x OR push_bit (32 - n) x)"

definition sha_k :: "32 word list" where
  "sha_k = [
1116352408, 1899447441, 3049323471, 3921009573, 961987163, 1508970993, 2453635748, 2870763221,
3624381080, 310598401, 607225278, 1426881987, 1925078388, 2162078206, 2614888103, 3248222580,
3835390401, 4022224774, 264347078, 604807628, 770255983, 1249150122, 1555081692, 1996064986,
2554220882, 2821834349, 2952996808, 3210313671, 3336571891, 3584528711, 113926993, 338241895,
666307205, 773529912, 1294757372, 1396182291, 1695183700, 1986661051, 2177026350, 2456956037,
2730485921, 2820302411, 3259730800, 3345764771, 3516065817, 3600352804, 4094571909, 275423344,
430227734, 506948616, 659060556, 883997877, 958139571, 1322822218, 1537002063, 1747873779,
1955562222, 2024104815, 2227730452, 2361852424, 2428436474, 2756734187, 3204031479, 3329325298]"

definition sha_h0 :: "32 word list" where
  "sha_h0 = [1779033703, 3144134277, 1013904242, 2773480762, 1359893119, 2600822924, 528734635, 1541459225]"

fun sha_extend :: "nat \<Rightarrow> 32 word list \<Rightarrow> 32 word list" where
  "sha_extend 0 w = w"
| "sha_extend (Suc n) w =
     (let w15 = w ! 14; w2 = w ! 1;
          s0 = rotr 7 w15 XOR rotr 18 w15 XOR drop_bit 3 w15;
          s1 = rotr 17 w2 XOR rotr 19 w2 XOR drop_bit 10 w2
      in sha_extend n ((w ! 15 + s0 + w ! 6 + s1) # w))"

fun sha_round :: "32 word \<times> 32 word \<Rightarrow> 32 word list \<Rightarrow> 32 word list" where
  "sha_round (k, w) [a, b, c, d, e, f, g, h] =
     (let t1 = h + (rotr 6 e XOR rotr 11 e XOR rotr 25 e) + ((e AND f) XOR (NOT e AND g)) + k + w;
          t2 = (rotr 2 a XOR rotr 13 a XOR rotr 22 a) + ((a AND b) XOR (a AND c) XOR (b AND c))
      in [t1 + t2, a, b, c, d + t1, e, f, g])"
| "sha_round _ s = s"

definition sha_block :: "32 word list \<Rightarrow> 32 word list \<Rightarrow> 32 word list" where
  "sha_block hs w = map2 (+) hs (fold sha_round (zip sha_k (rev (sha_extend 48 (rev w)))) hs)"

fun sha_chunks :: "nat \<Rightarrow> 'a list \<Rightarrow> 'a list list" where
  "sha_chunks 0 xs = []"
| "sha_chunks (Suc n) xs = (case xs of [] \<Rightarrow> [] | _ \<Rightarrow> take 16 xs # sha_chunks n (drop 16 xs))"

definition sha256 :: "nat list \<Rightarrow> 32 word list" where
  "sha256 bs = (let ws = be_words (sha_pad bs) in fold (\<lambda>w hs. sha_block hs w) (sha_chunks (length ws) ws) sha_h0)"

definition hex_char :: "nat \<Rightarrow> char" where
  "hex_char d = ''0123456789abcdef'' ! d"

definition hex_word :: "32 word \<Rightarrow> string" where
  "hex_word w = map (\<lambda>i. hex_char (unat (drop_bit (28 - 4 * i) w AND 15))) [0..<8]"

definition sha256_hexdigest :: "nat list \<Rightarrow> string" where
  "sha256_hexdigest bs = concat (map hex_word (sha256 bs))"


text \<open>A digest is 64 lowercase hexadecimal characters, whatever the input.\<close>

definition is_sha256_hex :: "string \<Rightarrow> bool" where
  "is_sha256_hex s \<longleftrightarrow>
     length s = 64 \<and> list_all (\<lambda>c. py_isdigit c \<or> c \<in> set ''abcdef'') s"

lemma length_sha_round: "length s = 8 \<Longrightarrow> length (sha_round kw s) = 8"
  by (cases "(kw, s)" rule: sha_round.cases) (simp_all add: Let_def)

lemma length_fold_sha_round: "length s = 8 \<Longrightarrow> length (fold sha_round kws s) = 8"
  by (induction kws arbitrary: s) (simp_all add: length_sha_round)

lemma length_sha_block: "length hs = 8 \<Longrightarrow> length (sha_block hs w) = 8"
  by (simp add: sha_block_def length_fold_sha_round)

lemma length_sha256: "length (sha256 bs) = 8"
proof -
  have "length hs = 8 \<Longrightarrow> length (fold (\<lambda>w hs. sha_block hs w) ws hs) = 8" for ws hs
    by (induction ws arbitrary: hs) (simp_all add: length_sha_block)
  then show ?thesis
    by (simp add: sha256_def Let_def sha_h0_def)
qed

lemma hex_digits_ok: "list_all (\<lambda>c. py_isdigit c \<or> c \<in> set ''abcdef'') ''0123456789abcdef''"
  by code_simp

lemma hex_char_ok: "d < 16 \<Longrightarrow> py_isdigit (hex_char d) \<or> hex_char d \<in> set ''abcdef''"
  using hex_digits_ok nth_mem [of d "''0123456789abcdef''"]
  unfolding hex_char_def list_all_iff by auto

lemma unat_and_15: "unat (w AND 15 :: 32 word) < 16"
proof -
  have "w AND 15 = take_bit 4 w"
    by (simp add: take_bit_eq_mask mask_eq_exp_minus_1)
  then have "unat (w AND 15) = take_bit 4 (unat w)"
    by (simp add: unsigned_take_bit_eq)
  also have "\<dots> < 2 ^ 4"
    by (rule take_bit_nat_less_exp)
  finally show ?thesis by simp
qed

lemma hex_word_ok:
  "length (hex_word w) = 8"
  "c \<in> set (hex_word w) \<Longrightarrow> py_isdigit c \<or> c \<in> set ''abcdef''"
  using hex_char_ok unat_and_15 by (auto simp: hex_word_def)

lemma sha256_hexdigest_ok: "is_sha256_hex (sha256_hexdigest bs)"
proof -
  have "length (concat (map hex_word ws)) = 8 * length ws" for ws
    by (induction ws) (simp_all add: hex_word_ok)
  then show ?thesis
    using hex_word_ok(2) length_sha256 [of bs]
    unfolding is_sha256_hex_def sha256_hexdigest_def list_all_iff by auto
qed

section \<open>Identifiers\<close>

definition content_hash :: "string \<Rightarrow> string" where
  "content_hash t = sha256_hexdigest (utf8_encode t)"

definition unit_separator :: char where
  "unit_separator = CHR 0x1F"

definition stable_id :: "cell list \<Rightarrow> string" where
  "stable_id parts = sha256_hexdigest (utf8_encode (py_join [unit_separator] (map cell_str parts)))"

lemma utf8_char_append_inject:
  assumes "utf8_char c @ xs = utf8_char d @ ys"
  shows "c = d \<and> xs = ys"
proof -
  let ?n = "of_char c :: nat" and ?m = "of_char d :: nat"
  have eq: "?n = ?m \<Longrightarrow> c = d"
    using inj_of_char [where 'a = nat] by (simp add: inj_def)
  consider "?n < 128" "?m < 128" | "?n < 128" "\<not> ?m < 128" | "\<not> ?n < 128" "?m < 128"
    | "\<not> ?n < 128" "\<not> ?m < 128"
    by blast
  then show ?thesis
  proof cases
    case 4
    then have "?n div 64 = ?m div 64" "?n mod 64 = ?m mod 64" "xs = ys"
      using assms by (simp_all add: utf8_char_def Let_def)
    then have "?n = ?m"
      by (metis div_mult_mod_eq)
    then show ?thesis
      using eq \<open>xs = ys\<close> by simp
  qed (use assms eq in \<open>auto simp: utf8_char_def Let_def\<close>)
qed

lemma utf8_char_nonempty [simp]: "utf8_char c \<noteq> []"
  by (simp add: utf8_char_def Let_def)

lemma utf8_encode_inject: "utf8_encode s = utf8_encode t \<longleftrightarrow> s = t"
proof
  show "utf8_encode s = utf8_encode t \<Longrightarrow> s = t"
  proof (induction s arbitrary: t)
    case Nil
    then show ?case by (cases t) (simp_all add: utf8_encode_def)
  next
    case (Cons c s)
    then obtain d u where t: "t = d # u"
      by (cases t) (simp_all add: utf8_encode_def)
    then have "utf8_char c @ utf8_encode s = utf8_char d @ utf8_encode u"
      using Cons.prems by (simp add: utf8_encode_def)
    then show ?case
      using utf8_char_append_inject Cons.IH t by blast
  qed
qed simp

text \<open>The bytes that an identifier is the digest of; parts without the separator can be read off them.\<close>

definition identity_bytes :: "cell list \<Rightarrow> nat list" where
  "identity_bytes parts = utf8_encode (py_join [unit_separator] (map cell_str parts))"

lemma stable_id_digest: "stable_id parts = sha256_hexdigest (identity_bytes parts)"
  by (simp add: stable_id_def identity_bytes_def)

lemma identity_bytes_inject:
  assumes "identity_bytes xs = identity_bytes ys" and "xs \<noteq> []" and "ys \<noteq> []"
    and "\<forall>x\<in>set xs. unit_separator \<notin> set (cell_str x)"
    and "\<forall>y\<in>set ys. unit_separator \<notin> set (cell_str y)"
  shows "map cell_str xs = map cell_str ys"
proof -
  let ?j = "\<lambda>zs. py_join [unit_separator] (map cell_str zs)"
  have split: "py_split unit_separator (?j zs) = map cell_str zs"
    if "zs \<noteq> []" "\<forall>z\<in>set zs. unit_separator \<notin> set (cell_str z)" for zs
    using that by (intro py_split_join) auto
  have "?j xs = ?j ys"
    using assms(1) unfolding identity_bytes_def by (simp only: utf8_encode_inject)
  then show ?thesis
    using split [of xs] split [of ys] assms(2-5) by metis
qed

section \<open>File fingerprints\<close>

record file_stat_fingerprint =
  st_size :: int
  mtime_ns :: int
  ctime_ns :: int
  inode :: int
  device :: int
  birthtime_ns :: int

definition fp_checkpoint :: "file_stat_fingerprint \<Rightarrow> string \<Rightarrow> (string, json) dict" where
  "fp_checkpoint fp name =
     [(''name'', JStr name), (''size'', JInt (st_size fp)), (''mtime_ns'', JInt (mtime_ns fp)),
      (''ctime_ns'', JInt (ctime_ns fp)), (''inode'', JInt (inode fp))]"

definition fp_resume :: "file_stat_fingerprint \<Rightarrow> (string, json) dict" where
  "fp_resume fp =
     [(''size'', JInt (st_size fp)), (''mtime_ns'', JInt (mtime_ns fp)),
      (''ctime_ns'', JInt (ctime_ns fp)), (''inode'', JInt (inode fp)),
      (''device'', JInt (device fp)), (''birthtime_ns'', JInt (birthtime_ns fp))]"

definition fp_index_tuple :: "file_stat_fingerprint \<Rightarrow> int \<times> int \<times> int \<times> int" where
  "fp_index_tuple fp = (st_size fp, mtime_ns fp, ctime_ns fp, inode fp)"

definition fp_hash_cache :: "file_stat_fingerprint \<Rightarrow> int \<times> int \<times> int" where
  "fp_hash_cache fp = (st_size fp, inode fp, mtime_ns fp)"

text \<open>The views are ordered by precision: equal restart fingerprints agree in every other view.\<close>

lemma fp_views_coarser:
  "fp_resume a = fp_resume b \<Longrightarrow>
     fp_checkpoint a name = fp_checkpoint b name \<and> fp_index_tuple a = fp_index_tuple b"
  "fp_index_tuple a = fp_index_tuple b \<Longrightarrow> fp_hash_cache a = fp_hash_cache b"
  by (simp_all add: fp_resume_def fp_checkpoint_def fp_index_tuple_def fp_hash_cache_def)

section \<open>Digests of files\<close>

text \<open>
  A file on disk is its metadata and its bytes. Paths are absolute and resolved, so a path is its
  own cache key; a path whose file is absent cannot be read and has no metadata.
\<close>

record disk_file =
  file_stat :: file_stat_fingerprint
  file_bytes :: "nat list"

type_synonym disk = "string \<Rightarrow> disk_file option"

type_synonym digest_cache = "(string, (int \<times> int \<times> int) \<times> string) dict"

definition SHA256_CHUNK_SIZE :: nat where
  "SHA256_CHUNK_SIZE = 1024 * 1024"

definition digest_bytes :: "nat list \<Rightarrow> string" where
  "digest_bytes bs = sha256_hexdigest (foldl (@) [] (slices SHA256_CHUNK_SIZE bs))"

definition sha256_file_uncached :: "disk \<Rightarrow> string \<Rightarrow> string res" where
  "sha256_file_uncached d path =
     (case d path of
        None \<Rightarrow> Inl (FileNotFoundError ''No such file'')
      | Some f \<Rightarrow> Inr (digest_bytes (file_bytes f)))"

definition sha256_file :: "disk \<Rightarrow> string \<Rightarrow> digest_cache \<Rightarrow> string res \<times> digest_cache" where
  "sha256_file d path cache =
     (case d path of
        None \<Rightarrow> (sha256_file_uncached d path, cache)
      | Some f \<Rightarrow>
          (let fingerprint = fp_hash_cache (file_stat f);
               fresh = (let digest = digest_bytes (file_bytes f)
                        in (Inr digest, AList.update path (fingerprint, digest) cache))
           in case map_of cache path of
                Some (stored, digest) \<Rightarrow> if stored = fingerprint then (Inr digest, cache) else fresh
              | None \<Rightarrow> fresh))"

lemma digest_bytes_whole: "digest_bytes bs = sha256_hexdigest bs"
proof -
  have "foldl (@) acc xss = acc @ concat xss" for acc :: "nat list" and xss
    by (induction xss arbitrary: acc) simp_all
  then show ?thesis
    by (simp add: digest_bytes_def SHA256_CHUNK_SIZE_def concat_slices)
qed

section \<open>The persisted digest index\<close>

definition CACHE_CONTRACT_VERSION :: string where
  "CACHE_CONTRACT_VERSION = ''sha256-v1''"

definition read_index :: "text_file \<Rightarrow> (string, json) dict" where
  "read_index index = (case index of Parsed (JObj d) \<Rightarrow> d | _ \<Rightarrow> [])"

definition persisted_entries :: "text_file \<Rightarrow> (string, json) dict" where
  "persisted_entries index =
     (let payload = read_index index in
      if map_of payload ''contract'' \<noteq> Some (JStr CACHE_CONTRACT_VERSION) then []
      else case map_of payload ''entries'' of Some (JObj entries) \<Rightarrow> entries | _ \<Rightarrow> [])"

text \<open>In Python a \<open>bool\<close> is an \<open>int\<close>, also as a component of a compared tuple.\<close>

fun restored_int :: "json \<Rightarrow> int option" where
  "restored_int (JInt i) = Some i"
| "restored_int (JBool b) = Some (if b then 1 else 0)"
| "restored_int _ = None"

definition restored_fingerprint :: "json \<Rightarrow> json \<Rightarrow> json \<Rightarrow> (int \<times> int \<times> int) option" where
  "restored_fingerprint sz ino mtime =
     (case (restored_int sz, restored_int ino, restored_int mtime) of
        (Some s, Some i, Some m) \<Rightarrow> Some (s, i, m)
      | _ \<Rightarrow> None)"

fun restored_entry :: "json \<Rightarrow> ((int \<times> int \<times> int) \<times> string) option" where
  "restored_entry (JList [sz, ino, mtime, JStr digest]) =
     (case restored_fingerprint sz ino mtime of None \<Rightarrow> None | Some fp \<Rightarrow> Some (fp, digest))"
| "restored_entry _ = None"

definition enable_hash_cache :: "text_file \<Rightarrow> digest_cache \<Rightarrow> digest_cache" where
  "enable_hash_cache index cache =
     fold (\<lambda>(key, entry) cache.
             case restored_entry entry of None \<Rightarrow> cache | Some e \<Rightarrow> AList.update key e cache)
       (persisted_entries index) cache"

definition index_entry :: "(int \<times> int \<times> int) \<times> string \<Rightarrow> json" where
  "index_entry e = (case e of ((sz, ino, mtime), digest) \<Rightarrow>
     JList [JInt sz, JInt ino, JInt mtime, JStr digest])"

text \<open>
  Flushing replaces the index atomically, and only when a cache directory was enabled; a write
  that fails is logged and leaves the index as it was.
\<close>

definition flush_hash_cache :: "bool \<Rightarrow> bool \<Rightarrow> digest_cache \<Rightarrow> text_file \<Rightarrow> text_file" where
  "flush_hash_cache enabled write_fails cache index =
     (if \<not> enabled \<or> write_fails then index
      else Parsed (JObj [(''contract'', JStr CACHE_CONTRACT_VERSION),
                         (''entries'', JObj (map (\<lambda>(key, e). (key, index_entry e)) cache))]))"

lemma restored_index_entry [simp]: "restored_entry (index_entry e) = Some e"
  by (cases e) (auto simp: index_entry_def restored_fingerprint_def)

lemma enable_flush_fold:
  "fold (\<lambda>(key, entry) cache.
           case restored_entry entry of None \<Rightarrow> cache | Some e \<Rightarrow> AList.update key e cache)
     (map (\<lambda>(key, e). (key, index_entry e)) saved) cache
   = fold (\<lambda>(key, e). AList.update key e) saved cache"
  by (induction saved arbitrary: cache) auto

lemma fold_update_distinct:
  "distinct (map fst (cache @ saved)) \<Longrightarrow> fold (\<lambda>(key, e). AList.update key e) saved cache = cache @ saved"
proof (induction saved arbitrary: cache)
  case (Cons kv saved)
  obtain k e where kv: "kv = (k, e)"
    by (cases kv)
  then have new: "AList.update k e cache = cache @ [(k, e)]"
    using Cons.prems by (intro dict_update_new) (simp add: map_of_eq_None_iff)
  show ?case
    using Cons.IH [of "cache @ [(k, e)]"] Cons.prems by (simp add: kv new)
qed simp

text \<open>
  The digest index survives a restart: flushing a cache with distinct keys and loading the
  index into an empty cache restores every entry, in order; a flush that is disabled or fails
  leaves the stored index readable as before.
\<close>

theorem hash_cache_roundtrip:
  assumes "dict_wf cache"
  shows "enable_hash_cache (flush_hash_cache True False cache index) [] = cache
    \<and> enable_hash_cache (flush_hash_cache False fails cache index) c = enable_hash_cache index c
    \<and> enable_hash_cache (flush_hash_cache enabled True cache index) c = enable_hash_cache index c"
proof -
  have "persisted_entries (flush_hash_cache True False cache index) =
      map (\<lambda>(key, e). (key, index_entry e)) cache"
    by (simp add: flush_hash_cache_def persisted_entries_def read_index_def CACHE_CONTRACT_VERSION_def)
  then have "enable_hash_cache (flush_hash_cache True False cache index) [] = cache"
    using assms fold_update_distinct [of "[]" cache]
    by (simp add: enable_hash_cache_def enable_flush_fold dict_wf_def)
  then show ?thesis
    by (simp add: flush_hash_cache_def)
qed

definition sample_cache :: digest_cache where
  "sample_cache = [(''/d/a'', ((10, 20, 30), ''d1'')), (''/d/b'', ((11, 21, 31), ''d2''))]"

theorem hash_cache_roundtrip_witness:
  "dict_wf sample_cache
   \<and> enable_hash_cache (flush_hash_cache True False sample_cache Absent) [] = sample_cache"
proof -
  have wf: "dict_wf sample_cache"
    by (simp add: dict_wf_def sample_cache_def)
  show ?thesis
    using wf hash_cache_roundtrip [OF wf] by blast
qed

section \<open>Memoised digests against fresh digests\<close>

text \<open>
  A run interleaves changes of the disk (a file is created, rewritten or removed) with digests of
  the code. The reference reads the bytes every time.
\<close>

datatype disk_event =
    Install string "disk_file option"
  | Digest string

fun run_cached :: "disk_event list \<Rightarrow> disk \<Rightarrow> digest_cache \<Rightarrow> string res list" where
  "run_cached [] d cache = []"
| "run_cached (Install path f # es) d cache = run_cached es (d(path := f)) cache"
| "run_cached (Digest path # es) d cache =
     (case sha256_file d path cache of (r, cache') \<Rightarrow> r # run_cached es d cache')"

fun run_uncached :: "disk_event list \<Rightarrow> disk \<Rightarrow> string res list" where
  "run_uncached [] d = []"
| "run_uncached (Install path f # es) d = run_uncached es (d(path := f))"
| "run_uncached (Digest path # es) d = sha256_file_uncached d path # run_uncached es d"

text \<open>Every version of a file that the run can see, and the assumption the cache rests on.\<close>

definition versions :: "disk_event list \<Rightarrow> disk \<Rightarrow> (string \<times> disk_file) set" where
  "versions es d = {(path, f). d path = Some f} \<union> {(path, f). Install path (Some f) \<in> set es}"

definition fingerprint_faithful :: "(string \<times> disk_file) set \<Rightarrow> bool" where
  "fingerprint_faithful vs \<longleftrightarrow>
     (\<forall>path f g. (path, f) \<in> vs \<and> (path, g) \<in> vs
        \<and> fp_hash_cache (file_stat f) = fp_hash_cache (file_stat g) \<longrightarrow> file_bytes f = file_bytes g)"

definition cache_coherent :: "(string \<times> disk_file) set \<Rightarrow> digest_cache \<Rightarrow> bool" where
  "cache_coherent vs cache \<longleftrightarrow>
     (\<forall>path fp digest f. map_of cache path = Some (fp, digest) \<and> (path, f) \<in> vs
        \<and> fp_hash_cache (file_stat f) = fp \<longrightarrow> digest = digest_bytes (file_bytes f))"

lemma fingerprint_faithfulD:
  "fingerprint_faithful vs \<Longrightarrow> (path, f) \<in> vs \<Longrightarrow> (path, g) \<in> vs
    \<Longrightarrow> fp_hash_cache (file_stat f) = fp_hash_cache (file_stat g) \<Longrightarrow> file_bytes f = file_bytes g"
  unfolding fingerprint_faithful_def by blast

lemma cache_coherentD:
  "cache_coherent vs cache \<Longrightarrow> map_of cache path = Some (fp, digest) \<Longrightarrow> (path, f) \<in> vs
    \<Longrightarrow> fp_hash_cache (file_stat f) = fp \<Longrightarrow> digest = digest_bytes (file_bytes f)"
  unfolding cache_coherent_def by blast

lemma cache_coherent_mono: "cache_coherent vs cache \<Longrightarrow> us \<subseteq> vs \<Longrightarrow> cache_coherent us cache"
  unfolding cache_coherent_def by blast

lemma fingerprint_faithful_mono: "fingerprint_faithful vs \<Longrightarrow> us \<subseteq> vs \<Longrightarrow> fingerprint_faithful us"
  unfolding fingerprint_faithful_def by blast

lemma versions_install: "versions es (d(path := f)) \<subseteq> versions (Install path f # es) d"
  by (auto simp: versions_def split: if_splits)

lemma sha256_file_coherent:
  assumes vs: "fingerprint_faithful vs" and coh: "cache_coherent vs cache"
    and disk: "\<And>f. d path = Some f \<Longrightarrow> (path, f) \<in> vs"
  shows "fst (sha256_file d path cache) = sha256_file_uncached d path
    \<and> cache_coherent vs (snd (sha256_file d path cache))"
proof (cases "d path")
  case None
  then show ?thesis
    using coh by (simp add: sha256_file_def)
next
  case (Some f)
  let ?fp = "fp_hash_cache (file_stat f)" and ?dg = "digest_bytes (file_bytes f)"
  have f: "(path, f) \<in> vs"
    using disk Some by blast
  have fresh: "cache_coherent vs (AList.update path (?fp, ?dg) cache)"
    unfolding cache_coherent_def
  proof (intro allI impI, elim conjE)
    fix p fp digest g
    assume look: "map_of (AList.update path (?fp, ?dg) cache) p = Some (fp, digest)"
      and g: "(p, g) \<in> vs" and fp: "fp_hash_cache (file_stat g) = fp"
    show "digest = digest_bytes (file_bytes g)"
    proof (cases "p = path")
      case True
      then have fp': "?fp = fp" and dg: "digest = ?dg"
        using look by simp_all
      have "file_bytes f = file_bytes g"
        using vs f by (rule fingerprint_faithfulD) (use g True fp fp' in simp_all)
      then show ?thesis
        using dg by simp
    next
      case False
      then have "map_of cache p = Some (fp, digest)"
        using look by simp
      then show ?thesis
        using coh g fp by (blast intro: cache_coherentD)
    qed
  qed
  show ?thesis
  proof (cases "map_of cache path")
    case None
    then show ?thesis
      using Some fresh by (simp add: sha256_file_def sha256_file_uncached_def Let_def)
  next
    case (Some e)
    obtain stored digest where e: "e = (stored, digest)"
      by (cases e)
    have "stored = ?fp \<Longrightarrow> digest = ?dg"
      using coh Some e f by (blast intro: cache_coherentD)
    then show ?thesis
      using Some \<open>d path = Some f\<close> fresh coh e
      by (simp add: sha256_file_def sha256_file_uncached_def Let_def)
  qed
qed

lemma run_cached_correct:
  "fingerprint_faithful (versions es d) \<Longrightarrow> cache_coherent (versions es d) cache \<Longrightarrow>
     run_cached es d cache = run_uncached es d"
proof (induction es arbitrary: d cache)
  case (Cons e es)
  show ?case
  proof (cases e)
    case (Install path f)
    note sub = versions_install [of es d path f, folded Install]
    have "run_cached es (d(path := f)) cache = run_uncached es (d(path := f))"
      using Cons.prems sub
      by (intro Cons.IH) (erule (1) fingerprint_faithful_mono cache_coherent_mono)+
    then show ?thesis
      unfolding Install by simp
  next
    case (Digest path)
    have vs: "versions (e # es) d = versions es d"
      by (auto simp: versions_def Digest)
    have "fst (sha256_file d path cache) = sha256_file_uncached d path
        \<and> cache_coherent (versions es d) (snd (sha256_file d path cache))"
      using Cons.prems unfolding vs by (intro sha256_file_coherent) (auto simp: versions_def)
    then show ?thesis
      using Cons.IH [of d "snd (sha256_file d path cache)"] Cons.prems vs
      by (simp add: Digest case_prod_unfold)
  qed
qed simp

text \<open>
  C33. Memoised digests agree with fresh digests on every run that starts with an empty cache, as
  long as two versions of a file with the same size, inode and modification time hold the same
  bytes.
\<close>

theorem sha256_file_memo_exact:
  assumes "fingerprint_faithful (versions es d)"
  shows "run_cached es d [] = run_uncached es d"
  using assms by (rule run_cached_correct) (simp add: cache_coherent_def)

definition sample_stat :: "int \<Rightarrow> file_stat_fingerprint" where
  "sample_stat mtime = \<lparr>st_size = 10, mtime_ns = mtime, ctime_ns = mtime, inode = 7, device = 2,
     birthtime_ns = 0\<rparr>"

theorem sha256_file_memo_exact_witness:
  "fingerprint_faithful (versions [Install ''/d/a'' (Some \<lparr>file_stat = sample_stat 5, file_bytes = [65]\<rparr>),
      Digest ''/d/a'', Install ''/d/a'' (Some \<lparr>file_stat = sample_stat 6, file_bytes = [66]\<rparr>), Digest ''/d/a''] (\<lambda>_. None))
   \<and> run_cached [Install ''/d/a'' (Some \<lparr>file_stat = sample_stat 5, file_bytes = [65]\<rparr>),
      Digest ''/d/a'', Install ''/d/a'' (Some \<lparr>file_stat = sample_stat 6, file_bytes = [66]\<rparr>), Digest ''/d/a''] (\<lambda>_. None) []
     = [Inr (digest_bytes [65]), Inr (digest_bytes [66])]"
proof -
  let ?es = "[Install ''/d/a'' (Some \<lparr>file_stat = sample_stat 5, file_bytes = [65]\<rparr>),
      Digest ''/d/a'', Install ''/d/a'' (Some \<lparr>file_stat = sample_stat 6, file_bytes = [66]\<rparr>), Digest ''/d/a'']"
  have ok: "fingerprint_faithful (versions ?es (\<lambda>_. None))"
    by (auto simp: fingerprint_faithful_def versions_def fp_hash_cache_def sample_stat_def)
  show ?thesis
    using ok sha256_file_memo_exact [OF ok] by (simp add: sha256_file_uncached_def)
qed

text \<open>
  The assumption is needed: when a file is rewritten in place with as many bytes within one
  tick of its modification time, the memoised digest is the one of the old bytes, although every
  other recorded time changed.
\<close>

theorem sha256_file_stale_within_tick:
  "run_cached [Install path (Some \<lparr>file_stat = fp, file_bytes = old\<rparr>), Digest path,
      Install path (Some \<lparr>file_stat = fp\<lparr>ctime_ns := t\<rparr>, file_bytes = new\<rparr>), Digest path] d []
   = [Inr (digest_bytes old), Inr (digest_bytes old)]
   \<and> run_uncached [Install path (Some \<lparr>file_stat = fp, file_bytes = old\<rparr>), Digest path,
      Install path (Some \<lparr>file_stat = fp\<lparr>ctime_ns := t\<rparr>, file_bytes = new\<rparr>), Digest path] d
   = [Inr (digest_bytes old), Inr (digest_bytes new)]"
  by (simp add: sha256_file_def sha256_file_uncached_def fp_hash_cache_def Let_def)

end
