(* ===== verification/Pending_Publications.thy ===== *)
theory Pending_Publications
  imports Osm_Domain Json_Files Hashing
begin

text \<open>
  The durable publication intent (\<^verbatim>\<open>pipeline/pending_publications.py\<close>): one JSON envelope that holds
  the stems whose publication is pending and the metadata-refresh marker. The state of the
  component is the manifest file; an operation returns the new file or raises and leaves it as
  it was (the write is atomic).
\<close>

section \<open>Envelope\<close>

definition CONTRACT_VERSION :: string where
  "CONTRACT_VERSION = ''pending-publications-v1''"

definition load_envelope :: "text_file \<Rightarrow> (string, json) dict res" where
  "load_envelope file =
     (case file of
        Absent \<Rightarrow> Inr []
      | Undecodable \<Rightarrow> Inl (ValueError ''Malformed pending publication manifest'')
      | Blank \<Rightarrow> Inl (ValueError ''Malformed pending publication manifest'')
      | Malformed \<Rightarrow> Inl (ValueError ''Malformed pending publication manifest'')
      | DigitLimit \<Rightarrow> Inl (ValueError ''Exceeds the limit for integer string conversion'')
      | Parsed (JObj data) \<Rightarrow>
          if map_of data ''contract_version'' = Some (JStr CONTRACT_VERSION) then Inr data
          else Inl (ValueError ''Invalid contract version'')
      | Parsed _ \<Rightarrow> Inl (TypeError ''Pending publication manifest must be a JSON object''))"

definition save_envelope :: "(string, json) dict \<Rightarrow> text_file" where
  "save_envelope envelope = write_json (JObj envelope)"

definition pending_stem_values :: "(string, json) dict \<Rightarrow> json list res" where
  "pending_stem_values data =
     (case map_of data ''stems'' of
        None \<Rightarrow> Inl (TypeError ''Pending publication manifest is missing stems field'')
      | Some JNull \<Rightarrow> Inl (TypeError ''Pending publication manifest is missing stems field'')
      | Some (JList stems) \<Rightarrow> Inr stems
      | Some _ \<Rightarrow> Inl (TypeError ''Pending publication manifest stems field must be a list''))"

definition validate_stem :: "string \<Rightarrow> string res" where
  "validate_stem stem = require_safe_stem stem (ValueError ''Invalid pending publication stem'')"

definition validate_pending_stem_value :: "json \<Rightarrow> string res" where
  "validate_pending_stem_value v =
     (case v of JStr s \<Rightarrow> validate_stem s | _ \<Rightarrow> Inl (TypeError ''Pending publication stem is not a string''))"

definition validate_pending_stem_values :: "json list \<Rightarrow> string list res" where
  "validate_pending_stem_values stems =
     res_bind (res_map validate_pending_stem_value stems) (\<lambda>validated.
       if \<not> distinct validated then Inl (ValueError ''Pending publication manifest contains duplicate stems'')
       else Inr validated)"

definition validated_pending_stems :: "(string, json) dict \<Rightarrow> string set res" where
  "validated_pending_stems data =
     res_bind (pending_stem_values data) (\<lambda>values.
     res_bind (validate_pending_stem_values values) (\<lambda>stems. Inr (set stems)))"

definition load_pending_publications :: "text_file \<Rightarrow> string set res" where
  "load_pending_publications file =
     (if file = Absent then Inr {} else res_bind (load_envelope file) validated_pending_stems)"

definition save_pending_publications :: "text_file \<Rightarrow> string set \<Rightarrow> text_file res" where
  "save_pending_publications file stems =
     (if \<exists>s\<in>stems. \<not> is_safe_stem (JStr s) then Inl (ValueError ''Invalid pending publication stem'')
      else res_bind (load_envelope file) (\<lambda>envelope.
        Inr (save_envelope
          (AList.update ''stems'' (JList (map JStr (sorted_list_of_set stems)))
            (AList.update ''contract_version'' (JStr CONTRACT_VERSION) envelope)))))"

definition add_pending_publications :: "text_file \<Rightarrow> string set \<Rightarrow> text_file res" where
  "add_pending_publications file stems =
     (if stems = {} then Inr file
      else res_bind (load_pending_publications file) (\<lambda>current. save_pending_publications file (current \<union> stems)))"

definition remove_pending_publications :: "text_file \<Rightarrow> string set \<Rightarrow> text_file res" where
  "remove_pending_publications file stems =
     (if stems = {} then Inr file
      else res_bind (load_pending_publications file) (\<lambda>current. save_pending_publications file (current - stems)))"

section \<open>Metadata-refresh marker\<close>

definition validate_marker_stem :: "json \<Rightarrow> string res" where
  "validate_marker_stem stem =
     (case stem of
        JStr s \<Rightarrow>
          if s = [] then Inl (ValueError ''Marker stem must be non-empty'')
          else if CHR ''/'' \<in> set s \<or> CHR 0x5C \<in> set s
            then Inl (ValueError ''Marker stem must not contain path separators'')
          else if s \<in> {''.'', ''..''} then Inl (ValueError ''Marker stem must not be a path component'')
          else Inr s
      | _ \<Rightarrow> Inl (ValueError ''Marker stem must be a string''))"

definition validate_marker_hash :: "json \<Rightarrow> string res" where
  "validate_marker_hash value =
     (case value of
        JStr s \<Rightarrow> if is_sha256_hex s then Inr s
                  else Inl (ValueError ''Marker fingerprint hash must be 64 lowercase hex chars'')
      | _ \<Rightarrow> Inl (ValueError ''Marker fingerprint hash must be a string''))"

text \<open>\<open>set(xs)\<close> needs hashable elements, and \<open>True\<close> and \<open>1\<close> are the same element.\<close>

definition hashable :: "json \<Rightarrow> bool" where
  "hashable v = (case v of JList _ \<Rightarrow> False | JObj _ \<Rightarrow> False | _ \<Rightarrow> True)"

definition hash_key :: "json \<Rightarrow> json" where
  "hash_key v = (case v of JBool b \<Rightarrow> JInt (if b then 1 else 0) | _ \<Rightarrow> v)"

definition no_duplicates :: "json list \<Rightarrow> string \<Rightarrow> unit res" where
  "no_duplicates stems message =
     (if \<not> list_all hashable stems then Inl (TypeError ''unhashable type'')
      else guard (distinct (map hash_key stems)) (ValueError message))"

definition validate_marker_collections :: "json \<Rightarrow> json \<Rightarrow> (json list \<times> (string, json) dict) res" where
  "validate_marker_collections stems fingerprint_hashes =
     (case stems of
        JList ss \<Rightarrow>
          (case fingerprint_hashes of
             JObj hs \<Rightarrow>
               if ss = [] then Inl (ValueError ''Marker must include at least one stem'')
               else res_bind (no_duplicates ss ''Marker stems must not contain duplicates'') (\<lambda>_.
                 if (\<lambda>kv. JStr (fst kv)) ` set hs \<noteq> set ss
                 then Inl (ValueError ''Marker fingerprint_hashes keys must match the stems list exactly'')
                 else Inr (ss, hs))
           | _ \<Rightarrow> Inl (ValueError ''Marker fingerprint_hashes must be a dict''))
      | _ \<Rightarrow> Inl (ValueError ''Marker stems must be a list''))"

definition validated_marker_inputs :: "json \<Rightarrow> json \<Rightarrow> (string list \<times> (string, string) dict) res" where
  "validated_marker_inputs stems fingerprint_hashes =
     res_bind (validate_marker_collections stems fingerprint_hashes) (\<lambda>(ss, hs).
     res_bind (res_map validate_marker_stem ss) (\<lambda>validated_stems.
     res_bind (res_map (\<lambda>s. res_bind (dict_item hs s) (\<lambda>h. res_bind (validate_marker_hash h) (\<lambda>v. Inr (s, v))))
                 validated_stems) (\<lambda>validated_hashes.
       Inr (validated_stems, validated_hashes))))"

definition envelope_marker_payload :: "string list \<Rightarrow> (string, string) dict \<Rightarrow> json" where
  "envelope_marker_payload stems fingerprint_hashes =
     JObj [(''stems'', JList (map JStr (sort stems))),
           (''fingerprint_hashes'',
             JObj (map (\<lambda>s. (s, JStr (the (map_of fingerprint_hashes s)))) (sort (map fst fingerprint_hashes))))]"

definition dict_setdefault :: "'k \<Rightarrow> 'v \<Rightarrow> ('k, 'v) dict \<Rightarrow> ('k, 'v) dict" where
  "dict_setdefault k v d = (case map_of d k of None \<Rightarrow> AList.update k v d | Some _ \<Rightarrow> d)"

definition with_marker_payload :: "(string, json) dict \<Rightarrow> json \<Rightarrow> (string, json) dict" where
  "with_marker_payload envelope payload =
     dict_setdefault ''contract_version'' (JStr CONTRACT_VERSION)
       (dict_setdefault ''stems'' (JList []) (AList.update ''metadata_refresh'' payload envelope))"

definition set_metadata_refresh_marker :: "text_file \<Rightarrow> json \<Rightarrow> json \<Rightarrow> text_file res" where
  "set_metadata_refresh_marker file stems fingerprint_hashes =
     res_bind (validated_marker_inputs stems fingerprint_hashes) (\<lambda>(ss, hs).
     (let payload = envelope_marker_payload ss hs in
      res_bind (load_envelope file) (\<lambda>envelope.
        if (case map_of envelope ''metadata_refresh'' of None \<Rightarrow> False | Some m \<Rightarrow> json_eq m payload) \<and> file \<noteq> Absent
        then Inr file
        else Inr (save_envelope (with_marker_payload envelope payload)))))"

definition validate_metadata_marker_stems :: "json \<Rightarrow> json list res" where
  "validate_metadata_marker_stems raw =
     (case raw of
        JList stems \<Rightarrow>
          res_bind (no_duplicates stems ''metadata_refresh.stems must not contain duplicates'') (\<lambda>_.
          res_bind (res_map (\<lambda>s. case s of
                       JStr _ \<Rightarrow> validate_marker_stem s
                     | _ \<Rightarrow> Inl (TypeError ''metadata_refresh.stems entries must be strings'')) stems) (\<lambda>_.
            Inr stems))
      | _ \<Rightarrow> Inl (TypeError ''metadata_refresh.stems must be a list''))"

text \<open>\<open>d.values()\<close>.\<close>

definition dict_values :: "('k, 'v) dict \<Rightarrow> 'v list" where
  "dict_values d = map (\<lambda>kv. the (map_of d (fst kv))) d"

definition validate_metadata_marker_hashes :: "json \<Rightarrow> json list \<Rightarrow> unit res" where
  "validate_metadata_marker_hashes raw stems =
     (case raw of
        JObj hashes \<Rightarrow>
          if (\<lambda>kv. JStr (fst kv)) ` set hashes \<noteq> set stems
          then Inl (ValueError ''metadata_refresh.fingerprint_hashes keys must match metadata_refresh.stems'')
          else res_bind (res_map validate_marker_hash (dict_values hashes)) (\<lambda>_. Inr ())
      | _ \<Rightarrow> Inl (TypeError ''metadata_refresh.fingerprint_hashes must be a dict''))"

definition validated_metadata_marker :: "json \<Rightarrow> json res" where
  "validated_metadata_marker marker =
     (case marker of
        JObj d \<Rightarrow>
          if fst ` set d \<noteq> {''stems'', ''fingerprint_hashes''}
          then Inl (ValueError ''metadata_refresh field must have exactly stems and fingerprint_hashes keys'')
          else
            res_bind (dict_item d ''stems'') (\<lambda>raw_stems.
            res_bind (validate_metadata_marker_stems raw_stems) (\<lambda>stems.
            res_bind (dict_item d ''fingerprint_hashes'') (\<lambda>raw_hashes.
            res_bind (validate_metadata_marker_hashes raw_hashes stems) (\<lambda>_. Inr marker))))
      | _ \<Rightarrow> Inl (TypeError ''metadata_refresh field must be a JSON object''))"

definition load_metadata_refresh_marker :: "text_file \<Rightarrow> json option res" where
  "load_metadata_refresh_marker file =
     (if file = Absent then Inr None
      else res_bind (load_envelope file) (\<lambda>envelope.
        case map_of envelope ''metadata_refresh'' of
          None \<Rightarrow> Inr None
        | Some m \<Rightarrow> res_bind (validated_metadata_marker m) (\<lambda>v. Inr (Some v))))"

definition clear_metadata_refresh_marker :: "text_file \<Rightarrow> text_file res" where
  "clear_metadata_refresh_marker file =
     (if file = Absent then Inr file
      else res_bind (load_envelope file) (\<lambda>envelope.
        case map_of envelope ''metadata_refresh'' of
          None \<Rightarrow> Inr file
        | Some _ \<Rightarrow> Inr (save_envelope (AList.delete ''metadata_refresh'' envelope))))"

section \<open>Two independent fields of one file\<close>

text \<open>
  The contract of a file with two fields that are written by separate operations: a write is read
  back, and it leaves the other field alone. The client lemma says that after any sequence of
  successful writes each field holds its own last value.
\<close>

locale field_pair =
  fixes set1 :: "'x \<Rightarrow> 'f \<Rightarrow> 'f res" and get1 :: "'f \<Rightarrow> 'a res" and abs1 :: "'x \<Rightarrow> 'a"
    and set2 :: "'y \<Rightarrow> 'f \<Rightarrow> 'f res" and get2 :: "'f \<Rightarrow> 'b res" and abs2 :: "'y \<Rightarrow> 'b"
  assumes set1_get1: "set1 x f = Inr f' \<Longrightarrow> get1 f' = Inr (abs1 x)"
    and set1_get2: "set1 x f = Inr f' \<Longrightarrow> get2 f = Inr b \<Longrightarrow> get2 f' = Inr b"
    and set2_get2: "set2 y f = Inr f' \<Longrightarrow> get2 f' = Inr (abs2 y)"
    and set2_get1: "set2 y f = Inr f' \<Longrightarrow> get1 f = Inr a \<Longrightarrow> get1 f' = Inr a"
begin

definition apply_write :: "'x + 'y \<Rightarrow> 'f \<Rightarrow> 'f res" where
  "apply_write w f = (case w of Inl x \<Rightarrow> set1 x f | Inr y \<Rightarrow> set2 y f)"

lemma last_writes_win:
  assumes "res_fold apply_write ws f = Inr f'" "get1 f = Inr a" "get2 f = Inr b"
  shows "get1 f' = Inr (fold (\<lambda>w acc. case w of Inl x \<Rightarrow> abs1 x | Inr y \<Rightarrow> acc) ws a)
    \<and> get2 f' = Inr (fold (\<lambda>w acc. case w of Inl x \<Rightarrow> acc | Inr y \<Rightarrow> abs2 y) ws b)"
  using assms
proof (induction ws arbitrary: f a b)
  case Nil
  then show ?case by simp
next
  case (Cons w ws)
  then obtain g where g: "apply_write w f = Inr g" "res_fold apply_write ws g = Inr f'"
    by auto
  show ?case
  proof (cases w)
    case (Inl x)
    then have "get1 g = Inr (abs1 x)" "get2 g = Inr b"
      using g(1) Cons.prems set1_get1 set1_get2 by (auto simp: apply_write_def)
    then show ?thesis
      using Cons.IH [OF g(2)] Inl by simp
  next
    case (Inr y)
    then have "get1 g = Inr a" "get2 g = Inr (abs2 y)"
      using g(1) Cons.prems set2_get1 set2_get2 by (auto simp: apply_write_def)
    then show ?thesis
      using Cons.IH [OF g(2)] Inr by simp
  qed
qed

end

section \<open>Facts about the envelope\<close>

lemma load_save_envelope:
  "map_of e ''contract_version'' = Some (JStr CONTRACT_VERSION) \<Longrightarrow>
     load_envelope (save_envelope e) = Inr (sorted_entries (map (map_prod id jsort) e))"
  by (simp add: load_envelope_def save_envelope_def write_json_def map_of_jsort_entries)

lemma save_envelope_not_Absent [simp]: "save_envelope e \<noteq> Absent"
  by (simp add: save_envelope_def write_json_def)

lemma load_envelope_version:
  "load_envelope file = Inr e \<Longrightarrow> file \<noteq> Absent \<Longrightarrow> map_of e ''contract_version'' = Some (JStr CONTRACT_VERSION)"
  by (auto simp: load_envelope_def split: text_file.splits json.splits if_splits)

lemma load_envelope_Absent [simp]: "load_envelope Absent = Inr []"
  by (simp add: load_envelope_def)

lemma validate_pending_stem_value_jsort [simp]:
  "validate_pending_stem_value (jsort v) = validate_pending_stem_value v"
  by (cases v) (simp_all add: validate_pending_stem_value_def)

lemma validate_pending_stem_value_Inr_iff:
  "validate_pending_stem_value v = Inr s \<longleftrightarrow> v = JStr s \<and> is_safe_stem (JStr s)"
  by (cases v) (auto simp: validate_pending_stem_value_def validate_stem_def require_safe_stem_def)

lemma pending_stems_jsort:
  "validated_pending_stems (sorted_entries (map (map_prod id jsort) d)) = validated_pending_stems d"
proof -
  have "res_map validate_pending_stem_value (map jsort xs) = res_map validate_pending_stem_value xs" for xs
    by (induction xs) simp_all
  then show ?thesis
    by (cases "map_of d ''stems''"; cases "the (map_of d ''stems'')")
      (simp_all add: validated_pending_stems_def pending_stem_values_def validate_pending_stem_values_def
        map_of_jsort_entries)
qed

lemma validated_pending_stems_cong:
  "map_of d ''stems'' = map_of e ''stems'' \<Longrightarrow> validated_pending_stems d = validated_pending_stems e"
  by (simp add: validated_pending_stems_def pending_stem_values_def)

lemma validate_pending_strings:
  "(\<forall>s\<in>set xs. is_safe_stem (JStr s)) \<Longrightarrow> res_map validate_pending_stem_value (map JStr xs) = Inr xs"
  by (induction xs) (simp_all add: validate_pending_stem_value_def validate_stem_def require_safe_stem_def)

lemma save_pending_load:
  assumes "save_pending_publications file stems = Inr file'" and "finite stems"
  shows "load_pending_publications file' = Inr stems"
proof -
  obtain e where safe: "\<forall>s\<in>stems. is_safe_stem (JStr s)"
    and file': "file' = save_envelope (AList.update ''stems'' (JList (map JStr (sorted_list_of_set stems)))
            (AList.update ''contract_version'' (JStr CONTRACT_VERSION) e))"
    using assms(1) by (auto simp: save_pending_publications_def split: if_splits)
  have "res_map validate_pending_stem_value (map JStr (sorted_list_of_set stems)) = Inr (sorted_list_of_set stems)"
    using safe assms(2) by (intro validate_pending_strings) simp
  then show ?thesis
    using assms(2) unfolding file'
    by (simp add: load_pending_publications_def load_save_envelope pending_stems_jsort)
      (simp add: validated_pending_stems_def pending_stem_values_def validate_pending_stem_values_def)
qed

text \<open>A valid marker, spelled out.\<close>

definition marker_dict_ok :: "(string, json) dict \<Rightarrow> bool" where
  "marker_dict_ok d \<longleftrightarrow>
     fst ` set d = {''stems'', ''fingerprint_hashes''}
     \<and> (\<exists>vs hs. map_of d ''stems'' = Some (JList (map JStr vs)) \<and> distinct vs
        \<and> (\<forall>s\<in>set vs. is_safe_stem (JStr s)) \<and> map_of d ''fingerprint_hashes'' = Some (JObj hs) \<and> fst ` set hs = set vs
        \<and> (\<forall>v\<in>ran (map_of hs). \<exists>h. v = JStr h \<and> is_sha256_hex h))"

definition marker_ok :: "json \<Rightarrow> bool" where
  "marker_ok m = (case m of JObj d \<Rightarrow> marker_dict_ok d | _ \<Rightarrow> False)"

lemma validate_marker_stem_Inr_iff:
  "validate_marker_stem v = Inr s \<longleftrightarrow> v = JStr s \<and> is_safe_stem (JStr s)"
  by (cases v) (auto simp: validate_marker_stem_def is_safe_stem_def)

lemma validate_marker_hash_Inr_iff:
  "validate_marker_hash v = Inr h \<longleftrightarrow> v = JStr h \<and> is_sha256_hex h"
  by (cases v) (auto simp: validate_marker_hash_def)

lemma no_duplicates_strings: "no_duplicates (map JStr vs) msg = Inr u \<longleftrightarrow> distinct vs"
  by (simp add: no_duplicates_def list_all_iff hashable_def hash_key_def comp_def distinct_map inj_on_def)

lemma res_map_marker_stems:
  "res_map (\<lambda>s. case s of JStr _ \<Rightarrow> validate_marker_stem s | _ \<Rightarrow> Inl e) ss = Inr vs \<longleftrightarrow>
     ss = map JStr vs \<and> (\<forall>s\<in>set vs. is_safe_stem (JStr s))"
  by (rule res_map_Inr_preimage) (auto simp: validate_marker_stem_Inr_iff split: json.splits)

lemma set_dict_values: "set (dict_values d) = ran (map_of d)"
proof -
  have "ran (map_of d) = (\<lambda>k. the (map_of d k)) ` dom (map_of d)"
    by (force simp: ran_def dom_def)
  then show ?thesis
    by (simp add: dict_values_def dom_map_of_conv_image_fst image_image)
qed

lemma res_map_marker_hashes:
  "(\<exists>xs. res_map validate_marker_hash (dict_values hs) = Inr xs) \<longleftrightarrow>
     (\<forall>v\<in>ran (map_of hs). \<exists>h. v = JStr h \<and> is_sha256_hex h)"
  by (simp add: res_map_Inr_iff_all validate_marker_hash_Inr_iff set_dict_values)

lemma valid_marker_iff: "validated_metadata_marker m = Inr v \<longleftrightarrow> marker_ok m \<and> v = m"
proof (cases m)
  case (JObj d)
  have stems: "validate_metadata_marker_stems raw = Inr ss \<longleftrightarrow>
      (\<exists>vs. raw = JList (map JStr vs) \<and> ss = map JStr vs \<and> distinct vs \<and> (\<forall>s\<in>set vs. is_safe_stem (JStr s)))" for raw ss
    by (cases raw) (auto simp: validate_metadata_marker_stems_def res_map_marker_stems no_duplicates_strings)
  have img: "(\<lambda>kv. JStr (fst kv)) ` set hs = JStr ` set vs \<longleftrightarrow> fst ` set hs = set vs" for hs :: "(string \<times> json) list" and vs
    using inj_image_eq_iff [of JStr "fst ` set hs" "set vs"] by (simp add: image_image inj_on_def)
  have hashes: "validate_metadata_marker_hashes raw (map JStr vs) = Inr () \<longleftrightarrow>
      (\<exists>hs. raw = JObj hs \<and> fst ` set hs = set vs \<and> (\<forall>v\<in>ran (map_of hs). \<exists>h. v = JStr h \<and> is_sha256_hex h))" for raw vs
  proof (cases raw)
    case (JObj hs)
    have "validate_metadata_marker_hashes raw (map JStr vs) = Inr () \<longleftrightarrow>
        fst ` set hs = set vs \<and> (\<exists>xs. res_map validate_marker_hash (dict_values hs) = Inr xs)"
      by (simp add: validate_metadata_marker_hashes_def JObj img)
    then show ?thesis
      unfolding res_map_marker_hashes JObj by blast
  qed (simp_all add: validate_metadata_marker_hashes_def)
  have item: "dict_item d k = Inr x \<longleftrightarrow> map_of d k = Some x" for k x
    by (auto simp: dict_item_def split: option.splits)
  have "validated_metadata_marker m = Inr v \<longleftrightarrow> v = m \<and> fst ` set d = {''stems'', ''fingerprint_hashes''} \<and>
      (\<exists>raw ss rh. map_of d ''stems'' = Some raw \<and> validate_metadata_marker_stems raw = Inr ss
         \<and> map_of d ''fingerprint_hashes'' = Some rh \<and> validate_metadata_marker_hashes rh ss = Inr ())"
    unfolding validated_metadata_marker_def JObj json.case item [symmetric] by auto
  also have "(\<exists>raw ss rh. map_of d ''stems'' = Some raw \<and> validate_metadata_marker_stems raw = Inr ss
         \<and> map_of d ''fingerprint_hashes'' = Some rh \<and> validate_metadata_marker_hashes rh ss = Inr ()) \<longleftrightarrow>
      (\<exists>vs rh. map_of d ''stems'' = Some (JList (map JStr vs)) \<and> distinct vs \<and> (\<forall>s\<in>set vs. is_safe_stem (JStr s))
         \<and> map_of d ''fingerprint_hashes'' = Some rh \<and> validate_metadata_marker_hashes rh (map JStr vs) = Inr ())"
    unfolding stems by blast
  also have "\<dots> \<longleftrightarrow> (\<exists>vs hs. map_of d ''stems'' = Some (JList (map JStr vs)) \<and> distinct vs
      \<and> (\<forall>s\<in>set vs. is_safe_stem (JStr s)) \<and> map_of d ''fingerprint_hashes'' = Some (JObj hs) \<and> fst ` set hs = set vs
      \<and> (\<forall>v\<in>ran (map_of hs). \<exists>h. v = JStr h \<and> is_sha256_hex h))"
    unfolding hashes by blast
  also have "v = m \<and> fst ` set d = {''stems'', ''fingerprint_hashes''} \<and> \<dots> \<longleftrightarrow> marker_ok m \<and> v = m"
    unfolding marker_ok_def JObj json.case marker_dict_ok_def by (simp only: conj_ac)
  finally show ?thesis .
qed (auto simp: validated_metadata_marker_def marker_ok_def)

text \<open>What a marker says: its stems and the fingerprint of each.\<close>

definition marker_view :: "json \<Rightarrow> json set \<times> (string \<rightharpoonup> json)" where
  "marker_view m =
     (case m of
        JObj d \<Rightarrow>
          (case map_of d ''stems'' of Some (JList xs) \<Rightarrow> set xs | _ \<Rightarrow> {},
           case map_of d ''fingerprint_hashes'' of Some (JObj hs) \<Rightarrow> map_of hs | _ \<Rightarrow> Map.empty)
      | _ \<Rightarrow> ({}, Map.empty))"

lemma fst_jsort_entries [simp]: "fst ` set (sorted_entries (map (map_prod id jsort) d)) = fst ` set d"
  by (simp add: sorted_entries_def image_image)

lemma jsort_strings [simp]: "map jsort (map JStr vs) = map JStr vs"
  by simp

lemma jsort_hash_entries:
  assumes "\<forall>v\<in>ran (map_of hs). \<exists>h. v = JStr h \<and> P h"
  shows "map_of (sorted_entries (map (map_prod id jsort) hs)) = map_of hs"
proof
  fix k
  show "map_of (sorted_entries (map (map_prod id jsort) hs)) k = map_of hs k"
    using assms by (cases "map_of hs k") (force simp: map_of_jsort_entries ran_def)+
qed

lemma marker_dict_okE:
  assumes "marker_dict_ok d"
  obtains vs hs where "fst ` set d = {''stems'', ''fingerprint_hashes''}"
    "map_of d ''stems'' = Some (JList (map JStr vs))" "distinct vs" "\<forall>s\<in>set vs. is_safe_stem (JStr s)"
    "map_of d ''fingerprint_hashes'' = Some (JObj hs)" "fst ` set hs = set vs"
    "\<forall>v\<in>ran (map_of hs). \<exists>h. v = JStr h \<and> is_sha256_hex h"
  using assms unfolding marker_dict_ok_def by (elim conjE exE) (rule that)

lemma marker_dict_okI:
  assumes "fst ` set d = {''stems'', ''fingerprint_hashes''}"
    "map_of d ''stems'' = Some (JList (map JStr vs))" "distinct vs" "\<forall>s\<in>set vs. is_safe_stem (JStr s)"
    "map_of d ''fingerprint_hashes'' = Some (JObj hs)" "fst ` set hs = set vs"
    "\<forall>v\<in>ran (map_of hs). \<exists>h. v = JStr h \<and> is_sha256_hex h"
  shows "marker_dict_ok d"
  unfolding marker_dict_ok_def by (intro conjI exI [of _ vs] exI [of _ hs] assms)

lemma marker_jsort:
  assumes "marker_ok m"
  shows "marker_ok (jsort m)" and "marker_view (jsort m) = marker_view m"
proof -
  obtain d where m: "m = JObj d" and ok: "marker_dict_ok d"
    using assms by (auto simp: marker_ok_def split: json.splits)
  obtain vs hs where d: "fst ` set d = {''stems'', ''fingerprint_hashes''}"
    "map_of d ''stems'' = Some (JList (map JStr vs))" "distinct vs" "\<forall>s\<in>set vs. is_safe_stem (JStr s)"
    "map_of d ''fingerprint_hashes'' = Some (JObj hs)" "fst ` set hs = set vs"
    and h: "\<forall>v\<in>ran (map_of hs). \<exists>h. v = JStr h \<and> is_sha256_hex h"
    using ok by (rule marker_dict_okE)
  let ?d = "sorted_entries (map (map_prod id jsort) d)" and ?h = "sorted_entries (map (map_prod id jsort) hs)"
  have stems: "map_of ?d ''stems'' = Some (JList (map JStr vs))"
    and hashes: "map_of ?d ''fingerprint_hashes'' = Some (JObj ?h)"
    by (simp_all add: map_of_jsort_entries d)
  have keys: "fst ` set ?d = {''stems'', ''fingerprint_hashes''}" "fst ` set ?h = set vs"
    by (simp_all only: fst_jsort_entries d)
  have "\<forall>v\<in>ran (map_of ?h). \<exists>h. v = JStr h \<and> is_sha256_hex h"
    unfolding jsort_hash_entries [OF h] by (rule h)
  then have "marker_dict_ok ?d"
    by (rule marker_dict_okI [OF keys(1) stems d(3,4) hashes keys(2)])
  then show "marker_ok (jsort m)"
    by (simp add: m marker_ok_def)
  show "marker_view (jsort m) = marker_view m"
    by (simp add: m marker_view_def stems hashes d jsort_hash_entries [OF h])
qed

lemma jsort_inv:
  "jsort v = JStr s \<longleftrightarrow> v = JStr s"
  "jsort v = JList ys \<longleftrightarrow> (\<exists>xs. v = JList xs \<and> ys = map jsort xs)"
  "jsort v = JObj e \<longleftrightarrow> (\<exists>d. v = JObj d \<and> e = sorted_entries (map (map_prod id jsort) d))"
  by (cases v; auto)+

lemma jsort_strings_inv: "map JStr vs = map jsort xs \<Longrightarrow> xs = map JStr vs"
  by (induction vs arbitrary: xs) (auto simp: Cons_eq_map_conv dest: sym [of "JStr _"] simp: jsort_inv)

lemma marker_jsort_inv:
  assumes "marker_ok (jsort m)"
  shows "marker_ok m"
proof -
  obtain d where m: "m = JObj d"
    using assms by (cases m) (auto simp: marker_ok_def)
  let ?d = "sorted_entries (map (map_prod id jsort) d)"
  have ok: "marker_dict_ok ?d"
    using assms by (simp add: m marker_ok_def)
  obtain vs hs where d: "fst ` set ?d = {''stems'', ''fingerprint_hashes''}"
    "map_of ?d ''stems'' = Some (JList (map JStr vs))" "distinct vs" "\<forall>s\<in>set vs. is_safe_stem (JStr s)"
    "map_of ?d ''fingerprint_hashes'' = Some (JObj hs)" "fst ` set hs = set vs"
    and h: "\<forall>v\<in>ran (map_of hs). \<exists>h. v = JStr h \<and> is_sha256_hex h"
    using ok by (rule marker_dict_okE)
  obtain xs where xs: "map_of d ''stems'' = Some (JList xs)" "map JStr vs = map jsort xs"
    using d(2) by (auto simp: map_of_jsort_entries jsort_inv)
  obtain hs' where hs': "map_of d ''fingerprint_hashes'' = Some (JObj hs')"
    "hs = sorted_entries (map (map_prod id jsort) hs')"
    using d(5) by (auto simp: map_of_jsort_entries jsort_inv)
  have vals: "\<forall>v\<in>ran (map_of hs'). \<exists>h. v = JStr h \<and> is_sha256_hex h"
  proof
    fix v
    assume "v \<in> ran (map_of hs')"
    then have "jsort v \<in> ran (map_of hs)"
      unfolding hs'(2) by (auto simp: ran_def map_of_jsort_entries)
    with h show "\<exists>h. v = JStr h \<and> is_sha256_hex h"
      by (auto simp: jsort_inv)
  qed
  have keys: "fst ` set d = {''stems'', ''fingerprint_hashes''}" "fst ` set hs' = set vs"
    using d(1,6) unfolding hs'(2) fst_jsort_entries by blast+
  have "map_of d ''stems'' = Some (JList (map JStr vs))"
    unfolding xs(1) jsort_strings_inv [OF xs(2)] ..
  then have "marker_dict_ok d"
    by (rule marker_dict_okI [OF keys(1) _ d(3,4) hs'(1) keys(2) vals])
  then show ?thesis
    by (simp add: m marker_ok_def)
qed

lemma validated_marker_inputs_ok:
  assumes "validated_marker_inputs stems hashes = Inr (ss, hs)"
  shows "distinct ss" and "\<forall>s\<in>set ss. is_safe_stem (JStr s)" and "map fst hs = ss"
    and "\<forall>v\<in>snd ` set hs. is_sha256_hex v"
proof -
  obtain js hd where coll: "validate_marker_collections stems hashes = Inr (js, hd)"
    and ss: "res_map validate_marker_stem js = Inr ss"
    and hs: "res_map (\<lambda>s. res_bind (dict_item hd s) (\<lambda>h. res_bind (validate_marker_hash h) (\<lambda>v. Inr (s, v)))) ss = Inr hs"
    using assms by (auto simp: validated_marker_inputs_def)
  have js: "js = map JStr ss" "\<forall>s\<in>set ss. is_safe_stem (JStr s)"
    using ss unfolding res_map_Inr_preimage [OF validate_marker_stem_Inr_iff] by simp_all
  then show "\<forall>s\<in>set ss. is_safe_stem (JStr s)" by blast
  have "no_duplicates js ''Marker stems must not contain duplicates'' = Inr ()"
    using coll by (auto simp: validate_marker_collections_def split: json.splits if_splits)
  then show "distinct ss"
    unfolding js no_duplicates_strings .
  have all2: "list_all2 (\<lambda>s p. fst p = s \<and> is_sha256_hex (snd p)) ss hs"
    using hs unfolding res_map_Inr_iff
    by (rule list_all2_mono) (auto simp: validate_marker_hash_Inr_iff)
  then show "map fst hs = ss"
    by (induction rule: list_all2_induct) auto
  show "\<forall>v\<in>snd ` set hs. is_sha256_hex v"
    using all2 by (induction rule: list_all2_induct) auto
qed

lemma validated_marker_inputs_view:
  assumes "validated_marker_inputs stems hashes = Inr (ss, hs)"
  shows "\<exists>hd. stems = JList (map JStr ss) \<and> hashes = JObj hd \<and> map_of hd = map_option JStr \<circ> map_of hs"
proof -
  obtain js hd where coll: "validate_marker_collections stems hashes = Inr (js, hd)"
    and ss: "res_map validate_marker_stem js = Inr ss"
    and hs: "res_map (\<lambda>s. res_bind (dict_item hd s) (\<lambda>h. res_bind (validate_marker_hash h) (\<lambda>v. Inr (s, v)))) ss = Inr hs"
    using assms by (auto simp: validated_marker_inputs_def)
  have js: "js = map JStr ss"
    using ss unfolding res_map_Inr_preimage [OF validate_marker_stem_Inr_iff] by simp
  have coll': "stems = JList js" "hashes = JObj hd" "(\<lambda>kv. JStr (fst kv)) ` set hd = set js"
    using coll by (auto simp: validate_marker_collections_def split: json.splits if_splits)
  have keys: "fst ` set hd = set ss"
    using coll'(3) inj_image_eq_iff [of JStr "fst ` set hd" "set ss"] by (simp add: js image_image inj_on_def)
  have "list_all2 (\<lambda>s p. fst p = s \<and> map_of hd s = Some (JStr (snd p))) ss hs"
    using hs unfolding res_map_Inr_iff
    by (rule list_all2_mono) (auto simp: validate_marker_hash_Inr_iff dict_item_def split: option.splits)
  then have "\<forall>k. map_option JStr (map_of hs k) = (if k \<in> set ss then map_of hd k else None)"
    by (induction rule: list_all2_induct) auto
  moreover have "map_of hd k = None" if "k \<notin> set ss" for k
    using that keys by (simp add: map_of_eq_None_iff)
  ultimately have "map_of hd = map_option JStr \<circ> map_of hs"
    by (intro ext) (simp split: if_splits)
  with coll' js show ?thesis by blast
qed

lemma marker_payload:
  assumes "validated_marker_inputs stems hashes = Inr (ss, hs)"
  shows "marker_ok (envelope_marker_payload ss hs)"
    and "marker_view (envelope_marker_payload ss hs) = (JStr ` set ss, map_option JStr \<circ> map_of hs)"
proof -
  note ok = validated_marker_inputs_ok [OF assms]
  let ?h = "map (\<lambda>s. (s, JStr (the (map_of hs s)))) (sort (map fst hs))"
  have look: "map_of ?h = map_option JStr \<circ> map_of hs"
  proof
    fix k
    show "map_of ?h k = (map_option JStr \<circ> map_of hs) k"
      using map_of_eq_None_iff [of hs k] by (cases "map_of hs k") (auto simp: map_of_map_key)
  qed
  have "\<exists>h. v = JStr h \<and> is_sha256_hex h" if v: "v \<in> ran (map_of ?h)" for v
  proof -
    obtain k w where w: "map_of hs k = Some w" "v = JStr w"
      using v unfolding look by (auto simp: ran_def)
    then have "w \<in> snd ` set hs"
      by (force dest: map_of_SomeD)
    with ok(4) w show ?thesis by blast
  qed
  moreover have "fst ` set ?h = set (sort ss)"
    by (simp add: image_image ok(3) [symmetric])
  ultimately have "marker_dict_ok [(''stems'', JList (map JStr (sort ss))), (''fingerprint_hashes'', JObj ?h)]"
    using ok(1,2) by (intro marker_dict_okI [of _ "sort ss" ?h]) auto
  then show "marker_ok (envelope_marker_payload ss hs)"
    by (simp add: marker_ok_def envelope_marker_payload_def)
  show "marker_view (envelope_marker_payload ss hs) = (JStr ` set ss, map_option JStr \<circ> map_of hs)"
    by (simp add: marker_view_def envelope_marker_payload_def look)
qed

section \<open>The two fields of the envelope\<close>

definition marker_state :: "text_file \<Rightarrow> (json set \<times> (string \<rightharpoonup> json)) option res" where
  "marker_state file = res_bind (load_metadata_refresh_marker file) (\<lambda>m. Inr (map_option marker_view m))"

text \<open>A write to the marker sets it or, for \<open>None\<close>, clears it.\<close>

definition write_marker :: "(json \<times> json) option \<Rightarrow> text_file \<Rightarrow> text_file res" where
  "write_marker m file =
     (case m of
        None \<Rightarrow> clear_metadata_refresh_marker file
      | Some (stems, hashes) \<Rightarrow> set_metadata_refresh_marker file stems hashes)"

definition written_marker :: "(json \<times> json) option \<Rightarrow> (json set \<times> (string \<rightharpoonup> json)) option" where
  "written_marker m =
     (case m of
        Some (JList stems, JObj hashes) \<Rightarrow> Some (set stems, map_of hashes)
      | _ \<Rightarrow> None)"

definition write_stems :: "string set \<Rightarrow> text_file \<Rightarrow> text_file res" where
  "write_stems stems file =
     (if finite stems then save_pending_publications file stems else Inl (ValueError []))"

lemma marker_state_saved:
  assumes "map_of e ''contract_version'' = Some (JStr CONTRACT_VERSION)"
  shows "map_of e ''metadata_refresh'' = None \<Longrightarrow> marker_state (save_envelope e) = Inr None"
    and "map_of e ''metadata_refresh'' = Some m \<Longrightarrow> marker_ok m \<Longrightarrow>
      marker_state (save_envelope e) = Inr (Some (marker_view m))"
  using marker_jsort [of m]
  by (simp_all add: marker_state_def load_metadata_refresh_marker_def load_save_envelope [OF assms] map_of_jsort_entries
      valid_marker_iff)

lemma marker_state_Inr:
  assumes "marker_state file = Inr b" and "load_envelope file = Inr e"
  shows "(map_of e ''metadata_refresh'' = None \<and> b = None) \<or>
    (\<exists>m. map_of e ''metadata_refresh'' = Some m \<and> marker_ok m \<and> b = Some (marker_view m))"
  using assms
  by (auto simp: marker_state_def load_metadata_refresh_marker_def valid_marker_iff split: if_splits option.splits)

lemma pending_saved:
  "map_of e ''contract_version'' = Some (JStr CONTRACT_VERSION) \<Longrightarrow>
     load_pending_publications (save_envelope e) = validated_pending_stems e"
  by (simp add: load_pending_publications_def load_save_envelope pending_stems_jsort)

lemma map_of_setdefault [simp]:
  "map_of (dict_setdefault k v d) k' = (if k' = k \<and> map_of d k = None then Some v else map_of d k')"
  by (auto simp: dict_setdefault_def split: option.splits)

lemma write_stems_keeps_marker:
  assumes "write_stems stems f = Inr f'" and "marker_state f = Inr b"
  shows "marker_state f' = Inr b"
proof -
  obtain e where e: "load_envelope f = Inr e"
    and f': "f' = save_envelope (AList.update ''stems'' (JList (map JStr (sorted_list_of_set stems)))
            (AList.update ''contract_version'' (JStr CONTRACT_VERSION) e))"
    using assms(1) by (auto simp: write_stems_def save_pending_publications_def split: if_splits)
  show ?thesis
    using marker_state_Inr [OF assms(2) e] unfolding f' by (auto simp: marker_state_saved)
qed

lemma clear_marker_laws:
  assumes "clear_metadata_refresh_marker f = Inr f'"
  shows "marker_state f' = Inr None" and "load_pending_publications f' = load_pending_publications f"
proof -
  consider "f = Absent" "f' = f"
    | e where "f \<noteq> Absent" "load_envelope f = Inr e" "map_of e ''metadata_refresh'' = None" "f' = f"
    | e where "f \<noteq> Absent" "load_envelope f = Inr e" "f' = save_envelope (AList.delete ''metadata_refresh'' e)"
    using assms by (auto simp: clear_metadata_refresh_marker_def split: if_splits option.splits)
  then have "marker_state f' = Inr None \<and> load_pending_publications f' = load_pending_publications f"
  proof cases
    case 1
    then show ?thesis
      by (simp add: marker_state_def load_metadata_refresh_marker_def)
  next
    case 2
    then show ?thesis
      by (simp add: marker_state_def load_metadata_refresh_marker_def)
  next
    case 3
    have v: "map_of (AList.delete ''metadata_refresh'' e) ''contract_version'' = Some (JStr CONTRACT_VERSION)"
      using load_envelope_version [OF 3(2,1)] by (simp add: delete_conv')
    have "marker_state f' = Inr None"
      unfolding 3 by (rule marker_state_saved(1) [OF v]) (simp add: delete_conv')
    moreover have "validated_pending_stems (AList.delete ''metadata_refresh'' e) = validated_pending_stems e"
      by (rule validated_pending_stems_cong) (simp add: delete_conv')
    then have "load_pending_publications f' = load_pending_publications f"
      unfolding 3(3) pending_saved [OF v] using 3(1,2) by (simp add: load_pending_publications_def)
    ultimately show ?thesis ..
  qed
  then show "marker_state f' = Inr None" and "load_pending_publications f' = load_pending_publications f"
    by simp_all
qed

lemma set_marker_laws:
  assumes "set_metadata_refresh_marker f stems hashes = Inr f'"
  shows "marker_state f' = Inr (written_marker (Some (stems, hashes)))"
    and "load_pending_publications f = Inr a \<Longrightarrow> load_pending_publications f' = Inr a"
proof -
  obtain ss hs e where inputs: "validated_marker_inputs stems hashes = Inr (ss, hs)"
    and e: "load_envelope f = Inr e"
    and f': "f' = (if (case map_of e ''metadata_refresh'' of None \<Rightarrow> False
          | Some m \<Rightarrow> json_eq m (envelope_marker_payload ss hs)) \<and> f \<noteq> Absent
        then f else save_envelope (with_marker_payload e (envelope_marker_payload ss hs)))" (is "_ = (if ?noop then _ else _)")
    using assms by (auto simp: set_metadata_refresh_marker_def Let_def split: if_splits)
  let ?payload = "envelope_marker_payload ss hs"
  note payload = marker_payload [OF inputs]
  have written: "written_marker (Some (stems, hashes)) = Some (marker_view ?payload)"
    using validated_marker_inputs_view [OF inputs] payload(2) by (auto simp: written_marker_def)
  have v: "map_of (with_marker_payload e ?payload) ''contract_version'' = Some (JStr CONTRACT_VERSION)"
    using load_envelope_version [OF e] e by (cases "f = Absent") (simp_all add: with_marker_payload_def)
  show "marker_state f' = Inr (written_marker (Some (stems, hashes)))"
  proof (cases ?noop)
    case True
    then obtain m where m: "map_of e ''metadata_refresh'' = Some m" "jsort m = jsort ?payload"
      by (auto simp: json_eq_def split: option.splits)
    then have ok: "marker_ok m"
      using marker_jsort(1) [OF payload(1)] marker_jsort_inv by metis
    have "marker_view m = marker_view ?payload"
      using m(2) marker_jsort(2) [OF ok] marker_jsort(2) [OF payload(1)] by metis
    then show ?thesis
      using True e m ok by (simp add: f' written marker_state_def load_metadata_refresh_marker_def valid_marker_iff)
  next
    case False
    have "map_of (with_marker_payload e ?payload) ''metadata_refresh'' = Some ?payload"
      by (simp add: with_marker_payload_def)
    then show ?thesis
      using False marker_state_saved(2) [OF v _ payload(1)] unfolding f' written by (simp only: if_False)
  qed
  assume a: "load_pending_publications f = Inr a"
  show "load_pending_publications f' = Inr a"
  proof (cases ?noop)
    case True
    then show ?thesis using a by (simp add: f')
  next
    case False
    have "validated_pending_stems (with_marker_payload e ?payload) = Inr a"
    proof (cases "f = Absent")
      case True
      then show ?thesis
        using a e by (simp add: load_pending_publications_def validated_pending_stems_def pending_stem_values_def
            validate_pending_stem_values_def with_marker_payload_def)
    next
      case False
      then have "validated_pending_stems e = Inr a"
        using a e by (simp add: load_pending_publications_def)
      moreover from this have "map_of e ''stems'' \<noteq> None"
        by (auto simp: validated_pending_stems_def pending_stem_values_def split: option.splits)
      then have "validated_pending_stems (with_marker_payload e ?payload) = validated_pending_stems e"
        by (intro validated_pending_stems_cong) (simp add: with_marker_payload_def)
      ultimately show ?thesis by simp
    qed
    then show ?thesis
      using False pending_saved [OF v] unfolding f' by (simp only: if_False)
  qed
qed

interpretation envelope: field_pair write_stems load_pending_publications "\<lambda>stems. stems"
  write_marker marker_state written_marker
proof
  show "write_stems x f = Inr f' \<Longrightarrow> load_pending_publications f' = Inr x" for x f f'
    by (auto simp: write_stems_def save_pending_load split: if_splits)
  show "write_stems x f = Inr f' \<Longrightarrow> marker_state f = Inr b \<Longrightarrow> marker_state f' = Inr b" for x f f' b
    by (rule write_stems_keeps_marker)
  show "write_marker y f = Inr f' \<Longrightarrow> marker_state f' = Inr (written_marker y)" for y f f'
    by (auto simp: write_marker_def clear_marker_laws set_marker_laws split: option.splits)
      (simp add: written_marker_def clear_marker_laws)
  show "write_marker y f = Inr f' \<Longrightarrow> load_pending_publications f = Inr a \<Longrightarrow> load_pending_publications f' = Inr a" for y f f' a
    by (auto simp: write_marker_def clear_marker_laws set_marker_laws split: option.splits)
qed

section \<open>Sequences of writes and interleavings\<close>

datatype envelope_write =
    SaveStems "string set"
  | SetMarker json json
  | ClearMarker

fun apply_envelope_write :: "envelope_write \<Rightarrow> text_file \<Rightarrow> text_file res" where
  "apply_envelope_write (SaveStems stems) file = write_stems stems file"
| "apply_envelope_write (SetMarker stems hashes) file = set_metadata_refresh_marker file stems hashes"
| "apply_envelope_write ClearMarker file = clear_metadata_refresh_marker file"

fun encode_write :: "envelope_write \<Rightarrow> string set + (json \<times> json) option" where
  "encode_write (SaveStems stems) = Inl stems"
| "encode_write (SetMarker stems hashes) = Inr (Some (stems, hashes))"
| "encode_write ClearMarker = Inr None"

lemma apply_encoded: "envelope.apply_write (encode_write w) f = apply_envelope_write w f"
  by (cases w) (simp_all add: envelope.apply_write_def write_marker_def)

lemma res_fold_encoded: "res_fold envelope.apply_write (map encode_write ws) f = res_fold apply_envelope_write ws f"
  by (induction ws arbitrary: f) (simp_all add: apply_encoded cong: res_bind_cong)

fun stems_after :: "envelope_write \<Rightarrow> string set \<Rightarrow> string set" where
  "stems_after (SaveStems stems) current = stems"
| "stems_after _ current = current"

fun marker_after :: "envelope_write \<Rightarrow> (json set \<times> (string \<rightharpoonup> json)) option \<Rightarrow> (json set \<times> (string \<rightharpoonup> json)) option" where
  "marker_after (SaveStems stems) current = current"
| "marker_after (SetMarker stems hashes) current = written_marker (Some (stems, hashes))"
| "marker_after ClearMarker current = None"

lemma fold_encoded:
  "fold (\<lambda>w acc. case w of Inl x \<Rightarrow> x | Inr y \<Rightarrow> acc) (map encode_write ws) a = fold stems_after ws a"
  "fold (\<lambda>w acc. case w of Inl x \<Rightarrow> acc | Inr y \<Rightarrow> written_marker y) (map encode_write ws) b = fold marker_after ws b"
proof (induction ws arbitrary: a b)
  case (Cons w ws)
  {
    case 1
    then show ?case using Cons.IH by (cases w) simp_all
  next
    case 2
    then show ?case using Cons.IH by (cases w) (simp_all add: written_marker_def)
  }
qed simp_all

text \<open>
  Two threads update the pending stems. An update reads the current set before it takes the lock
  and writes the new set under it, so its read and its write are two steps.
\<close>

datatype request = Add "string set" | Remove "string set"

datatype updater = Ready request | Loaded request "string set" | Finished

fun updated :: "request \<Rightarrow> string set \<Rightarrow> string set" where
  "updated (Add stems) current = current \<union> stems"
| "updated (Remove stems) current = current - stems"

inductive update_step :: "text_file \<times> updater list \<Rightarrow> text_file \<times> updater list \<Rightarrow> bool" where
  update_load: "i < length us \<Longrightarrow> us ! i = Ready r \<Longrightarrow> load_pending_publications f = Inr current \<Longrightarrow>
    update_step (f, us) (f, us[i := Loaded r current])"
| update_save: "i < length us \<Longrightarrow> us ! i = Loaded r current \<Longrightarrow>
    save_pending_publications f (updated r current) = Inr f' \<Longrightarrow> update_step (f, us) (f', us[i := Finished])"

section \<open>Properties\<close>

text \<open>
  C17. The envelope keeps its two fields apart: after any sequence of successful writes that starts
  without a file, the pending stems are those of the last save and the marker is the one last
  set, unless it was cleared since.
\<close>

theorem envelope_fields_independent:
  assumes "res_fold apply_envelope_write ws Absent = Inr file"
  shows "load_pending_publications file = Inr (fold stems_after ws {})
    \<and> marker_state file = Inr (fold marker_after ws None)"
proof -
  have init: "load_pending_publications Absent = Inr {}" "marker_state Absent = Inr None"
    by (simp_all add: load_pending_publications_def marker_state_def load_metadata_refresh_marker_def)
  show ?thesis
    using envelope.last_writes_win [OF assms [folded res_fold_encoded] init]
    unfolding fold_encoded .
qed

definition example_hash :: string where
  "example_hash = replicate 64 (CHR ''a'')"

lemma example_stems_saved:
  assumes "finite stems" and "\<forall>s\<in>stems. is_safe_stem (JStr s)" and "load_envelope f = Inr e"
  shows "\<exists>file. save_pending_publications f stems = Inr file"
  using assms by (auto simp: save_pending_publications_def)

theorem envelope_fields_independent_witness:
  "\<exists>file. res_fold apply_envelope_write [SaveStems {''a''}, ClearMarker] Absent = Inr file
     \<and> load_pending_publications file = Inr {''a''} \<and> marker_state file = Inr None"
proof -
  obtain f where f: "save_pending_publications Absent {''a''} = Inr f"
    using example_stems_saved [of "{''a''}" Absent "[]"] by (auto simp: is_safe_stem_def)
  then have "load_pending_publications f = Inr {''a''}"
    by (rule save_pending_load) simp
  then obtain e where "load_envelope f = Inr e"
    by (cases "f = Absent") (auto simp: load_pending_publications_def)
  then have "\<exists>g. clear_metadata_refresh_marker f = Inr g"
    by (auto simp: clear_metadata_refresh_marker_def split: option.splits)
  then obtain g where "res_fold apply_envelope_write [SaveStems {''a''}, ClearMarker] Absent = Inr g"
    using f by (auto simp: write_stems_def)
  then show ?thesis
    using envelope_fields_independent [of "[SaveStems {''a''}, ClearMarker]" g] by auto
qed

text \<open>
  Adding and removing stems is set union and difference on the durable set; both keep the
  marker, and both succeed whenever the manifest is readable and the new stems are safe.
\<close>

theorem pending_add_remove:
  assumes "load_pending_publications file = Inr current" and "finite stems"
    and "\<forall>s\<in>stems. is_safe_stem (JStr s)"
  shows "(\<exists>file'. add_pending_publications file stems = Inr file'
       \<and> load_pending_publications file' = Inr (current \<union> stems)
       \<and> (\<forall>b. marker_state file = Inr b \<longrightarrow> marker_state file' = Inr b))
    \<and> (\<exists>file'. remove_pending_publications file stems = Inr file'
       \<and> load_pending_publications file' = Inr (current - stems)
       \<and> (\<forall>b. marker_state file = Inr b \<longrightarrow> marker_state file' = Inr b))"
proof -
  obtain e where e: "load_envelope file = Inr e"
    using assms(1) by (cases "file = Absent") (auto simp: load_pending_publications_def)
  have cur: "finite current \<and> (\<forall>s\<in>current. is_safe_stem (JStr s))"
  proof (cases "file = Absent")
    case True
    then show ?thesis
      using assms(1) by (simp add: load_pending_publications_def)
  next
    case False
    then obtain js vs where "res_map validate_pending_stem_value js = Inr vs" "current = set vs"
      using assms(1) e
      by (auto simp: load_pending_publications_def validated_pending_stems_def validate_pending_stem_values_def split: if_splits)
    then show ?thesis
      unfolding res_map_Inr_preimage [OF validate_pending_stem_value_Inr_iff] by simp
  qed
  have save: "\<exists>file'. save_pending_publications file new = Inr file' \<and> load_pending_publications file' = Inr new
      \<and> (\<forall>b. marker_state file = Inr b \<longrightarrow> marker_state file' = Inr b)"
    if "finite new" "\<forall>s\<in>new. is_safe_stem (JStr s)" for new
    using example_stems_saved [OF that e] save_pending_load that(1) write_stems_keeps_marker [where stems = new and f = "file"]
    by (auto simp: write_stems_def)
  show ?thesis
  proof (cases "stems = {}")
    case True
    then show ?thesis
      using assms(1) by (simp add: add_pending_publications_def remove_pending_publications_def)
  next
    case False
    then show ?thesis
      using save [of "current \<union> stems"] save [of "current - stems"] assms cur
      by (auto simp: add_pending_publications_def remove_pending_publications_def)
  qed
qed

theorem pending_add_remove_witness:
  "\<exists>file'. add_pending_publications Absent {''a'', ''b''} = Inr file' \<and> load_pending_publications file' = Inr {''a'', ''b''}"
proof -
  have h: "load_pending_publications Absent = Inr {}" "finite {''a'', ''b''}"
    "\<forall>s\<in>{''a'', ''b''}. is_safe_stem (JStr s)"
    by (simp_all add: load_pending_publications_def is_safe_stem_def)
  show ?thesis
    using pending_add_remove [OF h] by (simp del: insert_iff) blast
qed

text \<open>
  C38. Concurrent updates can be lost: two threads that each add a stem to an empty manifest can
  both finish with only the second stem recorded, because each reads the current set before
  it takes the envelope lock.
\<close>

theorem concurrent_add_loses_stem:
  "\<exists>file. update_step\<^sup>*\<^sup>* (Absent, [Ready (Add {''a''}), Ready (Add {''b''})]) (file, [Finished, Finished])
     \<and> load_pending_publications file = Inr {''b''}"
proof -
  have absent: "load_pending_publications Absent = Inr {}"
    by (simp add: load_pending_publications_def)
  obtain f where f: "save_pending_publications Absent {''a''} = Inr f"
    using example_stems_saved [of "{''a''}" Absent "[]"] by (auto simp: is_safe_stem_def)
  obtain e where "load_envelope f = Inr e"
    using save_pending_load [OF f] by (cases "f = Absent") (auto simp: load_pending_publications_def)
  then obtain g where g: "save_pending_publications f {''b''} = Inr g"
    using example_stems_saved [of "{''b''}" f e] by (auto simp: is_safe_stem_def)
  let ?A = "Add {''a''}" and ?B = "Add {''b''}"
  have "update_step (Absent, [Ready ?A, Ready ?B]) (Absent, [Loaded ?A {}, Ready ?B])"
    using update_load [of 0 "[Ready ?A, Ready ?B]" ?A Absent "{}"] absent by simp
  moreover have "update_step (Absent, [Loaded ?A {}, Ready ?B]) (Absent, [Loaded ?A {}, Loaded ?B {}])"
    using update_load [of 1 "[Loaded ?A {}, Ready ?B]" ?B Absent "{}"] absent by simp
  moreover have "update_step (Absent, [Loaded ?A {}, Loaded ?B {}]) (f, [Finished, Loaded ?B {}])"
    using update_save [of 0 "[Loaded ?A {}, Loaded ?B {}]" ?A "{}" Absent f] f by simp
  moreover have "update_step (f, [Finished, Loaded ?B {}]) (g, [Finished, Finished])"
    using update_save [of 1 "[Finished, Loaded ?B {}]" ?B "{}" f g] g by simp
  ultimately have "update_step\<^sup>*\<^sup>* (Absent, [Ready ?A, Ready ?B]) (g, [Finished, Finished])"
    by (meson converse_rtranclp_into_rtranclp rtranclp.rtrancl_refl)
  moreover have "load_pending_publications g = Inr {''b''}"
    using save_pending_load [OF g] by simp
  ultimately show ?thesis by blast
qed

end
