(* ===== verification/Staged_Install.thy ===== *)
theory Staged_Install
  imports Prelude "HOL-Library.Sublist"
begin

text \<open>
  All-or-nothing installation of a set of staged files (\<^verbatim>\<open>io/staged_install.py\<close>). The file system
  is a map from paths to contents; directories are not modelled. Every system call that can fail
  consumes one entry of a fault script: \<open>True\<close> makes it fail, and an exhausted script means no
  more failures. A call returns its outcome together with the state it leaves, so that the
  handlers see what an interrupted phase has done. The name \<open>mkstemp\<close> picks is a parameter.
\<close>

section \<open>File system calls\<close>

type_synonym fpath = string

record 'c world =
  files :: "fpath \<rightharpoonup> 'c"
  faults :: "bool list"

definition fault :: "'c world \<Rightarrow> bool \<times> 'c world" where
  "fault w = (case faults w of [] \<Rightarrow> (False, w) | b # bs \<Rightarrow> (b, w\<lparr>faults := bs\<rparr>))"

definition replace_path :: "fpath \<Rightarrow> fpath \<Rightarrow> 'c world \<Rightarrow> unit res \<times> 'c world" where
  "replace_path source destination w =
     (case fault w of (bad, w1) \<Rightarrow>
        if bad then (Inl (OSError ''replace''), w1)
        else (case files w1 source of
                None \<Rightarrow> (Inl (FileNotFoundError ''replace''), w1)
              | Some c \<Rightarrow> (Inr (), w1\<lparr>files := (files w1)(source := None, destination \<mapsto> c)\<rparr>)))"

definition unlink_missing_ok :: "fpath \<Rightarrow> 'c world \<Rightarrow> unit res \<times> 'c world" where
  "unlink_missing_ok p w =
     (case fault w of (bad, w1) \<Rightarrow>
        if bad then (Inl (OSError ''unlink''), w1) else (Inr (), w1\<lparr>files := (files w1)(p := None)\<rparr>))"

definition mkdir_parent :: "'c world \<Rightarrow> unit res \<times> 'c world" where
  "mkdir_parent w = (case fault w of (bad, w1) \<Rightarrow> if bad then (Inl (OSError ''mkdir''), w1) else (Inr (), w1))"

text \<open>The empty file that \<open>mkstemp\<close> creates under a name that does not exist yet.\<close>

definition mkstemp :: "((fpath \<rightharpoonup> 'c) \<Rightarrow> fpath \<Rightarrow> fpath) \<Rightarrow> 'c \<Rightarrow> fpath \<Rightarrow> 'c world \<Rightarrow> fpath res \<times> 'c world" where
  "mkstemp temp_name blank p w =
     (case fault w of (bad, w1) \<Rightarrow>
        if bad then (Inl (OSError ''mkstemp''), w1)
        else (Inr (temp_name (files w1) p), w1\<lparr>files := (files w1)(temp_name (files w1) p \<mapsto> blank)\<rparr>))"

section \<open>The transaction\<close>

definition backup_existing ::
  "((fpath \<rightharpoonup> 'c) \<Rightarrow> fpath \<Rightarrow> fpath) \<Rightarrow> 'c \<Rightarrow> fpath \<Rightarrow> 'c world \<Rightarrow> fpath res \<times> 'c world" where
  "backup_existing temp_name blank p w =
     (case mkstemp temp_name blank p w of
        (Inl e, w1) \<Rightarrow> (Inl e, w1)
      | (Inr backup, w1) \<Rightarrow>
          (case replace_path p backup w1 of
             (Inl e, w2) \<Rightarrow> (Inl e, w2)
           | (Inr _, w2) \<Rightarrow> (Inr backup, w2)))"

fun unlink_all :: "fpath list \<Rightarrow> 'c world \<Rightarrow> unit res \<times> 'c world" where
  "unlink_all [] w = (Inr (), w)"
| "unlink_all (p # ps) w =
     (case unlink_missing_ok p w of (Inl e, w1) \<Rightarrow> (Inl e, w1) | (Inr _, w1) \<Rightarrow> unlink_all ps w1)"

fun restore_backups :: "(fpath \<times> fpath) list \<Rightarrow> 'c world \<Rightarrow> unit res \<times> 'c world" where
  "restore_backups [] w = (Inr (), w)"
| "restore_backups ((final, backup) # bs) w =
     (if files w backup = None then restore_backups bs w
      else (case mkdir_parent w of
              (Inl e, w1) \<Rightarrow> (Inl e, w1)
            | (Inr _, w1) \<Rightarrow>
                (case replace_path backup final w1 of
                   (Inl e, w2) \<Rightarrow> (Inl e, w2)
                 | (Inr _, w2) \<Rightarrow> restore_backups bs w2)))"

definition restore_files :: "fpath list \<Rightarrow> (fpath, fpath) dict \<Rightarrow> 'c world \<Rightarrow> unit res \<times> 'c world" where
  "restore_files installed backups w =
     (case unlink_all installed w of
        (Inl e, w1) \<Rightarrow> (Inl e, w1)
      | (Inr _, w1) \<Rightarrow> restore_backups (sort_key fst backups) w1)"

fun backup_loop ::
  "((fpath \<rightharpoonup> 'c) \<Rightarrow> fpath \<Rightarrow> fpath) \<Rightarrow> 'c \<Rightarrow> fpath list \<Rightarrow> (fpath, fpath) dict \<Rightarrow> 'c world
     \<Rightarrow> unit res \<times> (fpath, fpath) dict \<times> 'c world" where
  "backup_loop temp_name blank [] backups w = (Inr (), backups, w)"
| "backup_loop temp_name blank (t # ts) backups w =
     (if files w t = None then backup_loop temp_name blank ts backups w
      else (case backup_existing temp_name blank t w of
              (Inl e, w1) \<Rightarrow> (Inl e, backups, w1)
            | (Inr backup, w1) \<Rightarrow> backup_loop temp_name blank ts (AList.update t backup backups) w1))"

definition backup_targets ::
  "((fpath \<rightharpoonup> 'c) \<Rightarrow> fpath \<Rightarrow> fpath) \<Rightarrow> 'c \<Rightarrow> fpath list \<Rightarrow> 'c world \<Rightarrow> unit res \<times> (fpath, fpath) dict \<times> 'c world" where
  "backup_targets temp_name blank targets w =
     (case backup_loop temp_name blank targets [] w of
        (Inr _, backups, w1) \<Rightarrow> (Inr (), backups, w1)
      | (Inl e, backups, w1) \<Rightarrow>
          (case restore_files [] backups w1 of
             (Inl e', w2) \<Rightarrow> (Inl e', backups, w2)
           | (Inr _, w2) \<Rightarrow> (Inl e, backups, w2)))"

definition install_order :: "(fpath, fpath) dict \<Rightarrow> fpath option \<Rightarrow> (fpath \<times> fpath) list" where
  "install_order staged manifest_path = sort_key (\<lambda>item. (manifest_path = Some (fst item), fst item)) staged"

fun install_loop :: "(fpath \<times> fpath) list \<Rightarrow> fpath list \<Rightarrow> 'c world \<Rightarrow> unit res \<times> fpath list \<times> 'c world" where
  "install_loop [] installed w = (Inr (), installed, w)"
| "install_loop ((final, temporary) # items) installed w =
     (case mkdir_parent w of
        (Inl e, w1) \<Rightarrow> (Inl e, installed, w1)
      | (Inr _, w1) \<Rightarrow>
          (case replace_path temporary final w1 of
             (Inl e, w2) \<Rightarrow> (Inl e, installed, w2)
           | (Inr _, w2) \<Rightarrow> install_loop items (installed @ [final]) w2))"

definition install_files ::
  "(fpath, fpath) dict \<Rightarrow> fpath option \<Rightarrow> 'c world \<Rightarrow> unit res \<times> fpath list \<times> 'c world" where
  "install_files staged manifest_path w = install_loop (install_order staged manifest_path) [] w"

definition cleanup_transaction :: "(fpath, fpath) dict \<Rightarrow> (fpath, fpath) dict \<Rightarrow> 'c world \<Rightarrow> unit res \<times> 'c world" where
  "cleanup_transaction staged backups w = unlink_all (map snd staged @ map snd backups) w"

definition run_transaction ::
  "((fpath \<rightharpoonup> 'c) \<Rightarrow> fpath \<Rightarrow> fpath) \<Rightarrow> 'c \<Rightarrow> (fpath, fpath) dict \<Rightarrow> fpath list \<Rightarrow> fpath option \<Rightarrow> 'c world
     \<Rightarrow> unit res \<times> (fpath, fpath) dict \<times> fpath list \<times> 'c world" where
  "run_transaction temp_name blank staged targets manifest_path w =
     (case backup_targets temp_name blank targets w of
        (Inl e, backups, w1) \<Rightarrow> (Inl e, backups, [], w1)
      | (Inr _, backups, w1) \<Rightarrow>
          (case install_files staged manifest_path w1 of (r, installed, w2) \<Rightarrow> (r, backups, installed, w2)))"

definition install_staged_files ::
  "((fpath \<rightharpoonup> 'c) \<Rightarrow> fpath \<Rightarrow> fpath) \<Rightarrow> 'c \<Rightarrow> (fpath, fpath) dict \<Rightarrow> fpath list \<Rightarrow> fpath option \<Rightarrow> 'c world
     \<Rightarrow> unit res \<times> 'c world" where
  "install_staged_files temp_name blank staged stale manifest_path w =
     (let targets = sort (remdups (map fst staged @ stale)) in
      case run_transaction temp_name blank staged targets manifest_path w of
        (r, backups, installed, w1) \<Rightarrow>
          (let (r', w2) = (case r of
                 Inr _ \<Rightarrow> (Inr (), w1)
               | Inl e \<Rightarrow> (case restore_files installed backups w1 of
                             (Inl e', w2) \<Rightarrow> (Inl e', w2)
                           | (Inr _, w2) \<Rightarrow> (Inl e, w2)))
           in case cleanup_transaction staged backups w2 of
                (Inl e, w3) \<Rightarrow> (Inl e, w3)
              | (Inr _, w3) \<Rightarrow> (r', w3)))"

section \<open>Calls without failures\<close>

definition calm :: "'c world \<Rightarrow> bool" where
  "calm w \<longleftrightarrow> list_all Not (faults w)"

definition at_most_one_fault :: "'c world \<Rightarrow> bool" where
  "at_most_one_fault w \<longleftrightarrow> length (filter id (faults w)) \<le> 1"

lemma calm_one_fault: "calm w \<Longrightarrow> at_most_one_fault w"
  by (simp add: calm_def at_most_one_fault_def list_all_iff filter_empty_conv)

lemma fault_cases:
  assumes "at_most_one_fault w"
  obtains w1 where "fault w = (False, w1)" "files w1 = files w" "at_most_one_fault w1" "calm w \<Longrightarrow> calm w1"
  | w1 where "fault w = (True, w1)" "files w1 = files w" "calm w1" "\<not> calm w"
proof (cases "faults w")
  case Nil
  then show thesis
    using that(1) [of w] assms by (simp add: fault_def)
next
  case (Cons b bs)
  show thesis
  proof (cases b)
    case True
    then have "list_all Not bs"
      using assms Cons by (auto simp: at_most_one_fault_def list_all_iff filter_empty_conv)
    then show thesis
      using True Cons that(2) [of "w\<lparr>faults := bs\<rparr>"] by (simp add: fault_def calm_def)
  next
    case False
    then show thesis
      using Cons assms that(1) [of "w\<lparr>faults := bs\<rparr>"] by (simp add: fault_def calm_def at_most_one_fault_def)
  qed
qed

lemma fault_calm:
  assumes "calm w"
  obtains w1 where "fault w = (False, w1)" "files w1 = files w" "calm w1"
proof (rule fault_cases [OF calm_one_fault [OF assms]])
  fix w1
  assume w1: "fault w = (False, w1)" "files w1 = files w" "calm w \<Longrightarrow> calm w1"
  show thesis
    by (rule that [OF w1(1,2) w1(3) [OF assms]])
next
  assume "\<not> calm w"
  then show thesis
    using assms by (rule notE)
qed

lemma unlink_all_calm:
  "calm w \<Longrightarrow> \<exists>w'. unlink_all ps w = (Inr (), w') \<and> calm w' \<and> files w' = (\<lambda>p. if p \<in> set ps then None else files w p)"
proof (induction ps arbitrary: w)
  case Nil
  then show ?case by simp
next
  case (Cons p ps)
  obtain w1 where w1: "fault w = (False, w1)" "files w1 = files w" "calm w1"
    using fault_calm [OF Cons.prems] .
  have "unlink_missing_ok p w = (Inr (), w1\<lparr>files := (files w)(p := None)\<rparr>)"
    by (simp add: unlink_missing_ok_def w1)
  moreover have "calm (w1\<lparr>files := (files w)(p := None)\<rparr>)"
    using w1(3) by (simp add: calm_def)
  ultimately show ?case
    using Cons.IH [of "w1\<lparr>files := (files w)(p := None)\<rparr>"] by (auto simp: fun_eq_iff)
qed

lemma replace_path_calm:
  assumes "calm w" "files w s = Some c"
  obtains w' where "replace_path s d w = (Inr (), w')" "calm w'" "files w' = (files w)(s := None, d \<mapsto> c)"
proof -
  obtain w1 where w1: "fault w = (False, w1)" "files w1 = files w" "calm w1"
    using fault_calm [OF assms(1)] .
  show thesis
    using that [of "w1\<lparr>files := (files w)(s := None, d \<mapsto> c)\<rparr>"] w1 assms(2) by (simp add: replace_path_def calm_def)
qed

lemma mkdir_parent_calm:
  assumes "calm w"
  obtains w' where "mkdir_parent w = (Inr (), w')" "calm w'" "files w' = files w"
proof -
  obtain w1 where w1: "fault w = (False, w1)" "files w1 = files w" "calm w1"
    using fault_calm [OF assms] .
  show thesis
    by (rule that [of w1]) (simp_all add: mkdir_parent_def w1)
qed

text \<open>
  Restoring without failures: every existing backup goes back to its target, and nothing else
  changes.
\<close>

lemma restore_backups_calm:
  assumes "calm w" "distinct (map fst bs)" "distinct (map snd bs)" "fst ` set bs \<inter> snd ` set bs = {}"
  shows "\<exists>w'. restore_backups bs w = (Inr (), w') \<and> calm w'
    \<and> (\<forall>t b. (t, b) \<in> set bs \<longrightarrow> files w' t = (if files w b = None then files w t else files w b) \<and> files w' b = None)
    \<and> (\<forall>p. p \<notin> fst ` set bs \<longrightarrow> p \<notin> snd ` set bs \<longrightarrow> files w' p = files w p)"
  using assms
proof (induction bs arbitrary: w)
  case Nil
  then show ?case by auto
next
  case (Cons tb bs)
  obtain t b where tb: "tb = (t, b)" by force
  have fresh: "t \<notin> fst ` set bs" "b \<notin> snd ` set bs" "t \<notin> snd ` set bs" "b \<notin> fst ` set bs" "t \<noteq> b"
    using Cons.prems by (auto simp: tb)
  have dist: "distinct (map fst bs)" "distinct (map snd bs)" "fst ` set bs \<inter> snd ` set bs = {}"
    using Cons.prems by auto
  obtain w1 where w1: "restore_backups (tb # bs) w = restore_backups bs w1" "calm w1"
    "files w1 = (if files w b = None then files w else (files w)(b := None, t := files w b))"
  proof (cases "files w b")
    case None
    then show thesis
      using that [of w] Cons.prems(1) by (simp add: tb)
  next
    case (Some c)
    obtain v where v: "mkdir_parent w = (Inr (), v)" "calm v" "files v = files w"
      using mkdir_parent_calm [OF Cons.prems(1)] .
    have "files v b = Some c" using Some v by simp
    then obtain u where u: "replace_path b t v = (Inr (), u)" "calm u" "files u = (files v)(b := None, t \<mapsto> c)"
      using replace_path_calm [OF v(2)] by metis
    show thesis
      using that [of u] Some v u by (simp add: tb)
  qed
  obtain w' where w': "restore_backups bs w1 = (Inr (), w')" "calm w'"
    "\<forall>t b. (t, b) \<in> set bs \<longrightarrow> files w' t = (if files w1 b = None then files w1 t else files w1 b) \<and> files w' b = None"
    "\<forall>p. p \<notin> fst ` set bs \<longrightarrow> p \<notin> snd ` set bs \<longrightarrow> files w' p = files w1 p"
    using Cons.IH [OF w1(2) dist] by blast
  have same: "files w1 p = files w p" if "p \<noteq> t" "p \<noteq> b" for p
    using that w1(3) by simp
  have mem: "t' \<noteq> t \<and> t' \<noteq> b \<and> b' \<noteq> t \<and> b' \<noteq> b" if "(t', b') \<in> set bs" for t' b'
    using that fresh by force
  have head: "files w' t = (if files w b = None then files w t else files w b) \<and> files w' b = None"
    using w'(4) fresh w1(3) by auto
  have tail: "files w' t' = (if files w b' = None then files w t' else files w b') \<and> files w' b' = None"
    if "(t', b') \<in> set bs" for t' b'
    using w'(3) that mem [OF that] same by auto
  have rest: "files w' p = files w p" if "p \<notin> fst ` set (tb # bs)" "p \<notin> snd ` set (tb # bs)" for p
    using w'(4) that same by (auto simp: tb)
  show ?case
    using w' head tail rest unfolding w1(1) by (auto simp: tb)
qed

section \<open>The invariant of an unfinished transaction\<close>

text \<open>
  \<open>F0\<close> is the file system before the call, \<open>T\<close> the targets, \<open>S\<close> the staged temporaries. Every
  original content is either still at its path or in a backup, and the backups are apart from
  everything else.
\<close>

definition txn_inv ::
  "(fpath \<rightharpoonup> 'c) \<Rightarrow> fpath set \<Rightarrow> fpath set \<Rightarrow> (fpath, fpath) dict \<Rightarrow> fpath set \<Rightarrow> 'c world \<Rightarrow> bool" where
  "txn_inv F0 T S B I w \<longleftrightarrow>
     finite (dom (files w)) \<and> distinct (map fst B) \<and> distinct (map snd B) \<and> fst ` set B \<subseteq> T \<and> I \<subseteq> T
     \<and> (\<forall>t b. (t, b) \<in> set B \<longrightarrow> files w b = F0 t \<and> F0 t \<noteq> None \<and> b \<notin> T \<and> b \<notin> S \<and> b \<notin> dom F0)
     \<and> (\<forall>p\<in>I. p \<notin> fst ` set B \<longrightarrow> F0 p = None)
     \<and> (\<forall>p\<in>dom F0 \<union> T. p \<notin> S \<longrightarrow> p \<notin> fst ` set B \<longrightarrow> p \<notin> I \<longrightarrow> files w p = F0 p)"

definition staging_inv :: "(fpath \<rightharpoonup> 'c) \<Rightarrow> fpath set \<Rightarrow> (fpath, fpath) dict \<Rightarrow> 'c world \<Rightarrow> bool" where
  "staging_inv F0 S B w \<longleftrightarrow> (\<forall>p\<in>S. files w p = F0 p) \<and> (\<forall>p\<in>fst ` set B. files w p = None)"

definition fresh_names :: "((fpath \<rightharpoonup> 'c) \<Rightarrow> fpath \<Rightarrow> fpath) \<Rightarrow> fpath set \<Rightarrow> bool" where
  "fresh_names temp_name avoid \<longleftrightarrow>
     (\<forall>f p. finite (dom f) \<longrightarrow> temp_name f p \<notin> dom f \<and> temp_name f p \<notin> avoid)"

lemma txn_invD:
  assumes "txn_inv F0 T S B I w"
  shows "finite (dom (files w))" "distinct (map fst B)" "distinct (map snd B)" "fst ` set B \<subseteq> T" "I \<subseteq> T"
    "\<And>t b. (t, b) \<in> set B \<Longrightarrow> files w b = F0 t \<and> F0 t \<noteq> None \<and> b \<notin> T \<and> b \<notin> S \<and> b \<notin> dom F0"
    "\<And>p. p \<in> I \<Longrightarrow> p \<notin> fst ` set B \<Longrightarrow> F0 p = None"
    "\<And>p. p \<in> dom F0 \<union> T \<Longrightarrow> p \<notin> S \<Longrightarrow> p \<notin> fst ` set B \<Longrightarrow> p \<notin> I \<Longrightarrow> files w p = F0 p"
proof -
  note c1 = assms [unfolded txn_inv_def]
  note c2 = c1 [THEN conjunct2] note c3 = c2 [THEN conjunct2] note c4 = c3 [THEN conjunct2]
  note c5 = c4 [THEN conjunct2] note c6 = c5 [THEN conjunct2] note c7 = c6 [THEN conjunct2]
  show "finite (dom (files w))" "distinct (map fst B)" "distinct (map snd B)" "fst ` set B \<subseteq> T" "I \<subseteq> T"
    by (rule c1 [THEN conjunct1] c2 [THEN conjunct1] c3 [THEN conjunct1] c4 [THEN conjunct1] c5 [THEN conjunct1])+
  show "files w b = F0 t \<and> F0 t \<noteq> None \<and> b \<notin> T \<and> b \<notin> S \<and> b \<notin> dom F0" if "(t, b) \<in> set B" for t b
    by (rule c6 [THEN conjunct1, rule_format, OF that])
  show "F0 p = None" if "p \<in> I" "p \<notin> fst ` set B" for p
    by (rule c7 [THEN conjunct1, rule_format, OF that])
  show "files w p = F0 p" if "p \<in> dom F0 \<union> T" "p \<notin> S" "p \<notin> fst ` set B" "p \<notin> I" for p
    by (rule c7 [THEN conjunct2, rule_format, OF that])
qed

lemma txn_inv_backup_disjoint: "txn_inv F0 T S B I w \<Longrightarrow> fst ` set B \<inter> snd ` set B = {}"
proof -
  assume inv: "txn_inv F0 T S B I w"
  have "b \<notin> fst ` set B" if "(t, b) \<in> set B" for t b
    using txn_invD(6) [OF inv that] txn_invD(4) [OF inv] by blast
  then show "fst ` set B \<inter> snd ` set B = {}" by force
qed

lemma txn_inv_restored:
  assumes inv: "txn_inv F0 T S B I w" and calm: "calm w" and installed: "set installed = I" and ST: "S \<inter> T = {}"
  shows "\<exists>w'. restore_files installed B w = (Inr (), w') \<and> calm w' \<and> (\<forall>b\<in>snd ` set B. files w' b = None)
    \<and> (\<forall>p\<in>dom F0 \<union> T. p \<notin> S \<longrightarrow> files w' p = F0 p)"
proof -
  obtain w1 where w1: "unlink_all installed w = (Inr (), w1)" "calm w1"
    "files w1 = (\<lambda>p. if p \<in> I then None else files w p)"
    using unlink_all_calm [OF calm, of installed] installed by auto
  let ?bs = "sort_key fst B"
  have perm: "set ?bs = set B" "mset ?bs = mset B" by simp_all
  have "mset (map fst ?bs) = mset (map fst B)" "mset (map snd ?bs) = mset (map snd B)"
    by simp_all
  then have d: "distinct (map fst ?bs)" "distinct (map snd ?bs)" "fst ` set ?bs \<inter> snd ` set ?bs = {}"
    using txn_invD(2,3) [OF inv] txn_inv_backup_disjoint [OF inv] mset_eq_imp_distinct_iff perm(1) by blast+
  obtain w' where w': "restore_backups ?bs w1 = (Inr (), w')" "calm w'"
    "\<forall>t b. (t, b) \<in> set B \<longrightarrow> files w' t = (if files w1 b = None then files w1 t else files w1 b) \<and> files w' b = None"
    "\<forall>p. p \<notin> fst ` set B \<longrightarrow> p \<notin> snd ` set B \<longrightarrow> files w' p = files w1 p"
    using restore_backups_calm [OF w1(2) d] unfolding perm(1) by blast
  have B: "files w b = F0 t" "F0 t \<noteq> None" "b \<notin> T" "b \<notin> dom F0" if "(t, b) \<in> set B" for t b
    using txn_invD(6) [OF inv that] by simp_all
  note IT = txn_invD(5) [OF inv] and I = txn_invD(7) [OF inv] and rest = txn_invD(8) [OF inv]
  have "files w' p = F0 p" if p: "p \<in> dom F0 \<union> T" "p \<notin> S" for p
  proof (cases "p \<in> fst ` set B")
    case True
    then obtain b where b: "(p, b) \<in> set B" by auto
    have "b \<notin> I" using B(3) [OF b] IT by blast
    then have "files w1 b = F0 p"
      using w1(3) B(1) [OF b] by simp
    with w'(3) b B(2) [OF b] show ?thesis by auto
  next
    case False
    have "p \<notin> snd ` set B"
    proof
      assume "p \<in> snd ` set B"
      then obtain t where "(t, p) \<in> set B" by force
      with p B(3,4) show False by blast
    qed
    then have "files w' p = files w1 p"
      using w'(4) False by blast
    also have "\<dots> = F0 p"
      using w1(3) I [OF _ False] rest [OF p False] by (cases "p \<in> I") simp_all
    finally show ?thesis .
  qed
  moreover have "\<forall>b\<in>snd ` set B. files w' b = None"
    using w'(3) by auto
  ultimately show ?thesis
    using w1(1) w'(1,2) by (simp add: restore_files_def)
qed

lemma txn_invI:
  assumes "finite (dom (files w))" "distinct (map fst B)" "distinct (map snd B)" "fst ` set B \<subseteq> T" "I \<subseteq> T"
    "\<And>t b. (t, b) \<in> set B \<Longrightarrow> files w b = F0 t \<and> F0 t \<noteq> None \<and> b \<notin> T \<and> b \<notin> S \<and> b \<notin> dom F0"
    "\<And>p. p \<in> I \<Longrightarrow> p \<notin> fst ` set B \<Longrightarrow> F0 p = None"
    "\<And>p. p \<in> dom F0 \<union> T \<Longrightarrow> p \<notin> S \<Longrightarrow> p \<notin> fst ` set B \<Longrightarrow> p \<notin> I \<Longrightarrow> files w p = F0 p"
  shows "txn_inv F0 T S B I w"
  unfolding txn_inv_def by (intro conjI ballI allI impI assms; assumption?)

lemma txn_inv_extra_file:
  assumes inv: "txn_inv F0 T S B I w" and w': "files w' = (files w)(b \<mapsto> c)"
    and b: "b \<notin> T" "b \<notin> dom F0" "b \<notin> dom (files w)"
  shows "txn_inv F0 T S B I w'"
proof (rule txn_invI)
  show "finite (dom (files w'))"
    using txn_invD(1) [OF inv] by (simp add: w')
  show "files w' b' = F0 t \<and> F0 t \<noteq> None \<and> b' \<notin> T \<and> b' \<notin> S \<and> b' \<notin> dom F0" if "(t, b') \<in> set B" for t b'
  proof -
    have "b' \<noteq> b"
      using txn_invD(6) [OF inv that] b(3) by auto
    then show ?thesis
      using txn_invD(6) [OF inv that] by (simp add: w')
  qed
  show "files w' p = F0 p" if "p \<in> dom F0 \<union> T" "p \<notin> S" "p \<notin> fst ` set B" "p \<notin> I" for p
    using txn_invD(8) [OF inv that] that(1) b by (auto simp: w')
qed (use txn_invD(2-5,7) [OF inv] in blast)+

lemma txn_inv_backed_up:
  assumes inv: "txn_inv F0 T S B {} w" and w': "files w' = (files w)(t := None, b := files w t)"
    and t: "t \<in> T" "t \<notin> fst ` set B" "files w t \<noteq> None" "t \<notin> S"
    and b: "b \<notin> T" "b \<notin> S" "b \<notin> dom F0" "b \<notin> dom (files w)"
  shows "txn_inv F0 T S (B @ [(t, b)]) {} w'"
proof (rule txn_invI)
  have tF: "files w t = F0 t"
    using txn_invD(8) [OF inv, of t] t by blast
  have notin: "b \<notin> snd ` set B" and apart: "t \<notin> snd ` set B"
  proof -
    show "b \<notin> snd ` set B"
    proof
      assume "b \<in> snd ` set B"
      then obtain u where "(u, b) \<in> set B" by force
      from txn_invD(6) [OF inv this] b(4) show False by auto
    qed
    show "t \<notin> snd ` set B"
    proof
      assume "t \<in> snd ` set B"
      then obtain u where "(u, t) \<in> set B" by force
      from txn_invD(6) [OF inv this] t(1) show False by blast
    qed
  qed
  show "finite (dom (files w'))"
    using txn_invD(1) [OF inv] by (simp add: w')
  show "distinct (map fst (B @ [(t, b)]))" "distinct (map snd (B @ [(t, b)]))"
    using txn_invD(2,3) [OF inv] t(2) notin by auto
  show "fst ` set (B @ [(t, b)]) \<subseteq> T"
    using txn_invD(4) [OF inv] t(1) by simp
  show "files w' b' = F0 t' \<and> F0 t' \<noteq> None \<and> b' \<notin> T \<and> b' \<notin> S \<and> b' \<notin> dom F0" if "(t', b') \<in> set (B @ [(t, b)])" for t' b'
  proof (cases "(t', b') \<in> set B")
    case True
    then have "b' \<noteq> b" "b' \<noteq> t"
      using notin apart by force+
    then show ?thesis
      using txn_invD(6) [OF inv True] by (simp add: w')
  next
    case False
    then have "t' = t" "b' = b"
      using that by auto
    then show ?thesis
      using tF t(3) b by (simp add: w')
  qed
  show "files w' p = F0 p" if "p \<in> dom F0 \<union> T" "p \<notin> S" "p \<notin> fst ` set (B @ [(t, b)])" "p \<notin> {}" for p
    using txn_invD(8) [OF inv, of p] that b by (auto simp: w')
qed simp_all

section \<open>The phases preserve the invariant\<close>

lemma mkstemp_cases:
  assumes "at_most_one_fault w"
  obtains w' where "mkstemp temp_name blank p w = (Inr (temp_name (files w) p), w')"
      "files w' = (files w)(temp_name (files w) p \<mapsto> blank)" "at_most_one_fault w'" "calm w \<Longrightarrow> calm w'"
  | e w' where "mkstemp temp_name blank p w = (Inl e, w')" "files w' = files w" "calm w'" "\<not> calm w"
proof (rule fault_cases [OF assms])
  fix w1
  assume w1: "fault w = (False, w1)" "files w1 = files w" "at_most_one_fault w1" "calm w \<Longrightarrow> calm w1"
  show thesis
    by (rule that(1) [of "w1\<lparr>files := (files w)(temp_name (files w) p \<mapsto> blank)\<rparr>"])
      (use w1 in \<open>simp_all add: mkstemp_def calm_def at_most_one_fault_def\<close>)
next
  fix w1
  assume w1: "fault w = (True, w1)" "files w1 = files w" "calm w1" "\<not> calm w"
  show thesis
    by (rule that(2) [of "OSError ''mkstemp''" w1]) (simp_all add: mkstemp_def w1)
qed

lemma replace_cases:
  assumes "at_most_one_fault w" "files w s = Some c"
  obtains w' where "replace_path s d w = (Inr (), w')" "files w' = (files w)(s := None, d \<mapsto> c)"
      "at_most_one_fault w'" "calm w \<Longrightarrow> calm w'"
  | e w' where "replace_path s d w = (Inl e, w')" "files w' = files w" "calm w'" "\<not> calm w"
proof (rule fault_cases [OF assms(1)])
  fix w1
  assume w1: "fault w = (False, w1)" "files w1 = files w" "at_most_one_fault w1" "calm w \<Longrightarrow> calm w1"
  show thesis
    by (rule that(1) [of "w1\<lparr>files := (files w)(s := None, d \<mapsto> c)\<rparr>"])
      (use w1 assms(2) in \<open>simp_all add: replace_path_def calm_def at_most_one_fault_def\<close>)
next
  fix w1
  assume w1: "fault w = (True, w1)" "files w1 = files w" "calm w1" "\<not> calm w"
  show thesis
    by (rule that(2) [of "OSError ''replace''" w1]) (simp_all add: replace_path_def w1)
qed

lemma mkdir_cases:
  assumes "at_most_one_fault w"
  obtains w' where "mkdir_parent w = (Inr (), w')" "files w' = files w" "at_most_one_fault w'" "calm w \<Longrightarrow> calm w'"
  | e w' where "mkdir_parent w = (Inl e, w')" "files w' = files w" "calm w'" "\<not> calm w"
proof (rule fault_cases [OF assms])
  fix w1
  assume w1: "fault w = (False, w1)" "files w1 = files w" "at_most_one_fault w1" "calm w \<Longrightarrow> calm w1"
  show thesis
    by (rule that(1) [of w1]) (use w1 in \<open>simp_all add: mkdir_parent_def\<close>)
next
  fix w1
  assume w1: "fault w = (True, w1)" "files w1 = files w" "calm w1" "\<not> calm w"
  show thesis
    by (rule that(2) [of "OSError ''mkdir''" w1]) (simp_all add: mkdir_parent_def w1)
qed

definition backup_post ::
  "(fpath \<rightharpoonup> 'c) \<Rightarrow> fpath set \<Rightarrow> fpath set \<Rightarrow> 'c world \<Rightarrow> fpath list \<Rightarrow> (fpath, fpath) dict
     \<Rightarrow> unit res \<times> (fpath, fpath) dict \<times> 'c world \<Rightarrow> bool" where
  "backup_post F0 T S w ts B res =
     (case res of (r, B', w') \<Rightarrow>
        txn_inv F0 T S B' {} w' \<and> staging_inv F0 S B' w' \<and> fst ` set B \<subseteq> fst ` set B'
        \<and> (case r of
             Inr _ \<Rightarrow> at_most_one_fault w' \<and> (calm w \<longrightarrow> calm w') \<and> (\<forall>t\<in>set ts. F0 t \<noteq> None \<longrightarrow> t \<in> fst ` set B')
           | Inl e \<Rightarrow> calm w' \<and> \<not> calm w))"

lemma backup_post_skip: "F0 t = None \<Longrightarrow> backup_post F0 T S w (t # ts) B res = backup_post F0 T S w ts B res"
  by (cases res; cases "fst res") (simp_all add: backup_post_def)

lemma backup_post_step:
  assumes "backup_post F0 T S w2 ts (B @ [(t, b)]) res" and "calm w \<Longrightarrow> calm w2"
  shows "backup_post F0 T S w (t # ts) B res"
proof -
  obtain r B' w' where res: "res = (r, B', w')" by (cases res)
  show ?thesis
    using assms unfolding res backup_post_def prod.case by (cases r) auto
qed

lemma backup_loop_post:
  assumes fresh: "fresh_names temp_name (T \<union> S)" and ST: "S \<inter> T = {}"
  shows "at_most_one_fault w \<Longrightarrow> txn_inv F0 T S B {} w \<Longrightarrow> staging_inv F0 S B w \<Longrightarrow> set ts \<subseteq> T \<Longrightarrow> distinct ts \<Longrightarrow>
     set ts \<inter> fst ` set B = {} \<Longrightarrow> backup_post F0 T S w ts B (backup_loop temp_name blank ts B w)"
proof (induction ts arbitrary: B w)
  case Nil
  then show ?case
    by (simp add: backup_post_def)
next
  case (Cons t ts)
  note inv = Cons.prems(2) and staging = Cons.prems(3)
  have t: "t \<in> T" "t \<notin> S" "t \<notin> fst ` set B" "set ts \<subseteq> T" "distinct ts" "t \<notin> set ts" "set ts \<inter> fst ` set B = {}"
    using Cons.prems ST by auto
  have tF: "files w t = F0 t"
    using txn_invD(8) [OF inv, of t] t by blast
  show ?case
  proof (cases "files w t")
    case None
    then have "backup_post F0 T S w ts B (backup_loop temp_name blank ts B w)"
      using Cons.IH [OF Cons.prems(1) inv staging] t by blast
    moreover have "F0 t = None"
      using None tF by simp
    ultimately show ?thesis
      using None by (simp add: backup_post_skip)
  next
    case (Some c)
    let ?b = "temp_name (files w) t"
    have b: "?b \<notin> dom (files w)" "?b \<notin> T" "?b \<notin> S"
      using fresh txn_invD(1) [OF inv] by (simp_all add: fresh_names_def)
    have bF: "?b \<notin> dom F0"
    proof
      assume dom: "?b \<in> dom F0"
      have "?b \<notin> fst ` set B"
        using txn_invD(4) [OF inv] b(2) by blast
      then have "files w ?b = F0 ?b"
        using txn_invD(8) [OF inv, of ?b] dom b(3) by blast
      with b(1) dom show False by (auto simp: dom_def)
    qed
    have tb: "t \<noteq> ?b" using b(2) t(1) by metis
    show ?thesis
    proof (rule mkstemp_cases [OF Cons.prems(1), of temp_name blank t])
      fix e w1
      assume w1: "mkstemp temp_name blank t w = (Inl e, w1)" "files w1 = files w" "calm w1" "\<not> calm w"
      have "txn_inv F0 T S B {} w1" "staging_inv F0 S B w1"
        using inv staging w1(2) by (simp_all add: txn_inv_def staging_inv_def)
      then show ?thesis
        using Some w1 by (simp add: backup_existing_def backup_post_def)
    next
      fix w1
      assume w1: "mkstemp temp_name blank t w = (Inr ?b, w1)" "files w1 = (files w)(?b \<mapsto> blank)"
        "at_most_one_fault w1" "calm w \<Longrightarrow> calm w1"
      have c: "files w1 t = Some c"
        using Some tb w1(2) by simp
      show ?thesis
      proof (rule replace_cases [OF w1(3) c, of ?b])
        fix e w2
        assume w2: "replace_path t ?b w1 = (Inl e, w2)" "files w2 = files w1" "calm w2" "\<not> calm w1"
        have "txn_inv F0 T S B {} w2"
          using txn_inv_extra_file [OF inv _ b(2) bF b(1)] w1(2) w2(2) by simp
        moreover have "staging_inv F0 S B w2"
          using staging b txn_invD(4) [OF inv] by (auto simp: staging_inv_def w2(2) w1(2))
        ultimately show ?thesis
          using Some w1 w2 by (auto simp: backup_existing_def backup_post_def)
      next
        fix w2
        assume w2: "replace_path t ?b w1 = (Inr (), w2)" "files w2 = (files w1)(t := None, ?b \<mapsto> c)"
          "at_most_one_fault w2" "calm w1 \<Longrightarrow> calm w2"
        have f2: "files w2 = (files w)(t := None, ?b := files w t)"
          using w2(2) w1(2) tb Some by (auto simp: fun_eq_iff)
        have inv2: "txn_inv F0 T S (B @ [(t, ?b)]) {} w2"
          by (rule txn_inv_backed_up [OF inv f2 t(1,3) _ t(2) b(2,3) bF b(1)]) (simp add: Some)
        have staging2: "staging_inv F0 S (B @ [(t, ?b)]) w2"
          using staging b t(1,2) tb txn_invD(4) [OF inv] by (auto simp: staging_inv_def f2)
        have "set ts \<inter> fst ` set (B @ [(t, ?b)]) = {}"
          using t(6,7) by auto
        then have post: "backup_post F0 T S w2 ts (B @ [(t, ?b)]) (backup_loop temp_name blank ts (B @ [(t, ?b)]) w2)"
          using Cons.IH [OF w2(3) inv2 staging2 t(4,5)] by blast
        have upd: "AList.update t ?b B = B @ [(t, ?b)]"
          using t(3) by (intro dict_update_new) (simp add: map_of_eq_None_iff)
        have "backup_existing temp_name blank t w = (Inr ?b, w2)"
          by (simp add: backup_existing_def w1(1) w2(1))
        then show ?thesis
          using Some backup_post_step [OF post] w1(4) w2(4) by (simp add: upd)
      qed
    qed
  qed
qed

text \<open>
  The state of the install loop: \<open>done\<close> are the items installed so far, \<open>todo\<close> the remaining ones.
\<close>

definition install_inv ::
  "(fpath \<rightharpoonup> 'c) \<Rightarrow> fpath set \<Rightarrow> fpath set \<Rightarrow> (fpath, fpath) dict \<Rightarrow> (fpath \<times> fpath) list \<Rightarrow> (fpath \<times> fpath) list \<Rightarrow> 'c world \<Rightarrow> bool" where
  "install_inv F0 T S B done todo w \<longleftrightarrow>
     txn_inv F0 T S B (fst ` set done) w
     \<and> (\<forall>f t. (f, t) \<in> set done \<longrightarrow> files w f = F0 t)
     \<and> (\<forall>f t. (f, t) \<in> set todo \<longrightarrow> files w t = F0 t \<and> F0 t \<noteq> None)
     \<and> (\<forall>p\<in>fst ` set B. p \<notin> fst ` set done \<longrightarrow> files w p = None)"

definition install_post ::
  "(fpath \<rightharpoonup> 'c) \<Rightarrow> fpath set \<Rightarrow> fpath set \<Rightarrow> (fpath, fpath) dict \<Rightarrow> (fpath \<times> fpath) list \<Rightarrow> 'c world
     \<Rightarrow> unit res \<times> fpath list \<times> 'c world \<Rightarrow> bool" where
  "install_post F0 T S B items w res =
     (case res of (r, installed, w') \<Rightarrow>
        (\<exists>done todo. items = done @ todo \<and> installed = map fst done \<and> install_inv F0 T S B done todo w'
          \<and> (case r of
               Inr _ \<Rightarrow> todo = [] \<and> at_most_one_fault w' \<and> (calm w \<longrightarrow> calm w')
             | Inl e \<Rightarrow> calm w' \<and> \<not> calm w)))"

lemma install_invD:
  assumes "install_inv F0 T S B done todo w"
  shows "txn_inv F0 T S B (fst ` set done) w"
    "\<And>f t. (f, t) \<in> set done \<Longrightarrow> files w f = F0 t"
    "\<And>f t. (f, t) \<in> set todo \<Longrightarrow> files w t = F0 t \<and> F0 t \<noteq> None"
    "\<And>p. p \<in> fst ` set B \<Longrightarrow> p \<notin> fst ` set done \<Longrightarrow> files w p = None"
proof -
  note c1 = assms [unfolded install_inv_def]
  note c2 = c1 [THEN conjunct2] note c3 = c2 [THEN conjunct2]
  show "txn_inv F0 T S B (fst ` set done) w"
    by (rule c1 [THEN conjunct1])
  show "files w f = F0 t" if "(f, t) \<in> set done" for f t
    by (rule c2 [THEN conjunct1, rule_format, OF that])
  show "files w t = F0 t \<and> F0 t \<noteq> None" if "(f, t) \<in> set todo" for f t
    by (rule c3 [THEN conjunct1, rule_format, OF that])
  show "files w p = None" if "p \<in> fst ` set B" "p \<notin> fst ` set done" for p
    by (rule c3 [THEN conjunct2, rule_format, OF that])
qed

lemma install_invI:
  assumes "txn_inv F0 T S B (fst ` set done) w"
    "\<And>f t. (f, t) \<in> set done \<Longrightarrow> files w f = F0 t"
    "\<And>f t. (f, t) \<in> set todo \<Longrightarrow> files w t = F0 t \<and> F0 t \<noteq> None"
    "\<And>p. p \<in> fst ` set B \<Longrightarrow> p \<notin> fst ` set done \<Longrightarrow> files w p = None"
  shows "install_inv F0 T S B done todo w"
  unfolding install_inv_def
proof (intro conjI [OF assms(1)] conjI allI impI ballI)
  fix f t
  assume "(f, t) \<in> set todo"
  from assms(3) [OF this] show "files w t = F0 t" "F0 t \<noteq> None" by simp_all
qed (rule assms(2) assms(4), assumption+)+

lemma install_inv_files: "files w' = files w \<Longrightarrow> install_inv F0 T S B d u w \<Longrightarrow> install_inv F0 T S B d u w'"
  by (simp add: install_inv_def txn_inv_def)

lemma install_inv_step:
  assumes inv: "install_inv F0 T S B done ((f, t) # todo) w"
    and w': "files w' = (files w)(t := None, f := F0 t)"
    and f: "f \<in> T" "f \<notin> fst ` set done" "F0 f \<noteq> None \<longrightarrow> f \<in> fst ` set B"
    and t: "t \<in> S" "t \<notin> snd ` set todo" "snd ` set todo \<subseteq> S" and ST: "S \<inter> T = {}"
    and doneT: "fst ` set done \<subseteq> T"
  shows "install_inv F0 T S B (done @ [(f, t)]) todo w'"
proof -
  have txn: "txn_inv F0 T S B (fst ` set done) w"
    using inv unfolding install_inv_def by (rule conjunct1)
  have ft: "f \<noteq> t" using f(1) t(1) ST by blast
  have backups: "b \<noteq> f \<and> b \<noteq> t" if "(u, b) \<in> set B" for u b
    using txn_invD(6) [OF txn that] f(1) t(1) by metis
  have "txn_inv F0 T S B (fst ` set (done @ [(f, t)])) w'"
  proof (rule txn_invI)
    show "finite (dom (files w'))"
      using txn_invD(1) [OF txn] by (cases "F0 t") (simp_all add: w')
    show "files w' b = F0 u \<and> F0 u \<noteq> None \<and> b \<notin> T \<and> b \<notin> S \<and> b \<notin> dom F0" if "(u, b) \<in> set B" for u b
      using txn_invD(6) [OF txn that] backups [OF that] by (simp add: w')
    show "F0 p = None" if "p \<in> fst ` set (done @ [(f, t)])" "p \<notin> fst ` set B" for p
      using txn_invD(7) [OF txn, of p] that f(3) by auto
    show "files w' p = F0 p"
      if "p \<in> dom F0 \<union> T" "p \<notin> S" "p \<notin> fst ` set B" "p \<notin> fst ` set (done @ [(f, t)])" for p
    proof -
      have "p \<noteq> f" "p \<noteq> t" "p \<notin> fst ` set done"
        using that t(1) by auto
      then show ?thesis
        using txn_invD(8) [OF txn that(1-3)] by (simp add: w')
    qed
    show "fst ` set (done @ [(f, t)]) \<subseteq> T"
      using doneT f(1) by simp
  qed (use txn_invD(2-4) [OF txn] in blast)+
  moreover have "files w' g = F0 u" if "(g, u) \<in> set (done @ [(f, t)])" for g u
  proof (cases "(g, u) \<in> set done")
    case True
    then have "g \<noteq> f" "g \<noteq> t"
      using f(2) doneT t(1) ST by force+
    then show ?thesis
      using install_invD(2) [OF inv True] by (simp add: w')
  next
    case False
    then show ?thesis
      using that by (simp add: w')
  qed
  moreover have "files w' u = F0 u \<and> F0 u \<noteq> None" if "(g, u) \<in> set todo" for g u
  proof -
    have "u \<in> snd ` set todo"
      using that by force
    then have "u \<noteq> t" "u \<noteq> f"
      using t(2,3) f(1) ST by blast+
    then show ?thesis
      using install_invD(3) [OF inv, of g u] that by (simp add: w')
  qed
  moreover have "files w' p = None" if "p \<in> fst ` set B" "p \<notin> fst ` set (done @ [(f, t)])" for p
  proof -
    have "p \<noteq> f" "p \<noteq> t" "p \<notin> fst ` set done"
      using that txn_invD(4) [OF txn] t(1) ST by auto
    then show ?thesis
      using install_invD(4) [OF inv that(1)] by (simp add: w')
  qed
  ultimately show ?thesis
    by (rule install_invI)
qed

lemma install_loop_post:
  assumes "at_most_one_fault w" and "install_inv F0 T S B done todo w" and "S \<inter> T = {}"
    and "fst ` set (done @ todo) \<subseteq> T" and "snd ` set todo \<subseteq> S"
    and "distinct (map fst (done @ todo))" and "distinct (map snd todo)"
    and covered: "\<forall>p\<in>T. F0 p \<noteq> None \<longrightarrow> p \<in> fst ` set B"
  shows "install_post F0 T S B (done @ todo) w (install_loop todo (map fst done) w)"
  using assms(1-7)
proof (induction todo arbitrary: "done" w)
  case Nil
  then show ?case
    by (auto simp: install_post_def)
next
  case (Cons item todo)
  obtain f t where item: "item = (f, t)" by force
  note inv = Cons.prems(2) [unfolded item]
  have ft: "f \<in> T" "f \<notin> fst ` set done" "t \<in> S" "t \<notin> snd ` set todo" "snd ` set todo \<subseteq> S" "fst ` set done \<subseteq> T"
    using Cons.prems by (auto simp: item)
  show ?case
  proof (rule mkdir_cases [OF Cons.prems(1)])
    fix e w1
    assume w1: "mkdir_parent w = (Inl e, w1)" "files w1 = files w" "calm w1" "\<not> calm w"
    then show ?thesis
      using install_inv_files [OF w1(2) Cons.prems(2)]
      by (auto simp: item install_post_def)
  next
    fix w1
    assume w1: "mkdir_parent w = (Inr (), w1)" "files w1 = files w" "at_most_one_fault w1" "calm w \<Longrightarrow> calm w1"
    have inv1: "install_inv F0 T S B done ((f, t) # todo) w1"
      by (rule install_inv_files [OF w1(2) inv])
    obtain c where c: "files w1 t = Some c" "F0 t = Some c"
      using install_invD(3) [OF inv1, of f t] by auto
    show ?thesis
    proof (rule replace_cases [OF w1(3) c(1), of f])
      fix e w2
      assume w2: "replace_path t f w1 = (Inl e, w2)" "files w2 = files w1" "calm w2" "\<not> calm w1"
      have "install_inv F0 T S B done (item # todo) w2"
        unfolding item by (rule install_inv_files [OF w2(2) inv1])
      then show ?thesis
        using w1 w2 by (auto simp: item install_post_def)
    next
      fix w2
      assume w2: "replace_path t f w1 = (Inr (), w2)" "files w2 = (files w1)(t := None, f \<mapsto> c)"
        "at_most_one_fault w2" "calm w1 \<Longrightarrow> calm w2"
      have f2: "files w2 = (files w1)(t := None, f := F0 t)"
        using w2(2) c(2) by simp
      have inv2: "install_inv F0 T S B (done @ [(f, t)]) todo w2"
        using install_inv_step [OF inv1 f2 ft(1,2) _ ft(3-5) Cons.prems(3) ft(6)] covered ft(1) by blast
      have "install_post F0 T S B ((done @ [(f, t)]) @ todo) w2 (install_loop todo (map fst (done @ [(f, t)])) w2)"
        by (rule Cons.IH [OF w2(3) inv2 Cons.prems(3)]) (use Cons.prems(4-7) in \<open>auto simp: item\<close>)
      then have post: "install_post F0 T S B (done @ item # todo) w2 (install_loop (item # todo) (map fst done) w)"
        by (simp add: item w1(1) w2(1))
      show ?thesis
      proof -
        obtain r inst w' where res: "install_loop (item # todo) (map fst done) w = (r, inst, w')"
          by (cases "install_loop (item # todo) (map fst done) w") auto
        show ?thesis
          using post w1(4) w2(4) unfolding res install_post_def prod.case by (cases r) auto
      qed
    qed
  qed
qed

section \<open>The whole call\<close>

lemma unlink_all_frame: "p \<notin> set ps \<Longrightarrow> files (snd (unlink_all ps w)) p = files w p"
proof (induction ps arbitrary: w)
  case Nil
  then show ?case by simp
next
  case (Cons q ps)
  obtain bad w1 where w1: "fault w = (bad, w1)" by force
  have "files w1 = files w"
    using w1 by (auto simp: fault_def split: list.splits)
  then show ?case
    using Cons w1 by (cases bad) (simp_all add: unlink_missing_ok_def)
qed

lemma restore_files_nothing_left:
  assumes calm: "calm w" and inv: "txn_inv F0 T S B I w0" and gone: "\<forall>b\<in>snd ` set B. files w b = None"
  shows "\<exists>w'. restore_files [] B w = (Inr (), w') \<and> calm w' \<and> files w' = files w"
proof -
  let ?bs = "sort_key fst B"
  have d: "distinct (map fst ?bs)" "distinct (map snd ?bs)" "fst ` set ?bs \<inter> snd ` set ?bs = {}"
    using txn_invD(2,3) [OF inv] txn_inv_backup_disjoint [OF inv]
      mset_eq_imp_distinct_iff [of "map fst ?bs" "map fst B"] mset_eq_imp_distinct_iff [of "map snd ?bs" "map snd B"]
    by simp_all
  obtain w' where w': "restore_backups ?bs w = (Inr (), w')" "calm w'"
    "\<forall>t b. (t, b) \<in> set B \<longrightarrow> files w' t = (if files w b = None then files w t else files w b) \<and> files w' b = None"
    "\<forall>p. p \<notin> fst ` set B \<longrightarrow> p \<notin> snd ` set B \<longrightarrow> files w' p = files w p"
    using restore_backups_calm [OF calm d] unfolding set_sort by blast
  have "files w' p = files w p" for p
  proof (cases "p \<in> fst ` set B \<or> p \<in> snd ` set B")
    case True
    then obtain t b where tb: "(t, b) \<in> set B" "p = t \<or> p = b" by force
    then have "files w b = None"
      using gone by force
    with w'(3) tb show ?thesis by auto
  next
    case False
    with w'(4) show ?thesis by blast
  qed
  then show ?thesis
    using w'(1,2) by (auto simp: restore_files_def)
qed

text \<open>The preconditions of the call, and its two possible results.\<close>

definition staging_ok :: "(fpath \<rightharpoonup> 'c) \<Rightarrow> (fpath, fpath) dict \<Rightarrow> fpath list \<Rightarrow> bool" where
  "staging_ok F0 staged stale \<longleftrightarrow>
     finite (dom F0) \<and> distinct (map fst staged) \<and> distinct (map snd staged)
     \<and> list_all (\<lambda>(_, t). F0 t \<noteq> None) staged
     \<and> (fst ` set staged \<union> set stale) \<inter> snd ` set staged = {}"

definition all_installed :: "(fpath \<rightharpoonup> 'c) \<Rightarrow> (fpath, fpath) dict \<Rightarrow> fpath list \<Rightarrow> (fpath \<rightharpoonup> 'c) \<Rightarrow> bool" where
  "all_installed F0 staged stale F \<longleftrightarrow>
     list_all (\<lambda>(f, t). F f = F0 t) staged
     \<and> list_all (\<lambda>p. p \<in> fst ` set staged \<or> F p = None) stale
     \<and> (\<forall>p\<in>dom F0. p \<notin> fst ` set staged \<union> set stale \<union> snd ` set staged \<longrightarrow> F p = F0 p)"

definition all_rolled_back :: "(fpath \<rightharpoonup> 'c) \<Rightarrow> (fpath, fpath) dict \<Rightarrow> fpath list \<Rightarrow> (fpath \<rightharpoonup> 'c) \<Rightarrow> bool" where
  "all_rolled_back F0 staged stale F \<longleftrightarrow>
     (\<forall>p\<in>dom F0 \<union> fst ` set staged \<union> set stale. p \<notin> snd ` set staged \<longrightarrow> F p = F0 p)"

lemma rollback_finishes:
  assumes calm: "calm w2" and inv: "txn_inv F0 T S B I w0"
    and restored: "\<forall>p\<in>dom F0 \<union> T. p \<notin> S \<longrightarrow> files w2 p = F0 p"
    and S: "S = snd ` set staged" and T: "T = fst ` set staged \<union> set stale"
  shows "\<exists>w3. cleanup_transaction staged B w2 = (Inr (), w3) \<and> all_rolled_back F0 staged stale (files w3)"
proof -
  obtain w3 where w3: "cleanup_transaction staged B w2 = (Inr (), w3)"
    "files w3 = (\<lambda>p. if p \<in> set (map snd staged @ map snd B) then None else files w2 p)"
    using unlink_all_calm [OF calm, of "map snd staged @ map snd B"] unfolding cleanup_transaction_def by blast
  have "files w3 p = F0 p" if p: "p \<in> dom F0 \<union> T" "p \<notin> S" for p
  proof -
    have "p \<notin> snd ` set B"
    proof
      assume "p \<in> snd ` set B"
      then obtain t where "(t, p) \<in> set B" by force
      from txn_invD(6) [OF inv this] p(1) show False by blast
    qed
    then show ?thesis
      using p restored w3(2) S by simp
  qed
  then show ?thesis
    using w3(1) unfolding all_rolled_back_def S T by blast
qed

lemma installed_finishes:
  assumes inv: "install_inv F0 T S B items [] w" and items: "set items = set staged"
    and S: "S = snd ` set staged" and T: "T = fst ` set staged \<union> set stale" and ST: "S \<inter> T = {}"
    and covered: "\<forall>p\<in>T. F0 p \<noteq> None \<longrightarrow> p \<in> fst ` set B"
  shows "all_installed F0 staged stale (files (snd (cleanup_transaction staged B w)))"
proof -
  let ?F = "files (snd (cleanup_transaction staged B w))"
  note txn = install_invD(1) [OF inv, unfolded items]
  have kept: "?F p = files w p" if p: "p \<in> dom F0 \<union> T" "p \<notin> S" for p
  proof -
    have "p \<notin> snd ` set B"
    proof
      assume "p \<in> snd ` set B"
      then obtain t where "(t, p) \<in> set B" by force
      from txn_invD(6) [OF txn this] p(1) show False by blast
    qed
    then show ?thesis
      unfolding cleanup_transaction_def using p(2) S by (intro unlink_all_frame) simp
  qed
  have new: "?F f = F0 t" if "(f, t) \<in> set staged" for f t
  proof -
    have f: "f \<in> T" "f \<notin> S"
      using that T ST by force+
    then show ?thesis
      using kept [of f] install_invD(2) [OF inv, of f t] that items by simp
  qed
  have retired: "?F p = None" if p: "p \<in> set stale" "p \<notin> fst ` set staged" for p
  proof -
    have pT: "p \<in> T" "p \<notin> S" using p T ST by auto
    have "files w p = None"
    proof (cases "p \<in> fst ` set B")
      case True
      then show ?thesis
        using install_invD(4) [OF inv True] p(2) items by simp
    next
      case False
      then have "F0 p = None"
        using covered pT(1) by blast
      then show ?thesis
        using txn_invD(8) [OF txn _ pT(2) False] pT(1) p(2) by simp
    qed
    then show ?thesis
      using kept [of p] pT by simp
  qed
  have other: "?F p = F0 p" if p: "p \<in> dom F0" "p \<notin> T \<union> S" for p
  proof -
    have "p \<notin> fst ` set B" "p \<notin> fst ` set staged"
      using txn_invD(4) [OF txn] p(2) T by auto
    then show ?thesis
      using kept [of p] txn_invD(8) [OF txn, of p] p by simp
  qed
  show ?thesis
    unfolding all_installed_def list_all_iff
  proof (intro conjI ballI impI)
    show "case x of (f, t) \<Rightarrow> ?F f = F0 t" if "x \<in> set staged" for x
      using new that by (cases x) simp
    show "p \<in> fst ` set staged \<or> ?F p = None" if "p \<in> set stale" for p
      using retired [OF that] by (cases "p \<in> fst ` set staged") simp_all
    show "?F p = F0 p" if "p \<in> dom F0" "p \<notin> fst ` set staged \<union> set stale \<union> snd ` set staged" for p
      using that by (intro other) (simp_all add: S T)
  qed
qed

lemma txn_inv_initial:
  "finite (dom (files w)) \<Longrightarrow> txn_inv (files w) T S [] {} w \<and> staging_inv (files w) S [] w"
  by (simp add: txn_inv_def staging_inv_def)

lemma install_inv_initial:
  assumes "txn_inv F0 T S B {} w" "staging_inv F0 S B w" "snd ` set items \<subseteq> S" "\<forall>t\<in>S. F0 t \<noteq> None"
  shows "install_inv F0 T S B [] items w"
  by (rule install_invI) (use assms in \<open>force simp: staging_inv_def\<close>)+

section \<open>Properties\<close>

lemma failed_backups_rolled_back:
  assumes "txn_inv F0 T S B {} w1" "calm w1" "S \<inter> T = {}" "S = snd ` set staged" "T = fst ` set staged \<union> set stale"
  shows "\<exists>w2 w3 w4. restore_files [] B w1 = (Inr (), w2) \<and> restore_files [] B w2 = (Inr (), w3)
    \<and> cleanup_transaction staged B w3 = (Inr (), w4) \<and> all_rolled_back F0 staged stale (files w4)"
proof -
  obtain w2 where w2: "restore_files [] B w1 = (Inr (), w2)" "calm w2" "\<forall>b\<in>snd ` set B. files w2 b = None"
    "\<forall>p\<in>dom F0 \<union> T. p \<notin> S \<longrightarrow> files w2 p = F0 p"
    using txn_inv_restored [OF assms(1,2) _ assms(3), of "[]"] by auto
  obtain w3 where w3: "restore_files [] B w2 = (Inr (), w3)" "calm w3" "files w3 = files w2"
    using restore_files_nothing_left [OF w2(2) assms(1) w2(3)] by blast
  obtain w4 where "cleanup_transaction staged B w3 = (Inr (), w4)" "all_rolled_back F0 staged stale (files w4)"
    using rollback_finishes [OF w3(2) assms(1) _ assms(4,5)] w2(4) w3(3) by auto
  then show ?thesis using w2(1) w3(1) by blast
qed

lemma failed_install_rolled_back:
  assumes "install_inv F0 T S B don todo w2" "calm w2" "S \<inter> T = {}" "S = snd ` set staged" "T = fst ` set staged \<union> set stale"
  shows "\<exists>w3 w4. restore_files (map fst don) B w2 = (Inr (), w3)
    \<and> cleanup_transaction staged B w3 = (Inr (), w4) \<and> all_rolled_back F0 staged stale (files w4)"
proof -
  note inv = install_invD(1) [OF assms(1)]
  obtain w3 where w3: "restore_files (map fst don) B w2 = (Inr (), w3)" "calm w3"
    "\<forall>p\<in>dom F0 \<union> T. p \<notin> S \<longrightarrow> files w3 p = F0 p"
    using txn_inv_restored [OF inv assms(2) _ assms(3), of "map fst don"] by auto
  then show ?thesis using rollback_finishes [OF w3(2) inv w3(3) assms(4,5)] by blast
qed

text \<open>The installation phase ends with every item in place, or fails with the backups still valid.\<close>

lemma install_files_outcome:
  assumes "staging_ok F0 staged stale" "S = snd ` set staged" "T = fst ` set staged \<union> set stale"
    and "txn_inv F0 T S B {} w1" "staging_inv F0 S B w1" "at_most_one_fault w1" "\<forall>p\<in>T. F0 p \<noteq> None \<longrightarrow> p \<in> fst ` set B"
    and "install_files staged manifest_path w1 = (r2, installed, w2)"
  shows "\<exists>don todo. installed = map fst don \<and> install_inv F0 T S B don todo w2 \<and> set (don @ todo) = set staged
    \<and> (case r2 of Inr _ \<Rightarrow> todo = [] \<and> at_most_one_fault w2 \<and> (calm w1 \<longrightarrow> calm w2) | Inl e \<Rightarrow> calm w2 \<and> \<not> calm w1)"
proof -
  let ?items = "install_order staged manifest_path"
  have ST: "S \<inter> T = {}" and temps: "\<forall>t\<in>S. F0 t \<noteq> None"
    using assms(1-3) by (auto simp: staging_ok_def list_all_iff)
  have items: "set ?items = set staged" "mset ?items = mset staged"
    by (simp_all add: install_order_def)
  have dist: "distinct (map fst ?items)" "distinct (map snd ?items)"
    using assms(1) items(2) mset_eq_imp_distinct_iff [of "map fst ?items" "map fst staged"]
      mset_eq_imp_distinct_iff [of "map snd ?items" "map snd staged"]
    by (simp_all add: staging_ok_def)
  have inv: "install_inv F0 T S B [] ?items w1"
    by (rule install_inv_initial [OF assms(4,5) _ temps]) (simp add: items(1) assms(2))
  have "install_post F0 T S B ?items w1 (r2, installed, w2)"
    using install_loop_post [OF assms(6) inv ST _ _ _ _ assms(7)] dist items(1) assms(8)
    by (simp add: install_files_def assms(2,3))
  then obtain don todo where "?items = don @ todo" "installed = map fst don" "install_inv F0 T S B don todo w2"
    "case r2 of Inr _ \<Rightarrow> todo = [] \<and> at_most_one_fault w2 \<and> (calm w1 \<longrightarrow> calm w2) | Inl e \<Rightarrow> calm w2 \<and> \<not> calm w1"
    unfolding install_post_def by auto
  then show ?thesis using items(1) by (intro exI [of _ don] exI [of _ todo]) simp
qed

text \<open>
  C5. Installation is all or nothing: with at most one failing system call, the targets end up
  either all new or all as they were, the latter only if the call raises; and without failures
  it returns.
\<close>

theorem install_all_or_nothing:
  assumes one: "at_most_one_fault w" and ok: "staging_ok (files w) staged stale"
    and fresh: "fresh_names temp_name (fst ` set staged \<union> set stale \<union> snd ` set staged)"
  shows "case install_staged_files temp_name blank staged stale manifest_path w of (r, w') \<Rightarrow>
    (all_installed (files w) staged stale (files w') \<or> isl r \<and> all_rolled_back (files w) staged stale (files w'))
    \<and> (calm w \<longrightarrow> r = Inr ())"
proof -
  define S where "S = snd ` set staged"
  define T where "T = fst ` set staged \<union> set stale"
  define ts where "ts = sort (remdups (map fst staged @ stale))"
  let ?F0 = "files w"
  have ST: "S \<inter> T = {}" and fin: "finite (dom ?F0)"
    using ok by (auto simp: staging_ok_def S_def T_def list_all_iff)
  have set_ts: "set ts = T" "distinct ts" by (auto simp: ts_def T_def)
  have fresh': "fresh_names temp_name (T \<union> S)" using fresh by (simp add: T_def S_def)
  obtain r1 B w1 where loop: "backup_loop temp_name blank ts [] w = (r1, B, w1)" by (metis prod_cases3)
  have post: "backup_post ?F0 T S w ts [] (r1, B, w1)"
    using backup_loop_post [OF fresh' ST one, of ?F0 "[]" ts blank] txn_inv_initial [OF fin] set_ts
    unfolding loop by simp
  then have inv1: "txn_inv ?F0 T S B {} w1" and staging1: "staging_inv ?F0 S B w1"
    by (simp_all add: backup_post_def)
  show ?thesis
  proof (cases r1)
    case (Inl e)
    then have calm1: "calm w1" "\<not> calm w" using post by (simp_all add: backup_post_def)
    then show ?thesis
      using failed_backups_rolled_back [OF inv1 calm1(1) ST S_def T_def] Inl loop
      by (auto simp: install_staged_files_def run_transaction_def backup_targets_def ts_def [symmetric])
  next
    case (Inr u)
    then have one1: "at_most_one_fault w1" "calm w \<Longrightarrow> calm w1" and covered: "\<forall>p\<in>T. ?F0 p \<noteq> None \<longrightarrow> p \<in> fst ` set B"
      using post set_ts by (simp_all add: backup_post_def)
    obtain r2 installed w2 where inst: "install_files staged manifest_path w1 = (r2, installed, w2)" by (metis prod_cases3)
    obtain don todo where parts: "installed = map fst don" "install_inv ?F0 T S B don todo w2" "set (don @ todo) = set staged"
      and res: "case r2 of Inr _ \<Rightarrow> todo = [] \<and> at_most_one_fault w2 \<and> (calm w1 \<longrightarrow> calm w2) | Inl e \<Rightarrow> calm w2 \<and> \<not> calm w1"
      using install_files_outcome [OF ok S_def T_def inv1 staging1 one1(1) covered inst] by blast
    have run: "run_transaction temp_name blank staged ts manifest_path w = (r2, B, installed, w2)"
      using loop inst Inr by (simp add: run_transaction_def backup_targets_def)
    show ?thesis
    proof (cases r2)
      case (Inl e)
      then have calm2: "calm w2" "\<not> calm w" using res one1(2) by auto
      then show ?thesis
        using failed_install_rolled_back [OF parts(2) calm2(1) ST S_def T_def] parts(1) Inl run
        by (auto simp: install_staged_files_def ts_def [symmetric])
    next
      case (Inr v)
      then have todo: "todo = []" and calm2: "calm w \<Longrightarrow> calm w2" using res one1(2) by auto
      obtain r3 w3 where clean: "cleanup_transaction staged B w2 = (r3, w3)" by force
      have "all_installed ?F0 staged stale (files w3)"
        using installed_finishes [OF _ _ S_def T_def ST covered, of don w2] parts(2,3) todo clean by simp
      moreover have "calm w \<Longrightarrow> r3 = Inr ()"
        using unlink_all_calm [OF calm2, of "map snd staged @ map snd B"] clean by (auto simp: cleanup_transaction_def)
      ultimately show ?thesis
        using Inr run clean by (cases r3) (auto simp: install_staged_files_def ts_def [symmetric])
    qed
  qed
qed

definition example_world :: "bool list \<Rightarrow> nat world" where
  "example_world script = \<lparr>files = [''a'' \<mapsto> 10, ''b'' \<mapsto> 20, ''t'' \<mapsto> 30], faults = script\<rparr>"

text \<open>A name generator in the style of \<open>mkstemp\<close>: a name longer than all existing ones.\<close>

definition example_temp_name :: "(fpath \<rightharpoonup> nat) \<Rightarrow> fpath \<Rightarrow> fpath" where
  "example_temp_name f p = replicate (Suc (Suc (Max (insert 0 (length ` dom f))))) (CHR ''x'')"

lemma example_names_fresh: "fresh_names example_temp_name {''a'', ''b'', ''t''}"
proof -
  have "example_temp_name f p \<notin> dom f" if fin: "finite (dom f)" for f p
  proof
    assume "example_temp_name f p \<in> dom f"
    then have "length (example_temp_name f p) \<le> Max (insert 0 (length ` dom f))"
      using fin by (intro Max_ge) auto
    then show False
      by (simp add: example_temp_name_def)
  qed
  moreover have "example_temp_name f p \<notin> {''a'', ''b'', ''t''}" for f p
    by (simp add: example_temp_name_def)
  ultimately show ?thesis
    by (simp add: fresh_names_def)
qed

theorem install_all_or_nothing_witness:
  "case install_staged_files example_temp_name 0 [(''a'', ''t'')] [''b''] None (example_world [False, False, True]) of (r, w') \<Rightarrow>
    all_installed (files (example_world [])) [(''a'', ''t'')] [''b''] (files w')
    \<or> isl r \<and> all_rolled_back (files (example_world [])) [(''a'', ''t'')] [''b''] (files w')"
proof -
  let ?w = "example_world [False, False, True]"
  have h1: "at_most_one_fault ?w"
    by (simp add: at_most_one_fault_def example_world_def)
  have h2: "staging_ok (files ?w) [(''a'', ''t'')] [''b'']"
    by (simp add: staging_ok_def example_world_def)
  have h3: "fresh_names example_temp_name (fst ` set [(''a'', ''t'')] \<union> set [''b''] \<union> snd ` set [(''a'', ''t'')])"
    using example_names_fresh by (simp add: insert_commute)
  show ?thesis
    using install_all_or_nothing [OF h1 h2 h3, of 0 None] by (auto simp: example_world_def)
qed

text \<open>The files after the staged files of \<open>items\<close> have been moved into place.\<close>

definition moved :: "(fpath \<times> fpath) list \<Rightarrow> (fpath \<rightharpoonup> 'c) \<Rightarrow> fpath \<rightharpoonup> 'c" where
  "moved items f p =
     (if p \<in> snd ` set items then None else case map_of items p of Some t \<Rightarrow> f t | None \<Rightarrow> f p)"

lemma moved_Cons:
  assumes "distinct (map fst ((p, t) # items))" "distinct (map snd ((p, t) # items))"
    and "fst ` set ((p, t) # items) \<inter> snd ` set ((p, t) # items) = {}"
  shows "moved items (f(t := None, p := f t)) = moved ((p, t) # items) f"
proof
  fix q
  have "u \<noteq> t \<and> u \<noteq> p" if "map_of items q = Some u" for u
    using assms map_of_SomeD [OF that] by (auto intro: rev_image_eqI)
  moreover have "map_of items p = None" "map_of items t = None" using assms(1,3) by (auto simp: map_of_eq_None_iff)
  ultimately show "moved items (f(t := None, p := f t)) q = moved ((p, t) # items) f q"
    using assms(2,3) by (auto simp: moved_def split: option.split)
qed

text \<open>An installation moves a first part of the staged files, whether it finishes or is interrupted.\<close>

lemma install_loop_moves:
  "install_loop todo don w = (r, inst, w') \<Longrightarrow> distinct (map fst todo) \<Longrightarrow> distinct (map snd todo)
   \<Longrightarrow> fst ` set todo \<inter> snd ` set todo = {} \<Longrightarrow>
   \<exists>front rest. todo = front @ rest \<and> inst = don @ map fst front \<and> files w' = moved front (files w)"
proof (induction todo arbitrary: don w)
  case Nil
  then show ?case by (auto simp: moved_def fun_eq_iff)
next
  case (Cons item todo)
  obtain p t where item: "item = (p, t)" by force
  have stop: ?case if "inst = don" "files w' = files w"
    using that by (intro exI [of _ "[]"] exI [of _ "item # todo"]) (simp add: moved_def fun_eq_iff)
  obtain r1 w1 where dir: "mkdir_parent w = (r1, w1)" by force
  have w1: "files w1 = files w" using dir by (auto simp: mkdir_parent_def fault_def split: list.splits if_splits)
  obtain r2 w2 where move: "replace_path t p w1 = (r2, w2)" by force
  have w2: "files w2 = (case r2 of Inl _ \<Rightarrow> files w | Inr _ \<Rightarrow> (files w)(t := None, p := files w t))"
    using move w1 by (auto simp: replace_path_def fault_def split: list.splits if_splits option.splits)
  from Cons.prems(1) consider "inst = don" "files w' = files w"
    | "r2 = Inr ()" "install_loop todo (don @ [p]) w2 = (r, inst, w')"
    using w1 w2 by (auto simp: item dir move split: sum.splits)
  then show ?case
  proof cases
    case 1
    then show ?thesis by (rule stop)
  next
    case 2
    obtain front rest where f: "todo = front @ rest" "inst = (don @ [p]) @ map fst front" "files w' = moved front (files w2)"
      using Cons.IH [OF 2(2)] Cons.prems(2-4) by auto
    have "files w' = moved ((p, t) # front) (files w)"
      using Cons.prems(2-4) unfolding f(3) w2 2(1) sum.case by (intro moved_Cons) (auto simp: item f(1))
    then show ?thesis using f by (intro exI [of _ "(p, t) # front"] exI [of _ rest]) (simp add: item)
  qed
qed

lemma nothing_after_manifest:
  assumes "dict_wf staged" "map fst (install_order staged (Some manifest)) = front @ rest" "manifest \<in> set front"
  shows "rest = []"
proof (rule ccontr)
  let ?items = "install_order staged (Some manifest)"
  let ?key = "\<lambda>item. (Some manifest = Some (fst item), fst item)"
  let ?j = "length front"
  have dist: "distinct (map fst ?items)"
    using assms(1) mset_eq_imp_distinct_iff [of "map fst ?items" "map fst staged"]
    by (simp add: install_order_def dict_wf_def)
  assume "rest \<noteq> []"
  obtain i where i: "i < length front" "front ! i = manifest"
    using assms(3) by (auto simp: in_set_conv_nth)
  have j: "?j < length ?items" "i < ?j"
    using assms(2) \<open>rest \<noteq> []\<close> i by (metis length_append length_greater_0_conv length_map less_add_same_cancel1, simp)
  have fi: "fst (?items ! i) = manifest"
    using assms(2) i j by (metis length_map nth_append nth_map order.strict_trans)
  have "sorted (map ?key ?items)" by (simp add: install_order_def)
  then have "?key (?items ! i) \<le> ?key (?items ! ?j)"
    using j by (auto simp: sorted_iff_nth_mono)
  then have "fst (?items ! ?j) = manifest"
    using fi by (auto simp: less_eq_prod_def)
  then have "map fst ?items ! i = map fst ?items ! ?j"
    using fi j by simp
  with dist j show False
    by (metis length_map nat_neq_iff nth_eq_iff_index_eq order.strict_trans)
qed

text \<open>
  C22. The manifest is installed last. Whenever an installation, finished or interrupted by a failing
  call, has changed the manifest on disk or taken away its staged file, every staged file is in place:
  each final path holds what was staged for it, and no staged file is left.
\<close>

theorem manifest_installed_last:
  assumes "staging_ok (files w) staged stale" and "(manifest, source) \<in> set staged"
    and "install_files staged (Some manifest) w = (r, installed, w')"
    and "files w' manifest \<noteq> files w manifest \<or> files w' source \<noteq> files w source"
  shows "\<forall>(final, temporary)\<in>set staged. files w' final = files w temporary \<and> files w' temporary = None"
proof -
  let ?items = "install_order staged (Some manifest)"
  have items: "distinct (map fst ?items)" "distinct (map snd ?items)" "set ?items = set staged"
      "fst ` set ?items \<inter> snd ` set ?items = {}"
    using assms(1) mset_eq_imp_distinct_iff [of "map fst ?items" "map fst staged"]
      mset_eq_imp_distinct_iff [of "map snd ?items" "map snd staged"]
    by (auto simp: staging_ok_def dict_wf_def install_order_def list_all_iff)
  obtain front rest where f: "?items = front @ rest" "files w' = moved front (files w)"
    using install_loop_moves [OF assms(3) [unfolded install_files_def] items(1,2,4)] by blast
  have "manifest \<in> fst ` set front"
  proof (rule ccontr)
    assume n: "manifest \<notin> fst ` set front"
    have "(manifest, source) \<notin> set front" using n by (force)
    then have "(manifest, source) \<in> set rest" using assms(2) items(3) f(1) by (metis Un_iff set_append)
    then have "source \<in> snd ` set rest" "source \<in> snd ` set ?items" "manifest \<in> fst ` set ?items"
      unfolding f(1) by (auto intro: rev_image_eqI)
    moreover have "snd ` set front \<inter> snd ` set rest = {}" using items(2) unfolding f(1) by simp
    moreover have "fst ` set front \<subseteq> fst ` set ?items" "snd ` set front \<subseteq> snd ` set ?items" unfolding f(1) by auto
    ultimately have out: "source \<notin> snd ` set front" "source \<notin> fst ` set front" "manifest \<notin> snd ` set front"
      using items(4) by blast+
    have "map_of front manifest = None" "map_of front source = None"
      unfolding map_of_eq_None_iff using n out by simp_all
    with assms(4) out show False unfolding f(2) moved_def by simp
  qed
  then have "rest = []" using nothing_after_manifest [of staged manifest "map fst front" "map fst rest"] assms(1) f(1)
    by (auto simp: staging_ok_def dict_wf_def)
  then have front: "?items = front" using f(1) by simp
  show ?thesis
  proof (intro ballI, clarify)
    fix p t assume "(p, t) \<in> set staged"
    then have pt: "(p, t) \<in> set front" using items(3) front by simp
    then have "map_of front p = Some t" "p \<notin> snd ` set front"
      using items(1,4) imageI [OF pt, of fst] unfolding front by (auto intro: map_of_is_SomeI)
    then show "files w' p = files w t \<and> files w' t = None"
      using pt unfolding f(2) moved_def by (auto intro: rev_image_eqI)
  qed
qed

theorem manifest_installed_last_witness:
  "\<exists>r installed w'. install_files [(''m'', ''b''), (''a'', ''t'')] (Some ''m'') (example_world []) = (r, installed, w')
     \<and> files w' ''m'' = Some 20 \<and> files w' ''a'' = Some 30 \<and> files w' ''t'' = None"
proof -
  obtain r installed w' where run: "install_files [(''m'', ''b''), (''a'', ''t'')] (Some ''m'') (example_world []) = (r, installed, w')"
    by (metis prod_cases3)
  have ok: "staging_ok (files (example_world [])) [(''m'', ''b''), (''a'', ''t'')] []"
    by (simp add: staging_ok_def example_world_def dict_wf_def)
  have m: "files w' ''m'' \<noteq> files (example_world []) ''m''"
    using run by (auto simp: install_files_def install_order_def example_world_def mkdir_parent_def replace_path_def fault_def)
  have "\<forall>(final, temporary)\<in>set [(''m'', ''b''), (''a'', ''t'')].
      files w' final = files (example_world []) temporary \<and> files w' temporary = None"
    by (rule manifest_installed_last [OF ok _ run, where source = "''b''"]) (use m in simp_all)
  then show ?thesis
    using run by (intro exI [of _ r] exI [of _ installed] exI [of _ w']) (simp add: example_world_def)
qed

text \<open>
  C37. When the rollback itself fails, the cleanup that follows deletes the backups: a second
  failure during the restore can leave a target without any copy of its original content.
\<close>

theorem failed_rollback_loses_original:
  "\<exists>script. case install_staged_files example_temp_name 0 [(''a'', ''t'')] [] None (example_world script) of (r, w') \<Rightarrow>
     isl r \<and> files (example_world script) ''a'' = Some 10 \<and> Some 10 \<notin> range (files w')"
proof -
  define k where "k = example_temp_name [''a'' \<mapsto> 10, ''b'' \<mapsto> 20, ''t'' \<mapsto> 30] ''a''"
  have k: "k \<noteq> ''a''" "k \<noteq> ''b''" "k \<noteq> ''t''"
    by (simp_all add: k_def example_temp_name_def)
  have loop: "backup_loop example_temp_name 0 [''a''] [] (example_world [False, False, True, True]) =
      (Inr (), [(''a'', k)], \<lparr>files = [''b'' \<mapsto> 20, ''t'' \<mapsto> 30, k \<mapsto> 10], faults = [True, True]\<rparr>)"
    using k by (auto simp: backup_existing_def mkstemp_def replace_path_def fault_def example_world_def k_def [symmetric] fun_eq_iff)
  then have backup: "backup_targets example_temp_name 0 [''a''] (example_world [False, False, True, True]) =
      (Inr (), [(''a'', k)], \<lparr>files = [''b'' \<mapsto> 20, ''t'' \<mapsto> 30, k \<mapsto> 10], faults = [True, True]\<rparr>)"
    by (simp only: backup_targets_def prod.case sum.case)
  have "install_staged_files example_temp_name 0 [(''a'', ''t'')] [] None (example_world [False, False, True, True]) =
      (Inl (OSError ''mkdir''), \<lparr>files = [''b'' \<mapsto> 20], faults = []\<rparr>)"
    using k by (auto simp: install_staged_files_def run_transaction_def backup install_files_def
        install_order_def mkdir_parent_def restore_files_def cleanup_transaction_def unlink_missing_ok_def fault_def fun_eq_iff)
  then have "case install_staged_files example_temp_name 0 [(''a'', ''t'')] [] None (example_world [False, False, True, True]) of (r, w') \<Rightarrow>
      isl r \<and> files (example_world [False, False, True, True]) ''a'' = Some 10 \<and> Some 10 \<notin> range (files w')"
    by (auto simp: example_world_def)
  then show ?thesis ..
qed

end
