(* ===== verification/Text_Cleaning.thy ===== *)
theory Text_Cleaning
  imports Prelude
begin

text \<open>
  Text measures and cleaning (\<open>enrichment/text_cleaning.py\<close>): white space normalisation, template
  markers, word and token counts, and the visible text of rendered HTML.

  The HTML tokenizer belongs to Python's \<open>html.parser\<close>; the parser classes of the source only see
  its callbacks, so a document is the list of callbacks it triggers. Canonical composition (NFC)
  leaves every string over the code points below 256 as it is.
\<close>

section \<open>White space\<close>

text \<open>\<open>text.split()\<close>: the maximal runs of characters that are not white space.\<close>

function py_words :: "string \<Rightarrow> string list" where
  "py_words s =
     (let t = dropWhile py_isspace s in
      if t = [] then []
      else takeWhile (\<lambda>c. \<not> py_isspace c) t # py_words (dropWhile (\<lambda>c. \<not> py_isspace c) t))"
  by pat_completeness auto
termination
proof (relation "measure length")
  fix s t :: string
  assume t: "t = dropWhile py_isspace s" "t \<noteq> []"
  obtain c u where t_Cons: "t = c # u"
    using t(2) by (cases t) simp_all
  then have "\<not> py_isspace c"
    using t hd_dropWhile [of py_isspace s] by auto
  then have "length (dropWhile (\<lambda>c. \<not> py_isspace c) t) \<le> length u"
    by (simp add: t_Cons length_dropWhile_le)
  also have "\<dots> < length s"
    using length_dropWhile_le [of py_isspace s] unfolding t(1) [symmetric] t_Cons by simp
  finally show "(dropWhile (\<lambda>c. \<not> py_isspace c) t, s) \<in> measure length"
    by simp
qed simp

declare py_words.simps [simp del]

text \<open>\<open>re.sub(r"\s+", " ", text)\<close>: every maximal run of white space becomes one space.\<close>

fun collapse_spaces :: "bool \<Rightarrow> string \<Rightarrow> string" where
  "collapse_spaces in_run [] = []"
| "collapse_spaces in_run (c # s) =
     (if py_isspace c then (if in_run then collapse_spaces True s else CHR '' '' # collapse_spaces True s)
      else c # collapse_spaces False s)"

definition normalize_whitespace :: "string \<Rightarrow> string" where
  "normalize_whitespace text = py_strip (collapse_spaces False text)"

text \<open>
  \<open>re.sub(r"\{\{[^}]*\}\}", "", text)\<close>: at an opening pair of braces, the marker extends over
  the characters other than a closing brace, and needs a closing pair there.
\<close>

function strip_template_markers :: "string \<Rightarrow> string" where
  "strip_template_markers s =
     (case s of
        [] \<Rightarrow> []
      | c # s' \<Rightarrow>
          if take 2 s = ''{{'' \<and> take 2 (dropWhile (\<lambda>c. c \<noteq> CHR ''}'') (drop 2 s)) = ''}}''
          then strip_template_markers (drop 2 (dropWhile (\<lambda>c. c \<noteq> CHR ''}'') (drop 2 s)))
          else c # strip_template_markers s')"
  by pat_completeness auto
termination
proof (relation "measure length")
  fix s s' :: string and c
  assume s: "s = c # s'" and "take 2 s = ''{{'' \<and> take 2 (dropWhile (\<lambda>c. c \<noteq> CHR ''}'') (drop 2 s)) = ''}}''"
  have "length (drop 2 (dropWhile (\<lambda>c. c \<noteq> CHR ''}'') (drop 2 s))) \<le> length (drop 2 s)"
    using length_dropWhile_le [of "\<lambda>c. c \<noteq> CHR ''}''" "drop 2 s"] by simp
  also have "\<dots> < length s"
    using s by simp
  finally show "(drop 2 (dropWhile (\<lambda>c. c \<noteq> CHR ''}'') (drop 2 s)), s) \<in> measure length"
    by simp
qed simp_all

declare strip_template_markers.simps [simp del]

definition clean_article_text :: "string \<Rightarrow> string" where
  "clean_article_text text = normalize_whitespace (strip_template_markers text)"

definition count_words :: "string \<Rightarrow> nat" where
  "count_words text = (if text = [] then 0 else length (py_words text))"

definition estimate_tokens :: "string \<Rightarrow> nat" where
  "estimate_tokens text = (if text = [] then 0 else max 1 (length text div 4))"

section \<open>Visible text of rendered HTML\<close>

datatype html_event =
    StartTag string
  | EndTag string
  | Data string

record text_parser =
  ignored_depth :: nat
  parts :: "string list"

definition RENDERED_IGNORED_TAGS :: "string list" where
  "RENDERED_IGNORED_TAGS = [''script'', ''style'']"

definition RENDERED_BLOCK_TAGS :: "string list" where
  "RENDERED_BLOCK_TAGS =
     [''article'', ''blockquote'', ''br'', ''caption'', ''dd'', ''div'', ''dl'', ''dt'',
      ''figcaption'', ''h1'', ''h2'', ''h3'', ''h4'', ''h5'', ''h6'', ''hr'', ''li'', ''ol'',
      ''p'', ''pre'', ''section'', ''table'', ''td'', ''th'', ''tr'', ''ul'']"

definition ignoring :: "text_parser \<Rightarrow> bool" where
  "ignoring st \<longleftrightarrow> 0 < ignored_depth st"

definition on_block_boundary :: "text_parser \<Rightarrow> text_parser" where
  "on_block_boundary st = st\<lparr>parts := parts st @ ['' '']\<rparr>"

definition on_text :: "string \<Rightarrow> text_parser \<Rightarrow> text_parser" where
  "on_text data st = st\<lparr>parts := parts st @ [data]\<rparr>"

definition handle_starttag :: "string \<Rightarrow> text_parser \<Rightarrow> text_parser" where
  "handle_starttag tag st =
     (if tag \<in> set RENDERED_IGNORED_TAGS then st\<lparr>ignored_depth := ignored_depth st + 1\<rparr>
      else if tag \<in> set RENDERED_BLOCK_TAGS \<and> \<not> ignoring st then on_block_boundary st
      else st)"

definition handle_endtag :: "string \<Rightarrow> text_parser \<Rightarrow> text_parser" where
  "handle_endtag tag st =
     (if tag \<in> set RENDERED_IGNORED_TAGS
      then if ignored_depth st \<noteq> 0 then st\<lparr>ignored_depth := ignored_depth st - 1\<rparr> else st
      else if tag \<in> set RENDERED_BLOCK_TAGS \<and> \<not> ignoring st then on_block_boundary st
      else st)"

definition handle_data :: "string \<Rightarrow> text_parser \<Rightarrow> text_parser" where
  "handle_data data st = (if \<not> ignoring st then on_text data st else st)"

primrec handle_event :: "html_event \<Rightarrow> text_parser \<Rightarrow> text_parser" where
  "handle_event (StartTag tag) st = handle_starttag tag st"
| "handle_event (EndTag tag) st = handle_endtag tag st"
| "handle_event (Data data) st = handle_data data st"

definition html_to_plain_text :: "html_event list \<Rightarrow> string" where
  "html_to_plain_text events =
     clean_article_text (concat (parts (fold handle_event events \<lparr>ignored_depth = 0, parts = []\<rparr>)))"

section \<open>Normalised text\<close>

definition py_rstrip :: "string \<Rightarrow> string" where
  "py_rstrip s = rev (dropWhile py_isspace (rev s))"

lemma py_strip_rstrip: "py_strip s = py_rstrip (dropWhile py_isspace s)"
  by (simp add: py_strip_def py_rstrip_def py_lstrip_def)

lemma space_isspace [simp]: "py_isspace CHR '' ''"
  by (simp add: py_isspace_def)

lemma collapse_True: "collapse_spaces True s = collapse_spaces False (dropWhile py_isspace s)"
  by (induction s) auto

lemma lstrip_collapse:
  "dropWhile py_isspace (collapse_spaces b s) = collapse_spaces False (dropWhile py_isspace s)"
  by (induction s arbitrary: b) auto

lemma collapse_word: "list_all (\<lambda>c. \<not> py_isspace c) w \<Longrightarrow> collapse_spaces False (w @ r) = w @ collapse_spaces False r"
  by (induction w) auto

lemma collapse_run:
  "r \<noteq> [] \<Longrightarrow> py_isspace (hd r) \<Longrightarrow>
    collapse_spaces False r = CHR '' '' # collapse_spaces False (dropWhile py_isspace r)"
  by (cases r) (auto simp: collapse_True)

lemma rstrip_append:
  "py_rstrip (xs @ ys) = (if list_all py_isspace ys then py_rstrip xs else xs @ py_rstrip ys)"
  by (auto simp: py_rstrip_def list_all_iff dropWhile_append)

lemma rstrip_word: "list_all (\<lambda>c. \<not> py_isspace c) w \<Longrightarrow> py_rstrip w = w"
  by (cases w rule: rev_cases) (auto simp: py_rstrip_def)

lemma rstrip_collapse_words: "py_rstrip (collapse_spaces False (dropWhile py_isspace s)) = py_join '' '' (py_words s)"
proof (induction s rule: py_words.induct)
  case (1 s)
  define t where "t = dropWhile py_isspace s"
  define w where "w = takeWhile (\<lambda>c. \<not> py_isspace c) t"
  define r where "r = dropWhile (\<lambda>c. \<not> py_isspace c) t"
  have words: "py_words s = (if t = [] then [] else w # py_words r)"
    by (simp add: py_words.simps [of s] t_def w_def r_def Let_def)
  have t: "t = w @ r" and w_ok: "list_all (\<lambda>c. \<not> py_isspace c) w"
    by (auto simp: w_def r_def list_all_iff dest: set_takeWhileD)
  show ?case
  proof (cases "t = []")
    case True
    then show ?thesis
      by (simp add: words flip: t_def) (simp add: py_rstrip_def)
  next
    case False
    then have IH: "py_rstrip (collapse_spaces False (dropWhile py_isspace r)) = py_join '' '' (py_words r)"
      using "1.IH" unfolding t_def r_def by simp
    have collapse: "collapse_spaces False t = w @ collapse_spaces False r"
      unfolding t using w_ok by (rule collapse_word)
    show ?thesis
    proof (cases "r = []")
      case True
      then show ?thesis
        using False collapse w_ok by (simp add: words rstrip_word py_words.simps [of "[]"] flip: t_def)
    next
      case rne: False
      define u where "u = dropWhile py_isspace r"
      have "py_isspace (hd r)"
        using rne unfolding r_def by (metis hd_dropWhile)
      then have run: "collapse_spaces False r = CHR '' '' # collapse_spaces False u"
        using rne collapse_run unfolding u_def by blast
      show ?thesis
      proof (cases "u = []")
        case True
        then have "py_words r = []"
          by (simp add: py_words.simps [of r] u_def Let_def)
        then show ?thesis
          using False collapse run True w_ok
          by (simp add: words rstrip_append rstrip_word flip: t_def)
      next
        case une: False
        then obtain c v where u: "u = c # v" and c: "\<not> py_isspace c"
          unfolding u_def by (metis hd_dropWhile list.sel(1) neq_Nil_conv)
        have nonempty: "py_words r \<noteq> []"
          using une by (simp add: py_words.simps [of r] u_def Let_def)
        have "py_rstrip (w @ CHR '' '' # collapse_spaces False u) = w @ CHR '' '' # py_rstrip (collapse_spaces False u)"
          using c rstrip_append [of "w @ '' ''" "collapse_spaces False u"] by (simp add: u)
        then have "py_rstrip (collapse_spaces False t) = w @ CHR '' '' # py_join '' '' (py_words r)"
          unfolding collapse run IH [folded u_def] .
        also have "\<dots> = py_join '' '' (w # py_words r)"
          using nonempty by (cases "py_words r") simp_all
        finally show ?thesis
          unfolding words t_def [symmetric] if_not_P [OF False] .
      qed
    qed
  qed
qed

lemma normalize_whitespace_words: "normalize_whitespace t = py_join '' '' (py_words t)"
  by (simp add: normalize_whitespace_def py_strip_rstrip lstrip_collapse rstrip_collapse_words)

lemma py_words_append:
  assumes "list_all (\<lambda>c. \<not> py_isspace c) w" and "w \<noteq> []" and "r = [] \<or> py_isspace (hd r)"
  shows "py_words (w @ r) = w # py_words r"
proof -
  have drop: "dropWhile py_isspace (w @ r) = w @ r"
    using assms(1,2) by (cases w) auto
  have r: "takeWhile (\<lambda>c. \<not> py_isspace c) r = []" "dropWhile (\<lambda>c. \<not> py_isspace c) r = r"
    using assms(3) by (cases r; simp)+
  have "takeWhile (\<lambda>c. \<not> py_isspace c) (w @ r) = w" "dropWhile (\<lambda>c. \<not> py_isspace c) (w @ r) = r"
    using assms(1) r by (simp_all add: takeWhile_append dropWhile_append list_all_iff)
  then show ?thesis
    using assms(2) by (simp add: py_words.simps [of "w @ r"] drop Let_def)
qed

lemma py_words_space: "py_isspace c \<Longrightarrow> py_words (c # s) = py_words s"
  by (simp add: py_words.simps [of "c # s"] py_words.simps [of s])

lemma py_words_elem: "w \<in> set (py_words s) \<Longrightarrow> w \<noteq> [] \<and> list_all (\<lambda>c. \<not> py_isspace c) w"
proof (induction s rule: py_words.induct)
  case (1 s)
  let ?t = "dropWhile py_isspace s"
  show ?case
  proof (cases "?t = []")
    case True
    then show ?thesis
      using "1.prems" by (simp add: py_words.simps [of s])
  next
    case False
    then have "\<not> py_isspace (hd ?t)"
      by (rule hd_dropWhile)
    then have "takeWhile (\<lambda>c. \<not> py_isspace c) ?t \<noteq> []"
      using False by (cases ?t) simp_all
    moreover have "w = takeWhile (\<lambda>c. \<not> py_isspace c) ?t
        \<or> w \<in> set (py_words (dropWhile (\<lambda>c. \<not> py_isspace c) ?t))"
      using "1.prems" False by (auto simp: py_words.simps [of s] Let_def split: if_splits)
    moreover have "list_all (\<lambda>c. \<not> py_isspace c) (takeWhile (\<lambda>c. \<not> py_isspace c) ?t)"
      by (auto simp: list_all_iff dest: set_takeWhileD)
    ultimately show ?thesis
      using "1.IH" [OF refl False] by metis
  qed
qed

lemma py_words_join:
  "\<forall>w\<in>set ws. w \<noteq> [] \<and> list_all (\<lambda>c. \<not> py_isspace c) w \<Longrightarrow> py_words (py_join '' '' ws) = ws"
proof (induction ws rule: induct_list012)
  case 1
  then show ?case by (simp add: py_words.simps)
next
  case (2 w)
  then show ?case
    using py_words_append [of w "[]"] by (simp add: py_words.simps [of "[]"])
next
  case (3 w v ws)
  then have "py_words (w @ CHR '' '' # py_join '' '' (v # ws)) = w # py_words (CHR '' '' # py_join '' '' (v # ws))"
    by (intro py_words_append) simp_all
  then show ?case
    using 3 by (simp add: py_words_space)
qed

text \<open>
  Normalising white space is splitting the text into words and joining them with single
  spaces: the words and their number are kept, and normalising again changes nothing.
\<close>

theorem normalize_whitespace_canonical:
  "normalize_whitespace t = py_join '' '' (py_words t)
   \<and> py_words (normalize_whitespace t) = py_words t
   \<and> normalize_whitespace (normalize_whitespace t) = normalize_whitespace t
   \<and> count_words (normalize_whitespace t) = count_words t"
proof -
  have words: "py_words (py_join '' '' (py_words t)) = py_words t"
    using py_words_elem by (intro py_words_join) blast
  then have "length (py_words (normalize_whitespace t)) = length (py_words t)"
    by (simp add: normalize_whitespace_words)
  moreover have "py_words [] = []"
    by (simp add: py_words.simps)
  ultimately have "count_words (normalize_whitespace t) = count_words t"
    by (auto simp: count_words_def)
  then show ?thesis
    using words by (simp add: normalize_whitespace_words)
qed

text \<open>Every word takes a character of its own, and every four characters make a token.\<close>

lemma length_py_words: "length (py_words s) \<le> length s"
proof (induction s rule: py_words.induct)
  case (1 s)
  let ?t = "dropWhile py_isspace s"
  show ?case
  proof (cases "?t = []")
    case False
    then have "\<not> py_isspace (hd ?t)"
      by (rule hd_dropWhile)
    then have "length (dropWhile (\<lambda>c. \<not> py_isspace c) ?t) < length ?t"
      using False length_dropWhile_le [of "\<lambda>c. \<not> py_isspace c" "tl ?t"] by (cases ?t) simp_all
    then show ?thesis
      using "1.IH" [OF refl False] False length_dropWhile_le [of py_isspace s]
      by (simp add: py_words.simps [of s] Let_def)
  qed (simp add: py_words.simps [of s])
qed

lemma text_measure_bounds:
  "count_words t \<le> length t"
  "4 * estimate_tokens t \<le> max 4 (length t)"
  "estimate_tokens t = 0 \<longleftrightarrow> t = []"
  using length_py_words [of t] by (auto simp: count_words_def estimate_tokens_def)

section \<open>Ignored elements\<close>

text \<open>
  A fragment is balanced in the ignored elements when every start tag of one has its end tag
  (any ignored end tag closes any ignored start tag, as in the code).
\<close>

inductive balanced :: "html_event list \<Rightarrow> bool" where
  balanced_Nil: "balanced []"
| balanced_other: "(\<forall>tag\<in>set RENDERED_IGNORED_TAGS. e \<noteq> StartTag tag \<and> e \<noteq> EndTag tag) \<Longrightarrow>
     balanced es \<Longrightarrow> balanced (e # es)"
| balanced_element: "a \<in> set RENDERED_IGNORED_TAGS \<Longrightarrow> b \<in> set RENDERED_IGNORED_TAGS \<Longrightarrow>
     balanced inner \<Longrightarrow> balanced es \<Longrightarrow> balanced (StartTag a # inner @ EndTag b # es)"

lemma ignored_start [simp]:
  "a \<in> set RENDERED_IGNORED_TAGS \<Longrightarrow>
     handle_starttag a st = st\<lparr>ignored_depth := ignored_depth st + 1\<rparr>"
  by (simp add: handle_starttag_def)

lemma ignored_end [simp]:
  "b \<in> set RENDERED_IGNORED_TAGS \<Longrightarrow> ignored_depth st \<noteq> 0 \<Longrightarrow>
     handle_endtag b st = st\<lparr>ignored_depth := ignored_depth st - 1\<rparr>"
  by (simp add: handle_endtag_def)

lemma ignored_other:
  "\<forall>tag\<in>set RENDERED_IGNORED_TAGS. e \<noteq> StartTag tag \<and> e \<noteq> EndTag tag \<Longrightarrow> ignoring st \<Longrightarrow>
     handle_event e st = st"
  by (cases e) (auto simp: handle_starttag_def handle_endtag_def handle_data_def)

lemma balanced_ignored: "balanced es \<Longrightarrow> ignoring st \<Longrightarrow> fold handle_event es st = st"
proof (induction arbitrary: st rule: balanced.induct)
  case (balanced_other e es)
  then show ?case
    by (simp add: ignored_other)
next
  case (balanced_element a b inner es)
  let ?in = "st\<lparr>ignored_depth := ignored_depth st + 1\<rparr>"
  have "fold handle_event inner ?in = ?in"
    by (rule balanced_element.IH) (simp add: ignoring_def)
  then show ?case
    using balanced_element by (simp add: ignoring_def)
qed simp

lemma ignored_element_invisible:
  assumes "a \<in> set RENDERED_IGNORED_TAGS" and "b \<in> set RENDERED_IGNORED_TAGS" and "balanced inner"
  shows "fold handle_event (StartTag a # inner @ [EndTag b]) st = st"
  using assms by (simp add: balanced_ignored ignoring_def)

text \<open>
  Scripts and style sheets leave no trace: removing an ignored element with everything inside
  it, nested ignored elements included, does not change the extracted text.
\<close>

theorem html_ignored_elements_invisible:
  assumes "a \<in> set RENDERED_IGNORED_TAGS" and "b \<in> set RENDERED_IGNORED_TAGS" and "balanced inner"
  shows "html_to_plain_text (before @ StartTag a # inner @ EndTag b # after) =
    html_to_plain_text (before @ after)"
  using ignored_element_invisible [OF assms] by (simp add: html_to_plain_text_def)

theorem html_ignored_elements_invisible_witness:
  "balanced [StartTag ''script'', Data ''x'', EndTag ''script'', Data ''var y'']
   \<and> html_to_plain_text [Data ''Hello'', StartTag ''script'', StartTag ''script'', Data ''x'',
        EndTag ''script'', Data ''var y'', EndTag ''script'', Data '' world'']
     = html_to_plain_text [Data ''Hello'', Data '' world'']"
proof -
  have tag: "''script'' \<in> set RENDERED_IGNORED_TAGS"
    by (simp add: RENDERED_IGNORED_TAGS_def)
  have "balanced (StartTag ''script'' # [Data ''x''] @ EndTag ''script'' # [Data ''var y''])"
    by (intro balanced_element tag balanced_other balanced_Nil) simp_all
  then have bal: "balanced [StartTag ''script'', Data ''x'', EndTag ''script'', Data ''var y'']"
    by simp
  show ?thesis
    using bal html_ignored_elements_invisible [OF tag tag bal, of "[Data ''Hello'']" "[Data '' world'']"]
    by simp
qed

end
