(* ===== verification/Sentence_Split.thy ===== *)
theory Sentence_Split
  imports Hashing Text_Cleaning
begin

text \<open>
  Sentence rows of section texts (\<open>v2/sentence_logic.py\<close>) and the adapter around the segmentation
  model (\<open>v2/sat.py\<close>). A section and a sentence row are dictionaries of table cells. The
  segmenter is the source's protocol: a record whose \<open>split\<close> may raise and whose pieces may be
  any values. The model of the \<open>wtpsplit\<close> package is a parameter of the adapter.
\<close>

section \<open>Columns and rows\<close>

type_synonym srow = "(string, cell) dict"

definition SAT_MODEL_NAME :: string where
  "SAT_MODEL_NAME = ''sat-3l-sm''"

definition SAT_MODEL_ID :: string where
  "SAT_MODEL_ID = ''segment-any-text/sat-3l-sm''"

definition SAT_SUPPORTED_LANGUAGES :: "string list" where
  "SAT_SUPPORTED_LANGUAGES =
     [''af'', ''am'', ''ar'', ''az'', ''be'', ''bg'', ''bn'', ''ca'', ''ceb'', ''cs'',
      ''cy'', ''da'', ''de'', ''el'', ''en'', ''eo'', ''es'', ''et'', ''eu'', ''fa'',
      ''fi'', ''fr'', ''fy'', ''ga'', ''gd'', ''gl'', ''gu'', ''ha'', ''he'', ''hi'',
      ''hu'', ''hy'', ''id'', ''ig'', ''is'', ''it'', ''ja'', ''jv'', ''ka'', ''kk'',
      ''km'', ''kn'', ''ko'', ''ku'', ''ky'', ''la'', ''lt'', ''lv'', ''mg'', ''mk'',
      ''ml'', ''mn'', ''mr'', ''ms'', ''mt'', ''my'', ''ne'', ''nl'', ''no'', ''pa'',
      ''pl'', ''ps'', ''pt'', ''ro'', ''ru'', ''si'', ''sk'', ''sl'', ''sq'', ''sr'',
      ''sv'', ''ta'', ''te'', ''tg'', ''th'', ''tr'', ''uk'', ''ur'', ''uz'', ''vi'',
      ''xh'', ''yi'', ''yo'', ''zh'', ''zu'']"

definition SENTENCE_COLUMNS :: "string list" where
  "SENTENCE_COLUMNS =
     [''sentence_id'', ''section_id'', ''document_id'', ''article_id'', ''wikidata'', ''project'',
      ''language'', ''site'', ''page_id'', ''revision_id'', ''section_index'', ''heading'',
      ''anchor'', ''level'', ''parent_section_id'', ''section_path'', ''sentence_index'',
      ''start_char'', ''end_char'', ''text'', ''text_length_chars'', ''text_length_words'',
      ''text_length_tokens_estimate'', ''content_hash'', ''source_content_hash'', ''segmenter'',
      ''segmenter_version'', ''model_id'', ''segmentation_status'', ''license'', ''attribution'']"

definition SECTION_CONTEXT_COLUMNS :: "string list" where
  "SECTION_CONTEXT_COLUMNS =
     [''section_id'', ''document_id'', ''article_id'', ''wikidata'', ''project'', ''language'',
      ''site'', ''page_id'', ''revision_id'', ''section_index'', ''heading'', ''anchor'', ''level'',
      ''parent_section_id'', ''section_path'', ''license'', ''attribution'']"

definition is_sat_supported_language :: "string \<Rightarrow> bool" where
  "is_sat_supported_language lang \<longleftrightarrow> lang \<in> set SAT_SUPPORTED_LANGUAGES"

text \<open>\<open>row.get(k)\<close>, and \<open>str(v or "")\<close>: null, zero and the empty string are falsy.\<close>

definition cell_get :: "srow \<Rightarrow> string \<Rightarrow> cell" where
  "cell_get row k = dict_get row k CNull"

definition cell_or_empty :: "cell \<Rightarrow> string" where
  "cell_or_empty c = (if c = CNull \<or> c = CInt 0 then [] else cell_str c)"

definition section_language :: "srow \<Rightarrow> string" where
  "section_language sec = cell_or_empty (cell_get sec ''language'')"

definition section_text :: "srow \<Rightarrow> string" where
  "section_text sec =
     (case cell_get sec ''text'' of CStr s \<Rightarrow> s | c \<Rightarrow> cell_or_empty c)"

record segmentation_stamp =
  stamp_segmenter :: string
  stamp_segmenter_version :: string
  stamp_model_id :: string
  stamp_status :: string

definition source_hash :: "srow \<Rightarrow> string" where
  "source_hash sec =
     (let stored = cell_get sec ''content_hash'' in
      if stored = CNull \<or> stored = CInt 0 \<or> stored = CStr [] then content_hash (section_text sec)
      else cell_str stored)"

definition sentence_id_of :: "srow \<Rightarrow> nat \<Rightarrow> nat \<Rightarrow> string" where
  "sentence_id_of sec start end_char =
     stable_id [CStr ''v2-sentence'', CStr (cell_or_empty (cell_get sec ''section_id'')),
       CStr (source_hash sec), CInt (int start), CInt (int end_char)]"

definition sentence_row ::
  "srow \<Rightarrow> nat \<Rightarrow> nat \<Rightarrow> nat \<Rightarrow> string \<Rightarrow> segmentation_stamp \<Rightarrow> srow" where
  "sentence_row sec sentence_index start end_char text stamp =
     fold (\<lambda>(k, v). AList.update k v)
       [(''sentence_id'', CStr (sentence_id_of sec start end_char)),
        (''sentence_index'', CInt (int sentence_index)),
        (''start_char'', CInt (int start)),
        (''end_char'', CInt (int end_char)),
        (''text'', CStr text),
        (''text_length_chars'', CInt (int (length text))),
        (''text_length_words'', CInt (int (count_words text))),
        (''text_length_tokens_estimate'', CInt (int (estimate_tokens text))),
        (''content_hash'', CStr (content_hash text)),
        (''source_content_hash'', CStr (source_hash sec)),
        (''segmenter'', CStr (stamp_segmenter stamp)),
        (''segmenter_version'', CStr (stamp_segmenter_version stamp)),
        (''model_id'', CStr (stamp_model_id stamp)),
        (''segmentation_status'', CStr (stamp_status stamp))]
       (map (\<lambda>column. (column, cell_get sec column)) SECTION_CONTEXT_COLUMNS)"

definition unsplit_row :: "srow \<Rightarrow> srow" where
  "unsplit_row sec =
     sentence_row sec 0 0 (length (section_text sec)) (section_text sec)
       \<lparr>stamp_segmenter = ''unsplit'', stamp_segmenter_version = [], stamp_model_id = [],
        stamp_status = ''unsupported_language''\<rparr>"

section \<open>Splitting one section\<close>

definition normalize_pieces :: "cell list \<Rightarrow> string list" where
  "normalize_pieces pieces = map cell_str pieces"

definition validate_reconstruction :: "string \<Rightarrow> string list \<Rightarrow> unit res" where
  "validate_reconstruction source pieces =
     guard (concat pieces = source)
       (ValueError ''Sentence segmentation does not reconstruct the source text'')"

definition validate_piece :: "string \<Rightarrow> unit res" where
  "validate_piece piece =
     guard (piece \<noteq> []) (ValueError ''Sentence segmenter returned an empty sentence'')"

fun piece_rows :: "srow \<Rightarrow> segmentation_stamp \<Rightarrow> nat \<Rightarrow> nat \<Rightarrow> string list \<Rightarrow> srow list res" where
  "piece_rows sec stamp sentence_index offset [] = Inr []"
| "piece_rows sec stamp sentence_index offset (piece # pieces) =
     res_bind (validate_piece piece) (\<lambda>_.
       let end_char = offset + length piece in
       res_bind (piece_rows sec stamp (sentence_index + 1) end_char pieces) (\<lambda>rows.
         Inr (sentence_row sec sentence_index offset end_char piece stamp # rows)))"

definition split_rows :: "srow \<Rightarrow> cell list \<Rightarrow> string \<Rightarrow> string \<Rightarrow> srow list res" where
  "split_rows sec pieces model_id segmenter_version =
     (let source = section_text sec; normalized = normalize_pieces pieces in
      res_bind (validate_reconstruction source normalized) (\<lambda>_.
        piece_rows sec
          \<lparr>stamp_segmenter = SAT_MODEL_NAME, stamp_segmenter_version = segmenter_version,
           stamp_model_id = model_id, stamp_status = ''split''\<rparr> 0 0 normalized))"

section \<open>Splitting a table of sections\<close>

record segmenter =
  seg_model_id :: string
  seg_version :: string
  supports_mixed_languages :: bool
  seg_split :: "string list \<Rightarrow> string \<Rightarrow> cell list list res"

record sentence_split_summary =
  sum_sections :: nat
  sum_split_sections :: nat
  sum_unsplit_sections :: nat
  sum_sentence_rows :: nat
  sum_supported_languages :: "string list"
  sum_unsupported_languages :: "string list"

record classification =
  rows_by_position :: "(nat, srow list) dict"
  supported_positions :: "(string, nat list) dict"
  unsupported_languages :: "string list"
  unsupported_count :: nat

definition classify_section :: "nat \<times> srow \<Rightarrow> classification \<Rightarrow> classification" where
  "classify_section ps c =
     (case ps of (position, sec) \<Rightarrow>
        let lang = section_language sec in
        if is_sat_supported_language lang
        then c\<lparr>supported_positions := AList.update lang
                  (dict_get (supported_positions c) lang [] @ [position]) (supported_positions c),
               rows_by_position := AList.update position [] (rows_by_position c)\<rparr>
        else c\<lparr>unsupported_languages := List.insert lang (unsupported_languages c),
               unsupported_count := unsupported_count c + 1,
               rows_by_position := AList.update position [unsplit_row sec] (rows_by_position c)\<rparr>)"

definition classify_sections :: "srow list \<Rightarrow> classification" where
  "classify_sections sections =
     fold classify_section (enumerate 0 sections)
       \<lparr>rows_by_position = [], supported_positions = [], unsupported_languages = [],
        unsupported_count = 0\<rparr>"

definition populate_batch ::
  "srow list \<Rightarrow> segmenter \<Rightarrow> string \<Rightarrow> nat list \<Rightarrow> (nat, srow list) dict \<Rightarrow> (nat, srow list) dict res" where
  "populate_batch sections seg lang positions rows =
     (let texts = map (\<lambda>position. section_text (sections ! position)) positions in
      res_bind (seg_split seg texts lang) (\<lambda>batches.
        res_bind (guard (length batches = length positions)
            (ValueError ''Sentence segmenter returned a wrong number of results'')) (\<lambda>_.
          res_fold (\<lambda>(position, pieces) rows.
              res_bind (split_rows (sections ! position) pieces (seg_model_id seg) (seg_version seg))
                (\<lambda>rs. Inr (AList.update position rs rows)))
            (zip positions batches) rows)))"

definition populate_positions ::
  "srow list \<Rightarrow> segmenter \<Rightarrow> nat \<Rightarrow> string \<Rightarrow> nat list \<Rightarrow> (nat, srow list) dict \<Rightarrow> (nat, srow list) dict res" where
  "populate_positions sections seg batch_size lang positions rows =
     res_fold (\<lambda>batch. populate_batch sections seg lang batch)
       (slices batch_size (filter (\<lambda>position. section_text (sections ! position) \<noteq> []) positions)) rows"

definition populate_supported_rows ::
  "srow list \<Rightarrow> segmenter \<Rightarrow> nat \<Rightarrow> (string, nat list) dict \<Rightarrow> (nat, srow list) dict \<Rightarrow> (nat, srow list) dict res" where
  "populate_supported_rows sections seg batch_size supported rows =
     (if supports_mixed_languages seg
      then populate_positions sections seg batch_size ''mixed'' (sort (concat (map snd supported))) rows
      else res_fold (\<lambda>lang. populate_positions sections seg batch_size lang (dict_get supported lang []))
             (sort (map fst supported)) rows)"

definition rows_in_input_order :: "(nat, srow list) dict \<Rightarrow> nat \<Rightarrow> srow list res" where
  "rows_in_input_order rows section_count =
     res_bind (res_map (dict_item rows) [0..<section_count]) (\<lambda>rss. Inr (concat rss))"

definition split_sections ::
  "segmenter \<Rightarrow> int \<Rightarrow> srow list \<Rightarrow> (srow list \<times> sentence_split_summary) res" where
  "split_sections seg batch_size sections =
     res_bind (guard (1 \<le> batch_size) (ValueError ''batch_size must be positive'')) (\<lambda>_.
       let c = classify_sections sections in
       res_bind (populate_supported_rows sections seg (nat batch_size) (supported_positions c) (rows_by_position c))
         (\<lambda>by_position.
           res_bind (rows_in_input_order by_position (length sections)) (\<lambda>rows.
             Inr (rows,
               \<lparr>sum_sections = length sections,
                sum_split_sections = sum_list (map (\<lambda>(_, positions). length positions) (supported_positions c)),
                sum_unsplit_sections = unsupported_count c,
                sum_sentence_rows = length rows,
                sum_supported_languages = sort (map fst (supported_positions c)),
                sum_unsupported_languages = sort (unsupported_languages c)\<rparr>))))"

section \<open>Fields of a sentence row\<close>

lemma map_of_fold_update:
  "map_of (fold (\<lambda>(k, v). AList.update k v) us d) k =
     (case map_of (rev us) k of None \<Rightarrow> map_of d k | Some v \<Rightarrow> Some v)"
  by (induction us arbitrary: d) (auto simp: map_add_def split: option.splits)

lemma fst_fold_update:
  "fst ` set (fold (\<lambda>(k, v). AList.update k v) us d) = fst ` set d \<union> fst ` set us"
  by (induction us arbitrary: d) (simp_all add: split_beta)

definition row_text :: "srow \<Rightarrow> string" where
  "row_text r = (case cell_get r ''text'' of CStr s \<Rightarrow> s | _ \<Rightarrow> [])"

lemma sentence_row_get:
  "cell_get (sentence_row sec i a b t st) ''sentence_id'' = CStr (sentence_id_of sec a b)"
  "cell_get (sentence_row sec i a b t st) ''sentence_index'' = CInt (int i)"
  "cell_get (sentence_row sec i a b t st) ''start_char'' = CInt (int a)"
  "cell_get (sentence_row sec i a b t st) ''end_char'' = CInt (int b)"
  "cell_get (sentence_row sec i a b t st) ''text'' = CStr t"
  "cell_get (sentence_row sec i a b t st) ''segmentation_status'' = CStr (stamp_status st)"
  by (simp_all add: sentence_row_def cell_get_def dict_get_def map_of_fold_update)

lemma row_text_sentence_row [simp]: "row_text (sentence_row sec i a b t st) = t"
  by (simp add: row_text_def sentence_row_get)

lemma context_not_updated:
  "list_all (\<lambda>c. c \<notin> {''sentence_id'', ''sentence_index'', ''start_char'', ''end_char'', ''text'',
     ''text_length_chars'', ''text_length_words'', ''text_length_tokens_estimate'', ''content_hash'',
     ''source_content_hash'', ''segmenter'', ''segmenter_version'', ''model_id'',
     ''segmentation_status''}) SECTION_CONTEXT_COLUMNS"
  by (simp add: SECTION_CONTEXT_COLUMNS_def)

lemma sentence_row_context:
  assumes "c \<in> set SECTION_CONTEXT_COLUMNS"
  shows "cell_get (sentence_row sec i a b t st) c = cell_get sec c"
proof -
  have "c \<notin> {''sentence_id'', ''sentence_index'', ''start_char'', ''end_char'', ''text'',
     ''text_length_chars'', ''text_length_words'', ''text_length_tokens_estimate'', ''content_hash'',
     ''source_content_hash'', ''segmenter'', ''segmenter_version'', ''model_id'',
     ''segmentation_status''}"
    using assms context_not_updated unfolding list_all_iff by blast
  moreover have "map_of (map (\<lambda>column. (column, cell_get sec column)) SECTION_CONTEXT_COLUMNS) c
      = Some (cell_get sec c)"
    using assms by (simp add: map_of_map_key)
  ultimately show ?thesis
    unfolding cell_get_def dict_get_def sentence_row_def map_of_fold_update by simp
qed

lemma sentence_row_columns: "fst ` set (sentence_row sec i a b t st) = set SENTENCE_COLUMNS"
  unfolding sentence_row_def fst_fold_update SENTENCE_COLUMNS_def SECTION_CONTEXT_COLUMNS_def
  by (simp add: image_image insert_commute)

section \<open>Tiling of one section\<close>

text \<open>The rows of a list of pieces, without the checks.\<close>

primrec tile_rows :: "srow \<Rightarrow> segmentation_stamp \<Rightarrow> nat \<Rightarrow> nat \<Rightarrow> string list \<Rightarrow> srow list" where
  "tile_rows sec stamp i offset [] = []"
| "tile_rows sec stamp i offset (p # ps) =
     sentence_row sec i offset (offset + length p) p stamp
       # tile_rows sec stamp (Suc i) (offset + length p) ps"

lemma piece_rows_tile:
  "piece_rows sec stamp i offset ps =
     (if [] \<notin> set ps then Inr (tile_rows sec stamp i offset ps)
      else Inl (ValueError ''Sentence segmenter returned an empty sentence''))"
  by (induction ps arbitrary: i offset) (auto simp: validate_piece_def guard_def Let_def)

lemma length_tile_rows [simp]: "length (tile_rows sec stamp i offset ps) = length ps"
  by (induction ps arbitrary: i offset) auto

lemma texts_tile_rows [simp]: "map row_text (tile_rows sec stamp i offset ps) = ps"
  by (induction ps arbitrary: i offset) auto

lemma nth_tile_rows:
  "k < length ps \<Longrightarrow> tile_rows sec stamp i offset ps ! k =
     sentence_row sec (i + k) (offset + length (concat (take k ps)))
       (offset + length (concat (take (Suc k) ps))) (ps ! k) stamp"
  by (induction ps arbitrary: i offset k) (auto simp: nth_Cons' take_Cons' add.assoc)

lemma concat_slice:
  "k < length ps \<Longrightarrow> ps ! k = drop (length (concat (take k ps))) (take (length (concat (take (Suc k) ps))) (concat ps))"
proof -
  assume k: "k < length ps"
  have "concat ps = concat (take (Suc k) ps) @ concat (drop (Suc k) ps)"
    by (simp flip: concat_append)
  then have "take (length (concat (take (Suc k) ps))) (concat ps) = concat (take (Suc k) ps)"
    by simp
  also have "\<dots> = concat (take k ps) @ ps ! k"
    using k by (simp add: take_Suc_conv_app_nth)
  finally show ?thesis
    by simp
qed

text \<open>
  What the rows of a section promise: their texts concatenate to the text of the section, the
  \<open>k\<close>-th row has index \<open>k\<close> and the span of its text, and every row repeats the columns of the
  section; a supported section has no empty sentence, any other section has exactly one row.
\<close>

definition section_covered :: "srow \<Rightarrow> srow list \<Rightarrow> bool" where
  "section_covered sec rs \<longleftrightarrow>
     concat (map row_text rs) = section_text sec
     \<and> (\<forall>k<length rs.
          cell_get (rs ! k) ''sentence_index'' = CInt (int k)
          \<and> (let a = length (concat (map row_text (take k rs)));
                 b = length (concat (map row_text (take (Suc k) rs)))
             in cell_get (rs ! k) ''start_char'' = CInt (int a)
                \<and> cell_get (rs ! k) ''end_char'' = CInt (int b)
                \<and> cell_get (rs ! k) ''sentence_id'' = CStr (sentence_id_of sec a b)
                \<and> row_text (rs ! k) = drop a (take b (section_text sec))))
     \<and> (\<forall>r\<in>set rs. fst ` set r = set SENTENCE_COLUMNS
          \<and> (\<forall>c\<in>set SECTION_CONTEXT_COLUMNS. cell_get r c = cell_get sec c))
     \<and> (if is_sat_supported_language (section_language sec)
        then \<forall>r\<in>set rs. row_text r \<noteq> [] else length rs = 1)"

lemma take_tile_rows: "take k (tile_rows sec stamp i offset ps) = tile_rows sec stamp i offset (take k ps)"
  by (induction ps arbitrary: k i offset) (auto simp: take_Cons')

lemma set_tile_rows:
  "r \<in> set (tile_rows sec stamp i offset ps) \<Longrightarrow> \<exists>j a b t. r = sentence_row sec j a b t stamp"
  by (induction ps arbitrary: i offset) auto

lemma tile_rows_covered:
  assumes "concat ps = section_text sec"
    and "if is_sat_supported_language (section_language sec) then [] \<notin> set ps else length ps = 1"
  shows "section_covered sec (tile_rows sec stamp 0 0 ps)" (is "section_covered sec ?rs")
proof -
  have spans: "cell_get (?rs ! k) ''sentence_index'' = CInt (int k)
     \<and> (let a = length (concat (map row_text (take k ?rs)));
            b = length (concat (map row_text (take (Suc k) ?rs)))
        in cell_get (?rs ! k) ''start_char'' = CInt (int a)
           \<and> cell_get (?rs ! k) ''end_char'' = CInt (int b)
           \<and> cell_get (?rs ! k) ''sentence_id'' = CStr (sentence_id_of sec a b)
           \<and> row_text (?rs ! k) = drop a (take b (section_text sec)))" if "k < length ps" for k
    using that concat_slice [of k ps] unfolding assms(1) [symmetric]
    by (simp add: nth_tile_rows sentence_row_get take_tile_rows Let_def)
  have "row_text r \<noteq> []" if "r \<in> set ?rs" "[] \<notin> set ps" for r
    using that texts_tile_rows [of sec stamp 0 0 ps] by (metis image_eqI set_map)
  then have shape: "if is_sat_supported_language (section_language sec)
      then \<forall>r\<in>set ?rs. row_text r \<noteq> [] else length ?rs = 1"
    using assms(2) by (simp split: if_splits)
  have "fst ` set r = set SENTENCE_COLUMNS
      \<and> (\<forall>c\<in>set SECTION_CONTEXT_COLUMNS. cell_get r c = cell_get sec c)" if "r \<in> set ?rs" for r
    using set_tile_rows [OF that] sentence_row_columns sentence_row_context by metis
  then show ?thesis
    using spans shape assms(1) unfolding section_covered_def by simp
qed

lemma unsplit_row_tile:
  "[unsplit_row sec] = tile_rows sec \<lparr>stamp_segmenter = ''unsplit'', stamp_segmenter_version = [],
     stamp_model_id = [], stamp_status = ''unsupported_language''\<rparr> 0 0 [section_text sec]"
  by (simp add: unsplit_row_def)

lemma split_rows_tile:
  "split_rows sec pieces mid ver = Inr rs \<longleftrightarrow>
     concat (map cell_str pieces) = section_text sec \<and> [] \<notin> set (map cell_str pieces)
     \<and> rs = tile_rows sec \<lparr>stamp_segmenter = SAT_MODEL_NAME, stamp_segmenter_version = ver,
          stamp_model_id = mid, stamp_status = ''split''\<rparr> 0 0 (map cell_str pieces)"
  by (auto simp: split_rows_def validate_reconstruction_def normalize_pieces_def piece_rows_tile Let_def)

section \<open>Classification\<close>

definition supported :: "srow \<Rightarrow> bool" where
  "supported sec \<longleftrightarrow> is_sat_supported_language (section_language sec)"

lemma classify_Nil:
  "classify_sections [] = \<lparr>rows_by_position = [], supported_positions = [], unsupported_languages = [],
     unsupported_count = 0\<rparr>"
  by (simp add: classify_sections_def)

lemma classify_snoc:
  "classify_sections (secs @ [sec]) = classify_section (length secs, sec) (classify_sections secs)"
  by (simp add: classify_sections_def enumerate_append_eq)

lemma classify_rows:
  "map_of (rows_by_position (classify_sections secs)) p =
     (if p < length secs then Some (if supported (secs ! p) then [] else [unsplit_row (secs ! p)])
      else None)"
  by (induction secs rule: rev_induct)
    (auto simp: classify_Nil classify_snoc classify_section_def Let_def nth_append supported_def)

lemma classify_positions:
  "set (dict_get (supported_positions (classify_sections secs)) l []) =
     {p. p < length secs \<and> supported (secs ! p) \<and> section_language (secs ! p) = l}"
proof (induction secs rule: rev_induct)
  case Nil
  then show ?case by (simp add: classify_Nil dict_get_def)
next
  case (snoc sec secs)
  have "{p. p < length (secs @ [sec]) \<and> supported ((secs @ [sec]) ! p) \<and> section_language ((secs @ [sec]) ! p) = l} =
      {p. p < length secs \<and> supported (secs ! p) \<and> section_language (secs ! p) = l}
      \<union> (if supported sec \<and> section_language sec = l then {length secs} else {})"
    by (auto simp: nth_append less_Suc_eq)
  then show ?case
    using snoc by (auto simp: classify_snoc classify_section_def Let_def supported_def dict_get_def)
qed

lemma classify_languages:
  "dict_wf (supported_positions (classify_sections secs))
   \<and> set (map fst (supported_positions (classify_sections secs))) = section_language ` {s \<in> set secs. supported s}
   \<and> distinct (unsupported_languages (classify_sections secs))
   \<and> set (unsupported_languages (classify_sections secs)) = section_language ` {s \<in> set secs. \<not> supported s}"
proof (induction secs rule: rev_induct)
  case Nil
  then show ?case by (simp add: classify_Nil dict_wf_def)
next
  case (snoc sec secs)
  show ?case
  proof (cases "supported sec")
    case True
    then have "{s \<in> set (secs @ [sec]). supported s} = insert sec {s \<in> set secs. supported s}"
      "{s \<in> set (secs @ [sec]). \<not> supported s} = {s \<in> set secs. \<not> supported s}"
      by auto
    then show ?thesis
      using True snoc
      by (simp add: classify_snoc classify_section_def Let_def supported_def dict_wf_update)
  next
    case False
    then have "{s \<in> set (secs @ [sec]). supported s} = {s \<in> set secs. supported s}"
      "{s \<in> set (secs @ [sec]). \<not> supported s} = insert sec {s \<in> set secs. \<not> supported s}"
      by auto
    then show ?thesis
      using False snoc by (simp add: classify_snoc classify_section_def Let_def supported_def)
  qed
qed

lemma sum_lengths_update:
  "dict_wf d \<Longrightarrow> sum_list (map (\<lambda>(_, ps). length ps) (AList.update l (dict_get d l [] @ [p]) d)) =
     Suc (sum_list (map (\<lambda>(_, ps). length ps) d))"
  by (induction d) (auto simp: dict_get_def dict_wf_def split: option.splits)

lemma classify_counts:
  "sum_list (map (\<lambda>(_, ps). length ps) (supported_positions (classify_sections secs))) =
     length (filter supported secs)
   \<and> unsupported_count (classify_sections secs) = length (filter (\<lambda>s. \<not> supported s) secs)"
proof (induction secs rule: rev_induct)
  case (snoc sec secs)
  then show ?case
    using classify_languages [of secs]
    by (auto simp: classify_snoc classify_section_def Let_def supported_def sum_lengths_update)
qed (simp add: classify_Nil)

section \<open>Populating the supported sections\<close>

text \<open>
  Position \<open>p\<close> holds the rows of some segmentation of its section, and \<open>P\<close> relates the text to
  the pieces.
\<close>

definition populated ::
  "(string \<Rightarrow> cell list \<Rightarrow> bool) \<Rightarrow> srow list \<Rightarrow> segmenter \<Rightarrow> nat \<Rightarrow> srow list option \<Rightarrow> bool" where
  "populated P secs seg p v \<longleftrightarrow>
     (\<exists>b rs. P (section_text (secs ! p)) b \<and> v = Some rs
        \<and> split_rows (secs ! p) b (seg_model_id seg) (seg_version seg) = Inr rs)"

definition advances ::
  "(string \<Rightarrow> cell list \<Rightarrow> bool) \<Rightarrow> srow list \<Rightarrow> segmenter \<Rightarrow> nat set
    \<Rightarrow> (nat, srow list) dict \<Rightarrow> (nat, srow list) dict \<Rightarrow> bool" where
  "advances P secs seg S rows rows' \<longleftrightarrow>
     (\<forall>p\<in>S. populated P secs seg p (map_of rows' p)) \<and> (\<forall>p. p \<notin> S \<longrightarrow> map_of rows' p = map_of rows p)"

lemma advances_refl: "advances P secs seg {} rows rows"
  by (simp add: advances_def)

lemma advances_trans:
  assumes "advances P secs seg S r1 r2" and "advances P secs seg T r2 r3"
  shows "advances P secs seg (S \<union> T) r1 r3"
  using assms unfolding advances_def by (metis Un_iff)

lemma res_fold_advances:
  assumes "\<And>x r r'. x \<in> set xs \<Longrightarrow> f x r = Inr r' \<Longrightarrow> advances P secs seg (S x) r r'"
    and "res_fold f xs r = Inr r'"
  shows "advances P secs seg (\<Union>x\<in>set xs. S x) r r'"
  using assms
proof (induction xs arbitrary: r)
  case Nil
  then show ?case by (simp add: advances_refl)
next
  case (Cons x xs)
  then obtain r1 where "f x r = Inr r1" "res_fold f xs r1 = Inr r'"
    by auto
  then have "advances P secs seg (S x) r r1" "advances P secs seg (\<Union>x\<in>set xs. S x) r1 r'"
    using Cons.prems(1) [of x r r1] Cons.IH [of r1] Cons.prems(1) by auto
  then show ?case
    using advances_trans by fastforce
qed

lemma populate_batch_advances:
  assumes P: "\<And>texts lang bs. seg_split seg texts lang = Inr bs \<Longrightarrow> length bs = length texts
      \<Longrightarrow> list_all2 P texts bs"
    and ok: "populate_batch secs seg lang positions r = Inr r'"
  shows "advances P secs seg (set positions) r r'"
proof -
  let ?text = "\<lambda>p. section_text (secs ! p)"
  let ?f = "\<lambda>(p, pieces) rows. res_bind (split_rows (secs ! p) pieces (seg_model_id seg) (seg_version seg))
      (\<lambda>rs. Inr (AList.update p rs rows))"
  from ok obtain bs where bs: "seg_split seg (map ?text positions) lang = Inr bs"
    and len: "length bs = length positions"
    and fold: "res_fold ?f (zip positions bs) r = Inr r'"
    by (auto simp: populate_batch_def Let_def)
  have "list_all2 P (map ?text positions) bs"
    using P [OF bs] len by simp
  then have rel: "P (?text p) b" if "(p, b) \<in> set (zip positions bs)" for p b
    using that by (auto simp: list_all2_iff zip_map1)
  have step: "advances P secs seg {fst pb} rows rows'"
    if "pb \<in> set (zip positions bs)" "?f pb rows = Inr rows'" for pb rows rows'
    using that rel [of "fst pb" "snd pb"]
    by (auto simp: advances_def populated_def split_beta split: if_splits)
  have "advances P secs seg (\<Union>pb\<in>set (zip positions bs). {fst pb}) r r'"
    using step fold by (rule res_fold_advances)
  moreover have "(\<Union>pb\<in>set (zip positions bs). {fst pb}) = set positions"
    using len map_fst_zip [of positions bs] by (metis UNION_singleton_eq_range set_map)
  ultimately show ?thesis
    by simp
qed

lemma populate_positions_advances:
  assumes P: "\<And>texts lang bs. seg_split seg texts lang = Inr bs \<Longrightarrow> length bs = length texts
      \<Longrightarrow> list_all2 P texts bs"
    and n: "0 < n" and ok: "populate_positions secs seg n lang positions r = Inr r'"
  shows "advances P secs seg {p \<in> set positions. section_text (secs ! p) \<noteq> []} r r'"
proof -
  let ?ps = "filter (\<lambda>p. section_text (secs ! p) \<noteq> []) positions"
  have "advances P secs seg (\<Union>b\<in>set (slices n ?ps). set b) r r'"
    using ok unfolding populate_positions_def
    by (intro res_fold_advances [where f = "populate_batch secs seg lang"]) (rule populate_batch_advances [OF P])
  moreover have "(\<Union>b\<in>set (slices n ?ps). set b) = set ?ps"
    using concat_slices [OF n, of ?ps] by (metis set_concat)
  ultimately show ?thesis
    by simp
qed

lemma dict_values_get:
  "dict_wf d \<Longrightarrow> set (concat (map snd d)) = (\<Union>l\<in>fst ` set d. set (dict_get d l []))"
proof (induction d)
  case (Cons kv d)
  obtain k v where kv: "kv = (k, v)"
    by (cases kv)
  have k: "k \<notin> fst ` set d" and wf: "dict_wf d"
    using Cons.prems by (auto simp: dict_wf_def kv)
  have "(\<Union>l\<in>fst ` set d. set (dict_get (kv # d) l [])) = (\<Union>l\<in>fst ` set d. set (dict_get d l []))"
  proof (rule SUP_cong [OF refl])
    fix l
    assume "l \<in> fst ` set d"
    then have "l \<noteq> k"
      using k by blast
    then show "set (dict_get (kv # d) l []) = set (dict_get d l [])"
      by (simp add: dict_get_def kv)
  qed
  moreover have "dict_get (kv # d) k [] = v"
    by (simp add: dict_get_def kv)
  ultimately show ?case
    using Cons.IH [OF wf] by (simp add: kv)
qed simp

lemma supported_position_set:
  "(\<Union>l\<in>fst ` set (supported_positions (classify_sections secs)).
      set (dict_get (supported_positions (classify_sections secs)) l []))
   = {p. p < length secs \<and> supported (secs ! p)}"
  using classify_languages [of secs] unfolding classify_positions
  by (auto simp: in_set_conv_nth)

lemma populate_supported_advances:
  assumes P: "\<And>texts lang bs. seg_split seg texts lang = Inr bs \<Longrightarrow> length bs = length texts
      \<Longrightarrow> list_all2 P texts bs"
    and n: "0 < n"
    and ok: "populate_supported_rows secs seg n (supported_positions (classify_sections secs)) r = Inr r'"
  shows "advances P secs seg {p. p < length secs \<and> supported (secs ! p) \<and> section_text (secs ! p) \<noteq> []} r r'"
proof (cases "supports_mixed_languages seg")
  case True
  let ?d = "supported_positions (classify_sections secs)"
  have "dict_wf ?d"
    using classify_languages by blast
  then have "set (sort (concat (map snd ?d))) = {p. p < length secs \<and> supported (secs ! p)}"
    unfolding set_sort by (rule dict_values_get [THEN trans]) (rule supported_position_set)
  then have eq: "{p \<in> set (sort (concat (map snd ?d))). section_text (secs ! p) \<noteq> []} =
      {p. p < length secs \<and> supported (secs ! p) \<and> section_text (secs ! p) \<noteq> []}"
    by auto
  have mixed: "populate_positions secs seg n ''mixed'' (sort (concat (map snd ?d))) r = Inr r'"
    using ok True by (simp add: populate_supported_rows_def)
  show ?thesis
    unfolding eq [symmetric] by (rule populate_positions_advances [OF P n mixed])
next
  case False
  let ?d = "supported_positions (classify_sections secs)"
  let ?S = "\<lambda>l. {p \<in> set (dict_get ?d l []). section_text (secs ! p) \<noteq> []}"
  have "advances P secs seg (\<Union>l\<in>set (sort (map fst ?d)). ?S l) r r'"
    using ok False unfolding populate_supported_rows_def if_not_P [OF False]
    by (intro res_fold_advances [where f = "\<lambda>l. populate_positions secs seg n l (dict_get ?d l [])"])
      (rule populate_positions_advances [OF P n])
  moreover have "(\<Union>l\<in>set (sort (map fst ?d)). ?S l) =
      {p. p < length secs \<and> supported (secs ! p) \<and> section_text (secs ! p) \<noteq> []}"
    using supported_position_set [of secs] by auto
  ultimately show ?thesis
    by simp
qed

text \<open>The rows at one position of a populated table.\<close>

definition position_rows ::
  "(string \<Rightarrow> cell list \<Rightarrow> bool) \<Rightarrow> segmenter \<Rightarrow> srow \<Rightarrow> srow list \<Rightarrow> bool" where
  "position_rows P seg sec rs \<longleftrightarrow>
     (if \<not> supported sec then rs = [unsplit_row sec]
      else if section_text sec = [] then rs = []
      else \<exists>b. P (section_text sec) b \<and> split_rows sec b (seg_model_id seg) (seg_version seg) = Inr rs)"

lemma populated_table:
  assumes adv: "advances P secs seg {p. p < length secs \<and> supported (secs ! p) \<and> section_text (secs ! p) \<noteq> []}
      (rows_by_position (classify_sections secs)) r"
    and p: "p < length secs"
  shows "\<exists>rs. map_of r p = Some rs \<and> position_rows P seg (secs ! p) rs"
proof (cases "supported (secs ! p) \<and> section_text (secs ! p) \<noteq> []")
  case True
  then have "populated P secs seg p (map_of r p)"
    using adv p unfolding advances_def by blast
  then show ?thesis
    using True unfolding populated_def position_rows_def by auto
next
  case False
  then have "map_of r p = map_of (rows_by_position (classify_sections secs)) p"
    using adv unfolding advances_def by blast
  then show ?thesis
    using False p unfolding position_rows_def classify_rows by auto
qed

lemma rows_in_input_order_Inr:
  assumes "\<And>p. p < length secs \<Longrightarrow> \<exists>rs. map_of r p = Some rs \<and> Q (secs ! p) rs"
  shows "\<exists>rss. rows_in_input_order r (length secs) = Inr (concat rss) \<and> list_all2 Q secs rss"
proof -
  let ?rss = "map (\<lambda>p. the (map_of r p)) [0..<length secs]"
  have "map (dict_item r) [0..<length secs] = map Inr ?rss"
    using assms by (fastforce simp: dict_item_def)
  then have "res_map (dict_item r) [0..<length secs] = Inr ?rss"
    by (rule res_map_eq_map)
  then have "rows_in_input_order r (length secs) = Inr (concat ?rss)"
    unfolding rows_in_input_order_def by (simp only: res_bind_simps)
  moreover have "list_all2 Q secs ?rss"
    using assms by (fastforce simp: list_all2_conv_all_nth)
  ultimately show ?thesis
    by blast
qed

lemma split_sections_positions:
  assumes P: "\<And>texts lang bs. seg_split seg texts lang = Inr bs \<Longrightarrow> length bs = length texts
      \<Longrightarrow> list_all2 P texts bs"
    and ok: "split_sections seg n secs = Inr (rows, summary)"
  shows "\<exists>rss. rows = concat rss \<and> list_all2 (position_rows P seg) secs rss"
proof -
  let ?c = "classify_sections secs"
  from ok obtain r where n: "1 \<le> n"
    and r: "populate_supported_rows secs seg (nat n) (supported_positions ?c) (rows_by_position ?c) = Inr r"
    and rows: "rows_in_input_order r (length secs) = Inr rows"
    unfolding split_sections_def Let_def by auto
  have pos: "0 < nat n"
    using n by simp
  have adv: "advances P secs seg {p. p < length secs \<and> supported (secs ! p) \<and> section_text (secs ! p) \<noteq> []}
      (rows_by_position ?c) r"
    by (rule populate_supported_advances [OF P pos r])
  have "\<exists>rss. rows_in_input_order r (length secs) = Inr (concat rss) \<and> list_all2 (position_rows P seg) secs rss"
    by (rule rows_in_input_order_Inr) (rule populated_table [OF adv])
  then show ?thesis
    using rows by auto
qed

lemma unsplit_covered: "\<not> supported sec \<Longrightarrow> section_covered sec [unsplit_row sec]"
  unfolding unsplit_row_tile by (rule tile_rows_covered) (simp_all add: supported_def)

lemma empty_covered: "supported sec \<Longrightarrow> section_text sec = [] \<Longrightarrow> section_covered sec []"
  by (simp add: section_covered_def supported_def)

lemma split_covered: "supported sec \<Longrightarrow> split_rows sec b mid ver = Inr rs \<Longrightarrow> section_covered sec rs"
  unfolding split_rows_tile supported_def by (elim conjE, hypsubst, rule tile_rows_covered) simp_all

lemma position_rows_covered: "position_rows P seg sec rs \<Longrightarrow> section_covered sec rs"
  unfolding position_rows_def by (auto split: if_splits intro: unsplit_covered empty_covered split_covered)

section \<open>What a split table promises\<close>

text \<open>
  C12. Sentence splitting is lossless: when a table is split, the output is the concatenation, in
  input order, of one block of rows per section; the texts of a block concatenate to the text of
  its section, the recorded offsets are the exact spans of the sentences, and every row carries all
  columns and repeats the columns of its section. Whatever the segmenter answered, no other output
  is possible.
\<close>

theorem split_sections_lossless:
  assumes "split_sections seg batch_size sections = Inr (rows, summary)"
  shows "\<exists>blocks. rows = concat blocks \<and> list_all2 section_covered sections blocks"
proof -
  have "\<exists>rss. rows = concat rss \<and> list_all2 (position_rows (\<lambda>_ _. True) seg) sections rss"
    using assms by (rule split_sections_positions [rotated]) (simp add: list_all2_iff)
  then show ?thesis
    by (metis list_all2_mono position_rows_covered)
qed

text \<open>The reference: every section on its own, with a function that splits one text.\<close>

definition section_rows :: "segmenter \<Rightarrow> (string \<Rightarrow> string list) \<Rightarrow> srow \<Rightarrow> srow list" where
  "section_rows seg split_text sec =
     (if \<not> supported sec then [unsplit_row sec]
      else tile_rows sec \<lparr>stamp_segmenter = SAT_MODEL_NAME, stamp_segmenter_version = seg_version seg,
             stamp_model_id = seg_model_id seg, stamp_status = ''split''\<rparr> 0 0
             (if section_text sec = [] then [] else split_text (section_text sec)))"

text \<open>A segmenter that handles every text of a batch alike and loses nothing.\<close>

definition segments_with :: "segmenter \<Rightarrow> (string \<Rightarrow> string list) \<Rightarrow> bool" where
  "segments_with seg split_text \<longleftrightarrow>
     (\<forall>texts lang. texts \<noteq> [] \<longrightarrow> seg_split seg texts lang = Inr (map (\<lambda>t. map CStr (split_text t)) texts))
     \<and> (\<forall>t. t \<noteq> [] \<longrightarrow> concat (split_text t) = t \<and> [] \<notin> set (split_text t))"

lemma cell_str_CStr [simp]: "cell_str (CStr s) = s"
  by (simp add: cell_str_def)

lemma position_rows_reference:
  assumes "segments_with seg g" and "position_rows (\<lambda>t b. t \<noteq> [] \<longrightarrow> b = map CStr (g t)) seg sec rs"
  shows "rs = section_rows seg g sec"
  using assms(2) unfolding position_rows_def section_rows_def
  by (auto simp: split_rows_tile comp_def split: if_splits)

lemma split_rows_total:
  assumes "segments_with seg g" and "section_text sec \<noteq> []"
  shows "\<exists>rs. split_rows sec (map CStr (g (section_text sec))) mid ver = Inr rs"
  using assms unfolding segments_with_def by (simp add: split_rows_tile comp_def)

lemma populate_batch_total:
  assumes g: "segments_with seg g" and pos: "positions \<noteq> []"
    and texts: "\<forall>p\<in>set positions. section_text (secs ! p) \<noteq> []"
  shows "\<exists>r'. populate_batch secs seg lang positions r = Inr r'"
proof -
  let ?text = "\<lambda>p. section_text (secs ! p)"
  have split: "seg_split seg (map ?text positions) lang = Inr (map (\<lambda>t. map CStr (g t)) (map ?text positions))"
    using g pos unfolding segments_with_def by blast
  have "\<exists>r'. res_fold (\<lambda>(p, pieces) rows.
        res_bind (split_rows (secs ! p) pieces (seg_model_id seg) (seg_version seg))
          (\<lambda>rs. Inr (AList.update p rs rows)))
      (zip positions (map (\<lambda>t. map CStr (g t)) (map ?text positions))) r = Inr r'"
  proof (rule res_fold_total)
    fix pb rows
    assume "pb \<in> set (zip positions (map (\<lambda>t. map CStr (g t)) (map ?text positions)))"
    then obtain p where p: "p \<in> set positions" "pb = (p, map CStr (g (?text p)))"
      by (auto simp: set_zip)
    then obtain rs where "split_rows (secs ! p) (map CStr (g (?text p))) (seg_model_id seg) (seg_version seg) = Inr rs"
      using split_rows_total [OF g] texts by blast
    then show "\<exists>s'. (case pb of (p, pieces) \<Rightarrow> \<lambda>rows.
        res_bind (split_rows (secs ! p) pieces (seg_model_id seg) (seg_version seg))
          (\<lambda>rs. Inr (AList.update p rs rows))) rows = Inr s'"
      by (simp add: p(2))
  qed
  then show ?thesis
    by (simp add: populate_batch_def split)
qed

lemma populate_positions_total:
  assumes "segments_with seg g"
  shows "\<exists>r'. populate_positions secs seg n lang positions r = Inr r'"
  unfolding populate_positions_def
proof (rule res_fold_total)
  fix b rows
  assume b: "b \<in> set (slices n (filter (\<lambda>p. section_text (secs ! p) \<noteq> []) positions))"
  show "\<exists>s'. populate_batch secs seg lang b rows = Inr s'"
    using slices_bounds [OF b] by (intro populate_batch_total [OF assms]) auto
qed

lemma populate_supported_total:
  assumes "segments_with seg g"
  shows "\<exists>r'. populate_supported_rows secs seg n d r = Inr r'"
proof (cases "supports_mixed_languages seg")
  case True
  then show ?thesis
    using populate_positions_total [OF assms] by (simp add: populate_supported_rows_def)
next
  case False
  show ?thesis
    unfolding populate_supported_rows_def if_not_P [OF False]
    by (rule res_fold_total) (rule populate_positions_total [OF assms])
qed

lemma split_sections_reference:
  assumes "segments_with seg split_text" and "1 \<le> batch_size"
  shows "\<exists>summary. split_sections seg batch_size sections =
    Inr (concat (map (section_rows seg split_text) sections), summary)"
proof -
  let ?c = "classify_sections sections"
  let ?P = "\<lambda>t b. t \<noteq> [] \<longrightarrow> b = map CStr (split_text t)"
  obtain r where r: "populate_supported_rows sections seg (nat batch_size) (supported_positions ?c)
      (rows_by_position ?c) = Inr r"
    using populate_supported_total [OF assms(1)] by blast
  have P: "list_all2 ?P texts bs" if "seg_split seg texts lang = Inr bs" "length bs = length texts" for texts lang bs
    using that assms(1) unfolding segments_with_def by (cases "texts = []") (auto simp: list_all2_conv_all_nth)
  have pos: "0 < nat batch_size"
    using assms(2) by simp
  note adv = populate_supported_advances [OF P pos r]
  have "\<exists>rss. rows_in_input_order r (length sections) = Inr (concat rss)
      \<and> list_all2 (position_rows ?P seg) sections rss"
    by (rule rows_in_input_order_Inr) (rule populated_table [OF adv])
  then obtain rss where rows: "rows_in_input_order r (length sections) = Inr (concat rss)"
    and rss: "list_all2 (position_rows ?P seg) sections rss"
    by blast
  have "list_all2 (\<lambda>sec rs. rs = section_rows seg split_text sec) sections rss"
    using rss by (rule list_all2_mono) (rule position_rows_reference [OF assms(1)])
  then have "rss = map (section_rows seg split_text) sections"
    by (simp add: list_all2_conv_all_nth list_eq_iff_nth_eq)
  then show ?thesis
    using r rows assms(2) by (simp add: split_sections_def Let_def)
qed

text \<open>
  With such a segmenter the batching does not matter: for every positive batch size, with mixed
  batches or one pass per language, splitting succeeds and its rows are those of splitting every
  section on its own.
\<close>

theorem split_sections_batching:
  assumes "segments_with seg split_text" and "1 \<le> batch_size"
  shows "\<exists>summary. split_sections seg batch_size sections =
    Inr (concat (map (section_rows seg split_text) sections), summary)"
  using assms by (rule split_sections_reference)

text \<open>Splitting after every full stop, as a sample segmenter, and two sections to split.\<close>

fun dot_split :: "string \<Rightarrow> string list" where
  "dot_split [] = []"
| "dot_split (c # s) =
     (if c = CHR ''.'' then ''.'' # dot_split s
      else case dot_split s of [] \<Rightarrow> [[c]] | p # ps \<Rightarrow> (c # p) # ps)"

definition dot_segmenter :: segmenter where
  "dot_segmenter = \<lparr>seg_model_id = SAT_MODEL_ID, seg_version = ''2'', supports_mixed_languages = False,
     seg_split = (\<lambda>texts _. Inr (map (\<lambda>t. map CStr (dot_split t)) texts))\<rparr>"

definition sample_sections :: "srow list" where
  "sample_sections =
     [[(''section_id'', CStr ''s1''), (''language'', CStr ''en''), (''text'', CStr ''A.B'')],
      [(''section_id'', CStr ''s2''), (''language'', CStr ''xx''), (''text'', CStr ''C.D'')]]"

lemma concat_dot_split: "concat (dot_split s) = s"
  by (induction s) (auto split: list.splits)

lemma dot_split_nonempty: "[] \<notin> set (dot_split s)"
  by (induction s) (auto split: list.splits)

lemma dot_segments_with: "segments_with dot_segmenter dot_split"
  by (simp add: segments_with_def dot_segmenter_def concat_dot_split dot_split_nonempty)

lemma sample_supported: "map supported sample_sections = [True, False]"
  by (simp add: sample_sections_def supported_def is_sat_supported_language_def section_language_def
      cell_get_def dict_get_def cell_or_empty_def cell_str_def SAT_SUPPORTED_LANGUAGES_def)

lemma sample_texts: "map section_text sample_sections = [''A.B'', ''C.D'']"
  by (simp add: sample_sections_def section_text_def cell_get_def dict_get_def)

lemma sample_reference:
  "map row_text (concat (map (section_rows dot_segmenter dot_split) sample_sections)) = [''A.'', ''B'', ''C.D'']"
proof -
  obtain s1 s2 where s: "sample_sections = [s1, s2]"
    by (simp add: sample_sections_def)
  have "supported s1" "\<not> supported s2" "section_text s1 = ''A.B''" "section_text s2 = ''C.D''"
    using sample_supported sample_texts unfolding s by simp_all
  then show ?thesis
    by (simp add: s section_rows_def unsplit_row_def)
qed

theorem split_sections_batching_witness:
  "segments_with dot_segmenter dot_split
   \<and> (\<exists>rows summary. split_sections dot_segmenter 1 sample_sections = Inr (rows, summary)
        \<and> map row_text rows = [''A.'', ''B'', ''C.D''])"
proof -
  obtain summary where "split_sections dot_segmenter 1 sample_sections =
      Inr (concat (map (section_rows dot_segmenter dot_split) sample_sections), summary)"
    using split_sections_batching [OF dot_segments_with order_refl] by blast
  then show ?thesis
    by (intro conjI exI) (rule dot_segments_with, assumption, rule sample_reference)
qed

theorem split_sections_lossless_witness:
  "\<exists>rows summary blocks. split_sections dot_segmenter 1 sample_sections = Inr (rows, summary)
     \<and> map row_text rows = [''A.'', ''B'', ''C.D'']
     \<and> rows = concat blocks \<and> list_all2 section_covered sample_sections blocks"
proof -
  obtain summary where ok: "split_sections dot_segmenter 1 sample_sections =
      Inr (concat (map (section_rows dot_segmenter dot_split) sample_sections), summary)"
    using split_sections_reference [OF dot_segments_with order_refl] by blast
  obtain blocks where
    "concat (map (section_rows dot_segmenter dot_split) sample_sections) = concat blocks"
    "list_all2 section_covered sample_sections blocks"
    using split_sections_lossless [OF ok] by blast
  then show ?thesis
    by (intro exI conjI) (rule ok, rule sample_reference)
qed

section \<open>Sentence identifiers\<close>

definition section_key :: "srow \<Rightarrow> string" where
  "section_key sec = cell_or_empty (cell_get sec ''section_id'')"

text \<open>No separator inside the section identifier or the stored hash of the section.\<close>

definition separable :: "srow \<Rightarrow> bool" where
  "separable sec \<longleftrightarrow> unit_separator \<notin> set (section_key sec) \<and> unit_separator \<notin> set (source_hash sec)"

lemma separator_notin_digits: "unit_separator \<notin> set (py_str_int i)"
  by (simp add: py_str_int_def unit_separator_def not_digit_not_in_digits py_isdigit_def)

text \<open>The bytes that are hashed for the identifier of a sentence.\<close>

definition sentence_input :: "srow \<Rightarrow> nat \<Rightarrow> nat \<Rightarrow> nat list" where
  "sentence_input sec a b =
     identity_bytes [CStr ''v2-sentence'', CStr (section_key sec), CStr (source_hash sec), CInt (int a), CInt (int b)]"

lemma sentence_id_digest: "sentence_id_of sec a b = sha256_hexdigest (sentence_input sec a b)"
  by (simp add: sentence_id_of_def sentence_input_def section_key_def stable_id_digest)

lemma sentence_input_inject:
  assumes "separable s" and "separable t" and "sentence_input s a b = sentence_input t c d"
  shows "section_key s = section_key t \<and> a = c \<and> b = d"
proof -
  let ?parts = "\<lambda>s a b. [CStr ''v2-sentence'', CStr (section_key s), CStr (source_hash s), CInt (int a), CInt (int b)]"
  have sep: "\<forall>x\<in>set (?parts s a b). unit_separator \<notin> set (cell_str x)" if "separable s" for s and a b :: nat
    using that separator_notin_digits by (auto simp: separable_def cell_str_def unit_separator_def)
  have "map cell_str (?parts s a b) = map cell_str (?parts t c d)"
    using assms(3) unfolding sentence_input_def by (rule identity_bytes_inject) (use sep assms(1,2) in blast)+
  then show ?thesis
    by (auto simp: cell_str_def)
qed

lemma concat_take_mono:
  assumes "i < j" and "j < length ps" and "\<forall>p\<in>set ps. p \<noteq> []"
  shows "length (concat (take i ps)) < length (concat (take j ps))"
proof -
  have i: "i < length ps"
    using assms(1,2) by simp
  have "length (concat (take i ps)) < length (concat (take (Suc i) ps))"
    using i assms(3) nth_mem [OF i] by (simp add: take_Suc_conv_app_nth)
  also have "\<dots> \<le> length (concat (take j ps))"
  proof -
    have "take j ps = take (Suc i) ps @ take (j - Suc i) (drop (Suc i) ps)"
      using assms(1) by (simp flip: take_add)
    then show ?thesis
      by simp
  qed
  finally show ?thesis .
qed

lemma covered_id:
  "section_covered sec rs \<Longrightarrow> k < length rs \<Longrightarrow>
     cell_get (rs ! k) ''sentence_id'' = CStr (sentence_id_of sec
       (length (concat (take k (map row_text rs)))) (length (concat (take (Suc k) (map row_text rs)))))"
  unfolding section_covered_def Let_def take_map by blast

lemma covered_nonempty:
  assumes "section_covered sec rs" and "i < j" and "j < length rs"
  shows "\<forall>p\<in>set (map row_text rs). p \<noteq> []"
proof -
  have "length rs \<noteq> 1"
    using assms(2,3) by simp
  then show ?thesis
    using assms(1) unfolding section_covered_def by (auto split: if_splits)
qed

text \<open>The inputs of the rows of one section, and of all.\<close>

definition block_inputs :: "srow \<Rightarrow> srow list \<Rightarrow> nat list list" where
  "block_inputs sec rs =
     map (\<lambda>k. sentence_input sec (length (concat (take k (map row_text rs)))) (length (concat (take (Suc k) (map row_text rs)))))
       [0..<length rs]"

definition table_inputs :: "srow list \<Rightarrow> nat list set" where
  "table_inputs secs = {sentence_input sec a b |sec a b. sec \<in> set secs \<and> a \<le> b \<and> b \<le> length (section_text sec)}"

lemma covered_block_ids:
  assumes "section_covered sec rs"
  shows "map (\<lambda>r. cell_get r ''sentence_id'') rs = map (\<lambda>x. CStr (sha256_hexdigest x)) (block_inputs sec rs)"
  by (rule nth_equalityI) (simp_all add: block_inputs_def covered_id [OF assms] sentence_id_digest)

lemma concat_take_le: "k \<le> m \<Longrightarrow> length (concat (take k ps)) \<le> length (concat (take m ps))"
proof -
  assume "k \<le> m"
  then have "take m ps = take k ps @ take (m - k) (drop k ps)" by (metis take_add le_add_diff_inverse)
  then show ?thesis by simp
qed

lemma covered_block_table:
  assumes "section_covered sec rs" and "sec \<in> set secs"
  shows "set (block_inputs sec rs) \<subseteq> table_inputs secs"
proof -
  let ?at = "\<lambda>k. length (concat (take k (map row_text rs)))"
  have whole: "length (section_text sec) = ?at (length rs)"
    using assms(1) by (simp add: section_covered_def)
  have "?at k \<le> ?at (Suc k) \<and> ?at (Suc k) \<le> length (section_text sec)" if "k < length rs" for k
    unfolding whole using that by (intro conjI concat_take_le) simp_all
  then show ?thesis
    using assms(2) unfolding block_inputs_def table_inputs_def by fastforce
qed

lemma covered_block_distinct:
  assumes cov: "section_covered sec rs" and sep: "separable sec"
  shows "distinct (block_inputs sec rs)"
proof -
  let ?at = "\<lambda>k. length (concat (take k (map row_text rs)))"
  have "?at i < ?at j" if "i < j" "j < length rs" for i j
    using that covered_nonempty [OF cov that] by (intro concat_take_mono) simp_all
  then have "inj_on (\<lambda>k. sentence_input sec (?at k) (?at (Suc k))) {0..<length rs}"
    by (intro inj_onI) (metis atLeastLessThan_iff less_irrefl linorder_neqE_nat sentence_input_inject [OF sep sep])
  then show ?thesis by (simp add: block_inputs_def distinct_map)
qed

lemma table_inputs_apart:
  assumes "\<forall>sec'\<in>set (sec # secs). separable sec'" and "section_key sec \<notin> section_key ` set secs"
  shows "table_inputs [sec] \<inter> table_inputs secs = {}"
proof -
  have False if one: "x \<in> table_inputs [sec]" and other: "x \<in> table_inputs secs" for x
  proof -
    obtain a b where x: "x = sentence_input sec a b" using one by (auto simp: table_inputs_def)
    obtain t c d where t: "x = sentence_input t c d" "t \<in> set secs" using other by (auto simp: table_inputs_def)
    have "section_key sec = section_key t" using sentence_input_inject [of sec t a b c d] assms(1) x t by simp
    then show False using assms(2) t(2) by blast
  qed
  then show ?thesis by blast
qed

lemma blocks_inputs:
  assumes "list_all2 section_covered secs blocks" and "distinct (map section_key secs)" and "\<forall>sec\<in>set secs. separable sec"
  shows "\<exists>inputs. map (\<lambda>r. cell_get r ''sentence_id'') (concat blocks) = map (\<lambda>x. CStr (sha256_hexdigest x)) inputs
    \<and> distinct inputs \<and> set inputs \<subseteq> table_inputs secs"
  using assms
proof (induction rule: list_all2_induct)
  case (Cons sec secs rs blocks)
  obtain inputs where IH: "map (\<lambda>r. cell_get r ''sentence_id'') (concat blocks) = map (\<lambda>x. CStr (sha256_hexdigest x)) inputs"
      "distinct inputs" "set inputs \<subseteq> table_inputs secs"
    using Cons.IH Cons.prems by auto
  have block: "set (block_inputs sec rs) \<subseteq> table_inputs [sec]" "distinct (block_inputs sec rs)"
    using covered_block_table [OF Cons.hyps(1), of "[sec]"] covered_block_distinct [OF Cons.hyps(1)] Cons.prems(2) by simp_all
  have "set (block_inputs sec rs) \<inter> set inputs = {}"
    using table_inputs_apart [OF Cons.prems(2)] block(1) IH(3) Cons.prems(1) by auto
  moreover have "table_inputs [sec] \<union> table_inputs secs \<subseteq> table_inputs (sec # secs)"
    by (auto simp: table_inputs_def)
  ultimately show ?case
    using IH block covered_block_ids [OF Cons.hyps(1)] by (intro exI [of _ "block_inputs sec rs @ inputs"]) auto
qed simp

text \<open>
  C34. In a split table whose sections have different identifiers, free of the separator character, the
  identifiers of the sentences are the digests of pairwise different inputs, each made of a section of the
  table and a range of its text. So they are pairwise different as long as SHA-256 separates these
  inputs.
\<close>

theorem sentence_ids_unique:
  assumes "split_sections seg batch_size sections = Inr (rows, summary)"
    and "distinct (map section_key sections)" and "\<forall>sec\<in>set sections. separable sec"
  shows "\<exists>inputs. map (\<lambda>r. cell_get r ''sentence_id'') rows = map (\<lambda>x. CStr (sha256_hexdigest x)) inputs
    \<and> distinct inputs
    \<and> set inputs \<subseteq> {sentence_input sec a b |sec a b. sec \<in> set sections \<and> a \<le> b \<and> b \<le> length (section_text sec)}
    \<and> (inj_on sha256_hexdigest (set inputs) \<longrightarrow> distinct (map (\<lambda>r. cell_get r ''sentence_id'') rows))"
proof -
  have "\<exists>rss. rows = concat rss \<and> list_all2 (position_rows (\<lambda>_ _. True) seg) sections rss"
    using assms(1) by (rule split_sections_positions [rotated]) (simp add: list_all2_iff)
  then obtain rss where rows: "rows = concat rss" and cov: "list_all2 section_covered sections rss"
    by (metis list_all2_mono position_rows_covered)
  obtain inputs where i: "map (\<lambda>r. cell_get r ''sentence_id'') rows = map (\<lambda>x. CStr (sha256_hexdigest x)) inputs"
      "distinct inputs" "set inputs \<subseteq> table_inputs sections"
    using blocks_inputs [OF cov assms(2,3)] unfolding rows by blast
  then have "distinct (map (\<lambda>r. cell_get r ''sentence_id'') rows)" if "inj_on sha256_hexdigest (set inputs)"
    using that by (auto simp: distinct_map inj_on_def)
  then show ?thesis
    using i unfolding table_inputs_def by blast
qed

lemma sample_keys: "map section_key sample_sections = [''s1'', ''s2'']"
  by (simp add: sample_sections_def section_key_def cell_get_def dict_get_def cell_or_empty_def cell_str_def)

lemma hex_not_separator: "is_sha256_hex h \<Longrightarrow> unit_separator \<notin> set h"
  by (auto simp: is_sha256_hex_def list_all_iff unit_separator_def py_isdigit_def)

lemma sample_separable: "\<forall>sec\<in>set sample_sections. separable sec"
proof
  fix sec
  assume sec: "sec \<in> set sample_sections"
  then have "source_hash sec = content_hash (section_text sec)"
    by (auto simp: sample_sections_def source_hash_def cell_get_def dict_get_def)
  then have "unit_separator \<notin> set (source_hash sec)"
    using hex_not_separator sha256_hexdigest_ok by (simp add: content_hash_def)
  moreover have "section_key sec \<in> set [''s1'', ''s2'']"
    using sec unfolding sample_keys [symmetric] by simp
  ultimately show "separable sec"
    by (auto simp: separable_def unit_separator_def)
qed

theorem sentence_ids_unique_witness:
  "distinct (map section_key sample_sections)
   \<and> (\<exists>rows summary inputs. split_sections dot_segmenter 1 sample_sections = Inr (rows, summary)
       \<and> map (\<lambda>r. cell_get r ''sentence_id'') rows = map (\<lambda>x. CStr (sha256_hexdigest x)) inputs
       \<and> distinct inputs \<and> length inputs = 3)"
proof -
  obtain summary where ok: "split_sections dot_segmenter 1 sample_sections =
      Inr (concat (map (section_rows dot_segmenter dot_split) sample_sections), summary)" (is "_ = Inr (?rows, _)")
    using split_sections_reference [OF dot_segments_with order_refl] by blast
  have keys: "distinct (map section_key sample_sections)"
    by (simp add: sample_keys)
  have "length (map row_text ?rows) = 3"
    unfolding sample_reference by simp
  then have len: "length ?rows = 3"
    by (simp only: length_map)
  obtain inputs where i: "map (\<lambda>r. cell_get r ''sentence_id'') ?rows = map (\<lambda>x. CStr (sha256_hexdigest x)) inputs" "distinct inputs"
    using sentence_ids_unique [OF ok keys sample_separable] by blast
  have "length inputs = 3"
    using arg_cong [OF i(1), of length] len by (simp only: length_map)
  then show ?thesis
    using keys ok i by blast
qed

text \<open>The run summary counts every section once and names every language of its kind.\<close>

lemma split_sections_summary:
  assumes "split_sections seg n secs = Inr (rows, summary)"
  shows "sum_sections summary = length secs
    \<and> sum_split_sections summary = length (filter supported secs)
    \<and> sum_unsplit_sections summary = length (filter (\<lambda>s. \<not> supported s) secs)
    \<and> sum_split_sections summary + sum_unsplit_sections summary = sum_sections summary
    \<and> sum_sentence_rows summary = length rows
    \<and> sorted_wrt (<) (sum_supported_languages summary)
    \<and> set (sum_supported_languages summary) = section_language ` {s \<in> set secs. supported s}
    \<and> sorted_wrt (<) (sum_unsupported_languages summary)
    \<and> set (sum_unsupported_languages summary) = section_language ` {s \<in> set secs. \<not> supported s}"
proof -
  let ?c = "classify_sections secs"
  have summary: "sum_sections summary = length secs" "sum_sentence_rows summary = length rows"
    "sum_split_sections summary = sum_list (map (\<lambda>(_, ps). length ps) (supported_positions ?c))"
    "sum_unsplit_sections summary = unsupported_count ?c"
    "sum_supported_languages summary = sort (map fst (supported_positions ?c))"
    "sum_unsupported_languages summary = sort (unsupported_languages ?c)"
    using assms by (auto simp: split_sections_def Let_def)
  have "sorted_wrt (<) (sum_supported_languages summary)" "sorted_wrt (<) (sum_unsupported_languages summary)"
    using classify_languages [of secs] by (simp_all add: summary strict_sorted_iff dict_wf_def)
  moreover have "length (filter supported secs) + length (filter (\<lambda>s. \<not> supported s) secs) = length secs"
    by (rule sum_length_filter_compl)
  ultimately show ?thesis
    using classify_languages [of secs] classify_counts [of secs] unfolding summary by simp
qed

end
