(* ===== verification/Sat_Adapter.thy ===== *)
theory Sat_Adapter
  imports Sentence_Split
begin

text \<open>
  The adapter around the pinned segmentation model (\<open>v2/sat.py\<close>). What the optional packages
  offer is a parameter: whether \<open>wtpsplit\<close> can be imported and exposes \<open>SaT\<close>, its version, the
  execution providers of the installed ONNX Runtime, and the constructor of the model. A
  constructed model splits a batch of texts and may report the providers of its session.
\<close>

record sat_model =
  model_split :: "string list \<Rightarrow> string list list res"
  session_providers :: "string list option"

record sat_runtime =
  has_wtpsplit :: bool
  has_sat_class :: bool
  wtpsplit_version :: "string option"
  available_ort_providers :: "string list"
  model_class :: "string \<Rightarrow> string \<Rightarrow> string list \<Rightarrow> sat_model res"

record sat_segmenter = segmenter +
  sat_revision :: string
  inference_batch_size :: int
  ort_providers :: "string list"

definition COREML_PROVIDER :: string where
  "COREML_PROVIDER = ''CoreMLExecutionProvider''"

definition CUDA_PROVIDER :: string where
  "CUDA_PROVIDER = ''CUDAExecutionProvider''"

definition CPU_PROVIDER :: string where
  "CPU_PROVIDER = ''CPUExecutionProvider''"

definition default_ort_providers :: "sat_runtime \<Rightarrow> string list" where
  "default_ort_providers rt =
     (if COREML_PROVIDER \<in> set (available_ort_providers rt)
      then [COREML_PROVIDER] @ (if CPU_PROVIDER \<in> set (available_ort_providers rt) then [CPU_PROVIDER] else [])
      else [CPU_PROVIDER])"

definition gpu_ort_providers :: "sat_runtime \<Rightarrow> string list" where
  "gpu_ort_providers rt =
     (if CUDA_PROVIDER \<in> set (available_ort_providers rt) then [CUDA_PROVIDER] else [])
     @ (if CPU_PROVIDER \<in> set (available_ort_providers rt) then [CPU_PROVIDER] else [])"

definition requested_ort_providers :: "sat_runtime \<Rightarrow> string list option \<Rightarrow> bool \<Rightarrow> string list res" where
  "requested_ort_providers rt override require_gpu =
     (case override of
        Some [] \<Rightarrow> Inl (ValueError ''ort_providers must not be empty'')
      | Some providers \<Rightarrow> Inr providers
      | None \<Rightarrow> Inr (if require_gpu then gpu_ort_providers rt else default_ort_providers rt))"

definition resolve_ort_providers :: "sat_runtime \<Rightarrow> string list option \<Rightarrow> bool \<Rightarrow> string list res" where
  "resolve_ort_providers rt override require_gpu =
     res_bind (requested_ort_providers rt override require_gpu) (\<lambda>providers.
       if require_gpu \<and> CUDA_PROVIDER \<notin> set providers
       then Inl (RuntimeError ''Grid5000 sentence splitting requires CUDAExecutionProvider'')
       else Inr providers)"

definition effective_ort_providers :: "sat_model \<Rightarrow> string list res" where
  "effective_ort_providers model =
     (case session_providers model of
        None \<Rightarrow> Inl (RuntimeError ''Could not verify the active CUDAExecutionProvider'')
      | Some [] \<Rightarrow> Inl (RuntimeError ''Could not verify the active CUDAExecutionProvider'')
      | Some providers \<Rightarrow> Inr providers)"

definition active_ort_providers :: "sat_model \<Rightarrow> string list \<Rightarrow> bool \<Rightarrow> string list res" where
  "active_ort_providers model requested require_gpu =
     (if \<not> require_gpu then Inr requested
      else res_bind (effective_ort_providers model) (\<lambda>providers.
        if CUDA_PROVIDER \<notin> set providers
        then Inl (RuntimeError ''Grid5000 sentence splitting requires an active CUDAExecutionProvider'')
        else Inr providers))"

definition load_wtpsplit :: "sat_runtime \<Rightarrow> unit res" where
  "load_wtpsplit rt =
     guard (has_wtpsplit rt) (RuntimeError ''Sentence splitting requires the optional dependency'')"

definition sat_model_class :: "sat_runtime \<Rightarrow> (string \<Rightarrow> string \<Rightarrow> string list \<Rightarrow> sat_model res) res" where
  "sat_model_class rt =
     (if has_sat_class rt then Inr (model_class rt)
      else Inl (RuntimeError ''The installed wtpsplit package does not expose SaT''))"

text \<open>The language is dropped; an empty batch never reaches the model.\<close>

definition sat_split :: "sat_model \<Rightarrow> string list \<Rightarrow> string \<Rightarrow> cell list list res" where
  "sat_split model texts lang =
     (if texts = [] then Inr []
      else res_bind (model_split model texts) (\<lambda>result. Inr (map (map CStr) result)))"

definition new_sat_segmenter ::
  "sat_runtime \<Rightarrow> string \<Rightarrow> int \<Rightarrow> string list option \<Rightarrow> bool \<Rightarrow> sat_segmenter res" where
  "new_sat_segmenter rt revision batch_size override require_gpu =
     res_bind (guard (1 \<le> batch_size) (ValueError ''inference_batch_size must be positive'')) (\<lambda>_.
     res_bind (load_wtpsplit rt) (\<lambda>_.
     res_bind (sat_model_class rt) (\<lambda>cls.
     res_bind (resolve_ort_providers rt override require_gpu) (\<lambda>requested.
     res_bind (cls SAT_MODEL_ID revision requested) (\<lambda>model.
     res_bind (active_ort_providers model requested require_gpu) (\<lambda>active.
       Inr \<lparr>seg_model_id = SAT_MODEL_ID,
            seg_version = (case wtpsplit_version rt of None \<Rightarrow> ''unknown'' | Some v \<Rightarrow> v),
            supports_mixed_languages = True,
            seg_split = sat_split model,
            sat_revision = revision, inference_batch_size = batch_size, ort_providers = active\<rparr>))))))"

lemma new_sat_segmenterD:
  assumes "new_sat_segmenter rt revision batch_size override require_gpu = Inr seg"
  obtains model requested where
    "resolve_ort_providers rt override require_gpu = Inr requested"
    "model_class rt SAT_MODEL_ID revision requested = Inr model"
    "active_ort_providers model requested require_gpu = Inr (ort_providers seg)"
    "seg_split seg = sat_split model" "seg_model_id seg = SAT_MODEL_ID"
  using assms by (auto simp: new_sat_segmenter_def sat_model_class_def split: if_splits)

text \<open>
  A job that requires a GPU never runs on another device unnoticed: when the segmenter is
  constructed, the session of the model really has the CUDA provider among its active ones.
\<close>

theorem gpu_required_is_active:
  assumes "new_sat_segmenter rt revision batch_size override True = Inr seg"
  shows "CUDA_PROVIDER \<in> set (ort_providers seg)
    \<and> (\<exists>model requested. model_class rt SAT_MODEL_ID revision requested = Inr model
        \<and> CUDA_PROVIDER \<in> set requested \<and> session_providers model = Some (ort_providers seg))"
  using assms
proof (rule new_sat_segmenterD)
  fix model requested
  assume "resolve_ort_providers rt override True = Inr requested"
    "model_class rt SAT_MODEL_ID revision requested = Inr model"
    "active_ort_providers model requested True = Inr (ort_providers seg)"
  then show ?thesis
    by (auto simp: resolve_ort_providers_def active_ort_providers_def effective_ort_providers_def
        split: if_splits option.splits list.splits)
qed

definition gpu_runtime :: sat_runtime where
  "gpu_runtime = \<lparr>has_wtpsplit = True, has_sat_class = True, wtpsplit_version = Some ''2.1'',
     available_ort_providers = [CUDA_PROVIDER, CPU_PROVIDER],
     model_class = (\<lambda>_ _ providers. Inr \<lparr>model_split = (\<lambda>texts. Inr (map dot_split texts)),
       session_providers = Some providers\<rparr>)\<rparr>"

theorem gpu_required_is_active_witness:
  "\<exists>seg. new_sat_segmenter gpu_runtime ''137da05'' 16 None True = Inr seg
     \<and> ort_providers seg = [CUDA_PROVIDER, CPU_PROVIDER] \<and> CUDA_PROVIDER \<in> set (ort_providers seg)"
proof -
  have "\<exists>seg. new_sat_segmenter gpu_runtime ''137da05'' 16 None True = Inr seg
     \<and> ort_providers seg = [CUDA_PROVIDER, CPU_PROVIDER]"
    by (simp add: new_sat_segmenter_def gpu_runtime_def load_wtpsplit_def sat_model_class_def
        resolve_ort_providers_def requested_ort_providers_def gpu_ort_providers_def
        active_ort_providers_def effective_ort_providers_def)
  then show ?thesis
    using gpu_required_is_active by blast
qed

text \<open>
  A model that segments every text on its own without losing a character gives an adapter the
  table splitter can rely on.
\<close>

lemma sat_segments_with:
  assumes "new_sat_segmenter rt revision batch_size override require_gpu = Inr seg"
    and "\<And>prov m texts. model_class rt SAT_MODEL_ID revision prov = Inr m \<Longrightarrow> texts \<noteq> [] \<Longrightarrow>
       model_split m texts = Inr (map split_text texts)"
    and "\<And>t. t \<noteq> [] \<Longrightarrow> concat (split_text t) = t \<and> [] \<notin> set (split_text t)"
  shows "segments_with (segmenter.truncate seg) split_text"
  using assms(1)
proof (rule new_sat_segmenterD)
  fix model requested
  assume "model_class rt SAT_MODEL_ID revision requested = Inr model" "seg_split seg = sat_split model"
  then show ?thesis
    using assms(2,3) by (simp add: segments_with_def segmenter.truncate_def sat_split_def comp_def)
qed

end
