(* ===== verification/Request_Scheduler.thy ===== *)
theory Request_Scheduler
  imports Prelude
begin

text \<open>
  The adaptive request scheduler (\<open>utils/request_scheduler.py\<close>). Times and rates are real numbers;
  rounding of floating-point arithmetic is not modelled. Every read of the clock is an argument of
  the operation, in the order the code reads it, so a thread can be delayed between any two reads.
  A block the code runs under one lock is one step of the model; the operations that take a lock
  more than once are split into their steps.
\<close>

section \<open>Settings\<close>

record rate_limits =
  max_in_flight :: int
  max_requests_per_minute :: real
  minimum_requests_per_minute :: real
  successes_per_increase :: int
  host_throttle_window_s :: real
  host_throttle_threshold :: int

record systemic_config =
  proportional_mode :: bool
  active_host_window_s :: real
  minimum_systemic_hosts :: int
  systemic_host_fraction :: real

record host_health_policy =
  health_window_s :: real
  health_threshold :: int
  health_active_window_s :: "real option"
  health_minimum_hosts :: "int option"
  health_fraction :: "real option"

definition ROLLING_WINDOW_S :: real where
  "ROLLING_WINDOW_S = 60"

definition SYSTEMIC_ACTIVE_HOST_WINDOW_S :: real where
  "SYSTEMIC_ACTIVE_HOST_WINDOW_S = 60"

definition SYSTEMIC_MINIMUM_HOSTS :: int where
  "SYSTEMIC_MINIMUM_HOSTS = 5"

definition SYSTEMIC_HOST_FRACTION :: real where
  "SYSTEMIC_HOST_FRACTION = 1 / 10"

definition require_positive :: "real \<Rightarrow> string \<Rightarrow> unit res" where
  "require_positive v msg = guard (0 < v) (ValueError msg)"

definition require_at_least :: "real \<Rightarrow> real \<Rightarrow> string \<Rightarrow> unit res" where
  "require_at_least v lower msg = guard (lower \<le> v) (ValueError msg)"

definition require_between :: "real \<Rightarrow> real \<Rightarrow> real \<Rightarrow> string \<Rightarrow> unit res" where
  "require_between v lower upper msg = guard (lower \<le> v \<and> v \<le> upper) (ValueError msg)"

definition require_fraction :: "real \<Rightarrow> string \<Rightarrow> unit res" where
  "require_fraction v msg = guard (0 < v \<and> v \<le> 1) (ValueError msg)"

definition with_default :: "'a option \<Rightarrow> 'a \<Rightarrow> 'a" where
  "with_default v d = (case v of None \<Rightarrow> d | Some x \<Rightarrow> x)"

definition has_proportional_settings :: "real option \<Rightarrow> int option \<Rightarrow> real option \<Rightarrow> bool" where
  "has_proportional_settings window hosts fraction \<longleftrightarrow> window \<noteq> None \<or> hosts \<noteq> None \<or> fraction \<noteq> None"

definition validate_scheduler_values ::
  "int \<Rightarrow> real \<Rightarrow> real option \<Rightarrow> real \<Rightarrow> int \<Rightarrow> real \<Rightarrow> int \<Rightarrow> real res" where
  "validate_scheduler_values max_fl rpm max_rpm min_rpm successes window threshold =
     res_bind (require_between (of_int max_fl) 1 16 ''max_in_flight must be between 1 and 16'') (\<lambda>_.
     res_bind (require_positive rpm ''requests_per_minute must be positive'') (\<lambda>_.
     let maximum = with_default max_rpm rpm in
     res_bind (guard (rpm \<le> maximum)
       (ValueError ''max_requests_per_minute must not be below the initial rate'')) (\<lambda>_.
     res_bind (require_positive min_rpm
       ''minimum_requests_per_minute must be positive and no greater than the initial rate'') (\<lambda>_.
     res_bind (guard (min_rpm \<le> rpm) (ValueError
       ''minimum_requests_per_minute must be positive and no greater than the initial rate'')) (\<lambda>_.
     res_bind (require_positive (of_int successes) ''successes_per_increase must be positive'') (\<lambda>_.
     res_bind (require_positive window ''host_throttle_window_s must be positive'') (\<lambda>_.
     res_bind (require_at_least (of_int threshold) 1 ''host_throttle_threshold must be at least 1'') (\<lambda>_.
       Inr maximum))))))))"

definition resolve_systemic_config ::
  "real option \<Rightarrow> int option \<Rightarrow> real option \<Rightarrow> systemic_config res" where
  "resolve_systemic_config window hosts fraction =
     (let proportional = has_proportional_settings window hosts fraction;
          active_window = with_default window SYSTEMIC_ACTIVE_HOST_WINDOW_S;
          minimum_hosts = with_default hosts SYSTEMIC_MINIMUM_HOSTS;
          host_fraction = with_default fraction SYSTEMIC_HOST_FRACTION in
      res_bind (require_positive active_window ''active_host_window_s must be positive'') (\<lambda>_.
      res_bind (require_at_least (of_int minimum_hosts) 1 ''minimum_systemic_hosts must be at least 1'') (\<lambda>_.
      res_bind (require_fraction host_fraction
        ''systemic_host_fraction must be between 0 (exclusive) and 1'') (\<lambda>_.
        Inr \<lparr>proportional_mode = proportional, active_host_window_s = active_window,
             minimum_systemic_hosts = minimum_hosts, systemic_host_fraction = host_fraction\<rparr>))))"

section \<open>State\<close>

record host_state =
  host_cooldown_until :: real
  host_next_request_at :: real
  recent_throttles :: "real list"

text \<open>The time of the last systemic reduction starts at minus infinity, here \<open>None\<close>.\<close>

record global_rate_state =
  current_requests_per_minute :: real
  successful_requests :: int
  next_request_at :: real
  cooldown_until :: real
  in_flight :: int
  last_systemic_reduction_at :: "real option"

record throttle_history =
  systemic_host_events :: "(string, real) dict"
  global_throttle_times :: "real list"
  active_host_timestamps :: "(string, real) dict"

record scheduler =
  limits :: rate_limits
  systemic :: systemic_config
  rate :: global_rate_state
  history :: throttle_history
  permits :: int
  host_states :: "(string, host_state) dict"
  request_started_at :: "real list"

definition new_host_state :: host_state where
  "new_host_state = \<lparr>host_cooldown_until = 0, host_next_request_at = 0, recent_throttles = []\<rparr>"

definition new_scheduler ::
  "int \<Rightarrow> real \<Rightarrow> real option \<Rightarrow> real \<Rightarrow> int \<Rightarrow> host_health_policy \<Rightarrow> scheduler res" where
  "new_scheduler max_fl rpm max_rpm min_rpm successes health =
     res_bind (validate_scheduler_values max_fl rpm max_rpm min_rpm successes
         (health_window_s health) (health_threshold health)) (\<lambda>maximum.
     res_bind (resolve_systemic_config (health_active_window_s health) (health_minimum_hosts health)
         (health_fraction health)) (\<lambda>sys.
       Inr \<lparr>limits = \<lparr>max_in_flight = max_fl, max_requests_per_minute = maximum,
                minimum_requests_per_minute = min_rpm, successes_per_increase = successes,
                host_throttle_window_s = health_window_s health,
                host_throttle_threshold = health_threshold health\<rparr>,
            systemic = sys,
            rate = \<lparr>current_requests_per_minute = rpm, successful_requests = 0, next_request_at = 0,
                cooldown_until = 0, in_flight = 0, last_systemic_reduction_at = None\<rparr>,
            history = \<lparr>systemic_host_events = [], global_throttle_times = [], active_host_timestamps = []\<rparr>,
            permits = max_fl, host_states = [], request_started_at = []\<rparr>))"

definition default_scheduler :: "scheduler res" where
  "default_scheduler = new_scheduler 3 180 None 60 100
     \<lparr>health_window_s = 10, health_threshold = 3,
      health_active_window_s = Some SYSTEMIC_ACTIVE_HOST_WINDOW_S,
      health_minimum_hosts = Some SYSTEMIC_MINIMUM_HOSTS, health_fraction = Some SYSTEMIC_HOST_FRACTION\<rparr>"

section \<open>Global rate\<close>

definition defer_all :: "real \<Rightarrow> real \<Rightarrow> scheduler \<Rightarrow> scheduler" where
  "defer_all delay_s now s =
     s\<lparr>rate := (rate s)\<lparr>cooldown_until := max (cooldown_until (rate s)) (now + max 0 delay_s)\<rparr>\<rparr>"

definition report_success :: "scheduler \<Rightarrow> scheduler" where
  "report_success s =
     (let r = rate s; l = limits s in
      if max_requests_per_minute l \<le> current_requests_per_minute r
      then s\<lparr>rate := r\<lparr>successful_requests := 0\<rparr>\<rparr>
      else if successful_requests r + 1 < successes_per_increase l
      then s\<lparr>rate := r\<lparr>successful_requests := successful_requests r + 1\<rparr>\<rparr>
      else s\<lparr>rate := r\<lparr>successful_requests := 0,
             current_requests_per_minute :=
               min (max_requests_per_minute l) (current_requests_per_minute r * (5 / 4))\<rparr>\<rparr>)"

definition apply_global_throttle_locked :: "real \<Rightarrow> real \<Rightarrow> scheduler \<Rightarrow> scheduler" where
  "apply_global_throttle_locked delay_s now s =
     (let r = rate s in
      s\<lparr>rate := r\<lparr>cooldown_until := max (cooldown_until r) (now + max 0 delay_s),
         current_requests_per_minute :=
           max (minimum_requests_per_minute (limits s)) (current_requests_per_minute r / 2),
         successful_requests := 0\<rparr>\<rparr>)"

definition report_throttled :: "real \<Rightarrow> real \<Rightarrow> scheduler \<Rightarrow> scheduler" where
  "report_throttled delay_s now s = apply_global_throttle_locked delay_s now s"

section \<open>Rolling windows\<close>

definition prune_recent :: "real list \<Rightarrow> real \<Rightarrow> real list" where
  "prune_recent ts now = dropWhile (\<lambda>t. t < now - ROLLING_WINDOW_S) ts"

definition record_recent :: "real list \<Rightarrow> real \<Rightarrow> real list" where
  "record_recent ts now = prune_recent (ts @ [now]) now"

definition apply_global_throttle :: "real \<Rightarrow> bool \<Rightarrow> real \<Rightarrow> real \<Rightarrow> scheduler \<Rightarrow> scheduler" where
  "apply_global_throttle delay_s count_event now_count now s =
     apply_global_throttle_locked delay_s now
       (if count_event
        then s\<lparr>history := (history s)\<lparr>global_throttle_times :=
               record_recent (global_throttle_times (history s)) now_count\<rparr>\<rparr>
        else s)"

definition host_state_of :: "string \<Rightarrow> scheduler \<Rightarrow> host_state \<times> scheduler" where
  "host_state_of host s =
     (case map_of (host_states s) host of
        Some st \<Rightarrow> (st, s)
      | None \<Rightarrow> (new_host_state, s\<lparr>host_states := AList.update host new_host_state (host_states s)\<rparr>))"

definition put_host :: "string \<Rightarrow> host_state \<Rightarrow> scheduler \<Rightarrow> scheduler" where
  "put_host host st s = s\<lparr>host_states := AList.update host st (host_states s)\<rparr>"

section \<open>Systemic throttling\<close>

definition active_host_count :: "real \<Rightarrow> scheduler \<Rightarrow> int \<times> scheduler" where
  "active_host_count now s =
     (let cutoff = now - active_host_window_s (systemic s);
          active = filter (\<lambda>(h, t). cutoff < t) (active_host_timestamps (history s))
      in (int (length active), s\<lparr>history := (history s)\<lparr>active_host_timestamps := active\<rparr>\<rparr>))"

definition systemic_threshold :: "real \<Rightarrow> scheduler \<Rightarrow> int \<times> scheduler" where
  "systemic_threshold now s =
     (if \<not> proportional_mode (systemic s) then (host_throttle_threshold (limits s), s)
      else case active_host_count now s of (active, s') \<Rightarrow>
        if active = 0 then (host_throttle_threshold (limits s), s')
        else (min active (max (minimum_systemic_hosts (systemic s))
                \<lceil>of_int active * systemic_host_fraction (systemic s)\<rceil>), s'))"

text \<open>One critical section records the event and decides; \<open>now_active\<close> is the read inside it.\<close>

definition record_systemic_host_event :: "string \<Rightarrow> real \<Rightarrow> real \<Rightarrow> scheduler \<Rightarrow> bool \<times> scheduler" where
  "record_systemic_host_event host now now_active s =
     (let h = history s;
          cutoff = now - host_throttle_window_s (limits s);
          events = AList.update host now (filter (\<lambda>(_, t). cutoff < t) (systemic_host_events h));
          s1 = s\<lparr>history := h\<lparr>global_throttle_times := record_recent (global_throttle_times h) now,
                 systemic_host_events := events\<rparr>\<rparr>
      in case systemic_threshold now_active s1 of (threshold, s2) \<Rightarrow>
           if threshold \<le> int (length events)
              \<and> (case last_systemic_reduction_at (rate s2) of
                   None \<Rightarrow> True | Some t \<Rightarrow> host_throttle_window_s (limits s2) < now - t)
           then (True, s2\<lparr>rate := (rate s2)\<lparr>last_systemic_reduction_at := Some now\<rparr>\<rparr>)
           else (False, s2))"

definition cool_down_host :: "string \<Rightarrow> real \<Rightarrow> real \<Rightarrow> scheduler \<Rightarrow> scheduler" where
  "cool_down_host host delay now s =
     (case host_state_of host s of (st, s') \<Rightarrow>
        put_host host (st\<lparr>host_cooldown_until := max (host_cooldown_until st) (now + delay),
                          recent_throttles := record_recent (recent_throttles st) now\<rparr>) s')"

definition report_host_throttled ::
  "string \<Rightarrow> real \<Rightarrow> real \<Rightarrow> real \<Rightarrow> real \<Rightarrow> scheduler \<Rightarrow> scheduler" where
  "report_host_throttled host delay_s now now_active now_global s =
     (case record_systemic_host_event host now now_active (cool_down_host host (max 0 delay_s) now s) of
        (escalate, s') \<Rightarrow>
          if escalate then apply_global_throttle delay_s False now_global now_global s' else s')"

section \<open>Pacing one host\<close>

definition mark_active :: "string \<Rightarrow> real \<Rightarrow> scheduler \<Rightarrow> scheduler" where
  "mark_active host now s =
     s\<lparr>history := (history s)\<lparr>active_host_timestamps :=
       AList.update host now (active_host_timestamps (history s))\<rparr>\<rparr>"

text \<open>
  The locked part of one round of the loop: the round reserves the host from \<open>ready_at\<close> on.
\<close>

definition pace_reserve :: "real \<Rightarrow> real \<Rightarrow> host_state \<Rightarrow> real \<times> host_state" where
  "pace_reserve min_interval_s now st =
     (let ready_at = max now (max (host_cooldown_until st) (host_next_request_at st))
      in (ready_at, st\<lparr>host_next_request_at := ready_at + max 0 min_interval_s\<rparr>))"

text \<open>
  One round of the loop as the thread sees it: the two reads before the wait, what other threads
  do to the host while it sleeps, and the read after it wakes up.
\<close>

record pace_round =
  now_locked :: real
  now_wait :: real
  meanwhile :: "host_state \<Rightarrow> host_state"
  now_awake :: real

text \<open>
  The loop over the rounds the thread gets to run; \<open>None\<close> when it has not returned by then. The
  result is the host, the reading at which the thread was let through, and the number of sleeps.
\<close>

fun pace_host :: "real \<Rightarrow> pace_round list \<Rightarrow> host_state \<Rightarrow> (host_state \<times> real \<times> nat) option" where
  "pace_host min_interval_s [] st = None"
| "pace_host min_interval_s (rd # rds) st =
     (case pace_reserve min_interval_s (now_locked rd) st of (ready_at, st1) \<Rightarrow>
        if ready_at - now_wait rd \<le> 0 then Some (st1, now_wait rd, 0)
        else let st2 = meanwhile rd st1 in
          if now_awake rd < host_cooldown_until st2
          then (case pace_host min_interval_s rds st2 of
                  None \<Rightarrow> None | Some (st', t, sleeps) \<Rightarrow> Some (st', t, Suc sleeps))
          else Some (st2, now_awake rd, 1))"

section \<open>Running an operation\<close>

text \<open>Acquiring the semaphore blocks while no permit is left.\<close>

definition run_reserve :: "real \<Rightarrow> scheduler \<Rightarrow> (real \<times> scheduler) option" where
  "run_reserve now s =
     (if permits s \<le> 0 then None
      else let r = rate s;
               ready_at = max now (max (next_request_at r) (cooldown_until r));
               interval = 60 / current_requests_per_minute r
           in Some (ready_at, s\<lparr>permits := permits s - 1, rate := r\<lparr>next_request_at := ready_at + interval\<rparr>\<rparr>))"

definition run_start :: "real \<Rightarrow> scheduler \<Rightarrow> scheduler" where
  "run_start now s =
     s\<lparr>request_started_at := record_recent (request_started_at s) now,
       rate := (rate s)\<lparr>in_flight := in_flight (rate s) + 1\<rparr>\<rparr>"

text \<open>The \<open>finally\<close> clause and the release of the permit, whether the operation returned or raised.\<close>

definition run_finish :: "scheduler \<Rightarrow> scheduler" where
  "run_finish s =
     s\<lparr>permits := permits s + 1, rate := (rate s)\<lparr>in_flight := in_flight (rate s) - 1\<rparr>\<rparr>"

section \<open>Telemetry\<close>

record request_scheduler_snapshot =
  snap_requests_last_minute :: nat
  snap_current_requests_per_minute :: real
  snap_maximum_requests_per_minute :: real
  snap_utilization_percent :: real
  snap_in_flight :: int
  snap_max_in_flight :: int
  snap_throttle_events :: nat
  snap_throttled_hosts_last_minute :: nat
  snap_cooling_down_hosts :: nat
  snap_cooldown_remaining_s :: real

definition global_snapshot_metrics :: "real \<Rightarrow> scheduler \<Rightarrow> (nat \<times> nat \<times> real \<times> real) \<times> scheduler" where
  "global_snapshot_metrics now s =
     (let started = prune_recent (request_started_at s) now;
          throttles = prune_recent (global_throttle_times (history s)) now
      in ((length started, length throttles, max 0 (cooldown_until (rate s) - now),
           real (length started) / max_requests_per_minute (limits s) * 100),
          s\<lparr>request_started_at := started, history := (history s)\<lparr>global_throttle_times := throttles\<rparr>\<rparr>))"

definition host_snapshot_metrics :: "real \<Rightarrow> scheduler \<Rightarrow> (nat \<times> nat) \<times> scheduler" where
  "host_snapshot_metrics now s =
     (let hosts = map (\<lambda>(h, st). (h, st\<lparr>recent_throttles := prune_recent (recent_throttles st) now\<rparr>)) (host_states s)
      in ((length (filter (\<lambda>(h, st). recent_throttles st \<noteq> []) hosts),
           length (filter (\<lambda>(h, st). now < host_cooldown_until st) hosts)),
          s\<lparr>host_states := hosts\<rparr>))"

definition snapshot :: "real \<Rightarrow> scheduler \<Rightarrow> request_scheduler_snapshot \<times> scheduler" where
  "snapshot now s =
     (case global_snapshot_metrics now s of ((recent, throttle_events, cooldown, utilization), s1) \<Rightarrow>
      case host_snapshot_metrics now s1 of ((throttled_hosts, cooling_down), s2) \<Rightarrow>
        (\<lparr>snap_requests_last_minute = recent,
          snap_current_requests_per_minute = current_requests_per_minute (rate s2),
          snap_maximum_requests_per_minute = max_requests_per_minute (limits s2),
          snap_utilization_percent = utilization,
          snap_in_flight = in_flight (rate s2),
          snap_max_in_flight = max_in_flight (limits s2),
          snap_throttle_events = throttle_events,
          snap_throttled_hosts_last_minute = throttled_hosts,
          snap_cooling_down_hosts = cooling_down,
          snap_cooldown_remaining_s = cooldown\<rparr>, s2))"

section \<open>The system of threads\<close>

text \<open>
  A system is the scheduler, the start times of the requests that hold a permit and sleep, the
  number of operations that run, and the start times granted so far, latest first. A sleeping
  request starts once its time has come, since \<open>time.sleep\<close> never returns early. For the systemic
  reductions it keeps the times of the decisions, latest first, the decisions whose reduction is
  still to be applied, and the number of reductions applied.
\<close>

record system =
  sched :: scheduler
  sleeping :: "real list"
  running :: nat
  granted :: "real list"
  decisions :: "real list"
  to_apply :: nat
  reductions :: nat

definition boot :: "scheduler \<Rightarrow> system" where
  "boot s = \<lparr>sched = s, sleeping = [], running = 0, granted = [], decisions = [],
     to_apply = 0, reductions = 0\<rparr>"

inductive sys_step :: "system \<Rightarrow> system \<Rightarrow> bool" where
  step_reserve: "run_reserve now (sched y) = Some (ready_at, s) \<Longrightarrow>
     sys_step y (y\<lparr>sched := s, sleeping := ready_at # sleeping y, granted := ready_at # granted y\<rparr>)"
| step_start: "ready_at \<in> set (sleeping y) \<Longrightarrow> ready_at \<le> now \<Longrightarrow>
     sys_step y (y\<lparr>sched := run_start now (sched y), sleeping := remove1 ready_at (sleeping y),
       running := Suc (running y)\<rparr>)"
| step_finish: "0 < running y \<Longrightarrow>
     sys_step y (y\<lparr>sched := run_finish (sched y), running := running y - 1\<rparr>)"
| step_success: "sys_step y (y\<lparr>sched := report_success (sched y)\<rparr>)"
| step_throttled: "sys_step y (y\<lparr>sched := report_throttled delay now (sched y)\<rparr>)"
| step_defer: "sys_step y (y\<lparr>sched := defer_all delay now (sched y)\<rparr>)"
| step_cool_down: "sys_step y (y\<lparr>sched := cool_down_host host delay now (sched y)\<rparr>)"
| step_record: "record_systemic_host_event host now now_active (sched y) = (escalate, s) \<Longrightarrow>
     sys_step y (if escalate
       then y\<lparr>sched := s, decisions := now # decisions y, to_apply := Suc (to_apply y)\<rparr>
       else y\<lparr>sched := s\<rparr>)"
| step_escalate: "0 < to_apply y \<Longrightarrow>
     sys_step y (y\<lparr>sched := apply_global_throttle delay False now now (sched y),
       to_apply := to_apply y - 1, reductions := Suc (reductions y)\<rparr>)"
| step_active: "sys_step y (y\<lparr>sched := mark_active host now (sched y)\<rparr>)"
| step_host: "sys_step y (y\<lparr>sched := put_host host st (sched y)\<rparr>)"
| step_snapshot: "sys_step y (y\<lparr>sched := snd (snapshot now (sched y))\<rparr>)"

inductive_cases sys_stepE: "sys_step y z"

section \<open>Invariants\<close>

definition limits_ok :: "rate_limits \<Rightarrow> bool" where
  "limits_ok l \<longleftrightarrow> 1 \<le> max_in_flight l \<and> max_in_flight l \<le> 16
     \<and> 0 < minimum_requests_per_minute l \<and> minimum_requests_per_minute l \<le> max_requests_per_minute l
     \<and> 0 < successes_per_increase l"

definition rate_ok :: "rate_limits \<Rightarrow> global_rate_state \<Rightarrow> bool" where
  "rate_ok l r \<longleftrightarrow> minimum_requests_per_minute l \<le> current_requests_per_minute r
     \<and> current_requests_per_minute r \<le> max_requests_per_minute l
     \<and> 0 \<le> successful_requests r \<and> successful_requests r < successes_per_increase l"

text \<open>The granted start times, latest first, are at least \<open>gap\<close> apart, and so is the next one.\<close>

fun spaced :: "real \<Rightarrow> real \<Rightarrow> real list \<Rightarrow> bool" where
  "spaced gap next [] \<longleftrightarrow> True"
| "spaced gap next (t # ts) \<longleftrightarrow> t + gap \<le> next \<and> spaced gap t ts"

definition sys_inv :: "rate_limits \<Rightarrow> system \<Rightarrow> bool" where
  "sys_inv l y \<longleftrightarrow>
     limits_ok l \<and> limits (sched y) = l \<and> rate_ok l (rate (sched y))
     \<and> 0 \<le> permits (sched y)
     \<and> permits (sched y) + int (length (sleeping y)) + int (running y) = max_in_flight l
     \<and> in_flight (rate (sched y)) = int (running y)
     \<and> spaced (60 / max_requests_per_minute l) (next_request_at (rate (sched y))) (granted y)"

text \<open>The decisions are more than a window apart, and each is applied at most once.\<close>

definition systemic_inv :: "system \<Rightarrow> bool" where
  "systemic_inv y \<longleftrightarrow>
     0 < host_throttle_window_s (limits (sched y))
     \<and> last_systemic_reduction_at (rate (sched y)) = (case decisions y of [] \<Rightarrow> None | t # _ \<Rightarrow> Some t)
     \<and> sorted_wrt (\<lambda>a b. host_throttle_window_s (limits (sched y)) < a - b) (decisions y)
     \<and> reductions y + to_apply y = length (decisions y)"

lemma spaced_mono: "spaced gap next ts \<Longrightarrow> next \<le> next' \<Longrightarrow> spaced gap next' ts"
  by (cases ts) auto

lemma validate_scheduler_values_Inr:
  "validate_scheduler_values a b c d e f g = Inr m \<longleftrightarrow>
     1 \<le> a \<and> a \<le> 16 \<and> 0 < b \<and> m = with_default c b \<and> b \<le> m \<and> 0 < d \<and> d \<le> b \<and> 0 < e \<and> 0 < f \<and> 1 \<le> g"
  by (auto simp: validate_scheduler_values_def require_between_def require_positive_def
      require_at_least_def Let_def)

lemma new_scheduler_inv:
  assumes "new_scheduler max_fl rpm max_rpm min_rpm successes health = Inr s"
  shows "sys_inv (limits s) (boot s)"
  using assms
  by (auto simp: new_scheduler_def validate_scheduler_values_Inr sys_inv_def boot_def limits_ok_def rate_ok_def)

lemma host_state_of_frame:
  "host_state_of host s = (st, s') \<Longrightarrow>
     limits s' = limits s \<and> rate s' = rate s \<and> permits s' = permits s"
  by (auto simp: host_state_of_def split: option.splits)

lemma cool_down_host_frame:
  "limits (cool_down_host h d t s) = limits s \<and> rate (cool_down_host h d t s) = rate s
   \<and> permits (cool_down_host h d t s) = permits s"
proof -
  obtain st s' where st: "host_state_of h s = (st, s')"
    by (cases "host_state_of h s")
  show ?thesis
    using host_state_of_frame [OF st] by (simp add: cool_down_host_def put_host_def st)
qed

lemma systemic_threshold_frame:
  "limits (snd (systemic_threshold t s)) = limits s \<and> rate (snd (systemic_threshold t s)) = rate s
   \<and> permits (snd (systemic_threshold t s)) = permits s
   \<and> systemic_host_events (history (snd (systemic_threshold t s))) = systemic_host_events (history s)"
  by (simp add: systemic_threshold_def active_host_count_def Let_def)

lemma rate_last_same: "r\<lparr>last_systemic_reduction_at := last_systemic_reduction_at r\<rparr> = r"
  by simp

text \<open>The decision: an escalation moves the time of the last reduction by more than a window.\<close>

lemma record_systemic_decision:
  assumes "record_systemic_host_event h t u s = (escalate, s')"
  shows "limits s' = limits s \<and> permits s' = permits s
    \<and> rate s' = (rate s)\<lparr>last_systemic_reduction_at :=
          (if escalate then Some t else last_systemic_reduction_at (rate s))\<rparr>
    \<and> (escalate \<longrightarrow> (case last_systemic_reduction_at (rate s) of
          None \<Rightarrow> True | Some x \<Rightarrow> host_throttle_window_s (limits s) < t - x))"
proof -
  let ?events = "AList.update h t (filter (\<lambda>(_, x). t - host_throttle_window_s (limits s) < x)
      (systemic_host_events (history s)))"
  let ?s1 = "s\<lparr>history := (history s)\<lparr>global_throttle_times := record_recent (global_throttle_times (history s)) t,
      systemic_host_events := ?events\<rparr>\<rparr>"
  obtain n s2 where thr: "systemic_threshold u ?s1 = (n, s2)"
    by (cases "systemic_threshold u ?s1")
  have s2: "limits s2 = limits s \<and> rate s2 = rate s \<and> permits s2 = permits s"
    using systemic_threshold_frame [of u ?s1] by (simp add: thr)
  have "(escalate, s') =
      (if n \<le> int (length ?events) \<and> (case last_systemic_reduction_at (rate s2) of
            None \<Rightarrow> True | Some x \<Rightarrow> host_throttle_window_s (limits s2) < t - x)
       then (True, s2\<lparr>rate := (rate s2)\<lparr>last_systemic_reduction_at := Some t\<rparr>\<rparr>) else (False, s2))"
    using assms unfolding record_systemic_host_event_def Let_def thr by simp
  then show ?thesis
    using s2 by (cases escalate) (auto simp: rate_last_same split: if_splits option.splits)
qed

lemma snapshot_frame:
  "limits (snd (snapshot t s)) = limits s \<and> permits (snd (snapshot t s)) = permits s
   \<and> rate (snd (snapshot t s)) = rate s"
  by (simp add: snapshot_def global_snapshot_metrics_def host_snapshot_metrics_def Let_def)

lemma report_success_frame:
  assumes "limits_ok (limits s)" and "rate_ok (limits s) (rate s)"
  shows "limits (report_success s) = limits s \<and> permits (report_success s) = permits s
    \<and> rate_ok (limits s) (rate (report_success s))
    \<and> next_request_at (rate (report_success s)) = next_request_at (rate s)
    \<and> in_flight (rate (report_success s)) = in_flight (rate s)"
  using assms by (auto simp: report_success_def limits_ok_def rate_ok_def Let_def min_def)

lemma apply_global_throttle_frame:
  assumes "limits_ok (limits s)" and "rate_ok (limits s) (rate s)"
  shows "limits (apply_global_throttle d c t u s) = limits s
    \<and> permits (apply_global_throttle d c t u s) = permits s
    \<and> rate_ok (limits s) (rate (apply_global_throttle d c t u s))
    \<and> next_request_at (rate (apply_global_throttle d c t u s)) = next_request_at (rate s)
    \<and> in_flight (rate (apply_global_throttle d c t u s)) = in_flight (rate s)"
  using assms
  by (auto simp: apply_global_throttle_def apply_global_throttle_locked_def limits_ok_def rate_ok_def Let_def)

lemma report_throttled_apply: "report_throttled d t s = apply_global_throttle d False u t s"
  by (simp add: report_throttled_def apply_global_throttle_def)

lemma run_reserve_slot:
  assumes "run_reserve now s = Some (ready_at, s')" and "limits_ok (limits s)" and "rate_ok (limits s) (rate s)"
  shows "limits s' = limits s \<and> permits s' = permits s - 1 \<and> 0 < permits s
    \<and> rate_ok (limits s) (rate s') \<and> in_flight (rate s') = in_flight (rate s)
    \<and> now \<le> ready_at \<and> cooldown_until (rate s) \<le> ready_at \<and> next_request_at (rate s) \<le> ready_at
    \<and> ready_at + 60 / max_requests_per_minute (limits s) \<le> next_request_at (rate s')"
proof -
  have "60 / max_requests_per_minute (limits s) \<le> 60 / current_requests_per_minute (rate s)"
    using assms(2,3) by (intro divide_left_mono) (auto simp: limits_ok_def rate_ok_def)
  then show ?thesis
    using assms by (auto simp: run_reserve_def rate_ok_def Let_def split: if_splits)
qed

lemma sys_inv_step: "sys_step y z \<Longrightarrow> sys_inv l y \<Longrightarrow> sys_inv l z"
proof (induction rule: sys_step.induct)
  case (step_reserve now y ready_at s)
  then show ?case
    using run_reserve_slot [OF step_reserve.hyps] spaced_mono by (auto simp: sys_inv_def)
next
  case (step_start ready_at y now)
  then have "length (sleeping y) = Suc (length (remove1 ready_at (sleeping y)))"
    by (simp add: length_remove1) (metis Suc_pred length_pos_if_in_set)
  then show ?case
    using step_start by (simp add: sys_inv_def run_start_def rate_ok_def)
next
  case (step_finish y)
  then show ?case
    by (simp add: sys_inv_def run_finish_def rate_ok_def of_nat_diff)
next
  case (step_success y)
  then show ?case
    using report_success_frame [of "sched y"] by (auto simp: sys_inv_def)
next
  case (step_throttled y delay now)
  then show ?case
    using apply_global_throttle_frame [of "sched y" delay False now now]
    by (auto simp: sys_inv_def report_throttled_apply [of delay now "sched y" now])
next
  case (step_defer y delay now)
  then show ?case
    by (simp add: sys_inv_def defer_all_def rate_ok_def)
next
  case (step_cool_down y host delay now)
  then show ?case
    using cool_down_host_frame [of host delay now "sched y"] by (simp add: sys_inv_def)
next
  case (step_record host now now_active y escalate s)
  then show ?case
    using record_systemic_decision [OF step_record.hyps] by (auto simp: sys_inv_def rate_ok_def)
next
  case (step_escalate y delay now)
  then show ?case
    using apply_global_throttle_frame [of "sched y" delay False now now] by (auto simp: sys_inv_def)
next
  case (step_active y host now)
  then show ?case
    by (simp add: sys_inv_def mark_active_def)
next
  case (step_host y host st)
  then show ?case
    by (simp add: sys_inv_def put_host_def)
next
  case (step_snapshot y now)
  then show ?case
    using snapshot_frame [of now "sched y"] by (simp add: sys_inv_def)
qed

lemma sys_inv_reachable: "sys_step\<^sup>*\<^sup>* y z \<Longrightarrow> sys_inv l y \<Longrightarrow> sys_inv l z"
  by (induction rule: rtranclp_induct) (auto intro: sys_inv_step)

lemma last_reduction_frames:
  "last_systemic_reduction_at (rate (report_success s)) = last_systemic_reduction_at (rate s)"
  "last_systemic_reduction_at (rate (apply_global_throttle d c t u s)) = last_systemic_reduction_at (rate s)"
  "last_systemic_reduction_at (rate (defer_all d t s)) = last_systemic_reduction_at (rate s)"
  "last_systemic_reduction_at (rate (run_start t s)) = last_systemic_reduction_at (rate s)"
  "last_systemic_reduction_at (rate (run_finish s)) = last_systemic_reduction_at (rate s)"
  "limits (report_success s) = limits s"
  "limits (apply_global_throttle d c t u s) = limits s"
  "limits (defer_all d t s) = limits s" "limits (run_start t s) = limits s" "limits (run_finish s) = limits s"
  by (simp_all add: report_success_def apply_global_throttle_def apply_global_throttle_locked_def
      defer_all_def run_start_def run_finish_def Let_def)

lemma run_reserve_last:
  "run_reserve t s = Some (r, s') \<Longrightarrow> limits s' = limits s
     \<and> last_systemic_reduction_at (rate s') = last_systemic_reduction_at (rate s)"
  by (auto simp: run_reserve_def Let_def split: if_splits)

lemma systemic_decide:
  assumes "systemic_inv y" and dec: "record_systemic_host_event h t u (sched y) = (True, s)"
  shows "systemic_inv (y\<lparr>sched := s, decisions := t # decisions y, to_apply := Suc (to_apply y)\<rparr>)"
proof (cases "decisions y")
  case Nil
  then show ?thesis
    using assms(1) record_systemic_decision [OF dec] by (simp add: systemic_inv_def)
next
  case (Cons x xs)
  have gap: "host_throttle_window_s (limits (sched y)) < t - x" and s: "limits s = limits (sched y)"
      "last_systemic_reduction_at (rate s) = Some t"
    using assms(1) record_systemic_decision [OF dec] by (simp_all add: systemic_inv_def Cons)
  have "host_throttle_window_s (limits (sched y)) < t - b" if "b \<in> set xs" for b
  proof -
    have "host_throttle_window_s (limits (sched y)) < x - b" "0 < host_throttle_window_s (limits (sched y))"
      using assms(1) that by (simp_all add: systemic_inv_def Cons)
    then show ?thesis
      using gap by linarith
  qed
  then show ?thesis
    using assms(1) gap s by (simp add: systemic_inv_def Cons)
qed

lemma systemic_inv_frame:
  assumes "systemic_inv y" and "limits s = limits (sched y)"
    and "last_systemic_reduction_at (rate s) = last_systemic_reduction_at (rate (sched y))"
  shows "systemic_inv (y\<lparr>sched := s\<rparr>)"
  using assms by (simp add: systemic_inv_def)

lemma systemic_inv_ghosts [simp]:
  "systemic_inv (y\<lparr>sleeping := a\<rparr>) = systemic_inv y"
  "systemic_inv (y\<lparr>running := b\<rparr>) = systemic_inv y"
  "systemic_inv (y\<lparr>granted := c\<rparr>) = systemic_inv y"
  by (simp_all add: systemic_inv_def)

lemma systemic_inv_step: "sys_step y z \<Longrightarrow> systemic_inv y \<Longrightarrow> systemic_inv z"
proof (induction rule: sys_step.induct)
  case (step_reserve now y ready_at s)
  then show ?case
    using run_reserve_last [OF step_reserve.hyps] by (simp add: systemic_inv_def)
next
  case (step_record host now now_active y escalate s)
  then show ?case
    using systemic_decide [of y host now now_active s] record_systemic_decision [OF step_record.hyps]
    by (cases escalate) (simp_all add: systemic_inv_def)
next
  case (step_escalate y delay now)
  then show ?case
    by (auto simp: systemic_inv_def last_reduction_frames)
next
  case (step_throttled y delay now)
  then show ?case
    by (intro systemic_inv_frame)
      (simp_all add: report_throttled_apply [of delay now "sched y" now] last_reduction_frames)
qed (simp_all add: systemic_inv_def last_reduction_frames cool_down_host_frame mark_active_def put_host_def
    snapshot_frame)

lemma systemic_inv_reachable: "sys_step\<^sup>*\<^sup>* y z \<Longrightarrow> systemic_inv y \<Longrightarrow> systemic_inv z"
  by (induction rule: rtranclp_induct) (auto intro: systemic_inv_step)

lemma new_scheduler_systemic:
  assumes "new_scheduler max_fl rpm max_rpm min_rpm successes health = Inr s"
  shows "systemic_inv (boot s)"
  using assms by (auto simp: new_scheduler_def validate_scheduler_values_Inr systemic_inv_def boot_def)

lemma limits_step: "sys_step y z \<Longrightarrow> sys_inv (limits (sched y)) y \<Longrightarrow> limits (sched z) = limits (sched y)"
  using sys_inv_step [of y z "limits (sched y)"] by (simp add: sys_inv_def)

section \<open>What the scheduler promises\<close>

text \<open>
  C18. In every state any interleaving of threads can reach, the number of running operations and
  the number of held permits never exceed the configured bound, and the request rate stays between
  the configured minimum and maximum.
\<close>

theorem scheduler_bounds:
  assumes "new_scheduler max_fl rpm max_rpm min_rpm successes health = Inr s"
    and "sys_step\<^sup>*\<^sup>* (boot s) y"
  shows "0 \<le> in_flight (rate (sched y)) \<and> in_flight (rate (sched y)) = int (running y)
    \<and> int (running y) + int (length (sleeping y)) \<le> max_fl \<and> max_fl \<le> 16
    \<and> min_rpm \<le> current_requests_per_minute (rate (sched y))
    \<and> current_requests_per_minute (rate (sched y)) \<le> with_default max_rpm rpm"
proof -
  have l: "max_in_flight (limits s) = max_fl" "max_requests_per_minute (limits s) = with_default max_rpm rpm"
    "minimum_requests_per_minute (limits s) = min_rpm"
    using assms(1) by (auto simp: new_scheduler_def validate_scheduler_values_Inr)
  have "sys_inv (limits s) y"
    using assms(2) new_scheduler_inv [OF assms(1)] by (rule sys_inv_reachable)
  then show ?thesis
    by (auto simp: sys_inv_def limits_ok_def rate_ok_def simp flip: l)
qed

lemma spaced_gap:
  "spaced gap next ts \<Longrightarrow> i \<le> j \<Longrightarrow> j < length ts \<Longrightarrow> real (j - i) * gap \<le> ts ! i - ts ! j"
proof (induction gap "next" ts arbitrary: i j rule: spaced.induct)
  case (2 gap "next" t ts)
  show ?case
  proof (cases i)
    case 0
    show ?thesis
    proof (cases j)
      case (Suc k)
      then have head: "ts \<noteq> []" "hd ts + gap \<le> t"
        using "2.prems" by (cases ts; simp)+
      have "real (k - 0) * gap \<le> ts ! 0 - ts ! k"
        using "2.prems" Suc by (intro "2.IH") simp_all
      then show ?thesis
        using 0 Suc head by (simp add: hd_conv_nth algebra_simps)
    qed (simp add: 0)
  next
    case (Suc k)
    then obtain m where "j = Suc m"
      using "2.prems"(2) by (cases j) simp_all
    then show ?thesis
      using "2.IH" [of k m] "2.prems" Suc by simp
  qed
qed simp

text \<open>
  C23. Request slots are never granted faster than the configured maximum: whatever the threads do,
  \<open>k\<close> slots granted one after the other span at least \<open>k * 60 / maximum\<close> seconds.
\<close>

theorem granted_slots_paced:
  assumes "new_scheduler max_fl rpm max_rpm min_rpm successes health = Inr s"
    and "sys_step\<^sup>*\<^sup>* (boot s) y" and "i \<le> j" and "j < length (granted y)"
  shows "real (j - i) * (60 / with_default max_rpm rpm) \<le> granted y ! i - granted y ! j"
proof -
  have l: "max_requests_per_minute (limits s) = with_default max_rpm rpm"
    using assms(1) by (auto simp: new_scheduler_def validate_scheduler_values_Inr)
  have "sys_inv (limits s) y"
    using assms(2) new_scheduler_inv [OF assms(1)] by (rule sys_inv_reachable)
  then have "spaced (60 / with_default max_rpm rpm) (next_request_at (rate (sched y))) (granted y)"
    by (simp add: sys_inv_def flip: l)
  then show ?thesis
    using assms(3,4) by (rule spaced_gap)
qed

text \<open>
  Systemic throttling reduces the global rate at most once per window: the decisions that any
  interleaving of throttle reports can make are more than a window apart, and no more reductions
  are applied than decided.
\<close>

theorem systemic_reductions_rare:
  assumes "new_scheduler max_fl rpm max_rpm min_rpm successes health = Inr s"
    and "sys_step\<^sup>*\<^sup>* (boot s) y"
  shows "sorted_wrt (\<lambda>later earlier. health_window_s health < later - earlier) (decisions y)
    \<and> reductions y \<le> length (decisions y)"
proof -
  have l: "host_throttle_window_s (limits s) = health_window_s health"
    using assms(1) by (auto simp: new_scheduler_def validate_scheduler_values_Inr)
  have "sys_inv (limits s) y" "systemic_inv y"
    using assms new_scheduler_inv sys_inv_reachable new_scheduler_systemic systemic_inv_reachable by blast+
  then show ?thesis
    by (auto simp: sys_inv_def systemic_inv_def simp flip: l)
qed

text \<open>A scheduler with three permits, and a run of it in which two requests get a slot.\<close>

definition sample_health :: host_health_policy where
  "sample_health = \<lparr>health_window_s = 10, health_threshold = 2, health_active_window_s = None,
     health_minimum_hosts = None, health_fraction = None\<rparr>"

definition sample_scheduler :: scheduler where
  "sample_scheduler =
     \<lparr>limits = \<lparr>max_in_flight = 3, max_requests_per_minute = 180, minimum_requests_per_minute = 60,
        successes_per_increase = 100, host_throttle_window_s = 10, host_throttle_threshold = 2\<rparr>,
      systemic = \<lparr>proportional_mode = False, active_host_window_s = 60, minimum_systemic_hosts = 5,
        systemic_host_fraction = 1 / 10\<rparr>,
      rate = \<lparr>current_requests_per_minute = 180, successful_requests = 0, next_request_at = 0,
        cooldown_until = 0, in_flight = 0, last_systemic_reduction_at = None\<rparr>,
      history = \<lparr>systemic_host_events = [], global_throttle_times = [], active_host_timestamps = []\<rparr>,
      permits = 3, host_states = [], request_started_at = []\<rparr>"

lemma sample_scheduler: "new_scheduler 3 180 None 60 100 sample_health = Inr sample_scheduler"
  by (simp add: sample_scheduler_def sample_health_def new_scheduler_def validate_scheduler_values_def
      require_between_def require_positive_def require_at_least_def require_fraction_def with_default_def
      resolve_systemic_config_def has_proportional_settings_def SYSTEMIC_ACTIVE_HOST_WINDOW_S_def
      SYSTEMIC_MINIMUM_HOSTS_def SYSTEMIC_HOST_FRACTION_def)

lemma sample_fields:
  "permits sample_scheduler = 3" "next_request_at (rate sample_scheduler) = 0"
  "cooldown_until (rate sample_scheduler) = 0"
  "current_requests_per_minute (rate sample_scheduler) = 180"
  "proportional_mode (systemic sample_scheduler) = False"
  "host_throttle_threshold (limits sample_scheduler) = 2"
  "host_throttle_window_s (limits sample_scheduler) = 10"
  "systemic_host_events (history sample_scheduler) = []"
  "last_systemic_reduction_at (rate sample_scheduler) = None"
  by (simp_all add: sample_scheduler_def)

lemma sample_run: "\<exists>y. sys_step\<^sup>*\<^sup>* (boot sample_scheduler) y \<and> granted y = [5 + 1 / 3, 5]"
proof -
  let ?s = sample_scheduler
  let ?s1 = "?s\<lparr>permits := 2, rate := (rate ?s)\<lparr>next_request_at := 5 + 1 / 3\<rparr>\<rparr>"
  have r1: "run_reserve 5 (sched (boot ?s)) = Some (5, ?s1)"
    by (simp add: run_reserve_def boot_def sample_fields Let_def)
  let ?y1 = "(boot ?s)\<lparr>sched := ?s1, sleeping := [5], granted := [5]\<rparr>"
  have "sys_step (boot ?s) ?y1"
    using step_reserve [OF r1] by (simp add: boot_def)
  moreover
  obtain s2 where r2: "run_reserve 5 (sched ?y1) = Some (5 + 1 / 3, s2)"
    by (simp add: run_reserve_def boot_def sample_fields Let_def)
  have "sys_step ?y1 (?y1\<lparr>sched := s2, sleeping := [5 + 1 / 3, 5], granted := [5 + 1 / 3, 5]\<rparr>)"
    using step_reserve [OF r2] by (simp add: boot_def)
  ultimately have "sys_step\<^sup>*\<^sup>* (boot ?s) (?y1\<lparr>sched := s2, sleeping := [5 + 1 / 3, 5], granted := [5 + 1 / 3, 5]\<rparr>)"
    by (meson rtranclp.rtrancl_into_rtrancl rtranclp.rtrancl_refl)
  then show ?thesis
    by (intro exI conjI) (assumption, simp)
qed

theorem scheduler_bounds_witness:
  "\<exists>y. sys_step\<^sup>*\<^sup>* (boot sample_scheduler) y \<and> length (granted y) = 2
     \<and> in_flight (rate (sched y)) \<le> 3
     \<and> 60 \<le> current_requests_per_minute (rate (sched y))
     \<and> current_requests_per_minute (rate (sched y)) \<le> 180"
proof -
  obtain y where y: "sys_step\<^sup>*\<^sup>* (boot sample_scheduler) y" "granted y = [5 + 1 / 3, 5]"
    using sample_run by blast
  then show ?thesis
    using scheduler_bounds [OF sample_scheduler y(1)] by (intro exI [of _ y]) (auto simp: with_default_def)
qed

theorem granted_slots_paced_witness:
  "\<exists>y. sys_step\<^sup>*\<^sup>* (boot sample_scheduler) y \<and> granted y = [5 + 1 / 3, 5]
     \<and> real (1 - 0) * (60 / with_default None 180) \<le> granted y ! 0 - granted y ! 1"
proof -
  obtain y where y: "sys_step\<^sup>*\<^sup>* (boot sample_scheduler) y" "granted y = [5 + 1 / 3, 5]"
    using sample_run by blast
  have "real (1 - 0) * (60 / with_default None 180) \<le> granted y ! 0 - granted y ! 1"
    by (rule granted_slots_paced [OF sample_scheduler y(1)]) (simp_all add: y(2))
  then show ?thesis
    using y by blast
qed

lemma step_record_quiet:
  "record_systemic_host_event host now now_active (sched y) = (False, s) \<Longrightarrow> sys_step y (y\<lparr>sched := s\<rparr>)"
  using step_record [of host now now_active y False s] by simp

lemma step_record_decide:
  "record_systemic_host_event host now now_active (sched y) = (True, s) \<Longrightarrow>
     sys_step y (y\<lparr>sched := s, decisions := now # decisions y, to_apply := Suc (to_apply y)\<rparr>)"
  using step_record [of host now now_active y True s] by simp

lemma sample_decision: "\<exists>y. sys_step\<^sup>*\<^sup>* (boot sample_scheduler) y \<and> decisions y = [21, 10]"
proof -
  let ?rec = "record_systemic_host_event"
  define s1 where "s1 = snd (?rec ''a'' 9 9 sample_scheduler)"
  define s2 where "s2 = snd (?rec ''b'' 10 10 s1)"
  define s3 where "s3 = snd (?rec ''c'' 20 20 s2)"
  define s4 where "s4 = snd (?rec ''d'' 21 21 s3)"
  note ev = record_systemic_host_event_def systemic_threshold_def sample_fields Let_def
  have e: "?rec ''a'' 9 9 sample_scheduler = (False, s1)" "?rec ''b'' 10 10 s1 = (True, s2)"
    "?rec ''c'' 20 20 s2 = (False, s3)" "?rec ''d'' 21 21 s3 = (True, s4)"
    by (simp_all add: s4_def s3_def s2_def s1_def ev)
  let ?y0 = "boot sample_scheduler"
  let ?y1 = "?y0\<lparr>sched := s1\<rparr>"
  let ?y2 = "?y1\<lparr>sched := s2, decisions := 10 # decisions ?y1, to_apply := Suc (to_apply ?y1)\<rparr>"
  let ?y3 = "?y2\<lparr>sched := s3\<rparr>"
  let ?y4 = "?y3\<lparr>sched := s4, decisions := 21 # decisions ?y3, to_apply := Suc (to_apply ?y3)\<rparr>"
  have steps: "sys_step ?y0 ?y1" "sys_step ?y1 ?y2" "sys_step ?y2 ?y3" "sys_step ?y3 ?y4"
    using e by (intro step_record_quiet step_record_decide; simp add: boot_def)+
  have "sys_step\<^sup>*\<^sup>* ?y0 ?y4"
    using steps by (meson rtranclp.rtrancl_into_rtrancl rtranclp.rtrancl_refl)
  then show ?thesis
    by (intro exI conjI) (assumption, simp add: boot_def)
qed

theorem systemic_reductions_rare_witness:
  "\<exists>y. sys_step\<^sup>*\<^sup>* (boot sample_scheduler) y \<and> decisions y = [21, 10]
     \<and> sorted_wrt (\<lambda>later earlier. health_window_s sample_health < later - earlier) (decisions y)"
proof -
  obtain y where y: "sys_step\<^sup>*\<^sup>* (boot sample_scheduler) y" "decisions y = [21, 10]"
    using sample_decision by blast
  then show ?thesis
    using systemic_reductions_rare [OF sample_scheduler y(1)] by blast
qed

section \<open>Host pacing lets nobody through early and ends\<close>

text \<open>
  Every sleep of the run lasts until the reserved time, and a round is quiet when no throttle of
  the host is reported during its sleep.
\<close>

fun sleeps_enough :: "real \<Rightarrow> pace_round list \<Rightarrow> host_state \<Rightarrow> bool" where
  "sleeps_enough min_interval_s [] st \<longleftrightarrow> True"
| "sleeps_enough min_interval_s (rd # rds) st \<longleftrightarrow>
     (case pace_reserve min_interval_s (now_locked rd) st of (ready_at, st1) \<Rightarrow>
        ready_at \<le> now_awake rd \<and> sleeps_enough min_interval_s rds (meanwhile rd st1))"

definition quiet_round :: "pace_round \<Rightarrow> bool" where
  "quiet_round rd \<longleftrightarrow> (\<forall>st. host_cooldown_until (meanwhile rd st) = host_cooldown_until st)"

lemma pace_reserve_facts:
  assumes "pace_reserve m now st = (ready_at, st1)"
  shows "now \<le> ready_at \<and> host_cooldown_until st \<le> ready_at \<and> host_next_request_at st \<le> ready_at
    \<and> host_cooldown_until st1 = host_cooldown_until st \<and> host_next_request_at st1 = ready_at + max 0 m"
  using assms by (auto simp: pace_reserve_def Let_def)

lemma pace_host_no_early:
  "pace_host m rds st = Some (st', t, n) \<Longrightarrow> host_cooldown_until st' \<le> t \<and> n \<le> length rds"
proof (induction rds arbitrary: st n)
  case (Cons rd rds)
  obtain ready_at st1 where res: "pace_reserve m (now_locked rd) st = (ready_at, st1)"
    by (cases "pace_reserve m (now_locked rd) st")
  note facts = pace_reserve_facts [OF res]
  show ?case
  proof (cases "ready_at - now_wait rd \<le> 0")
    case True
    then show ?thesis
      using Cons.prems facts by (simp add: res)
  next
    case wait: False
    show ?thesis
    proof (cases "now_awake rd < host_cooldown_until (meanwhile rd st1)")
      case True
      then obtain k where k: "pace_host m rds (meanwhile rd st1) = Some (st', t, k)" "n = Suc k"
        using Cons.prems wait by (auto simp: res Let_def split: option.splits)
      then show ?thesis
        using Cons.IH [OF k(1)] by simp
    next
      case False
      then show ?thesis
        using Cons.prems wait by (auto simp: res Let_def)
    qed
  qed
qed simp

lemma pace_host_quiet_returns:
  "sleeps_enough m rds st \<Longrightarrow> \<exists>rd\<in>set rds. quiet_round rd \<Longrightarrow>
     \<exists>st' t n. pace_host m rds st = Some (st', t, n) \<and> n \<le> Suc (length (takeWhile (\<lambda>rd. \<not> quiet_round rd) rds))"
proof (induction rds arbitrary: st)
  case (Cons rd rds)
  obtain ready_at st1 where res: "pace_reserve m (now_locked rd) st = (ready_at, st1)"
    by (cases "pace_reserve m (now_locked rd) st")
  note facts = pace_reserve_facts [OF res]
  have enough: "ready_at \<le> now_awake rd" "sleeps_enough m rds (meanwhile rd st1)"
    using Cons.prems(1) by (simp_all add: res)
  show ?case
  proof (cases "ready_at - now_wait rd \<le> 0 \<or> \<not> now_awake rd < host_cooldown_until (meanwhile rd st1)")
    case True
    then show ?thesis
      by (auto simp: res Let_def)
  next
    case False
    have "\<not> quiet_round rd"
    proof
      assume "quiet_round rd"
      then have "host_cooldown_until (meanwhile rd st1) = host_cooldown_until st1"
        unfolding quiet_round_def by blast
      then show False
        using False facts enough(1) by simp
    qed
    moreover from this obtain st' t n where "pace_host m rds (meanwhile rd st1) = Some (st', t, n)"
        "n \<le> Suc (length (takeWhile (\<lambda>rd. \<not> quiet_round rd) rds))"
      using Cons.IH [OF enough(2)] Cons.prems(2) by auto
    ultimately show ?thesis
      using False by (simp add: res Let_def)
  qed
qed simp

text \<open>
  C35. A thread that paces a host is never let through during a cooldown, also one that was set
  while it slept. It is let through provided that its sleeps last as long as asked and that during one
  of its rounds no new throttle moves the cooldown; it then has slept at most once more than there were
  rounds before that one.
\<close>

theorem pace_host_waits_and_returns:
  "(pace_host min_interval_s rounds st = Some (st', t, sleeps) \<longrightarrow>
      host_cooldown_until st' \<le> t \<and> sleeps \<le> length rounds)
   \<and> (sleeps_enough min_interval_s rounds st \<and> list_ex quiet_round rounds \<longrightarrow>
      (\<exists>st' t sleeps. pace_host min_interval_s rounds st = Some (st', t, sleeps)
         \<and> sleeps \<le> Suc (length (takeWhile (\<lambda>rd. \<not> quiet_round rd) rounds))))"
  using pace_host_no_early pace_host_quiet_returns by (simp add: list_ex_iff)

definition throttled_round :: pace_round where
  "throttled_round = \<lparr>now_locked = 10, now_wait = 10, meanwhile = (\<lambda>st. st\<lparr>host_cooldown_until := 40\<rparr>), now_awake = 20\<rparr>"

definition calm_round :: pace_round where
  "calm_round = \<lparr>now_locked = 21, now_wait = 21, meanwhile = (\<lambda>st. st), now_awake = 41\<rparr>"

theorem pace_host_waits_and_returns_witness:
  "pace_host 2 [throttled_round, calm_round] (new_host_state\<lparr>host_cooldown_until := 15\<rparr>) =
       Some (\<lparr>host_cooldown_until = 40, host_next_request_at = 42, recent_throttles = []\<rparr>, 41, 2)
   \<and> host_cooldown_until \<lparr>host_cooldown_until = 40, host_next_request_at = 42, recent_throttles = []\<rparr> \<le> 41
   \<and> (\<exists>st' t sleeps. pace_host 2 [throttled_round, calm_round] (new_host_state\<lparr>host_cooldown_until := 15\<rparr>) = Some (st', t, sleeps)
        \<and> sleeps \<le> 2)"
proof -
  let ?st = "new_host_state\<lparr>host_cooldown_until := 15\<rparr>"
  let ?after = "\<lparr>host_cooldown_until = 40, host_next_request_at = 42, recent_throttles = []\<rparr>"
  have run: "pace_host 2 [throttled_round, calm_round] ?st = Some (?after, 41, 2)"
    by (simp add: throttled_round_def calm_round_def pace_reserve_def new_host_state_def)
  have calm: "quiet_round calm_round"
    by (simp add: quiet_round_def calm_round_def)
  have throttled: "\<not> quiet_round throttled_round"
    by (auto simp: quiet_round_def throttled_round_def intro: exI [of _ new_host_state] simp: new_host_state_def)
  have enough: "sleeps_enough 2 [throttled_round, calm_round] ?st"
    by (simp add: throttled_round_def calm_round_def pace_reserve_def new_host_state_def)
  show ?thesis
    using run calm throttled enough pace_host_waits_and_returns [of 2 "[throttled_round, calm_round]" ?st ?after 41 2] by simp
qed

section \<open>The rate recovers\<close>

lemma report_success_counts:
  assumes "current_requests_per_minute (rate s) < max_requests_per_minute (limits s)"
    and "successful_requests (rate s) + int (Suc k) = successes_per_increase (limits s)"
  shows "(report_success ^^ Suc k) s = s\<lparr>rate := (rate s)\<lparr>successful_requests := 0,
    current_requests_per_minute := min (max_requests_per_minute (limits s)) (current_requests_per_minute (rate s) * (5 / 4))\<rparr>\<rparr>"
  using assms
proof (induction k arbitrary: s)
  case 0
  then show ?case by (simp add: report_success_def Let_def)
next
  case (Suc k)
  let ?s = "s\<lparr>rate := (rate s)\<lparr>successful_requests := successful_requests (rate s) + 1\<rparr>\<rparr>"
  have "report_success s = ?s"
    using Suc.prems by (simp add: report_success_def Let_def)
  moreover have "(report_success ^^ Suc k) ?s = s\<lparr>rate := (rate s)\<lparr>successful_requests := 0,
      current_requests_per_minute := min (max_requests_per_minute (limits s)) (current_requests_per_minute (rate s) * (5 / 4))\<rparr>\<rparr>"
    using Suc.IH [of ?s] Suc.prems by simp
  ultimately show ?case
    by (simp add: funpow_swap1)
qed

lemma report_success_grows:
  assumes "limits_ok (limits s)" and "rate_ok (limits s) (rate s)"
    and "current_requests_per_minute (rate s) < max_requests_per_minute (limits s)"
  shows "\<exists>n. limits ((report_success ^^ n) s) = limits s
    \<and> rate_ok (limits s) (rate ((report_success ^^ n) s))
    \<and> current_requests_per_minute (rate ((report_success ^^ n) s)) =
        min (max_requests_per_minute (limits s)) (current_requests_per_minute (rate s) * (5 / 4))"
proof -
  obtain k where k: "successful_requests (rate s) + int (Suc k) = successes_per_increase (limits s)"
    using assms(2) zless_iff_Suc_zadd [of "successful_requests (rate s)"] by (auto simp: rate_ok_def)
  show ?thesis
    using assms report_success_counts [OF assms(3) k]
    by (intro exI [of _ "Suc k"]) (auto simp: limits_ok_def rate_ok_def min_def)
qed

lemma rate_reaches:
  assumes "limits_ok (limits s)" and "rate_ok (limits s) (rate s)"
  shows "\<exists>n. limits ((report_success ^^ n) s) = limits s
    \<and> rate_ok (limits s) (rate ((report_success ^^ n) s))
    \<and> min (max_requests_per_minute (limits s)) (current_requests_per_minute (rate s) * (5 / 4) ^ k)
        \<le> current_requests_per_minute (rate ((report_success ^^ n) s))"
proof (induction k)
  case 0
  then show ?case
    using assms(2) by (intro exI [of _ 0]) simp
next
  case (Suc k)
  then obtain n where n: "limits ((report_success ^^ n) s) = limits s"
    "rate_ok (limits s) (rate ((report_success ^^ n) s))"
    "min (max_requests_per_minute (limits s)) (current_requests_per_minute (rate s) * (5 / 4) ^ k)
       \<le> current_requests_per_minute (rate ((report_success ^^ n) s))"
    by blast
  let ?s = "(report_success ^^ n) s"
  show ?case
  proof (cases "current_requests_per_minute (rate ?s) < max_requests_per_minute (limits ?s)")
    case True
    then have "\<exists>m. limits ((report_success ^^ m) ?s) = limits ?s
        \<and> rate_ok (limits ?s) (rate ((report_success ^^ m) ?s))
        \<and> current_requests_per_minute (rate ((report_success ^^ m) ?s)) =
            min (max_requests_per_minute (limits ?s)) (current_requests_per_minute (rate ?s) * (5 / 4))"
      using n assms(1) by (intro report_success_grows) simp_all
    then obtain m where m: "limits ((report_success ^^ m) ?s) = limits s"
      "rate_ok (limits s) (rate ((report_success ^^ m) ?s))"
      "current_requests_per_minute (rate ((report_success ^^ m) ?s)) =
         min (max_requests_per_minute (limits s)) (current_requests_per_minute (rate ?s) * (5 / 4))"
      using n(1) by auto
    have "min (max_requests_per_minute (limits s)) (current_requests_per_minute (rate s) * (5 / 4) ^ Suc k)
        \<le> min (max_requests_per_minute (limits s)) (current_requests_per_minute (rate ?s) * (5 / 4))"
      using n(3) True n(1) by (auto simp: min_def split: if_splits)
    then show ?thesis
      using m by (intro exI [of _ "m + n"]) (simp add: funpow_add)
  next
    case False
    then show ?thesis
      using n by (intro exI [of _ n]) simp
  qed
qed

text \<open>
  The rate recovers: from every state the scheduler can be in, finitely many reported successes
  without a throttle in between bring the rate back to the configured maximum.
\<close>

theorem success_restores_maximum_rate:
  assumes "limits_ok (limits s)" and "rate_ok (limits s) (rate s)"
  shows "\<exists>n. current_requests_per_minute (rate ((report_success ^^ n) s)) = max_requests_per_minute (limits s)"
proof -
  have pos: "0 < current_requests_per_minute (rate s)"
    using assms by (auto simp: limits_ok_def rate_ok_def)
  obtain k where "max_requests_per_minute (limits s) / current_requests_per_minute (rate s) < (5 / 4) ^ k"
    using real_arch_pow [of "5 / 4"] by auto
  then have big: "max_requests_per_minute (limits s) \<le> current_requests_per_minute (rate s) * (5 / 4) ^ k"
    using pos by (simp add: divide_less_eq mult.commute)
  obtain n where "rate_ok (limits s) (rate ((report_success ^^ n) s))"
    "min (max_requests_per_minute (limits s)) (current_requests_per_minute (rate s) * (5 / 4) ^ k)
       \<le> current_requests_per_minute (rate ((report_success ^^ n) s))"
    using rate_reaches [OF assms, of k] by blast
  then have "current_requests_per_minute (rate ((report_success ^^ n) s)) = max_requests_per_minute (limits s)"
    using big by (simp add: rate_ok_def)
  then show ?thesis
    by blast
qed

theorem success_restores_maximum_rate_witness:
  "limits_ok (limits sample_scheduler)
   \<and> (let s = sample_scheduler\<lparr>rate := (rate sample_scheduler)\<lparr>current_requests_per_minute := 60\<rparr>\<rparr>
      in \<exists>n. current_requests_per_minute (rate ((report_success ^^ n) s)) = 180)"
proof -
  let ?s = "sample_scheduler\<lparr>rate := (rate sample_scheduler)\<lparr>current_requests_per_minute := 60\<rparr>\<rparr>"
  have ok: "limits_ok (limits ?s)" "rate_ok (limits ?s) (rate ?s)"
    by (simp_all add: sample_scheduler_def limits_ok_def rate_ok_def)
  have "max_requests_per_minute (limits ?s) = 180"
    by (simp add: sample_scheduler_def)
  then show ?thesis
    using ok success_restores_maximum_rate [OF ok] by (simp add: Let_def)
qed

end
