(* ===== verification/Upload_State.thy ===== *)
theory Upload_State
  imports Hashing
begin

text \<open>
  The durable state of the background upload queue (\<open>hf/_upload_state.py\<close>,
  \<open>hf/_upload_state_files.py\<close>) and the publication operations it stores
  (\<open>hf/_uploader/plan.py\<close>).

  The state directory holds the high-water mark, one JSON envelope per pending upload, and a
  snapshot directory per upload. A path is the list of its components from the root; there are no
  symbolic links, so resolving a path removes its dots. Which writes fail is a parameter, as is the
  text of a JSON list or object under \<open>str\<close>. An operation returns its result together with the
  state it leaves, also when it raises. Directories are not represented: one exists when it is
  needed, and removing a tree removes the files below it.

  Every change of the disk goes through \<open>perform\<close>, which appends it to a log in the state. The log gives
  the states in which a process that is killed inside an operation leaves the disk
  (\<open>stopped_between\<close>). The digest of a snapshot is computed afresh; that the memoised function the code
  passes agrees with it is the subject of \<open>Hashing\<close>.
\<close>

section \<open>Paths\<close>

type_synonym path = "string list"

definition path_of :: "string \<Rightarrow> path" where
  "path_of s = filter (\<lambda>c. c \<noteq> [] \<and> c \<noteq> ''.'') (py_split (CHR ''/'') s)"

definition path_str :: "path \<Rightarrow> string" where
  "path_str p = CHR ''/'' # py_join ''/'' p"

definition resolve :: "path \<Rightarrow> path" where
  "resolve p = foldl (\<lambda>acc c. if c = ''..'' then butlast acc else if c = ''.'' then acc else acc @ [c]) [] p"

definition is_inside :: "path \<Rightarrow> path \<Rightarrow> bool" where
  "is_inside child parent \<longleftrightarrow>
     (let c = resolve child; p = resolve parent in c = p \<or> take (length p) c = p)"

section \<open>Publication operations\<close>

record publication_op =
  action :: string
  path_in_repo :: string
  local_path :: "path option"
  snapshot_path :: "path option"

definition validate_action :: "string \<Rightarrow> unit res" where
  "validate_action act =
     guard (act = ''add'' \<or> act = ''delete'') (ValueError ''PublicationOp.action must be add or delete'')"

definition validate_local_path :: "string \<Rightarrow> path option \<Rightarrow> unit res" where
  "validate_local_path act local =
     (if act = ''add'' \<and> local = None then Inl (ValueError ''PublicationOp requires a local_path'')
      else if act = ''delete'' \<and> local \<noteq> None
      then Inl (ValueError ''PublicationOp must not carry a local_path'') else Inr ())"

definition validate_snapshot_path :: "string \<Rightarrow> path option \<Rightarrow> unit res" where
  "validate_snapshot_path act snap =
     (if act = ''delete'' \<and> snap \<noteq> None
      then Inl (ValueError ''PublicationOp must not carry a snapshot_path'') else Inr ())"

definition new_publication_op ::
  "string \<Rightarrow> string \<Rightarrow> path option \<Rightarrow> path option \<Rightarrow> publication_op res" where
  "new_publication_op act repo local snap =
     res_bind (validate_action act) (\<lambda>_.
     res_bind (validate_local_path act local) (\<lambda>_.
     res_bind (validate_snapshot_path act snap) (\<lambda>_.
       Inr \<lparr>action = act, path_in_repo = repo, local_path = local, snapshot_path = snap\<rparr>)))"

definition add_op :: "path \<Rightarrow> string \<Rightarrow> publication_op res" where
  "add_op local repo = new_publication_op ''add'' repo (Some local) None"

definition delete_op :: "string \<Rightarrow> publication_op res" where
  "delete_op repo = new_publication_op ''delete'' repo None None"

section \<open>State\<close>

record upload_env =
  state_dir :: path
  write_fails :: "path \<Rightarrow> bool"
  container_str :: "json \<Rightarrow> string"

text \<open>The changes of the disk: the mark and the envelopes are replaced atomically, files are copied in place.\<close>

datatype disk_effect =
    WroteMark string
  | WroteFile path "nat list"
  | WroteEnvelope string text_file
  | UnlinkedEnvelope string
  | RemovedTree path

record upload_store =
  highwater :: "string option"
  envelopes :: "(string, text_file) dict"
  disk_files :: "path \<Rightarrow> nat list option"
  next_sequence :: nat
  effects :: "disk_effect list"

record stored_upload =
  up_ops :: "publication_op list"
  up_message :: string
  up_state_path :: string
  up_snapshot_dir :: "path option"
  up_op_shas :: "json list"

record resume_result =
  res_uploads :: "stored_upload list"
  res_failures :: "string list"
  res_discovered_count :: nat

definition QUEUE_CONTRACT_VERSION :: string where
  "QUEUE_CONTRACT_VERSION = ''bg-upload-v1''"

definition envelope_name :: "nat \<Rightarrow> string" where
  "envelope_name sequence = zero_pad 6 sequence @ ''.json''"

definition snapshots_root :: "upload_env \<Rightarrow> path" where
  "snapshots_root env = state_dir env @ [''snapshots'']"

definition snapshot_dir_for_sequence :: "upload_env \<Rightarrow> nat \<Rightarrow> path" where
  "snapshot_dir_for_sequence env sequence = state_dir env @ [''snapshots'', zero_pad 6 sequence]"

fun apply_effect :: "disk_effect \<Rightarrow> upload_store \<Rightarrow> upload_store" where
  "apply_effect (WroteMark text) s = s\<lparr>highwater := Some text\<rparr>"
| "apply_effect (WroteFile p bytes) s = s\<lparr>disk_files := (disk_files s)(p \<mapsto> bytes)\<rparr>"
| "apply_effect (WroteEnvelope name f) s = s\<lparr>envelopes := AList.update name f (envelopes s)\<rparr>"
| "apply_effect (UnlinkedEnvelope name) s = s\<lparr>envelopes := AList.delete name (envelopes s)\<rparr>"
| "apply_effect (RemovedTree dir) s = s\<lparr>disk_files := (\<lambda>p. if take (length dir) p = dir then None else disk_files s p)\<rparr>"

definition perform :: "disk_effect \<Rightarrow> upload_store \<Rightarrow> upload_store" where
  "perform e s = (apply_effect e s)\<lparr>effects := effects s @ [e]\<rparr>"

definition rmtree :: "path \<Rightarrow> upload_store \<Rightarrow> upload_store" where
  "rmtree dir s = perform (RemovedTree dir) s"

definition unlink_envelope :: "string \<Rightarrow> upload_store \<Rightarrow> upload_store" where
  "unlink_envelope name s = perform (UnlinkedEnvelope name) s"

text \<open>
  What is on disk while a change is made: an atomic one has not happened, a copy has written a first part
  of the bytes, and the removal of a tree has removed some of its files.
\<close>

fun partly :: "disk_effect \<Rightarrow> upload_store \<Rightarrow> upload_store \<Rightarrow> bool" where
  "partly (WroteFile p bytes) s w \<longleftrightarrow> w = s \<or> (\<exists>n. w = apply_effect (WroteFile p (take n bytes)) s)"
| "partly (RemovedTree dir) s w \<longleftrightarrow>
     (\<exists>gone. w = s\<lparr>disk_files := (\<lambda>p. if take (length dir) p = dir \<and> p \<in> gone then None else disk_files s p)\<rparr>)"
| "partly _ s w \<longleftrightarrow> w = s"

text \<open>An operation that leads from \<open>s\<close> to \<open>t\<close> stops before its last change is complete and leaves \<open>w\<close>.\<close>

definition stopped_between :: "upload_store \<Rightarrow> upload_store \<Rightarrow> upload_store \<Rightarrow> bool" where
  "stopped_between s t w \<longleftrightarrow>
     (\<exists>front e rest. effects t = effects s @ front @ e # rest \<and> partly e (fold apply_effect front s) w)"

section \<open>Sequence numbers\<close>

definition read_highwater :: "upload_store \<Rightarrow> nat" where
  "read_highwater s =
     (case highwater s of
        None \<Rightarrow> 0
      | Some text \<Rightarrow> (case py_int_str text of Inl _ \<Rightarrow> 0 | Inr v \<Rightarrow> nat (max v 0)))"

definition write_highwater :: "upload_env \<Rightarrow> nat \<Rightarrow> upload_store \<Rightarrow> unit res \<times> upload_store" where
  "write_highwater env v s =
     (if write_fails env (state_dir env @ [''.highwater'']) then (Inl (OSError ''write failed''), s)
      else (Inr (), perform (WroteMark (py_str_int (int v) @ [CHR 0x0A])) s))"

text \<open>The regular expression \<open>^(\d+)\.json$\<close>: the digits of the name, if it has that form.\<close>

definition sequence_file_digits :: "string \<Rightarrow> string option" where
  "sequence_file_digits name =
     (let digits = py_removesuffix name ''.json'' in
      if py_endswith name ''.json'' \<and> digits \<noteq> [] \<and> list_all py_isdigit digits then Some digits else None)"

definition read_legacy_or_current_envelope :: "text_file \<Rightarrow> (string, json) dict option" where
  "read_legacy_or_current_envelope f = (case read_json f of JObj d \<Rightarrow> Some d | _ \<Rightarrow> None)"

definition sequence_from_state_path :: "string \<Rightarrow> text_file \<Rightarrow> nat" where
  "sequence_from_state_path name f =
     (case sequence_file_digits name of
        Some digits \<Rightarrow> nat_of_digits digits
      | None \<Rightarrow>
          (case read_legacy_or_current_envelope f of
             None \<Rightarrow> 0
           | Some d \<Rightarrow> (case map_of d ''sequence'' of Some (JInt i) \<Rightarrow> nat (max i 0) | _ \<Rightarrow> 0)))"

definition scanned_sequence :: "upload_store \<Rightarrow> nat" where
  "scanned_sequence s =
     fold (\<lambda>(name, f) highest. max highest (sequence_from_state_path name f)) (envelopes s) 0"

definition next_sequence_from_state_dir :: "upload_store \<Rightarrow> nat" where
  "next_sequence_from_state_dir s = max (read_highwater s) (scanned_sequence s) + 1"

definition open_store :: "upload_store \<Rightarrow> upload_store" where
  "open_store s = s\<lparr>next_sequence := next_sequence_from_state_dir s\<rparr>"

definition allocate_sequence :: "upload_env \<Rightarrow> upload_store \<Rightarrow> nat res \<times> upload_store" where
  "allocate_sequence env s =
     (let sequence = next_sequence s;
          s1 = s\<lparr>next_sequence := sequence + 1\<rparr>
      in case write_highwater env sequence s1 of
           (Inl e, s2) \<Rightarrow> (Inl e, s2)
         | (Inr _, s2) \<Rightarrow> (Inr sequence, s2))"

section \<open>Persisting an upload\<close>

text \<open>A copy that fails may leave a partial target behind.\<close>

definition independent_copy :: "upload_env \<Rightarrow> path \<Rightarrow> path \<Rightarrow> upload_store \<Rightarrow> unit res \<times> upload_store" where
  "independent_copy env source target s =
     (case disk_files s source of
        None \<Rightarrow> (Inl (FileNotFoundError ''No such file''), s)
      | Some bytes \<Rightarrow>
          if write_fails env target
          then (Inl (OSError ''write failed''), perform (WroteFile target []) s)
          else (Inr (), perform (WroteFile target bytes) s))"

definition hash_file :: "path \<Rightarrow> upload_store \<Rightarrow> string res" where
  "hash_file p s =
     (case disk_files s p of
        None \<Rightarrow> Inl (FileNotFoundError ''No such file'')
      | Some bytes \<Rightarrow> Inr (digest_bytes bytes))"

definition path_json :: "path option \<Rightarrow> json" where
  "path_json p = (case p of None \<Rightarrow> JNull | Some q \<Rightarrow> JStr (path_str q))"

definition snapshot_add_operation ::
  "upload_env \<Rightarrow> publication_op \<Rightarrow> nat \<Rightarrow> path \<Rightarrow> (string, json) dict \<Rightarrow> upload_store
    \<Rightarrow> (publication_op \<times> (string, json) dict) res \<times> upload_store" where
  "snapshot_add_operation env op op_index snapshot_dir entry s =
     (case local_path op of
        None \<Rightarrow> (Inl (ValueError ''add operation must carry a local path''), s)
      | Some local \<Rightarrow>
          if disk_files s local = None then (Inl (FileNotFoundError ''Cannot snapshot missing file''), s)
          else let snap = snapshot_dir @ [zero_pad 3 op_index, last local] in
            case independent_copy env local snap s of
              (Inl e, s1) \<Rightarrow> (Inl e, s1)
            | (Inr _, s1) \<Rightarrow>
                (res_bind (hash_file snap s1) (\<lambda>sha.
                   res_bind (new_publication_op (action op) (path_in_repo op) (Some local) (Some snap)) (\<lambda>op'.
                     Inr (op', entry @ [(''snapshot_path'', JStr (path_str snap)), (''sha256'', JStr sha)]))), s1))"

definition snapshot_operation ::
  "upload_env \<Rightarrow> publication_op \<Rightarrow> nat \<Rightarrow> path option \<Rightarrow> upload_store
    \<Rightarrow> (publication_op \<times> (string, json) dict) res \<times> upload_store" where
  "snapshot_operation env op op_index snapshot_dir s =
     (let entry = [(''action'', JStr (action op)), (''path_in_repo'', JStr (path_in_repo op)),
                   (''local_path'', path_json (local_path op))] in
      if action op \<noteq> ''add'' then (Inr (op, entry), s)
      else case snapshot_dir of
             None \<Rightarrow> (Inl (RuntimeError ''snapshot_dir must be set when any op is an add''), s)
           | Some dir \<Rightarrow> snapshot_add_operation env op op_index dir entry s)"

fun snapshot_loop ::
  "upload_env \<Rightarrow> path option \<Rightarrow> nat \<Rightarrow> publication_op list \<Rightarrow> upload_store
    \<Rightarrow> (publication_op \<times> (string, json) dict) list res \<times> upload_store" where
  "snapshot_loop env dir i [] s = (Inr [], s)"
| "snapshot_loop env dir i (op # ops) s =
     (case snapshot_operation env op i dir s of
        (Inl e, s1) \<Rightarrow> (Inl e, s1)
      | (Inr r, s1) \<Rightarrow>
          (case snapshot_loop env dir (Suc i) ops s1 of
             (Inl e, s2) \<Rightarrow> (Inl e, s2)
           | (Inr rs, s2) \<Rightarrow> (Inr (r # rs), s2)))"

definition submission_snapshot_dir :: "upload_env \<Rightarrow> publication_op list \<Rightarrow> nat \<Rightarrow> path option" where
  "submission_snapshot_dir env ops sequence =
     (if list_ex (\<lambda>op. action op = ''add'') ops then Some (snapshot_dir_for_sequence env sequence) else None)"

definition snapshot_operations ::
  "upload_env \<Rightarrow> publication_op list \<Rightarrow> nat \<Rightarrow> upload_store
    \<Rightarrow> ((publication_op \<times> (string, json) dict) list \<times> path option) res \<times> upload_store" where
  "snapshot_operations env ops sequence s =
     (let dir = submission_snapshot_dir env ops sequence in
      case snapshot_loop env dir 0 ops s of
        (Inl e, s1) \<Rightarrow> (Inl e, s1)
      | (Inr rs, s1) \<Rightarrow> (Inr (rs, dir), s1))"

definition cleanup_failed_submission ::
  "upload_env \<Rightarrow> string \<Rightarrow> path option \<Rightarrow> upload_store \<Rightarrow> upload_store" where
  "cleanup_failed_submission env name snapshot_dir s =
     (let s1 = unlink_envelope name s in
      case snapshot_dir of
        None \<Rightarrow> s1
      | Some dir \<Rightarrow> if is_inside dir (snapshots_root env) then rmtree dir s1 else s1)"

definition queue_envelope :: "nat \<Rightarrow> string \<Rightarrow> (string, json) dict list \<Rightarrow> json" where
  "queue_envelope sequence message entries =
     JObj [(''contract_version'', JStr QUEUE_CONTRACT_VERSION), (''sequence'', JInt (int sequence)),
           (''message'', JStr message), (''ops'', JList (map JObj entries))]"

definition write_envelope ::
  "upload_env \<Rightarrow> string \<Rightarrow> json \<Rightarrow> upload_store \<Rightarrow> unit res \<times> upload_store" where
  "write_envelope env name envelope s =
     (if write_fails env (state_dir env @ [name]) then (Inl (OSError ''write failed''), s)
      else (Inr (), perform (WroteEnvelope name (write_json envelope)) s))"

definition entry_sha :: "(string, json) dict \<Rightarrow> json" where
  "entry_sha entry = dict_get entry ''sha256'' JNull"

definition persist ::
  "upload_env \<Rightarrow> publication_op list \<Rightarrow> string \<Rightarrow> upload_store \<Rightarrow> stored_upload res \<times> upload_store" where
  "persist env ops message s =
     (case allocate_sequence env s of
        (Inl e, s1) \<Rightarrow> (Inl e, s1)
      | (Inr sequence, s1) \<Rightarrow>
          let name = envelope_name sequence in
          case snapshot_operations env ops sequence s1 of
            (Inl e, s2) \<Rightarrow>
              (Inl e, cleanup_failed_submission env name (Some (snapshot_dir_for_sequence env sequence)) s2)
          | (Inr (rs, dir), s2) \<Rightarrow>
              (case write_envelope env name (queue_envelope sequence message (map snd rs)) s2 of
                 (Inl e, s3) \<Rightarrow> (Inl e, cleanup_failed_submission env name dir s3)
               | (Inr _, s3) \<Rightarrow>
                   (Inr \<lparr>up_ops = map fst rs, up_message = message, up_state_path = name,
                         up_snapshot_dir = dir, up_op_shas = map (entry_sha \<circ> snd) rs\<rparr>, s3)))"

section \<open>Reading envelopes\<close>

definition required_string :: "(string, json) dict \<Rightarrow> string \<Rightarrow> string res" where
  "required_string entry key =
     (case map_of entry key of
        Some (JStr v) \<Rightarrow> Inr v
      | _ \<Rightarrow> Inl (ValueError ''Envelope operation field must be a string''))"

definition current_sequence :: "(string, json) dict \<Rightarrow> nat res" where
  "current_sequence payload =
     (case map_of payload ''sequence'' of
        Some (JInt i) \<Rightarrow> if i < 1 then Inl (ValueError ''Current envelope has an invalid sequence'') else Inr (nat i)
      | _ \<Rightarrow> Inl (ValueError ''Current envelope has an invalid sequence''))"

definition is_legacy_envelope :: "(string, json) dict \<Rightarrow> bool" where
  "is_legacy_envelope payload \<longleftrightarrow>
     map_of payload ''contract_version'' = None
     \<and> (case map_of payload ''message'' of Some (JStr _) \<Rightarrow> True | _ \<Rightarrow> False)
     \<and> (case map_of payload ''ops'' of Some (JList _) \<Rightarrow> True | _ \<Rightarrow> False)"

definition json_str :: "upload_env \<Rightarrow> json \<Rightarrow> string" where
  "json_str env v =
     (case v of
        JNull \<Rightarrow> ''None'' | JBool b \<Rightarrow> (if b then ''True'' else ''False'') | JInt i \<Rightarrow> py_str_int i
      | JStr t \<Rightarrow> t | JList _ \<Rightarrow> container_str env v | JObj _ \<Rightarrow> container_str env v)"

text \<open>\<open>Path(v) if v else None\<close> for a JSON value.\<close>

definition json_path :: "json \<Rightarrow> path option res" where
  "json_path v =
     (case v of
        JStr t \<Rightarrow> Inr (if t = [] then None else Some (path_of t))
      | _ \<Rightarrow> if v \<in> {JNull, JBool False, JInt 0, JList [], JObj []} then Inr None
             else Inl (TypeError ''argument should be a str or an os.PathLike object''))"

text \<open>Iterating a JSON value: an object yields its keys, a string its characters.\<close>

definition json_iter :: "json \<Rightarrow> json list res" where
  "json_iter v =
     (case v of
        JList xs \<Rightarrow> Inr xs | JObj d \<Rightarrow> Inr (map (JStr \<circ> fst) d) | JStr t \<Rightarrow> Inr (map (\<lambda>c. JStr [c]) t)
      | _ \<Rightarrow> Inl (TypeError ''object is not iterable''))"

definition json_entry :: "json \<Rightarrow> (string, json) dict res" where
  "json_entry v = (case v of JObj d \<Rightarrow> Inr d | _ \<Rightarrow> Inl (AttributeError ''object has no attribute get''))"

section \<open>Resuming\<close>

text \<open>The pending envelopes: the current ones with their sequence, the legacy ones, and the sequences seen.\<close>

record pending_scan =
  scan_current :: "(nat \<times> string \<times> (string, json) dict) list"
  scan_legacy :: "(string \<times> (string, json) dict) list"
  scan_seen :: "nat list"

definition classify_pending_envelope ::
  "string \<times> text_file \<Rightarrow> pending_scan \<Rightarrow> pending_scan res" where
  "classify_pending_envelope nf sc =
     (case nf of (name, f) \<Rightarrow>
        case read_legacy_or_current_envelope f of
          None \<Rightarrow> Inl (ValueError ''Malformed envelope -- refusing to resume'')
        | Some payload \<Rightarrow>
            if is_legacy_envelope payload then Inr (sc\<lparr>scan_legacy := scan_legacy sc @ [(name, payload)]\<rparr>)
            else if map_of payload ''contract_version'' \<noteq> Some (JStr QUEUE_CONTRACT_VERSION)
            then Inl (ValueError ''Unknown contract_version; refusing to resume'')
            else res_bind (current_sequence payload) (\<lambda>sequence.
              if sequence \<in> set (scan_seen sc)
              then Inl (ValueError ''Duplicate sequence -- refusing to upload'')
              else Inr (sc\<lparr>scan_seen := scan_seen sc @ [sequence],
                           scan_current := scan_current sc @ [(sequence, name, payload)]\<rparr>)))"

definition sorted_envelopes :: "upload_store \<Rightarrow> (string \<times> text_file) list" where
  "sorted_envelopes s = sort_key fst (envelopes s)"

definition pending_envelopes :: "upload_store \<Rightarrow> pending_scan res" where
  "pending_envelopes s =
     res_fold classify_pending_envelope (sorted_envelopes s)
       \<lparr>scan_current = [], scan_legacy = [], scan_seen = []\<rparr>"

definition upgrade_legacy_non_add_operation ::
  "string \<Rightarrow> string \<Rightarrow> path option \<Rightarrow> (string, json) dict \<Rightarrow> (publication_op \<times> (string, json) dict) res" where
  "upgrade_legacy_non_add_operation act repo local entry =
     (if local \<noteq> None then Inl (ValueError ''PublicationOp must not carry a local_path'')
      else res_bind (new_publication_op act repo None None) (\<lambda>op. Inr (op, entry)))"

definition upgrade_legacy_add_operation ::
  "upload_env \<Rightarrow> string \<Rightarrow> string \<Rightarrow> path option \<Rightarrow> nat \<Rightarrow> path \<Rightarrow> (string, json) dict \<Rightarrow> upload_store
    \<Rightarrow> (publication_op \<times> (string, json) dict) res \<times> upload_store" where
  "upgrade_legacy_add_operation env act repo local op_index dir entry s =
     (case local of
        None \<Rightarrow> (Inl (ValueError ''PublicationOp requires a local_path''), s)
      | Some lp \<Rightarrow>
          if disk_files s lp = None
          then (Inl (FileNotFoundError ''Cannot snapshot missing canonical file''), s)
          else let snap = dir @ [zero_pad 3 op_index, last lp] in
            case independent_copy env lp snap s of
              (Inl e, s1) \<Rightarrow> (Inl e, s1)
            | (Inr _, s1) \<Rightarrow>
                (res_bind (hash_file snap s1) (\<lambda>sha.
                   res_bind (new_publication_op act repo local (Some snap)) (\<lambda>op.
                     Inr (op, entry @ [(''snapshot_path'', JStr (path_str snap)), (''sha256'', JStr sha)]))), s1))"

definition upgrade_legacy_operation ::
  "upload_env \<Rightarrow> json \<Rightarrow> nat \<Rightarrow> path \<Rightarrow> upload_store \<Rightarrow> (publication_op \<times> (string, json) dict) res \<times> upload_store" where
  "upgrade_legacy_operation env raw op_index dir s =
     (case res_bind (json_entry raw) (\<lambda>entry.
             res_bind (required_string entry ''action'') (\<lambda>act.
             res_bind (required_string entry ''path_in_repo'') (\<lambda>repo.
             res_bind (json_path (dict_get entry ''local_path'' JNull)) (\<lambda>local.
               Inr (act, repo, local, dict_get entry ''local_path'' JNull))))) of
        Inl e \<Rightarrow> (Inl e, s)
      | Inr (act, repo, local, local_raw) \<Rightarrow>
          let op_entry = [(''action'', JStr act), (''path_in_repo'', JStr repo), (''local_path'', local_raw)] in
          if act \<noteq> ''add'' then (upgrade_legacy_non_add_operation act repo local op_entry, s)
          else upgrade_legacy_add_operation env act repo local op_index dir op_entry s)"

fun upgrade_legacy_operations ::
  "upload_env \<Rightarrow> json list \<Rightarrow> nat \<Rightarrow> path \<Rightarrow> upload_store \<Rightarrow> (string, json) dict list res \<times> upload_store" where
  "upgrade_legacy_operations env [] i dir s = (Inr [], s)"
| "upgrade_legacy_operations env (raw # raws) i dir s =
     (case upgrade_legacy_operation env raw i dir s of
        (Inl e, s1) \<Rightarrow> (Inl e, s1)
      | (Inr (_, entry), s1) \<Rightarrow>
          (case upgrade_legacy_operations env raws (Suc i) dir s1 of
             (Inl e, s2) \<Rightarrow> (Inl e, s2)
           | (Inr entries, s2) \<Rightarrow> (Inr (entry # entries), s2)))"

definition upgrade_legacy_envelope ::
  "upload_env \<Rightarrow> string \<Rightarrow> (string, json) dict \<Rightarrow> upload_store \<Rightarrow> (nat \<times> json \<times> path) res \<times> upload_store" where
  "upgrade_legacy_envelope env legacy_name payload s =
     (case allocate_sequence env s of
        (Inl e, s1) \<Rightarrow> (Inl e, s1)
      | (Inr sequence, s1) \<Rightarrow>
          let dir = snapshot_dir_for_sequence env sequence in
          case json_iter (dict_get payload ''ops'' (JList [])) of
            Inl e \<Rightarrow> (Inl e, s1)
          | Inr raws \<Rightarrow>
              (case upgrade_legacy_operations env raws 0 dir s1 of
                 (Inl e, s2) \<Rightarrow> (Inl e, s2)
               | (Inr entries, s2) \<Rightarrow>
                   let envelope = queue_envelope sequence (json_str env (dict_get payload ''message'' (JStr []))) entries in
                   case write_envelope env (envelope_name sequence) envelope s2 of
                     (Inl e, s3) \<Rightarrow> (Inl e, s3)
                   | (Inr _, s3) \<Rightarrow> (Inr (sequence, envelope, dir), unlink_envelope legacy_name s3)))"

definition remove_failed_upgrade :: "upload_env \<Rightarrow> nat \<Rightarrow> path \<Rightarrow> upload_store \<Rightarrow> upload_store" where
  "remove_failed_upgrade env sequence dir s =
     (let s1 = unlink_envelope (envelope_name sequence) s in
      if is_inside dir (snapshots_root env) then rmtree dir s1 else s1)"

definition recoverable :: "exn \<Rightarrow> bool" where
  "recoverable e = (case e of ValueError _ \<Rightarrow> True | FileNotFoundError _ \<Rightarrow> True | OSError _ \<Rightarrow> True | _ \<Rightarrow> False)"

text \<open>A job to restore: its sequence, envelope name, envelope and snapshot directory.\<close>

type_synonym pending_job = "nat \<times> string \<times> json \<times> path"

fun upgrade_pending_legacy ::
  "upload_env \<Rightarrow> (string \<times> (string, json) dict) list \<Rightarrow> nat list \<Rightarrow> upload_store
    \<Rightarrow> (pending_job list \<times> string list) res \<times> upload_store" where
  "upgrade_pending_legacy env [] seen s = (Inr ([], []), s)"
| "upgrade_pending_legacy env ((name, payload) # rest) seen s =
     (case upgrade_legacy_envelope env name payload s of
        (Inl e, s1) \<Rightarrow>
          if recoverable e
          then (case upgrade_pending_legacy env rest seen s1 of
                  (Inl e', s2) \<Rightarrow> (Inl e', s2)
                | (Inr (jobs, failures), s2) \<Rightarrow> (Inr (jobs, (''legacy envelope '' @ name) # failures), s2))
          else (Inl e, s1)
      | (Inr (sequence, envelope, dir), s1) \<Rightarrow>
          if sequence \<in> set seen
          then (Inl (ValueError ''Legacy upgrade produced duplicate sequence; refusing to upload''),
                remove_failed_upgrade env sequence dir s1)
          else (case upgrade_pending_legacy env rest (seen @ [sequence]) s1 of
                  (Inl e, s2) \<Rightarrow> (Inl e, s2)
                | (Inr (jobs, failures), s2) \<Rightarrow>
                    (Inr ((sequence, envelope_name sequence, envelope, dir) # jobs, failures), s2)))"

definition ordered_pending_jobs ::
  "upload_env \<Rightarrow> (nat \<times> string \<times> (string, json) dict) list \<Rightarrow> pending_job list \<Rightarrow> pending_job list" where
  "ordered_pending_jobs env current upgraded =
     sort_key fst (map (\<lambda>(sequence, name, payload).
       (sequence, name, JObj payload, snapshot_dir_for_sequence env sequence)) current @ upgraded)"

definition validate_resume_snapshot :: "path option \<Rightarrow> path \<Rightarrow> unit res" where
  "validate_resume_snapshot snap dir =
     (case snap of
        None \<Rightarrow> Inl (ValueError ''Add op is missing snapshot_path'')
      | Some p \<Rightarrow> guard (is_inside p dir) (ValueError ''Add op snapshot is outside; refusing to upload''))"

definition resume_operation :: "path \<Rightarrow> json \<Rightarrow> (publication_op \<times> json) res" where
  "resume_operation dir raw =
     res_bind (json_entry raw) (\<lambda>entry.
     res_bind (required_string entry ''action'') (\<lambda>act.
     res_bind (required_string entry ''path_in_repo'') (\<lambda>repo.
     res_bind (json_path (dict_get entry ''local_path'' JNull)) (\<lambda>local.
     res_bind (json_path (dict_get entry ''snapshot_path'' JNull)) (\<lambda>snap.
     res_bind (if act = ''add'' then validate_resume_snapshot snap dir else Inr ()) (\<lambda>_.
     res_bind (new_publication_op act repo local snap) (\<lambda>op.
       Inr (op, entry_sha entry))))))))"

definition resume_operations :: "json \<Rightarrow> path \<Rightarrow> (publication_op \<times> json) list res" where
  "resume_operations envelope dir =
     res_bind (json_entry envelope) (\<lambda>d.
     res_bind (json_iter (dict_get d ''ops'' (JList []))) (\<lambda>raws.
       res_map (resume_operation dir) raws))"

text \<open>A job is restored, reported as a failure, or raises.\<close>

definition restore_pending_job ::
  "upload_env \<Rightarrow> pending_job \<Rightarrow> (stored_upload + string) res" where
  "restore_pending_job env job =
     (case job of (sequence, name, envelope, dir) \<Rightarrow>
        if \<not> is_inside dir (snapshots_root env)
        then Inr (Inr ''Computed snapshot dir is outside state_dir/snapshots; refusing to resume'')
        else case resume_operations envelope dir of
               Inl e \<Rightarrow> if recoverable e then Inr (Inr (''resume validation failed for '' @ name)) else Inl e
             | Inr rs \<Rightarrow>
                 res_bind (res_bind (json_entry envelope) (\<lambda>d. dict_item d ''message'')) (\<lambda>msg.
                   Inr (Inl \<lparr>up_ops = map fst rs, up_message = json_str env msg, up_state_path = name,
                             up_snapshot_dir = Some dir, up_op_shas = map snd rs\<rparr>)))"

definition resume_pending :: "upload_env \<Rightarrow> upload_store \<Rightarrow> resume_result res \<times> upload_store" where
  "resume_pending env s =
     (case pending_envelopes s of
        Inl e \<Rightarrow> (Inl e, s)
      | Inr sc \<Rightarrow>
          (case upgrade_pending_legacy env (scan_legacy sc) (scan_seen sc) s of
             (Inl e, s1) \<Rightarrow> (Inl e, s1)
           | (Inr (upgraded, failures), s1) \<Rightarrow>
               let jobs = ordered_pending_jobs env (scan_current sc) upgraded in
               (res_bind (res_map (restore_pending_job env) jobs) (\<lambda>outcomes.
                  Inr \<lparr>res_uploads = concat (map (case_sum (\<lambda>u. [u]) (\<lambda>_. [])) outcomes),
                       res_failures = failures @ concat (map (case_sum (\<lambda>_. []) (\<lambda>f. [f])) outcomes),
                       res_discovered_count = length jobs\<rparr>), s1)))"

section \<open>Completed uploads and snapshot checks\<close>

definition delete_upload ::
  "upload_env \<Rightarrow> string \<Rightarrow> path option \<Rightarrow> upload_store \<Rightarrow> unit res \<times> upload_store" where
  "delete_upload env name snapshot_dir s =
     (let s1 = unlink_envelope name s in
      case snapshot_dir of
        None \<Rightarrow> (Inr (), s1)
      | Some dir \<Rightarrow>
          if \<not> is_inside dir (snapshots_root env)
          then (Inl (ValueError ''snapshot_dir is outside; refusing to delete''), s1)
          else (Inr (), rmtree dir s1))"

definition op_snapshot_path :: "publication_op \<Rightarrow> path option" where
  "op_snapshot_path op =
     (if action op \<noteq> ''add'' then None
      else case snapshot_path op of Some p \<Rightarrow> Some p | None \<Rightarrow> local_path op)"

text \<open>\<open>True\<close> when the snapshot changed; a recorded hash that is empty or absent is not checked.\<close>

definition snapshot_mismatch :: "publication_op \<Rightarrow> json \<Rightarrow> upload_store \<Rightarrow> bool res" where
  "snapshot_mismatch op recorded_sha s =
     (case op_snapshot_path op of
        None \<Rightarrow> Inr False
      | Some p \<Rightarrow>
          if recorded_sha \<in> {JNull, JStr [], JBool False, JInt 0, JList [], JObj []} then Inr False
          else res_bind (hash_file p s) (\<lambda>actual. Inr (JStr actual \<noteq> recorded_sha)))"

end
