(* ===== verification/Upload_Resume.thy ===== *)
theory Upload_Resume
  imports Upload_Durability
begin

text \<open>
  The state directory as a queue of uploads. The representation relation says which submissions a
  directory holds; every operation keeps it, and resuming yields exactly these submissions.
\<close>

section \<open>Representation\<close>

definition entry_of :: "publication_op \<Rightarrow> json \<Rightarrow> (string, json) dict" where
  "entry_of op sha =
     [(''action'', JStr (action op)), (''path_in_repo'', JStr (path_in_repo op)),
      (''local_path'', path_json (local_path op))]
     @ (if action op = ''add'' then [(''snapshot_path'', path_json (snapshot_path op)), (''sha256'', sha)] else [])"

text \<open>What the constructor of the operations guarantees, with a clean path for the file to add.\<close>

definition op_valid :: "publication_op \<Rightarrow> bool" where
  "op_valid op \<longleftrightarrow>
     (action op = ''add'' \<and> (\<exists>l. local_path op = Some l \<and> clean_path l))
     \<or> (action op = ''delete'' \<and> local_path op = None \<and> snapshot_path op = None)"

text \<open>A stored operation with its recorded hash: the snapshot exists below \<open>dir\<close> and has that hash.\<close>

definition snap_ok :: "path \<Rightarrow> (path \<Rightarrow> nat list option) \<Rightarrow> publication_op \<times> json \<Rightarrow> bool" where
  "snap_ok dir F x \<longleftrightarrow>
     (action (fst x) = ''add'' \<and> (\<exists>l a b bytes. local_path (fst x) = Some l \<and> clean_path l
        \<and> snapshot_path (fst x) = Some (dir @ [a, b]) \<and> clean_component a \<and> clean_component b
        \<and> F (dir @ [a, b]) = Some bytes \<and> snd x = JStr (digest_bytes bytes)))
     \<or> (action (fst x) = ''delete'' \<and> local_path (fst x) = None \<and> snapshot_path (fst x) = None
        \<and> snd x = JNull)"

definition envelope_file :: "nat \<Rightarrow> stored_upload \<Rightarrow> text_file" where
  "envelope_file n u = write_json (queue_envelope n (up_message u) (map2 entry_of (up_ops u) (up_op_shas u)))"

definition upload_ok :: "upload_env \<Rightarrow> (path \<Rightarrow> nat list option) \<Rightarrow> nat \<Rightarrow> stored_upload \<Rightarrow> bool" where
  "upload_ok env F n u \<longleftrightarrow>
     up_state_path u = envelope_name n \<and> length (up_op_shas u) = length (up_ops u)
     \<and> list_all (snap_ok (snapshot_dir_for_sequence env n) F) (zip (up_ops u) (up_op_shas u))
     \<and> up_snapshot_dir u \<in> {None, Some (snapshot_dir_for_sequence env n)}"

definition pending_rep :: "upload_env \<Rightarrow> (nat \<times> stored_upload) list \<Rightarrow> upload_store \<Rightarrow> bool" where
  "pending_rep env q s \<longleftrightarrow>
     clean_path (state_dir env) \<and> mark_ok s \<and> sorted_wrt (<) (map fst q)
     \<and> distinct (map fst (envelopes s))
     \<and> set (envelopes s) = (\<lambda>(n, u). (envelope_name n, envelope_file n u)) ` set q
     \<and> (\<forall>(n, u)\<in>set q. 1 \<le> n \<and> n \<le> read_highwater s \<and> upload_ok env (disk_files s) n u)"

section \<open>Snapshots\<close>

lemma dir_clean: "clean_path (state_dir env) \<Longrightarrow> list_all clean_component (snapshot_dir_for_sequence env n)"
  by (simp add: snapshot_dir_for_sequence_def clean_path_def zero_pad_clean) (simp add: clean_component_def)

lemma dirs_disjoint:
  "take (length (snapshot_dir_for_sequence env m)) (snapshot_dir_for_sequence env n @ rest) =
     snapshot_dir_for_sequence env m \<longleftrightarrow> m = n"
  by (auto simp: snapshot_dir_for_sequence_def)

lemma snap_ok_mono:
  assumes "snap_ok dir F x" and "\<And>a b. F (dir @ [a, b]) = G (dir @ [a, b])"
  shows "snap_ok dir G x"
  using assms unfolding snap_ok_def by metis

lemma last_clean: "clean_path l \<Longrightarrow> clean_component (last l)"
  by (auto simp: clean_path_def list_all_iff)

text \<open>One operation: its entry, its snapshot, and where it writes.\<close>

lemma snapshot_operation_writes:
  "snapshot_operation env op i d s = (r, t) \<Longrightarrow> disk_files t p \<noteq> disk_files s p \<Longrightarrow>
     \<exists>dir x. d = Some dir \<and> p = dir @ [zero_pad 3 i, x]"
  by (auto simp: snapshot_operation_def snapshot_add_operation_def independent_copy_def Let_def
      split: if_splits option.splits)

lemma snapshot_operation_ok:
  assumes "snapshot_operation env op i d s = (Inr (op', e), t)" and "op_valid op" and "d = Some dir \<or> action op \<noteq> ''add''"
  shows "e = entry_of op' (entry_sha e) \<and> snap_ok dir (disk_files t) (op', entry_sha e)"
proof (cases "action op = ''add''")
  case True
  then obtain l where l: "local_path op = Some l" "clean_path l" and d: "d = Some dir"
    using assms(2,3) by (auto simp: op_valid_def)
  let ?snap = "dir @ [zero_pad 3 i, last l]"
  obtain bytes where bytes: "disk_files s l = Some bytes" and fine: "\<not> write_fails env ?snap"
    using assms(1) True l(1) d
    by (auto simp: snapshot_operation_def snapshot_add_operation_def independent_copy_def Let_def
        split: if_splits option.splits)
  have t: "disk_files t = (disk_files s)(?snap \<mapsto> bytes)"
    and op': "op' = \<lparr>action = ''add'', path_in_repo = path_in_repo op, local_path = Some l, snapshot_path = Some ?snap\<rparr>"
    and e: "e = [(''action'', JStr ''add''), (''path_in_repo'', JStr (path_in_repo op)),
        (''local_path'', JStr (path_str l)), (''snapshot_path'', JStr (path_str ?snap)),
        (''sha256'', JStr (digest_bytes bytes))]"
    using assms(1) True l(1) d bytes fine
    by (auto simp: snapshot_operation_def snapshot_add_operation_def independent_copy_def hash_file_def
        new_publication_op_def validate_action_def validate_local_path_def validate_snapshot_path_def
        path_json_def Let_def)
  have "entry_sha e = JStr (digest_bytes bytes)"
    by (simp add: e entry_sha_def dict_get_def)
  then show ?thesis
    using l last_clean [OF l(2)] zero_pad_clean
    by (auto simp: e op' t entry_of_def path_json_def snap_ok_def)
next
  case False
  then have op: "action op = ''delete''" "local_path op = None" "snapshot_path op = None"
    using assms(2) by (auto simp: op_valid_def)
  have "op' = op" "e = [(''action'', JStr (action op)), (''path_in_repo'', JStr (path_in_repo op)), (''local_path'', JNull)]"
    using assms(1) False op by (auto simp: snapshot_operation_def path_json_def Let_def)
  then show ?thesis
    using op by (simp add: entry_of_def entry_sha_def dict_get_def path_json_def snap_ok_def)
qed

lemma snapshot_loop_writes:
  "snapshot_loop env d i ops s = (r, t) \<Longrightarrow> disk_files t p \<noteq> disk_files s p \<Longrightarrow>
     \<exists>dir j x. d = Some dir \<and> i \<le> j \<and> p = dir @ [zero_pad 3 j, x]"
proof (induction ops arbitrary: i s r t)
  case (Cons op ops)
  obtain r1 s1 where one: "snapshot_operation env op i d s = (r1, s1)"
    by (cases "snapshot_operation env op i d s")
  obtain r2 s2 where two: "snapshot_loop env d (Suc i) ops s1 = (r2, s2)"
    by (cases "snapshot_loop env d (Suc i) ops s1")
  have "t = s1 \<or> t = s2"
    using Cons.prems(1) by (auto simp: one two split: sum.splits)
  then consider "disk_files s1 p \<noteq> disk_files s p" | "disk_files s2 p \<noteq> disk_files s1 p"
    using Cons.prems(2) by metis
  then show ?case
  proof cases
    case 1
    then show ?thesis
      using snapshot_operation_writes [OF one] by blast
  next
    case 2
    then show ?thesis
      using Cons.IH [OF two 2] Suc_leD by blast
  qed
qed simp

lemma snapshot_loop_ok:
  assumes "snapshot_loop env d i ops s = (Inr rs, t)" and "list_all op_valid ops"
    and "d = Some dir \<or> list_all (\<lambda>op. action op \<noteq> ''add'') ops"
  shows "list_all (\<lambda>(op, e). e = entry_of op (entry_sha e) \<and> snap_ok dir (disk_files t) (op, entry_sha e)) rs"
  using assms
proof (induction ops arbitrary: i s rs)
  case (Cons op ops)
  obtain op' e s1 where one: "snapshot_operation env op i d s = (Inr (op', e), s1)"
    using Cons.prems(1) by (auto split: prod.splits sum.splits)
  obtain rs' where two: "snapshot_loop env d (Suc i) ops s1 = (Inr rs', t)" and rs: "rs = (op', e) # rs'"
    using Cons.prems(1) by (auto simp: one split: prod.splits sum.splits)
  have head: "e = entry_of op' (entry_sha e) \<and> snap_ok dir (disk_files s1) (op', entry_sha e)"
    using snapshot_operation_ok [OF one] Cons.prems(2,3) by auto
  have same: "disk_files s1 (dir @ [a, b]) = disk_files t (dir @ [a, b])" if "a = zero_pad 3 i" for a b
  proof (rule ccontr)
    assume "disk_files s1 (dir @ [a, b]) \<noteq> disk_files t (dir @ [a, b])"
    then show False
      using snapshot_loop_writes [OF two, of "dir @ [a, b]"] that by auto
  qed
  have "snap_ok dir (disk_files t) (op', entry_sha e)"
    using head same one Cons.prems(2,3)
    by (auto simp: snap_ok_def snapshot_operation_def snapshot_add_operation_def new_publication_op_def op_valid_def Let_def
        split: if_splits option.splits prod.splits sum.splits)
  moreover have "list_all (\<lambda>(op, e). e = entry_of op (entry_sha e) \<and> snap_ok dir (disk_files t) (op, entry_sha e)) rs'"
    using Cons.prems(2,3) by (intro Cons.IH [OF two]) auto
  ultimately show ?case
    using head by (simp add: rs)
qed simp

lemma submission_dir_cases:
  "submission_snapshot_dir env ops n = Some (snapshot_dir_for_sequence env n)
   \<or> submission_snapshot_dir env ops n = None \<and> list_all (\<lambda>op. action op \<noteq> ''add'') ops"
  by (auto simp: submission_snapshot_dir_def list_all_iff list_ex_iff)

lemma snapshot_operations_writes:
  assumes "snapshot_operations env ops n s = (r, t)" and "m \<noteq> n"
  shows "disk_files t (snapshot_dir_for_sequence env m @ rest) = disk_files s (snapshot_dir_for_sequence env m @ rest)"
proof (rule ccontr)
  let ?d = "submission_snapshot_dir env ops n"
  assume ne: "disk_files t (snapshot_dir_for_sequence env m @ rest) \<noteq> disk_files s (snapshot_dir_for_sequence env m @ rest)"
  obtain r' where "snapshot_loop env ?d 0 ops s = (r', t)"
    using assms(1) by (auto simp: snapshot_operations_def Let_def split: prod.splits sum.splits)
  then obtain dir j x where "?d = Some dir" "snapshot_dir_for_sequence env m @ rest = dir @ [zero_pad 3 j, x]"
    using snapshot_loop_writes ne by blast
  then have "snapshot_dir_for_sequence env m @ rest = snapshot_dir_for_sequence env n @ [zero_pad 3 j, x]"
    using submission_dir_cases [of env ops n] by auto
  then show False
    using dirs_disjoint [of env n m rest] assms(2) by simp
qed

lemma snapshot_operations_ok:
  assumes "snapshot_operations env ops n s = (Inr (rs, d), t)" and "list_all op_valid ops"
  shows "d \<in> {None, Some (snapshot_dir_for_sequence env n)}
    \<and> list_all (\<lambda>(op, e). e = entry_of op (entry_sha e)
        \<and> snap_ok (snapshot_dir_for_sequence env n) (disk_files t) (op, entry_sha e)) rs"
proof -
  have d: "d = submission_snapshot_dir env ops n" and loop: "snapshot_loop env d 0 ops s = (Inr rs, t)"
    using assms(1) by (auto simp: snapshot_operations_def Let_def split: prod.splits sum.splits)
  have "d = Some (snapshot_dir_for_sequence env n) \<or> list_all (\<lambda>op. action op \<noteq> ''add'') ops"
    using submission_dir_cases [of env ops n] d by auto
  then have "list_all (\<lambda>(op, e). e = entry_of op (entry_sha e)
      \<and> snap_ok (snapshot_dir_for_sequence env n) (disk_files t) (op, entry_sha e)) rs"
    by (rule snapshot_loop_ok [OF loop assms(2)])
  moreover have "d \<in> {None, Some (snapshot_dir_for_sequence env n)}"
    using submission_dir_cases [of env ops n] d by auto
  ultimately show ?thesis
    by blast
qed

section \<open>The representation is kept\<close>

text \<open>An operation that only touches the tree of one sequence leaves the other uploads intact.\<close>

lemma upload_ok_frame:
  assumes "upload_ok env F m u" and "\<And>rest. G (snapshot_dir_for_sequence env m @ rest) = F (snapshot_dir_for_sequence env m @ rest)"
  shows "upload_ok env G m u"
proof -
  have "snap_ok (snapshot_dir_for_sequence env m) G x" if "snap_ok (snapshot_dir_for_sequence env m) F x" for x
    using that by (rule snap_ok_mono) (simp add: assms(2))
  then show ?thesis
    using assms(1) by (auto simp: upload_ok_def list_all_iff)
qed

lemma pending_rep_frame:
  assumes "pending_rep env q s" and "envelopes t = envelopes s" and "mark_ok t" and "read_highwater s \<le> read_highwater t"
    and "\<And>m u rest. (m, u) \<in> set q \<Longrightarrow>
      disk_files t (snapshot_dir_for_sequence env m @ rest) = disk_files s (snapshot_dir_for_sequence env m @ rest)"
  shows "pending_rep env q t"
proof -
  have "1 \<le> n \<and> n \<le> read_highwater t \<and> upload_ok env (disk_files t) n u" if "(n, u) \<in> set q" for n u
  proof -
    have "1 \<le> n \<and> n \<le> read_highwater s \<and> upload_ok env (disk_files s) n u"
      using assms(1) that unfolding pending_rep_def by blast
    moreover have "upload_ok env (disk_files t) n u" if "upload_ok env (disk_files s) n u"
      using that assms(5) [OF \<open>(n, u) \<in> set q\<close>] by (rule upload_ok_frame)
    ultimately show ?thesis
      using assms(4) by linarith
  qed
  then show ?thesis
    using assms(1-3) unfolding pending_rep_def by auto
qed

lemma rmtree_other:
  "m \<noteq> n \<Longrightarrow> disk_files (rmtree (snapshot_dir_for_sequence env n) s) (snapshot_dir_for_sequence env m @ rest) =
     disk_files s (snapshot_dir_for_sequence env m @ rest)"
  using dirs_disjoint [of env n m rest] by (simp add: rmtree_def)

lemma cleanup_other:
  assumes "m \<noteq> n" and "d \<in> {None, Some (snapshot_dir_for_sequence env n)}"
  shows "disk_files (cleanup_failed_submission env name d s) (snapshot_dir_for_sequence env m @ rest) =
     disk_files s (snapshot_dir_for_sequence env m @ rest)"
  using assms rmtree_other [of m n env "unlink_envelope name s" rest]
  by (auto simp: cleanup_failed_submission_def Let_def)

lemma cleanup_envelopes: "envelopes (cleanup_failed_submission env name d s) = AList.delete name (envelopes s)"
  by (auto simp: cleanup_failed_submission_def Let_def rmtree_def unlink_envelope_def split: option.splits)

lemma delete_absent: "name \<notin> fst ` set d \<Longrightarrow> AList.delete name d = d"
  by (induction d) auto

lemma rep_fresh: "pending_rep env q s \<Longrightarrow> read_highwater s < n \<Longrightarrow> envelope_name n \<notin> fst ` set (envelopes s)"
proof
  assume rep: "pending_rep env q s" and n: "read_highwater s < n"
    and "envelope_name n \<in> fst ` set (envelopes s)"
  then obtain m u where "(m, u) \<in> set q" "envelope_name n = envelope_name m"
    unfolding pending_rep_def by auto
  then show False
    using rep n unfolding pending_rep_def by auto
qed

lemma rep_bounds:
  "pending_rep env q s \<Longrightarrow> (m, u) \<in> set q \<Longrightarrow> 1 \<le> m \<and> m \<le> read_highwater s \<and> m < next_sequence s"
  unfolding pending_rep_def mark_ok_def by fastforce

lemma rep_allocated:
  assumes "pending_rep env q s" and "allocate_sequence env s = (r, t)"
  shows "pending_rep env q t \<and> (\<forall>n. r = Inr n \<longrightarrow> n = next_sequence s \<and> read_highwater t = n
    \<and> envelope_name n \<notin> fst ` set (envelopes t) \<and> (\<forall>(m, u)\<in>set q. m < n))"
proof -
  have "mark_ok s"
    using assms(1) by (simp add: pending_rep_def)
  note spec = allocate_sequence_spec [OF assms(2) this]
  have "envelope_name (next_sequence s) \<notin> fst ` set (envelopes s)"
    using assms(1) by (rule rep_fresh) (use \<open>mark_ok s\<close> in \<open>simp add: mark_ok_def\<close>)
  moreover have "pending_rep env q t"
    using spec by (intro pending_rep_frame [OF assms(1)]) simp_all
  ultimately show ?thesis
    using spec rep_bounds [OF assms(1)] by auto
qed

text \<open>A failed submission leaves the queue as it was.\<close>

lemma rep_persist_failed:
  assumes rep: "pending_rep env q s" and p: "persist env ops msg s = (Inl e, t)"
  shows "pending_rep env q t"
  using p
proof (cases rule: persist_cases)
  case (alloc e')
  then show ?thesis
    using rep_allocated [OF rep alloc(1)] by simp
next
  case (snap e' n s1 s2)
  have a: "pending_rep env q s1" "envelope_name n \<notin> fst ` set (envelopes s1)" "\<forall>(m, u)\<in>set q. m < n"
    using rep_allocated [OF rep snap(1)] by auto
  note f = snapshot_operations_frame [OF snap(2)]
  have "same_counters s1 t"
    using f cleanup_frame snap(4) same_counters_trans by metis
  then have c: "mark_ok t" "read_highwater t = read_highwater s1"
    using counters_mark [of s1 t] a(1) by (simp_all add: pending_rep_def)
  have "envelopes t = envelopes s1"
    using f a(2) by (simp add: snap(4) cleanup_envelopes delete_absent)
  moreover have "disk_files t (snapshot_dir_for_sequence env m @ rest) =
      disk_files s1 (snapshot_dir_for_sequence env m @ rest)" if "(m, u) \<in> set q" for m u rest
    using that a(3) cleanup_other [of m n "Some (snapshot_dir_for_sequence env n)" env]
      snapshot_operations_writes [OF snap(2), of m rest] by (auto simp: snap(4))
  ultimately show ?thesis
    using c by (intro pending_rep_frame [OF a(1)]) simp_all
next
  case (envelope e' n s1 s2 s3 rs dir)
  have a: "pending_rep env q s1" "envelope_name n \<notin> fst ` set (envelopes s1)" "\<forall>(m, u)\<in>set q. m < n"
    using rep_allocated [OF rep envelope(1)] by auto
  note f = snapshot_operations_frame [OF envelope(2)]
  have s3: "s3 = s2"
    using envelope(3) by (auto simp: write_envelope_def split: if_splits)
  have dir: "dir \<in> {None, Some (snapshot_dir_for_sequence env n)}"
    using envelope(2) submission_dir_cases [of env ops n]
    by (auto simp: snapshot_operations_def Let_def split: prod.splits sum.splits)
  have "same_counters s1 t"
    using f cleanup_frame envelope(5) s3 same_counters_trans by metis
  then have c: "mark_ok t" "read_highwater t = read_highwater s1"
    using counters_mark [of s1 t] a(1) by (simp_all add: pending_rep_def)
  have "envelopes t = envelopes s1"
    using f a(2) by (simp add: envelope(5) s3 cleanup_envelopes delete_absent)
  moreover have "disk_files t (snapshot_dir_for_sequence env m @ rest) =
      disk_files s1 (snapshot_dir_for_sequence env m @ rest)" if "(m, u) \<in> set q" for m u rest
    using that a(3) cleanup_other [OF _ dir, of m] snapshot_operations_writes [OF envelope(2), of m rest]
    by (auto simp: envelope(5) s3)
  ultimately show ?thesis
    using c by (intro pending_rep_frame [OF a(1)]) simp_all
qed simp

lemma sorted_snoc: "sorted_wrt (<) (xs :: nat list) \<Longrightarrow> \<forall>x\<in>set xs. x < n \<Longrightarrow> sorted_wrt (<) (xs @ [n])"
  by (simp add: sorted_wrt_append)

text \<open>A successful submission is appended with its sequence.\<close>

lemma rep_persist:
  assumes rep: "pending_rep env q s" and p: "persist env ops msg s = (Inr u, t)" and ops: "list_all op_valid ops"
  shows "pending_rep env (q @ [(next_sequence s, u)]) t"
  using p
proof (cases rule: persist_cases)
  case (ok n s1 s2 rs dir)
  have a: "pending_rep env q s1" "n = next_sequence s" "read_highwater s1 = n"
      "envelope_name n \<notin> fst ` set (envelopes s1)" "\<forall>(m, u)\<in>set q. m < n"
    using rep_allocated [OF rep ok(1)] by auto
  note f = snapshot_operations_frame [OF ok(2)]
  note snaps = snapshot_operations_ok [OF ok(2) ops]
  have u: "up_ops u = map fst rs" "up_message u = msg" "up_state_path u = envelope_name n"
      "up_snapshot_dir u = dir" "up_op_shas u = map (entry_sha \<circ> snd) rs"
    using ok(4) by simp_all
  have entries: "map2 entry_of (up_ops u) (up_op_shas u) = map snd rs"
    using snaps by (auto simp: u zip_map_map zip_same_conv_map list_all_iff split_beta)
  have t: "envelopes t = AList.update (envelope_name n) (envelope_file n u) (envelopes s2)" "disk_files t = disk_files s2"
    using ok(3) by (auto simp: write_envelope_def envelope_file_def entries u(2) split: if_splits)
  have new: "envelope_name n \<notin> fst ` set (envelopes s2)"
    using a(4) f by simp
  then have envs: "envelopes t = envelopes s1 @ [(envelope_name n, envelope_file n u)]"
    using f by (simp add: t) (metis dict_update_new map_of_eq_None_iff)
  have "same_counters s1 t"
    using f write_envelope_frame [OF ok(3)] same_counters_trans by metis
  then have c: "mark_ok t" "read_highwater t = n"
    using counters_mark [of s1 t] a(1,3) by (simp_all add: pending_rep_def)
  have disk: "disk_files t = disk_files s2"
    by (simp add: t)
  have "list_all (snap_ok (snapshot_dir_for_sequence env n) (disk_files t)) (zip (up_ops u) (up_op_shas u))"
    using snaps by (auto simp: u disk zip_map_map zip_same_conv_map list_all_iff split_beta)
  then have mine: "upload_ok env (disk_files t) n u"
    using snaps by (simp add: upload_ok_def u)
  have others: "1 \<le> m \<and> m \<le> read_highwater t \<and> upload_ok env (disk_files t) m v" if "(m, v) \<in> set q" for m v
  proof -
    have "upload_ok env (disk_files s1) m v" "1 \<le> m" "m < n"
      using a(1,5) that unfolding pending_rep_def by auto
    moreover have "disk_files t (snapshot_dir_for_sequence env m @ rest) = disk_files s1 (snapshot_dir_for_sequence env m @ rest)" for rest
      using snapshot_operations_writes [OF ok(2), of m rest] \<open>m < n\<close> by (simp add: disk)
    ultimately show ?thesis
      using upload_ok_frame [of env "disk_files s1" m v "disk_files t"] c(2) by simp
  qed
  have n1: "1 \<le> n"
    using rep a(2) by (simp add: pending_rep_def mark_ok_def)
  have rep1: "clean_path (state_dir env)" "sorted_wrt (<) (map fst q)" "distinct (map fst (envelopes s1))"
      "set (envelopes s1) = (\<lambda>(n, u). (envelope_name n, envelope_file n u)) ` set q"
    using a(1) by (simp_all add: pending_rep_def)
  have "sorted_wrt (<) (map fst (q @ [(n, u)]))"
    using rep1(2) a(5) by (simp add: sorted_snoc split_beta)
  then show ?thesis
    using rep1 c mine others n1 envs a(4) unfolding pending_rep_def a(2) [symmetric] by auto
qed simp_all

text \<open>A completed upload leaves the queue.\<close>

lemma rep_delete:
  assumes rep: "pending_rep env q s" and nu: "(n, u) \<in> set q"
    and dir: "dir \<in> {None, Some (snapshot_dir_for_sequence env n)}"
    and d: "delete_upload env (up_state_path u) dir s = (r, t)"
  shows "pending_rep env (filter (\<lambda>(m, _). m \<noteq> n) q) t \<and> r = Inr ()"
proof -
  have u: "up_state_path u = envelope_name n" "dir \<in> {None, Some (snapshot_dir_for_sequence env n)}"
    using rep nu dir unfolding pending_rep_def upload_ok_def by auto
  have clean: "clean_path (state_dir env)"
    using rep by (simp add: pending_rep_def)
  have inside: "is_inside (snapshot_dir_for_sequence env n) (snapshots_root env)"
    using is_inside_clean [of "snapshots_root env" "[zero_pad 6 n]"] dir_clean [OF clean, of n]
    by (simp add: snapshots_root_def snapshot_dir_for_sequence_def)
  have t: "envelopes t = AList.delete (envelope_name n) (envelopes s)" "r = Inr ()"
    using d u inside by (auto simp: delete_upload_def Let_def rmtree_def unlink_envelope_def)
  have disk: "disk_files t (snapshot_dir_for_sequence env m @ rest) = disk_files s (snapshot_dir_for_sequence env m @ rest)"
    if "m \<noteq> n" for m rest
    using d u inside rmtree_other [OF that, of env "unlink_envelope (envelope_name n) s" rest]
    by (auto simp: delete_upload_def Let_def)
  have c: "mark_ok t" "read_highwater t = read_highwater s"
    using counters_mark [OF delete_upload_counters [OF d]] rep by (simp_all add: pending_rep_def)
  have "set (envelopes t) = (\<lambda>(n, u). (envelope_name n, envelope_file n u)) ` set (filter (\<lambda>(m, _). m \<noteq> n) q)"
  proof -
    let ?f = "\<lambda>(n, u). (envelope_name n, envelope_file n u)"
    have "set (envelopes t) = {x \<in> ?f ` set q. envelope_name n \<noteq> fst x}"
      using rep unfolding t(1) AList.delete_eq pending_rep_def by (simp add: split_beta)
    also have "\<dots> = ?f ` {x \<in> set q. fst x \<noteq> n}"
      by force
    finally show ?thesis
      by (simp add: split_beta)
  qed
  moreover have "distinct (map fst (envelopes t))"
    using rep unfolding t(1) pending_rep_def by (intro distinct_delete) simp
  moreover have "1 \<le> m \<and> m \<le> read_highwater t \<and> upload_ok env (disk_files t) m v" if "(m, v) \<in> set q" "m \<noteq> n" for m v
  proof -
    have "1 \<le> m \<and> m \<le> read_highwater s \<and> upload_ok env (disk_files s) m v"
      using rep that(1) unfolding pending_rep_def by blast
    then show ?thesis
      using upload_ok_frame [of env "disk_files s" m v "disk_files t"] disk [OF that(2)] c(2) by simp
  qed
  moreover have "sorted_wrt (<) (map fst (filter (\<lambda>(m, _). m \<noteq> n) q))"
    using rep by (simp add: pending_rep_def sorted_wrt_map sorted_wrt_filter)
  ultimately show ?thesis
    using clean c t(2) unfolding pending_rep_def by auto
qed

lemma rep_restart:
  assumes "pending_rep env q s"
  shows "pending_rep env q (open_store s)"
  using assms
proof (rule pending_rep_frame)
  show "mark_ok (open_store s)" "read_highwater s \<le> read_highwater (open_store s)"
    using open_store_mark [of s] by simp_all
qed (simp_all add: open_store_def)

lemma rep_files:
  assumes "pending_rep env q s" and "\<And>rest. F (snapshots_root env @ rest) = disk_files s (snapshots_root env @ rest)"
  shows "pending_rep env q (s\<lparr>disk_files := F\<rparr>)"
proof -
  let ?t = "s\<lparr>disk_files := F\<rparr>"
  have "mark_ok ?t \<and> read_highwater ?t = read_highwater s"
    using counters_mark [of s ?t] assms(1) by (simp add: same_counters_def pending_rep_def)
  moreover have "F (snapshot_dir_for_sequence env m @ rest) = disk_files s (snapshot_dir_for_sequence env m @ rest)" for m rest
    using assms(2) [of "zero_pad 6 m # rest"] by (simp add: snapshots_root_def snapshot_dir_for_sequence_def)
  ultimately show ?thesis
    by (intro pending_rep_frame [OF assms(1)]) simp_all
qed

section \<open>Operations that stop inside\<close>

text \<open>The changes a submission makes before its envelope is written, or to undo itself.\<close>

fun own_effect :: "upload_env \<Rightarrow> nat \<Rightarrow> disk_effect \<Rightarrow> bool" where
  "own_effect env n (WroteMark text) \<longleftrightarrow> text = py_str_int (int n) @ [CHR 0x0A]"
| "own_effect env n (WroteFile p bytes) \<longleftrightarrow> (\<exists>rest. p = snapshot_dir_for_sequence env n @ rest)"
| "own_effect env n (WroteEnvelope name f) \<longleftrightarrow> False"
| "own_effect env n (UnlinkedEnvelope name) \<longleftrightarrow> name = envelope_name n"
| "own_effect env n (RemovedTree dir) \<longleftrightarrow> dir = snapshot_dir_for_sequence env n"

definition logged :: "upload_env \<Rightarrow> nat \<Rightarrow> upload_store \<Rightarrow> upload_store \<Rightarrow> bool" where
  "logged env n s t \<longleftrightarrow> (\<exists>es. effects t = effects s @ es \<and> list_all (own_effect env n) es)"

lemma logged_refl: "effects t = effects s \<Longrightarrow> logged env n s t"
  by (simp add: logged_def)

lemma logged_trans: "logged env n s t \<Longrightarrow> logged env n t v \<Longrightarrow> logged env n s v"
  unfolding logged_def by (metis append.assoc list_all_append)

lemma allocate_logged:
  "allocate_sequence env s = (r, t) \<Longrightarrow> logged env (next_sequence s) s t"
  by (auto simp: allocate_sequence_def write_highwater_def logged_def Let_def split: if_splits)

lemma snapshot_operation_logged:
  "snapshot_operation env op i d s = (r, t) \<Longrightarrow> d \<in> {None, Some (snapshot_dir_for_sequence env n)} \<Longrightarrow> logged env n s t"
  by (auto simp: snapshot_operation_def snapshot_add_operation_def independent_copy_def logged_def Let_def
      split: if_splits option.splits)

lemma snapshot_loop_logged:
  "snapshot_loop env d i ops s = (r, t) \<Longrightarrow> d \<in> {None, Some (snapshot_dir_for_sequence env n)} \<Longrightarrow> logged env n s t"
proof (induction ops arbitrary: i s r t)
  case (Cons op ops)
  obtain r1 s1 where one: "snapshot_operation env op i d s = (r1, s1)"
    by (cases "snapshot_operation env op i d s")
  obtain r2 s2 where two: "snapshot_loop env d (Suc i) ops s1 = (r2, s2)"
    by (cases "snapshot_loop env d (Suc i) ops s1")
  have "t = s1 \<or> t = s2"
    using Cons.prems(1) by (auto simp: one two split: sum.splits)
  then show ?case
    using snapshot_operation_logged [OF one Cons.prems(2)] Cons.IH [OF two Cons.prems(2)] logged_trans by blast
qed (simp add: logged_refl)

lemma snapshot_operations_logged:
  assumes "snapshot_operations env ops n s = (r, t)"
  shows "logged env n s t"
proof -
  have d: "submission_snapshot_dir env ops n \<in> {None, Some (snapshot_dir_for_sequence env n)}"
    using submission_dir_cases [of env ops n] by auto
  obtain r' where "snapshot_loop env (submission_snapshot_dir env ops n) 0 ops s = (r', t)"
    using assms by (auto simp: snapshot_operations_def Let_def split: prod.splits sum.splits)
  then show ?thesis
    by (rule snapshot_loop_logged) (rule d)
qed

lemma cleanup_logged:
  "d \<in> {None, Some (snapshot_dir_for_sequence env n)} \<Longrightarrow> logged env n s (cleanup_failed_submission env (envelope_name n) d s)"
  by (auto simp: cleanup_failed_submission_def Let_def rmtree_def unlink_envelope_def logged_def)

text \<open>Only the last change of a successful submission is the write of its envelope.\<close>

lemma persist_logged:
  assumes "persist env ops msg s = (r, t)" and "mark_ok s"
  shows "\<exists>front last. effects t = effects s @ front @ last \<and> list_all (own_effect env (next_sequence s)) front
    \<and> (last = [] \<or> (\<exists>name f. last = [WroteEnvelope name f]))"
proof -
  have whole: ?thesis if "logged env (next_sequence s) s t"
    using that unfolding logged_def by (metis append_Nil2)
  show ?thesis
    using assms(1)
  proof (cases rule: persist_cases)
    case (alloc e)
    then show ?thesis
      using whole allocate_logged [OF alloc(1)] by simp
  next
    case (snap e n s1 s2)
    have "n = next_sequence s" using allocate_sequence_spec [OF snap(1) assms(2)] by simp
    then show ?thesis
      using whole allocate_logged [OF snap(1)] snapshot_operations_logged [OF snap(2)]
        cleanup_logged [of "Some (snapshot_dir_for_sequence env n)" env n s2] snap(4) logged_trans by (metis insertCI)
  next
    case (envelope e n s1 s2 s3 rs dir)
    have n: "n = next_sequence s" using allocate_sequence_spec [OF envelope(1) assms(2)] by simp
    have "effects s3 = effects s2" using envelope(3) by (auto simp: write_envelope_def split: if_splits)
    moreover have "dir \<in> {None, Some (snapshot_dir_for_sequence env n)}"
      using envelope(2) submission_dir_cases [of env ops n]
      by (auto simp: snapshot_operations_def Let_def split: prod.splits sum.splits)
    ultimately have "logged env n s t"
      using allocate_logged [OF envelope(1)] snapshot_operations_logged [OF envelope(2)] cleanup_logged [of dir env n s3]
        logged_refl [of s3 s2] envelope(5) n logged_trans by metis
    then show ?thesis using whole n by simp
  next
    case (ok n s1 s2 rs dir)
    have "n = next_sequence s" using allocate_sequence_spec [OF ok(1) assms(2)] by simp
    then have "logged env (next_sequence s) s s2"
      using allocate_logged [OF ok(1)] snapshot_operations_logged [OF ok(2)] logged_trans by metis
    then obtain es where es: "effects s2 = effects s @ es" "list_all (own_effect env (next_sequence s)) es"
      unfolding logged_def by blast
    obtain name f where "effects t = effects s2 @ [WroteEnvelope name f]"
      using ok(3) by (auto simp: write_envelope_def split: if_splits)
    then show ?thesis using es by (intro exI [of _ es] exI [of _ "[WroteEnvelope name f]"]) simp
  qed
qed

lemma own_effect_kept:
  assumes rep: "pending_rep env q (s\<lparr>next_sequence := Suc n\<rparr>)" and below: "\<forall>(m, u)\<in>set q. m < n"
    and e: "own_effect env n e" and w: "w = apply_effect e s \<or> partly e s w"
  shows "pending_rep env q (w\<lparr>next_sequence := Suc n\<rparr>)"
proof -
  have hw: "read_highwater s < Suc n" using rep by (simp add: pending_rep_def mark_ok_def read_highwater_def)
  have marks: "read_highwater w = read_highwater s \<or> read_highwater w = n"
    using e w read_highwater_written [of w n] by (cases e) (auto simp: read_highwater_def)
  have "envelope_name n \<notin> fst ` set (envelopes s)"
    using rep below unfolding pending_rep_def by auto
  then have envs: "envelopes w = envelopes s"
    using e w by (cases e) (auto simp: delete_absent)
  have disk: "disk_files w (snapshot_dir_for_sequence env m @ rest) = disk_files s (snapshot_dir_for_sequence env m @ rest)"
    if "m \<noteq> n" for m rest
  proof -
    have apart: "snapshot_dir_for_sequence env m @ rest \<noteq> snapshot_dir_for_sequence env n @ rest'" for rest'
    proof
      assume eq: "snapshot_dir_for_sequence env m @ rest = snapshot_dir_for_sequence env n @ rest'"
      have "take (length (snapshot_dir_for_sequence env n)) (snapshot_dir_for_sequence env m @ rest) = snapshot_dir_for_sequence env n"
        unfolding eq by simp
      then show False using dirs_disjoint [of env n m rest] that by blast
    qed
    show ?thesis
      using e w apart dirs_disjoint [of env n m rest] that by (cases e) auto
  qed
  have same: "read_highwater (v\<lparr>next_sequence := k\<rparr>) = read_highwater v" for v :: upload_store and k
    by (rule read_highwater_cong) simp
  show ?thesis
  proof (rule pending_rep_frame [OF rep])
    show "mark_ok (w\<lparr>next_sequence := Suc n\<rparr>)" using hw marks by (auto simp: mark_ok_def same)
    show "read_highwater (s\<lparr>next_sequence := Suc n\<rparr>) \<le> read_highwater (w\<lparr>next_sequence := Suc n\<rparr>)"
      using hw marks by (auto simp: same)
    show "disk_files (w\<lparr>next_sequence := Suc n\<rparr>) (snapshot_dir_for_sequence env m @ rest)
        = disk_files (s\<lparr>next_sequence := Suc n\<rparr>) (snapshot_dir_for_sequence env m @ rest)" if "(m, u) \<in> set q" for m u rest
      using disk [of m rest] below that by auto
  qed (simp add: envs)
qed

lemma own_effects_kept:
  "list_all (own_effect env n) es \<Longrightarrow> pending_rep env q (s\<lparr>next_sequence := Suc n\<rparr>) \<Longrightarrow> \<forall>(m, u)\<in>set q. m < n
   \<Longrightarrow> pending_rep env q ((fold apply_effect es s)\<lparr>next_sequence := Suc n\<rparr>)"
proof (induction es arbitrary: s)
  case (Cons e es)
  have "pending_rep env q ((apply_effect e s)\<lparr>next_sequence := Suc n\<rparr>)"
    by (rule own_effect_kept [OF Cons.prems(2,3), of e]) (use Cons.prems(1) in simp_all)
  then show ?case
    using Cons.IH Cons.prems by simp
qed simp

text \<open>A submission that stops before its envelope is complete leaves the queue as it was.\<close>

lemma rep_persist_stopped:
  assumes rep: "pending_rep env q s" and p: "persist env ops msg s = (r, t)" and stop: "stopped_between s t w"
  shows "pending_rep env q (w\<lparr>next_sequence := next_sequence t\<rparr>)"
proof -
  define n where "n = next_sequence s"
  have mark: "mark_ok s" using rep by (simp add: pending_rep_def)
  have seq: "next_sequence t = Suc n" using persist_counters [OF p mark] by (simp add: n_def)
  have below: "\<forall>(m, u)\<in>set q. m < n" using rep_bounds [OF rep] by (auto simp: n_def)
  have start: "pending_rep env q (s\<lparr>next_sequence := Suc n\<rparr>)"
    using mark by (intro pending_rep_frame [OF rep]) (simp_all add: mark_ok_def read_highwater_def n_def)
  obtain front last where log: "effects t = effects s @ front @ last" "list_all (own_effect env n) front"
      "last = [] \<or> (\<exists>name f. last = [WroteEnvelope name f])"
    using persist_logged [OF p mark] unfolding n_def by blast
  obtain front' e rest where stop': "effects t = effects s @ front' @ e # rest" "partly e (fold apply_effect front' s) w"
    using stop unfolding stopped_between_def by blast
  have split: "front @ last = front' @ e # rest" using log(1) stop'(1) by simp
  consider more where "front = front' @ e # more" | "front = front'" "last = [e]"
    using split log(3) by (auto simp: append_eq_append_conv2 Cons_eq_append_conv append_eq_Cons_conv)
  then show ?thesis
  proof cases
    case 1
    then have own: "list_all (own_effect env n) front'" "own_effect env n e" using log(2) by simp_all
    show ?thesis unfolding seq
      by (rule own_effect_kept [OF own_effects_kept [OF own(1) start below] below own(2)]) (simp add: stop'(2))
  next
    case 2
    then have "w = fold apply_effect front s" using log(3) stop'(2) by auto
    then show ?thesis unfolding seq using own_effects_kept [OF log(2) start below] by simp
  qed
qed

text \<open>A completion that stops has removed its upload from the queue exactly when the envelope is gone.\<close>

lemma rep_delete_stopped:
  assumes rep: "pending_rep env q s" and nu: "(n, u) \<in> set q"
    and dir: "dir \<in> {None, Some (snapshot_dir_for_sequence env n)}"
    and d: "delete_upload env (up_state_path u) dir s = (r, t)" and stop: "stopped_between s t w"
  shows "pending_rep env (filter (\<lambda>(m, _). m \<noteq> n \<or> envelope_name n \<in> fst ` set (envelopes w)) q) (w\<lparr>next_sequence := next_sequence t\<rparr>)"
proof -
  have u: "up_state_path u = envelope_name n" using rep nu unfolding pending_rep_def upload_ok_def by auto
  have there: "envelope_name n \<in> fst ` set (envelopes s)" using rep nu unfolding pending_rep_def by force
  have counters: "next_sequence t = next_sequence s" using delete_upload_counters [OF d] by (simp add: same_counters_def)
  let ?gone = "unlink_envelope (envelope_name n) s"
  have log: "effects t = effects s @ [UnlinkedEnvelope (envelope_name n)]
      \<or> effects t = effects s @ [UnlinkedEnvelope (envelope_name n), RemovedTree (snapshot_dir_for_sequence env n)]"
    using d dir u by (auto simp: delete_upload_def Let_def rmtree_def unlink_envelope_def split: if_splits)
  obtain front e rest where stop': "effects t = effects s @ front @ e # rest" "partly e (fold apply_effect front s) w"
    using stop unfolding stopped_between_def by blast
  then consider "front = []" "e = UnlinkedEnvelope (envelope_name n)"
    | "front = [UnlinkedEnvelope (envelope_name n)]" "e = RemovedTree (snapshot_dir_for_sequence env n)"
    using log by (auto simp: Cons_eq_append_conv append_eq_Cons_conv)
  then show ?thesis
  proof cases
    case 1
    then have w: "w = s" using stop'(2) by simp
    then show ?thesis using rep there by (simp add: counters filter_id_conv)
  next
    case 2
    obtain removed where w: "w = s\<lparr>envelopes := AList.delete (envelope_name n) (envelopes s), disk_files := (\<lambda>p.
        if take (length (snapshot_dir_for_sequence env n)) p = snapshot_dir_for_sequence env n \<and> p \<in> removed then None else disk_files s p)\<rparr>"
      using stop'(2) 2 by (auto cong: if_cong)
    have "delete_upload env (up_state_path u) None s = (Inr (), ?gone)" by (simp add: delete_upload_def u)
    then have "pending_rep env (filter (\<lambda>(m, _). m \<noteq> n) q) ?gone" using rep_delete [OF rep nu, of None] by blast
    then have "pending_rep env (filter (\<lambda>(m, _). m \<noteq> n) q) (w\<lparr>next_sequence := next_sequence t\<rparr>)"
    proof (rule pending_rep_frame)
      show "mark_ok (w\<lparr>next_sequence := next_sequence t\<rparr>)"
        using rep by (simp add: w counters pending_rep_def mark_ok_def read_highwater_def)
      show "disk_files (w\<lparr>next_sequence := next_sequence t\<rparr>) (snapshot_dir_for_sequence env m @ rest)
          = disk_files ?gone (snapshot_dir_for_sequence env m @ rest)" if "(m, v) \<in> set (filter (\<lambda>(m, _). m \<noteq> n) q)" for m v rest
        using that dirs_disjoint [of env n m rest] by (auto simp: w)
    qed (simp_all add: w unlink_envelope_def read_highwater_def)
    moreover have "envelope_name n \<notin> fst ` set (envelopes w)" by (auto simp: w AList.delete_eq)
    ultimately show ?thesis by simp
  qed
qed

section \<open>Resuming a represented directory\<close>

text \<open>The payload of a stored envelope.\<close>

definition envelope_payload :: "nat \<Rightarrow> stored_upload \<Rightarrow> (string, json) dict" where
  "envelope_payload n u = sorted_entries (map (map_prod id jsort)
     [(''contract_version'', JStr QUEUE_CONTRACT_VERSION), (''sequence'', JInt (int n)),
      (''message'', JStr (up_message u)), (''ops'', JList (map JObj (map2 entry_of (up_ops u) (up_op_shas u))))])"

lemma envelope_file_payload: "read_legacy_or_current_envelope (envelope_file n u) = Some (envelope_payload n u)"
  by (simp add: envelope_file_def write_json_def queue_envelope_def read_legacy_or_current_envelope_def
      read_json_def envelope_payload_def)

lemma payload_fields:
  "map_of (envelope_payload n u) ''contract_version'' = Some (JStr QUEUE_CONTRACT_VERSION)"
  "map_of (envelope_payload n u) ''sequence'' = Some (JInt (int n))"
  "map_of (envelope_payload n u) ''message'' = Some (JStr (up_message u))"
  "map_of (envelope_payload n u) ''ops'' =
     Some (JList (map (jsort \<circ> JObj) (map2 entry_of (up_ops u) (up_op_shas u))))"
  unfolding envelope_payload_def map_of_jsort_entries by simp_all

lemma classify_stored:
  assumes "1 \<le> n" and "n \<notin> set (scan_seen sc)"
  shows "classify_pending_envelope (envelope_name n, envelope_file n u) sc =
    Inr (sc\<lparr>scan_seen := scan_seen sc @ [n], scan_current := scan_current sc @ [(n, envelope_name n, envelope_payload n u)]\<rparr>)"
  using assms
  by (simp add: classify_pending_envelope_def envelope_file_payload is_legacy_envelope_def current_sequence_def payload_fields)

lemma classify_stored_list:
  "\<forall>(n, u)\<in>set q. 1 \<le> n \<Longrightarrow> distinct (scan_seen sc @ map fst q) \<Longrightarrow>
   res_fold classify_pending_envelope (map (\<lambda>(n, u). (envelope_name n, envelope_file n u)) q) sc =
     Inr (sc\<lparr>scan_seen := scan_seen sc @ map fst q,
       scan_current := scan_current sc @ map (\<lambda>(n, u). (n, envelope_name n, envelope_payload n u)) q\<rparr>)"
proof (induction q arbitrary: sc)
  case (Cons nu q)
  obtain n u where nu: "nu = (n, u)"
    by (cases nu)
  let ?sc = "sc\<lparr>scan_seen := scan_seen sc @ [n], scan_current := scan_current sc @ [(n, envelope_name n, envelope_payload n u)]\<rparr>"
  have "classify_pending_envelope (envelope_name n, envelope_file n u) sc = Inr ?sc"
    using Cons.prems by (intro classify_stored) (auto simp: nu)
  moreover have "res_fold classify_pending_envelope (map (\<lambda>(n, u). (envelope_name n, envelope_file n u)) q) ?sc =
      Inr (?sc\<lparr>scan_seen := scan_seen ?sc @ map fst q,
        scan_current := scan_current ?sc @ map (\<lambda>(n, u). (n, envelope_name n, envelope_payload n u)) q\<rparr>)"
    using Cons.prems by (intro Cons.IH) (auto simp: nu)
  ultimately show ?case
    by (simp add: nu)
qed simp

lemma entry_fields:
  "map_of (entry_of op sha) ''action'' = Some (JStr (action op))"
  "map_of (entry_of op sha) ''path_in_repo'' = Some (JStr (path_in_repo op))"
  "map_of (entry_of op sha) ''local_path'' = Some (path_json (local_path op))"
  "map_of (entry_of op sha) ''snapshot_path'' = (if action op = ''add'' then Some (path_json (snapshot_path op)) else None)"
  "map_of (entry_of op sha) ''sha256'' = (if action op = ''add'' then Some sha else None)"
  by (simp_all add: entry_of_def)

lemma json_path_clean: "clean_path p \<Longrightarrow> json_path (JStr (path_str p)) = Inr (Some p)"
  by (simp add: json_path_def path_of_str) (simp add: path_str_def)

lemma json_path_null: "json_path JNull = Inr None"
  by (simp add: json_path_def)

lemma resume_operation_stored:
  assumes dir: "list_all clean_component dir" and ok: "snap_ok dir F (op, sha)"
  shows "resume_operation dir (jsort (JObj (entry_of op sha))) = Inr (op, sha)"
proof -
  let ?e = "sorted_entries (map (map_prod id jsort) (entry_of op sha))"
  have e: "map_of ?e k = map_option jsort (map_of (entry_of op sha) k)" for k
    by (rule map_of_jsort_entries)
  have req: "required_string ?e ''action'' = Inr (action op)" "required_string ?e ''path_in_repo'' = Inr (path_in_repo op)"
    by (simp_all add: required_string_def e entry_fields)
  show ?thesis
  proof (cases "action op = ''add''")
    case True
    then obtain l a b bytes where l: "local_path op = Some l" "clean_path l" and snap: "snapshot_path op = Some (dir @ [a, b])"
      "clean_component a" "clean_component b" and sha: "sha = JStr (digest_bytes bytes)"
      using ok by (auto simp: snap_ok_def)
    have cs: "clean_path (dir @ [a, b])"
      using dir snap(2,3) by (simp add: clean_path_def)
    have inside: "is_inside (dir @ [a, b]) dir"
      using cs by (intro is_inside_clean) (simp add: clean_path_def)
    have get: "dict_get ?e ''local_path'' JNull = JStr (path_str l)"
      "dict_get ?e ''snapshot_path'' JNull = JStr (path_str (dir @ [a, b]))" "entry_sha ?e = sha"
      using True unfolding sha
      by (simp_all add: dict_get_def entry_sha_def map_of_jsort_entries entry_fields path_json_def l snap)
    have "op = \<lparr>action = ''add'', path_in_repo = path_in_repo op, local_path = Some l, snapshot_path = Some (dir @ [a, b])\<rparr>"
      using True l snap by simp
    then have "new_publication_op ''add'' (path_in_repo op) (Some l) (Some (dir @ [a, b])) = Inr op"
      by (simp add: new_publication_op_def validate_action_def validate_local_path_def validate_snapshot_path_def)
    then show ?thesis
      using True l inside
      by (simp add: resume_operation_def json_entry_def req get json_path_clean [OF l(2)] json_path_clean [OF cs]
          validate_resume_snapshot_def)
  next
    case False
    then have d: "action op = ''delete''" "local_path op = None" "snapshot_path op = None" "sha = JNull"
      using ok by (auto simp: snap_ok_def)
    have get: "dict_get ?e ''local_path'' JNull = JNull" "dict_get ?e ''snapshot_path'' JNull = JNull" "entry_sha ?e = sha"
      using d by (simp_all add: dict_get_def entry_sha_def map_of_jsort_entries entry_fields path_json_def)
    have "op = \<lparr>action = ''delete'', path_in_repo = path_in_repo op, local_path = None, snapshot_path = None\<rparr>"
      using d by simp
    then have "new_publication_op ''delete'' (path_in_repo op) None None = Inr op"
      by (simp add: new_publication_op_def validate_action_def validate_local_path_def validate_snapshot_path_def)
    then show ?thesis
      using d(1-3) by (simp add: resume_operation_def json_entry_def req get json_path_null)
  qed
qed

lemma restore_stored:
  assumes clean: "clean_path (state_dir env)" and ok: "upload_ok env F n u"
  shows "restore_pending_job env (n, envelope_name n, JObj (envelope_payload n u), snapshot_dir_for_sequence env n) =
    Inr (Inl (u\<lparr>up_snapshot_dir := Some (snapshot_dir_for_sequence env n)\<rparr>))"
proof -
  let ?dir = "snapshot_dir_for_sequence env n"
  let ?pairs = "zip (up_ops u) (up_op_shas u)"
  have dir: "list_all clean_component ?dir"
    using clean by (rule dir_clean)
  have inside: "is_inside ?dir (snapshots_root env)"
    using is_inside_clean [of "snapshots_root env" "[zero_pad 6 n]"] dir
    by (simp add: snapshots_root_def snapshot_dir_for_sequence_def)
  have "map (resume_operation ?dir) (map (\<lambda>(op, sha). jsort (JObj (entry_of op sha))) ?pairs) = map Inr ?pairs"
    using ok resume_operation_stored [OF dir, of F] unfolding upload_ok_def list_all_iff by (auto simp: split_beta)
  then have "res_map (resume_operation ?dir) (map (\<lambda>(op, sha). jsort (JObj (entry_of op sha))) ?pairs) = Inr ?pairs"
    by (rule res_map_eq_map)
  moreover have "dict_get (envelope_payload n u) ''ops'' (JList []) =
      JList (map (\<lambda>(op, sha). jsort (JObj (entry_of op sha))) ?pairs)"
    unfolding dict_get_def payload_fields(4) by (simp add: split_beta)
  ultimately have ops: "resume_operations (JObj (envelope_payload n u)) ?dir = Inr ?pairs"
    unfolding resume_operations_def json_entry_def by (simp only: json.case res_bind_simps json_iter_def)
  have "map fst ?pairs = up_ops u" "map snd ?pairs = up_op_shas u" "up_state_path u = envelope_name n"
    using ok by (simp_all add: upload_ok_def)
  then show ?thesis
    using inside ops
    by (simp add: restore_pending_job_def json_entry_def dict_item_def payload_fields json_str_def)
qed

lemma distinct_image_list:
  assumes "distinct xs" and "set xs = f ` A" and "finite A" and "inj_on f A"
  obtains q where "xs = map f q" "distinct q" "set q = A"
proof -
  let ?q = "map (inv_into A f) xs"
  have "map f ?q = xs"
    using assms(2) by (auto simp: f_inv_into_f intro!: map_idI)
  moreover have "set ?q = A"
    using assms(2,4) by (auto simp: inv_into_f_f image_image)
  moreover have "distinct ?q"
    using assms(1) calculation(1) by (metis distinct_map)
  ultimately show ?thesis
    using that by metis
qed

lemma resume_represented:
  assumes rep: "pending_rep env q s"
  shows "resume_pending env s =
    (Inr \<lparr>res_uploads = map (\<lambda>(n, u). u\<lparr>up_snapshot_dir := Some (snapshot_dir_for_sequence env n)\<rparr>) q,
          res_failures = [], res_discovered_count = length q\<rparr>, s)"
proof -
  let ?f = "\<lambda>(n, u). (envelope_name n, envelope_file n u)"
  have q: "sorted_wrt (<) (map fst q)" "distinct (map fst (envelopes s))" "set (envelopes s) = ?f ` set q"
      "clean_path (state_dir env)"
    using rep by (simp_all add: pending_rep_def)
  have dq: "distinct (map fst q)"
    using q(1) strict_sorted_iff by blast
  have "distinct (map fst (sorted_envelopes s))"
    using q(2) unfolding sorted_envelopes_def by (simp add: distinct_map)
  then have dist: "distinct (sorted_envelopes s)"
    by (simp add: distinct_map)
  have keys: "inj_on fst (set q)"
    using dq by (simp add: distinct_map)
  have inj: "inj_on ?f (set q)"
  proof (rule inj_onI)
    fix x y
    assume "x \<in> set q" "y \<in> set q" "?f x = ?f y"
    then show "x = y"
      using keys by (auto simp: split_beta dest: inj_onD)
  qed
  obtain q' where q': "sorted_envelopes s = map ?f q'" "distinct q'" "set q' = set q"
    using distinct_image_list [OF dist _ finite_set inj] q(3) by (auto simp: sorted_envelopes_def)
  have mset: "mset q' = mset q"
    using q'(2,3) dq by (simp add: set_eq_iff_mset_eq_distinct distinct_map)
  have one: "\<forall>(n, u)\<in>set q'. 1 \<le> n"
    using rep q'(3) unfolding pending_rep_def by auto
  have "distinct (map fst q')"
    using q'(2,3) keys by (simp add: distinct_map)
  then have scan: "pending_envelopes s = Inr \<lparr>scan_current = map (\<lambda>(n, u). (n, envelope_name n, envelope_payload n u)) q',
      scan_legacy = [], scan_seen = map fst q'\<rparr>"
    using classify_stored_list [OF one, of "\<lparr>scan_current = [], scan_legacy = [], scan_seen = []\<rparr>"]
    by (simp add: pending_envelopes_def q'(1))
  let ?job = "\<lambda>x. (fst x, envelope_name (fst x), JObj (envelope_payload (fst x) (snd x)),
      snapshot_dir_for_sequence env (fst x))"
  have "sort_key fst (map ?job q') = map ?job q"
  proof (rule sort_key_inj_key_eq)
    show "mset (map ?job q') = mset (map ?job q)"
      using mset by simp
    have "map fst (map ?job q') = map fst q'"
      by (simp add: comp_def split_beta)
    then have "distinct (map fst (map ?job q'))"
      using q'(2,3) keys by (simp only: distinct_map)
    then show "inj_on fst (set (map ?job q'))"
      unfolding distinct_map by blast
    show "sorted (map fst (map ?job q))"
      using q(1) by (simp add: comp_def split_beta strict_sorted_iff)
  qed
  then have jobs: "ordered_pending_jobs env (map (\<lambda>(n, u). (n, envelope_name n, envelope_payload n u)) q') [] = map ?job q"
    by (simp add: ordered_pending_jobs_def comp_def split_beta)
  have "restore_pending_job env (?job (n, u)) = Inr (Inl (u\<lparr>up_snapshot_dir := Some (snapshot_dir_for_sequence env n)\<rparr>))"
    if "(n, u) \<in> set q" for n u
    using restore_stored [OF q(4)] that rep unfolding pending_rep_def by auto
  then have "map (restore_pending_job env) (map ?job q) =
      map Inr (map (\<lambda>(n, u). Inl (u\<lparr>up_snapshot_dir := Some (snapshot_dir_for_sequence env n)\<rparr>)) q)"
    by auto
  then have "res_map (restore_pending_job env) (map ?job q) =
      Inr (map (\<lambda>(n, u). Inl (u\<lparr>up_snapshot_dir := Some (snapshot_dir_for_sequence env n)\<rparr>)) q)"
    by (rule res_map_eq_map)
  then show ?thesis
    by (simp add: resume_pending_def scan jobs Let_def comp_def split_beta concat_map_singleton)
qed

lemma snap_ok_verifies: "snap_ok dir (disk_files s) (op, sha) \<Longrightarrow> snapshot_mismatch op sha s = Inr False"
  by (auto simp: snap_ok_def snapshot_mismatch_def op_snapshot_path_def hash_file_def)

section \<open>Histories of a state directory\<close>

text \<open>
  The histories of a directory, with the submissions that are pending after them: submissions that
  succeed or fail, completions, restarts between operations, and any change of files outside the
  snapshots. Which writes fail may differ from operation to operation. An operation can also stop inside:
  the process is killed and a new one opens the directory, or a call that the model lets succeed raises and
  the process goes on. A submission that stops before its envelope is written is not pending; a completion
  that stops has removed its upload exactly when the envelope is gone.
\<close>

inductive queue_run :: "upload_env \<Rightarrow> (nat \<times> stored_upload) list \<Rightarrow> upload_store \<Rightarrow> bool" for env where
  run_init: "clean_path (state_dir env) \<Longrightarrow> envelopes s = [] \<Longrightarrow> queue_run env [] (open_store s)"
| run_submit: "queue_run env q s \<Longrightarrow> list_all op_valid ops \<Longrightarrow>
     persist (env\<lparr>write_fails := bad\<rparr>) ops msg s = (Inr u, t) \<Longrightarrow>
     queue_run env (q @ [(next_sequence s, u)]) t"
| run_reject: "queue_run env q s \<Longrightarrow> persist (env\<lparr>write_fails := bad\<rparr>) ops msg s = (Inl e, t) \<Longrightarrow> queue_run env q t"
| run_submit_stops: "queue_run env q s \<Longrightarrow> persist (env\<lparr>write_fails := bad\<rparr>) ops msg s = (r, t) \<Longrightarrow>
     stopped_between s t w \<Longrightarrow> w' = open_store w \<or> w' = w\<lparr>next_sequence := next_sequence t\<rparr> \<Longrightarrow> queue_run env q w'"
| run_complete: "queue_run env q s \<Longrightarrow> (n, u) \<in> set q \<Longrightarrow>
     dir \<in> {up_snapshot_dir u, Some (snapshot_dir_for_sequence env n)} \<Longrightarrow>
     delete_upload env (up_state_path u) dir s = (r, t) \<Longrightarrow>
     queue_run env (filter (\<lambda>(m, _). m \<noteq> n) q) t"
| run_complete_stops: "queue_run env q s \<Longrightarrow> (n, u) \<in> set q \<Longrightarrow>
     dir \<in> {up_snapshot_dir u, Some (snapshot_dir_for_sequence env n)} \<Longrightarrow>
     delete_upload env (up_state_path u) dir s = (r, t) \<Longrightarrow> stopped_between s t w \<Longrightarrow>
     w' = open_store w \<or> w' = w\<lparr>next_sequence := next_sequence t\<rparr> \<Longrightarrow>
     queue_run env (filter (\<lambda>(m, _). m \<noteq> n \<or> envelope_name n \<in> fst ` set (envelopes w)) q) w'"
| run_crash: "queue_run env q s \<Longrightarrow> queue_run env q (open_store s)"
| run_files: "queue_run env q s \<Longrightarrow>
     (\<And>rest. F (snapshots_root env @ rest) = disk_files s (snapshots_root env @ rest)) \<Longrightarrow>
     queue_run env q (s\<lparr>disk_files := F\<rparr>)"

lemma pending_rep_env: "pending_rep (env\<lparr>write_fails := bad\<rparr>) q s = pending_rep env q s"
  by (simp add: pending_rep_def upload_ok_def snapshot_dir_for_sequence_def)

lemma rep_reopened:
  assumes "pending_rep env q (w\<lparr>next_sequence := k\<rparr>)" and "w' = open_store w \<or> w' = w\<lparr>next_sequence := k\<rparr>"
  shows "pending_rep env q w'"
proof -
  have "open_store (w\<lparr>next_sequence := k\<rparr>) = open_store w"
    by (simp add: open_store_def next_sequence_from_state_dir_def read_highwater_def scanned_sequence_def)
  then show ?thesis
    using assms rep_restart [OF assms(1)] by auto
qed

lemma upload_dir:
  "pending_rep env q s \<Longrightarrow> (n, u) \<in> set q \<Longrightarrow> dir \<in> {up_snapshot_dir u, Some (snapshot_dir_for_sequence env n)}
   \<Longrightarrow> dir \<in> {None, Some (snapshot_dir_for_sequence env n)}"
  unfolding pending_rep_def upload_ok_def by auto

lemma queue_run_rep: "queue_run env q s \<Longrightarrow> pending_rep env q s"
proof (induction rule: queue_run.induct)
  case (run_init s)
  then show ?case
    using open_store_mark [of s] by (simp add: pending_rep_def open_store_def)
next
  case (run_submit q s ops bad msg u t)
  then show ?case
    using rep_persist [of "env\<lparr>write_fails := bad\<rparr>" q s ops msg u t] by (simp add: pending_rep_env)
next
  case (run_reject q s bad ops msg e t)
  then show ?case
    using rep_persist_failed [of "env\<lparr>write_fails := bad\<rparr>" q s ops msg e t] by (simp add: pending_rep_env)
next
  case (run_submit_stops q s bad ops msg r t w w')
  then have "pending_rep env q (w\<lparr>next_sequence := next_sequence t\<rparr>)"
    using rep_persist_stopped [of "env\<lparr>write_fails := bad\<rparr>" q s ops msg r t w] by (simp add: pending_rep_env)
  then show ?case
    using run_submit_stops.hyps(4) by (rule rep_reopened)
next
  case (run_complete q s n u dir r t)
  have "dir \<in> {None, Some (snapshot_dir_for_sequence env n)}"
    using upload_dir [OF run_complete.IH run_complete.hyps(2,3)] .
  from rep_delete [OF run_complete.IH run_complete.hyps(2) this run_complete.hyps(4)] show ?case
    by (rule conjunct1)
next
  case (run_complete_stops q s n u dir r t w w')
  have "dir \<in> {None, Some (snapshot_dir_for_sequence env n)}"
    using upload_dir [OF run_complete_stops.IH run_complete_stops.hyps(2,3)] .
  from rep_reopened [OF rep_delete_stopped [OF run_complete_stops.IH run_complete_stops.hyps(2) this
      run_complete_stops.hyps(4,5)] run_complete_stops.hyps(6)]
  show ?case .
next
  case (run_crash q s)
  then show ?case
    using rep_restart by blast
next
  case (run_files q s F)
  then show ?case
    using rep_files by blast
qed

text \<open>The operations of one process, in which the same writes fail throughout.\<close>

lemma run_submit_here:
  "queue_run env q s \<Longrightarrow> list_all op_valid ops \<Longrightarrow> persist env ops msg s = (Inr u, t) \<Longrightarrow>
   queue_run env (q @ [(next_sequence s, u)]) t"
  using run_submit [of env q s ops "write_fails env" msg u t] by simp

lemma run_reject_here: "queue_run env q s \<Longrightarrow> persist env ops msg s = (Inl e, t) \<Longrightarrow> queue_run env q t"
  using run_reject [of env q s "write_fails env" ops msg e t] by simp

text \<open>
  C4. The upload state is durable: after every history of submissions, failed submissions,
  completions, kills of the process between and inside these operations, and changes of other files,
  resuming returns exactly the submissions that succeeded and were not completed, in the order of their
  submission, with their operations, messages and hashes, and without failures; it changes nothing, and
  every recorded snapshot passes its hash check. A submission counts as made once its envelope is
  written, and as completed once its envelope is unlinked.
\<close>

theorem resume_returns_pending:
  assumes "queue_run env q s"
  shows "resume_pending env s =
      (Inr \<lparr>res_uploads = map (\<lambda>(n, u). u\<lparr>up_snapshot_dir := Some (snapshot_dir_for_sequence env n)\<rparr>) q,
            res_failures = [], res_discovered_count = length q\<rparr>, s)
    \<and> sorted_wrt (<) (map fst q)
    \<and> (\<forall>(n, u)\<in>set q. list_all (\<lambda>(op, sha). snapshot_mismatch op sha s = Inr False)
          (zip (up_ops u) (up_op_shas u)))"
proof -
  have rep: "pending_rep env q s"
    using assms by (rule queue_run_rep)
  have "list_all (\<lambda>(op, sha). snapshot_mismatch op sha s = Inr False) (zip (up_ops u) (up_op_shas u))"
    if "(n, u) \<in> set q" for n u
  proof -
    have "list_all (snap_ok (snapshot_dir_for_sequence env n) (disk_files s)) (zip (up_ops u) (up_op_shas u))"
      using rep that unfolding pending_rep_def upload_ok_def by blast
    then show ?thesis
      by (rule list.pred_mono_strong) (auto intro: snap_ok_verifies)
  qed
  moreover have "sorted_wrt (<) (map fst q)"
    using rep by (simp add: pending_rep_def)
  ultimately show ?thesis
    using resume_represented [OF rep] by blast
qed

definition sample_op :: publication_op where
  "sample_op = \<lparr>action = ''add'', path_in_repo = ''polygons/a'', local_path = Some [''data'', ''a''], snapshot_path = None\<rparr>"

lemma sample_persist: "\<exists>u t. persist sample_env [sample_op] ''m'' (open_store sample_store) = (Inr u, t)"
  by (simp add: persist_def allocate_sequence_def write_highwater_def sample_env_def sample_op_def sample_store_def
      open_store_def snapshot_operations_def submission_snapshot_dir_def snapshot_operation_def
      snapshot_add_operation_def independent_copy_def hash_file_def new_publication_op_def validate_action_def
      validate_local_path_def validate_snapshot_path_def write_envelope_def Let_def)

lemma delete_stops_first:
  assumes "delete_upload env name dir s = (r, t)"
  shows "stopped_between s t s"
proof -
  obtain rest where "effects t = effects s @ [] @ UnlinkedEnvelope name # rest"
    using assms by (auto simp: delete_upload_def Let_def rmtree_def unlink_envelope_def split: option.splits if_splits)
  then show ?thesis unfolding stopped_between_def
    by (intro exI [of _ "[]"] exI [of _ "UnlinkedEnvelope name"] exI [of _ rest]) simp
qed

text \<open>One upload is submitted, its source file disappears, and its completion is killed at once: it is resumed.\<close>

theorem resume_returns_pending_witness:
  "\<exists>q s res. queue_run sample_env q s \<and> length q = 1 \<and> disk_files s [''data'', ''a''] = None
     \<and> resume_pending sample_env s = (Inr res, s) \<and> length (res_uploads res) = 1 \<and> res_failures res = []"
proof -
  obtain u t where p: "persist sample_env [sample_op] ''m'' (open_store sample_store) = (Inr u, t)"
    using sample_persist by blast
  let ?n = "next_sequence (open_store sample_store)"
  let ?q = "[] @ [(?n, u)]" and ?s = "t\<lparr>disk_files := (disk_files t)([''data'', ''a''] := None)\<rparr>"
  have start: "queue_run sample_env [] (open_store sample_store)"
    by (rule run_init) (simp_all add: sample_env_def sample_store_def clean_path_def clean_component_def)
  have valid: "list_all op_valid [sample_op]"
    by (simp add: sample_op_def op_valid_def clean_path_def clean_component_def)
  have "queue_run sample_env ?q t"
    by (rule run_submit_here [OF start valid p])
  then have run: "queue_run sample_env ?q ?s"
    by (rule run_files) (simp add: snapshots_root_def sample_env_def)
  obtain r v where d: "delete_upload sample_env (up_state_path u) (up_snapshot_dir u) ?s = (r, v)" by force
  have "envelope_name ?n \<in> fst ` set (envelopes ?s)"
    using queue_run_rep [OF run] by (simp add: pending_rep_def)
  then have killed: "queue_run sample_env ?q (open_store ?s)"
    using run_complete_stops [OF run _ _ d delete_stops_first [OF d], of ?n "open_store ?s"] by simp
  have "disk_files (open_store ?s) [''data'', ''a''] = None"
    by (simp add: open_store_def)
  then show ?thesis
    using resume_returns_pending [OF killed] killed by (intro exI conjI) (assumption | simp)+
qed

end
