(* ===== verification/Retry.thy ===== *)
theory Retry
  imports Prelude
begin

text \<open>
  Retries: the classification of failures and the backoff loop of \<open>utils/retry.py\<close>, the header
  parser of \<open>utils/http_retry.py\<close>, and the retry policy of the upload queue
  (\<open>hf/_upload_retry.py\<close>).

  An exception is its class, the attributes the code looks at, and the chain of exceptions behind
  it. What the world does to a loop is a function of the number of the attempt: the outcome of the
  call, whether a cancellation is seen before it or while waiting after it, and the random jitter.
  The loop without a bound on the attempts need not end, so it is a partial function. Delays are
  real numbers.
\<close>

section \<open>Failures\<close>

datatype error_class =
    HTTPError
  | ContentTooShortError
  | URLError
  | SSLCertVerificationError
  | GaiError
  | TimeoutErr
  | ConnectionErr
  | HttpxTransport
  | OtherOSErr
  | UploadErr bool
  | OtherErr

datatype py_error =
  PyError (err_class: error_class) (err_errno: "int option") (err_code: int) (err_reason: "py_error option")
    (err_response: "(int \<times> string option) option") (err_cause: "py_error option") (err_context: "py_error option")

definition TRANSIENT_HTTP_STATUS_CODES :: "int list" where
  "TRANSIENT_HTTP_STATUS_CODES = [408, 425, 429, 500, 502, 503, 504, 520, 521, 522, 523, 524]"

text \<open>ECONNABORTED, ECONNREFUSED, ECONNRESET, EHOSTUNREACH, ENETDOWN, ENETRESET, ENETUNREACH, ETIMEDOUT on Linux.\<close>

definition TRANSIENT_ERRNOS :: "int list" where
  "TRANSIENT_ERRNOS = [103, 111, 104, 113, 100, 102, 101, 110]"

definition next_in_chain :: "py_error \<Rightarrow> py_error option" where
  "next_in_chain e = (case err_cause e of Some c \<Rightarrow> Some c | None \<Rightarrow> err_context e)"

fun cause_chain :: "nat \<Rightarrow> py_error option \<Rightarrow> py_error list" where
  "cause_chain 0 current = []"
| "cause_chain (Suc depth) None = []"
| "cause_chain (Suc depth) (Some e) = e # cause_chain depth (next_in_chain e)"

definition has_certificate_error :: "py_error \<Rightarrow> bool" where
  "has_certificate_error e \<longleftrightarrow> list_ex (\<lambda>c. err_class c = SSLCertVerificationError) (cause_chain 8 (Some e))"

definition is_os_error :: "error_class \<Rightarrow> bool" where
  "is_os_error c \<longleftrightarrow> c \<in> {HTTPError, ContentTooShortError, URLError, SSLCertVerificationError, GaiError,
     TimeoutErr, ConnectionErr, OtherOSErr}"

definition is_transient_exception :: "py_error \<Rightarrow> bool" where
  "is_transient_exception e \<longleftrightarrow>
     err_class e \<in> {GaiError, TimeoutErr, ConnectionErr, HttpxTransport}
     \<or> is_os_error (err_class e) \<and> (case err_errno e of None \<Rightarrow> False | Some n \<Rightarrow> n \<in> set TRANSIENT_ERRNOS)"

fun is_transient_network_error :: "py_error \<Rightarrow> bool" where
  "is_transient_network_error (PyError cls eno code reason resp cause ctx) =
     (let e = PyError cls eno code reason resp cause ctx in
      if has_certificate_error e then False
      else if cls = HTTPError then code \<in> set TRANSIENT_HTTP_STATUS_CODES
      else if cls = ContentTooShortError then True
      else if cls = URLError then (case reason of None \<Rightarrow> False | Some r \<Rightarrow> is_transient_network_error r)
      else is_transient_exception e)"

definition is_transient_failure :: "py_error \<Rightarrow> int option \<Rightarrow> bool" where
  "is_transient_failure e status_code =
     (case status_code of
        Some c \<Rightarrow> c \<in> set TRANSIENT_HTTP_STATUS_CODES
      | None \<Rightarrow> list_ex is_transient_network_error (cause_chain 8 (Some e)))"

section \<open>The backoff loop\<close>

text \<open>What happens around the attempts, by their number.\<close>

record 'a retry_world =
  outcome :: "nat \<Rightarrow> py_error + 'a"
  cancelled_before :: "nat \<Rightarrow> bool"
  cancelled_wait :: "nat \<Rightarrow> bool"
  jitter :: "nat \<Rightarrow> real"

record retry_policy =
  attempts :: "int option"
  base_delay :: real
  max_delay :: real
  retry_on :: "py_error \<Rightarrow> bool"
  should_retry :: "(py_error \<Rightarrow> bool) option"

datatype 'a retry_result =
    Returned 'a
  | Raised py_error
  | RetryCancelled
  | InvalidAttempts

definition should_reraise :: "retry_policy \<Rightarrow> py_error \<Rightarrow> bool" where
  "should_reraise p e = (case should_retry p of None \<Rightarrow> False | Some f \<Rightarrow> \<not> f e)"

definition is_final_attempt :: "retry_policy \<Rightarrow> nat \<Rightarrow> bool" where
  "is_final_attempt p attempt = (case attempts p of None \<Rightarrow> False | Some n \<Rightarrow> int attempt = n)"

text \<open>One attempt: a value, a failure to retry, or an exception that propagates.\<close>

datatype 'a attempt_result = Succeeded 'a | Failed py_error | Propagates py_error

definition run_attempt :: "retry_policy \<Rightarrow> 'a retry_world \<Rightarrow> nat \<Rightarrow> 'a attempt_result" where
  "run_attempt p w attempt =
     (case outcome w attempt of
        Inr v \<Rightarrow> Succeeded v
      | Inl e \<Rightarrow> if \<not> retry_on p e \<or> should_reraise p e then Propagates e else Failed e)"

text \<open>
  The loop from attempt number \<open>attempt\<close> on; it also yields the numbers of the attempts it makes
  and the delays it waits.
\<close>

partial_function (option) retry_loop ::
  "retry_policy \<Rightarrow> 'a retry_world \<Rightarrow> nat \<Rightarrow> real \<Rightarrow> ('a retry_result \<times> nat list \<times> real list) option" where
  "retry_loop p w attempt backoff =
     (if cancelled_before w attempt then Some (RetryCancelled, [], [])
      else case run_attempt p w attempt of
             Succeeded v \<Rightarrow> Some (Returned v, [attempt], [])
           | Propagates e \<Rightarrow> Some (Raised e, [attempt], [])
           | Failed e \<Rightarrow>
               if is_final_attempt p attempt then Some (Raised e, [attempt], [])
               else let delay = backoff + jitter w attempt in
                 if cancelled_wait w attempt then Some (RetryCancelled, [attempt], [delay])
                 else Option.bind (retry_loop p w (Suc attempt) (min (backoff * 2) (max_delay p)))
                   (\<lambda>(r, calls, delays). Some (r, attempt # calls, delay # delays)))"

definition validate_retry_arguments :: "int option \<Rightarrow> bool" where
  "validate_retry_arguments n = (case n of None \<Rightarrow> True | Some k \<Rightarrow> 1 \<le> k)"

definition with_retries ::
  "retry_policy \<Rightarrow> 'a retry_world \<Rightarrow> ('a retry_result \<times> nat list \<times> real list) option" where
  "with_retries p w =
     (if \<not> validate_retry_arguments (attempts p) then Some (InvalidAttempts, [], [])
      else retry_loop p w 1 (min (base_delay p) (max_delay p)))"

section \<open>The Retry-After header\<close>

text \<open>Parsing a number and the seconds until an HTTP date are parameters.\<close>

record header_parser =
  parse_float :: "string \<Rightarrow> real option"
  seconds_until :: "string \<Rightarrow> real option"

definition numeric_retry_delay :: "header_parser \<Rightarrow> string \<Rightarrow> real \<Rightarrow> real option" where
  "numeric_retry_delay hp v max_s = map_option (\<lambda>x. min max_s (max 0 x)) (parse_float hp v)"

definition date_retry_delay :: "header_parser \<Rightarrow> string \<Rightarrow> real \<Rightarrow> real \<Rightarrow> real" where
  "date_retry_delay hp v max_s default_s =
     (case seconds_until hp v of None \<Rightarrow> default_s | Some x \<Rightarrow> min max_s (max 0 x))"

definition parse_retry_after :: "header_parser \<Rightarrow> string option \<Rightarrow> real \<Rightarrow> real \<Rightarrow> real" where
  "parse_retry_after hp v default_s max_s =
     (case v of
        None \<Rightarrow> default_s
      | Some t \<Rightarrow>
          if t = [] then default_s
          else case numeric_retry_delay hp t max_s of
                 Some d \<Rightarrow> d | None \<Rightarrow> date_retry_delay hp t max_s default_s)"

section \<open>Upload retries\<close>

definition BASE_DELAY_SECONDS :: real where
  "BASE_DELAY_SECONDS = 1 / 2"

definition MAX_DELAY_SECONDS :: real where
  "MAX_DELAY_SECONDS = 8"

definition MAX_SERVER_RETRY_AFTER_SECONDS :: real where
  "MAX_SERVER_RETRY_AFTER_SECONDS = 300"

definition upload_is_transient :: "py_error \<Rightarrow> bool" where
  "upload_is_transient e = (case err_class e of UploadErr t \<Rightarrow> t | _ \<Rightarrow> is_transient_network_error e)"

definition backoff_seconds :: "nat \<Rightarrow> real \<Rightarrow> real" where
  "backoff_seconds attempt rnd = min (BASE_DELAY_SECONDS * 2 ^ (attempt - 1)) MAX_DELAY_SECONDS + rnd"

text \<open>The first response of status 429 in the chain, with its Retry-After header.\<close>

definition rate_limited_response :: "py_error \<Rightarrow> string option option" where
  "rate_limited_response e =
     map_option (\<lambda>c. snd (the (err_response c)))
       (List.find (\<lambda>c. case err_response c of Some (status, _) \<Rightarrow> status = 429 | None \<Rightarrow> False)
         (cause_chain 10 (Some e)))"

definition rate_limit_delay :: "header_parser \<Rightarrow> py_error \<Rightarrow> real" where
  "rate_limit_delay hp e =
     (case rate_limited_response e of
        None \<Rightarrow> 0
      | Some header \<Rightarrow> parse_retry_after hp header 0 MAX_SERVER_RETRY_AFTER_SECONDS)"

definition upload_should_retry :: "py_error \<Rightarrow> nat \<Rightarrow> nat \<Rightarrow> bool" where
  "upload_should_retry e attempt budget \<longleftrightarrow> attempt < budget \<and> upload_is_transient e"

definition retry_delay :: "header_parser \<Rightarrow> nat \<Rightarrow> real \<Rightarrow> py_error \<Rightarrow> real" where
  "retry_delay hp attempt rnd e = max (backoff_seconds attempt rnd) (rate_limit_delay hp e)"

text \<open>The loop over \<open>range(1, attempts + 1)\<close>, with the attempts left as the recursion argument.\<close>

fun upload_attempts ::
  "header_parser \<Rightarrow> unit retry_world \<Rightarrow> nat \<Rightarrow> nat \<Rightarrow> nat \<Rightarrow> unit retry_result \<times> nat list \<times> real list" where
  "upload_attempts hp w budget attempt 0 = (Returned (), [], [])"
| "upload_attempts hp w budget attempt (Suc left) =
     (case outcome w attempt of
        Inr _ \<Rightarrow> (Returned (), [attempt], [])
      | Inl e \<Rightarrow>
          if \<not> upload_should_retry e attempt budget then (Raised e, [attempt], [])
          else let delay = retry_delay hp attempt (jitter w attempt) e in
            if cancelled_wait w attempt then (Raised e, [attempt], [delay])
            else case upload_attempts hp w budget (Suc attempt) left of
                   (r, calls, delays) \<Rightarrow> (r, attempt # calls, delay # delays))"

definition run_upload_attempts ::
  "header_parser \<Rightarrow> unit retry_world \<Rightarrow> int \<Rightarrow> unit retry_result \<times> nat list \<times> real list" where
  "run_upload_attempts hp w n =
     (if n < 1 then (InvalidAttempts, [], []) else upload_attempts hp w (nat n) 1 (nat n))"

section \<open>What the backoff loop does\<close>

text \<open>The attempts at which the loop ends, and with what.\<close>

definition stops :: "retry_policy \<Rightarrow> 'a retry_world \<Rightarrow> nat \<Rightarrow> bool" where
  "stops p w k \<longleftrightarrow> cancelled_before w k
     \<or> (case run_attempt p w k of Failed _ \<Rightarrow> is_final_attempt p k \<or> cancelled_wait w k | _ \<Rightarrow> True)"

definition stop_result :: "retry_policy \<Rightarrow> 'a retry_world \<Rightarrow> nat \<Rightarrow> 'a retry_result" where
  "stop_result p w k =
     (if cancelled_before w k then RetryCancelled
      else case run_attempt p w k of
             Succeeded v \<Rightarrow> Returned v
           | Propagates e \<Rightarrow> Raised e
           | Failed e \<Rightarrow> if is_final_attempt p k then Raised e else RetryCancelled)"

text \<open>The documented delay after attempt \<open>i\<close>.\<close>

definition documented_delay :: "retry_policy \<Rightarrow> 'a retry_world \<Rightarrow> nat \<Rightarrow> real" where
  "documented_delay p w i = min (base_delay p * 2 ^ (i - 1)) (max_delay p) + jitter w i"

text \<open>A wait after attempt \<open>k\<close> that a cancellation ends: it was begun, so its delay counts.\<close>

definition wait_cancelled :: "retry_policy \<Rightarrow> 'a retry_world \<Rightarrow> nat \<Rightarrow> bool" where
  "wait_cancelled p w k \<longleftrightarrow> \<not> cancelled_before w k \<and> \<not> is_final_attempt p k
     \<and> (case run_attempt p w k of Failed _ \<Rightarrow> True | _ \<Rightarrow> False)"

text \<open>The delays of a loop that ends at attempt \<open>k\<close>: one after every earlier attempt, and the cancelled one.\<close>

definition documented_delays :: "retry_policy \<Rightarrow> 'a retry_world \<Rightarrow> nat \<Rightarrow> nat \<Rightarrow> real list" where
  "documented_delays p w a k = map (documented_delay p w) ([a..<k] @ (if wait_cancelled p w k then [k] else []))"

lemma backoff_doubles:
  assumes "0 \<le> m"
  shows "min (min (b * 2 ^ i) m * 2) m = min (b * 2 ^ Suc i) (m :: real)"
  using assms by (auto simp: min_def)

lemma retry_loop_run:
  assumes "0 \<le> max_delay p"
  shows "1 \<le> a \<Longrightarrow> stops p w (a + m) \<Longrightarrow> \<forall>i<m. \<not> stops p w (a + i) \<Longrightarrow>
    retry_loop p w a (min (base_delay p * 2 ^ (a - 1)) (max_delay p)) =
      Some (stop_result p w (a + m), [a..<a + m] @ (if cancelled_before w (a + m) then [] else [a + m]),
        documented_delays p w a (a + m))"
proof (induction m arbitrary: a)
  case 0
  show ?case
  proof (cases "cancelled_before w a")
    case True
    then show ?thesis
      by (simp add: retry_loop.simps [of p w a] stop_result_def documented_delays_def wait_cancelled_def)
  next
    case False
    then show ?thesis
      using "0.prems"(2)
      by (cases "run_attempt p w a") (auto simp: retry_loop.simps [of p w a] stops_def stop_result_def
          documented_delay_def documented_delays_def wait_cancelled_def Let_def)
  qed
next
  case (Suc m)
  let ?b = "\<lambda>a. min (base_delay p * 2 ^ (a - 1)) (max_delay p)"
  have no: "\<not> stops p w a"
    using Suc.prems(3) by (metis add.right_neutral zero_less_Suc)
  then obtain e where e: "run_attempt p w a = Failed e" "\<not> cancelled_before w a" "\<not> is_final_attempt p a"
      "\<not> cancelled_wait w a"
    by (auto simp: stops_def split: attempt_result.splits)
  have "min (?b a * 2) (max_delay p) = ?b (Suc a)"
    using backoff_doubles [OF assms, of "base_delay p" "a - 1"] Suc.prems(1) by simp
  then have loop: "retry_loop p w a (?b a) =
      Option.bind (retry_loop p w (Suc a) (?b (Suc a)))
        (\<lambda>(r, calls, delays). Some (r, a # calls, documented_delay p w a # delays))"
    using e by (subst retry_loop.simps) (simp add: Let_def documented_delay_def)
  have "\<forall>i<m. \<not> stops p w (Suc a + i)"
    using Suc.prems(3) by (metis Suc_less_eq add_Suc_right add_Suc)
  then have rest: "retry_loop p w (Suc a) (?b (Suc a)) =
      Some (stop_result p w (Suc a + m), [Suc a..<Suc a + m] @ (if cancelled_before w (Suc a + m) then [] else [Suc a + m]),
        documented_delays p w (Suc a) (Suc a + m))"
    using Suc.IH [of "Suc a"] Suc.prems(2) by auto
  have upt: "[a..<a + Suc m] = a # [Suc a..<Suc a + m]"
    by (simp add: upt_conv_Cons)
  have next_attempt: "a + Suc m = Suc a + m" by simp
  show ?case
    unfolding loop rest documented_delays_def next_attempt upt [unfolded next_attempt] by simp
qed

lemma with_retries_at:
  assumes "validate_retry_arguments (attempts p)" and "0 \<le> max_delay p"
    and "1 \<le> k" and "stops p w k" and "\<forall>i. 1 \<le> i \<and> i < k \<longrightarrow> \<not> stops p w i"
  shows "with_retries p w =
      Some (stop_result p w k, [1..<k] @ (if cancelled_before w k then [] else [k]), documented_delays p w 1 k)"
proof -
  obtain m where k: "k = 1 + m"
    using assms(3) le_Suc_ex by blast
  have "\<forall>i<m. \<not> stops p w (1 + i)"
    using assms(5) k by simp
  moreover have "stops p w (1 + m)"
    using assms(4) unfolding k .
  ultimately have "retry_loop p w 1 (min (base_delay p * 2 ^ (1 - 1)) (max_delay p)) =
      Some (stop_result p w (1 + m), [1..<1 + m] @ (if cancelled_before w (1 + m) then [] else [1 + m]),
        documented_delays p w 1 (1 + m))"
    by (rule retry_loop_run [OF assms(2) order_refl, rotated])
  then show ?thesis
    using assms(1) by (simp only: with_retries_def k power_0 diff_self_eq_0 mult_1_right not_True_eq_False if_False)
qed

lemma first_stop:
  assumes "\<exists>k\<ge>1. stops p w k"
  shows "\<exists>k. 1 \<le> k \<and> stops p w k \<and> (\<forall>i. 1 \<le> i \<and> i < k \<longrightarrow> \<not> stops p w i)
    \<and> (\<forall>j. 1 \<le> j \<and> stops p w j \<longrightarrow> k \<le> j)"
proof -
  obtain k where "1 \<le> k \<and> stops p w k" and min: "\<forall>j<k. \<not> (1 \<le> j \<and> stops p w j)"
    using assms exists_least_iff [of "\<lambda>k. 1 \<le> k \<and> stops p w k"] by blast
  moreover have "k \<le> j" if "1 \<le> j \<and> stops p w j" for j
    using min that leI by blast
  ultimately show ?thesis
    by blast
qed


text \<open>
  C29. With a bound the loop always ends, after at most that many calls, and an exception it raises
  is the one of its last call; without a bound it ends as soon as one attempt succeeds.
\<close>

theorem with_retries_ends:
  assumes "0 \<le> max_delay p" and "validate_retry_arguments (attempts p)"
    and "attempts p = None \<longrightarrow> (\<exists>k\<ge>1. \<exists>v. outcome w k = Inr v)"
  shows "\<exists>r calls delays. with_retries p w = Some (r, calls, delays)
    \<and> (\<forall>n. attempts p = Some n \<longrightarrow> int (length calls) \<le> n)
    \<and> (\<forall>e. r = Raised e \<longrightarrow> calls \<noteq> [] \<and> outcome w (last calls) = Inl e)
    \<and> (\<forall>v. r = Returned v \<longrightarrow> calls \<noteq> [] \<and> outcome w (last calls) = Inr v)"
proof -
  have final: "stops p w (nat n)" if "attempts p = Some n" for n
    using that assms(2)
    by (auto simp: stops_def is_final_attempt_def validate_retry_arguments_def split: attempt_result.splits)
  have "\<exists>k\<ge>1. stops p w k"
  proof (cases "attempts p")
    case None
    then obtain k v where "1 \<le> k" "outcome w k = Inr v"
      using assms(3) by blast
    then show ?thesis
      by (intro exI [of _ k]) (simp add: stops_def run_attempt_def)
  next
    case (Some n)
    then show ?thesis
      using final [OF Some] assms(2) by (intro exI [of _ "nat n"]) (auto simp: validate_retry_arguments_def)
  qed
  then obtain k where k: "1 \<le> k" "stops p w k" "\<forall>i. 1 \<le> i \<and> i < k \<longrightarrow> \<not> stops p w i"
      and least: "\<forall>j. 1 \<le> j \<and> stops p w j \<longrightarrow> k \<le> j"
    using first_stop by blast
  note run = with_retries_at [OF assms(2,1) k]
  have "int (length ([1..<k] @ (if cancelled_before w k then [] else [k]))) \<le> n" if "attempts p = Some n" for n
  proof -
    have "1 \<le> n"
      using assms(2) that by (simp add: validate_retry_arguments_def)
    then have "k \<le> nat n"
      using least final [OF that] by simp
    then have "int k \<le> n"
      using \<open>1 \<le> n\<close> by linarith
    then show ?thesis
      using k(1) by (cases "cancelled_before w k") auto
  qed
  moreover have "stop_result p w k = Raised e \<Longrightarrow> \<not> cancelled_before w k \<and> outcome w k = Inl e" for e
    by (auto simp: stop_result_def run_attempt_def split: if_splits attempt_result.splits sum.splits)
  moreover have "stop_result p w k = Returned v \<Longrightarrow> \<not> cancelled_before w k \<and> outcome w k = Inr v" for v
    by (auto simp: stop_result_def run_attempt_def split: if_splits attempt_result.splits sum.splits)
  ultimately show ?thesis
    unfolding run by auto
qed


text \<open>A call that fails twice for network reasons and then succeeds, under a budget of three attempts.\<close>

definition sample_error :: "error_class \<Rightarrow> py_error" where
  "sample_error c = PyError c None 0 None None None None"

definition sample_world :: "nat retry_world" where
  "sample_world = \<lparr>outcome = (\<lambda>i. if i < 3 then Inl (sample_error TimeoutErr) else Inr 7),
     cancelled_before = (\<lambda>_. False), cancelled_wait = (\<lambda>_. False), jitter = (\<lambda>_. 1 / 4)\<rparr>"

definition sample_policy :: retry_policy where
  "sample_policy = \<lparr>attempts = Some 3, base_delay = 1 / 2, max_delay = 8, retry_on = (\<lambda>_. True),
     should_retry = Some is_transient_network_error\<rparr>"

lemma cause_chain_unfold:
  "cause_chain n (Some e) = (if n = 0 then [] else e # cause_chain (n - 1) (next_in_chain e))"
  by (cases n) simp_all

lemma cause_chain_None [simp]: "cause_chain n None = []"
  by (cases n) simp_all


lemma sample_certificate_permanent: "\<not> is_transient_network_error (sample_error SSLCertVerificationError)"
  by (simp add: sample_error_def has_certificate_error_def cause_chain_unfold)



lemma sample_policy_valid: "validate_retry_arguments (attempts sample_policy)" "0 \<le> max_delay sample_policy"
  by (simp_all add: sample_policy_def validate_retry_arguments_def)


theorem with_retries_ends_witness:
  "\<exists>r calls delays. with_retries sample_policy sample_world = Some (r, calls, delays) \<and> length calls \<le> 3"
  using with_retries_ends [OF sample_policy_valid(2,1), of sample_world] by (force simp: sample_policy_def)

section \<open>What the upload attempts do\<close>

lemma parse_retry_after_bounds:
  assumes "0 \<le> default_s" and "default_s \<le> max_s"
  shows "0 \<le> parse_retry_after hp v default_s max_s \<and> parse_retry_after hp v default_s max_s \<le> max_s"
  using assms
  by (auto simp: parse_retry_after_def numeric_retry_delay_def date_retry_delay_def split: option.splits)

text \<open>The default is returned as it is: the cap does not apply to it.\<close>

lemma parse_retry_after_default_uncapped:
  "parse_retry_after hp None 60 30 = 60"
  by (simp add: parse_retry_after_def)

lemma rate_limit_delay_bounds: "0 \<le> rate_limit_delay hp e \<and> rate_limit_delay hp e \<le> 300"
  using parse_retry_after_bounds [of 0 300 hp]
  by (auto simp: rate_limit_delay_def MAX_SERVER_RETRY_AFTER_SECONDS_def split: option.splits)

lemma backoff_seconds_bounds:
  assumes "0 \<le> rnd" and "rnd \<le> 1 / 2"
  shows "1 / 2 \<le> backoff_seconds attempt rnd \<and> backoff_seconds attempt rnd \<le> 17 / 2"
proof -
  obtain x :: real where x: "x = 2 ^ (attempt - 1)" "1 \<le> x"
    by simp
  show ?thesis
    unfolding backoff_seconds_def BASE_DELAY_SECONDS_def MAX_DELAY_SECONDS_def x(1) [symmetric]
    using assms x(2) by (auto simp: min_def)
qed

lemma retry_delay_bounds:
  assumes "0 \<le> rnd" and "rnd \<le> 1 / 2"
  shows "rate_limit_delay hp e \<le> retry_delay hp attempt rnd e \<and> 1 / 2 \<le> retry_delay hp attempt rnd e
    \<and> retry_delay hp attempt rnd e \<le> 300"
  using backoff_seconds_bounds [OF assms, of attempt] rate_limit_delay_bounds [of hp e]
  by (auto simp: retry_delay_def)

text \<open>The outcome of the attempts, read off the attempt \<open>k\<close> at which they end.\<close>

definition upload_ends_at :: "unit retry_world \<Rightarrow> nat \<Rightarrow> nat \<Rightarrow> unit retry_result \<Rightarrow> bool" where
  "upload_ends_at w budget k r =
     (case outcome w k of
        Inr _ \<Rightarrow> r = Returned ()
      | Inl e \<Rightarrow> r = Raised e \<and> (k = budget \<or> \<not> upload_is_transient e \<or> cancelled_wait w k))"

definition retried :: "header_parser \<Rightarrow> unit retry_world \<Rightarrow> nat \<Rightarrow> real \<Rightarrow> bool" where
  "retried hp w i d =
     (case outcome w i of Inr _ \<Rightarrow> False | Inl e \<Rightarrow> upload_is_transient e \<and> d = retry_delay hp i (jitter w i) e)"

lemma upload_attempts_run:
  assumes "upload_attempts hp w budget a left = (r, calls, delays)" and "0 < left" and "a + left = Suc budget"
  shows "\<exists>k. a \<le> k \<and> k \<le> budget \<and> calls = [a..<Suc k] \<and> upload_ends_at w budget k r
    \<and> k - a \<le> length delays \<and> length delays \<le> Suc k - a \<and> (\<forall>i<length delays. retried hp w (a + i) (delays ! i))"
  using assms
proof (induction left arbitrary: a r calls delays)
  case (Suc left)
  let ?stop = "\<lambda>delays. a \<le> a \<and> a \<le> budget \<and> [a] = [a..<Suc a] \<and> upload_ends_at w budget a r
    \<and> a - a \<le> length delays \<and> length delays \<le> Suc a - a \<and> (\<forall>i<length delays. retried hp w (a + i) (delays ! i))"
  show ?case
  proof (cases "outcome w a")
    case (Inr u)
    then have calls: "calls = [a]" and stop: "?stop delays"
      using Suc.prems by (auto simp: upload_ends_at_def)
    show ?thesis
      unfolding calls using stop by (rule exI)
  next
    case (Inl e)
    show ?thesis
    proof (cases "upload_should_retry e a budget \<and> \<not> cancelled_wait w a")
      case False
      then have calls: "calls = [a]" and stop: "?stop delays"
        using Suc.prems Inl
        by (auto simp: upload_ends_at_def upload_should_retry_def retried_def Let_def split: if_splits)
      show ?thesis
        unfolding calls using stop by (rule exI)
    next
      case True
      obtain r' calls' delays' where rec: "upload_attempts hp w budget (Suc a) left = (r', calls', delays')"
        by (rule prod_cases3)
      have "upload_attempts hp w budget a (Suc left) = (r', a # calls', retry_delay hp a (jitter w a) e # delays')"
        using Inl True rec by simp
      then have rest: "upload_attempts hp w budget (Suc a) left = (r, calls', delays')"
          "calls = a # calls'" "delays = retry_delay hp a (jitter w a) e # delays'"
        using Suc.prems(1) rec by simp_all
      have "0 < left"
        using True Suc.prems(3) by (auto simp: upload_should_retry_def)
      moreover have "Suc a + left = Suc budget"
        using Suc.prems(3) by simp
      ultimately obtain k where k: "Suc a \<le> k" "k \<le> budget" "calls' = [Suc a..<Suc k]" "upload_ends_at w budget k r"
          "k - Suc a \<le> length delays'" "length delays' \<le> Suc k - Suc a"
          "\<forall>i<length delays'. retried hp w (Suc a + i) (delays' ! i)"
        by (rule Suc.IH [OF rest(1), elim_format]) (elim exE conjE)
      have "calls = [a..<Suc k]"
        using k(1) by (simp add: rest(2) k(3) upt_conv_Cons)
      moreover have "retried hp w (a + i) (delays ! i)" if "i < length delays" for i
        using that k(7) True Inl by (cases i) (auto simp: rest(3) retried_def upload_should_retry_def)
      ultimately show ?thesis
        using k by (intro exI [of _ k]) (auto simp: rest(3))
    qed
  qed
qed simp

text \<open>
  C19. An upload is delivered or fails loudly: with a budget of at least one attempt the attempts end
  after a number \<open>k\<close> of calls within the budget; the upload counts as delivered exactly when call \<open>k\<close>
  succeeded, and otherwise the error of call \<open>k\<close> is raised because the budget is spent, the error is
  permanent or retries were cancelled. Every earlier failure was transient, and every wait is at
  least half a second and the server's Retry-After, and at most five minutes.
\<close>

theorem run_upload_attempts_delivers_or_raises:
  assumes "1 \<le> n" and "\<forall>i. 0 \<le> jitter w i \<and> jitter w i \<le> 1 / 2"
    and "run_upload_attempts hp w n = (r, calls, delays)"
  shows "\<exists>k. 1 \<le> k \<and> int k \<le> n \<and> calls = [1..<Suc k] \<and> upload_ends_at w (nat n) k r
    \<and> k - 1 \<le> length delays \<and> length delays \<le> k
    \<and> (\<forall>i<length delays. retried hp w (Suc i) (delays ! i) \<and> 1 / 2 \<le> delays ! i \<and> delays ! i \<le> 300)"
proof -
  have "upload_attempts hp w (nat n) 1 (nat n) = (r, calls, delays)"
    using assms(1,3) by (simp add: run_upload_attempts_def)
  moreover have "0 < nat n" "1 + nat n = Suc (nat n)"
    using assms(1) by simp_all
  ultimately obtain k where k: "1 \<le> k" "k \<le> nat n" "calls = [1..<Suc k]" "upload_ends_at w (nat n) k r"
      "k - 1 \<le> length delays" "length delays \<le> Suc k - 1" "\<forall>i<length delays. retried hp w (1 + i) (delays ! i)"
    using upload_attempts_run by blast
  have "1 / 2 \<le> d \<and> d \<le> 300" if "retried hp w i d" for i d
    using that retry_delay_bounds [of "jitter w i"] assms(2) by (auto simp: retried_def split: sum.splits)
  then show ?thesis
    using k assms(1) by (intro exI [of _ k]) auto
qed

definition sample_parser :: header_parser where
  "sample_parser = \<lparr>parse_float = (\<lambda>s. if s = ''120'' then Some 120 else None), seconds_until = (\<lambda>_. None)\<rparr>"

text \<open>A rate-limited upload error whose cause asks for a wait of 120 seconds, then a delivery.\<close>

definition sample_upload_world :: "unit retry_world" where
  "sample_upload_world = \<lparr>outcome = (\<lambda>i. if i = 1 then
       Inl (PyError (UploadErr True) None 0 None None
         (Some (PyError OtherErr None 0 None (Some (429, Some ''120'')) None None)) None) else Inr ()),
     cancelled_before = (\<lambda>_. False), cancelled_wait = (\<lambda>_. False), jitter = (\<lambda>_. 0)\<rparr>"

lemma sample_upload_run:
  "run_upload_attempts sample_parser sample_upload_world 3 = (Returned (), [1, 2], [120])"
  by (simp add: run_upload_attempts_def numeral_eq_Suc sample_upload_world_def upload_should_retry_def
      upload_is_transient_def retry_delay_def backoff_seconds_def BASE_DELAY_SECONDS_def MAX_DELAY_SECONDS_def
      rate_limit_delay_def rate_limited_response_def cause_chain_unfold next_in_chain_def parse_retry_after_def
      numeric_retry_delay_def sample_parser_def MAX_SERVER_RETRY_AFTER_SECONDS_def)

theorem run_upload_attempts_delivers_or_raises_witness:
  "\<exists>k. 1 \<le> k \<and> int k \<le> 3 \<and> [1, 2] = [1..<Suc k] \<and> upload_ends_at sample_upload_world (nat 3) k (Returned ())"
proof -
  have "(1 :: int) \<le> 3" "\<forall>i. 0 \<le> jitter sample_upload_world i \<and> jitter sample_upload_world i \<le> 1 / 2"
    by (simp_all add: sample_upload_world_def)
  from run_upload_attempts_delivers_or_raises [OF this sample_upload_run] show ?thesis
    by (elim exE conjE) (intro exI conjI)
qed

end
