(* ===== verification/Upload_Queue.thy ===== *)
theory Upload_Queue
  imports Upload_Resume Retry
begin

text \<open>
  The background upload queue (\<open>hf/upload_queue.py\<close>): a producer that persists and enqueues jobs, a
  bounded queue, and one worker thread that verifies, uploads and completes them.

  A call of \<open>put\<close> blocks while the queue is full, so what the producer still has to put is a part
  of the state, and its next call starts only when that is empty. The worker is a small machine: it
  takes a job and verifies it, uploads it, and deletes its durable state. Each of these actions, and
  each operation of the state store, is one step; the threads are interleavings of steps. The
  outcome of an upload is given by the world in which its attempts run. The text of a foreign error
  is a parameter.
\<close>

section \<open>State\<close>

record upload_job =
  job_ops :: "publication_op list"
  job_message :: string
  job_state_path :: "string option"
  job_snapshot_dir :: "path option"
  job_op_shas :: "json list"

record queue_config =
  store_env :: upload_env
  max_pending :: int
  queue_attempts :: int
  headers :: header_parser
  error_text :: "py_error \<Rightarrow> string"

datatype worker_state =
    AtGet
  | Verified upload_job
  | Uploaded upload_job
  | Stopped

record upload_queue =
  jobs :: "upload_job option list"
  to_put :: "upload_job option list"
  worker :: worker_state
  queue_store :: "upload_store option"
  failures :: "string list"
  closed :: bool

definition new_upload_queue :: "queue_config \<Rightarrow> upload_store option \<Rightarrow> upload_queue res" where
  "new_upload_queue c store =
     res_bind (guard (1 \<le> max_pending c) (ValueError ''max_pending must be positive'')) (\<lambda>_.
     res_bind (guard (1 \<le> queue_attempts c) (ValueError ''attempts must be positive'')) (\<lambda>_.
       Inr \<lparr>jobs = [], to_put = [], worker = AtGet, queue_store = map_option open_store store,
            failures = [], closed = False\<rparr>))"

section \<open>The producer\<close>

definition job_of_upload :: "stored_upload \<Rightarrow> upload_job" where
  "job_of_upload u = \<lparr>job_ops = up_ops u, job_message = up_message u, job_state_path = Some (up_state_path u),
     job_snapshot_dir = up_snapshot_dir u, job_op_shas = up_op_shas u\<rparr>"

definition ensure_open :: "upload_queue \<Rightarrow> unit res" where
  "ensure_open q = guard (\<not> closed q) (RuntimeError ''upload queue is closed'')"

definition build_job ::
  "queue_config \<Rightarrow> publication_op list \<Rightarrow> string \<Rightarrow> upload_queue \<Rightarrow> upload_job res \<times> upload_queue" where
  "build_job c ops msg q =
     (case queue_store q of
        None \<Rightarrow> (Inr \<lparr>job_ops = ops, job_message = msg, job_state_path = None, job_snapshot_dir = None,
                      job_op_shas = map (\<lambda>_. JNull) ops\<rparr>, q)
      | Some s \<Rightarrow>
          (case persist (store_env c) ops msg s of
             (Inl e, s1) \<Rightarrow> (Inl e, q\<lparr>queue_store := Some s1\<rparr>)
           | (Inr u, s1) \<Rightarrow> (Inr (job_of_upload u), q\<lparr>queue_store := Some s1\<rparr>)))"

text \<open>A submission up to its call of \<open>put\<close>, and the moment \<open>put\<close> gets through.\<close>

definition submit ::
  "queue_config \<Rightarrow> publication_op list \<Rightarrow> string \<Rightarrow> upload_queue \<Rightarrow> unit res \<times> upload_queue" where
  "submit c ops msg q =
     (case ensure_open q of
        Inl e \<Rightarrow> (Inl e, q)
      | Inr _ \<Rightarrow>
          (case build_job c ops msg q of
             (Inl e, q1) \<Rightarrow> (Inl e, q1)
           | (Inr job, q1) \<Rightarrow> (Inr (), q1\<lparr>to_put := to_put q1 @ [Some job]\<rparr>)))"

definition put_next :: "queue_config \<Rightarrow> upload_queue \<Rightarrow> upload_queue option" where
  "put_next c q =
     (case to_put q of
        [] \<Rightarrow> None
      | j # js \<Rightarrow>
          if int (length (jobs q)) < max_pending c
          then Some (q\<lparr>jobs := jobs q @ [j], to_put := js\<rparr>) else None)"

definition queue_resume_pending :: "queue_config \<Rightarrow> upload_queue \<Rightarrow> nat res \<times> upload_queue" where
  "queue_resume_pending c q =
     (case queue_store q of
        None \<Rightarrow> (Inr 0, q)
      | Some s \<Rightarrow>
          (case resume_pending (store_env c) s of
             (Inl e, s1) \<Rightarrow> (Inl e, q\<lparr>queue_store := Some s1\<rparr>)
           | (Inr result, s1) \<Rightarrow>
               (Inr (res_discovered_count result),
                q\<lparr>queue_store := Some s1, failures := failures q @ res_failures result,
                  to_put := to_put q @ map (Some \<circ> job_of_upload) (res_uploads result)\<rparr>)))"

text \<open>Closing puts the end marker; waiting for the worker then returns the failures.\<close>

definition close_queue :: "upload_queue \<Rightarrow> upload_queue" where
  "close_queue q = (if closed q then q else q\<lparr>closed := True, to_put := to_put q @ [None]\<rparr>)"

definition joined_failures :: "upload_queue \<Rightarrow> string list option" where
  "joined_failures q = (if worker q = Stopped then Some (failures q) else None)"

definition upload_synchronously :: "upload_queue \<Rightarrow> 'a res \<Rightarrow> 'a res" where
  "upload_synchronously q result =
     (if \<not> closed q then Inl (RuntimeError ''Synchronous final upload requires a drained, closed queue'')
      else result)"

section \<open>The worker\<close>

fun exn_text :: "exn \<Rightarrow> string" where
  "exn_text (ValueError m) = m"
| "exn_text (TypeError m) = m"
| "exn_text (KeyError m) = m"
| "exn_text (RuntimeError m) = m"
| "exn_text (FileNotFoundError m) = m"
| "exn_text (OSError m) = m"
| "exn_text (AttributeError m) = m"

definition record_failure :: "string \<Rightarrow> string \<Rightarrow> upload_queue \<Rightarrow> upload_queue" where
  "record_failure msg detail q = q\<lparr>failures := failures q @ [msg @ '': '' @ detail], worker := AtGet\<rparr>"

text \<open>\<open>zip(..., strict=True)\<close>: a difference in length raises after the common part.\<close>

fun verify_loop :: "publication_op list \<Rightarrow> json list \<Rightarrow> upload_store \<Rightarrow> bool res" where
  "verify_loop [] [] s = Inr True"
| "verify_loop (op # ops) (sha # shas) s =
     res_bind (snapshot_mismatch op sha s) (\<lambda>changed. if changed then Inr False else verify_loop ops shas s)"
| "verify_loop _ _ s = Inl (ValueError ''zip() arguments have different lengths'')"

definition verify_job_snapshot :: "upload_queue \<Rightarrow> upload_job \<Rightarrow> bool res" where
  "verify_job_snapshot q job =
     (case queue_store q of None \<Rightarrow> Inr True | Some s \<Rightarrow> verify_loop (job_ops job) (job_op_shas job) s)"

text \<open>The worker takes the next job and verifies it.\<close>

definition worker_take :: "upload_queue \<Rightarrow> upload_queue option" where
  "worker_take q =
     (case worker q of
        AtGet \<Rightarrow>
          (case jobs q of
             [] \<Rightarrow> None
           | None # js \<Rightarrow> Some (q\<lparr>jobs := js, worker := Stopped\<rparr>)
           | Some job # js \<Rightarrow>
               let q1 = q\<lparr>jobs := js\<rparr> in
               Some (case verify_job_snapshot q1 job of
                       Inl e \<Rightarrow> record_failure (job_message job) (exn_text e) q1
                     | Inr False \<Rightarrow> record_failure (job_message job) ''SHA mismatch'' q1
                     | Inr True \<Rightarrow> q1\<lparr>worker := Verified job\<rparr>))
      | _ \<Rightarrow> None)"

definition worker_upload :: "queue_config \<Rightarrow> unit retry_world \<Rightarrow> upload_queue \<Rightarrow> upload_queue option" where
  "worker_upload c w q =
     (case worker q of
        Verified job \<Rightarrow>
          Some (case fst (run_upload_attempts (headers c) w (queue_attempts c)) of
                  Returned _ \<Rightarrow> q\<lparr>worker := Uploaded job\<rparr>
                | Raised e \<Rightarrow> record_failure (job_message job) (error_text c e) q
                | _ \<Rightarrow> record_failure (job_message job) ''attempts must be >= 1'' q)
      | _ \<Rightarrow> None)"

definition worker_complete :: "queue_config \<Rightarrow> upload_queue \<Rightarrow> upload_queue option" where
  "worker_complete c q =
     (case worker q of
        Uploaded job \<Rightarrow>
          Some (case job_state_path job of
                  None \<Rightarrow> q\<lparr>worker := AtGet\<rparr>
                | Some name \<Rightarrow>
                    (case queue_store q of
                       None \<Rightarrow> record_failure (job_message job) ''durable upload job has no state store'' q
                     | Some s \<Rightarrow>
                         (case delete_upload (store_env c) name (job_snapshot_dir job) s of
                            (Inl e, s1) \<Rightarrow> record_failure (job_message job) (exn_text e) (q\<lparr>queue_store := Some s1\<rparr>)
                          | (Inr _, s1) \<Rightarrow> q\<lparr>queue_store := Some s1, worker := AtGet\<rparr>)))
      | _ \<Rightarrow> None)"

definition worker_step :: "queue_config \<Rightarrow> unit retry_world \<Rightarrow> upload_queue \<Rightarrow> upload_queue option" where
  "worker_step c w q =
     (case worker q of
        AtGet \<Rightarrow> worker_take q
      | Verified _ \<Rightarrow> worker_upload c w q
      | Uploaded _ \<Rightarrow> worker_complete c q
      | Stopped \<Rightarrow> None)"

section \<open>Histories of the queue\<close>

text \<open>
  The runs of a process, with the jobs it accepted and those the worker is done with, each with
  whether it was delivered. Files outside the snapshots may change at any time. A run starts with the resumption of what an earlier history of the state
  directory left pending, as the callers do.
\<close>

definition somes :: "'a option list \<Rightarrow> 'a list" where
  "somes xs = map the (filter (\<lambda>x. x \<noteq> None) xs)"

definition newly_handled :: "upload_queue \<Rightarrow> upload_queue \<Rightarrow> (upload_job \<times> bool) list" where
  "newly_handled q q' =
     (case worker q of
        AtGet \<Rightarrow> (case jobs q of Some job # _ \<Rightarrow> if worker q' = AtGet then [(job, False)] else [] | _ \<Rightarrow> [])
      | Verified job \<Rightarrow> if worker q' = AtGet then [(job, False)] else []
      | Uploaded job \<Rightarrow> [(job, True)]
      | Stopped \<Rightarrow> [])"

inductive uq_run :: "queue_config \<Rightarrow> upload_job list \<Rightarrow> (upload_job \<times> bool) list \<Rightarrow> upload_queue \<Rightarrow> bool" for c where
  uq_open: "queue_run (store_env c) p s \<Longrightarrow> new_upload_queue c (Some s) = Inr q \<Longrightarrow>
     queue_resume_pending c q = (Inr n, q') \<Longrightarrow> uq_run c (somes (to_put q')) [] q'"
| uq_submit: "uq_run c S H q \<Longrightarrow> to_put q = [] \<Longrightarrow> list_all op_valid ops \<Longrightarrow>
     submit c ops msg q = (Inr (), q') \<Longrightarrow> uq_run c (S @ somes (to_put q')) H q'"
| uq_reject: "uq_run c S H q \<Longrightarrow> to_put q = [] \<Longrightarrow> submit c ops msg q = (Inl e, q') \<Longrightarrow> uq_run c S H q'"
| uq_put: "uq_run c S H q \<Longrightarrow> put_next c q = Some q' \<Longrightarrow> uq_run c S H q'"
| uq_files: "uq_run c S H q \<Longrightarrow> queue_store q = Some s \<Longrightarrow>
     (\<And>rest. F (snapshots_root (store_env c) @ rest) = disk_files s (snapshots_root (store_env c) @ rest)) \<Longrightarrow>
     uq_run c S H (q\<lparr>queue_store := Some (s\<lparr>disk_files := F\<rparr>)\<rparr>)"
| uq_close: "uq_run c S H q \<Longrightarrow> to_put q = [] \<Longrightarrow> uq_run c S H (close_queue q)"
| uq_work: "uq_run c S H q \<Longrightarrow> worker_step c w q = Some q' \<Longrightarrow> uq_run c S (H @ newly_handled q q') q'"

section \<open>No upload is lost\<close>

definition in_progress :: "worker_state \<Rightarrow> upload_job list" where
  "in_progress ws = (case ws of Verified job \<Rightarrow> [job] | Uploaded job \<Rightarrow> [job] | _ \<Rightarrow> [])"

definition undelivered :: "(upload_job \<times> bool) list \<Rightarrow> upload_job list" where
  "undelivered H = map fst (filter (Not \<circ> snd) H)"

text \<open>The jobs the process still has to handle, in their order.\<close>

definition live_jobs :: "upload_queue \<Rightarrow> upload_job list" where
  "live_jobs q = in_progress (worker q) @ somes (jobs q @ to_put q)"

text \<open>A job and the pending submission it stands for; after a resumption it carries the computed directory.\<close>

definition job_rep :: "upload_env \<Rightarrow> nat \<times> stored_upload \<Rightarrow> upload_job \<Rightarrow> bool" where
  "job_rep env nu job \<longleftrightarrow>
     (case nu of (n, u) \<Rightarrow> job = job_of_upload (u\<lparr>up_snapshot_dir := job_snapshot_dir job\<rparr>)
        \<and> job_snapshot_dir job \<in> {up_snapshot_dir u, Some (snapshot_dir_for_sequence env n)})"

definition durable :: "queue_config \<Rightarrow> upload_job list \<Rightarrow> upload_queue \<Rightarrow> bool" where
  "durable c todo q \<longleftrightarrow>
     (\<exists>p s. queue_store q = Some s \<and> queue_run (store_env c) p s \<and> list_all2 (job_rep (store_env c)) p todo)"

text \<open>The end marker is put last, and the worker stops at it.\<close>

definition marker_ok :: "upload_queue \<Rightarrow> bool" where
  "marker_ok q \<longleftrightarrow>
     (if \<not> closed q then worker q \<noteq> Stopped \<and> None \<notin> set (jobs q @ to_put q)
      else if worker q = Stopped then jobs q @ to_put q = []
      else \<exists>js. jobs q @ to_put q = map Some js @ [None])"

definition uq_inv :: "queue_config \<Rightarrow> upload_job list \<Rightarrow> (upload_job \<times> bool) list \<Rightarrow> upload_queue \<Rightarrow> bool" where
  "uq_inv c S H q \<longleftrightarrow> 1 \<le> max_pending c \<and> int (length (jobs q)) \<le> max_pending c
     \<and> S = map fst H @ live_jobs q \<and> length (failures q) = length (undelivered H)
     \<and> durable c (undelivered H @ live_jobs q) q \<and> marker_ok q"

lemma somes_simps [simp]:
  "somes [] = []" "somes (Some j # js) = j # somes js" "somes (None # js) = somes js"
  "somes (xs @ ys) = somes xs @ somes ys" "somes (map Some zs) = zs"
  by (simp_all add: somes_def comp_def)

lemma somes_map_comp_Some [simp]: "somes (map (Some \<circ> f) zs) = map f zs"
  by (simp add: somes_def filter_map comp_def)

lemma undelivered_simps [simp]:
  "undelivered [] = []" "undelivered (H @ [(j, True)]) = undelivered H"
  "undelivered (H @ [(j, False)]) = undelivered H @ [j]"
  by (simp_all add: undelivered_def)

lemma in_progress_simps [simp]:
  "in_progress AtGet = []" "in_progress (Verified j) = [j]" "in_progress (Uploaded j) = [j]" "in_progress Stopped = []"
  by (simp_all add: in_progress_def)

lemma record_failure_sel [simp]:
  "jobs (record_failure m d q) = jobs q" "to_put (record_failure m d q) = to_put q"
  "worker (record_failure m d q) = AtGet" "queue_store (record_failure m d q) = queue_store q"
  "length (failures (record_failure m d q)) = Suc (length (failures q))" "closed (record_failure m d q) = closed q"
  by (simp_all add: record_failure_def)

lemma durable_cong: "queue_store q' = queue_store q \<Longrightarrow> durable c todo q' = durable c todo q"
  by (simp add: durable_def)

text \<open>A new process resumes with the pending submissions of the directory.\<close>

lemma resumed_jobs:
  assumes "queue_run (store_env c) p s" and "new_upload_queue c (Some s) = Inr q"
    and "queue_resume_pending c q = (Inr n, q')"
  shows "n = length p \<and> list_all2 (job_rep (store_env c)) p (somes (to_put q')) \<and> failures q' = []
    \<and> q' = q\<lparr>to_put := map Some (somes (to_put q'))\<rparr>"
proof -
  let ?env = "store_env c"
  let ?u = "\<lambda>(n, u). u\<lparr>up_snapshot_dir := Some (snapshot_dir_for_sequence ?env n)\<rparr>"
  have q: "q = \<lparr>jobs = [], to_put = [], worker = AtGet, queue_store = Some (open_store s), failures = [], closed = False\<rparr>"
    using assms(2) by (auto simp: new_upload_queue_def)
  have "queue_run ?env p (open_store s)"
    using assms(1) by (rule run_crash)
  then have "resume_pending ?env (open_store s) =
      (Inr \<lparr>res_uploads = map ?u p, res_failures = [], res_discovered_count = length p\<rparr>, open_store s)"
    by (rule resume_represented [OF queue_run_rep])
  then have q': "n = length p" "q' = q\<lparr>to_put := map (Some \<circ> job_of_upload) (map ?u p)\<rparr>"
    using assms(3) by (simp_all add: queue_resume_pending_def q)
  have "list_all2 (job_rep ?env) p (map (job_of_upload \<circ> ?u) p)"
    by (auto simp: list_all2_conv_all_nth job_rep_def job_of_upload_def split: prod.splits)
  then show ?thesis
    by (simp add: q' q comp_assoc)
qed

lemma uq_inv_open:
  assumes "queue_run (store_env c) p s" and "new_upload_queue c (Some s) = Inr q"
    and "queue_resume_pending c q = (Inr n, q')"
  shows "uq_inv c (somes (to_put q')) [] q'"
proof -
  have q: "q = \<lparr>jobs = [], to_put = [], worker = AtGet, queue_store = Some (open_store s), failures = [], closed = False\<rparr>"
      and pos: "1 \<le> max_pending c"
    using assms(2) by (auto simp: new_upload_queue_def)
  obtain js where q': "q' = q\<lparr>to_put := map Some js\<rparr>" and rep: "list_all2 (job_rep (store_env c)) p js"
    using resumed_jobs [OF assms] by metis
  have "queue_run (store_env c) p (open_store s)"
    using assms(1) by (rule run_crash)
  then have "durable c (undelivered [] @ live_jobs q') q'"
    using rep by (auto simp: durable_def live_jobs_def q q')
  then show ?thesis
    using pos by (auto simp: uq_inv_def live_jobs_def marker_ok_def q q')
qed

lemma uq_inv_submit:
  assumes inv: "uq_inv c S H q" and "to_put q = []" and ops: "list_all op_valid ops"
    and sub: "submit c ops msg q = (Inr (), q')"
  shows "uq_inv c (S @ somes (to_put q')) H q'"
proof -
  obtain p s where s: "queue_store q = Some s" and run: "queue_run (store_env c) p s"
      and rep: "list_all2 (job_rep (store_env c)) p (undelivered H @ live_jobs q)"
    using inv by (auto simp: uq_inv_def durable_def)
  have opened: "\<not> closed q"
    using sub by (auto simp: submit_def ensure_open_def guard_def split: if_splits)
  obtain u t where u: "persist (store_env c) ops msg s = (Inr u, t)"
      and q': "q' = q\<lparr>queue_store := Some t, to_put := [Some (job_of_upload u)]\<rparr>"
    using sub assms(2) s opened
    by (auto simp: submit_def ensure_open_def build_job_def split: prod.splits sum.splits)
  have "queue_run (store_env c) (p @ [(next_sequence s, u)]) t"
    using run ops u by (rule run_submit_here)
  moreover have "job_rep (store_env c) (next_sequence s, u) (job_of_upload u)"
    by (simp add: job_rep_def job_of_upload_def)
  moreover have "live_jobs q' = live_jobs q @ [job_of_upload u]"
    using assms(2) by (simp add: live_jobs_def q')
  ultimately have "durable c (undelivered H @ live_jobs q') q'"
    using list_all2_appendI [OF rep, of "[(next_sequence s, u)]" "[job_of_upload u]"]
    by (auto simp: durable_def q')
  then show ?thesis
    using inv opened assms(2) by (auto simp: uq_inv_def live_jobs_def marker_ok_def q')
qed

lemma uq_inv_reject:
  assumes inv: "uq_inv c S H q" and sub: "submit c ops msg q = (Inl e, q')"
  shows "uq_inv c S H q'"
proof (cases "closed q")
  case True
  then show ?thesis
    using inv sub by (auto simp: submit_def ensure_open_def)
next
  case False
  obtain p s where s: "queue_store q = Some s" and run: "queue_run (store_env c) p s"
      and rep: "list_all2 (job_rep (store_env c)) p (undelivered H @ live_jobs q)"
    using inv by (auto simp: uq_inv_def durable_def)
  obtain t where t: "persist (store_env c) ops msg s = (Inl e, t)" and q': "q' = q\<lparr>queue_store := Some t\<rparr>"
    using sub s False by (auto simp: submit_def ensure_open_def build_job_def split: prod.splits sum.splits)
  have "queue_run (store_env c) p t"
    using run t by (rule run_reject_here)
  then have "durable c (undelivered H @ live_jobs q') q'"
    using rep by (auto simp: durable_def live_jobs_def q')
  then show ?thesis
    using inv by (auto simp: uq_inv_def live_jobs_def marker_ok_def q')
qed

lemma uq_inv_put:
  assumes "uq_inv c S H q" and "put_next c q = Some q'"
  shows "uq_inv c S H q'"
proof -
  obtain j js where j: "to_put q = j # js" "int (length (jobs q)) < max_pending c"
      and q': "q' = q\<lparr>jobs := jobs q @ [j], to_put := js\<rparr>"
    using assms(2) by (auto simp: put_next_def split: list.splits if_splits)
  have same: "jobs q' @ to_put q' = jobs q @ to_put q" "worker q' = worker q" "closed q' = closed q"
    by (simp_all add: q' j)
  have "live_jobs q' = live_jobs q" "marker_ok q' = marker_ok q"
    unfolding live_jobs_def marker_ok_def same by (rule refl)+
  then show ?thesis
    using assms(1) j(2) durable_cong [of q' q c] by (simp add: uq_inv_def q')
qed

lemma uq_inv_close:
  assumes "uq_inv c S H q" and "to_put q = []"
  shows "uq_inv c S H (close_queue q)"
proof (cases "closed q")
  case False
  then have "None \<notin> set (jobs q)" "worker q \<noteq> Stopped"
    using assms by (auto simp: uq_inv_def marker_ok_def)
  moreover have "\<exists>js. xs = map Some js" if "None \<notin> set xs" for xs :: "upload_job option list"
    using that ex_map_conv by (metis not_None_eq)
  ultimately show ?thesis
    using assms False
    by (auto simp: uq_inv_def close_queue_def live_jobs_def marker_ok_def durable_def)
qed (use assms in \<open>simp add: close_queue_def\<close>)

lemma uq_inv_files:
  assumes "uq_inv c S H q" and "queue_store q = Some s"
    and "\<And>rest. F (snapshots_root (store_env c) @ rest) = disk_files s (snapshots_root (store_env c) @ rest)"
  shows "uq_inv c S H (q\<lparr>queue_store := Some (s\<lparr>disk_files := F\<rparr>)\<rparr>)"
proof -
  obtain p where "queue_run (store_env c) p s" and rep: "list_all2 (job_rep (store_env c)) p (undelivered H @ live_jobs q)"
    using assms(1,2) by (auto simp: uq_inv_def durable_def)
  then have "queue_run (store_env c) p (s\<lparr>disk_files := F\<rparr>)"
    using assms(3) by (intro run_files)
  then show ?thesis
    using assms(1) rep by (auto simp: uq_inv_def durable_def live_jobs_def marker_ok_def)
qed

text \<open>A step of the worker that does not touch the store keeps the jobs it has to handle.\<close>

lemma uq_inv_moved:
  assumes "uq_inv c S H q" and "map fst H @ live_jobs q = map fst H' @ live_jobs q'"
    and "undelivered H @ live_jobs q = undelivered H' @ live_jobs q'" and "queue_store q' = queue_store q"
    and "length (failures q') = length (undelivered H')" and "length (jobs q') \<le> length (jobs q)" and "marker_ok q'"
  shows "uq_inv c S H' q'"
  using assms durable_cong [OF assms(4), of c] by (auto simp: uq_inv_def)

lemma uq_inv_take:
  assumes inv: "uq_inv c S H q" and at: "worker q = AtGet" and take: "worker_take q = Some q'"
  shows "uq_inv c S (H @ newly_handled q q') q'"
proof -
  obtain x js where js: "jobs q = x # js"
    using take at by (cases "jobs q") (simp_all add: worker_take_def)
  show ?thesis
  proof (cases x)
    case None
    then have q': "q' = q\<lparr>jobs := js, worker := Stopped\<rparr>"
      using take at js by (simp add: worker_take_def)
    have "closed q" "js = []" "to_put q = []"
      using inv at js None by (auto simp: uq_inv_def marker_ok_def Cons_eq_append_conv split: if_splits)
    then show ?thesis
      using js None at
      by (intro uq_inv_moved [OF inv]) (use inv in \<open>simp_all add: newly_handled_def live_jobs_def marker_ok_def uq_inv_def q'\<close>)
  next
    case (Some job)
    let ?q = "q\<lparr>jobs := js\<rparr>"
    have marker: "marker_ok r" if "jobs r = js" "to_put r = to_put q" "closed r = closed q" "worker r \<noteq> Stopped" for r
      using inv at js Some that
      by (auto simp: uq_inv_def marker_ok_def Cons_eq_append_conv Cons_eq_map_conv split: if_splits)
    consider d where "q' = record_failure (job_message job) d ?q" | "q' = ?q\<lparr>worker := Verified job\<rparr>"
      using take at js Some by (auto simp: worker_take_def Let_def split: sum.splits bool.splits)
    then show ?thesis
    proof cases
      case 1
      have "marker_ok q'"
        by (rule marker) (simp_all add: 1)
      then show ?thesis
        using js Some at
        by (intro uq_inv_moved [OF inv]) (use inv in \<open>simp_all add: newly_handled_def live_jobs_def uq_inv_def 1\<close>)
    next
      case 2
      have "marker_ok q'"
        by (rule marker) (simp_all add: 2)
      then show ?thesis
        using js Some at
        by (intro uq_inv_moved [OF inv]) (use inv in \<open>simp_all add: newly_handled_def live_jobs_def uq_inv_def 2\<close>)
    qed
  qed
qed

lemma uq_inv_upload:
  assumes inv: "uq_inv c S H q" and at: "worker q = Verified job" and step: "worker_upload c w q = Some q'"
  shows "uq_inv c S (H @ newly_handled q q') q'"
proof -
  have marker: "marker_ok r" if "jobs r = jobs q" "to_put r = to_put q" "closed r = closed q" "worker r \<noteq> Stopped" for r
    using inv at that by (auto simp: uq_inv_def marker_ok_def split: if_splits)
  consider d where "q' = record_failure (job_message job) d q" | "q' = q\<lparr>worker := Uploaded job\<rparr>"
    using step at by (auto simp: worker_upload_def split: retry_result.splits)
  then show ?thesis
  proof cases
    case 1
    have "marker_ok q'"
      by (rule marker) (simp_all add: 1)
    then show ?thesis
      using at by (intro uq_inv_moved [OF inv]) (use inv in \<open>simp_all add: newly_handled_def live_jobs_def uq_inv_def 1\<close>)
  next
    case 2
    have "marker_ok q'"
      by (rule marker) (simp_all add: 2)
    then show ?thesis
      using at by (intro uq_inv_moved [OF inv]) (use inv in \<open>simp_all add: newly_handled_def live_jobs_def uq_inv_def 2\<close>)
  qed
qed

lemma filter_distinct_key:
  assumes "distinct (map fst (xs @ (n, u) # ys))"
  shows "filter (\<lambda>(m, _). m \<noteq> n) (xs @ (n, u) # ys) = xs @ ys"
proof -
  have "filter (\<lambda>(m, _). m \<noteq> n) zs = zs" if "n \<notin> fst ` set zs" for zs :: "('a \<times> 'b) list"
    using that by (force simp: filter_id_conv)
  then show ?thesis
    using assms by (simp add: image_iff)
qed

text \<open>The submission a job stands for can be completed, and leaves the pending ones.\<close>

lemma durable_complete:
  assumes "queue_run env p s" and "list_all2 (job_rep env) p (xs @ job # ys)"
  obtains name t p' where "job_state_path job = Some name"
    "delete_upload env name (job_snapshot_dir job) s = (Inr (), t)" "queue_run env p' t" "list_all2 (job_rep env) p' (xs @ ys)"
proof -
  obtain p1 n u p2 where p: "p = p1 @ (n, u) # p2" and all: "list_all2 (job_rep env) p1 xs"
      "job_rep env (n, u) job" "list_all2 (job_rep env) p2 ys"
    using assms(2) by (auto simp: list_all2_append2 list_all2_Cons2)
  have job: "job_state_path job = Some (up_state_path u)"
      "job_snapshot_dir job \<in> {up_snapshot_dir u, Some (snapshot_dir_for_sequence env n)}"
    using all(2) by (auto simp: job_rep_def job_of_upload_def dest: arg_cong [where f = job_state_path])
  obtain r t where d: "delete_upload env (up_state_path u) (job_snapshot_dir job) s = (r, t)"
    by (cases "delete_upload env (up_state_path u) (job_snapshot_dir job) s")
  have nu: "(n, u) \<in> set p"
    by (simp add: p)
  have "r = Inr ()"
    using rep_delete [OF queue_run_rep [OF assms(1)] nu upload_dir [OF queue_run_rep [OF assms(1)] nu job(2)] d] by simp
  moreover have "queue_run env (filter (\<lambda>(m, _). m \<noteq> n) p) t"
    using assms(1) nu job(2) d by (rule run_complete)
  moreover have "sorted_wrt (<) (map fst p)"
    using queue_run_rep [OF assms(1)] by (simp add: pending_rep_def)
  then have "filter (\<lambda>(m, _). m \<noteq> n) p = p1 @ p2"
    unfolding p by (intro filter_distinct_key) (simp add: strict_sorted_iff)
  ultimately show thesis
    using that [OF job(1)] d list_all2_appendI [OF all(1,3)] by metis
qed

lemma uq_inv_complete:
  assumes inv: "uq_inv c S H q" and at: "worker q = Uploaded job" and step: "worker_complete c q = Some q'"
  shows "uq_inv c S (H @ newly_handled q q') q'"
proof -
  let ?rest = "somes (jobs q @ to_put q)"
  obtain p s where s: "queue_store q = Some s" and run: "queue_run (store_env c) p s"
      and rep: "list_all2 (job_rep (store_env c)) p (undelivered H @ job # ?rest)"
    using inv at by (auto simp: uq_inv_def durable_def live_jobs_def)
  obtain name t p' where d: "job_state_path job = Some name"
      "delete_upload (store_env c) name (job_snapshot_dir job) s = (Inr (), t)"
      and p': "queue_run (store_env c) p' t" "list_all2 (job_rep (store_env c)) p' (undelivered H @ ?rest)"
    using durable_complete [OF run rep] .
  have q': "q' = q\<lparr>queue_store := Some t, worker := AtGet\<rparr>"
    using step at s d by (simp add: worker_complete_def)
  have live: "live_jobs q = job # ?rest" "live_jobs q' = ?rest" "newly_handled q q' = [(job, True)]"
    using at by (simp_all add: live_jobs_def newly_handled_def q')
  have "durable c (undelivered H @ ?rest) q'"
    using p' by (auto simp: durable_def q')
  moreover have "marker_ok q'"
    using inv at by (auto simp: uq_inv_def marker_ok_def q' split: if_splits)
  ultimately show ?thesis
    using inv live by (simp add: uq_inv_def q')
qed

lemma uq_run_inv: "uq_run c S H q \<Longrightarrow> uq_inv c S H q"
proof (induction rule: uq_run.induct)
  case (uq_work S H q w q')
  then show ?case
    using uq_inv_take uq_inv_upload uq_inv_complete
    by (cases "worker q") (auto simp: worker_step_def)
next
  case (uq_files S H q s F)
  then show ?case
    using uq_inv_files by blast
qed (erule (1) uq_inv_open uq_inv_put uq_inv_close uq_inv_reject | erule (3) uq_inv_submit | assumption)+

text \<open>
  C1. No upload is lost, reordered or repeated: after every run of the queue, whatever the
  interleaving of producer and worker, the accepted jobs are those the worker is done with followed
  by those in progress, in the queue and waiting for room, each once and in order; the queue is
  within its bound and every job that was not delivered has reported one failure. The state
  directory holds exactly the jobs not delivered, so a new process resumes with them, in order.
\<close>

theorem uploads_not_lost:
  assumes "uq_run c S H q"
  shows "S = map fst H @ live_jobs q \<and> int (length (jobs q)) \<le> max_pending c
    \<and> length (failures q) = length (undelivered H)
    \<and> (\<exists>p s. queue_store q = Some s \<and> list_all2 (job_rep (store_env c)) p (undelivered H @ live_jobs q)
          \<and> (\<forall>q1 n q2. new_upload_queue c (Some s) = Inr q1 \<longrightarrow> queue_resume_pending c q1 = (Inr n, q2) \<longrightarrow>
                n = length p \<and> list_all2 (job_rep (store_env c)) p (somes (to_put q2)) \<and> failures q2 = []))"
proof -
  have inv: "uq_inv c S H q"
    using assms by (rule uq_run_inv)
  then obtain p s where s: "queue_store q = Some s" and run: "queue_run (store_env c) p s"
      and rep: "list_all2 (job_rep (store_env c)) p (undelivered H @ live_jobs q)"
    by (auto simp: uq_inv_def durable_def)
  have "n = length p \<and> list_all2 (job_rep (store_env c)) p (somes (to_put q2)) \<and> failures q2 = []"
    if "new_upload_queue c (Some s) = Inr q1" "queue_resume_pending c q1 = (Inr n, q2)" for q1 n q2
    using resumed_jobs [OF run that] by simp
  then show ?thesis
    using inv s rep unfolding uq_inv_def by blast
qed

text \<open>The work left of a closed queue.\<close>

definition remaining :: "upload_queue \<Rightarrow> nat" where
  "remaining q = 4 * length (to_put q) + 3 * length (jobs q)
     + (case worker q of Verified _ \<Rightarrow> 2 | Uploaded _ \<Rightarrow> 1 | _ \<Rightarrow> 0)"

lemma put_remaining: "put_next c q = Some q' \<Longrightarrow> remaining q' < remaining q"
  by (auto simp: put_next_def remaining_def split: list.splits if_splits)

lemma worker_remaining: "worker_step c w q = Some q' \<Longrightarrow> remaining q' < remaining q"
  by (auto simp: worker_step_def worker_take_def worker_upload_def worker_complete_def remaining_def Let_def
      split: worker_state.splits list.splits option.splits sum.splits bool.splits prod.splits retry_result.splits)

lemma worker_busy: "worker q \<noteq> Stopped \<Longrightarrow> jobs q \<noteq> [] \<or> worker q \<noteq> AtGet \<Longrightarrow> worker_step c w q \<noteq> None"
  by (auto simp: worker_step_def worker_take_def worker_upload_def worker_complete_def Let_def
      split: worker_state.splits list.splits option.splits)

text \<open>
  C3. Closing the queue terminates: in every state of a closed queue either the worker has stopped,
  all accepted jobs are handled and the failures are returned, or a step is possible, of the worker
  whatever the outcome of its uploads or of a blocked \<open>put\<close>; and every step lessens the work left.
\<close>

theorem close_and_wait_terminates:
  assumes "uq_run c S H q" and "closed q"
  shows "worker q = Stopped \<and> S = map fst H \<and> joined_failures q = Some (failures q)
    \<or> (\<exists>q'. put_next c q = Some q' \<and> remaining q' < remaining q)
    \<or> (\<forall>w. \<exists>q'. worker_step c w q = Some q' \<and> remaining q' < remaining q)"
proof (cases "worker q = Stopped")
  case True
  have "uq_inv c S H q"
    using assms(1) by (rule uq_run_inv)
  then have "live_jobs q = []" "S = map fst H @ live_jobs q"
    using True assms(2) by (auto simp: uq_inv_def live_jobs_def marker_ok_def)
  then show ?thesis
    using True by (simp add: joined_failures_def)
next
  case False
  have inv: "uq_inv c S H q"
    using assms(1) by (rule uq_run_inv)
  show ?thesis
  proof (cases "jobs q = [] \<and> worker q = AtGet")
    case True
    then have "to_put q \<noteq> []"
      using inv assms(2) by (auto simp: uq_inv_def marker_ok_def)
    then have "put_next c q \<noteq> None"
      using True inv by (auto simp: put_next_def uq_inv_def split: list.splits)
    then show ?thesis
      using put_remaining by blast
  next
    case busy: False
    then have "worker_step c w q \<noteq> None" for w
      using worker_busy False by blast
    then show ?thesis
      using worker_remaining by blast
  qed
qed

text \<open>A job counts as uploaded only after a call of the upload function that succeeded.\<close>

lemma uploaded_only_after_success:
  assumes "worker_upload c w q = Some q'" and "worker q' = Uploaded job" and "1 \<le> queue_attempts c"
  shows "\<exists>k. 1 \<le> k \<and> int k \<le> queue_attempts c \<and> outcome w k = Inr ()"
proof -
  obtain r calls delays where run: "run_upload_attempts (headers c) w (queue_attempts c) = (r, calls, delays)"
    by (rule prod_cases3)
  then have "r = Returned ()"
    using assms(1,2) by (cases r) (auto simp: worker_upload_def split: worker_state.splits)
  moreover have "upload_attempts (headers c) w (nat (queue_attempts c)) 1 (nat (queue_attempts c)) = (r, calls, delays)"
    using run assms(3) by (simp add: run_upload_attempts_def)
  then obtain k where "1 \<le> k" "k \<le> nat (queue_attempts c)" "upload_ends_at w (nat (queue_attempts c)) k r"
    using upload_attempts_run [of "headers c" w "nat (queue_attempts c)" 1] assms(3) by auto
  ultimately show ?thesis
    using assms(3) by (intro exI [of _ k]) (auto simp: upload_ends_at_def split: sum.splits)
qed

section \<open>An example\<close>

definition sample_config :: queue_config where
  "sample_config = \<lparr>store_env = sample_env, max_pending = 2, queue_attempts = 3, headers = sample_parser,
     error_text = (\<lambda>_. [])\<rparr>"

lemma sample_delete_job:
  "\<exists>u t. persist sample_env [sample_delete_op] ''m'' s = (Inr u, t) \<and> up_ops u = [sample_delete_op] \<and> up_op_shas u = [JNull]"
  by (simp add: persist_def allocate_sequence_def write_highwater_def sample_env_def sample_delete_op_def
      snapshot_operations_def submission_snapshot_dir_def snapshot_operation_def write_envelope_def Let_def
      entry_sha_def dict_get_def)

text \<open>A job is submitted, put, verified and uploaded, and its upload succeeds at the second attempt.\<close>

lemma sample_queue_run:
  "\<exists>job q. uq_run sample_config [job] [] q \<and> worker q = Uploaded job \<and> jobs q = [] \<and> to_put q = [] \<and> \<not> closed q"
proof -
  let ?c = sample_config
  let ?s = "open_store (open_store sample_store)"
  let ?q0 = "\<lparr>jobs = [], to_put = [], worker = AtGet, queue_store = Some ?s, failures = [], closed = False\<rparr>"
  have "queue_run sample_env [] (open_store sample_store)"
    by (rule run_init) (simp_all add: sample_env_def sample_store_def clean_path_def clean_component_def)
  then have start: "queue_run (store_env ?c) [] (open_store sample_store)"
    by (simp add: sample_config_def)
  have new: "new_upload_queue ?c (Some (open_store sample_store)) = Inr ?q0"
    by (simp add: new_upload_queue_def sample_config_def)
  have "resume_pending (store_env ?c) ?s =
      (Inr \<lparr>res_uploads = [], res_failures = [], res_discovered_count = 0\<rparr>, ?s)"
    using resume_represented [OF queue_run_rep [OF run_crash [OF start]]] by simp
  then have "queue_resume_pending ?c ?q0 = (Inr 0, ?q0)"
    by (simp add: queue_resume_pending_def)
  from uq_open [OF start new this] have r0: "uq_run ?c [] [] ?q0"
    by simp
  obtain u t where u: "persist sample_env [sample_delete_op] ''m'' ?s = (Inr u, t)" "up_ops u = [sample_delete_op]"
      "up_op_shas u = [JNull]"
    using sample_delete_job by blast
  let ?job = "job_of_upload u"
  let ?q1 = "?q0\<lparr>queue_store := Some t, to_put := [Some ?job]\<rparr>"
  have "submit ?c [sample_delete_op] ''m'' ?q0 = (Inr (), ?q1)"
    using u(1) by (simp add: submit_def ensure_open_def build_job_def sample_config_def)
  moreover have "list_all op_valid [sample_delete_op]"
    by (simp add: sample_delete_op_def op_valid_def)
  ultimately have r1: "uq_run ?c [?job] [] ?q1"
    using uq_submit [OF r0] by fastforce
  let ?q2 = "?q1\<lparr>jobs := [Some ?job], to_put := []\<rparr>"
  have "put_next ?c ?q1 = Some ?q2"
    by (simp add: put_next_def sample_config_def)
  from uq_put [OF r1 this] have r2: "uq_run ?c [?job] [] ?q2" .
  let ?q3 = "?q2\<lparr>jobs := [], worker := Verified ?job\<rparr>"
  have "worker_step ?c sample_upload_world ?q2 = Some ?q3"
    using u(2,3) by (simp add: worker_step_def worker_take_def verify_job_snapshot_def job_of_upload_def
        snapshot_mismatch_def op_snapshot_path_def sample_delete_op_def Let_def)
  from uq_work [OF r2 this] have r3: "uq_run ?c [?job] [] ?q3"
    by (simp add: newly_handled_def)
  have "worker_step ?c sample_upload_world ?q3 = Some (?q3\<lparr>worker := Uploaded ?job\<rparr>)"
    by (simp add: worker_step_def worker_upload_def sample_config_def sample_upload_run)
  from uq_work [OF r3 this] have "uq_run ?c [?job] [] (?q3\<lparr>worker := Uploaded ?job\<rparr>)
      \<and> worker (?q3\<lparr>worker := Uploaded ?job\<rparr>) = Uploaded ?job \<and> jobs (?q3\<lparr>worker := Uploaded ?job\<rparr>) = []
      \<and> to_put (?q3\<lparr>worker := Uploaded ?job\<rparr>) = [] \<and> \<not> closed (?q3\<lparr>worker := Uploaded ?job\<rparr>)"
    by (simp add: newly_handled_def)
  then have "\<exists>q. uq_run ?c [?job] [] q \<and> worker q = Uploaded ?job \<and> jobs q = [] \<and> to_put q = [] \<and> \<not> closed q"
    by (rule exI)
  then show ?thesis
    by (rule exI)
qed

theorem uploads_not_lost_witness:
  "\<exists>job q p s. uq_run sample_config [job] [] q \<and> live_jobs q = [job] \<and> failures q = [] \<and> queue_store q = Some s
     \<and> list_all2 (job_rep (store_env sample_config)) p [job]"
proof -
  obtain job q where run: "uq_run sample_config [job] [] q" and "worker q = Uploaded job" "jobs q = []" "to_put q = []"
    using sample_queue_run by blast
  then have "live_jobs q = [job]"
    by (simp add: live_jobs_def)
  then show ?thesis
    using uploads_not_lost [OF run] run by fastforce
qed

theorem close_and_wait_terminates_witness:
  "\<exists>job q. uq_run sample_config [job] [] q \<and> closed q \<and> worker q = Uploaded job
     \<and> ((\<exists>q'. put_next sample_config q = Some q' \<and> remaining q' < remaining q)
        \<or> (\<exists>q'. worker_step sample_config sample_upload_world q = Some q' \<and> remaining q' < remaining q))"
proof -
  obtain job q where run: "uq_run sample_config [job] [] q" and "worker q = Uploaded job" "to_put q = []" "\<not> closed q"
    using sample_queue_run by blast
  then have "uq_run sample_config [job] [] (close_queue q)" "closed (close_queue q)" "worker (close_queue q) = Uploaded job"
    using uq_close [OF run] by (simp_all add: close_queue_def)
  then show ?thesis
    using close_and_wait_terminates [of sample_config "[job]" "[]" "close_queue q"] by (metis worker_state.distinct(11))
qed

end
