(* ===== verification/Effects.thy ===== *)
theory Effects
  imports Prelude
begin

text \<open>
  Programs that change a world step by step and can return, raise an exception, or end with the process,
  in which case no handler runs. A fault script says what happens to each step.
\<close>

datatype fault = Fine | Fails | Crashes

datatype 'a outcome = Ok 'a | Raises exn | Crashed

type_synonym ('w, 'a) effect = "'w \<Rightarrow> 'a outcome \<times> 'w"

definition io_ret :: "'a \<Rightarrow> ('w, 'a) effect" where
  "io_ret a w = (Ok a, w)"

definition io_raise :: "exn \<Rightarrow> ('w, 'a) effect" where
  "io_raise e w = (Raises e, w)"

definition io_bind :: "('w, 'a) effect \<Rightarrow> ('a \<Rightarrow> ('w, 'b) effect) \<Rightarrow> ('w, 'b) effect" where
  "io_bind m f w =
     (case m w of (Ok a, w1) \<Rightarrow> f a w1 | (Raises e, w1) \<Rightarrow> (Raises e, w1) | (Crashed, w1) \<Rightarrow> (Crashed, w1))"

definition io_of_res :: "'a res \<Rightarrow> ('w, 'a) effect" where
  "io_of_res r = (case r of Inl e \<Rightarrow> io_raise e | Inr a \<Rightarrow> io_ret a)"

definition io_guard :: "bool \<Rightarrow> exn \<Rightarrow> ('w, unit) effect" where
  "io_guard b e = (if b then io_ret () else io_raise e)"

primrec io_each :: "('a \<Rightarrow> ('w, unit) effect) \<Rightarrow> 'a list \<Rightarrow> ('w, unit) effect" where
  "io_each f [] = io_ret ()"
| "io_each f (x # xs) = io_bind (f x) (\<lambda>_. io_each f xs)"

primrec io_map :: "('a \<Rightarrow> ('w, 'b) effect) \<Rightarrow> 'a list \<Rightarrow> ('w, 'b list) effect" where
  "io_map f [] = io_ret []"
| "io_map f (x # xs) = io_bind (f x) (\<lambda>y. io_bind (io_map f xs) (\<lambda>ys. io_ret (y # ys)))"

lemma io_bind_ret [simp]: "io_bind (io_ret a) f = f a"
  by (simp add: fun_eq_iff io_bind_def io_ret_def)

lemma io_bind_raise [simp]: "io_bind (io_raise e) f = io_raise e"
  by (simp add: fun_eq_iff io_bind_def io_raise_def)

section \<open>Contracts\<close>

text \<open>What holds after a program that returned, raised or died.\<close>

fun ends_in :: "('a \<Rightarrow> 'w \<Rightarrow> bool) \<Rightarrow> ('w \<Rightarrow> bool) \<Rightarrow> ('w \<Rightarrow> bool) \<Rightarrow> 'a outcome \<times> 'w \<Rightarrow> bool" where
  "ends_in Q X C (Ok a, w) \<longleftrightarrow> Q a w"
| "ends_in Q X C (Raises e, w) \<longleftrightarrow> X w"
| "ends_in Q X C (Crashed, w) \<longleftrightarrow> C w"

definition assures ::
  "('w \<Rightarrow> bool) \<Rightarrow> ('w, 'a) effect \<Rightarrow> ('a \<Rightarrow> 'w \<Rightarrow> bool) \<Rightarrow> ('w \<Rightarrow> bool) \<Rightarrow> ('w \<Rightarrow> bool) \<Rightarrow> bool" where
  "assures P m Q X C \<longleftrightarrow> (\<forall>w. P w \<longrightarrow> ends_in Q X C (m w))"

lemma assuresI: "(\<And>w. P w \<Longrightarrow> ends_in Q X C (m w)) \<Longrightarrow> assures P m Q X C"
  by (simp add: assures_def)

lemma assuresD: "assures P m Q X C \<Longrightarrow> P w \<Longrightarrow> ends_in Q X C (m w)"
  by (simp add: assures_def)

lemma assures_ret: "(\<And>w. P w \<Longrightarrow> Q a w) \<Longrightarrow> assures P (io_ret a) Q X C"
  by (simp add: assures_def io_ret_def)

lemma assures_raise: "(\<And>w. P w \<Longrightarrow> X w) \<Longrightarrow> assures P (io_raise e) Q X C"
  by (simp add: assures_def io_raise_def)

lemma assures_bind:
  assumes "assures P m R X C" and "\<And>a. assures (R a) (f a) Q X C"
  shows "assures P (io_bind m f) Q X C"
proof (rule assuresI)
  fix w assume "P w"
  then have m: "ends_in R X C (m w)" by (rule assuresD [OF assms(1)])
  obtain r w1 where r: "m w = (r, w1)" by fastforce
  show "ends_in Q X C (io_bind m f w)"
  proof (cases r)
    case (Ok a)
    then have "R a w1" using m r by simp
    then show ?thesis using assuresD [OF assms(2) [of a]] r Ok by (simp add: io_bind_def)
  qed (use m r in \<open>simp_all add: io_bind_def\<close>)
qed

lemma ends_in_mono:
  "ends_in Q' X' C' x \<Longrightarrow> (\<And>a w. Q' a w \<Longrightarrow> Q a w) \<Longrightarrow> (\<And>w. X' w \<Longrightarrow> X w) \<Longrightarrow> (\<And>w. C' w \<Longrightarrow> C w) \<Longrightarrow> ends_in Q X C x"
  by (cases "(Q', X', C', x)" rule: ends_in.cases) simp_all

lemma assures_weaken:
  assumes "assures P' m Q' X' C'" and "\<And>w. P w \<Longrightarrow> P' w" and "\<And>a w. Q' a w \<Longrightarrow> Q a w"
    and "\<And>w. X' w \<Longrightarrow> X w" and "\<And>w. C' w \<Longrightarrow> C w"
  shows "assures P m Q X C"
  by (rule assuresI) (rule ends_in_mono [OF assuresD [OF assms(1) assms(2)] assms(3-5)])

lemma assures_vacuous: "(\<And>w. \<not> P w) \<Longrightarrow> assures P m Q X C"
  by (simp add: assures_def)

lemma assures_of_res:
  "(\<And>w a. P w \<Longrightarrow> r = Inr a \<Longrightarrow> Q a w) \<Longrightarrow> (\<And>w e. P w \<Longrightarrow> r = Inl e \<Longrightarrow> X w) \<Longrightarrow> assures P (io_of_res r) Q X C"
  by (cases r) (simp_all add: io_of_res_def assures_def io_ret_def io_raise_def)

lemma assures_each:
  assumes "\<And>i. i < length xs \<Longrightarrow> assures (I i) (f (xs ! i)) (\<lambda>_. I (Suc i)) X C"
  shows "assures (I 0) (io_each f xs) (\<lambda>_. I (length xs)) X C"
  using assms
proof (induction xs arbitrary: I)
  case Nil
  then show ?case by (simp add: assures_ret)
next
  case (Cons x xs)
  show ?case unfolding io_each.simps
  proof (rule assures_bind)
    show "assures (I 0) (f x) (\<lambda>_. I 1) X C" using Cons.prems [of 0] by simp
    show "assures (I 1) (io_each f xs) (\<lambda>_. I (length (x # xs))) X C"
      using Cons.IH [of "\<lambda>i. I (Suc i)"] Cons.prems by force
  qed
qed

end
