(* ===== verification/Link_Transaction.thy ===== *)
theory Link_Transaction
  imports Upload_Durability Effects
begin

text \<open>
  The journaled replacement of files by the link migration
  (\<open>pipeline/_link_migration/transaction.py\<close>).

  The files are a dictionary from absolute paths to bytes, the journal is a JSON file beside them;
  there are no symbolic links and directories are not represented. Every system call consumes an
  entry of a fault script: it succeeds, fails with an exception, or the process dies at it, after
  which no handler runs. A call that fails has no effect, except that an interrupted copy leaves an
  empty file. The digest of a file, the order in which a directory is listed, and the text of a JSON list or object are parameters.
\<close>

section \<open>System calls\<close>

record lt_env =
  data_root :: path
  journal_dir :: path
  digest :: "nat list \<Rightarrow> string"
  listing :: "path list \<Rightarrow> path list"
  container_text :: "json \<Rightarrow> string"

record lt_world =
  data :: "(path, nat list) dict"
  journal :: text_file
  script :: "fault list"

type_synonym 'a io = "(lt_world, 'a) effect"

text \<open>A system call: its effect, and what it leaves behind when it is interrupted.\<close>

definition syscall :: "(lt_world \<Rightarrow> lt_world) \<Rightarrow> (lt_world \<Rightarrow> lt_world) \<Rightarrow> unit io" where
  "syscall full partial w =
     (let w1 = w\<lparr>script := drop 1 (script w)\<rparr> in
      case script w of
        Fails # _ \<Rightarrow> (Raises (OSError ''system call failed''), partial w1)
      | Crashes # _ \<Rightarrow> (Crashed, partial w1)
      | _ \<Rightarrow> (Ok (), full w1))"

definition content :: "path \<Rightarrow> lt_world \<Rightarrow> nat list option" where
  "content p w = map_of (data w) p"

definition is_file :: "path \<Rightarrow> bool io" where
  "is_file p w = (Ok (content p w \<noteq> None), w)"

definition store_file :: "path \<Rightarrow> nat list \<Rightarrow> lt_world \<Rightarrow> lt_world" where
  "store_file p bytes w = w\<lparr>data := AList.update p bytes (data w)\<rparr>"

definition remove_file :: "path \<Rightarrow> lt_world \<Rightarrow> lt_world" where
  "remove_file p w = w\<lparr>data := AList.delete p (data w)\<rparr>"

definition copyfile :: "path \<Rightarrow> path \<Rightarrow> unit io" where
  "copyfile source target w =
     (case content source w of
        None \<Rightarrow> (Raises (FileNotFoundError ''No such file''), w)
      | Some bytes \<Rightarrow> syscall (store_file target bytes) (store_file target []) w)"

text \<open>\<open>os.replace\<close>, and \<open>shutil.move\<close> within one file system.\<close>

definition move_file :: "path \<Rightarrow> path \<Rightarrow> unit io" where
  "move_file source target w =
     (case content source w of
        None \<Rightarrow> (Raises (FileNotFoundError ''No such file''), w)
      | Some bytes \<Rightarrow> syscall (store_file target bytes \<circ> remove_file source) id w)"

definition unlink_file :: "path \<Rightarrow> unit io" where
  "unlink_file p = syscall (remove_file p) id"

definition make_directory :: "unit io" where
  "make_directory = syscall id id"

definition file_content_hash :: "lt_env \<Rightarrow> path \<Rightarrow> string io" where
  "file_content_hash env p w =
     (case content p w of
        None \<Rightarrow> (Ok [], w)
      | Some bytes \<Rightarrow> io_bind (syscall id id) (\<lambda>_. io_ret (digest env bytes)) w)"

definition file_matches_hash :: "lt_env \<Rightarrow> path \<Rightarrow> string \<Rightarrow> bool io" where
  "file_matches_hash env p expected =
     io_bind (is_file p) (\<lambda>exists.
       if \<not> exists then io_ret False
       else io_bind (file_content_hash env p) (\<lambda>h. io_ret (h = expected)))"

definition atomic_write_journal_json :: "json \<Rightarrow> unit io" where
  "atomic_write_journal_json payload = syscall (\<lambda>w. w\<lparr>journal := write_json payload\<rparr>) id"

section \<open>Confinement of paths\<close>

definition ensure_recovery_path_within_root :: "lt_env \<Rightarrow> path \<Rightarrow> unit io" where
  "ensure_recovery_path_within_root env p =
     io_guard (take (length (resolve (data_root env))) (resolve p) = resolve (data_root env))
       (RuntimeError ''Link migration journal path escapes the data root'')"

definition ensure_journal_directory_has_no_symlinks :: "lt_env \<Rightarrow> unit io" where
  "ensure_journal_directory_has_no_symlinks env =
     (let root = data_root env; directory = journal_dir env in
      io_bind (io_guard (take (length root) directory = root
          \<and> take (length (resolve root)) (resolve directory) = resolve root)
        (RuntimeError ''Link migration journal directory escapes the data root'')) (\<lambda>_.
      io_guard (drop (length root) directory \<noteq> []
          \<and> drop (length root) directory = drop (length (resolve root)) (resolve directory))
        (RuntimeError ''Link migration journal directory cannot contain symlinks'')))"

definition journal_path :: "lt_env \<Rightarrow> path" where
  "journal_path env = journal_dir env @ [''journal.json'']"

section \<open>Transactions\<close>

definition TRANSACTION_VERSION :: string where
  "TRANSACTION_VERSION = ''link-migration-transaction-v1''"

record transaction_entry =
  entry_target :: path
  entry_staged :: path
  entry_backup :: "path option"
  entry_existed :: bool
  entry_original_hash :: string
  entry_staged_hash :: string

definition prepare_entry :: "lt_env \<Rightarrow> path \<times> path \<Rightarrow> transaction_entry io" where
  "prepare_entry env ts =
     (case ts of (target, staged) \<Rightarrow>
      io_bind (ensure_recovery_path_within_root env target) (\<lambda>_.
      io_bind (ensure_recovery_path_within_root env staged) (\<lambda>_.
      io_bind (is_file staged) (\<lambda>staged_exists.
      io_bind (io_guard staged_exists (FileNotFoundError ''Staged link migration file is missing'')) (\<lambda>_.
      let backup = journal_dir env @ [last target @ ''.backup''] in
      io_bind (ensure_recovery_path_within_root env backup) (\<lambda>_.
      io_bind (is_file target) (\<lambda>existed.
      io_bind (if existed then io_bind (copyfile target backup) (\<lambda>_. file_content_hash env target)
               else io_ret []) (\<lambda>original_hash.
      io_bind (file_content_hash env staged) (\<lambda>staged_hash.
        io_ret \<lparr>entry_target = target, entry_staged = staged, entry_backup = (if existed then Some backup else None),
                entry_existed = existed, entry_original_hash = original_hash, entry_staged_hash = staged_hash\<rparr>)))))))))"

definition entry_json :: "transaction_entry \<Rightarrow> json" where
  "entry_json e =
     JObj [(''target'', JStr (path_str (entry_target e))), (''staged'', JStr (path_str (entry_staged e))),
           (''backup'', JStr (case entry_backup e of None \<Rightarrow> [] | Some p \<Rightarrow> path_str p)),
           (''existed'', JBool (entry_existed e)), (''original_hash'', JStr (entry_original_hash e)),
           (''staged_hash'', JStr (entry_staged_hash e))]"

definition journal_json :: "string \<Rightarrow> string \<Rightarrow> transaction_entry list \<Rightarrow> (string, json) dict \<Rightarrow> json" where
  "journal_json stem phase entries extra =
     JObj ([(''contract_version'', JStr TRANSACTION_VERSION), (''stem'', JStr stem), (''phase'', JStr phase),
            (''entries'', JList (map entry_json entries))] @ extra)"

definition apply_single :: "lt_env \<Rightarrow> transaction_entry \<Rightarrow> unit io" where
  "apply_single env e =
     io_bind (file_matches_hash env (entry_target e) (entry_staged_hash e)) (\<lambda>present.
       if present then io_ret ()
       else
         io_bind (file_matches_hash env (entry_staged e) (entry_staged_hash e)) (\<lambda>available.
         io_bind (io_guard available (RuntimeError ''Link migration staged file is unavailable'')) (\<lambda>_.
         io_bind make_directory (\<lambda>_.
         io_bind (move_file (entry_staged e) (entry_target e)) (\<lambda>_.
         io_bind (file_content_hash env (entry_target e)) (\<lambda>h.
           io_guard (h = entry_staged_hash e) (RuntimeError ''Link migration verification failed'')))))))"

text \<open>
  The loop over the entries. It also yields the index it has reached, which the handler of a
  failure reads.
\<close>

fun apply_entries ::
  "lt_env \<Rightarrow> (nat \<Rightarrow> path \<Rightarrow> unit io) option \<Rightarrow> nat \<Rightarrow> transaction_entry list \<Rightarrow> lt_world
    \<Rightarrow> (unit outcome \<times> lt_world) \<times> nat" where
  "apply_entries env hook i [] w = ((Ok (), w), i - 1)"
| "apply_entries env hook i (e # es) w =
     (case io_bind (apply_single env e) (\<lambda>_.
             io_bind (case hook of None \<Rightarrow> io_ret () | Some f \<Rightarrow> f i (entry_target e)) (\<lambda>_.
             io_bind (file_content_hash env (entry_target e)) (\<lambda>h.
               io_guard (h = entry_staged_hash e) (RuntimeError ''Link migration post-hook hash mismatch'')))) w of
        (Ok _, w1) \<Rightarrow> apply_entries env hook (Suc i) es w1
      | (r, w1) \<Rightarrow> ((r, w1), i))"

definition restore_existing_entry :: "lt_env \<Rightarrow> transaction_entry \<Rightarrow> unit io" where
  "restore_existing_entry env e =
     io_bind (case entry_backup e of None \<Rightarrow> io_ret False | Some b \<Rightarrow> is_file b) (\<lambda>available.
     io_bind (io_guard available (RuntimeError ''Link migration backup is unavailable'')) (\<lambda>_.
     io_bind (move_file (the (entry_backup e)) (entry_target e)) (\<lambda>_.
     io_bind (file_content_hash env (entry_target e)) (\<lambda>h.
       io_guard (h = entry_original_hash e) (RuntimeError ''Link migration rollback verification failed'')))))"

definition rollback_entry :: "lt_env \<Rightarrow> transaction_entry \<Rightarrow> unit io" where
  "rollback_entry env e =
     (if entry_existed e then restore_existing_entry env e
      else io_bind (is_file (entry_target e)) (\<lambda>exists.
        if exists then unlink_file (entry_target e) else io_ret ()))"

definition rollback_entries :: "lt_env \<Rightarrow> transaction_entry list \<Rightarrow> unit io" where
  "rollback_entries env entries = io_each (rollback_entry env) (rev entries)"

definition cleanup_entry :: "lt_env \<Rightarrow> path \<Rightarrow> unit io" where
  "cleanup_entry env p =
     io_bind (ensure_recovery_path_within_root env p) (\<lambda>_.
       if p = journal_path env then syscall (\<lambda>w. w\<lparr>journal := Absent\<rparr>) id else unlink_file p)"

definition directory_files :: "lt_env \<Rightarrow> lt_world \<Rightarrow> path list" where
  "directory_files env w =
     listing env ((if journal w = Absent then [] else [journal_path env])
       @ filter (\<lambda>p. p \<noteq> [] \<and> butlast p = journal_dir env \<and> p \<noteq> journal_path env) (map fst (data w)))"

definition cleanup :: "lt_env \<Rightarrow> unit io" where
  "cleanup env =
     io_bind (ensure_recovery_path_within_root env (journal_dir env)) (\<lambda>_.
     io_bind (ensure_journal_directory_has_no_symlinks env) (\<lambda>_.
     io_bind (\<lambda>w. (Ok (directory_files env w), w)) (io_each (cleanup_entry env))))"

definition record_transaction_failure ::
  "lt_env \<Rightarrow> string \<Rightarrow> transaction_entry list \<Rightarrow> nat \<Rightarrow> unit io" where
  "record_transaction_failure env stem entries index =
     (if index = 0 then
        io_bind (rollback_entries env entries) (\<lambda>_.
        io_bind (atomic_write_journal_json (journal_json stem ''rolled_back'' entries [])) (\<lambda>_.
          cleanup env))
      else
        io_bind (ensure_recovery_path_within_root env (journal_path env)) (\<lambda>_.
          atomic_write_journal_json (journal_json stem ''interrupted'' entries
            [(''interrupted_at_index'', JInt (int index))])))"

text \<open>The block that applies the entries and marks the journal, with its handler.\<close>

definition apply_transaction ::
  "lt_env \<Rightarrow> string \<Rightarrow> (nat \<Rightarrow> path \<Rightarrow> unit io) option \<Rightarrow> transaction_entry list \<Rightarrow> unit io" where
  "apply_transaction env stem hook entries w =
     (case apply_entries env hook 0 entries w of
        (applied, index) \<Rightarrow>
          (case io_bind (\<lambda>_. applied) (\<lambda>_.
                  io_bind (ensure_recovery_path_within_root env (journal_path env)) (\<lambda>_.
                    atomic_write_journal_json (journal_json stem ''committed'' entries []))) w of
             (Raises e, w1) \<Rightarrow>
               io_bind (record_transaction_failure env stem entries index) (\<lambda>_. io_raise e) w1
           | r \<Rightarrow> r))"

definition commit_new_transaction ::
  "lt_env \<Rightarrow> string \<Rightarrow> (path \<times> path) list \<Rightarrow> (nat \<Rightarrow> path \<Rightarrow> unit io) option \<Rightarrow> unit io" where
  "commit_new_transaction env stem ordered hook =
     io_bind (ensure_journal_directory_has_no_symlinks env) (\<lambda>_.
     io_bind (ensure_recovery_path_within_root env (journal_path env)) (\<lambda>_.
     io_bind (io_map (prepare_entry env) ordered) (\<lambda>entries.
     io_bind (atomic_write_journal_json (journal_json stem ''prepared'' entries [])) (\<lambda>_.
     io_bind (apply_transaction env stem hook entries) (\<lambda>_.
       cleanup env)))))"

section \<open>Recovery\<close>

definition load_recovery_journal :: "lt_env \<Rightarrow> string \<Rightarrow> (string, json) dict io" where
  "load_recovery_journal env stem =
     io_bind (ensure_recovery_path_within_root env (journal_path env)) (\<lambda>_ w.
       io_of_res
         (res_bind (read_json_strict (ValueError ''malformed journal'') (journal w)) (\<lambda>raw.
          case raw of
            JObj d \<Rightarrow>
              res_bind (guard (map_of d ''contract_version'' = Some (JStr TRANSACTION_VERSION))
                (RuntimeError ''Invalid link migration journal'')) (\<lambda>_.
              res_bind (guard (map_of d ''stem'' = Some (JStr stem))
                (RuntimeError ''Link migration journal stem mismatch'')) (\<lambda>_. Inr d))
          | _ \<Rightarrow> Inl (AttributeError ''object has no attribute get''))) w)"

definition required_recovery_path :: "lt_env \<Rightarrow> (string, json) dict \<Rightarrow> string \<Rightarrow> path io" where
  "required_recovery_path env entry name =
     (case map_of entry name of
        Some (JStr v) \<Rightarrow>
          if v = [] then io_raise (RuntimeError ''Invalid link migration journal path'')
          else io_bind (ensure_recovery_path_within_root env (path_of v)) (\<lambda>_. io_ret (path_of v))
      | _ \<Rightarrow> io_raise (RuntimeError ''Invalid link migration journal path''))"

definition json_falsy :: "json \<Rightarrow> bool" where
  "json_falsy v \<longleftrightarrow> v \<in> {JNull, JBool False, JInt 0, JStr [], JList [], JObj []}"

definition validate_recovery_path :: "lt_env \<Rightarrow> (string, json) dict \<Rightarrow> string \<Rightarrow> path option io" where
  "validate_recovery_path env entry name =
     (if name = ''backup'' \<and> json_falsy (dict_get entry name JNull) then io_ret None
      else io_bind (required_recovery_path env entry name) (\<lambda>p. io_ret (Some p)))"

definition validate_recovery_entry :: "lt_env \<Rightarrow> json \<Rightarrow> unit io" where
  "validate_recovery_entry env raw =
     (case raw of
        JObj entry \<Rightarrow>
          io_each (\<lambda>name. io_bind (validate_recovery_path env entry name) (\<lambda>_. io_ret ()))
            [''target'', ''staged'', ''backup'']
      | _ \<Rightarrow> io_raise (RuntimeError ''Invalid link migration journal entry''))"

definition validate_recovery_journal_paths :: "lt_env \<Rightarrow> (string, json) dict \<Rightarrow> json list io" where
  "validate_recovery_journal_paths env d =
     (case dict_get d ''entries'' (JList []) of
        JList entries \<Rightarrow> io_bind (io_each (validate_recovery_entry env) entries) (\<lambda>_. io_ret entries)
      | _ \<Rightarrow> io_raise (RuntimeError ''Invalid link migration journal entries''))"

definition remove_recovery_backup :: "lt_env \<Rightarrow> (string, json) dict \<Rightarrow> unit io" where
  "remove_recovery_backup env entry =
     io_bind (validate_recovery_path env entry ''backup'') (\<lambda>backup.
     io_bind (io_of_res (dict_item entry ''existed'')) (\<lambda>existed.
       case backup of
         None \<Rightarrow> io_ret ()
       | Some b \<Rightarrow>
           if json_falsy existed then io_ret ()
           else io_bind (is_file b) (\<lambda>exists.
             if \<not> exists then io_ret ()
             else io_bind (ensure_recovery_path_within_root env b) (\<lambda>_. unlink_file b))))"

definition move_recovery_staged :: "lt_env \<Rightarrow> path \<Rightarrow> path \<Rightarrow> unit io" where
  "move_recovery_staged env staged target =
     io_bind (ensure_recovery_path_within_root env staged) (\<lambda>_.
     io_bind (ensure_recovery_path_within_root env target) (\<lambda>_.
       move_file staged target))"

definition prepare_recovery_target :: "lt_env \<Rightarrow> (string, json) dict \<Rightarrow> path \<Rightarrow> path \<Rightarrow> unit io" where
  "prepare_recovery_target env entry target staged =
     io_bind (ensure_recovery_path_within_root env target) (\<lambda>_.
     io_bind (ensure_recovery_path_within_root env staged) (\<lambda>_.
     io_bind make_directory (\<lambda>_.
     io_bind (remove_recovery_backup env entry) (\<lambda>_.
       move_recovery_staged env staged target))))"

definition staged_hash_text :: "lt_env \<Rightarrow> json \<Rightarrow> string" where
  "staged_hash_text env v =
     (case v of
        JStr h \<Rightarrow> h | JNull \<Rightarrow> ''None'' | JBool b \<Rightarrow> (if b then ''True'' else ''False'') | JInt i \<Rightarrow> py_str_int i
      | _ \<Rightarrow> container_text env v)"

definition recover_entry :: "lt_env \<Rightarrow> json \<Rightarrow> unit io" where
  "recover_entry env raw =
     (case raw of
        JObj entry \<Rightarrow>
          io_bind (required_recovery_path env entry ''target'') (\<lambda>target.
          io_bind (required_recovery_path env entry ''staged'') (\<lambda>staged.
          io_bind (io_of_res (dict_item entry ''staged_hash'')) (\<lambda>h.
          let staged_hash = staged_hash_text env h in
          io_bind (file_matches_hash env target staged_hash) (\<lambda>present.
            if present then io_ret ()
            else
              io_bind (file_matches_hash env staged staged_hash) (\<lambda>available.
              io_bind (io_guard available (RuntimeError ''Link migration recovery: staged file unavailable'')) (\<lambda>_.
              io_bind (prepare_recovery_target env entry target staged) (\<lambda>_.
              io_bind (file_content_hash env target) (\<lambda>actual.
                io_guard (actual = staged_hash) (RuntimeError ''Link migration recovery verification failed'')))))))))
      | _ \<Rightarrow> io_raise (AttributeError ''object has no attribute get''))"

definition recover_directory :: "lt_env \<Rightarrow> string \<Rightarrow> unit io" where
  "recover_directory env stem =
     io_bind (ensure_recovery_path_within_root env (journal_dir env)) (\<lambda>_.
     io_bind (ensure_journal_directory_has_no_symlinks env) (\<lambda>_.
     io_bind (ensure_recovery_path_within_root env (journal_path env)) (\<lambda>_ w.
       if journal w = Absent then (Ok (), w)
       else
         io_bind (load_recovery_journal env stem) (\<lambda>raw.
         io_bind (validate_recovery_journal_paths env raw) (\<lambda>entries.
         io_bind (io_each (recover_entry env) entries) (\<lambda>_.
           cleanup env))) w)))"

section \<open>Committing\<close>

definition json_suffix :: "path \<Rightarrow> bool" where
  "json_suffix p \<longleftrightarrow> py_endswith (last p) ''.json'' \<and> 5 < length (last p)"

definition ordered_replacements :: "(path \<times> path) list \<Rightarrow> (path \<times> path) list" where
  "ordered_replacements replacements = sort_key (\<lambda>item. (json_suffix (fst item), path_str (fst item))) replacements"

definition validate_replacement_targets :: "lt_env \<Rightarrow> (path \<times> path) list \<Rightarrow> unit io" where
  "validate_replacement_targets env replacements =
     io_bind (io_guard (distinct (map fst replacements))
       (ValueError ''Link migration transaction contains duplicate targets'')) (\<lambda>_.
       io_each (\<lambda>ts. io_bind (ensure_recovery_path_within_root env (fst ts)) (\<lambda>_.
         ensure_recovery_path_within_root env (snd ts))) replacements)"

definition commit_ordered_replacements ::
  "lt_env \<Rightarrow> string \<Rightarrow> (path \<times> path) list \<Rightarrow> (nat \<Rightarrow> path \<Rightarrow> unit io) option \<Rightarrow> unit io" where
  "commit_ordered_replacements env stem replacements hook =
     (if replacements = [] then io_ret ()
      else
        io_bind (ensure_recovery_path_within_root env (journal_dir env)) (\<lambda>_.
        io_bind (ensure_journal_directory_has_no_symlinks env) (\<lambda>_.
        io_bind (validate_replacement_targets env replacements) (\<lambda>_.
        io_bind make_directory (\<lambda>_.
        io_bind (ensure_recovery_path_within_root env (journal_path env)) (\<lambda>_ w.
          if journal w \<noteq> Absent then recover_directory env stem w
          else commit_new_transaction env stem (ordered_replacements replacements) hook w))))))"

end
