(* ===== verification/Link_Recovery.thy ===== *)
theory Link_Recovery
  imports Link_Transaction
begin

text \<open>
  The journaled replacement is crash safe: proofs about \<open>Link_Transaction\<close>.

  A program is specified by a triple over assertions on the files and the journal. Its script may
  hold faults of a given set; a program that returns satisfies its postcondition, one that raises
  or dies satisfies its abort condition, and it raises only if calls may fail and dies only if the
  process may die. The recovery of an interrupted transaction is then one invariant.
\<close>

section \<open>Triples\<close>

type_synonym assertion = "(path \<Rightarrow> nat list option) \<Rightarrow> text_file \<Rightarrow> bool"

definition holds :: "assertion \<Rightarrow> lt_world \<Rightarrow> bool" where
  "holds A w \<longleftrightarrow> A (map_of (data w)) (journal w)"

definition meets :: "fault set \<Rightarrow> 'a outcome \<Rightarrow> lt_world \<Rightarrow> ('a \<Rightarrow> assertion) \<Rightarrow> assertion \<Rightarrow> bool" where
  "meets F r w Q E \<longleftrightarrow> set (script w) \<subseteq> F
     \<and> (case r of Ok a \<Rightarrow> holds (Q a) w | Raises e \<Rightarrow> Fails \<in> F \<and> holds E w | Crashed \<Rightarrow> Crashes \<in> F \<and> holds E w)"

definition triple :: "fault set \<Rightarrow> assertion \<Rightarrow> 'a io \<Rightarrow> ('a \<Rightarrow> assertion) \<Rightarrow> assertion \<Rightarrow> bool" where
  "triple F P m Q E \<longleftrightarrow> (\<forall>w. holds P w \<and> set (script w) \<subseteq> F \<longrightarrow> meets F (fst (m w)) (snd (m w)) Q E)"

lemma tripleD: "triple F P m Q E \<Longrightarrow> holds P w \<Longrightarrow> set (script w) \<subseteq> F \<Longrightarrow> m w = (r, w') \<Longrightarrow> meets F r w' Q E"
  by (auto simp: triple_def)

lemma triple_conseq:
  assumes "triple F P m Q E" and "\<And>f j. P' f j \<Longrightarrow> P f j" and "\<And>a f j. Q a f j \<Longrightarrow> Q' a f j"
    and "\<And>f j. E f j \<Longrightarrow> E' f j"
  shows "triple F P' m Q' E'"
  unfolding triple_def
proof (intro allI impI)
  fix w
  assume "holds P' w \<and> set (script w) \<subseteq> F"
  then have "meets F (fst (m w)) (snd (m w)) Q E"
    using assms(1,2) by (auto simp: triple_def holds_def)
  then show "meets F (fst (m w)) (snd (m w)) Q' E'"
    using assms(3,4) by (auto simp: meets_def holds_def split: outcome.splits)
qed

lemma triple_pre: "triple F P m Q E \<Longrightarrow> (\<And>f j. P' f j \<Longrightarrow> P f j) \<Longrightarrow> triple F P' m Q E"
  by (erule triple_conseq)

lemma io_guard_True [simp]: "b \<Longrightarrow> io_guard b e = io_ret ()"
  by (simp add: io_guard_def)

lemma triple_ret: "(\<And>f j. P f j \<Longrightarrow> Q a f j) \<Longrightarrow> triple F P (io_ret a) Q E"
  by (simp add: triple_def meets_def io_ret_def holds_def)

lemma triple_bind:
  assumes "triple F P m R E" and "\<And>a. triple F (R a) (g a) Q E"
  shows "triple F P (io_bind m g) Q E"
  unfolding triple_def
proof (intro allI impI)
  fix w
  assume w: "holds P w \<and> set (script w) \<subseteq> F"
  obtain r w1 where m: "m w = (r, w1)"
    by (cases "m w")
  have first: "meets F r w1 R E"
    using tripleD [OF assms(1) _ _ m] w by simp
  show "meets F (fst (io_bind m g w)) (snd (io_bind m g w)) Q E"
  proof (cases r)
    case (Ok a)
    then have "holds (R a) w1" "set (script w1) \<subseteq> F"
      using first by (simp_all add: meets_def)
    then show ?thesis
      using assms(2) [of a] Ok m by (simp add: triple_def io_bind_def)
  qed (use first m in \<open>simp_all add: io_bind_def meets_def\<close>)
qed

lemma triple_if:
  "(b \<Longrightarrow> triple F P m Q E) \<Longrightarrow> (\<not> b \<Longrightarrow> triple F P n Q E) \<Longrightarrow> triple F P (if b then m else n) Q E"
  by simp

lemma triple_same_run:
  assumes "triple F P n Q E" and "\<And>w. P (map_of (data w)) (journal w) \<Longrightarrow> m w = n w"
  shows "triple F P m Q E"
  using assms by (simp add: triple_def holds_def)

lemma triple_false: "(\<And>f j. \<not> P f j) \<Longrightarrow> triple F P m Q E"
  by (simp add: triple_def holds_def)

text \<open>A program whose value or behaviour depends on a fact that the precondition gives.\<close>

lemma triple_fact: "(b \<Longrightarrow> triple F P m Q E) \<Longrightarrow> triple F (\<lambda>f j. b \<and> P f j) m Q E"
  by (cases b) (simp_all add: triple_def holds_def)

lemma triple_ex: "(\<And>x. triple F (P x) m Q E) \<Longrightarrow> triple F (\<lambda>f j. \<exists>x. P x f j) m Q E"
  by (auto simp: triple_def holds_def)

lemma triple_syscall:
  assumes "\<And>w. holds P w \<Longrightarrow> holds (Q ()) (full w)" and "\<And>w. holds P w \<Longrightarrow> holds E (partial w)"
    and "\<And>w. script (full w) = script w" and "\<And>w. script (partial w) = script w"
  shows "triple F P (syscall full partial) Q E"
  unfolding triple_def
proof (intro allI impI)
  fix w
  assume w: "holds P w \<and> set (script w) \<subseteq> F"
  let ?w = "w\<lparr>script := drop 1 (script w)\<rparr>"
  have P: "holds P ?w" and sub: "set (script ?w) \<subseteq> F"
    using w set_drop_subset by (auto simp: holds_def dest: in_set_dropD)
  show "meets F (fst (syscall full partial w)) (snd (syscall full partial w)) Q E"
  proof (cases "script w")
    case (Cons x xs)
    then have "x \<in> F"
      using w by simp
    then show ?thesis
      using assms P sub Cons by (cases x) (simp_all add: syscall_def meets_def Let_def)
  qed (use assms P sub in \<open>simp add: syscall_def meets_def Let_def\<close>)
qed

lemma triple_silent: "(\<And>f j. P f j \<Longrightarrow> Q () f j \<and> E f j) \<Longrightarrow> triple F P (syscall id id) Q E"
  by (rule triple_syscall) (auto simp: holds_def)

lemma triple_mkdir: "(\<And>f j. P f j \<Longrightarrow> Q () f j \<and> E f j) \<Longrightarrow> triple F P make_directory Q E"
  unfolding make_directory_def by (rule triple_silent)

lemma triple_is_file: "triple F P (is_file p) (\<lambda>b f j. P f j \<and> b = (f p \<noteq> None)) E"
  by (simp add: triple_def is_file_def meets_def holds_def content_def)

lemma file_updates [simp]:
  "map_of (data (store_file p b w)) = (map_of (data w))(p \<mapsto> b)" "journal (store_file p b w) = journal w"
  "script (store_file p b w) = script w"
  "map_of (data (remove_file p w)) = (map_of (data w))(p := None)" "journal (remove_file p w) = journal w"
  "script (remove_file p w) = script w"
  by (simp_all add: store_file_def remove_file_def map_of_dict_update delete_conv')

lemma triple_unlink:
  "(\<And>f j. P f j \<Longrightarrow> Q () (f(p := None)) j \<and> E f j) \<Longrightarrow> triple F P (unlink_file p) Q E"
  unfolding unlink_file_def by (rule triple_syscall) (auto simp: holds_def)

lemma triple_move:
  assumes "\<And>f j. P f j \<Longrightarrow> f source = Some b" and "\<And>f j. P f j \<Longrightarrow> Q () (f(source := None, target \<mapsto> b)) j \<and> E f j"
  shows "triple F P (move_file source target) Q E"
proof -
  have "triple F P (syscall (store_file target b \<circ> remove_file source) id) Q E"
    using assms(2) by (intro triple_syscall) (auto simp: holds_def)
  then show ?thesis
    by (rule triple_same_run) (simp add: move_file_def content_def assms(1))
qed

lemma triple_copy:
  assumes "\<And>f j. P f j \<Longrightarrow> f source = Some b"
    and "\<And>f j. P f j \<Longrightarrow> Q () (f(target \<mapsto> b)) j \<and> E (f(target \<mapsto> [])) j"
  shows "triple F P (copyfile source target) Q E"
proof -
  have "triple F P (syscall (store_file target b) (store_file target [])) Q E"
    using assms(2) by (intro triple_syscall) (auto simp: holds_def)
  then show ?thesis
    by (rule triple_same_run) (simp add: copyfile_def content_def assms(1))
qed

lemma triple_hash:
  assumes "\<And>f j. P f j \<Longrightarrow> E f j"
  shows "triple F P (file_content_hash env p)
    (\<lambda>h f j. P f j \<and> h = (case f p of None \<Rightarrow> [] | Some b \<Rightarrow> digest env b)) E"
proof -
  have "triple F (\<lambda>f j. P f j \<and> f p = Some b) (io_bind (syscall id id) (\<lambda>_. io_ret (digest env b)))
      (\<lambda>h f j. P f j \<and> h = (case f p of None \<Rightarrow> [] | Some b \<Rightarrow> digest env b)) E" for b
    by (rule triple_bind [where R = "\<lambda>_ f j. P f j \<and> f p = Some b"], rule triple_silent)
      (auto intro: triple_ret assms)
  then show ?thesis
    by (auto simp: triple_def file_content_hash_def content_def holds_def meets_def split: option.splits)
qed

definition has_hash :: "lt_env \<Rightarrow> (path \<Rightarrow> nat list option) \<Rightarrow> path \<Rightarrow> string \<Rightarrow> bool" where
  "has_hash env f p h \<longleftrightarrow> (\<exists>b. f p = Some b \<and> digest env b = h)"

lemma triple_matches:
  assumes "\<And>f j. P f j \<Longrightarrow> E f j"
  shows "triple F P (file_matches_hash env p h) (\<lambda>b f j. P f j \<and> b = has_hash env f p h) E"
  unfolding file_matches_hash_def
proof (rule triple_bind [OF triple_is_file])
  fix b
  show "triple F (\<lambda>f j. P f j \<and> b = (f p \<noteq> None))
      (if \<not> b then io_ret False else io_bind (file_content_hash env p) (\<lambda>x. io_ret (x = h)))
      (\<lambda>b f j. P f j \<and> b = has_hash env f p h) E"
  proof (rule triple_if)
    assume "\<not> \<not> b"
    then show "triple F (\<lambda>f j. P f j \<and> b = (f p \<noteq> None)) (io_bind (file_content_hash env p) (\<lambda>x. io_ret (x = h)))
        (\<lambda>b f j. P f j \<and> b = has_hash env f p h) E"
      by (intro triple_bind [OF triple_hash] triple_ret) (auto simp: has_hash_def assms split: option.splits)
  qed (auto intro!: triple_ret simp: has_hash_def)
qed

lemma triple_journal:
  "(\<And>f j. P f j \<Longrightarrow> Q () f (write_json payload) \<and> E f j) \<Longrightarrow> triple F P (atomic_write_journal_json payload) Q E"
  unfolding atomic_write_journal_json_def by (rule triple_syscall) (auto simp: holds_def)

section \<open>The invariant of a transaction\<close>

definition own_path :: "lt_env \<Rightarrow> path \<Rightarrow> bool" where
  "own_path env p \<longleftrightarrow> clean_path p \<and> take (length (data_root env)) p = data_root env \<and> butlast p \<noteq> journal_dir env"

definition dir_path :: "lt_env \<Rightarrow> path \<Rightarrow> bool" where
  "dir_path env p \<longleftrightarrow> clean_path p \<and> butlast p = journal_dir env"

text \<open>
  A well-formed migration: the journal directory lies below the data root, targets and staged files
  are different files below it and outside that directory, and the staged files exist.
\<close>

definition migration_wf :: "lt_env \<Rightarrow> (path \<times> path) list \<Rightarrow> (path \<Rightarrow> nat list option) \<Rightarrow> bool" where
  "migration_wf env reps f0 \<longleftrightarrow>
     clean_path (journal_dir env) \<and> take (length (data_root env)) (journal_dir env) = data_root env
     \<and> length (data_root env) < length (journal_dir env) \<and> (\<forall>ps. set (listing env ps) = set ps)
     \<and> distinct (map fst reps) \<and> distinct (map snd reps) \<and> fst ` set reps \<inter> snd ` set reps = {}
     \<and> (\<forall>(t, s)\<in>set reps. own_path env t \<and> own_path env s \<and> f0 s \<noteq> None)"

definition new_at :: "lt_env \<Rightarrow> (path \<Rightarrow> nat list option) \<Rightarrow> (path \<Rightarrow> nat list option) \<Rightarrow> path \<times> path \<Rightarrow> bool" where
  "new_at env f0 f ts \<longleftrightarrow> has_hash env f (fst ts) (digest env (the (f0 (snd ts))))"

definition clean_files :: "(path \<Rightarrow> nat list option) \<Rightarrow> bool" where
  "clean_files f \<longleftrightarrow> (\<forall>p. f p \<noteq> None \<longrightarrow> clean_path p)"

text \<open>Every target is new or can still be made new; those of \<open>K\<close> are new.\<close>

definition mixed ::
  "lt_env \<Rightarrow> (path \<times> path) list \<Rightarrow> (path \<Rightarrow> nat list option) \<Rightarrow> (path \<times> path) set \<Rightarrow> (path \<Rightarrow> nat list option) \<Rightarrow> bool" where
  "mixed env reps f0 K f \<longleftrightarrow> clean_files f
     \<and> (\<forall>ts\<in>set reps. new_at env f0 f ts \<or> f (snd ts) = f0 (snd ts)) \<and> (\<forall>ts\<in>K. new_at env f0 f ts)"

definition entry_for :: "lt_env \<Rightarrow> (path \<Rightarrow> nat list option) \<Rightarrow> path \<times> path \<Rightarrow> transaction_entry \<Rightarrow> bool" where
  "entry_for env f0 ts e \<longleftrightarrow> entry_target e = fst ts \<and> entry_staged e = snd ts
     \<and> entry_staged_hash e = digest env (the (f0 (snd ts)))
     \<and> (case entry_backup e of None \<Rightarrow> True | Some b \<Rightarrow> dir_path env b)"

definition journaled ::
  "lt_env \<Rightarrow> string \<Rightarrow> (path \<times> path) list \<Rightarrow> (path \<Rightarrow> nat list option) \<Rightarrow> text_file \<Rightarrow> bool" where
  "journaled env stem reps f0 j \<longleftrightarrow>
     (\<exists>phase entries extra. j = write_json (journal_json stem phase entries extra)
        \<and> fst ` set extra \<subseteq> {''interrupted_at_index''} \<and> list_all2 (entry_for env f0) reps entries)"

lemma clean_root: "migration_wf env reps f0 \<Longrightarrow> list_all clean_component (data_root env)"
  by (metis migration_wf_def clean_path_def append_take_drop_id list_all_append)

lemma ensure_within:
  assumes "migration_wf env reps f0" and "list_all clean_component p" and "take (length (data_root env)) p = data_root env"
  shows "ensure_recovery_path_within_root env p = io_ret ()"
  using assms clean_root [OF assms(1)] by (simp add: ensure_recovery_path_within_root_def resolve_clean)

lemma ensure_own [simp]:
  "migration_wf env reps f0 \<Longrightarrow> own_path env p \<Longrightarrow> ensure_recovery_path_within_root env p = io_ret ()"
  by (rule ensure_within) (auto simp: own_path_def clean_path_def)

lemma dir_path_below:
  assumes "migration_wf env reps f0" and "dir_path env p"
  shows "take (length (data_root env)) p = data_root env"
proof -
  have "p = journal_dir env @ [last p]"
    using assms(2) by (metis dir_path_def clean_path_def append_butlast_last_id)
  then show ?thesis
    using assms(1) by (metis migration_wf_def less_imp_le take_append append_Nil2 diff_is_0_eq take0)
qed

lemma ensure_dir [simp]:
  "migration_wf env reps f0 \<Longrightarrow> dir_path env p \<Longrightarrow> ensure_recovery_path_within_root env p = io_ret ()"
  using dir_path_below by (intro ensure_within) (auto simp: dir_path_def clean_path_def)

lemma ensure_journal_dir [simp]:
  "migration_wf env reps f0 \<Longrightarrow> ensure_recovery_path_within_root env (journal_dir env) = io_ret ()"
  by (rule ensure_within) (auto simp: migration_wf_def clean_path_def)

lemma dir_path_snoc: "migration_wf env reps f0 \<Longrightarrow> clean_component x \<Longrightarrow> dir_path env (journal_dir env @ [x])"
  by (simp add: dir_path_def migration_wf_def clean_path_def)

lemma dir_path_journal: "migration_wf env reps f0 \<Longrightarrow> dir_path env (journal_path env)"
  unfolding journal_path_def by (rule dir_path_snoc) (simp_all add: clean_component_def)

lemma ensure_journal [simp]:
  "migration_wf env reps f0 \<Longrightarrow> ensure_recovery_path_within_root env (journal_path env) = io_ret ()"
  by (rule ensure_dir [OF _ dir_path_journal])

lemma ensure_no_symlinks [simp]:
  assumes "migration_wf env reps f0"
  shows "ensure_journal_directory_has_no_symlinks env = io_ret ()"
  using assms clean_root [OF assms]
  by (simp add: ensure_journal_directory_has_no_symlinks_def Let_def migration_wf_def clean_path_def resolve_clean)

lemma own_not_dir: "own_path env p \<Longrightarrow> dir_path env q \<Longrightarrow> p \<noteq> q"
  by (auto simp: own_path_def dir_path_def)

lemma wf_member:
  "migration_wf env reps f0 \<Longrightarrow> ts \<in> set reps \<Longrightarrow>
     own_path env (fst ts) \<and> own_path env (snd ts) \<and> f0 (snd ts) \<noteq> None"
  unfolding migration_wf_def by (elim conjE, drule (1) bspec) (simp add: split_beta)

text \<open>Targets and staged files of different replacements are different files.\<close>

lemma wf_apart:
  assumes "migration_wf env reps f0" and "ts \<in> set reps" and "us \<in> set reps"
  shows "fst ts \<noteq> snd us" and "ts \<noteq> us \<Longrightarrow> fst ts \<noteq> fst us \<and> snd ts \<noteq> snd us"
proof -
  have d: "distinct (map fst reps)" "distinct (map snd reps)" "fst ` set reps \<inter> snd ` set reps = {}"
    using assms(1) by (simp_all add: migration_wf_def)
  show "fst ts \<noteq> snd us"
    using d(3) assms(2,3) by force
  show "fst ts \<noteq> fst us \<and> snd ts \<noteq> snd us" if "ts \<noteq> us"
    using d(1,2) assms(2,3) that by (auto simp: distinct_map inj_on_def)
qed

text \<open>Files of the journal directory do not matter.\<close>

lemma mixed_dir_file:
  assumes "migration_wf env reps f0" and "K \<subseteq> set reps" and "mixed env reps f0 K f" and "dir_path env p"
  shows "mixed env reps f0 K (f(p := b))"
proof -
  have other: "(f(p := b)) (fst ts) = f (fst ts)" "(f(p := b)) (snd ts) = f (snd ts)" if "ts \<in> set reps" for ts
    using wf_member [OF assms(1) that] own_not_dir [OF _ assms(4)] by auto
  then have "new_at env f0 (f(p := b)) ts = new_at env f0 f ts" if "ts \<in> set reps" for ts
    using that by (simp add: new_at_def has_hash_def)
  then show ?thesis
    using assms(2-4) other by (auto simp: mixed_def clean_files_def dir_path_def)
qed

text \<open>Moving a staged file that is still there makes its target new and leaves the others alone.\<close>

lemma mixed_move:
  assumes wf: "migration_wf env reps f0" and K: "K \<subseteq> set reps" and inv: "mixed env reps f0 K f" and ts: "ts \<in> set reps"
    and b: "f0 (snd ts) = Some b"
  shows "mixed env reps f0 (insert ts K) (f(snd ts := None, fst ts \<mapsto> b))"
proof -
  define g where "g = f(snd ts := None, fst ts \<mapsto> b)"
  have mine: "new_at env f0 g ts"
    using b by (simp add: g_def new_at_def has_hash_def)
  have others: "g (fst us) = f (fst us)" "g (snd us) = f (snd us)" if "us \<in> set reps" "us \<noteq> ts" for us
    using wf_apart [OF wf ts that(1)] wf_apart [OF wf that(1) ts] that(2) by (auto simp: g_def)
  have same: "new_at env f0 g us = new_at env f0 f us" if "us \<in> set reps" "us \<noteq> ts" for us
    using others [OF that] by (simp add: new_at_def has_hash_def)
  have "clean_files g"
    using inv wf_member [OF wf ts] by (auto simp: g_def mixed_def clean_files_def own_path_def)
  moreover have "new_at env f0 g us \<or> g (snd us) = f0 (snd us)" if "us \<in> set reps" for us
    using mine same [OF that] others(2) [OF that] inv that by (cases "us = ts") (auto simp: mixed_def)
  moreover have "new_at env f0 g us" if "us \<in> insert ts K" for us
    using mine same [of us] inv that K by (cases "us = ts") (auto simp: mixed_def)
  ultimately show ?thesis
    by (simp add: mixed_def g_def)
qed

section \<open>Applying and recovering one entry\<close>

lemma staged_available:
  assumes "migration_wf env reps f0" and "mixed env reps f0 K f" and "ts \<in> set reps" and "\<not> new_at env f0 f ts"
  shows "f (snd ts) = f0 (snd ts) \<and> f0 (snd ts) = Some (the (f0 (snd ts)))"
  using assms wf_member [OF assms(1,3)] by (auto simp: mixed_def)

lemma mixed_mono: "L \<subseteq> K \<Longrightarrow> mixed env reps f0 K f \<Longrightarrow> mixed env reps f0 L f"
  by (auto simp: mixed_def)

lemma mixed_new: "mixed env reps f0 K f \<Longrightarrow> ts \<in> K \<Longrightarrow> \<exists>b. f (fst ts) = Some b \<and> digest env b = digest env (the (f0 (snd ts)))"
  by (auto simp: mixed_def new_at_def has_hash_def)

lemma triple_verify_new:
  assumes "ts \<in> K" and "h = digest env (the (f0 (snd ts)))"
  shows "triple F (\<lambda>f j. J j \<and> mixed env reps f0 K f)
    (io_bind (file_content_hash env (fst ts)) (\<lambda>x. io_guard (x = h) e))
    (\<lambda>_ f j. J j \<and> mixed env reps f0 K f) (\<lambda>f j. J j \<and> mixed env reps f0 K f)"
proof (rule triple_bind [OF triple_hash])
  fix x
  show "triple F (\<lambda>f j. (J j \<and> mixed env reps f0 K f) \<and> x = (case f (fst ts) of None \<Rightarrow> [] | Some b \<Rightarrow> digest env b))
      (io_guard (x = h) e) (\<lambda>_ f j. J j \<and> mixed env reps f0 K f) (\<lambda>f j. J j \<and> mixed env reps f0 K f)"
  proof (cases "x = h")
    case False
    have "\<not> ((J j \<and> mixed env reps f0 K f) \<and> x = (case f (fst ts) of None \<Rightarrow> [] | Some b \<Rightarrow> digest env b))" for f j
      using False assms mixed_new [of env reps f0 K f ts] by auto
    then show ?thesis
      by (rule triple_false)
  qed (auto intro: triple_ret)
qed simp

text \<open>
  The part that applying and recovering an entry share: nothing to do when the target is new, and
  otherwise a preparation that keeps the invariant followed by the move.
\<close>

lemma triple_install:
  fixes prep :: "unit io"
  assumes wf: "migration_wf env reps f0" and K: "K \<subseteq> set reps" and ts: "ts \<in> set reps"
    and h: "h = digest env (the (f0 (snd ts)))"
    and prep: "triple F (\<lambda>f j. J j \<and> mixed env reps f0 K f \<and> \<not> new_at env f0 f ts) prep
        (\<lambda>_ f j. J j \<and> mixed env reps f0 K f \<and> \<not> new_at env f0 f ts) (\<lambda>f j. J j \<and> mixed env reps f0 K f)"
  shows "triple F (\<lambda>f j. J j \<and> mixed env reps f0 K f)
     (io_bind (file_matches_hash env (fst ts) h) (\<lambda>present.
        if present then io_ret ()
        else
          io_bind (file_matches_hash env (snd ts) h) (\<lambda>available.
          io_bind (io_guard available e1) (\<lambda>_.
          io_bind prep (\<lambda>_.
          io_bind (move_file (snd ts) (fst ts)) (\<lambda>_.
          io_bind (file_content_hash env (fst ts)) (\<lambda>x. io_guard (x = h) e2)))))))
     (\<lambda>_ f j. J j \<and> mixed env reps f0 (insert ts K) f) (\<lambda>f j. J j \<and> mixed env reps f0 K f)"
    (is "triple F ?P _ ?Q ?P")
proof (rule triple_bind [OF triple_matches])
  let ?b = "the (f0 (snd ts))"
  have new: "has_hash env f (fst ts) h \<longleftrightarrow> new_at env f0 f ts" for f
    by (simp add: new_at_def h)
  have weaken: "mixed env reps f0 (insert ts K) f \<Longrightarrow> mixed env reps f0 K f" for f
    by (simp add: mixed_def)
  let ?R = "\<lambda>f j. J j \<and> mixed env reps f0 K f \<and> \<not> new_at env f0 f ts"
  have last: "triple F (\<lambda>f j. J j \<and> mixed env reps f0 (insert ts K) f)
      (io_bind (file_content_hash env (fst ts)) (\<lambda>x. io_guard (x = h) e2)) ?Q ?P"
    by (rule triple_conseq [OF triple_verify_new [where K = "insert ts K" and ts = ts]]) (auto simp: h intro: weaken)
  have move: "triple F ?R (move_file (snd ts) (fst ts)) (\<lambda>_ f j. J j \<and> mixed env reps f0 (insert ts K) f) ?P"
  proof (rule triple_move [where b = ?b])
    fix f j
    assume R: "?R f j"
    then show "f (snd ts) = Some ?b"
      using staged_available [OF wf _ ts] by metis
    show "(J j \<and> mixed env reps f0 (insert ts K) (f(snd ts := None, fst ts \<mapsto> ?b))) \<and> ?P f j"
      using R mixed_move [OF wf K _ ts, of f ?b] wf_member [OF wf ts] by auto
  qed
  fix present
  show "triple F (\<lambda>f j. ?P f j \<and> present = has_hash env f (fst ts) h)
     (if present then io_ret () else
        io_bind (file_matches_hash env (snd ts) h) (\<lambda>available.
        io_bind (io_guard available e1) (\<lambda>_.
        io_bind prep (\<lambda>_.
        io_bind (move_file (snd ts) (fst ts)) (\<lambda>_.
        io_bind (file_content_hash env (fst ts)) (\<lambda>x. io_guard (x = h) e2)))))) ?Q ?P"
  proof (rule triple_if)
    assume present
    then show "triple F (\<lambda>f j. ?P f j \<and> present = has_hash env f (fst ts) h) (io_ret ()) ?Q ?P"
      by (auto intro!: triple_ret simp: new mixed_def)
  next
    assume "\<not> present"
    have rest: "triple F (\<lambda>f j. ?R f j \<and> available = has_hash env f (snd ts) h)
        (io_bind (io_guard available e1) (\<lambda>_. io_bind prep (\<lambda>_. io_bind (move_file (snd ts) (fst ts)) (\<lambda>_.
          io_bind (file_content_hash env (fst ts)) (\<lambda>x. io_guard (x = h) e2))))) ?Q ?P" for available
    proof (cases available)
      case True
      show ?thesis
        by (rule triple_pre [of F ?R]) (auto simp: True intro!: triple_bind [OF prep] triple_bind [OF move] last)
    next
      case False
      have "\<not> (?R f j \<and> available = has_hash env f (snd ts) h)" for f j
        using False staged_available [OF wf _ ts, of K f] by (auto simp: has_hash_def h)
      then show ?thesis
        by (rule triple_false)
    qed
    show "triple F (\<lambda>f j. ?P f j \<and> present = has_hash env f (fst ts) h)
        (io_bind (file_matches_hash env (snd ts) h) (\<lambda>available.
         io_bind (io_guard available e1) (\<lambda>_. io_bind prep (\<lambda>_. io_bind (move_file (snd ts) (fst ts)) (\<lambda>_.
          io_bind (file_content_hash env (fst ts)) (\<lambda>x. io_guard (x = h) e2)))))) ?Q ?P"
      by (rule triple_pre [of F ?R], rule triple_bind [OF triple_matches rest]) (use \<open>\<not> present\<close> in \<open>auto simp: new\<close>)
  qed
qed simp

lemma triple_apply_single:
  assumes "migration_wf env reps f0" and "K \<subseteq> set reps" and "ts \<in> set reps" and "entry_for env f0 ts e"
  shows "triple F (\<lambda>f j. J j \<and> mixed env reps f0 K f) (apply_single env e)
    (\<lambda>_ f j. J j \<and> mixed env reps f0 (insert ts K) f) (\<lambda>f j. J j \<and> mixed env reps f0 K f)"
proof -
  have e: "entry_target e = fst ts" "entry_staged e = snd ts" "entry_staged_hash e = digest env (the (f0 (snd ts)))"
    using assms(4) by (simp_all add: entry_for_def)
  show ?thesis
    unfolding apply_single_def e
    by (rule triple_install [OF assms(1-3) refl]) (rule triple_mkdir, simp)
qed

lemma apply_entries_meets:
  assumes "migration_wf env reps f0" and "list_all2 (entry_for env f0) us es" and "set us \<subseteq> set reps" and "K \<subseteq> set reps"
    and "holds (\<lambda>f j. J j \<and> mixed env reps f0 K f) w" and "set (script w) \<subseteq> F"
    and "apply_entries env None i es w = ((r, w'), n)"
  shows "meets F r w' (\<lambda>_ f j. J j \<and> mixed env reps f0 (K \<union> set us) f) (\<lambda>f j. J j \<and> mixed env reps f0 {} f)"
  using assms(2-7)
proof (induction us es arbitrary: K w i rule: list_all2_induct)
  case Nil
  then show ?case
    by (auto simp: meets_def)
next
  case (Cons ts us e es)
  let ?P = "\<lambda>K f j. J j \<and> mixed env reps f0 K f"
  let ?step = "io_bind (apply_single env e) (\<lambda>_. io_bind (io_ret ()) (\<lambda>_.
      io_bind (file_content_hash env (entry_target e)) (\<lambda>h.
        io_guard (h = entry_staged_hash e) (RuntimeError ''Link migration post-hook hash mismatch''))))"
  have ts: "ts \<in> set reps" and sub: "set us \<subseteq> set reps" "insert ts K \<subseteq> set reps"
    using Cons.prems by auto
  have e: "entry_target e = fst ts" "entry_staged_hash e = digest env (the (f0 (snd ts)))"
    using Cons.hyps(1) by (simp_all add: entry_for_def)
  have none: "mixed env reps f0 L f \<Longrightarrow> mixed env reps f0 {} f" for L f
    by (rule mixed_mono) simp
  have applied: "triple F (?P K) (apply_single env e) (\<lambda>_. ?P (insert ts K)) (?P {})"
    by (rule triple_conseq [OF triple_apply_single [OF assms(1) Cons.prems(2) ts Cons.hyps(1)]]) (auto intro: none)
  have verify: "triple F (?P (insert ts K)) (io_bind (file_content_hash env (entry_target e)) (\<lambda>h.
        io_guard (h = entry_staged_hash e) x)) (\<lambda>_. ?P (insert ts K)) (?P {})" for x
    unfolding e by (rule triple_conseq [OF triple_verify_new [where K = "insert ts K" and ts = ts]]) (auto intro: none)
  have "triple F (?P K) ?step (\<lambda>_. ?P (insert ts K)) (?P {})"
    unfolding io_bind_ret by (rule triple_bind [OF applied verify])
  moreover obtain r1 w1 where step: "?step w = (r1, w1)"
    by (cases "?step w")
  ultimately have one: "meets F r1 w1 (\<lambda>_. ?P (insert ts K)) (?P {})"
    using tripleD Cons.prems(3,4) by blast
  show ?case
  proof (cases r1)
    case (Ok a)
    then have "apply_entries env None (Suc i) es w1 = ((r, w'), n)"
      using Cons.prems(5) step by simp
    then show ?thesis
      using Cons.IH [OF sub(1) sub(2), of w1 "Suc i"] one Ok by (simp add: meets_def)
  qed (use Cons.prems(5) step one in \<open>auto simp: meets_def\<close>)
qed

section \<open>Recovering an entry\<close>

lemma io_bind_assoc: "io_bind (io_bind m f) g = io_bind m (\<lambda>x. io_bind (f x) g)"
  by (simp add: fun_eq_iff io_bind_def split: prod.splits outcome.splits)

definition entry_dict :: "transaction_entry \<Rightarrow> (string, json) dict" where
  "entry_dict e = (case jsort (entry_json e) of JObj d \<Rightarrow> d | _ \<Rightarrow> [])"

lemma jsort_entry: "jsort (entry_json e) = JObj (entry_dict e)"
  by (simp add: entry_dict_def entry_json_def)

lemma entry_dict_lookup:
  "map_of (entry_dict e) ''target'' = Some (JStr (path_str (entry_target e)))"
  "map_of (entry_dict e) ''staged'' = Some (JStr (path_str (entry_staged e)))"
  "map_of (entry_dict e) ''backup'' = Some (JStr (case entry_backup e of None \<Rightarrow> [] | Some p \<Rightarrow> path_str p))"
  "map_of (entry_dict e) ''existed'' = Some (JBool (entry_existed e))"
  "map_of (entry_dict e) ''staged_hash'' = Some (JStr (entry_staged_hash e))"
  unfolding entry_dict_def entry_json_def jsort.simps json.case map_of_jsort_entries by simp_all

lemma path_str_nonempty [simp]: "path_str p \<noteq> []"
  by (simp add: path_str_def)

lemma required_path:
  assumes "map_of d name = Some (JStr (path_str p))" and "clean_path p" and "ensure_recovery_path_within_root env p = io_ret ()"
  shows "required_recovery_path env d name = io_ret p"
  using assms by (simp add: required_recovery_path_def path_of_str)

lemma entry_paths:
  assumes "migration_wf env reps f0" and "ts \<in> set reps" and "entry_for env f0 ts e"
  shows "required_recovery_path env (entry_dict e) ''target'' = io_ret (fst ts)"
    and "required_recovery_path env (entry_dict e) ''staged'' = io_ret (snd ts)"
    and "validate_recovery_path env (entry_dict e) ''backup'' = io_ret (entry_backup e)"
proof -
  have own: "own_path env (fst ts)" "own_path env (snd ts)"
    using wf_member [OF assms(1,2)] by simp_all
  have e: "entry_target e = fst ts" "entry_staged e = snd ts" "entry_backup e = Some b \<Longrightarrow> dir_path env b" for b
    using assms(3) by (auto simp: entry_for_def)
  show "required_recovery_path env (entry_dict e) ''target'' = io_ret (fst ts)"
    using own(1) assms(1) by (intro required_path) (auto simp: entry_dict_lookup e own_path_def)
  show "required_recovery_path env (entry_dict e) ''staged'' = io_ret (snd ts)"
    using own(2) assms(1) by (intro required_path) (auto simp: entry_dict_lookup e own_path_def)
  show "validate_recovery_path env (entry_dict e) ''backup'' = io_ret (entry_backup e)"
  proof (cases "entry_backup e")
    case None
    then show ?thesis
      by (simp add: validate_recovery_path_def dict_get_def entry_dict_lookup json_falsy_def)
  next
    case (Some b)
    then have "required_recovery_path env (entry_dict e) ''backup'' = io_ret b"
      using e(3) assms(1) by (intro required_path) (auto simp: entry_dict_lookup dir_path_def)
    then show ?thesis
      using Some by (simp add: validate_recovery_path_def dict_get_def entry_dict_lookup json_falsy_def)
  qed
qed

lemma triple_remove_backup:
  assumes wf: "migration_wf env reps f0" and K: "K \<subseteq> set reps" and ts: "ts \<in> set reps" and e: "entry_for env f0 ts e"
  shows "triple F (\<lambda>f j. J j \<and> mixed env reps f0 K f \<and> \<not> new_at env f0 f ts) (remove_recovery_backup env (entry_dict e))
    (\<lambda>_ f j. J j \<and> mixed env reps f0 K f \<and> \<not> new_at env f0 f ts) (\<lambda>f j. J j \<and> mixed env reps f0 K f)"
    (is "triple F ?P _ _ ?E")
proof -
  have existed: "dict_item (entry_dict e) ''existed'' = Inr (JBool (entry_existed e))"
    by (simp add: dict_item_def entry_dict_lookup)
  have old: "new_at env f0 (f(b := None)) ts = new_at env f0 f ts" if "dir_path env b" for b f
    using own_not_dir [OF _ that] wf_member [OF wf ts] by (simp add: new_at_def has_hash_def)
  show ?thesis
  proof (cases "entry_backup e")
    case None
    then show ?thesis
      unfolding remove_recovery_backup_def entry_paths(3) [OF wf ts e] existed io_bind_ret
      by (auto simp: io_of_res_def intro: triple_ret)
  next
    case (Some b)
    then have b: "dir_path env b"
      using e by (simp add: entry_for_def)
    have unlink: "triple F P' (unlink_file b) (\<lambda>_. ?P) ?E" if "\<And>f j. P' f j \<Longrightarrow> ?P f j" for P'
      using mixed_dir_file [OF wf K _ b] old [OF b] that by (intro triple_unlink) blast
    have "triple F ?P (io_bind (is_file b) (\<lambda>exists. if \<not> exists then io_ret () else unlink_file b)) (\<lambda>_. ?P) ?E"
    proof (rule triple_bind [OF triple_is_file], rule triple_if)
      fix exists
      show "triple F (\<lambda>f j. ?P f j \<and> exists = (f b \<noteq> None)) (io_ret ()) (\<lambda>_. ?P) ?E"
        by (rule triple_ret) simp
      show "triple F (\<lambda>f j. ?P f j \<and> exists = (f b \<noteq> None)) (unlink_file b) (\<lambda>_. ?P) ?E"
        by (rule unlink) simp
    qed
    then show ?thesis
      unfolding remove_recovery_backup_def entry_paths(3) [OF wf ts e] existed io_bind_ret Some option.case
        ensure_dir [OF wf b] io_of_res_def sum.case
      by (auto intro: triple_ret)
  qed
qed

lemma triple_recover_entry:
  assumes wf: "migration_wf env reps f0" and K: "K \<subseteq> set reps" and ts: "ts \<in> set reps" and e: "entry_for env f0 ts e"
  shows "triple F (\<lambda>f j. J j \<and> mixed env reps f0 K f) (recover_entry env (jsort (entry_json e)))
    (\<lambda>_ f j. J j \<and> mixed env reps f0 (insert ts K) f) (\<lambda>f j. J j \<and> mixed env reps f0 K f)"
proof -
  have hash: "dict_item (entry_dict e) ''staged_hash'' = Inr (JStr (digest env (the (f0 (snd ts)))))"
    using e by (simp add: dict_item_def entry_dict_lookup entry_for_def)
  have own: "own_path env (fst ts)" "own_path env (snd ts)"
    using wf_member [OF wf ts] by simp_all
  have target: "prepare_recovery_target env (entry_dict e) (fst ts) (snd ts) =
      io_bind make_directory (\<lambda>_. io_bind (remove_recovery_backup env (entry_dict e)) (\<lambda>_. move_file (snd ts) (fst ts)))"
    using wf own by (simp add: prepare_recovery_target_def move_recovery_staged_def)
  have prep: "triple F (\<lambda>f j. J j \<and> mixed env reps f0 K f \<and> \<not> new_at env f0 f ts)
      (io_bind make_directory (\<lambda>_. remove_recovery_backup env (entry_dict e)))
      (\<lambda>_ f j. J j \<and> mixed env reps f0 K f \<and> \<not> new_at env f0 f ts) (\<lambda>f j. J j \<and> mixed env reps f0 K f)"
    by (rule triple_bind [OF triple_mkdir triple_remove_backup [OF assms]]) simp
  let ?h = "digest env (the (f0 (snd ts)))"
  have "recover_entry env (jsort (entry_json e)) =
      io_bind (file_matches_hash env (fst ts) ?h) (\<lambda>present.
        if present then io_ret ()
        else
          io_bind (file_matches_hash env (snd ts) ?h) (\<lambda>available.
          io_bind (io_guard available (RuntimeError ''Link migration recovery: staged file unavailable'')) (\<lambda>_.
          io_bind (io_bind make_directory (\<lambda>_. remove_recovery_backup env (entry_dict e))) (\<lambda>_.
          io_bind (move_file (snd ts) (fst ts)) (\<lambda>_.
          io_bind (file_content_hash env (fst ts)) (\<lambda>x.
            io_guard (x = ?h) (RuntimeError ''Link migration recovery verification failed'')))))))"
    unfolding recover_entry_def jsort_entry json.case entry_paths(1,2) [OF wf ts e] io_bind_ret hash io_of_res_def
      sum.case Let_def staged_hash_text_def target io_bind_assoc ..
  then show ?thesis
    using triple_install [OF wf K ts refl prep] by simp
qed

lemma triple_recover_entries:
  assumes "migration_wf env reps f0"
  shows "list_all2 (entry_for env f0) us es \<Longrightarrow> set us \<subseteq> set reps \<Longrightarrow> K \<subseteq> set reps \<Longrightarrow>
    triple F (\<lambda>f j. J j \<and> mixed env reps f0 K f) (io_each (recover_entry env) (map (\<lambda>e. jsort (entry_json e)) es))
      (\<lambda>_ f j. J j \<and> mixed env reps f0 (K \<union> set us) f) (\<lambda>f j. J j \<and> mixed env reps f0 {} f)"
proof (induction us es arbitrary: K rule: list_all2_induct)
  case Nil
  then show ?case
    by (auto intro: triple_ret)
next
  case (Cons ts us e es)
  have ts: "ts \<in> set reps"
    using Cons.prems by simp
  have "triple F (\<lambda>f j. J j \<and> mixed env reps f0 K f) (recover_entry env (jsort (entry_json e)))
      (\<lambda>_ f j. J j \<and> mixed env reps f0 (insert ts K) f) (\<lambda>f j. J j \<and> mixed env reps f0 {} f)"
    by (rule triple_conseq [OF triple_recover_entry [OF assms Cons.prems(2) ts Cons.hyps(1)]]) (auto elim: mixed_mono [rotated])
  moreover have "triple F (\<lambda>f j. J j \<and> mixed env reps f0 (insert ts K) f) (io_each (recover_entry env) (map (\<lambda>e. jsort (entry_json e)) es))
      (\<lambda>_ f j. J j \<and> mixed env reps f0 (K \<union> set (ts # us)) f) (\<lambda>f j. J j \<and> mixed env reps f0 {} f)"
    using Cons.IH [of "insert ts K"] Cons.prems by simp
  ultimately show ?case
    by (simp add: triple_bind)
qed

section \<open>Recovery\<close>

lemma triple_cleanup_entries:
  assumes wf: "migration_wf env reps f0"
  shows "\<forall>p\<in>set ps. dir_path env p \<Longrightarrow>
    triple F (\<lambda>f j. mixed env reps f0 (set reps) f \<and> (j = Absent \<or> J j \<and> journal_path env \<in> set ps))
      (io_each (cleanup_entry env) ps)
      (\<lambda>_ f j. mixed env reps f0 (set reps) f \<and> j = Absent) (\<lambda>f j. mixed env reps f0 (set reps) f \<and> (j = Absent \<or> J j))"
proof (induction ps)
  case Nil
  then show ?case
    by (auto intro: triple_ret)
next
  case (Cons p ps)
  let ?N = "mixed env reps f0 (set reps)"
  have p: "dir_path env p"
    using Cons.prems by simp
  have entry: "cleanup_entry env p = (if p = journal_path env then syscall (\<lambda>w. w\<lparr>journal := Absent\<rparr>) id else unlink_file p)"
    using wf p by (simp add: cleanup_entry_def)
  have "triple F (\<lambda>f j. ?N f \<and> (j = Absent \<or> J j \<and> journal_path env \<in> set (p # ps))) (cleanup_entry env p)
      (\<lambda>_ f j. ?N f \<and> (j = Absent \<or> J j \<and> journal_path env \<in> set ps)) (\<lambda>f j. ?N f \<and> (j = Absent \<or> J j))"
    unfolding entry
  proof (rule triple_if)
    show "triple F (\<lambda>f j. ?N f \<and> (j = Absent \<or> J j \<and> journal_path env \<in> set (p # ps))) (syscall (\<lambda>w. w\<lparr>journal := Absent\<rparr>) id)
        (\<lambda>_ f j. ?N f \<and> (j = Absent \<or> J j \<and> journal_path env \<in> set ps)) (\<lambda>f j. ?N f \<and> (j = Absent \<or> J j))"
      by (rule triple_syscall) (auto simp: holds_def)
    assume "p \<noteq> journal_path env"
    then show "triple F (\<lambda>f j. ?N f \<and> (j = Absent \<or> J j \<and> journal_path env \<in> set (p # ps))) (unlink_file p)
        (\<lambda>_ f j. ?N f \<and> (j = Absent \<or> J j \<and> journal_path env \<in> set ps)) (\<lambda>f j. ?N f \<and> (j = Absent \<or> J j))"
      using mixed_dir_file [OF wf subset_refl _ p, of _ None] by (intro triple_unlink) auto
  qed
  then show ?case
    using Cons by (simp add: triple_bind)
qed

lemma triple_listing:
  assumes "migration_wf env reps f0"
  shows "triple F (\<lambda>f j. mixed env reps f0 K f \<and> J j) (\<lambda>w. (Ok (directory_files env w), w))
    (\<lambda>ps f j. (\<forall>p\<in>set ps. dir_path env p) \<and> mixed env reps f0 K f \<and> (j = Absent \<or> J j \<and> journal_path env \<in> set ps)) E"
proof -
  have l: "set (listing env ps) = set ps" for ps
    using assms by (simp add: migration_wf_def)
  have "dir_path env p" if "mixed env reps f0 K (map_of (data w))" "p \<in> set (directory_files env w)" for p w
  proof -
    have "p = journal_path env \<or> p \<in> fst ` set (data w) \<and> butlast p = journal_dir env"
      using that(2) by (simp add: directory_files_def l split: if_splits) blast+
    then consider "p = journal_path env" | "p \<in> fst ` set (data w)" "butlast p = journal_dir env"
      by blast
    then show ?thesis
    proof cases
      case 2
      then have "map_of (data w) p \<noteq> None"
        by (simp add: map_of_eq_None_iff)
      then show ?thesis
        using that(1) 2(2) by (auto simp: mixed_def clean_files_def dir_path_def)
    qed (simp add: dir_path_journal [OF assms])
  qed
  moreover have "journal_path env \<in> set (directory_files env w)" if "journal w \<noteq> Absent" for w
    using that by (simp add: directory_files_def l)
  ultimately show ?thesis
    by (auto simp: triple_def holds_def meets_def)
qed

lemma triple_cleanup:
  assumes wf: "migration_wf env reps f0"
  shows "triple F (\<lambda>f j. mixed env reps f0 (set reps) f \<and> J j) (cleanup env)
    (\<lambda>_ f j. mixed env reps f0 (set reps) f \<and> j = Absent) (\<lambda>f j. mixed env reps f0 (set reps) f \<and> (j = Absent \<or> J j))"
proof -
  have "cleanup env = io_bind (\<lambda>w. (Ok (directory_files env w), w)) (io_each (cleanup_entry env))"
    using wf by (simp add: cleanup_def)
  then show ?thesis
    by (simp only:) (rule triple_bind [OF triple_listing [OF wf] triple_fact], rule triple_cleanup_entries [OF wf])
qed

lemma io_each_ret: "\<forall>x\<in>set xs. f x = io_ret () \<Longrightarrow> io_each f xs = io_ret ()"
  by (induction xs) simp_all

lemma validate_stored:
  assumes "migration_wf env reps f0" and "ts \<in> set reps" and "entry_for env f0 ts e"
  shows "validate_recovery_entry env (jsort (entry_json e)) = io_ret ()"
proof -
  have "validate_recovery_path env (entry_dict e) ''target'' = io_ret (Some (fst ts))"
    "validate_recovery_path env (entry_dict e) ''staged'' = io_ret (Some (snd ts))"
    unfolding validate_recovery_path_def entry_paths(1,2) [OF assms] by simp_all
  then show ?thesis
    unfolding validate_recovery_entry_def jsort_entry json.case using entry_paths(3) [OF assms] by simp
qed

text \<open>On a directory with the journal of a transaction, recovery replays its entries.\<close>

lemma recover_replays:
  assumes wf: "migration_wf env reps f0" and es: "list_all2 (entry_for env f0) reps es"
    and j: "journal w = write_json (journal_json stem phase es extra)"
  shows "recover_directory env stem w =
    io_bind (io_each (recover_entry env) (map (\<lambda>e. jsort (entry_json e)) es)) (\<lambda>_. cleanup env) w"
proof -
  let ?es = "map (\<lambda>e. jsort (entry_json e)) es"
  obtain d where d: "jsort (journal_json stem phase es extra) = JObj d"
      and look: "map_of d ''contract_version'' = Some (JStr TRANSACTION_VERSION)" "map_of d ''stem'' = Some (JStr stem)"
        "map_of d ''entries'' = Some (JList ?es)"
    unfolding journal_json_def jsort.simps by (simp add: map_of_sorted_entries comp_def)
  have load: "load_recovery_journal env stem w = (Ok d, w)"
    using wf by (simp add: load_recovery_journal_def j write_json_def read_json_strict_def d look io_of_res_def io_ret_def)
  have "\<forall>x\<in>set ?es. validate_recovery_entry env x = io_ret ()"
  proof
    fix x
    assume "x \<in> set ?es"
    then obtain i where i: "i < length es" "x = jsort (entry_json (es ! i))"
      by (auto simp: in_set_conv_nth)
    then have "i < length reps" "entry_for env f0 (reps ! i) (es ! i)"
      using es by (simp_all add: list_all2_conv_all_nth)
    then show "validate_recovery_entry env x = io_ret ()"
      using validate_stored [OF wf nth_mem] i(2) by simp
  qed
  then have "validate_recovery_journal_paths env d = io_ret ?es"
    by (simp add: validate_recovery_journal_paths_def dict_get_def look io_each_ret)
  moreover have "journal w \<noteq> Absent"
    by (simp add: j write_json_def)
  ultimately show ?thesis
    using wf load by (simp add: recover_directory_def io_bind_def [of "load_recovery_journal env stem"])
qed

definition recoverable_state ::
  "lt_env \<Rightarrow> string \<Rightarrow> (path \<times> path) list \<Rightarrow> (path \<Rightarrow> nat list option) \<Rightarrow> assertion" where
  "recoverable_state env stem reps f0 f j \<longleftrightarrow>
     journaled env stem reps f0 j \<and> mixed env reps f0 {} f \<or> j = Absent \<and> mixed env reps f0 (set reps) f"

lemma triple_recover:
  assumes wf: "migration_wf env reps f0"
  shows "triple F (recoverable_state env stem reps f0) (recover_directory env stem)
    (\<lambda>_ f j. mixed env reps f0 (set reps) f \<and> j = Absent) (recoverable_state env stem reps f0)"
    (is "triple F ?I _ ?Q ?I")
proof -
  have journal: "triple F (\<lambda>f j. j = write_json (journal_json stem phase es extra) \<and> mixed env reps f0 {} f)
      (recover_directory env stem) ?Q ?I"
    if "fst ` set extra \<subseteq> {''interrupted_at_index''}" and es: "list_all2 (entry_for env f0) reps es" for phase es extra
  proof -
    let ?J = "\<lambda>j. j = write_json (journal_json stem phase es extra)"
    have J: "journaled env stem reps f0 (write_json (journal_json stem phase es extra))"
      using that unfolding journaled_def by blast
    have none: "mixed env reps f0 (set reps) f \<Longrightarrow> mixed env reps f0 {} f" for f
      by (rule mixed_mono) simp
    have "triple F (\<lambda>f j. ?J j \<and> mixed env reps f0 {} f)
        (io_each (recover_entry env) (map (\<lambda>e. jsort (entry_json e)) es))
        (\<lambda>_ f j. ?J j \<and> mixed env reps f0 ({} \<union> set reps) f) (\<lambda>f j. ?J j \<and> mixed env reps f0 {} f)"
      by (rule triple_recover_entries [OF wf es]) simp_all
    then have replay: "triple F (\<lambda>f j. ?J j \<and> mixed env reps f0 {} f)
        (io_each (recover_entry env) (map (\<lambda>e. jsort (entry_json e)) es))
        (\<lambda>_ f j. mixed env reps f0 (set reps) f \<and> ?J j) ?I"
      by (rule triple_conseq) (auto simp: recoverable_state_def J)
    have clean: "triple F (\<lambda>f j. mixed env reps f0 (set reps) f \<and> ?J j) (cleanup env) ?Q ?I"
      by (rule triple_conseq [OF triple_cleanup [where J = ?J, OF wf]]) (auto simp: recoverable_state_def J intro: none)
    have "triple F (\<lambda>f j. ?J j \<and> mixed env reps f0 {} f)
        (io_bind (io_each (recover_entry env) (map (\<lambda>e. jsort (entry_json e)) es)) (\<lambda>_. cleanup env)) ?Q ?I"
      using replay clean by (rule triple_bind)
    then show ?thesis
      by (rule triple_same_run) (simp add: recover_replays [OF wf es])
  qed
  have "recover_directory env stem w = io_ret () w" if "journal w = Absent" for w
    using wf that by (simp add: recover_directory_def io_ret_def)
  then have absent: "triple F (\<lambda>f j. j = Absent \<and> mixed env reps f0 (set reps) f) (recover_directory env stem) ?Q ?I"
    by (intro triple_same_run [OF triple_ret [where a = "()"]]) simp_all
  show ?thesis
    using journal absent unfolding triple_def holds_def recoverable_state_def journaled_def by blast
qed

section \<open>Committing\<close>

text \<open>Nothing has happened to the files of the transaction.\<close>

definition untouched :: "(path \<times> path) list \<Rightarrow> (path \<Rightarrow> nat list option) \<Rightarrow> (path \<Rightarrow> nat list option) \<Rightarrow> bool" where
  "untouched reps f0 f \<longleftrightarrow> clean_files f \<and> (\<forall>ts\<in>set reps. f (fst ts) = f0 (fst ts) \<and> f (snd ts) = f0 (snd ts))"

lemma untouched_mixed: "untouched reps f0 f \<Longrightarrow> mixed env reps f0 {} f"
  by (auto simp: untouched_def mixed_def)

lemma untouched_dir_file:
  assumes "migration_wf env reps f0" and "untouched reps f0 f" and "dir_path env p"
  shows "untouched reps f0 (f(p := b))"
  using assms(2,3) own_not_dir [OF _ assms(3)] wf_member [OF assms(1)]
  by (auto simp: untouched_def clean_files_def dir_path_def)

lemma backup_dir_path:
  assumes "migration_wf env reps f0" and "own_path env t"
  shows "dir_path env (journal_dir env @ [last t @ ''.backup''])"
proof -
  have "clean_component (last t)"
    using assms(2) by (auto simp: own_path_def clean_path_def list_all_iff)
  then show ?thesis
    using assms(1) by (intro dir_path_snoc) (auto simp: clean_component_def)
qed

lemma triple_prepare_entry:
  assumes wf: "migration_wf env reps f0" and ts: "ts \<in> set reps"
  shows "triple F (\<lambda>f j. untouched reps f0 f \<and> J j) (prepare_entry env ts)
    (\<lambda>e f j. entry_for env f0 ts e \<and> untouched reps f0 f \<and> J j) (\<lambda>f j. untouched reps f0 f \<and> J j)"
    (is "triple F ?P _ ?Q ?P")
proof -
  obtain t s where t: "ts = (t, s)"
    by (cases ts)
  let ?backup = "journal_dir env @ [last t @ ''.backup'']"
  let ?entry = "\<lambda>existed oh sh. \<lparr>entry_target = t, entry_staged = s, entry_backup = (if existed then Some ?backup else None),
      entry_existed = existed, entry_original_hash = oh, entry_staged_hash = sh\<rparr>"
  obtain b where own: "own_path env t" "own_path env s" and staged: "f0 s = Some b"
    using wf_member [OF wf ts] by (auto simp: t)
  have backup: "dir_path env ?backup"
    by (rule backup_dir_path [OF wf own(1)])
  have same: "f s = Some b" "f t = f0 t" if "untouched reps f0 f" for f
    using that ts staged by (auto simp: untouched_def t)
  have finish: "triple F ?P (io_bind (file_content_hash env s) (\<lambda>sh. io_ret (?entry existed oh sh))) ?Q ?P" for existed oh
    by (rule triple_bind [OF triple_hash triple_ret])
      (auto simp: same(1) staged backup t entry_for_def)
  have copy: "triple F ?P (io_bind (copyfile t ?backup) (\<lambda>_. file_content_hash env t)) (\<lambda>_. ?P) ?P" if "f0 t \<noteq> None"
  proof (rule triple_bind [OF triple_copy [where b = "the (f0 t)"]])
    show "f t = Some (the (f0 t))" if "?P f j" for f j
      using that same(2) \<open>f0 t \<noteq> None\<close> by auto
    show "?P (f(?backup \<mapsto> the (f0 t))) j \<and> ?P (f(?backup \<mapsto> [])) j" if "?P f j" for f j
      using that untouched_dir_file [OF wf _ backup] by blast
    show "triple F ?P (file_content_hash env t) (\<lambda>_. ?P) ?P"
      by (rule triple_conseq [OF triple_hash]) auto
  qed
  have rest: "triple F (\<lambda>f j. ?P f j \<and> existed = (f t \<noteq> None))
      (io_bind (if existed then io_bind (copyfile t ?backup) (\<lambda>_. file_content_hash env t) else io_ret [])
        (\<lambda>oh. io_bind (file_content_hash env s) (\<lambda>sh. io_ret (?entry existed oh sh)))) ?Q ?P" for existed
  proof (rule triple_bind [OF _ finish])
    show "triple F (\<lambda>f j. ?P f j \<and> existed = (f t \<noteq> None))
        (if existed then io_bind (copyfile t ?backup) (\<lambda>_. file_content_hash env t) else io_ret []) (\<lambda>_. ?P) ?P"
    proof (cases "existed \<and> f0 t \<noteq> None")
      case True
      then have "triple F (\<lambda>f j. ?P f j \<and> existed = (f t \<noteq> None))
          (io_bind (copyfile t ?backup) (\<lambda>_. file_content_hash env t)) (\<lambda>_. ?P) ?P"
        by (intro triple_pre [OF copy]) auto
      then show ?thesis
        using True by simp
    next
      case False
      show ?thesis
      proof (cases existed)
        case True
        then show ?thesis
          using False same(2) by (intro triple_false) auto
      qed (auto intro: triple_ret)
    qed
  qed
  have "triple F (\<lambda>f j. ?P f j \<and> staged_exists = (f s \<noteq> None))
      (io_bind (io_guard staged_exists x) (\<lambda>_. io_bind (is_file t) (\<lambda>existed.
        io_bind (if existed then io_bind (copyfile t ?backup) (\<lambda>_. file_content_hash env t) else io_ret [])
          (\<lambda>oh. io_bind (file_content_hash env s) (\<lambda>sh. io_ret (?entry existed oh sh)))))) ?Q ?P" for staged_exists x
  proof (cases staged_exists)
    case True
    then show ?thesis
      using triple_bind [OF triple_is_file rest] by (auto intro: triple_pre)
  next
    case False
    then show ?thesis
      using same(1) staged by (intro triple_false) auto
  qed
  from triple_bind [OF triple_is_file this] show ?thesis
    using wf own backup by (simp add: prepare_entry_def t Let_def)
qed

lemma triple_prepare_entries:
  assumes wf: "migration_wf env reps f0"
  shows "set us \<subseteq> set reps \<Longrightarrow> triple F (\<lambda>f j. untouched reps f0 f \<and> J j) (io_map (prepare_entry env) us)
    (\<lambda>es f j. list_all2 (entry_for env f0) us es \<and> untouched reps f0 f \<and> J j) (\<lambda>f j. untouched reps f0 f \<and> J j)"
proof (induction us)
  case Nil
  then show ?case
    by (auto intro: triple_ret)
next
  case (Cons ts us)
  have rest: "triple F (\<lambda>f j. entry_for env f0 ts e \<and> untouched reps f0 f \<and> J j)
      (io_bind (io_map (prepare_entry env) us) (\<lambda>es. io_ret (e # es)))
      (\<lambda>es f j. list_all2 (entry_for env f0) (ts # us) es \<and> untouched reps f0 f \<and> J j) (\<lambda>f j. untouched reps f0 f \<and> J j)" for e
    using Cons by (intro triple_fact triple_bind [OF Cons.IH triple_ret]) auto
  show ?case
    unfolding io_map.simps by (rule triple_bind [OF triple_prepare_entry [OF wf] rest]) (use Cons.prems in simp)
qed

lemma untouched_recoverable: "untouched reps f0 f \<Longrightarrow> journaled env stem reps f0 j \<Longrightarrow> recoverable_state env stem reps f0 f j"
  by (simp add: recoverable_state_def untouched_mixed)

text \<open>The block that applies the entries, when no call fails: it completes or the process dies in it.\<close>

lemma apply_transaction_meets:
  assumes wf: "migration_wf env reps f0" and F: "Fails \<notin> F" and es: "list_all2 (entry_for env f0) reps es"
    and w: "holds (\<lambda>f j. journaled env stem reps f0 j \<and> mixed env reps f0 {} f) w" "set (script w) \<subseteq> F"
    and run: "apply_transaction env stem None es w = (r, w')"
  shows "meets F r w' (\<lambda>_ f j. mixed env reps f0 (set reps) f \<and> journaled env stem reps f0 j) (recoverable_state env stem reps f0)"
proof -
  let ?J = "journaled env stem reps f0"
  obtain r1 w1 n where a: "apply_entries env None 0 es w = ((r1, w1), n)"
    by (metis surj_pair)
  have one: "meets F r1 w1 (\<lambda>_ f j. ?J j \<and> mixed env reps f0 (set reps) f) (\<lambda>f j. ?J j \<and> mixed env reps f0 {} f)"
    using apply_entries_meets [OF wf es subset_refl _ w a] by simp
  have committed: "?J (write_json (journal_json stem ''committed'' es []))"
    using es unfolding journaled_def by force
  have "mixed env reps f0 (set reps) f \<Longrightarrow> mixed env reps f0 {} f" for f
    by (rule mixed_mono) simp
  then have mark: "triple F (\<lambda>f j. ?J j \<and> mixed env reps f0 (set reps) f)
      (atomic_write_journal_json (journal_json stem ''committed'' es []))
      (\<lambda>_ f j. mixed env reps f0 (set reps) f \<and> ?J j) (recoverable_state env stem reps f0)"
    using committed by (intro triple_journal) (auto simp: recoverable_state_def)
  show ?thesis
  proof (cases r1)
    case (Ok u)
    obtain r2 w2 where c: "atomic_write_journal_json (journal_json stem ''committed'' es []) w1 = (r2, w2)"
      by (cases "atomic_write_journal_json (journal_json stem ''committed'' es []) w1")
    have two: "meets F r2 w2 (\<lambda>_ f j. mixed env reps f0 (set reps) f \<and> ?J j) (recoverable_state env stem reps f0)"
      using tripleD [OF mark _ _ c] one Ok by (simp add: meets_def)
    have "(r, w') = (r2, w2)"
    proof (cases r2)
      case (Raises e)
      then show ?thesis
        using two F by (simp add: meets_def)
    qed (use run a Ok c ensure_journal [OF wf] in \<open>simp_all add: apply_transaction_def io_bind_def io_ret_def\<close>)
    then show ?thesis
      using two by simp
  next
    case (Raises e)
    then show ?thesis
      using one F by (simp add: meets_def)
  next
    case Crashed
    then have "r = Crashed" "w' = w1"
      using run a by (simp_all add: apply_transaction_def io_bind_def)
    then show ?thesis
      using one Crashed by (auto simp: meets_def holds_def recoverable_state_def)
  qed
qed

definition crash_state ::
  "lt_env \<Rightarrow> string \<Rightarrow> (path \<times> path) list \<Rightarrow> (path \<Rightarrow> nat list option) \<Rightarrow> assertion" where
  "crash_state env stem reps f0 f j \<longleftrightarrow> j = Absent \<and> untouched reps f0 f \<or> recoverable_state env stem reps f0 f j"

lemma triple_commit_new:
  assumes wf: "migration_wf env reps f0" and F: "Fails \<notin> F"
  shows "triple F (\<lambda>f j. untouched reps f0 f \<and> j = Absent) (commit_new_transaction env stem reps None)
    (\<lambda>_ f j. mixed env reps f0 (set reps) f \<and> j = Absent) (crash_state env stem reps f0)"
    (is "triple F ?P _ ?Q ?E")
proof -
  let ?J = "journaled env stem reps f0"
  let ?R = "\<lambda>f j. ?J j \<and> mixed env reps f0 {} f"
  let ?N = "\<lambda>f j. mixed env reps f0 (set reps) f \<and> ?J j"
  have none: "mixed env reps f0 (set reps) f \<Longrightarrow> mixed env reps f0 {} f" for f
    by (rule mixed_mono) simp
  have prepare: "triple F ?P (io_map (prepare_entry env) reps) (\<lambda>es f j. list_all2 (entry_for env f0) reps es \<and> ?P f j) ?E"
    by (rule triple_conseq [OF triple_prepare_entries [OF wf subset_refl, where J = "\<lambda>j. j = Absent"]]) (auto simp: crash_state_def)
  have begun: "triple F ?P (atomic_write_journal_json (journal_json stem ''prepared'' es [])) (\<lambda>_. ?R) ?E"
    if "list_all2 (entry_for env f0) reps es" for es
  proof (rule triple_journal)
    have "?J (write_json (journal_json stem ''prepared'' es []))"
      using that unfolding journaled_def by force
    then show "?R f (write_json (journal_json stem ''prepared'' es [])) \<and> ?E f j" if "?P f j" for f j
      using that untouched_mixed by (auto simp: crash_state_def)
  qed
  have clean: "triple F ?N (cleanup env) ?Q ?E"
    by (rule triple_conseq [OF triple_cleanup [where J = ?J, OF wf]]) (auto simp: crash_state_def recoverable_state_def intro: none)
  have block: "triple F ?R (apply_transaction env stem None es) (\<lambda>_. ?N) ?E"
    if es: "list_all2 (entry_for env f0) reps es" for es
  proof (rule triple_conseq [where E = "recoverable_state env stem reps f0"])
    show "triple F ?R (apply_transaction env stem None es) (\<lambda>_. ?N) (recoverable_state env stem reps f0)"
      unfolding triple_def
      by (intro allI impI apply_transaction_meets [OF wf F es _ _ surjective_pairing]) simp_all
  qed (simp_all add: crash_state_def)
  have "triple F (\<lambda>f j. list_all2 (entry_for env f0) reps es \<and> ?P f j)
      (io_bind (atomic_write_journal_json (journal_json stem ''prepared'' es [])) (\<lambda>_.
       io_bind (apply_transaction env stem None es) (\<lambda>_. cleanup env))) ?Q ?E" for es
    by (intro triple_fact triple_bind [OF begun triple_bind [OF block clean]])
  from triple_bind [OF prepare this] show ?thesis
    unfolding commit_new_transaction_def ensure_no_symlinks [OF wf] ensure_journal [OF wf] io_bind_ret .
qed

section \<open>Crash safety\<close>

lemma ordered_set: "set (ordered_replacements reps) = set reps" "mset (ordered_replacements reps) = mset reps"
  by (simp_all add: ordered_replacements_def)

lemma wf_ordered: "migration_wf env (ordered_replacements reps) f0 \<longleftrightarrow> migration_wf env reps f0"
proof -
  have "distinct (map g (ordered_replacements reps)) = distinct (map g reps)" for g :: "path \<times> path \<Rightarrow> path"
    by (rule mset_eq_imp_distinct_iff) (simp add: ordered_set)
  then show ?thesis
    by (simp add: migration_wf_def ordered_set)
qed

lemma validate_targets_ok:
  assumes "migration_wf env reps f0"
  shows "validate_replacement_targets env reps = io_ret ()"
proof -
  have "distinct (map fst reps)"
    using assms by (simp add: migration_wf_def)
  moreover have "\<forall>ts\<in>set reps. io_bind (ensure_recovery_path_within_root env (fst ts)) (\<lambda>_.
      ensure_recovery_path_within_root env (snd ts)) = io_ret ()"
    using assms wf_member [OF assms] ensure_own [OF assms] by simp
  ultimately show ?thesis
    by (simp add: validate_replacement_targets_def io_each_ret)
qed

lemma triple_commit:
  assumes wf: "migration_wf env reps f0" and F: "Fails \<notin> F" and "reps \<noteq> []"
  shows "triple F (\<lambda>f j. untouched reps f0 f \<and> j = Absent) (commit_ordered_replacements env stem reps None)
    (\<lambda>_ f j. mixed env reps f0 (set reps) f \<and> j = Absent) (crash_state env stem (ordered_replacements reps) f0)"
proof -
  let ?o = "ordered_replacements reps"
  let ?E = "crash_state env stem ?o f0"
  have "triple F (\<lambda>f j. untouched ?o f0 f \<and> j = Absent) (commit_new_transaction env stem ?o None)
      (\<lambda>_ f j. mixed env ?o f0 (set ?o) f \<and> j = Absent) ?E"
    using wf F by (intro triple_commit_new) (simp_all add: wf_ordered)
  then have new: "triple F (\<lambda>f j. untouched reps f0 f \<and> j = Absent) (commit_new_transaction env stem ?o None)
      (\<lambda>_ f j. mixed env reps f0 (set reps) f \<and> j = Absent) ?E"
    by (simp add: untouched_def mixed_def ordered_set)
  have guarded: "triple F (\<lambda>f j. untouched reps f0 f \<and> j = Absent)
      (\<lambda>w. if journal w \<noteq> Absent then recover_directory env stem w else commit_new_transaction env stem ?o None w)
      (\<lambda>_ f j. mixed env reps f0 (set reps) f \<and> j = Absent) ?E"
    by (rule triple_same_run [OF new]) simp
  have "triple F (\<lambda>f j. untouched reps f0 f \<and> j = Absent)
      (io_bind make_directory (\<lambda>_ w. if journal w \<noteq> Absent then recover_directory env stem w
         else commit_new_transaction env stem ?o None w))
      (\<lambda>_ f j. mixed env reps f0 (set reps) f \<and> j = Absent) ?E"
    by (rule triple_bind [OF triple_mkdir guarded]) (simp add: crash_state_def untouched_def ordered_set)
  then show ?thesis
    using assms(3) unfolding commit_ordered_replacements_def ensure_journal_dir [OF wf] ensure_no_symlinks [OF wf]
      validate_targets_ok [OF wf] ensure_journal [OF wf] io_bind_ret by simp
qed

text \<open>Attempts to recover, each with faults of its own; between them the process starts anew.\<close>

inductive attempts :: "lt_env \<Rightarrow> string \<Rightarrow> lt_world \<Rightarrow> lt_world \<Rightarrow> bool" for env stem w where
  no_attempt: "attempts env stem w w"
| one_more: "attempts env stem w u \<Longrightarrow> recover_directory env stem (u\<lparr>script := s\<rparr>) = (r, v) \<Longrightarrow> attempts env stem w v"

lemma attempts_recoverable:
  assumes "migration_wf env reps f0"
  shows "attempts env stem w v \<Longrightarrow> holds (recoverable_state env stem reps f0) w \<Longrightarrow> holds (recoverable_state env stem reps f0) v"
proof (induction rule: attempts.induct)
  case (one_more u s r v)
  have "holds (recoverable_state env stem reps f0) (u\<lparr>script := s\<rparr>)"
    using one_more by (simp add: holds_def)
  then have "meets UNIV r v (\<lambda>_ f j. mixed env reps f0 (set reps) f \<and> j = Absent) (recoverable_state env stem reps f0)"
    using tripleD [OF triple_recover [OF assms, of UNIV stem]] one_more.hyps(2) by simp
  then show ?case
    by (auto simp: meets_def holds_def recoverable_state_def split: outcome.splits)
qed

lemma recover_finishes:
  assumes wf: "migration_wf env reps f0" and "holds (recoverable_state env stem reps f0) w"
  shows "\<exists>v. recover_directory env stem (w\<lparr>script := []\<rparr>) = (Ok (), v) \<and> journal v = Absent
    \<and> (\<forall>(t, s)\<in>set reps. \<exists>b. content t v = Some b \<and> digest env b = digest env (the (f0 s)))"
proof -
  obtain r v where run: "recover_directory env stem (w\<lparr>script := []\<rparr>) = (r, v)"
    by (cases "recover_directory env stem (w\<lparr>script := []\<rparr>)")
  have "meets {} r v (\<lambda>_ f j. mixed env reps f0 (set reps) f \<and> j = Absent) (recoverable_state env stem reps f0)"
    using tripleD [OF triple_recover [OF wf, of "{}" stem] _ _ run] assms(2) by (simp add: holds_def)
  then have "r = Ok ()" "journal v = Absent" "mixed env reps f0 (set reps) (map_of (data v))"
    by (auto simp: meets_def holds_def split: outcome.splits)
  then show ?thesis
    using run mixed_new [of env reps f0 "set reps" "map_of (data v)"] by (fastforce simp: content_def)
qed

text \<open>
  C2. The migration survives a crash: if the process dies at any point of a commit, then either
  nothing has happened to the targets and the staged files and there is no journal, or the journal
  brings the transaction to its end: after any number of recovery attempts that fail or die
  themselves, one undisturbed recovery succeeds, removes the journal, and leaves every target with the
  content that was staged for it (by its digest). Without a crash the commit does so itself.
\<close>

theorem migration_crash_safe:
  assumes "migration_wf env reps (map_of (data w))" and "reps \<noteq> []" and "clean_files (map_of (data w))"
    and "journal w = Absent" and "Fails \<notin> set (script w)"
    and "commit_ordered_replacements env stem reps None w = (r, v)"
  shows "r = Ok () \<and> journal v = Absent
      \<and> (\<forall>(t, s)\<in>set reps. \<exists>b. content t v = Some b \<and> digest env b = digest env (the (content s w)))
    \<or> r = Crashed \<and> Crashes \<in> set (script w)
      \<and> (journal v = Absent \<and> (\<forall>(t, s)\<in>set reps. content t v = content t w \<and> content s v = content s w)
         \<or> (\<forall>u. attempts env stem v u \<longrightarrow>
              (\<exists>x. recover_directory env stem (u\<lparr>script := []\<rparr>) = (Ok (), x) \<and> journal x = Absent
                \<and> (\<forall>(t, s)\<in>set reps. \<exists>b. content t x = Some b \<and> digest env b = digest env (the (content s w))))))"
proof -
  let ?f0 = "map_of (data w)"
  let ?o = "ordered_replacements reps"
  have "holds (\<lambda>f j. untouched reps ?f0 f \<and> j = Absent) w"
    using assms(3,4) by (simp add: holds_def untouched_def)
  then have m: "meets (set (script w)) r v (\<lambda>_ f j. mixed env reps ?f0 (set reps) f \<and> j = Absent) (crash_state env stem ?o ?f0)"
    using tripleD [OF triple_commit [OF assms(1,5,2), of stem] _ subset_refl assms(6)] by simp
  show ?thesis
  proof (cases r)
    case (Ok u)
    then have "mixed env reps ?f0 (set reps) (map_of (data v))" "journal v = Absent"
      using m by (simp_all add: meets_def holds_def)
    then show ?thesis
      using Ok mixed_new [of env reps ?f0 "set reps" "map_of (data v)"] by (fastforce simp: content_def)
  next
    case (Raises e)
    then show ?thesis
      using m assms(5) by (simp add: meets_def)
  next
    case Crashed
    then have crash: "Crashes \<in> set (script w)" "holds (crash_state env stem ?o ?f0) v"
      using m by (simp_all add: meets_def)
    then consider "journal v = Absent" "untouched ?o ?f0 (map_of (data v))" | "holds (recoverable_state env stem ?o ?f0) v"
      by (auto simp: holds_def crash_state_def)
    then show ?thesis
    proof cases
      case 1
      then show ?thesis
        using Crashed crash(1) by (auto simp: untouched_def ordered_set content_def)
    next
      case 2
      have wf: "migration_wf env ?o ?f0"
        using assms(1) by (simp add: wf_ordered)
      have "\<exists>x. recover_directory env stem (u\<lparr>script := []\<rparr>) = (Ok (), x) \<and> journal x = Absent
          \<and> (\<forall>(t, s)\<in>set reps. \<exists>b. content t x = Some b \<and> digest env b = digest env (the (content s w)))"
        if "attempts env stem v u" for u
        using recover_finishes [OF wf attempts_recoverable [OF wf that 2]] by (simp add: ordered_set content_def)
      then show ?thesis
        using Crashed crash(1) by blast
    qed
  qed
qed

text \<open>A region with two replaced files, the manifest among them, and a process that dies while it installs.\<close>

definition sample_lt_env :: lt_env where
  "sample_lt_env = \<lparr>data_root = [''d''], journal_dir = [''d'', ''j''], digest = map char_of, listing = id,
     container_text = (\<lambda>_. [])\<rparr>"

definition sample_reps :: "(path \<times> path) list" where
  "sample_reps = [([''d'', ''m.json''], [''d'', ''s'', ''m.json'']), ([''d'', ''p''], [''d'', ''s'', ''p''])]"

definition sample_lt_world :: "fault list \<Rightarrow> lt_world" where
  "sample_lt_world faults = \<lparr>data = [([''d'', ''m.json''], [1]), ([''d'', ''s'', ''m.json''], [2]), ([''d'', ''s'', ''p''], [3])],
     journal = Absent, script = faults\<rparr>"

theorem migration_crash_safe_witness:
  "case commit_ordered_replacements sample_lt_env ''r'' sample_reps None (sample_lt_world (replicate 12 Fine @ [Crashes])) of
     (r, v) \<Rightarrow>
       r = Ok () \<and> journal v = Absent
       \<and> (\<forall>(t, s)\<in>set sample_reps. \<exists>b. content t v = Some b
            \<and> digest sample_lt_env b = digest sample_lt_env (the (content s (sample_lt_world []))))
     \<or> r = Crashed
       \<and> (journal v = Absent \<and> (\<forall>(t, s)\<in>set sample_reps. content t v = content t (sample_lt_world [])
              \<and> content s v = content s (sample_lt_world []))
          \<or> (\<forall>u. attempts sample_lt_env ''r'' v u \<longrightarrow>
              (\<exists>x. recover_directory sample_lt_env ''r'' (u\<lparr>script := []\<rparr>) = (Ok (), x) \<and> journal x = Absent
                \<and> (\<forall>(t, s)\<in>set sample_reps. \<exists>b. content t x = Some b
                     \<and> digest sample_lt_env b = digest sample_lt_env (the (content s (sample_lt_world [])))))))"
proof -
  let ?w = "sample_lt_world (replicate 12 Fine @ [Crashes])"
  have wf: "migration_wf sample_lt_env sample_reps (map_of (data ?w))"
    by (simp add: migration_wf_def sample_lt_env_def sample_reps_def sample_lt_world_def own_path_def clean_path_def
        clean_component_def)
  have files: "clean_files (map_of (data ?w))"
    by (simp add: clean_files_def sample_lt_world_def clean_path_def clean_component_def)
  have same: "content p ?w = content p (sample_lt_world [])" for p
    by (simp add: content_def sample_lt_world_def)
  obtain r v where run: "commit_ordered_replacements sample_lt_env ''r'' sample_reps None ?w = (r, v)"
    by (cases "commit_ordered_replacements sample_lt_env ''r'' sample_reps None ?w")
  show ?thesis
    using migration_crash_safe [OF wf _ files _ _ run] unfolding run same
    by (simp only: prod.case) (auto simp: sample_reps_def sample_lt_world_def)
qed

definition colliding_reps :: "(path \<times> path) list" where
  "colliding_reps = [([''d'', ''a'', ''p''], [''d'', ''s'', ''a'']), ([''d'', ''b'', ''p''], [''d'', ''s'', ''b''])]"

definition colliding_world :: "fault list \<Rightarrow> lt_world" where
  "colliding_world faults =
     \<lparr>data = [([''d'', ''a'', ''p''], [1]), ([''d'', ''b'', ''p''], [2]), ([''d'', ''s'', ''a''], [3]), ([''d'', ''s'', ''b''], [4])],
      journal = Absent, script = faults\<rparr>"

text \<open>
  Backups are named after the last component of their target, so two targets of one transaction
  with the same file name share a backup: when the first replacement fails after its move, the
  rollback of the second entry uses the backup up, the rollback of the first one raises, and the
  region keeps a new first file beside an old second one, with the journal still there.
\<close>

theorem backup_names_collide:
  "case commit_ordered_replacements sample_lt_env ''r'' colliding_reps None (colliding_world (replicate 12 Fine @ [Fails])) of
     (r, v) \<Rightarrow> r = Raises (RuntimeError ''Link migration backup is unavailable'') \<and> journal v \<noteq> Absent
       \<and> content [''d'', ''a'', ''p''] v = Some [3] \<and> content [''d'', ''b'', ''p''] v = Some [2]"
  by code_simp

end
