(* ===== verification/Integrity.thy ===== *)
theory Integrity
  imports Json_Files Osm_Domain
begin

text \<open>
  The join-integrity pass of the augmentation (\<open>augmentation/integrity.py\<close>,
  \<open>augmentation/integrity_io.py\<close>, \<open>augmentation/integrity_models.py\<close>,
  \<open>augmentation/polygon_articles_integrity.py\<close>, \<open>augmentation/_wikivoyage_membership.py\<close>).

  The state is the set of tables of the data root, each by the stem of its file, and the JSON files
  of the directory \<open>integrity\<close>. A table is the list of its rows, a row a dictionary of scalars. Every
  write consumes a unit of a budget: \<open>None\<close> is a device that never fails, \<open>Some n\<close> one that fails
  after \<open>n\<close> writes, the failing write leaving the old content.
\<close>

section \<open>Tables\<close>

datatype scalar = SNull | SBool bool | SInt int | SStr string

type_synonym row = "(string, scalar) dict"

definition scalar_str :: "scalar \<Rightarrow> string" where
  "scalar_str v =
     (case v of SNull \<Rightarrow> ''None'' | SBool b \<Rightarrow> (if b then ''True'' else ''False'') | SInt i \<Rightarrow> py_str_int i | SStr s \<Rightarrow> s)"

definition truthy :: "scalar \<Rightarrow> bool" where
  "truthy v \<longleftrightarrow> v \<notin> {SNull, SBool False, SInt 0, SStr []}"

text \<open>\<open>str(row.get(name, ""))\<close>, and \<open>{column: row.get(column) for column in columns}\<close>.\<close>

definition field_str :: "string \<Rightarrow> row \<Rightarrow> string" where
  "field_str name r = scalar_str (dict_get r name (SStr []))"

definition project_row :: "string list \<Rightarrow> row \<Rightarrow> row" where
  "project_row columns r = map (\<lambda>c. (c, dict_get r c SNull)) columns"

definition DOCUMENT_COLUMNS :: "string list" where
  "DOCUMENT_COLUMNS =
     [''document_id'', ''article_id'', ''wikidata'', ''project'', ''language'', ''site'', ''title'', ''url'',
      ''page_id'', ''revision_id'', ''revision_timestamp'', ''retrieved_at'', ''full_text'', ''full_text_format'',
      ''article_length_chars'', ''article_length_words'', ''article_length_tokens_estimate'', ''license'',
      ''attribution'', ''source_api'', ''fetch_status'', ''fetch_error'', ''content_hash'']"

definition SECTION_COLUMNS :: "string list" where
  "SECTION_COLUMNS =
     [''section_id'', ''document_id'', ''article_id'', ''wikidata'', ''project'', ''language'', ''site'', ''page_id'',
      ''revision_id'', ''section_index'', ''heading'', ''anchor'', ''level'', ''parent_section_id'', ''section_path'',
      ''text'', ''text_length_chars'', ''text_length_words'', ''text_length_tokens_estimate'', ''content_hash'',
      ''license'', ''attribution'']"

definition POLYGON_ARTICLE_COLUMNS :: "string list" where
  "POLYGON_ARTICLE_COLUMNS =
     [''polygon_id'', ''article_id'', ''wikidata'', ''language'', ''source_pbf'', ''region'', ''osm_type'', ''osm_id'',
      ''page_id'', ''revision_id'', ''is_best_language'']"

type_synonym tables = "(string, row list) dict"

record shard_files =
  polygons :: tables
  links :: tables
  voyage_documents :: tables
  voyage_sections :: tables
  integrity_files :: "string \<Rightarrow> text_file"
  write_budget :: "nat option"

type_synonym 'a shard_op = "shard_files \<Rightarrow> 'a res \<times> shard_files"

definition op_bind :: "'a shard_op \<Rightarrow> ('a \<Rightarrow> 'b shard_op) \<Rightarrow> 'b shard_op" where
  "op_bind m f s = (case m s of (Inl e, s1) \<Rightarrow> (Inl e, s1) | (Inr x, s1) \<Rightarrow> f x s1)"

definition op_ret :: "'a \<Rightarrow> 'a shard_op" where
  "op_ret x s = (Inr x, s)"

definition op_read :: "(shard_files \<Rightarrow> 'a res) \<Rightarrow> 'a shard_op" where
  "op_read f s = (f s, s)"

definition op_when :: "bool \<Rightarrow> unit shard_op \<Rightarrow> unit shard_op" where
  "op_when b m = (if b then m else op_ret ())"

definition durable_write :: "(shard_files \<Rightarrow> shard_files) \<Rightarrow> unit shard_op" where
  "durable_write f s =
     (case write_budget s of
        None \<Rightarrow> (Inr (), f s)
      | Some 0 \<Rightarrow> (Inl (OSError ''No space left on device''), s)
      | Some (Suc n) \<Rightarrow> (Inr (), f (s\<lparr>write_budget := Some n\<rparr>)))"

text \<open>\<open>pq.read_table(path, columns=...).to_pylist()\<close> of a file that must exist.\<close>

definition read_table_required :: "string \<Rightarrow> tables \<Rightarrow> string \<Rightarrow> string list \<Rightarrow> row list res" where
  "read_table_required label ts stem columns =
     (case map_of ts stem of
        None \<Rightarrow> Inl (FileNotFoundError (label @ '' parquet missing''))
      | Some rows \<Rightarrow> Inr (map (project_row columns) rows))"

section \<open>The polygon master\<close>

definition record_polygon_wikidata ::
  "string \<Rightarrow> string \<Rightarrow> (string, string) dict \<times> string set \<Rightarrow> (string, string) dict \<times> string set" where
  "record_polygon_wikidata pid wikidata st =
     (case st of (mapping, duplicates) \<Rightarrow>
        if map_of mapping pid \<noteq> None \<and> map_of mapping pid \<noteq> Some wikidata then (mapping, insert pid duplicates)
        else (AList.update pid wikidata mapping, duplicates))"

definition polygon_master_row :: "row \<Rightarrow> string \<times> string" where
  "polygon_master_row r =
     (scalar_str (dict_get r ''polygon_id'' SNull),
      case dict_get r ''wikidata'' SNull of SNull \<Rightarrow> [] | v \<Rightarrow> scalar_str v)"

definition read_polygon_wikidata_map :: "tables \<Rightarrow> string \<Rightarrow> (string, string) dict res" where
  "read_polygon_wikidata_map ts stem =
     res_bind (read_table_required ''Polygons'' ts stem [''polygon_id'', ''wikidata'']) (\<lambda>rows.
     case fold (\<lambda>r. case polygon_master_row r of (pid, q) \<Rightarrow> record_polygon_wikidata pid q) rows ([], {}) of
       (mapping, duplicates) \<Rightarrow>
         if duplicates \<noteq> {} then Inl (ValueError ''Polygons parquet has conflicting wikidata for polygon_id(s)'')
         else Inr mapping)"

definition read_polygon_wikidata_set :: "tables \<Rightarrow> string \<Rightarrow> string set res" where
  "read_polygon_wikidata_set ts stem =
     res_bind (read_table_required ''Polygons'' ts stem [''wikidata'']) (\<lambda>rows.
     Inr (set (map scalar_str (filter truthy (map (\<lambda>r. dict_get r ''wikidata'' SNull) rows)))))"

section \<open>Records and results\<close>

definition INTEGRITY_CONTRACT_VERSION :: string where
  "INTEGRITY_CONTRACT_VERSION = ''join-integrity-v1''"

definition REASON_POLYGON_ARTICLES_MISMATCH :: string where
  "REASON_POLYGON_ARTICLES_MISMATCH = ''wikidata_mismatch_with_polygon_master''"

definition REASON_WIKIVOYAGE_ABSENT :: string where
  "REASON_WIKIVOYAGE_ABSENT = ''wikidata_absent_from_polygons''"

record rejection =
  rj_shard :: string
  rj_source_table :: string
  rj_identifier :: string
  rj_wikidata :: "string option"
  rj_expected :: "string option"
  rj_reason :: string
  rj_cascaded_sections :: int

definition opt_json :: "string option \<Rightarrow> json" where
  "opt_json v = (case v of None \<Rightarrow> JNull | Some s \<Rightarrow> JStr s)"

definition rejection_to_dict :: "rejection \<Rightarrow> json" where
  "rejection_to_dict r =
     JObj [(''shard'', JStr (rj_shard r)), (''source_table'', JStr (rj_source_table r)),
           (''identifier'', JStr (rj_identifier r)), (''wikidata'', opt_json (rj_wikidata r)),
           (''expected'', opt_json (rj_expected r)), (''reason'', JStr (rj_reason r)),
           (''cascaded_sections'', JInt (rj_cascaded_sections r))]"

record polygon_articles_result =
  pr_shard :: string
  pr_original_row_count :: nat
  pr_retained_row_count :: nat
  pr_rejected_row_count :: nat
  pr_rewritten :: bool
  pr_rejections :: "rejection list"

record wikivoyage_result =
  wr_shard :: string
  wr_original_document_count :: nat
  wr_retained_document_count :: nat
  wr_rejected_document_count :: nat
  wr_original_section_count :: nat
  wr_retained_section_count :: nat
  wr_cascaded_section_count :: nat
  wr_rewritten_documents :: bool
  wr_rewritten_sections :: bool
  wr_rejections :: "rejection list"

definition jnat :: "nat \<Rightarrow> json" where
  "jnat n = JInt (int n)"

definition polygon_result_to_dict :: "polygon_articles_result \<Rightarrow> json" where
  "polygon_result_to_dict r =
     JObj [(''shard'', JStr (pr_shard r)), (''original_row_count'', jnat (pr_original_row_count r)),
           (''retained_row_count'', jnat (pr_retained_row_count r)), (''rejected_row_count'', jnat (pr_rejected_row_count r)),
           (''rewritten'', JBool (pr_rewritten r)), (''rejections'', JList (map rejection_to_dict (pr_rejections r)))]"

definition wikivoyage_result_to_dict :: "wikivoyage_result \<Rightarrow> json" where
  "wikivoyage_result_to_dict r =
     JObj [(''shard'', JStr (wr_shard r)), (''original_document_count'', jnat (wr_original_document_count r)),
           (''retained_document_count'', jnat (wr_retained_document_count r)),
           (''rejected_document_count'', jnat (wr_rejected_document_count r)),
           (''original_section_count'', jnat (wr_original_section_count r)),
           (''retained_section_count'', jnat (wr_retained_section_count r)),
           (''cascaded_section_count'', jnat (wr_cascaded_section_count r)),
           (''rewritten_documents'', JBool (wr_rewritten_documents r)),
           (''rewritten_sections'', JBool (wr_rewritten_sections r)),
           (''rejections'', JList (map rejection_to_dict (wr_rejections r)))]"

definition sort_rejections :: "rejection list \<Rightarrow> rejection list" where
  "sort_rejections rs = sort_key (\<lambda>r. (rj_identifier r, the (rj_wikidata r))) rs"

section \<open>Polygon-article links\<close>

fun partition_polygon_article_rows ::
  "string \<Rightarrow> row list \<Rightarrow> (string, string) dict \<Rightarrow> row list \<times> rejection list \<times> string list" where
  "partition_polygon_article_rows stem [] master = ([], [], [])"
| "partition_polygon_article_rows stem (r # rs) master =
     (case partition_polygon_article_rows stem rs master of
        (retained, rejections, seen) \<Rightarrow>
          (let pid = field_str ''polygon_id'' r;
               link_wikidata = field_str ''wikidata'' r;
               expected = map_of master pid
           in if expected = None \<or> expected \<noteq> Some link_wikidata
              then (retained,
                    \<lparr>rj_shard = stem, rj_source_table = ''polygon_articles'', rj_identifier = pid,
                     rj_wikidata = Some link_wikidata, rj_expected = expected,
                     rj_reason = REASON_POLYGON_ARTICLES_MISMATCH, rj_cascaded_sections = 0\<rparr> # rejections,
                    pid # seen)
              else (project_row POLYGON_ARTICLE_COLUMNS r # retained, rejections, pid # seen)))"

definition missing_polygon_ids :: "string list \<Rightarrow> (string, string) dict \<Rightarrow> string list" where
  "missing_polygon_ids seen master = sort (dedup_first (filter (\<lambda>p. map_of master p = None) seen))"

definition ensure_polygon_ids_exist :: "string list \<Rightarrow> row list \<Rightarrow> unit res" where
  "ensure_polygon_ids_exist missing rows =
     guard (sort (filter (\<lambda>p. list_ex (\<lambda>r. field_str ''polygon_id'' r = p) rows) missing) = [])
       (ValueError ''polygon_articles rows reference polygon_id(s) absent from polygons parquet'')"

definition write_polygon_articles :: "string \<Rightarrow> row list \<Rightarrow> unit shard_op" where
  "write_polygon_articles stem rows =
     durable_write (\<lambda>s. s\<lparr>links := AList.update stem (map (project_row POLYGON_ARTICLE_COLUMNS) rows) (links s)\<rparr>)"

definition enforce_polygon_articles_integrity :: "string \<Rightarrow> bool \<Rightarrow> polygon_articles_result shard_op" where
  "enforce_polygon_articles_integrity stem dry_run =
     op_bind (op_read (\<lambda>s. read_polygon_wikidata_map (polygons s) stem)) (\<lambda>master.
     op_bind (op_read (\<lambda>s. read_table_required ''polygon_articles'' (links s) stem POLYGON_ARTICLE_COLUMNS)) (\<lambda>rows.
     case partition_polygon_article_rows stem rows master of
       (retained, rejections, seen) \<Rightarrow>
         op_bind (op_read (\<lambda>_. ensure_polygon_ids_exist (missing_polygon_ids seen master) rows)) (\<lambda>_.
         let rewritten = 0 < length rejections in
         op_bind (op_when (rewritten \<and> \<not> dry_run) (write_polygon_articles stem retained)) (\<lambda>_.
           op_ret \<lparr>pr_shard = stem, pr_original_row_count = length rows, pr_retained_row_count = length retained,
                   pr_rejected_row_count = length rejections, pr_rewritten = rewritten,
                   pr_rejections = sort_rejections rejections\<rparr>))))"

section \<open>Wikivoyage documents and sections\<close>

fun partition_wikivoyage_documents :: "row list \<Rightarrow> string set \<Rightarrow> row list \<times> (string \<times> string) list" where
  "partition_wikivoyage_documents [] valid_qids = ([], [])"
| "partition_wikivoyage_documents (r # rs) valid_qids =
     (case partition_wikivoyage_documents rs valid_qids of
        (retained, rejected) \<Rightarrow>
          (let document_id = field_str ''document_id'' r; wikidata = field_str ''wikidata'' r in
           if wikidata \<in> valid_qids then (project_row DOCUMENT_COLUMNS r # retained, rejected)
           else (retained, (document_id, wikidata) # rejected)))"

definition rejected_documents ::
  "string \<Rightarrow> row list \<Rightarrow> string set \<Rightarrow> row list \<times> string set \<times> rejection list" where
  "rejected_documents stem rows valid_qids =
     (case partition_wikivoyage_documents rows valid_qids of
        (retained, rejected) \<Rightarrow>
          (retained, fst ` set rejected,
           map (\<lambda>(did, wikidata). \<lparr>rj_shard = stem, rj_source_table = ''wikivoyage_documents'', rj_identifier = did,
               rj_wikidata = Some wikidata, rj_expected = None, rj_reason = REASON_WIKIVOYAGE_ABSENT,
               rj_cascaded_sections = 0\<rparr>) rejected))"

text \<open>The loop over the sections: kept rows, dropped rows by document.\<close>

fun partition_wikivoyage_sections ::
  "row list \<Rightarrow> string set \<Rightarrow> row list \<times> nat \<times> (string, nat) dict \<Rightarrow> row list \<times> nat \<times> (string, nat) dict" where
  "partition_wikivoyage_sections [] rejected acc = acc"
| "partition_wikivoyage_sections (r # rs) rejected (retained, cascaded, cascades) =
     (let document_id = field_str ''document_id'' r in
      partition_wikivoyage_sections rs rejected
        (if document_id \<in> rejected
         then (retained, cascaded + 1, AList.update document_id (dict_get cascades document_id 0 + 1) cascades)
         else (retained @ [project_row SECTION_COLUMNS r], cascaded, cascades)))"

definition attach_cascade_counts :: "rejection list \<Rightarrow> (string, nat) dict \<Rightarrow> rejection list" where
  "attach_cascade_counts rejections cascades =
     map (\<lambda>r. r\<lparr>rj_cascaded_sections := int (dict_get cascades (rj_identifier r) 0)\<rparr>) rejections"

definition load_wikivoyage_integrity_inputs ::
  "string \<Rightarrow> shard_files \<Rightarrow> (row list \<times> row list \<times> string set) res" where
  "load_wikivoyage_integrity_inputs stem s =
     res_bind (read_polygon_wikidata_set (polygons s) stem) (\<lambda>valid_qids.
     res_bind (read_table_required ''wikivoyage/documents'' (voyage_documents s) stem DOCUMENT_COLUMNS) (\<lambda>documents.
     res_bind (if map_of (voyage_sections s) stem \<noteq> None
               then read_table_required ''wikivoyage/sections'' (voyage_sections s) stem SECTION_COLUMNS
               else Inr []) (\<lambda>sections.
       Inr (documents, sections, valid_qids))))"

definition write_documents :: "string \<Rightarrow> row list \<Rightarrow> unit shard_op" where
  "write_documents stem rows = durable_write (\<lambda>s. s\<lparr>voyage_documents := AList.update stem rows (voyage_documents s)\<rparr>)"

definition write_sections :: "string \<Rightarrow> row list \<Rightarrow> unit shard_op" where
  "write_sections stem rows = durable_write (\<lambda>s. s\<lparr>voyage_sections := AList.update stem rows (voyage_sections s)\<rparr>)"

definition write_wikivoyage_integrity_tables ::
  "string \<Rightarrow> row list \<Rightarrow> row list \<Rightarrow> bool \<Rightarrow> bool \<Rightarrow> unit shard_op" where
  "write_wikivoyage_integrity_tables stem documents sections rewrite_documents rewrite_sections =
     op_bind (op_when rewrite_documents (write_documents stem documents)) (\<lambda>_.
       op_when rewrite_sections (write_sections stem sections))"

definition enforce_wikivoyage_integrity :: "string \<Rightarrow> bool \<Rightarrow> wikivoyage_result shard_op" where
  "enforce_wikivoyage_integrity stem dry_run =
     op_bind (op_read (load_wikivoyage_integrity_inputs stem)) (\<lambda>(documents_rows, sections_rows, valid_qids).
     case rejected_documents stem documents_rows valid_qids of
       (retained_documents, rejected_ids, bare_rejections) \<Rightarrow>
     case partition_wikivoyage_sections sections_rows rejected_ids ([], 0, []) of
       (retained_sections, cascaded_count, cascades) \<Rightarrow>
         let rejections = attach_cascade_counts bare_rejections cascades;
             rewritten_documents = 0 < length rejections;
             rewritten_sections = 0 < cascaded_count in
         op_bind (write_wikivoyage_integrity_tables stem retained_documents retained_sections
             (rewritten_documents \<and> \<not> dry_run) (rewritten_sections \<and> \<not> dry_run)) (\<lambda>_.
           op_ret \<lparr>wr_shard = stem, wr_original_document_count = length documents_rows,
                   wr_retained_document_count = length retained_documents,
                   wr_rejected_document_count = length rejections, wr_original_section_count = length sections_rows,
                   wr_retained_section_count = length retained_sections, wr_cascaded_section_count = cascaded_count,
                   wr_rewritten_documents = rewritten_documents, wr_rewritten_sections = rewritten_sections,
                   wr_rejections = sort_rejections rejections\<rparr>))"

section \<open>All regions\<close>

fun collect_integrity_results ::
  "string list \<Rightarrow> bool \<Rightarrow> polygon_articles_result list \<Rightarrow> wikivoyage_result list
    \<Rightarrow> (polygon_articles_result list \<times> wikivoyage_result list) shard_op" where
  "collect_integrity_results [] dry_run ps ws s = (Inr (ps, ws), s)"
| "collect_integrity_results (stem # stems) dry_run ps ws s =
     op_bind (\<lambda>s. if map_of (links s) stem \<noteq> None
                  then op_bind (enforce_polygon_articles_integrity stem dry_run) (\<lambda>r. op_ret (ps @ [r])) s
                  else (Inr ps, s)) (\<lambda>ps.
     op_bind (\<lambda>s. if map_of (voyage_documents s) stem \<noteq> None
                  then op_bind (enforce_wikivoyage_integrity stem dry_run) (\<lambda>r. op_ret (ws @ [r])) s
                  else (Inr ws, s)) (\<lambda>ws.
       collect_integrity_results stems dry_run ps ws)) s"

record integrity_report =
  rp_polygon_articles :: "polygon_articles_result list"
  rp_wikivoyage :: "wikivoyage_result list"

definition total_polygon_articles_rejected :: "integrity_report \<Rightarrow> nat" where
  "total_polygon_articles_rejected r = sum_list (map pr_rejected_row_count (rp_polygon_articles r))"

definition total_wikivoyage_documents_rejected :: "integrity_report \<Rightarrow> nat" where
  "total_wikivoyage_documents_rejected r = sum_list (map wr_rejected_document_count (rp_wikivoyage r))"

definition total_wikivoyage_sections_cascaded :: "integrity_report \<Rightarrow> nat" where
  "total_wikivoyage_sections_cascaded r = sum_list (map wr_cascaded_section_count (rp_wikivoyage r))"

definition shards_with_rejections :: "integrity_report \<Rightarrow> string list" where
  "shards_with_rejections r =
     sort (dedup_first (map pr_shard (filter (\<lambda>x. pr_rejections x \<noteq> []) (rp_polygon_articles r))
       @ map wr_shard (filter (\<lambda>x. wr_rejections x \<noteq> []) (rp_wikivoyage r))))"

definition integrity_audit_payload :: "string \<Rightarrow> integrity_report \<Rightarrow> json" where
  "integrity_audit_payload now r =
     JObj [(''contract_version'', JStr INTEGRITY_CONTRACT_VERSION), (''generated_at'', JStr now),
           (''polygon_articles'', JList (map polygon_result_to_dict (rp_polygon_articles r))),
           (''wikivoyage'', JList (map wikivoyage_result_to_dict (rp_wikivoyage r))),
           (''totals'', JObj [
              (''polygon_articles_rejected'', jnat (total_polygon_articles_rejected r)),
              (''wikivoyage_documents_rejected'', jnat (total_wikivoyage_documents_rejected r)),
              (''wikivoyage_sections_cascaded'', jnat (total_wikivoyage_sections_cascaded r)),
              (''shards_with_rejections'', JList (map JStr (shards_with_rejections r)))])]"

definition write_integrity_file :: "string \<Rightarrow> json \<Rightarrow> unit shard_op" where
  "write_integrity_file name payload =
     durable_write (\<lambda>s. s\<lparr>integrity_files := (integrity_files s)(name := write_json payload)\<rparr>)"

definition selected_stems :: "string list option \<Rightarrow> shard_files \<Rightarrow> string list" where
  "selected_stems stems s = (case stems of None \<Rightarrow> sort (map fst (polygons s)) | Some xs \<Rightarrow> xs)"

definition enforce_all_regions :: "string \<Rightarrow> string list option \<Rightarrow> string \<Rightarrow> bool \<Rightarrow> integrity_report shard_op" where
  "enforce_all_regions now stems audit_filename dry_run s =
     op_bind (collect_integrity_results (selected_stems stems s) dry_run [] [])
       (\<lambda>(ps, ws).
         let report = \<lparr>rp_polygon_articles = sort_key pr_shard ps, rp_wikivoyage = sort_key wr_shard ws\<rparr> in
         if dry_run then op_ret report
         else op_bind (write_integrity_file audit_filename (integrity_audit_payload now report)) (\<lambda>_. op_ret report)) s"

section \<open>Rows and partitions\<close>

lemma op_bind_Inr: "op_bind m f s = (Inr y, s') \<longleftrightarrow> (\<exists>x s1. m s = (Inr x, s1) \<and> f x s1 = (Inr y, s'))"
  by (auto simp: op_bind_def split: prod.splits sum.splits)

lemma op_bind_run [simp]:
  "m s = (Inr x, s1) \<Longrightarrow> op_bind m f s = f x s1"
  "m s = (Inl e, s1) \<Longrightarrow> op_bind m f s = (Inl e, s1)"
  by (simp_all add: op_bind_def)

lemma op_read_run: "op_read f s = (r, s') \<longleftrightarrow> f s = r \<and> s' = s"
  by (auto simp: op_read_def)

lemma op_ret_run: "op_ret x s = (r, s') \<longleftrightarrow> r = Inr x \<and> s' = s"
  by (auto simp: op_ret_def)

lemmas op_runs = op_bind_Inr op_read_run op_ret_run op_when_def

lemma dict_get_project [simp]: "c \<in> set columns \<Longrightarrow> dict_get (project_row columns r) c d = dict_get r c SNull"
  by (simp add: project_row_def dict_get_def map_of_map_key)

lemma project_idem [simp]: "project_row columns (project_row columns r) = project_row columns r"
  by (simp add: project_row_def dict_get_def map_of_map_key)

lemma read_table_fixed:
  assumes "read_table_required label ts stem columns = Inr rows" and "r \<in> set rows"
  shows "project_row columns r = r"
  using assms by (auto simp: read_table_required_def split: option.splits)

lemma read_table_filter:
  assumes "read_table_required label ts stem columns = Inr rows"
  shows "map (project_row columns) (filter P rows) = filter P rows"
  using read_table_fixed [OF assms] by (intro map_idI) simp

lemma read_table_written [simp]:
  "read_table_required label (AList.update stem (map (project_row columns) rows) ts) stem columns
    = Inr (map (project_row columns) rows)"
  by (simp add: read_table_required_def comp_def)

lemma read_table_cong: "map_of ts stem = map_of us stem \<Longrightarrow> read_table_required label ts stem columns = read_table_required label us stem columns"
  by (simp add: read_table_required_def)

definition mismatched :: "(string, string) dict \<Rightarrow> row \<Rightarrow> bool" where
  "mismatched master r \<longleftrightarrow> map_of master (field_str ''polygon_id'' r) \<noteq> Some (field_str ''wikidata'' r)"

definition link_rejection :: "string \<Rightarrow> (string, string) dict \<Rightarrow> row \<Rightarrow> rejection" where
  "link_rejection stem master r =
     \<lparr>rj_shard = stem, rj_source_table = ''polygon_articles'', rj_identifier = field_str ''polygon_id'' r,
      rj_wikidata = Some (field_str ''wikidata'' r), rj_expected = map_of master (field_str ''polygon_id'' r),
      rj_reason = REASON_POLYGON_ARTICLES_MISMATCH, rj_cascaded_sections = 0\<rparr>"

lemma partition_links_filter:
  "partition_polygon_article_rows stem rows master =
    (map (project_row POLYGON_ARTICLE_COLUMNS) (filter (\<lambda>r. \<not> mismatched master r) rows),
     map (link_rejection stem master) (filter (mismatched master) rows), map (field_str ''polygon_id'') rows)"
  by (induction rows) (auto simp: mismatched_def link_rejection_def Let_def)

lemma ensure_ids_iff:
  "ensure_polygon_ids_exist (missing_polygon_ids (map (field_str ''polygon_id'') rows) master) rows = Inr u
    \<longleftrightarrow> (\<forall>r\<in>set rows. map_of master (field_str ''polygon_id'' r) \<noteq> None)"
  by (auto simp: ensure_polygon_ids_exist_def missing_polygon_ids_def filter_empty_conv list_ex_iff
      simp flip: set_empty2)

lemma partition_documents_filter:
  "partition_wikivoyage_documents rows valid =
    (map (project_row DOCUMENT_COLUMNS) (filter (\<lambda>r. field_str ''wikidata'' r \<in> valid) rows),
     map (\<lambda>r. (field_str ''document_id'' r, field_str ''wikidata'' r)) (filter (\<lambda>r. field_str ''wikidata'' r \<notin> valid) rows))"
  by (induction rows) (auto simp: Let_def)

definition rejected_ids :: "row list \<Rightarrow> string set \<Rightarrow> string set" where
  "rejected_ids rows valid = field_str ''document_id'' ` {r \<in> set rows. field_str ''wikidata'' r \<notin> valid}"

lemma partition_sections_filter:
  "\<exists>counts. partition_wikivoyage_sections rows rejected (retained, n, cascades) =
     (retained @ map (project_row SECTION_COLUMNS) (filter (\<lambda>r. field_str ''document_id'' r \<notin> rejected) rows),
      n + length (filter (\<lambda>r. field_str ''document_id'' r \<in> rejected) rows), counts)
     \<and> (\<forall>d\<in>rejected. dict_get counts d 0 = dict_get cascades d 0 + length (filter (\<lambda>r. field_str ''document_id'' r = d) rows))"
proof (induction rows arbitrary: retained n cascades)
  case (Cons r rows)
  let ?d = "field_str ''document_id'' r"
  show ?case
  proof (cases "?d \<in> rejected")
    case True
    obtain counts where c: "partition_wikivoyage_sections rows rejected
          (retained, n + 1, AList.update ?d (dict_get cascades ?d 0 + 1) cascades) =
        (retained @ map (project_row SECTION_COLUMNS) (filter (\<lambda>r. field_str ''document_id'' r \<notin> rejected) rows),
         n + 1 + length (filter (\<lambda>r. field_str ''document_id'' r \<in> rejected) rows), counts)"
      and n: "\<forall>d\<in>rejected. dict_get counts d 0 = dict_get (AList.update ?d (dict_get cascades ?d 0 + 1) cascades) d 0
          + length (filter (\<lambda>r. field_str ''document_id'' r = d) rows)"
      using Cons.IH by blast
    have "dict_get counts d 0 = dict_get cascades d 0 + length (filter (\<lambda>r. field_str ''document_id'' r = d) (r # rows))"
      if "d \<in> rejected" for d
      using n that by (auto simp: dict_get_def split: option.splits)
    with True c show ?thesis
      by (simp add: Let_def)
  next
    case False
    then have "?d \<noteq> d" if "d \<in> rejected" for d
      using that by blast
    with False Cons.IH [of "retained @ [project_row SECTION_COLUMNS r]" n cascades] show ?thesis
      by (auto simp: Let_def)
  qed
qed simp

section \<open>The contract of a pass\<close>

text \<open>
  What the loop over the regions relies on: a dry run leaves the files alone and returns what the
  real run returns; a real run establishes the join of its region and keeps those of the others; a
  region whose join holds is left alone. A pass depends on and changes only its own inputs.
\<close>

locale integrity_pass =
  fixes enforce :: "string \<Rightarrow> bool \<Rightarrow> 'r shard_op"
    and same :: "string \<Rightarrow> shard_files \<Rightarrow> shard_files \<Rightarrow> bool"
    and joined :: "string \<Rightarrow> shard_files \<Rightarrow> bool"
    and rejected :: "'r \<Rightarrow> nat"
  assumes same_refl: "same x s s"
    and same_trans: "same x s t \<Longrightarrow> same x t u \<Longrightarrow> same x s u"
    and dry_same: "enforce stem False s = (Inr r, s') \<Longrightarrow> same stem s t \<Longrightarrow> enforce stem True t = (Inr r, t)"
    and establishes: "enforce stem False s = (Inr r, s') \<Longrightarrow> joined stem s'"
    and settled: "joined stem s \<Longrightarrow> \<exists>r. rejected r = 0 \<and> (\<forall>dry. enforce stem dry s = (Inr r, s))"
    and joined_same: "joined stem s \<Longrightarrow> same stem s t \<Longrightarrow> joined stem t"
    and frame: "enforce stem False s = (res, s') \<Longrightarrow> x \<noteq> stem \<Longrightarrow> same x s s'"
begin

lemma keeps_joined:
  assumes "enforce stem False s = (Inr r, s')" and "joined x s"
  shows "joined x s'"
  using assms establishes frame joined_same by (cases "x = stem") blast+

lemma run_twice:
  assumes "enforce stem False s = (Inr r, s')"
  shows "\<exists>q. rejected q = 0 \<and> (\<forall>dry. enforce stem dry s' = (Inr q, s'))"
  using settled [OF establishes [OF assms]] .

end

subsection \<open>Links\<close>

definition same_links :: "string \<Rightarrow> shard_files \<Rightarrow> shard_files \<Rightarrow> bool" where
  "same_links stem s t \<longleftrightarrow> map_of (polygons s) stem = map_of (polygons t) stem \<and> map_of (links s) stem = map_of (links t) stem"

text \<open>The join of the links: every link row names a polygon with the wikidata of that polygon.\<close>

definition links_joined :: "string \<Rightarrow> shard_files \<Rightarrow> bool" where
  "links_joined stem s \<longleftrightarrow>
     (\<exists>master rows. read_polygon_wikidata_map (polygons s) stem = Inr master
        \<and> read_table_required ''polygon_articles'' (links s) stem POLYGON_ARTICLE_COLUMNS = Inr rows
        \<and> (\<forall>r\<in>set rows. map_of master (field_str ''polygon_id'' r) = Some (field_str ''wikidata'' r)))"

definition links_result :: "string \<Rightarrow> (string, string) dict \<Rightarrow> row list \<Rightarrow> polygon_articles_result" where
  "links_result stem master rows =
     (let bad = filter (mismatched master) rows in
      \<lparr>pr_shard = stem, pr_original_row_count = length rows,
       pr_retained_row_count = length (filter (\<lambda>r. \<not> mismatched master r) rows), pr_rejected_row_count = length bad,
       pr_rewritten = (bad \<noteq> []), pr_rejections = sort_rejections (map (link_rejection stem master) bad)\<rparr>)"

lemma master_cong: "map_of ts stem = map_of us stem \<Longrightarrow> read_polygon_wikidata_map ts stem = read_polygon_wikidata_map us stem"
  by (simp add: read_polygon_wikidata_map_def read_table_cong [of ts stem us])

text \<open>A run of the pass, by its cases.\<close>

lemma enforce_links_run:
  assumes "read_polygon_wikidata_map (polygons s) stem = Inr master"
    and rows: "read_table_required ''polygon_articles'' (links s) stem POLYGON_ARTICLE_COLUMNS = Inr rows"
    and "\<forall>r\<in>set rows. map_of master (field_str ''polygon_id'' r) \<noteq> None"
  shows "enforce_polygon_articles_integrity stem dry s =
    (if filter (mismatched master) rows = [] \<or> dry then (Inr (links_result stem master rows), s)
     else op_bind (durable_write (\<lambda>s. s\<lparr>links := AList.update stem (filter (\<lambda>r. \<not> mismatched master r) rows) (links s)\<rparr>))
        (\<lambda>_. op_ret (links_result stem master rows)) s)"
proof -
  have "ensure_polygon_ids_exist (missing_polygon_ids (map (field_str ''polygon_id'') rows) master) rows = Inr ()"
    using assms(3) by (simp only: ensure_ids_iff)
  then show ?thesis
    using assms(1,2) read_table_filter [OF rows, of "\<lambda>r. \<not> mismatched master r"]
    by (simp add: enforce_polygon_articles_integrity_def op_bind_def op_read_def partition_links_filter links_result_def
        op_when_def op_ret_def write_polygon_articles_def Let_def split: prod.splits sum.splits)
qed

lemma enforce_links_Inr:
  assumes "enforce_polygon_articles_integrity stem dry s = (Inr res, s')"
  obtains master rows where "read_polygon_wikidata_map (polygons s) stem = Inr master"
    "read_table_required ''polygon_articles'' (links s) stem POLYGON_ARTICLE_COLUMNS = Inr rows"
    "\<forall>r\<in>set rows. map_of master (field_str ''polygon_id'' r) \<noteq> None"
proof -
  obtain master rows where run: "read_polygon_wikidata_map (polygons s) stem = Inr master"
    "read_table_required ''polygon_articles'' (links s) stem POLYGON_ARTICLE_COLUMNS = Inr rows"
    "ensure_polygon_ids_exist (missing_polygon_ids (map (field_str ''polygon_id'') rows) master) rows = Inr ()"
    using assms by (auto simp: enforce_polygon_articles_integrity_def op_runs partition_links_filter)
  with that show thesis
    by (simp only: ensure_ids_iff)
qed

lemma durable_write_cases:
  assumes "durable_write f s = (r, s')"
  obtains (full) e where "r = Inl e" "s' = s" | (written) b where "r = Inr ()" "s' = f (s\<lparr>write_budget := b\<rparr>)"
proof (cases "write_budget s")
  case None
  have "f (s\<lparr>write_budget := None\<rparr>) = f s"
    by (rule arg_cong [where f = f]) (use None in simp)
  then show ?thesis
    using assms None that(2) [of None] by (simp add: durable_write_def)
next
  case (Some n)
  then show ?thesis
    using assms that by (cases n) (auto simp: durable_write_def)
qed

text \<open>What a run can change: nothing, or the table of its region.\<close>

definition changes_links :: "string \<Rightarrow> shard_files \<Rightarrow> shard_files \<Rightarrow> bool" where
  "changes_links stem s s' \<longleftrightarrow> s' = s \<or> (\<exists>b rows. s' = s\<lparr>write_budget := b, links := AList.update stem rows (links s)\<rparr>)"

lemma enforce_links_changes:
  assumes "enforce_polygon_articles_integrity stem dry s = (res, s')"
  shows "changes_links stem s s'"
proof (cases "\<exists>master rows. read_polygon_wikidata_map (polygons s) stem = Inr master
    \<and> read_table_required ''polygon_articles'' (links s) stem POLYGON_ARTICLE_COLUMNS = Inr rows
    \<and> (\<forall>r\<in>set rows. map_of master (field_str ''polygon_id'' r) \<noteq> None)")
  case True
  then obtain master rows where run: "read_polygon_wikidata_map (polygons s) stem = Inr master"
    "read_table_required ''polygon_articles'' (links s) stem POLYGON_ARTICLE_COLUMNS = Inr rows"
    "\<forall>r\<in>set rows. map_of master (field_str ''polygon_id'' r) \<noteq> None"
    by blast
  let ?w = "durable_write (\<lambda>s. s\<lparr>links := AList.update stem (filter (\<lambda>r. \<not> mismatched master r) rows) (links s)\<rparr>) s"
  show ?thesis
  proof (cases "filter (mismatched master) rows = [] \<or> dry")
    case False
    obtain r s1 where w: "?w = (r, s1)"
      by (cases ?w)
    then have "s' = s1"
      using assms False by (cases r) (simp_all add: enforce_links_run [OF run] op_bind_def op_ret_def)
    from w show ?thesis
    proof (cases rule: durable_write_cases)
      case (written b)
      then have "s' = s\<lparr>write_budget := b, links := AList.update stem (filter (\<lambda>r. \<not> mismatched master r) rows) (links s)\<rparr>"
        using \<open>s' = s1\<close> by simp
      then show ?thesis
        unfolding changes_links_def by blast
    qed (use \<open>s' = s1\<close> in \<open>simp add: changes_links_def\<close>)
  qed (use assms enforce_links_run [OF run, of dry] in \<open>simp add: changes_links_def\<close>)
next
  case False
  have "ensure_polygon_ids_exist (missing_polygon_ids (map (field_str ''polygon_id'') rows) master) rows \<noteq> Inr ()"
    if "read_polygon_wikidata_map (polygons s) stem = Inr master"
      "read_table_required ''polygon_articles'' (links s) stem POLYGON_ARTICLE_COLUMNS = Inr rows" for master rows
    using False that by (auto simp: ensure_ids_iff)
  then have "s' = s"
    using assms by (auto simp: enforce_polygon_articles_integrity_def op_bind_def op_read_def partition_links_filter
        split: sum.splits)
  then show ?thesis
    by (simp add: changes_links_def)
qed

lemma links_joined_settled:
  assumes "links_joined stem s"
  obtains res where "pr_rejected_row_count res = 0" "\<And>dry. enforce_polygon_articles_integrity stem dry s = (Inr res, s)"
proof -
  obtain master rows where run: "read_polygon_wikidata_map (polygons s) stem = Inr master"
    "read_table_required ''polygon_articles'' (links s) stem POLYGON_ARTICLE_COLUMNS = Inr rows"
    and ok: "\<forall>r\<in>set rows. map_of master (field_str ''polygon_id'' r) = Some (field_str ''wikidata'' r)"
    using assms by (auto simp: links_joined_def)
  have none: "filter (mismatched master) rows = []"
    using ok by (simp add: mismatched_def)
  have ids: "\<forall>r\<in>set rows. map_of master (field_str ''polygon_id'' r) \<noteq> None"
    using ok by simp
  show thesis
    using enforce_links_run [OF run ids] none by (intro that) (simp_all add: links_result_def Let_def)
qed

lemma enforce_links_joined:
  assumes "enforce_polygon_articles_integrity stem False s = (Inr res, s')"
  shows "links_joined stem s'"
proof -
  obtain master rows where run: "read_polygon_wikidata_map (polygons s) stem = Inr master"
    "read_table_required ''polygon_articles'' (links s) stem POLYGON_ARTICLE_COLUMNS = Inr rows"
    "\<forall>r\<in>set rows. map_of master (field_str ''polygon_id'' r) \<noteq> None"
    using enforce_links_Inr [OF assms] .
  let ?good = "filter (\<lambda>r. \<not> mismatched master r) rows"
  have good: "\<forall>r\<in>set ?good. map_of master (field_str ''polygon_id'' r) = Some (field_str ''wikidata'' r)"
    by (simp add: mismatched_def)
  show ?thesis
  proof (cases "filter (mismatched master) rows = []")
    case True
    then have "?good = rows"
      by (simp add: filter_id_conv filter_empty_conv)
    then show ?thesis
      using True assms good run by (auto simp: enforce_links_run [OF run] links_joined_def)
  next
    case False
    then obtain b where s': "s' = s\<lparr>write_budget := b, links := AList.update stem ?good (links s)\<rparr>"
      using assms by (auto simp: enforce_links_run [OF run] op_runs elim!: durable_write_cases)
    moreover have "read_table_required ''polygon_articles'' (links s') stem POLYGON_ARTICLE_COLUMNS = Inr ?good"
      using read_table_written [of "''polygon_articles''" stem POLYGON_ARTICLE_COLUMNS ?good "links s"] s'
        read_table_filter [OF run(2), of "\<lambda>r. \<not> mismatched master r"] by simp
    ultimately show ?thesis
      using run(1) good by (auto simp: links_joined_def)
  qed
qed

lemma enforce_links_dry:
  assumes "enforce_polygon_articles_integrity stem False s = (Inr res, s')" and "same_links stem s t"
  shows "enforce_polygon_articles_integrity stem True t = (Inr res, t)"
proof -
  obtain master rows where run: "read_polygon_wikidata_map (polygons s) stem = Inr master"
    "read_table_required ''polygon_articles'' (links s) stem POLYGON_ARTICLE_COLUMNS = Inr rows"
    "\<forall>r\<in>set rows. map_of master (field_str ''polygon_id'' r) \<noteq> None"
    using enforce_links_Inr [OF assms(1)] .
  have t: "read_polygon_wikidata_map (polygons t) stem = Inr master"
    "read_table_required ''polygon_articles'' (links t) stem POLYGON_ARTICLE_COLUMNS = Inr rows"
    using run(1,2) assms(2) master_cong [of "polygons s" stem "polygons t"]
      read_table_cong [of "links s" stem "links t"] by (simp_all add: same_links_def)
  have "res = links_result stem master rows"
    using assms(1) by (auto simp: enforce_links_run [OF run] op_runs split: if_splits)
  then show ?thesis
    by (simp add: enforce_links_run [OF t run(3)])
qed

interpretation links_pass:
  integrity_pass enforce_polygon_articles_integrity same_links links_joined pr_rejected_row_count
proof
  fix stem s t
  assume "links_joined stem s" "same_links stem s t"
  then show "links_joined stem t"
    using master_cong [of "polygons s" stem "polygons t"] read_table_cong [of "links s" stem "links t"]
    by (auto simp: links_joined_def same_links_def)
next
  fix stem s res s' and x :: string
  assume "enforce_polygon_articles_integrity stem False s = (res, s')" "x \<noteq> stem"
  then show "same_links x s s'"
    using enforce_links_changes by (fastforce simp: changes_links_def same_links_def)
next
  fix stem s
  assume "links_joined stem s"
  then show "\<exists>r. pr_rejected_row_count r = 0 \<and> (\<forall>dry. enforce_polygon_articles_integrity stem dry s = (Inr r, s))"
    by (rule links_joined_settled) blast
qed (use enforce_links_joined enforce_links_dry in \<open>auto simp: same_links_def\<close>)

subsection \<open>Wikivoyage tables\<close>

definition same_voyage :: "string \<Rightarrow> shard_files \<Rightarrow> shard_files \<Rightarrow> bool" where
  "same_voyage stem s t \<longleftrightarrow> map_of (polygons s) stem = map_of (polygons t) stem
     \<and> map_of (voyage_documents s) stem = map_of (voyage_documents t) stem
     \<and> map_of (voyage_sections s) stem = map_of (voyage_sections t) stem"

text \<open>The join of the documents: the wikidata of every document occurs among the polygons.\<close>

definition documents_joined :: "string \<Rightarrow> shard_files \<Rightarrow> bool" where
  "documents_joined stem s \<longleftrightarrow>
     (\<exists>documents sections valid. load_wikivoyage_integrity_inputs stem s = Inr (documents, sections, valid)
        \<and> (\<forall>r\<in>set documents. field_str ''wikidata'' r \<in> valid))"

definition document_rejection :: "string \<Rightarrow> (string, nat) dict \<Rightarrow> row \<Rightarrow> rejection" where
  "document_rejection stem cascades r =
     \<lparr>rj_shard = stem, rj_source_table = ''wikivoyage_documents'', rj_identifier = field_str ''document_id'' r,
      rj_wikidata = Some (field_str ''wikidata'' r), rj_expected = None, rj_reason = REASON_WIKIVOYAGE_ABSENT,
      rj_cascaded_sections = int (dict_get cascades (field_str ''document_id'' r) 0)\<rparr>"

definition documents_result :: "string \<Rightarrow> row list \<Rightarrow> row list \<Rightarrow> string set \<Rightarrow> wikivoyage_result" where
  "documents_result stem documents sections valid =
     (let ids = rejected_ids documents valid;
          bad = filter (\<lambda>r. field_str ''wikidata'' r \<notin> valid) documents;
          dropped = filter (\<lambda>r. field_str ''document_id'' r \<in> ids) sections;
          cascades = snd (snd (partition_wikivoyage_sections sections ids ([], 0, []))) in
      \<lparr>wr_shard = stem, wr_original_document_count = length documents,
       wr_retained_document_count = length (filter (\<lambda>r. field_str ''wikidata'' r \<in> valid) documents),
       wr_rejected_document_count = length bad, wr_original_section_count = length sections,
       wr_retained_section_count = length (filter (\<lambda>r. field_str ''document_id'' r \<notin> ids) sections),
       wr_cascaded_section_count = length dropped, wr_rewritten_documents = (bad \<noteq> []),
       wr_rewritten_sections = (dropped \<noteq> []), wr_rejections = sort_rejections (map (document_rejection stem cascades) bad)\<rparr>)"

lemma load_inputs_Inr:
  "load_wikivoyage_integrity_inputs stem s = Inr (documents, sections, valid) \<longleftrightarrow>
     read_polygon_wikidata_set (polygons s) stem = Inr valid
     \<and> read_table_required ''wikivoyage/documents'' (voyage_documents s) stem DOCUMENT_COLUMNS = Inr documents
     \<and> sections = (case map_of (voyage_sections s) stem of None \<Rightarrow> [] | Some rows \<Rightarrow> map (project_row SECTION_COLUMNS) rows)"
  by (auto simp: load_wikivoyage_integrity_inputs_def read_table_required_def split: option.splits)

lemma set_cong: "map_of ts stem = map_of us stem \<Longrightarrow> read_polygon_wikidata_set ts stem = read_polygon_wikidata_set us stem"
  by (simp add: read_polygon_wikidata_set_def read_table_cong [of ts stem us])

lemma load_cong:
  "same_voyage stem s t \<Longrightarrow> load_wikivoyage_integrity_inputs stem s = load_wikivoyage_integrity_inputs stem t"
  by (simp add: same_voyage_def load_wikivoyage_integrity_inputs_def set_cong [of "polygons s" stem "polygons t"]
      read_table_cong [of "voyage_documents s" stem "voyage_documents t"]
      read_table_cong [of "voyage_sections s" stem "voyage_sections t"])

lemma partition_sections_start:
  obtains counts where "partition_wikivoyage_sections sections ids ([], 0, []) =
     (map (project_row SECTION_COLUMNS) (filter (\<lambda>r. field_str ''document_id'' r \<notin> ids) sections),
      length (filter (\<lambda>r. field_str ''document_id'' r \<in> ids) sections), counts)"
    and "\<forall>d\<in>ids. dict_get counts d 0 = length (filter (\<lambda>r. field_str ''document_id'' r = d) sections)"
  using partition_sections_filter [of sections ids "[]" 0 "[]"] by (auto simp: dict_get_def)

lemma enforce_documents_run:
  assumes load: "load_wikivoyage_integrity_inputs stem s = Inr (documents, sections, valid)"
  defines "ids \<equiv> rejected_ids documents valid"
  defines "bad \<equiv> filter (\<lambda>r. field_str ''wikidata'' r \<notin> valid) documents"
    and "dropped \<equiv> filter (\<lambda>r. field_str ''document_id'' r \<in> ids) sections"
  shows "enforce_wikivoyage_integrity stem dry s =
    op_bind (write_wikivoyage_integrity_tables stem (filter (\<lambda>r. field_str ''wikidata'' r \<in> valid) documents)
        (filter (\<lambda>r. field_str ''document_id'' r \<notin> ids) sections) (bad \<noteq> [] \<and> \<not> dry) (dropped \<noteq> [] \<and> \<not> dry))
      (\<lambda>_. op_ret (documents_result stem documents sections valid)) s"
proof -
  obtain counts where part: "partition_wikivoyage_sections sections ids ([], 0, []) =
     (map (project_row SECTION_COLUMNS) (filter (\<lambda>r. field_str ''document_id'' r \<notin> ids) sections), length dropped, counts)"
    using partition_sections_start [of sections ids] unfolding dropped_def by metis
  have ids: "rejected_documents stem documents valid =
      (map (project_row DOCUMENT_COLUMNS) (filter (\<lambda>r. field_str ''wikidata'' r \<in> valid) documents), ids,
       map (document_rejection stem []) bad)"
    by (auto simp: rejected_documents_def partition_documents_filter ids_def rejected_ids_def bad_def
        document_rejection_def dict_get_def image_image)
  have docs: "map (project_row DOCUMENT_COLUMNS) (filter (\<lambda>r. field_str ''wikidata'' r \<in> valid) documents)
      = filter (\<lambda>r. field_str ''wikidata'' r \<in> valid) documents"
    using load by (auto simp: load_inputs_Inr intro: read_table_filter)
  have secs: "map (project_row SECTION_COLUMNS) (filter P sections) = filter P sections" for P
    using load by (intro map_idI) (auto simp: load_inputs_Inr split: option.splits)
  have attach: "attach_cascade_counts (map (document_rejection stem []) bad) counts = map (document_rejection stem counts) bad"
    by (simp add: attach_cascade_counts_def document_rejection_def)
  have result: "documents_result stem documents sections valid =
      \<lparr>wr_shard = stem, wr_original_document_count = length documents,
       wr_retained_document_count = length (filter (\<lambda>r. field_str ''wikidata'' r \<in> valid) documents),
       wr_rejected_document_count = length bad, wr_original_section_count = length sections,
       wr_retained_section_count = length (filter (\<lambda>r. field_str ''document_id'' r \<notin> ids) sections),
       wr_cascaded_section_count = length dropped, wr_rewritten_documents = (bad \<noteq> []),
       wr_rewritten_sections = (dropped \<noteq> []), wr_rejections = sort_rejections (map (document_rejection stem counts) bad)\<rparr>"
    using part by (simp add: documents_result_def Let_def ids_def bad_def dropped_def)
  have read: "op_read (load_wikivoyage_integrity_inputs stem) s = (Inr (documents, sections, valid), s)"
    using load by (simp add: op_read_def)
  show ?thesis
    unfolding enforce_wikivoyage_integrity_def op_bind_run(1) [of "op_read (load_wikivoyage_integrity_inputs stem)", OF read]
    by (simp add: ids part attach docs secs result Let_def)
qed

lemma enforce_documents_Inr:
  assumes "enforce_wikivoyage_integrity stem dry s = (Inr res, s')"
  obtains documents sections valid where "load_wikivoyage_integrity_inputs stem s = Inr (documents, sections, valid)"
    "res = documents_result stem documents sections valid"
proof -
  obtain documents sections valid where load: "load_wikivoyage_integrity_inputs stem s = Inr (documents, sections, valid)"
    using assms by (auto simp: enforce_wikivoyage_integrity_def op_runs)
  then have "res = documents_result stem documents sections valid"
    using assms by (auto simp: enforce_documents_run op_runs)
  with load show thesis
    by (rule that)
qed

definition changes_documents :: "string \<Rightarrow> shard_files \<Rightarrow> shard_files \<Rightarrow> bool" where
  "changes_documents stem s s' \<longleftrightarrow>
     (\<exists>b d c. s' = s\<lparr>write_budget := b, voyage_documents := d, voyage_sections := c\<rparr>
        \<and> (\<forall>x. x \<noteq> stem \<longrightarrow> map_of d x = map_of (voyage_documents s) x \<and> map_of c x = map_of (voyage_sections s) x))"

lemma changes_documents_refl: "changes_documents stem s s"
  unfolding changes_documents_def
  by (intro exI [of _ "write_budget s"] exI [of _ "voyage_documents s"] exI [of _ "voyage_sections s"]) simp

lemma changes_documents_trans:
  assumes "changes_documents stem s t" and "changes_documents stem t u"
  shows "changes_documents stem s u"
proof -
  obtain b d c where t: "t = s\<lparr>write_budget := b, voyage_documents := d, voyage_sections := c\<rparr>"
    "\<forall>x. x \<noteq> stem \<longrightarrow> map_of d x = map_of (voyage_documents s) x \<and> map_of c x = map_of (voyage_sections s) x"
    using assms(1) unfolding changes_documents_def by blast
  obtain b' d' c' where u: "u = t\<lparr>write_budget := b', voyage_documents := d', voyage_sections := c'\<rparr>"
    "\<forall>x. x \<noteq> stem \<longrightarrow> map_of d' x = map_of (voyage_documents t) x \<and> map_of c' x = map_of (voyage_sections t) x"
    using assms(2) unfolding changes_documents_def by blast
  have "u = s\<lparr>write_budget := b', voyage_documents := d', voyage_sections := c'\<rparr>"
    using t(1) u(1) by simp
  moreover have "\<forall>x. x \<noteq> stem \<longrightarrow> map_of d' x = map_of (voyage_documents s) x \<and> map_of c' x = map_of (voyage_sections s) x"
    using t u(2) by simp
  ultimately show ?thesis
    unfolding changes_documents_def by blast
qed

lemma write_table_changes:
  assumes "write_documents stem rows s = (r, s') \<or> write_sections stem rows s = (r, s')"
  shows "changes_documents stem s s'"
  using assms
proof
  assume "write_documents stem rows s = (r, s')"
  then show ?thesis
    unfolding write_documents_def
  proof (cases rule: durable_write_cases)
    case (written b)
    then show ?thesis
      unfolding changes_documents_def
      by (intro exI [of _ b] exI [of _ "AList.update stem rows (voyage_documents s)"] exI [of _ "voyage_sections s"]) simp
  qed (simp add: changes_documents_refl)
next
  assume "write_sections stem rows s = (r, s')"
  then show ?thesis
    unfolding write_sections_def
  proof (cases rule: durable_write_cases)
    case (written b)
    then show ?thesis
      unfolding changes_documents_def
      by (intro exI [of _ b] exI [of _ "voyage_documents s"] exI [of _ "AList.update stem rows (voyage_sections s)"]) simp
  qed (simp add: changes_documents_refl)
qed

lemma op_when_changes:
  assumes "op_when b m s = (r, s')" and "\<And>r s s'. m s = (r, s') \<Longrightarrow> changes_documents stem s s'"
  shows "changes_documents stem s s'"
  using assms by (auto simp: op_when_def op_ret_def changes_documents_refl split: if_splits)

lemma op_bind_changes:
  assumes "op_bind m f s = (r, s')" and "\<And>r s'. m s = (r, s') \<Longrightarrow> changes_documents stem s s'"
    and "\<And>x s r s'. f x s = (r, s') \<Longrightarrow> changes_documents stem s s'"
  shows "changes_documents stem s s'"
proof -
  obtain a t where m: "m s = (a, t)"
    by (cases "m s")
  show ?thesis
  proof (cases a)
    case (Inl e)
    then show ?thesis
      using assms(1,2) m by (auto simp: op_bind_def)
  next
    case (Inr x)
    then have "f x t = (r, s')"
      using assms(1) m by simp
    then show ?thesis
      using changes_documents_trans [OF assms(2) [OF m]] assms(3) by blast
  qed
qed

lemma enforce_documents_changes:
  assumes "enforce_wikivoyage_integrity stem dry s = (res, s')"
  shows "changes_documents stem s s'"
proof (cases "load_wikivoyage_integrity_inputs stem s")
  case (Inl e)
  then show ?thesis
    using assms by (simp add: enforce_wikivoyage_integrity_def op_bind_def op_read_def changes_documents_refl)
next
  case (Inr inputs)
  obtain documents sections valid where "inputs = (documents, sections, valid)"
    by (cases inputs)
  with Inr show ?thesis
    using assms unfolding enforce_documents_run [OF Inr [unfolded \<open>inputs = _\<close>]] write_wikivoyage_integrity_tables_def
    by (elim op_bind_changes op_when_changes) (auto simp: op_ret_def intro: changes_documents_refl write_table_changes)
qed

lemma rejected_ids_none: "(\<forall>r\<in>set documents. field_str ''wikidata'' r \<in> valid) \<Longrightarrow> rejected_ids documents valid = {}"
  by (auto simp: rejected_ids_def)

definition dropped_rows :: "wikivoyage_result \<Rightarrow> nat" where
  "dropped_rows r = wr_rejected_document_count r + wr_cascaded_section_count r"

lemma documents_joined_settled:
  assumes "documents_joined stem s"
  obtains res where "dropped_rows res = 0" "\<And>dry. enforce_wikivoyage_integrity stem dry s = (Inr res, s)"
proof -
  obtain documents sections valid where load: "load_wikivoyage_integrity_inputs stem s = Inr (documents, sections, valid)"
    and ok: "\<forall>r\<in>set documents. field_str ''wikidata'' r \<in> valid"
    using assms by (auto simp: documents_joined_def)
  show thesis
  proof
    show "dropped_rows (documents_result stem documents sections valid) = 0"
      using ok by (simp add: dropped_rows_def documents_result_def Let_def rejected_ids_none)
    show "enforce_wikivoyage_integrity stem dry s = (Inr (documents_result stem documents sections valid), s)" for dry
      using ok by (simp add: enforce_documents_run [OF load] rejected_ids_none [OF ok] write_wikivoyage_integrity_tables_def
          op_when_def op_bind_def op_ret_def)
  qed
qed

text \<open>A real run leaves the valid documents and the sections of documents that were not rejected.\<close>

lemma enforce_documents_state:
  assumes run: "enforce_wikivoyage_integrity stem False s = (Inr res, s')"
    and load: "load_wikivoyage_integrity_inputs stem s = Inr (documents, sections, valid)"
  shows "load_wikivoyage_integrity_inputs stem s' =
    Inr (filter (\<lambda>r. field_str ''wikidata'' r \<in> valid) documents,
         filter (\<lambda>r. field_str ''document_id'' r \<notin> rejected_ids documents valid) sections, valid)"
proof -
  let ?docs = "filter (\<lambda>r. field_str ''wikidata'' r \<in> valid) documents"
  let ?secs = "filter (\<lambda>r. field_str ''document_id'' r \<notin> rejected_ids documents valid) sections"
  obtain s1 where first: "op_when (filter (\<lambda>r. field_str ''wikidata'' r \<notin> valid) documents \<noteq> []) (write_documents stem ?docs) s = (Inr (), s1)"
    and second: "op_when (filter (\<lambda>r. field_str ''document_id'' r \<in> rejected_ids documents valid) sections \<noteq> [])
      (write_sections stem ?secs) s1 = (Inr (), s')"
    using run by (auto simp: enforce_documents_run [OF load] write_wikivoyage_integrity_tables_def op_bind_Inr op_ret_run)
  have docs: "map (project_row DOCUMENT_COLUMNS) ?docs = ?docs"
    using load by (auto simp: load_inputs_Inr intro: read_table_filter)
  have secs: "map (project_row SECTION_COLUMNS) ?secs = ?secs"
    using load by (intro map_idI) (auto simp: load_inputs_Inr split: option.splits)
  have s1: "load_wikivoyage_integrity_inputs stem s1 = Inr (?docs, sections, valid)"
  proof (cases "filter (\<lambda>r. field_str ''wikidata'' r \<notin> valid) documents = []")
    case True
    then have "?docs = documents"
      by (simp add: filter_empty_conv filter_id_conv)
    then show ?thesis
      using first load True by (simp add: op_when_def op_ret_def)
  next
    case False
    then obtain b where "s1 = s\<lparr>write_budget := b, voyage_documents := AList.update stem ?docs (voyage_documents s)\<rparr>"
      using first by (auto simp: op_when_def write_documents_def elim!: durable_write_cases)
    then show ?thesis
      using load read_table_written [of "''wikivoyage/documents''" stem DOCUMENT_COLUMNS ?docs] docs
      by (simp add: load_inputs_Inr)
  qed
  show ?thesis
  proof (cases "filter (\<lambda>r. field_str ''document_id'' r \<in> rejected_ids documents valid) sections = []")
    case True
    then have "?secs = sections"
      by (simp add: filter_empty_conv filter_id_conv)
    then show ?thesis
      using second s1 True by (simp add: op_when_def op_ret_def)
  next
    case False
    then obtain b where "s' = s1\<lparr>write_budget := b, voyage_sections := AList.update stem ?secs (voyage_sections s1)\<rparr>"
      using second by (auto simp: op_when_def write_sections_def elim!: durable_write_cases)
    then show ?thesis
      using s1 secs by (simp add: load_inputs_Inr)
  qed
qed

interpretation documents_pass:
  integrity_pass enforce_wikivoyage_integrity same_voyage documents_joined dropped_rows
proof
  fix stem s t
  assume "documents_joined stem s" "same_voyage stem s t"
  then show "documents_joined stem t"
    using load_cong [of stem s t] by (simp add: documents_joined_def)
next
  fix stem s r s'
  assume run: "enforce_wikivoyage_integrity stem False s = (Inr r, s')"
  then obtain documents sections valid where "load_wikivoyage_integrity_inputs stem s = Inr (documents, sections, valid)"
    by (rule enforce_documents_Inr)
  then show "documents_joined stem s'"
    using enforce_documents_state [OF run] by (auto simp: documents_joined_def)
next
  fix stem s r s' t
  assume run: "enforce_wikivoyage_integrity stem False s = (Inr r, s')" and same: "same_voyage stem s t"
  obtain documents sections valid where load: "load_wikivoyage_integrity_inputs stem s = Inr (documents, sections, valid)"
    and r: "r = documents_result stem documents sections valid"
    using run by (rule enforce_documents_Inr)
  then have "load_wikivoyage_integrity_inputs stem t = Inr (documents, sections, valid)"
    using load_cong [OF same] by simp
  then show "enforce_wikivoyage_integrity stem True t = (Inr r, t)"
    by (simp add: enforce_documents_run r write_wikivoyage_integrity_tables_def op_when_def op_bind_def op_ret_def)
next
  fix stem s res s' and x :: string
  assume "enforce_wikivoyage_integrity stem False s = (res, s')" "x \<noteq> stem"
  then show "same_voyage x s s'"
    using enforce_documents_changes by (fastforce simp: changes_documents_def same_voyage_def)
next
  fix stem s
  assume "documents_joined stem s"
  then show "\<exists>r. dropped_rows r = 0 \<and> (\<forall>dry. enforce_wikivoyage_integrity stem dry s = (Inr r, s))"
    by (rule documents_joined_settled) blast
qed (auto simp: same_voyage_def)

section \<open>The loop over the regions\<close>

lemma links_keep_voyage: "changes_links stem s s' \<Longrightarrow> same_voyage x s s'"
  by (auto simp: changes_links_def same_voyage_def)

lemma documents_keep_links: "changes_documents stem s s' \<Longrightarrow> same_links x s s'"
  by (auto simp: changes_documents_def same_links_def)

text \<open>One round of the loop.\<close>

definition links_step :: "string \<Rightarrow> bool \<Rightarrow> polygon_articles_result list \<Rightarrow> polygon_articles_result list shard_op" where
  "links_step stem dry ps s =
     (if map_of (links s) stem \<noteq> None then op_bind (enforce_polygon_articles_integrity stem dry) (\<lambda>r. op_ret (ps @ [r])) s
      else (Inr ps, s))"

definition documents_step :: "string \<Rightarrow> bool \<Rightarrow> wikivoyage_result list \<Rightarrow> wikivoyage_result list shard_op" where
  "documents_step stem dry ws s =
     (if map_of (voyage_documents s) stem \<noteq> None then op_bind (enforce_wikivoyage_integrity stem dry) (\<lambda>r. op_ret (ws @ [r])) s
      else (Inr ws, s))"

lemma collect_round:
  "collect_integrity_results (stem # stems) dry ps ws s =
     op_bind (links_step stem dry ps) (\<lambda>ps. op_bind (documents_step stem dry ws) (\<lambda>ws.
       collect_integrity_results stems dry ps ws)) s"
  by (simp add: links_step_def [abs_def] documents_step_def [abs_def])

declare collect_integrity_results.simps(2) [simp del]

text \<open>Both joins of a region, where its tables exist.\<close>

definition region_joined :: "string \<Rightarrow> shard_files \<Rightarrow> bool" where
  "region_joined stem s \<longleftrightarrow> (map_of (links s) stem \<noteq> None \<longrightarrow> links_joined stem s)
     \<and> (map_of (voyage_documents s) stem \<noteq> None \<longrightarrow> documents_joined stem s)"

lemma links_step_Inr:
  assumes "links_step stem False ps s = (Inr ps', s')"
  shows "changes_links stem s s' \<and> (map_of (links s') stem \<noteq> None \<longrightarrow> links_joined stem s')
    \<and> (\<forall>x. links_joined x s \<longrightarrow> links_joined x s')
    \<and> (\<forall>t. same_links stem s t \<longrightarrow> links_step stem True ps t = (Inr ps', t))"
proof (cases "map_of (links s) stem = None")
  case True
  then show ?thesis
    using assms by (auto simp: links_step_def changes_links_def same_links_def)
next
  case False
  then obtain r where run: "enforce_polygon_articles_integrity stem False s = (Inr r, s')" and "ps' = ps @ [r]"
    using assms by (auto simp: links_step_def op_runs)
  then show ?thesis
    using False enforce_links_changes [OF run] enforce_links_joined [OF run] links_pass.keeps_joined [OF run]
      links_pass.dry_same [OF run]
    by (auto simp: links_step_def op_ret_def same_links_def)
qed

lemma documents_step_Inr:
  assumes "documents_step stem False ws s = (Inr ws', s')"
  shows "changes_documents stem s s' \<and> (map_of (voyage_documents s') stem \<noteq> None \<longrightarrow> documents_joined stem s')
    \<and> (\<forall>x. documents_joined x s \<longrightarrow> documents_joined x s')
    \<and> (\<forall>t. same_voyage stem s t \<longrightarrow> documents_step stem True ws t = (Inr ws', t))"
proof (cases "map_of (voyage_documents s) stem = None")
  case True
  then show ?thesis
    using assms by (auto simp: documents_step_def changes_documents_refl same_voyage_def)
next
  case False
  then obtain r where run: "enforce_wikivoyage_integrity stem False s = (Inr r, s')" and "ws' = ws @ [r]"
    using assms by (auto simp: documents_step_def op_runs)
  then show ?thesis
    using False enforce_documents_changes [OF run] documents_pass.establishes [OF run] documents_pass.keeps_joined [OF run]
      documents_pass.dry_same [OF run]
    by (auto simp: documents_step_def op_ret_def same_voyage_def)
qed

lemma changes_links_other: "changes_links stem s s' \<Longrightarrow> x \<noteq> stem \<Longrightarrow> same_links x s s'"
  by (auto simp: changes_links_def same_links_def)

lemma changes_documents_other: "changes_documents stem s s' \<Longrightarrow> x \<noteq> stem \<Longrightarrow> same_voyage x s s'"
  by (auto simp: changes_documents_def same_voyage_def)

lemma region_joined_same:
  "region_joined x s \<Longrightarrow> same_links x s t \<Longrightarrow> same_voyage x s t \<Longrightarrow> region_joined x t"
  using links_pass.joined_same [of x s t] documents_pass.joined_same [of x s t]
  by (auto simp: region_joined_def same_links_def same_voyage_def)

lemma round_other:
  assumes "links_step stem False ps s = (Inr ps', s1)" and "documents_step stem False ws s1 = (Inr ws', s2)" and "x \<noteq> stem"
  shows "same_links x s s2" and "same_voyage x s s2"
proof -
  have l: "changes_links stem s s1" and d: "changes_documents stem s1 s2"
    using links_step_Inr [OF assms(1), THEN conjunct1] documents_step_Inr [OF assms(2), THEN conjunct1] .
  show "same_links x s s2"
    using links_pass.same_trans [OF changes_links_other [OF l assms(3)] documents_keep_links [OF d]] .
  show "same_voyage x s s2"
    using documents_pass.same_trans [OF links_keep_voyage [OF l] changes_documents_other [OF d assms(3)]] .
qed

lemma round_joined:
  assumes l: "links_step stem False ps s = (Inr ps', s1)" and d: "documents_step stem False ws s1 = (Inr ws', s2)"
  shows "region_joined stem s2" and "region_joined x s \<Longrightarrow> region_joined x s2"
proof -
  have keep: "same_links stem s1 s2"
    using documents_step_Inr [OF d] documents_keep_links by blast
  have "links_joined stem s2" if "map_of (links s2) stem \<noteq> None"
    using that keep links_step_Inr [OF l] links_pass.joined_same [OF _ keep] by (auto simp: same_links_def)
  then show joined: "region_joined stem s2"
    using documents_step_Inr [OF d] unfolding region_joined_def by blast
  show "region_joined x s2" if "region_joined x s"
    using joined region_joined_same [OF that round_other [OF l d]] by (cases "x = stem") simp_all
qed

lemma collect_round_Inr:
  assumes "collect_integrity_results (stem # stems) dry ps ws s = (Inr res, s')"
  obtains ps1 s1 ws1 s2 where "links_step stem dry ps s = (Inr ps1, s1)" "documents_step stem dry ws s1 = (Inr ws1, s2)"
    "collect_integrity_results stems dry ps1 ws1 s2 = (Inr res, s')"
  using assms by (auto simp: collect_round op_bind_Inr)

lemma collect_joined:
  assumes "collect_integrity_results stems False ps ws s = (Inr res, s')"
  shows "(\<forall>x\<in>set stems. region_joined x s') \<and> (\<forall>x. region_joined x s \<longrightarrow> region_joined x s')"
  using assms
proof (induction stems arbitrary: ps ws s)
  case (Cons stem stems)
  from Cons.prems obtain ps1 s1 ws1 s2 where steps: "links_step stem False ps s = (Inr ps1, s1)"
      "documents_step stem False ws s1 = (Inr ws1, s2)"
    and rest: "collect_integrity_results stems False ps1 ws1 s2 = (Inr res, s')"
    by (rule collect_round_Inr)
  show ?case
    using Cons.IH [OF rest] round_joined [OF steps] by auto
qed simp

lemma collect_dry:
  assumes "collect_integrity_results stems False ps ws s = (Inr res, s')" and "distinct stems"
    and "\<forall>x\<in>set stems. same_links x s t \<and> same_voyage x s t"
  shows "collect_integrity_results stems True ps ws t = (Inr res, t)"
  using assms
proof (induction stems arbitrary: ps ws s)
  case (Cons stem stems)
  from Cons.prems(1) obtain ps1 s1 ws1 s2 where steps: "links_step stem False ps s = (Inr ps1, s1)"
      "documents_step stem False ws s1 = (Inr ws1, s2)"
    and rest: "collect_integrity_results stems False ps1 ws1 s2 = (Inr res, s')"
    by (rule collect_round_Inr)
  have l: "links_step stem True ps t = (Inr ps1, t)"
    using links_step_Inr [OF steps(1)] Cons.prems(3) by simp
  have "same_voyage stem s s1"
    using links_step_Inr [OF steps(1)] links_keep_voyage by blast
  then have "same_voyage stem s1 t"
    using Cons.prems(3) by (simp add: same_voyage_def)
  then have d: "documents_step stem True ws t = (Inr ws1, t)"
    using documents_step_Inr [OF steps(2)] by simp
  have "\<forall>x\<in>set stems. same_links x s2 t \<and> same_voyage x s2 t"
  proof
    fix x
    assume x: "x \<in> set stems"
    then have "same_links x s s2 \<and> same_voyage x s s2"
      using round_other [OF steps, of x] Cons.prems(2) by (metis distinct.simps(2))
    moreover have "same_links x s t \<and> same_voyage x s t"
      using Cons.prems(3) x by simp
    ultimately show "same_links x s2 t \<and> same_voyage x s2 t"
      by (simp add: same_links_def same_voyage_def)
  qed
  then have "collect_integrity_results stems True ps1 ws1 t = (Inr res, t)"
    using Cons.IH [OF rest] Cons.prems(2) by simp
  then show ?case
    using l d by (simp add: collect_round)
qed simp

lemma collect_settled:
  assumes "\<forall>x\<in>set stems. region_joined x s"
  shows "\<exists>ps' ws'. (\<forall>r\<in>set ps'. pr_rejected_row_count r = 0) \<and> (\<forall>r\<in>set ws'. dropped_rows r = 0)
    \<and> (\<forall>dry. collect_integrity_results stems dry ps ws s = (Inr (ps @ ps', ws @ ws'), s))"
  using assms
proof (induction stems arbitrary: ps ws)
  case (Cons stem stems)
  obtain p where p: "\<forall>r\<in>set p. pr_rejected_row_count r = 0" "\<And>dry. links_step stem dry ps s = (Inr (ps @ p), s)"
  proof (cases "map_of (links s) stem = None")
    case True
    with that [of "[]"] show thesis
      by (simp add: links_step_def)
  next
    case False
    then have "links_joined stem s"
      using Cons.prems by (simp add: region_joined_def)
    then obtain r where "pr_rejected_row_count r = 0" "\<And>dry. enforce_polygon_articles_integrity stem dry s = (Inr r, s)"
      by (rule links_joined_settled) blast
    with False that [of "[r]"] show thesis
      by (simp add: links_step_def op_ret_def)
  qed
  obtain w where w: "\<forall>r\<in>set w. dropped_rows r = 0" "\<And>dry. documents_step stem dry ws s = (Inr (ws @ w), s)"
  proof (cases "map_of (voyage_documents s) stem = None")
    case True
    with that [of "[]"] show thesis
      by (simp add: documents_step_def)
  next
    case False
    then have "documents_joined stem s"
      using Cons.prems by (simp add: region_joined_def)
    then obtain r where "dropped_rows r = 0" "\<And>dry. enforce_wikivoyage_integrity stem dry s = (Inr r, s)"
      by (rule documents_joined_settled) blast
    with False that [of "[r]"] show thesis
      by (simp add: documents_step_def op_ret_def)
  qed
  obtain ps' ws' where "\<forall>r\<in>set ps'. pr_rejected_row_count r = 0" "\<forall>r\<in>set ws'. dropped_rows r = 0"
    "\<forall>dry. collect_integrity_results stems dry (ps @ p) (ws @ w) s = (Inr ((ps @ p) @ ps', (ws @ w) @ ws'), s)"
    using Cons.IH [of "ps @ p" "ws @ w"] Cons.prems by auto
  then show ?case
    using p w by (intro exI [of _ "p @ ps'"] exI [of _ "w @ ws'"]) (auto simp: collect_round)
qed simp

text \<open>
  C24. A dry run of the integrity pass changes nothing and reports exactly what the real run over the
  same distinct regions reports.
\<close>

theorem integrity_dry_run_exact:
  assumes "enforce_all_regions now stems audit False s = (Inr report, s')" and "distinct (selected_stems stems s)"
  shows "enforce_all_regions now stems audit True s = (Inr report, s)"
proof -
  obtain ps ws s1 where real: "collect_integrity_results (selected_stems stems s) False [] [] s = (Inr (ps, ws), s1)"
    and report: "report = \<lparr>rp_polygon_articles = sort_key pr_shard ps, rp_wikivoyage = sort_key wr_shard ws\<rparr>"
    using assms(1) by (auto simp: enforce_all_regions_def op_runs Let_def)
  have "collect_integrity_results (selected_stems stems s) True [] [] s = (Inr (ps, ws), s)"
    using collect_dry [OF real assms(2)] by (simp add: same_links_def same_voyage_def)
  then show ?thesis
    using report by (simp add: enforce_all_regions_def op_ret_def)
qed

text \<open>
  C14. The integrity pass establishes the joins and is idempotent: after a successful run over a list
  of regions, in each of them every link row carries the wikidata of the polygon it names and every
  Wikivoyage document has the wikidata of a polygon; a second run drops no row, rewrites no table and
  only writes its audit file.
\<close>

theorem integrity_established:
  assumes "enforce_all_regions now (Some stems) audit False s = (Inr report, s')"
  shows "(\<forall>stem\<in>set stems. region_joined stem s')
    \<and> (\<exists>again. total_polygon_articles_rejected again = 0 \<and> total_wikivoyage_documents_rejected again = 0
         \<and> total_wikivoyage_sections_cascaded again = 0
         \<and> enforce_all_regions later (Some stems) audit False (s'\<lparr>write_budget := None\<rparr>)
           = (Inr again, s'\<lparr>write_budget := None, integrity_files := (integrity_files s')
               (audit := write_json (integrity_audit_payload later again))\<rparr>))"
proof -
  obtain ps ws s1 where real: "collect_integrity_results stems False [] [] s = (Inr (ps, ws), s1)"
    and audit: "write_integrity_file audit (integrity_audit_payload now report) s1 = (Inr (), s')"
    using assms by (auto simp: enforce_all_regions_def selected_stems_def op_runs Let_def)
  let ?t = "s'\<lparr>write_budget := None\<rparr>"
  from audit obtain b f where "s' = s1\<lparr>write_budget := b, integrity_files := f\<rparr>"
    unfolding write_integrity_file_def by (auto elim!: durable_write_cases)
  then have same: "same_links x s1 u" "same_voyage x s1 u" if "u \<in> {s', ?t}" for x u
    using that by (auto simp: same_links_def same_voyage_def)
  have joined: "region_joined x u" if "x \<in> set stems" "u \<in> {s', ?t}" for x u
    using collect_joined [OF real] that same [OF that(2), of x] links_pass.joined_same [of x s1 u]
      documents_pass.joined_same [of x s1 u]
    by (auto simp: region_joined_def same_links_def same_voyage_def)
  obtain ps' ws' where zero: "\<forall>r\<in>set ps'. pr_rejected_row_count r = 0" "\<forall>r\<in>set ws'. dropped_rows r = 0"
    and again: "collect_integrity_results stems False [] [] ?t = (Inr (ps', ws'), ?t)"
    using collect_settled [of stems ?t "[]" "[]"] joined by auto
  let ?again = "\<lparr>rp_polygon_articles = sort_key pr_shard ps', rp_wikivoyage = sort_key wr_shard ws'\<rparr>"
  have "enforce_all_regions later (Some stems) audit False ?t
      = (Inr ?again, s'\<lparr>write_budget := None, integrity_files := (integrity_files s')
          (audit := write_json (integrity_audit_payload later ?again))\<rparr>)"
    using again by (simp add: enforce_all_regions_def selected_stems_def write_integrity_file_def durable_write_def
        op_bind_def op_ret_def Let_def)
  moreover have "total_polygon_articles_rejected ?again = 0" "total_wikivoyage_documents_rejected ?again = 0"
    "total_wikivoyage_sections_cascaded ?again = 0"
    using zero by (simp_all add: total_polygon_articles_rejected_def total_wikivoyage_documents_rejected_def
        total_wikivoyage_sections_cascaded_def dropped_rows_def)
  ultimately show ?thesis
    using joined by blast
qed

section \<open>Examples\<close>

definition sample_row :: "(string \<times> string) list \<Rightarrow> row" where
  "sample_row kvs = map (\<lambda>(k, v). (k, SStr v)) kvs"

definition sample_files :: "nat option \<Rightarrow> shard_files" where
  "sample_files budget =
     \<lparr>polygons = [(''m'', [sample_row [(''polygon_id'', ''p''), (''wikidata'', ''Q1'')]])],
      links = [(''m'', [sample_row [(''polygon_id'', ''p''), (''wikidata'', ''Q1'')], sample_row [(''polygon_id'', ''p''), (''wikidata'', ''Q2'')]])],
      voyage_documents = [(''m'', [sample_row [(''document_id'', ''a''), (''wikidata'', ''Q1'')], sample_row [(''document_id'', ''b''), (''wikidata'', ''Q3'')]])],
      voyage_sections = [(''m'', [sample_row [(''section_id'', ''1''), (''document_id'', ''a'')], sample_row [(''section_id'', ''2''), (''document_id'', ''b'')]])],
      integrity_files = (\<lambda>_. Absent), write_budget = budget\<rparr>"

text \<open>
  The order of the two writes matters: when the device fails between them, the documents are
  already filtered, so the repeated pass finds nothing to reject and the sections of the dropped
  document stay for ever.
\<close>

theorem interrupted_pass_orphans_sections:
  "case enforce_wikivoyage_integrity ''m'' False (sample_files (Some 1)) of
     (r, s) \<Rightarrow>
       r = Inl (OSError ''No space left on device'') \<and>
       (case enforce_wikivoyage_integrity ''m'' False (s\<lparr>write_budget := None\<rparr>) of
          (again, t) \<Rightarrow> (case again of Inl _ \<Rightarrow> False | Inr res \<Rightarrow> dropped_rows res = 0)
            \<and> map (map (field_str ''document_id'')) (map snd (voyage_documents t)) = [[''a'']]
            \<and> map (map (field_str ''document_id'')) (map snd (voyage_sections t)) = [[''a'', ''b'']])"
  by code_simp

lemma sample_pass_succeeds:
  "\<exists>report s'. enforce_all_regions ''t'' (Some [''m'']) ''audit'' False (sample_files None) = (Inr report, s')"
proof -
  have "\<not> isl (fst (enforce_all_regions ''t'' (Some [''m'']) ''audit'' False (sample_files None)))"
    by code_simp
  then show ?thesis
    by (metis prod.collapse sum.collapse(2))
qed

theorem integrity_dry_run_exact_witness:
  "\<exists>report s'. enforce_all_regions ''t'' (Some [''m'']) ''audit'' False (sample_files None) = (Inr report, s')
     \<and> enforce_all_regions ''t'' (Some [''m'']) ''audit'' True (sample_files None) = (Inr report, sample_files None)"
proof -
  obtain report s' where run: "enforce_all_regions ''t'' (Some [''m'']) ''audit'' False (sample_files None) = (Inr report, s')"
    using sample_pass_succeeds by blast
  have "distinct (selected_stems (Some [''m'']) (sample_files None))"
    by (simp add: selected_stems_def)
  with integrity_dry_run_exact [OF run] run show ?thesis
    by blast
qed

theorem integrity_established_witness:
  "\<exists>report s' again. enforce_all_regions ''t'' (Some [''m'']) ''audit'' False (sample_files None) = (Inr report, s')
     \<and> region_joined ''m'' s' \<and> total_polygon_articles_rejected again = 0
     \<and> enforce_all_regions ''u'' (Some [''m'']) ''audit'' False (s'\<lparr>write_budget := None\<rparr>)
       = (Inr again, s'\<lparr>write_budget := None, integrity_files := (integrity_files s')
           (''audit'' := write_json (integrity_audit_payload ''u'' again))\<rparr>)"
proof -
  obtain report s' where run: "enforce_all_regions ''t'' (Some [''m'']) ''audit'' False (sample_files None) = (Inr report, s')"
    using sample_pass_succeeds by blast
  show ?thesis
    using integrity_established [OF run, of "''u''"] run by auto
qed

end
