(* ===== verification/Rejection_Ledger.thy ===== *)
theory Rejection_Ledger
  imports Integrity
begin

text \<open>
  The cumulative ledger of rejected rows and the two-stage normalisation that feeds it
  (\<open>augmentation/rejection_ledger.py\<close>), over the files of \<open>Integrity\<close>. Values read from a ledger
  file are JSON values until the constructor of a record has accepted them.
\<close>

definition LEDGER_CONTRACT_VERSION :: string where
  "LEDGER_CONTRACT_VERSION = ''rejection-ledger-v1''"

definition LEDGER_FILENAME :: string where
  "LEDGER_FILENAME = ''rejection_ledger.json''"

definition SUPPORTED_SOURCE_TABLES :: "string list" where
  "SUPPORTED_SOURCE_TABLES = [''polygon_articles'', ''wikivoyage_documents'']"

section \<open>Records\<close>

definition require_nonempty_string :: "json \<Rightarrow> string res" where
  "require_nonempty_string value =
     (case value of
        JStr s \<Rightarrow> if s \<noteq> [] then Inr s else Inl (ValueError ''Rejection field must be a non-empty string'')
      | _ \<Rightarrow> Inl (ValueError ''Rejection field must be a non-empty string''))"

definition validate_source_table :: "json \<Rightarrow> string res" where
  "validate_source_table value =
     (case value of
        JStr t \<Rightarrow> if t \<in> set SUPPORTED_SOURCE_TABLES then Inr t else Inl (ValueError ''Unsupported source_table'')
      | JList _ \<Rightarrow> Inl (TypeError ''unhashable type'')
      | JObj _ \<Rightarrow> Inl (TypeError ''unhashable type'')
      | _ \<Rightarrow> Inl (ValueError ''Unsupported source_table''))"

text \<open>The rejection module's \<open>_is_valid_qid\<close>, with the value it lets through.\<close>

definition ledger_qid :: "json \<Rightarrow> string option res" where
  "ledger_qid value =
     (case value of
        JNull \<Rightarrow> Inr None
      | JStr v \<Rightarrow> if qids_from_osm_tag v \<noteq> [] then Inr (Some v) else Inl (ValueError ''Rejection wikidata must be a valid QID'')
      | _ \<Rightarrow> Inl (ValueError ''Rejection wikidata must be a valid QID''))"

definition new_rejection :: "json \<Rightarrow> json \<Rightarrow> json \<Rightarrow> json \<Rightarrow> json \<Rightarrow> json \<Rightarrow> int \<Rightarrow> rejection res" where
  "new_rejection shard source_table identifier wikidata expected reason cascaded =
     res_bind (require_nonempty_string shard) (\<lambda>shard.
     res_bind (require_nonempty_string identifier) (\<lambda>identifier.
     res_bind (require_nonempty_string reason) (\<lambda>reason.
     res_bind (validate_source_table source_table) (\<lambda>source_table.
     res_bind (ledger_qid wikidata) (\<lambda>wikidata.
     res_bind (ledger_qid expected) (\<lambda>expected.
     res_bind (guard (0 \<le> cascaded) (ValueError ''Rejection cascaded_sections must be a non-negative int'')) (\<lambda>_.
       Inr \<lparr>rj_shard = shard, rj_source_table = source_table, rj_identifier = identifier, rj_wikidata = wikidata,
            rj_expected = expected, rj_reason = reason, rj_cascaded_sections = cascaded\<rparr>)))))))"

type_synonym identity = "string \<times> string \<times> string \<times> string option \<times> string option"

definition rejection_identity :: "rejection \<Rightarrow> identity" where
  "rejection_identity r = (rj_shard r, rj_source_table r, rj_identifier r, rj_wikidata r, rj_expected r)"

text \<open>A copy of a record with another count, through the constructor.\<close>

definition with_cascades :: "rejection \<Rightarrow> int \<Rightarrow> rejection res" where
  "with_cascades r n =
     new_rejection (JStr (rj_shard r)) (JStr (rj_source_table r)) (JStr (rj_identifier r)) (opt_json (rj_wikidata r))
       (opt_json (rj_expected r)) (JStr (rj_reason r)) n"

section \<open>Merging\<close>

definition merge_record :: "rejection \<Rightarrow> (identity, rejection) dict \<Rightarrow> (identity, rejection) dict res" where
  "merge_record record by_identity =
     (case map_of by_identity (rejection_identity record) of
        None \<Rightarrow> Inr (AList.update (rejection_identity record) record by_identity)
      | Some existing \<Rightarrow>
          res_bind (with_cascades existing (max (rj_cascaded_sections existing) (rj_cascaded_sections record))) (\<lambda>merged.
            Inr (AList.update (rejection_identity record) merged by_identity)))"

definition ledger_key :: "rejection \<Rightarrow> string \<times> string \<times> string \<times> string list" where
  "ledger_key r = (rj_shard r, rj_source_table r, rj_identifier r, case rj_wikidata r of None \<Rightarrow> [] | Some q \<Rightarrow> [q])"

text \<open>
  Two keys with equal heads, one of which ends in \<open>None\<close>, do not compare; a sort of a list that
  has both compares such a pair.
\<close>

definition incomparable :: "rejection \<Rightarrow> rejection \<Rightarrow> bool" where
  "incomparable a b \<longleftrightarrow> rj_shard a = rj_shard b \<and> rj_source_table a = rj_source_table b \<and> rj_identifier a = rj_identifier b
     \<and> (rj_wikidata a = None) \<noteq> (rj_wikidata b = None)"

definition sort_ledger :: "rejection list \<Rightarrow> rejection list res" where
  "sort_ledger records =
     (if list_ex (\<lambda>a. list_ex (incomparable a) records) records
      then Inl (TypeError ''not supported between instances of str and NoneType'')
      else Inr (sort_key ledger_key records))"

definition merge_records :: "rejection list \<Rightarrow> rejection list res" where
  "merge_records records = res_bind (res_fold merge_record records []) (\<lambda>d. sort_ledger (map snd d))"

section \<open>Files\<close>

definition ledger_payload :: "rejection list \<Rightarrow> json" where
  "ledger_payload records =
     JObj [(''contract_version'', JStr LEDGER_CONTRACT_VERSION), (''records'', JList (map rejection_to_dict records))]"

definition save_ledger :: "string \<Rightarrow> rejection list \<Rightarrow> unit shard_op" where
  "save_ledger name records =
     op_bind (op_read (\<lambda>_. sort_ledger records)) (\<lambda>ordered.
     let payload = ledger_payload ordered in
     op_bind (op_read (\<lambda>s. if integrity_files s name = Absent then Inr False
         else res_bind (read_json_strict (ValueError ''malformed ledger'') (integrity_files s name)) (\<lambda>existing.
           Inr (json_eq (bools_as_ints existing) (bools_as_ints payload))))) (\<lambda>unchanged.
       op_when (\<not> unchanged) (write_integrity_file name payload)))"

definition load_entry :: "json \<Rightarrow> rejection res" where
  "load_entry entry =
     (case entry of
        JObj d \<Rightarrow>
          res_bind (dict_item d ''shard'') (\<lambda>shard.
          res_bind (dict_item d ''source_table'') (\<lambda>source_table.
          res_bind (dict_item d ''identifier'') (\<lambda>identifier.
          res_bind (dict_item d ''wikidata'') (\<lambda>wikidata.
          res_bind (dict_item d ''reason'') (\<lambda>reason.
          res_bind (py_int_json (dict_get d ''cascaded_sections'' (JInt 0))) (\<lambda>cascaded.
            new_rejection shard source_table identifier wikidata (dict_get d ''expected'' JNull) reason cascaded))))))
      | _ \<Rightarrow> Inl (TypeError ''indices must be integers''))"

definition load_entries :: "json \<Rightarrow> rejection list res" where
  "load_entries v =
     (case v of
        JList entries \<Rightarrow> res_map load_entry entries
      | _ \<Rightarrow> if v = JStr [] \<or> v = JObj [] then Inr [] else Inl (TypeError ''not a list of entries''))"

definition parse_ledger :: "json \<Rightarrow> rejection list res" where
  "parse_ledger raw =
     (case raw of
        JObj d \<Rightarrow>
          res_bind (guard (map_of d ''contract_version'' = Some (JStr LEDGER_CONTRACT_VERSION))
            (ValueError ''Invalid ledger contract version'')) (\<lambda>_.
          load_entries (dict_get d ''records'' (JList [])))
      | _ \<Rightarrow> Inl (AttributeError ''object has no attribute get''))"

definition load_ledger :: "text_file \<Rightarrow> rejection list res" where
  "load_ledger file =
     (if file = Absent then Inr []
      else res_bind (read_json_strict (ValueError ''malformed ledger'') file) parse_ledger)"

definition merge_ledger_files :: "string list \<Rightarrow> string \<Rightarrow> unit shard_op" where
  "merge_ledger_files sources target =
     op_bind (op_read (\<lambda>s. res_map load_ledger (filter (\<lambda>f. f \<noteq> Absent) (map (integrity_files s) sources)))) (\<lambda>loaded.
     op_bind (op_read (\<lambda>_. merge_records (concat loaded))) (\<lambda>merged.
       save_ledger target merged))"

definition write_integrity_ledgers :: "string \<Rightarrow> rejection list \<Rightarrow> unit shard_op" where
  "write_integrity_ledgers stem rejections =
     (let stem_ledger = stem @ ''.json'' in
      op_bind (save_ledger stem_ledger rejections) (\<lambda>_ s.
        merge_ledger_files (stem_ledger # (if integrity_files s LEDGER_FILENAME \<noteq> Absent then [LEDGER_FILENAME] else []))
          LEDGER_FILENAME s))"

section \<open>Planning and applying a normalisation\<close>

record integrity_plan =
  pl_stem :: string
  pl_retained_documents :: "row list"
  pl_retained_sections :: "row list"
  pl_rejections :: "rejection list"

definition load_normalization_rows :: "string \<Rightarrow> shard_files \<Rightarrow> (string set \<times> row list \<times> row list) res" where
  "load_normalization_rows stem s =
     res_bind (read_table_required ''Polygons'' (polygons s) stem [''wikidata'']) (\<lambda>rows.
     let valid_qids = set (concat (map (\<lambda>r. qids_from_osm_tag (scalar_str (dict_get r ''wikidata'' SNull))) rows)) in
     res_bind (read_table_required ''wikivoyage/documents'' (voyage_documents s) stem DOCUMENT_COLUMNS) (\<lambda>documents.
     res_bind (case map_of (voyage_sections s) stem of None \<Rightarrow> Inr []
               | Some _ \<Rightarrow> read_table_required ''sections'' (voyage_sections s) stem SECTION_COLUMNS) (\<lambda>sections.
       Inr (valid_qids, documents, sections))))"

definition retain_documents ::
  "string \<Rightarrow> string set \<Rightarrow> row list \<Rightarrow> (row list \<times> string set \<times> rejection list) res" where
  "retain_documents stem valid_qids rows =
     (case partition_wikivoyage_documents rows valid_qids of
        (retained, rejected) \<Rightarrow>
          res_bind (res_map (\<lambda>(did, wikidata). new_rejection (JStr stem) (JStr ''wikivoyage_documents'') (JStr did)
              (JStr wikidata) JNull (JStr ''wikidata_absent_from_polygons'') 0) rejected) (\<lambda>rejections.
            Inr (retained, fst ` set rejected, rejections)))"

fun retain_sections :: "row list \<Rightarrow> string set \<Rightarrow> row list \<times> (string, nat) dict \<Rightarrow> row list \<times> (string, nat) dict" where
  "retain_sections [] rejected acc = acc"
| "retain_sections (r # rs) rejected (retained, cascades) =
     (let document_id = field_str ''document_id'' r in
      retain_sections rs rejected
        (if document_id \<in> rejected
         then (retained, AList.update document_id (dict_get cascades document_id 0 + 1) cascades)
         else (retained @ [project_row SECTION_COLUMNS r], cascades)))"

text \<open>\<open>replace\<close> builds the copy through the constructor.\<close>

definition attach_ledger_counts :: "rejection list \<Rightarrow> (string, nat) dict \<Rightarrow> rejection list res" where
  "attach_ledger_counts rejections cascades =
     res_map (\<lambda>r. with_cascades r (int (dict_get cascades (rj_identifier r) 0))) rejections"

definition plan_integrity_normalization :: "string \<Rightarrow> shard_files \<Rightarrow> integrity_plan res" where
  "plan_integrity_normalization stem s =
     res_bind (load_normalization_rows stem s) (\<lambda>(valid_qids, documents_rows, sections_rows).
     res_bind (retain_documents stem valid_qids documents_rows) (\<lambda>(retained_documents, rejected_ids, bare).
     case retain_sections sections_rows rejected_ids ([], []) of
       (retained_sections, cascades) \<Rightarrow>
         res_bind (attach_ledger_counts bare cascades) (\<lambda>rejections.
         res_bind (merge_records rejections) (\<lambda>ordered.
           Inr \<lparr>pl_stem = stem, pl_retained_documents = retained_documents, pl_retained_sections = retained_sections,
                pl_rejections = ordered\<rparr>))))"

definition apply_integrity_normalization :: "integrity_plan \<Rightarrow> unit shard_op" where
  "apply_integrity_normalization plan =
     op_bind (write_documents (pl_stem plan) (pl_retained_documents plan)) (\<lambda>_.
     op_bind (write_sections (pl_stem plan) (pl_retained_sections plan)) (\<lambda>_.
       write_integrity_ledgers (pl_stem plan) (pl_rejections plan)))"

section \<open>Valid records\<close>

definition valid_qid_field :: "string option \<Rightarrow> bool" where
  "valid_qid_field q \<longleftrightarrow> (\<forall>v. q = Some v \<longrightarrow> qids_from_osm_tag v \<noteq> [])"

definition valid_rejection :: "rejection \<Rightarrow> bool" where
  "valid_rejection r \<longleftrightarrow> rj_shard r \<noteq> [] \<and> rj_identifier r \<noteq> [] \<and> rj_reason r \<noteq> []
     \<and> rj_source_table r \<in> set SUPPORTED_SOURCE_TABLES \<and> valid_qid_field (rj_wikidata r) \<and> valid_qid_field (rj_expected r)
     \<and> 0 \<le> rj_cascaded_sections r"

lemma nonempty_string_Inr: "require_nonempty_string v = Inr s \<longleftrightarrow> v = JStr s \<and> s \<noteq> []"
  by (auto simp: require_nonempty_string_def split: json.splits if_splits)

lemma source_table_Inr: "validate_source_table v = Inr t \<longleftrightarrow> v = JStr t \<and> t \<in> set SUPPORTED_SOURCE_TABLES"
  by (auto simp: validate_source_table_def split: json.splits if_splits)

lemma ledger_qid_Inr: "ledger_qid v = Inr q \<longleftrightarrow> v = opt_json q \<and> valid_qid_field q"
  by (auto simp: ledger_qid_def opt_json_def valid_qid_field_def split: json.splits if_splits option.splits)

lemma new_rejection_Inr:
  "new_rejection a b c d e f n = Inr r \<longleftrightarrow>
     a = JStr (rj_shard r) \<and> b = JStr (rj_source_table r) \<and> c = JStr (rj_identifier r) \<and> d = opt_json (rj_wikidata r)
     \<and> e = opt_json (rj_expected r) \<and> f = JStr (rj_reason r) \<and> n = rj_cascaded_sections r \<and> valid_rejection r"
  by (cases r) (auto simp: new_rejection_def nonempty_string_Inr source_table_Inr ledger_qid_Inr valid_rejection_def)

lemma with_cascades_valid:
  assumes "valid_rejection r" and "0 \<le> n"
  shows "with_cascades r n = Inr (r\<lparr>rj_cascaded_sections := n\<rparr>)"
  using assms by (simp add: with_cascades_def new_rejection_Inr valid_rejection_def)

lemma with_cascades_Inr:
  assumes "with_cascades r n = Inr r'"
  shows "r' = r\<lparr>rj_cascaded_sections := n\<rparr> \<and> valid_rejection r'"
  using assms by (cases r; cases r') (auto simp: with_cascades_def new_rejection_Inr opt_json_def split: option.splits)

lemma load_entry_valid: "load_entry v = Inr r \<Longrightarrow> valid_rejection r"
  by (auto simp: load_entry_def new_rejection_Inr split: json.splits)

lemma load_entries_valid:
  assumes "load_entries v = Inr rs"
  shows "\<forall>r\<in>set rs. valid_rejection r"
proof (cases v)
  case (JList entries)
  then show ?thesis
    using assms load_entry_valid res_map_set [of load_entry entries rs] by (auto simp: load_entries_def)
qed (use assms in \<open>auto simp: load_entries_def split: if_splits\<close>)

lemma load_ledger_valid:
  assumes "load_ledger f = Inr rs"
  shows "\<forall>r\<in>set rs. valid_rejection r"
proof (cases "f = Absent")
  case False
  then obtain raw where "parse_ledger raw = Inr rs"
    using assms by (auto simp: load_ledger_def)
  then show ?thesis
    using load_entries_valid by (cases raw) (auto simp: parse_ledger_def)
qed (use assms in \<open>simp add: load_ledger_def\<close>)

section \<open>The abstract ledger\<close>

text \<open>A ledger is a map from identities to the reason first recorded and the largest count recorded.\<close>

type_synonym ledger_map = "identity \<rightharpoonup> string \<times> int"

definition add_abs :: "ledger_map \<Rightarrow> rejection \<Rightarrow> ledger_map" where
  "add_abs m r =
     m(rejection_identity r \<mapsto> (case m (rejection_identity r) of
        None \<Rightarrow> (rj_reason r, rj_cascaded_sections r)
      | Some (reason, n) \<Rightarrow> (reason, max n (rj_cascaded_sections r))))"

definition ledger_abs :: "rejection list \<Rightarrow> ledger_map" where
  "ledger_abs rs = foldl add_abs Map.empty rs"

definition join_abs :: "ledger_map \<Rightarrow> ledger_map \<Rightarrow> ledger_map" where
  "join_abs a b = (\<lambda>i. case a i of
       None \<Rightarrow> b i
     | Some (reason, n) \<Rightarrow> (case b i of None \<Rightarrow> Some (reason, n) | Some (_, k) \<Rightarrow> Some (reason, max n k)))"

lemma ledger_abs_Nil [simp]: "ledger_abs [] = Map.empty"
  by (simp add: ledger_abs_def)

lemma ledger_abs_snoc: "ledger_abs (rs @ [r]) = add_abs (ledger_abs rs) r"
  by (simp add: ledger_abs_def)

lemma join_abs_add: "add_abs (join_abs a b) r = join_abs a (add_abs b r)"
  by (rule ext) (simp add: add_abs_def join_abs_def max.assoc split: option.split prod.split)

lemma ledger_abs_append: "ledger_abs (xs @ ys) = join_abs (ledger_abs xs) (ledger_abs ys)"
proof (induction ys rule: rev_induct)
  case Nil
  have "join_abs a Map.empty = a" for a
    by (rule ext) (simp add: join_abs_def split: option.split prod.split)
  then show ?case by simp
next
  case (snoc y ys)
  then show ?case
    by (simp add: ledger_abs_snoc join_abs_add flip: append_assoc)
qed

lemma dom_add_abs: "dom (add_abs m r) = insert (rejection_identity r) (dom m)"
  unfolding add_abs_def dom_fun_upd by simp

lemma dom_ledger_abs: "dom (ledger_abs rs) = rejection_identity ` set rs"
  by (induction rs rule: rev_induct) (simp_all add: ledger_abs_snoc dom_add_abs)

lemma ledger_abs_local: "ledger_abs rs i = ledger_abs (filter (\<lambda>r. rejection_identity r = i) rs) i"
  by (induction rs rule: rev_induct) (auto simp: ledger_abs_snoc add_abs_def)

lemma ledger_abs_cong:
  assumes "\<And>i. filter (\<lambda>r. rejection_identity r = i) xs = filter (\<lambda>r. rejection_identity r = i) ys"
  shows "ledger_abs xs = ledger_abs ys"
proof
  fix i
  show "ledger_abs xs i = ledger_abs ys i"
    using ledger_abs_local [of xs i] ledger_abs_local [of ys i] assms [of i] by simp
qed

lemma ledger_key_identity: "rejection_identity a = rejection_identity b \<Longrightarrow> ledger_key a = ledger_key b"
  by (simp add: rejection_identity_def ledger_key_def)

lemma ledger_abs_sort: "ledger_abs (sort_key ledger_key rs) = ledger_abs rs"
proof (rule ledger_abs_cong)
  fix i
  show "filter (\<lambda>r. rejection_identity r = i) (sort_key ledger_key rs) = filter (\<lambda>r. rejection_identity r = i) rs"
  proof (cases "\<exists>a\<in>set rs. rejection_identity a = i")
    case True
    then obtain a where a: "rejection_identity a = i"
      by blast
    have "rejection_identity r = i \<longleftrightarrow> ledger_key r = ledger_key a \<and> rejection_identity r = i" for r
      using ledger_key_identity [of r a] a by metis
    then have split: "filter (\<lambda>r. rejection_identity r = i) xs
        = filter (\<lambda>r. rejection_identity r = i) (filter (\<lambda>r. ledger_key r = ledger_key a) xs)" for xs
      unfolding filter_filter by (intro filter_cong refl)
    show ?thesis
      unfolding split [of rs] split [of "sort_key ledger_key rs"] sort_key_stable ..
  next
    case False
    then have "filter (\<lambda>r. rejection_identity r = i) xs = []" if "set xs = set rs" for xs
      using that by (simp add: filter_empty_conv)
    then show ?thesis
      by simp
  qed
qed

text \<open>The dictionary built by the merge represents the abstract ledger.\<close>

definition represents :: "(identity, rejection) dict \<Rightarrow> ledger_map \<Rightarrow> bool" where
  "represents d m \<longleftrightarrow> dict_wf d \<and> (\<forall>(i, r)\<in>set d. rejection_identity r = i \<and> valid_rejection r)
     \<and> (\<forall>i. m i = map_option (\<lambda>r. (rj_reason r, rj_cascaded_sections r)) (map_of d i))"

lemma represents_at: "represents d m \<Longrightarrow> m i = map_option (\<lambda>r. (rj_reason r, rj_cascaded_sections r)) (map_of d i)"
  unfolding represents_def by blast

lemma represents_update:
  assumes "represents d m" and "rejection_identity r = i" and "valid_rejection r"
  shows "represents (AList.update i r d) (m(i \<mapsto> (rj_reason r, rj_cascaded_sections r)))"
  unfolding represents_def
proof (intro conjI)
  show "dict_wf (AList.update i r d)"
    using assms(1) by (simp add: represents_def dict_wf_update)
  show "\<forall>(j, q)\<in>set (AList.update i r d). rejection_identity q = j \<and> valid_rejection q"
  proof (clarify)
    fix j q
    assume "(j, q) \<in> set (AList.update i r d)"
    then have "(j, q) = (i, r) \<or> (j, q) \<in> set d"
      using update_Some_unfold map_of_wf_iff [OF \<open>dict_wf (AList.update i r d)\<close>, of j q]
        map_of_wf_iff [of d j q] assms(1) by (auto simp: represents_def split: if_splits)
    then show "rejection_identity q = j \<and> valid_rejection q"
      using assms by (auto simp: represents_def)
  qed
  show "\<forall>j. (m(i \<mapsto> (rj_reason r, rj_cascaded_sections r))) j
      = map_option (\<lambda>r. (rj_reason r, rj_cascaded_sections r)) (map_of (AList.update i r d) j)"
    using assms(1) by (simp add: represents_def)
qed

lemma merge_fold:
  assumes "\<forall>r\<in>set rs. valid_rejection r"
  shows "\<exists>d. res_fold merge_record rs [] = Inr d \<and> represents d (ledger_abs rs)"
  using assms
proof (induction rs rule: rev_induct)
  case Nil
  then show ?case by (auto simp: represents_def dict_wf_def)
next
  case (snoc r rs)
  then obtain d where d: "res_fold merge_record rs [] = Inr d" and rep: "represents d (ledger_abs rs)"
    by auto
  let ?i = "rejection_identity r"
  have valid: "valid_rejection r"
    using snoc.prems by simp
  have fold: "res_fold merge_record (rs @ [r]) [] = merge_record r d"
    using d by (auto simp: res_fold_append res_bind_def split: sum.splits)
  show ?case
  proof (cases "map_of d ?i")
    case None
    then have "ledger_abs rs ?i = None"
      using represents_at [OF rep] by simp
    then have "add_abs (ledger_abs rs) r = (ledger_abs rs)(?i \<mapsto> (rj_reason r, rj_cascaded_sections r))"
      by (intro ext) (simp add: add_abs_def)
    moreover have "merge_record r d = Inr (AList.update ?i r d)"
      using None by (simp add: merge_record_def)
    ultimately show ?thesis
      using represents_update [OF rep refl valid] unfolding fold ledger_abs_snoc by metis
  next
    case (Some e)
    let ?n = "max (rj_cascaded_sections e) (rj_cascaded_sections r)"
    have e: "rejection_identity e = ?i" "valid_rejection e"
      using rep Some by (auto simp: represents_def dest: map_of_SomeD)
    have abs: "ledger_abs rs ?i = Some (rj_reason e, rj_cascaded_sections e)"
      using represents_at [OF rep] Some by simp
    have m: "with_cascades e ?n = Inr (e\<lparr>rj_cascaded_sections := ?n\<rparr>)"
      using e(2) by (intro with_cascades_valid) (auto simp: valid_rejection_def)
    have "rejection_identity (e\<lparr>rj_cascaded_sections := ?n\<rparr>) = ?i" "valid_rejection (e\<lparr>rj_cascaded_sections := ?n\<rparr>)"
      using e by (simp_all add: rejection_identity_def valid_rejection_def max.coboundedI1)
    from represents_update [OF rep this]
    have "represents (AList.update ?i (e\<lparr>rj_cascaded_sections := ?n\<rparr>) d) ((ledger_abs rs)(?i \<mapsto> (rj_reason e, ?n)))"
      by simp
    moreover have "add_abs (ledger_abs rs) r = (ledger_abs rs)(?i \<mapsto> (rj_reason e, ?n))"
      using abs by (intro ext) (simp add: add_abs_def)
    moreover have "merge_record r d = Inr (AList.update ?i (e\<lparr>rj_cascaded_sections := ?n\<rparr>) d)"
      using Some m by (simp add: merge_record_def)
    ultimately show ?thesis
      unfolding fold ledger_abs_snoc by metis
  qed
qed

lemma map_of_snoc: "map_of xs k = None \<Longrightarrow> map_of (xs @ [(k, v)]) = (map_of xs)(k \<mapsto> v)"
  by (intro ext) (auto simp: map_add_def split: option.splits)

lemma ledger_abs_distinct:
  assumes "distinct (map rejection_identity rs)"
  shows "ledger_abs rs = map_of (map (\<lambda>r. (rejection_identity r, (rj_reason r, rj_cascaded_sections r))) rs)"
  using assms
proof (induction rs rule: rev_induct)
  case (snoc r rs)
  let ?f = "\<lambda>r. (rejection_identity r, (rj_reason r, rj_cascaded_sections r))"
  have IH: "ledger_abs rs = map_of (map ?f rs)"
    using snoc by simp
  have none: "ledger_abs rs (rejection_identity r) = None"
    using dom_ledger_abs [of rs] snoc.prems by auto
  have "ledger_abs (rs @ [r]) = (ledger_abs rs)(rejection_identity r \<mapsto> (rj_reason r, rj_cascaded_sections r))"
    using none by (intro ext) (simp add: ledger_abs_snoc add_abs_def)
  also have "\<dots> = map_of (map ?f rs @ [?f r])"
    using none unfolding IH by (rule map_of_snoc [symmetric])
  finally show ?case by simp
qed simp

lemma represents_values:
  assumes "represents d m"
  shows "distinct (map rejection_identity (map snd d))" and "ledger_abs (map snd d) = m"
    and "\<forall>r\<in>set (map snd d). valid_rejection r" and "rejection_identity ` set (map snd d) = dom m"
proof -
  have keys: "map rejection_identity (map snd d) = map fst d"
    using assms by (auto simp: represents_def)
  show dist: "distinct (map rejection_identity (map snd d))"
    unfolding keys using assms by (simp add: represents_def dict_wf_def)
  show "\<forall>r\<in>set (map snd d). valid_rejection r"
    using assms by (auto simp: represents_def)
  show "rejection_identity ` set (map snd d) = dom m"
  proof -
    have "rejection_identity ` set (map snd d) = set (map fst d)"
      unfolding keys [symmetric] by (simp add: image_image)
    also have "\<dots> = dom (map_of d)"
      by (simp add: dom_map_of_conv_image_fst)
    also have "\<dots> = dom m"
      using represents_at [OF assms] by (simp add: dom_def)
    finally show ?thesis .
  qed
  from ledger_abs_distinct [OF dist] have abs: "ledger_abs (map snd d) = map_of (map (\<lambda>(i, r). (i, (rj_reason r, rj_cascaded_sections r))) d)"
    using assms by (simp add: represents_def comp_def case_prod_beta cong: map_cong)
  have "map_of (map (\<lambda>(i, r). (i, (rj_reason r, rj_cascaded_sections r))) xs) i
      = map_option (\<lambda>r. (rj_reason r, rj_cascaded_sections r)) (map_of xs i)" for xs and i :: identity
    by (induction xs) auto
  then show "ledger_abs (map snd d) = m"
    unfolding abs using represents_at [OF assms] by (intro ext) simp
qed

lemma incomparable_identity:
  "rejection_identity a = rejection_identity a' \<Longrightarrow> rejection_identity b = rejection_identity b' \<Longrightarrow> incomparable a b = incomparable a' b'"
  by (simp add: incomparable_def rejection_identity_def)

lemma clash_transfer:
  assumes "rejection_identity ` A = rejection_identity ` B" and "\<exists>a\<in>A. \<exists>b\<in>A. incomparable a b"
  shows "\<exists>a\<in>B. \<exists>b\<in>B. incomparable a b"
proof -
  obtain a b where ab: "a \<in> A" "b \<in> A" "incomparable a b"
    using assms(2) by blast
  have "rejection_identity a \<in> rejection_identity ` B" "rejection_identity b \<in> rejection_identity ` B"
    using ab(1,2) assms(1) by blast+
  then obtain a' b' where "a' \<in> B" "b' \<in> B" "rejection_identity a = rejection_identity a'" "rejection_identity b = rejection_identity b'"
    by (elim imageE)
  then show ?thesis
    using ab(3) incomparable_identity by blast
qed

lemma sort_ledger_Inr:
  "sort_ledger rs = Inr out \<longleftrightarrow> \<not> (\<exists>a\<in>set rs. \<exists>b\<in>set rs. incomparable a b) \<and> out = sort_key ledger_key rs"
  by (auto simp: sort_ledger_def list_ex_iff)

text \<open>
  C25. Merging rejection records refines the join of abstract ledgers: for records that passed
  validation it fails exactly when two of them cannot be ordered; otherwise it yields one record per
  identity, sorted, with the reason recorded first and the largest cascade count, and every record
  passes validation again.
\<close>

theorem merge_records_refines:
  assumes "\<forall>r\<in>set rs. valid_rejection r"
  shows "(\<exists>a\<in>set rs. \<exists>b\<in>set rs. incomparable a b) \<and> (\<exists>e. merge_records rs = Inl e)
    \<or> \<not> (\<exists>a\<in>set rs. \<exists>b\<in>set rs. incomparable a b)
      \<and> (\<exists>out. merge_records rs = Inr out \<and> ledger_abs out = ledger_abs rs \<and> distinct (map rejection_identity out)
           \<and> sorted (map ledger_key out) \<and> (\<forall>r\<in>set out. valid_rejection r))"
proof -
  obtain d where d: "res_fold merge_record rs [] = Inr d" and rep: "represents d (ledger_abs rs)"
    using merge_fold [OF assms] by blast
  let ?vs = "map snd d"
  have merge: "merge_records rs = sort_ledger ?vs"
    using d by (simp add: merge_records_def)
  have ids: "rejection_identity ` set ?vs = rejection_identity ` set rs"
    using represents_values(4) [OF rep] dom_ledger_abs by metis
  have same: "(\<exists>a\<in>set ?vs. \<exists>b\<in>set ?vs. incomparable a b) \<longleftrightarrow> (\<exists>a\<in>set rs. \<exists>b\<in>set rs. incomparable a b)"
    using clash_transfer [OF ids] clash_transfer [OF ids [symmetric]] by (intro iffI)
  show ?thesis
  proof (cases "\<exists>a\<in>set rs. \<exists>b\<in>set rs. incomparable a b")
    case True
    then have "\<forall>out. merge_records rs \<noteq> Inr out"
      unfolding merge sort_ledger_Inr same by blast
    then show ?thesis
      using True by (metis sum.exhaust)
  next
    case False
    then have "merge_records rs = Inr (sort_key ledger_key ?vs)"
      unfolding merge sort_ledger_Inr same by simp
    moreover have "ledger_abs (sort_key ledger_key ?vs) = ledger_abs rs"
      unfolding ledger_abs_sort represents_values(2) [OF rep] ..
    moreover have "distinct (map rejection_identity (sort_key ledger_key ?vs))"
      using represents_values(1) [OF rep] by (simp add: distinct_map del: map_map)
    moreover have "\<forall>r\<in>set (sort_key ledger_key ?vs). valid_rejection r"
      using represents_values(3) [OF rep] unfolding set_sort .
    ultimately show ?thesis
      using False sorted_sort_key [of ledger_key ?vs] by blast
  qed
qed

section \<open>Ledger files\<close>

lemma view_fields [simp]:
  "require_nonempty_string (json_view v) = require_nonempty_string v"
  "validate_source_table (json_view v) = validate_source_table v"
  "ledger_qid (json_view v) = ledger_qid v"
  "py_int_json (json_view v) = py_int_json v"
  by (cases v; simp add: require_nonempty_string_def validate_source_table_def ledger_qid_def py_int_json_def json_view_obj)+

lemma load_entry_view: "load_entry (json_view v) = load_entry v"
proof (cases v)
  case (JObj d)
  have item: "dict_item (sorted_entries (map (map_prod id json_view) d)) k = res_bind (dict_item d k) (\<lambda>x. Inr (json_view x))" for k
    by (simp add: dict_item_def split: option.splits)
  have get: "dict_get (sorted_entries (map (map_prod id json_view) d)) k (json_view x) = json_view (dict_get d k x)" for k x
    by (simp add: dict_get_def split: option.splits)
  show ?thesis
    using get [of "''expected''" JNull] get [of "''cascaded_sections''" "JInt 0"]
    by (simp add: JObj json_view_obj load_entry_def item new_rejection_def res_bind_def split: sum.splits)
qed (simp_all add: load_entry_def)

lemma load_entries_view: "load_entries (json_view v) = load_entries v"
proof (cases v)
  case (JList xs)
  have "res_map load_entry (map json_view xs) = res_map load_entry xs"
    by (induction xs) (simp_all add: load_entry_view)
  then show ?thesis
    by (simp add: JList load_entries_def)
next
  case (JObj d)
  have "sorted_entries (map (map_prod id json_view) d) = [] \<longleftrightarrow> d = []"
    by (auto simp: sorted_entries_def simp flip: length_0_conv)
  then show ?thesis
    by (simp add: JObj json_view_obj load_entries_def)
qed (simp_all add: load_entries_def)

lemma parse_ledger_view: "parse_ledger (json_view v) = parse_ledger v"
proof (cases v)
  case (JObj d)
  have get: "dict_get (sorted_entries (map (map_prod id json_view) d)) ''records'' (JList []) = json_view (dict_get d ''records'' (JList []))"
    by (simp add: dict_get_def split: option.splits)
  have version: "json_view x = JStr t \<longleftrightarrow> x = JStr t" for x t
    by (cases x) (simp_all add: json_view_obj)
  show ?thesis
    by (simp add: JObj json_view_obj parse_ledger_def get load_entries_view version)
qed (simp_all add: parse_ledger_def)

lemma load_entry_dict:
  assumes "valid_rejection r"
  shows "load_entry (rejection_to_dict r) = Inr r"
  using assms by (simp add: rejection_to_dict_def load_entry_def dict_item_def dict_get_def py_int_json_def new_rejection_Inr)

lemma parse_payload:
  assumes "\<forall>r\<in>set rs. valid_rejection r"
  shows "parse_ledger (ledger_payload rs) = Inr rs"
proof -
  have "res_map load_entry (map rejection_to_dict rs) = Inr rs"
    using assms by (induction rs) (simp_all add: load_entry_dict)
  then show ?thesis
    by (simp add: parse_ledger_def ledger_payload_def dict_get_def load_entries_def)
qed

text \<open>A file whose content a reader cannot tell from the payload of \<open>rs\<close>.\<close>

definition holds_ledger :: "text_file \<Rightarrow> rejection list \<Rightarrow> bool" where
  "holds_ledger f rs \<longleftrightarrow> (\<exists>v. f = Parsed v \<and> json_view v = json_view (ledger_payload rs))"

lemma load_held:
  assumes "holds_ledger f rs" and "\<forall>r\<in>set rs. valid_rejection r"
  shows "load_ledger f = Inr rs"
proof -
  obtain v where f: "f = Parsed v" and v: "json_view v = json_view (ledger_payload rs)"
    using assms(1) by (auto simp: holds_ledger_def)
  have "parse_ledger v = Inr rs"
    using parse_payload [OF assms(2)] parse_ledger_view [of v] parse_ledger_view [of "ledger_payload rs"] v by simp
  then show ?thesis
    by (simp add: load_ledger_def read_json_strict_def f)
qed

lemma save_ledger_Inr:
  assumes "save_ledger name rs s = (Inr (), s')"
  obtains "\<not> (\<exists>a\<in>set rs. \<exists>b\<in>set rs. incomparable a b)" "holds_ledger (integrity_files s' name) (sort_key ledger_key rs)"
    "\<forall>x. x \<noteq> name \<longrightarrow> integrity_files s' x = integrity_files s x"
proof -
  let ?p = "ledger_payload (sort_key ledger_key rs)"
  obtain unchanged where sortable: "\<not> (\<exists>a\<in>set rs. \<exists>b\<in>set rs. incomparable a b)"
    and test: "(if integrity_files s name = Absent then Inr False
         else res_bind (read_json_strict (ValueError ''malformed ledger'') (integrity_files s name)) (\<lambda>existing.
           Inr (json_eq (bools_as_ints existing) (bools_as_ints ?p)))) = Inr unchanged"
    and step: "op_when (\<not> unchanged) (write_integrity_file name ?p) s = (Inr (), s')"
    using assms by (auto simp: save_ledger_def op_bind_Inr op_read_run sort_ledger_Inr Let_def)
  show thesis
  proof (cases unchanged)
    case True
    then have "s' = s"
      using step by (simp add: op_when_def op_ret_def)
    moreover have "holds_ledger (integrity_files s name) (sort_key ledger_key rs)"
      using test True
      by (auto simp: holds_ledger_def json_view_def json_eq_def read_json_strict_def split: if_splits text_file.splits)
    ultimately show thesis
      using that sortable by simp
  next
    case False
    then obtain b where s': "s' = s\<lparr>write_budget := b, integrity_files := (integrity_files s)(name := write_json ?p)\<rparr>"
      using step by (auto simp: op_when_def write_integrity_file_def elim!: durable_write_cases)
    have "json_view (jsort ?p) = json_view ?p"
      by (rule view_jsort)
    then have "holds_ledger (integrity_files s' name) (sort_key ledger_key rs)"
      by (simp add: s' holds_ledger_def write_json_def)
    then show thesis
      using that sortable by (simp add: s')
  qed
qed

text \<open>
  A saved ledger is read back exactly: the records in the order of their keys, with no other file
  touched; and saving the same records again writes nothing, even on a device that accepts no write.
\<close>

theorem ledger_save_load:
  assumes "\<forall>r\<in>set rs. valid_rejection r" and "save_ledger name rs s = (Inr (), s')"
  shows "load_ledger (integrity_files s' name) = Inr (sort_key ledger_key rs)
    \<and> (\<forall>x. x \<noteq> name \<longrightarrow> integrity_files s' x = integrity_files s x)
    \<and> save_ledger name rs (s'\<lparr>write_budget := Some 0\<rparr>) = (Inr (), s'\<lparr>write_budget := Some 0\<rparr>)"
proof -
  from assms(2) show ?thesis
  proof (rule save_ledger_Inr)
    assume sortable: "\<not> (\<exists>a\<in>set rs. \<exists>b\<in>set rs. incomparable a b)"
      and held: "holds_ledger (integrity_files s' name) (sort_key ledger_key rs)"
      and others: "\<forall>x. x \<noteq> name \<longrightarrow> integrity_files s' x = integrity_files s x"
    have "sort_ledger rs = Inr (sort_key ledger_key rs)"
      unfolding sort_ledger_Inr using sortable by simp
    moreover obtain v where "integrity_files s' name = Parsed v"
      "json_eq (bools_as_ints v) (bools_as_ints (ledger_payload (sort_key ledger_key rs)))"
      using held by (auto simp: holds_ledger_def json_eq_def json_view_def)
    ultimately have "save_ledger name rs (s'\<lparr>write_budget := Some 0\<rparr>) = (Inr (), s'\<lparr>write_budget := Some 0\<rparr>)"
      by (simp add: save_ledger_def op_bind_def op_read_def read_json_strict_def op_when_def op_ret_def Let_def)
    moreover have "load_ledger (integrity_files s' name) = Inr (sort_key ledger_key rs)"
      using load_held [OF held] assms(1) by simp
    ultimately show ?thesis
      using others by blast
  qed
qed

lemma merge_Inr:
  assumes "merge_records rs = Inr out" and "\<forall>r\<in>set rs. valid_rejection r"
  shows "ledger_abs out = ledger_abs rs \<and> distinct (map rejection_identity out) \<and> (\<forall>r\<in>set out. valid_rejection r)"
proof -
  obtain d where d: "res_fold merge_record rs [] = Inr d" and rep: "represents d (ledger_abs rs)"
    using merge_fold [OF assms(2)] by blast
  have out: "out = sort_key ledger_key (map snd d)"
    using assms(1) d by (simp add: merge_records_def sort_ledger_Inr)
  have "distinct (map rejection_identity out)"
    using represents_values(1) [OF rep] unfolding out by (simp add: distinct_map del: map_map)
  moreover have "ledger_abs out = ledger_abs rs"
    unfolding out ledger_abs_sort represents_values(2) [OF rep] ..
  moreover have "\<forall>r\<in>set out. valid_rejection r"
    using represents_values(3) [OF rep] unfolding out set_sort .
  ultimately show ?thesis
    by blast
qed

text \<open>
  C15. The cumulative ledger only grows: after the rejections of a region are written, the cumulative
  file is the join of those rejections with what it held before, so no identity and no count of an
  earlier run is lost, and the ledgers of other regions are untouched.
\<close>

theorem ledger_history_kept:
  assumes "\<forall>r\<in>set rejections. valid_rejection r" and "stem @ ''.json'' \<noteq> LEDGER_FILENAME"
    and "load_ledger (integrity_files s LEDGER_FILENAME) = Inr old"
    and "write_integrity_ledgers stem rejections s = (Inr (), s')"
  shows "\<exists>new. load_ledger (integrity_files s' LEDGER_FILENAME) = Inr new \<and> distinct (map rejection_identity new)
    \<and> ledger_abs new = join_abs (ledger_abs rejections) (ledger_abs old)
    \<and> (\<forall>x. x \<noteq> LEDGER_FILENAME \<and> x \<noteq> stem @ ''.json'' \<longrightarrow> integrity_files s' x = integrity_files s x)"
proof -
  let ?stem = "stem @ ''.json''"
  obtain s1 where first: "save_ledger ?stem rejections s = (Inr (), s1)"
    and second: "merge_ledger_files (?stem # (if integrity_files s1 LEDGER_FILENAME \<noteq> Absent then [LEDGER_FILENAME] else []))
        LEDGER_FILENAME s1 = (Inr (), s')"
    using assms(4) by (auto simp: write_integrity_ledgers_def Let_def op_bind_Inr)
  obtain held: "holds_ledger (integrity_files s1 ?stem) (sort_key ledger_key rejections)"
    and keep1: "\<forall>x. x \<noteq> ?stem \<longrightarrow> integrity_files s1 x = integrity_files s x"
    using first by (rule save_ledger_Inr)
  have stem: "load_ledger (integrity_files s1 ?stem) = Inr (sort_key ledger_key rejections)" "integrity_files s1 ?stem \<noteq> Absent"
    using load_held [OF held] assms(1) held by (auto simp: holds_ledger_def)
  have old: "load_ledger (integrity_files s1 LEDGER_FILENAME) = Inr old"
    using assms(2,3) keep1 by auto
  then have "integrity_files s1 LEDGER_FILENAME = Absent \<Longrightarrow> old = []"
    by (simp add: load_ledger_def)
  with second stem old obtain merged where merge: "merge_records (sort_key ledger_key rejections @ old) = Inr merged"
    and save: "save_ledger LEDGER_FILENAME merged s1 = (Inr (), s')"
    by (auto simp: merge_ledger_files_def op_bind_Inr op_read_run split: if_splits)
  have valid: "\<forall>r\<in>set (sort_key ledger_key rejections @ old). valid_rejection r"
    using assms(1) load_ledger_valid [OF assms(3)] by auto
  note M = merge_Inr [OF merge valid]
  obtain final: "holds_ledger (integrity_files s' LEDGER_FILENAME) (sort_key ledger_key merged)"
    and keep2: "\<forall>x. x \<noteq> LEDGER_FILENAME \<longrightarrow> integrity_files s' x = integrity_files s1 x"
    using save by (rule save_ledger_Inr)
  have "load_ledger (integrity_files s' LEDGER_FILENAME) = Inr (sort_key ledger_key merged)"
    using load_held [OF final] M by simp
  moreover have "ledger_abs (sort_key ledger_key merged) = join_abs (ledger_abs rejections) (ledger_abs old)"
    using M by (simp add: ledger_abs_sort ledger_abs_append)
  moreover have "distinct (map rejection_identity (sort_key ledger_key merged))"
    using M by (simp add: distinct_map)
  ultimately show ?thesis
    using keep1 keep2 by auto
qed

section \<open>Examples\<close>

definition sample_rejection :: "string \<Rightarrow> int \<Rightarrow> rejection" where
  "sample_rejection shard n =
     \<lparr>rj_shard = shard, rj_source_table = ''wikivoyage_documents'', rj_identifier = ''d'', rj_wikidata = Some ''Q2'',
      rj_expected = None, rj_reason = ''absent'', rj_cascaded_sections = n\<rparr>"

lemma sample_rejection_valid: "0 \<le> n \<Longrightarrow> valid_rejection (sample_rejection ''a'' n)" "0 \<le> n \<Longrightarrow> valid_rejection (sample_rejection ''b'' n)"
  by (simp_all add: valid_rejection_def sample_rejection_def SUPPORTED_SOURCE_TABLES_def valid_qid_field_def
      qids_from_osm_tag_def py_strip_def py_lstrip_def py_isspace_def py_isdigit_def)

theorem merge_records_refines_witness:
  "\<exists>out. merge_records [sample_rejection ''a'' 1, sample_rejection ''a'' 3] = Inr out
     \<and> ledger_abs out = ledger_abs [sample_rejection ''a'' 1, sample_rejection ''a'' 3] \<and> distinct (map rejection_identity out)"
proof -
  let ?rs = "[sample_rejection ''a'' 1, sample_rejection ''a'' 3]"
  have valid: "\<forall>r\<in>set ?rs. valid_rejection r"
    by (simp add: sample_rejection_valid)
  have "\<not> (\<exists>a\<in>set ?rs. \<exists>b\<in>set ?rs. incomparable a b)"
    by (simp add: incomparable_def sample_rejection_def)
  with merge_records_refines [OF valid] show ?thesis
    by blast
qed

definition sample_ledger_files :: shard_files where
  "sample_ledger_files = snd (write_integrity_ledgers ''a'' [sample_rejection ''a'' 1] (sample_files None))"

theorem ledger_history_kept_witness:
  "\<exists>s' new. write_integrity_ledgers ''b'' [sample_rejection ''b'' 2] sample_ledger_files = (Inr (), s')
     \<and> load_ledger (integrity_files s' LEDGER_FILENAME) = Inr new
     \<and> ledger_abs new = join_abs (ledger_abs [sample_rejection ''b'' 2]) (ledger_abs [sample_rejection ''a'' 1])"
proof -
  have "fst (write_integrity_ledgers ''b'' [sample_rejection ''b'' 2] sample_ledger_files) = Inr ()"
    by code_simp
  then obtain s' where run: "write_integrity_ledgers ''b'' [sample_rejection ''b'' 2] sample_ledger_files = (Inr (), s')"
    by (metis prod.collapse)
  have old: "load_ledger (integrity_files sample_ledger_files LEDGER_FILENAME) = Inr [sample_rejection ''a'' 1]"
    by code_simp
  have "\<exists>new. load_ledger (integrity_files s' LEDGER_FILENAME) = Inr new \<and> distinct (map rejection_identity new)
    \<and> ledger_abs new = join_abs (ledger_abs [sample_rejection ''b'' 2]) (ledger_abs [sample_rejection ''a'' 1])
    \<and> (\<forall>x. x \<noteq> LEDGER_FILENAME \<and> x \<noteq> ''b'' @ ''.json'' \<longrightarrow> integrity_files s' x = integrity_files sample_ledger_files x)"
    by (rule ledger_history_kept [OF _ _ old run]) (simp_all add: sample_rejection_valid LEDGER_FILENAME_def)
  then show ?thesis
    using run by blast
qed

text \<open>
  The ledger is written after the tables, so a failure between the two loses the rejections: the
  next plan no longer finds the rejected document and its ledger stays without it.
\<close>

theorem interrupted_apply_loses_rejections:
  "case plan_integrity_normalization ''m'' (sample_files None) of
     Inl _ \<Rightarrow> False
   | Inr plan \<Rightarrow>
       map rj_identifier (pl_rejections plan) = [''b''] \<and>
       (case apply_integrity_normalization plan (sample_files (Some 1)) of
          (r, s) \<Rightarrow>
            r = Inl (OSError ''No space left on device'') \<and>
            (case plan_integrity_normalization ''m'' s of
               Inl _ \<Rightarrow> False
             | Inr again \<Rightarrow> pl_rejections again = []
                 \<and> map (field_str ''document_id'') (pl_retained_sections again) = [''a'', ''b'']))"
  by code_simp

text \<open>
  The two passes read the polygon tag differently: for a polygon tagged with two identifiers the
  planner keeps the documents of both, the enforcing pass rejects every one of them.
\<close>

definition two_qid_files :: shard_files where
  "two_qid_files = (sample_files None)\<lparr>polygons := [(''m'', [sample_row [(''polygon_id'', ''p''), (''wikidata'', ''Q1;Q3'')]])]\<rparr>"

theorem passes_disagree_on_lists:
  "(case plan_integrity_normalization ''m'' two_qid_files of Inl _ \<Rightarrow> False | Inr plan \<Rightarrow> pl_rejections plan = [])
   \<and> (case fst (enforce_wikivoyage_integrity ''m'' True two_qid_files) of
        Inl _ \<Rightarrow> False | Inr res \<Rightarrow> map rj_identifier (wr_rejections res) = [''a'', ''b''])"
  by code_simp

end
