(* ===== verification/Grid_Protocol.thy ===== *)
theory Grid_Protocol
  imports Json_Files Osm_Domain
begin

text \<open>
  The contracts between the local controller and the remote sentence jobs
  (\<open>grid5000/sentence_protocol.py\<close>, and the parsers of \<open>grid5000/sentence_controller_policy.py\<close>):
  packing of regions into batches, the check that a manifest only grows, and the reading of the
  receipts and of the answers of the batch system. A \<open>ControllerRunError\<close> is a \<open>RuntimeError\<close>.
\<close>

section \<open>Batches\<close>

record sentence_batch =
  sb_index :: nat
  sb_stems :: "string list"
  sb_input_bytes :: nat

definition validate_limits :: "int \<Rightarrow> int \<Rightarrow> unit res" where
  "validate_limits max_stems max_input_bytes =
     res_bind (guard (1 \<le> max_stems) (ValueError ''max_stems must be positive'')) (\<lambda>_.
       guard (1 \<le> max_input_bytes) (ValueError ''max_input_bytes must be positive''))"

definition should_flush :: "string list \<Rightarrow> nat \<Rightarrow> nat \<Rightarrow> int \<Rightarrow> int \<Rightarrow> bool" where
  "should_flush current_stems current_bytes next_bytes max_stems max_input_bytes \<longleftrightarrow>
     current_stems \<noteq> [] \<and> (max_stems \<le> int (length current_stems) \<or> max_input_bytes < int (current_bytes + next_bytes))"

definition make_batch :: "sentence_batch list \<Rightarrow> string list \<Rightarrow> nat \<Rightarrow> sentence_batch" where
  "make_batch batches stems input_bytes = \<lparr>sb_index = length batches, sb_stems = stems, sb_input_bytes = input_bytes\<rparr>"

fun pack_loop :: "(string \<times> nat) list \<Rightarrow> int \<Rightarrow> int \<Rightarrow> sentence_batch list \<Rightarrow> string list \<Rightarrow> nat \<Rightarrow> sentence_batch list" where
  "pack_loop [] max_stems max_input_bytes batches current_stems current_bytes =
     (if current_stems \<noteq> [] then batches @ [make_batch batches current_stems current_bytes] else batches)"
| "pack_loop ((stem, input_bytes) # pending) max_stems max_input_bytes batches current_stems current_bytes =
     (if should_flush current_stems current_bytes input_bytes max_stems max_input_bytes
      then pack_loop pending max_stems max_input_bytes (batches @ [make_batch batches current_stems current_bytes]) [stem] input_bytes
      else pack_loop pending max_stems max_input_bytes batches (current_stems @ [stem]) (current_bytes + input_bytes))"

definition pack_batches :: "(string \<times> nat) list \<Rightarrow> int \<Rightarrow> int \<Rightarrow> sentence_batch list" where
  "pack_batches pending max_stems max_input_bytes = pack_loop pending max_stems max_input_bytes [] [] 0"

text \<open>
  The section files of a region, by their sizes: the Wikipedia file is required, the Wikivoyage file
  optional. \<open>sources\<close> gives the size of the file of a project and stem, if it exists.
\<close>

type_synonym section_files = "string \<Rightarrow> string \<Rightarrow> nat option"

definition sentence_source_paths :: "section_files \<Rightarrow> string \<Rightarrow> (string \<times> nat) list res" where
  "sentence_source_paths sources stem =
     res_bind (require_safe_stem stem (ValueError ''Invalid sentence stem'')) (\<lambda>stem.
     case sources ''wikipedia'' stem of
       None \<Rightarrow> Inl (FileNotFoundError ''V2 Wikipedia section source is missing'')
     | Some bytes \<Rightarrow>
         Inr ((''wikipedia'', bytes) # (case sources ''wikivoyage'' stem of None \<Rightarrow> [] | Some n \<Rightarrow> [(''wikivoyage'', n)])))"

definition required_projects :: "(string \<times> nat) list \<Rightarrow> string list" where
  "required_projects paths = (if length paths = 2 then [''wikipedia'', ''wikivoyage''] else [''wikipedia''])"

definition is_complete :: "string \<Rightarrow> string list \<Rightarrow> (string \<times> string) list \<Rightarrow> bool" where
  "is_complete stem projects completed \<longleftrightarrow> list_all (\<lambda>project. (stem, project) \<in> set completed) projects"

definition pending_stem :: "section_files \<Rightarrow> (string \<times> string) list \<Rightarrow> string \<Rightarrow> (string \<times> nat) list res" where
  "pending_stem sources completed stem =
     res_bind (sentence_source_paths sources stem) (\<lambda>paths.
       Inr (if is_complete stem (required_projects paths) completed then []
            else [(stem, sum_list (map snd paths))]))"

definition pending_stems :: "section_files \<Rightarrow> string list \<Rightarrow> (string \<times> string) list \<Rightarrow> (string \<times> nat) list res" where
  "pending_stems sources finalized completed =
     res_bind (res_map (pending_stem sources completed) (sort finalized)) (\<lambda>ps. Inr (concat ps))"

definition region_identity :: "exn \<Rightarrow> json \<Rightarrow> (string \<times> string) res" where
  "region_identity err region =
     (case region of
        JObj d \<Rightarrow>
          (case (map_of d ''stem'', map_of d ''project'') of
             (Some (JStr stem), Some (JStr project)) \<Rightarrow> Inr (stem, project)
           | _ \<Rightarrow> Inl err)
      | _ \<Rightarrow> Inl err)"

definition completed_regions :: "(string, json) dict option \<Rightarrow> (string \<times> string) list res" where
  "completed_regions sentence_manifest =
     (case sentence_manifest of
        None \<Rightarrow> Inr []
      | Some d \<Rightarrow>
          (case dict_get d ''regions'' (JList []) of
             JList regions \<Rightarrow> res_map (region_identity (ValueError ''Sentence manifest region needs string stem and project'')) regions
           | _ \<Rightarrow> Inl (ValueError ''Sentence manifest regions must be a list'')))"

text \<open>The region mapping of a processed manifest, with the entries that are objects.\<close>

definition manifest_entries :: "exn \<Rightarrow> exn \<Rightarrow> json \<Rightarrow> (string, json) dict res" where
  "manifest_entries on_not_object on_regions_invalid raw =
     (case raw of
        JObj d \<Rightarrow> (case dict_get d ''regions'' raw of JObj entries \<Rightarrow> Inr entries | _ \<Rightarrow> Inl on_regions_invalid)
      | _ \<Rightarrow> Inl on_not_object)"

definition load_v2_manifest :: "text_file \<Rightarrow> (string, json) dict res" where
  "load_v2_manifest file =
     (if file = Absent then Inr []
      else res_bind (read_json_strict (ValueError ''Malformed V2 manifest'') file) (\<lambda>raw.
        res_bind (manifest_entries (ValueError ''V2 manifest is not an object'')
            (ValueError ''V2 manifest regions is not an object'') raw) (\<lambda>entries.
          Inr (filter (\<lambda>(_, v). case v of JObj _ \<Rightarrow> True | _ \<Rightarrow> False) entries))))"

definition plan_sentence_batches ::
  "text_file \<Rightarrow> section_files \<Rightarrow> (string, json) dict option \<Rightarrow> int \<Rightarrow> int \<Rightarrow> sentence_batch list res" where
  "plan_sentence_batches v2_manifest sources sentence_manifest max_stems max_input_bytes =
     res_bind (validate_limits max_stems max_input_bytes) (\<lambda>_.
     res_bind (load_v2_manifest v2_manifest) (\<lambda>finalized.
     if finalized = [] then Inr []
     else
       res_bind (completed_regions sentence_manifest) (\<lambda>completed.
       res_bind (pending_stems sources (map fst finalized) completed) (\<lambda>pending.
         Inr (pack_batches pending max_stems max_input_bytes)))))"

section \<open>Manifests that only grow\<close>

definition MANIFEST_INVARIANT_KEYS :: "string list" where
  "MANIFEST_INVARIANT_KEYS =
     [''contract_version'', ''segmenter'', ''model_id'', ''model_revision'', ''segmenter_version'', ''supported_languages'',
      ''unsupported_language_policy'']"

definition add_region ::
  "json \<Rightarrow> (string \<times> string, json) dict \<Rightarrow> (string \<times> string, json) dict res" where
  "add_region raw regions =
     res_bind (region_identity (ValueError ''sentence manifest region needs string stem and project'') raw) (\<lambda>identity.
       if map_of regions identity \<noteq> None then Inl (ValueError ''sentence manifest has duplicate region'')
       else Inr (AList.update identity raw regions))"

definition manifest_regions :: "(string, json) dict \<Rightarrow> (string \<times> string, json) dict res" where
  "manifest_regions payload =
     (case map_of payload ''regions'' of
        Some (JList raw_regions) \<Rightarrow> res_fold add_region raw_regions []
      | _ \<Rightarrow> Inl (ValueError ''sentence manifest regions must be a list''))"

definition validate_manifest_invariants :: "(string, json) dict \<Rightarrow> (string, json) dict \<Rightarrow> unit res" where
  "validate_manifest_invariants local_payload incoming_payload =
     guard (list_all (\<lambda>key. case (map_of local_payload key, map_of incoming_payload key) of
         (Some a, Some b) \<Rightarrow> py_json_eq a b | _ \<Rightarrow> False) MANIFEST_INVARIANT_KEYS)
       (ValueError ''Sentence manifest key changed'')"

definition validate_existing_region ::
  "(string \<times> string, json) dict \<Rightarrow> (string \<times> string) \<times> json \<Rightarrow> unit res" where
  "validate_existing_region incoming_regions entry =
     (case entry of (identity, region) \<Rightarrow>
        (case map_of incoming_regions identity of
           None \<Rightarrow> Inl (ValueError ''Incoming sentence manifest removed region'')
         | Some incoming \<Rightarrow> guard (py_json_eq incoming region) (ValueError ''Incoming sentence manifest changed region'')))"

definition validate_existing_regions ::
  "(string \<times> string, json) dict \<Rightarrow> (string \<times> string, json) dict \<Rightarrow> unit res" where
  "validate_existing_regions local_regions incoming_regions =
     res_bind (res_map (validate_existing_region incoming_regions) local_regions) (\<lambda>_. Inr ())"

definition validate_selected_stems :: "(string \<times> string, json) dict \<Rightarrow> string list \<Rightarrow> unit res" where
  "validate_selected_stems incoming_regions selected_stems =
     res_bind (guard (selected_stems \<noteq> []) (ValueError ''At least one selected sentence stem is required'')) (\<lambda>_.
       guard (list_all (\<lambda>stem. stem \<in> set (map (fst \<circ> fst) incoming_regions)) selected_stems)
         (ValueError ''Incoming sentence manifest is missing selected stems''))"

definition validate_manifest_extension ::
  "(string, json) dict \<Rightarrow> (string, json) dict \<Rightarrow> string list \<Rightarrow> unit res" where
  "validate_manifest_extension local_payload incoming_payload selected_stems =
     res_bind (manifest_regions local_payload) (\<lambda>local_regions.
     res_bind (manifest_regions incoming_payload) (\<lambda>incoming_regions.
     res_bind (validate_manifest_invariants local_payload incoming_payload) (\<lambda>_.
     res_bind (validate_existing_regions local_regions incoming_regions) (\<lambda>_.
       validate_selected_stems incoming_regions selected_stems))))"

section \<open>Answers of the batch system\<close>

text \<open>\<open>(?:job\s+id|job_id)\s*[:=]\s*(\d+)\<close> at the start of a text, without regard to case.\<close>

definition job_id_here :: "string \<Rightarrow> string option" where
  "job_id_here s =
     (if py_lower (take 3 s) \<noteq> ''job'' then None
      else
        let t = drop 3 s;
            u = (if take 1 t = ''_'' then drop 1 t else if t \<noteq> [] \<and> py_isspace (hd t) then dropWhile py_isspace t else '' '') in
        if py_lower (take 2 u) \<noteq> ''id'' then None
        else
          case dropWhile py_isspace (drop 2 u) of
            [] \<Rightarrow> None
          | c # v \<Rightarrow>
              if c \<noteq> CHR '':'' \<and> c \<noteq> CHR ''='' then None
              else (let digits = takeWhile py_isdigit (dropWhile py_isspace v) in if digits = [] then None else Some digits))"

fun job_id_search :: "string \<Rightarrow> string option" where
  "job_id_search [] = None"
| "job_id_search (c # s) = (case job_id_here (c # s) of Some digits \<Rightarrow> Some digits | None \<Rightarrow> job_id_search s)"

definition parse_job_id :: "string \<Rightarrow> string res" where
  "parse_job_id output =
     (case job_id_search output of None \<Rightarrow> Inl (RuntimeError ''oarsub did not return a job ID'') | Some job_id \<Rightarrow> Inr job_id)"

definition OAR_STATES :: "string list" where
  "OAR_STATES = [''waiting'', ''hold'', ''tolaunch'', ''toerror'', ''toackreservation'', ''launching'', ''running'', ''suspended'',
     ''resuming'', ''finishing'', ''terminated'', ''error'']"

definition TERMINAL_STATES :: "string list" where
  "TERMINAL_STATES = [''terminated'', ''error'']"

definition SUCCESS_STATES :: "string list" where
  "SUCCESS_STATES = [''terminated'']"

definition infer_job_state :: "string \<Rightarrow> string" where
  "infer_job_state text = (let state = py_lower (py_strip text) in if state \<in> set OAR_STATES then state else ''unknown'')"

definition ascii_letter :: "char \<Rightarrow> bool" where
  "ascii_letter c \<longleftrightarrow> (let n = (of_char c :: nat) in 65 \<le> n \<and> n \<le> 90 \<or> 97 \<le> n \<and> n \<le> 122)"

text \<open>\<open>(?P<job_id>\d+):[ \t]*(?P<state>[A-Za-z]+)\<close> on the whole text.\<close>

definition match_job_status :: "string \<Rightarrow> (string \<times> string) option" where
  "match_job_status s =
     (let digits = takeWhile py_isdigit s; rest = dropWhile py_isdigit s in
      if digits = [] \<or> take 1 rest \<noteq> '':'' then None
      else
        let state = dropWhile (\<lambda>c. c = CHR '' '' \<or> c = CHR 0x09) (drop 1 rest) in
        if state = [] \<or> \<not> list_all ascii_letter state then None else Some (digits, state))"

definition parse_job_status :: "int \<Rightarrow> string \<Rightarrow> string \<Rightarrow> string" where
  "parse_job_status returncode stdout job_id =
     (if returncode \<noteq> 0 then ''unknown''
      else
        case match_job_status (py_strip stdout) of
          None \<Rightarrow> ''unknown''
        | Some (j, state) \<Rightarrow> if j \<noteq> job_id then ''unknown'' else infer_job_state state)"

definition is_safe_run_id :: "string \<Rightarrow> bool" where
  "is_safe_run_id value \<longleftrightarrow>
     value \<noteq> [] \<and> list_all (\<lambda>c. let n = (of_char c :: nat) in 97 \<le> n \<and> n \<le> 122 \<or> 48 \<le> n \<and> n \<le> 57 \<or> c = CHR ''_'' \<or> c = CHR ''-'') value"

definition remote_job_root :: "string \<Rightarrow> nat \<Rightarrow> nat \<Rightarrow> string" where
  "remote_job_root remote_run_root index attempt =
     remote_run_root @ ''/jobs/batch-'' @ zero_pad 8 index @ ''-attempt-'' @ zero_pad 2 attempt"

section \<open>Packing\<close>

text \<open>A batch within both limits.\<close>

definition within_limits :: "int \<Rightarrow> int \<Rightarrow> string list \<Rightarrow> nat \<Rightarrow> bool" where
  "within_limits max_stems max_input_bytes stems bytes \<longleftrightarrow>
     stems \<noteq> [] \<and> int (length stems) \<le> max_stems \<and> int bytes \<le> max_input_bytes"

text \<open>The exception the code makes: a region that is larger than the limit on its own gets a batch of its own.\<close>

definition oversized_region :: "int \<Rightarrow> string list \<Rightarrow> nat \<Rightarrow> bool" where
  "oversized_region max_input_bytes stems bytes \<longleftrightarrow> length stems = 1 \<and> max_input_bytes < int bytes"

definition batch_fits :: "int \<Rightarrow> int \<Rightarrow> string list \<Rightarrow> nat \<Rightarrow> bool" where
  "batch_fits max_stems max_input_bytes stems bytes \<longleftrightarrow>
     within_limits max_stems max_input_bytes stems bytes \<or> oversized_region max_input_bytes stems bytes"

text \<open>Two neighbouring batches could not have been one: the first region of the second one did not fit.\<close>

definition full_before :: "(string \<Rightarrow> nat) \<Rightarrow> int \<Rightarrow> int \<Rightarrow> sentence_batch \<Rightarrow> sentence_batch \<Rightarrow> bool" where
  "full_before bytes max_stems max_input_bytes a b \<longleftrightarrow>
     max_stems \<le> int (length (sb_stems a)) \<or> max_input_bytes < int (sb_input_bytes a + bytes (hd (sb_stems b)))"

definition packed :: "(string \<Rightarrow> nat) \<Rightarrow> int \<Rightarrow> int \<Rightarrow> sentence_batch list \<Rightarrow> bool" where
  "packed bytes max_stems max_input_bytes batches \<longleftrightarrow>
     map sb_index batches = [0..<length batches]
     \<and> (\<forall>b\<in>set batches. sb_input_bytes b = sum_list (map bytes (sb_stems b))
          \<and> batch_fits max_stems max_input_bytes (sb_stems b) (sb_input_bytes b))
     \<and> successively (full_before bytes max_stems max_input_bytes) batches"

text \<open>The state of the loop: complete batches, and a current one that the last of them could not take.\<close>

definition packing :: "(string \<Rightarrow> nat) \<Rightarrow> int \<Rightarrow> int \<Rightarrow> sentence_batch list \<Rightarrow> string list \<Rightarrow> nat \<Rightarrow> bool" where
  "packing bytes max_stems max_input_bytes batches stems n \<longleftrightarrow>
     packed bytes max_stems max_input_bytes batches \<and> n = sum_list (map bytes stems)
     \<and> (stems = [] \<and> batches = []
        \<or> packed bytes max_stems max_input_bytes (batches @ [make_batch batches stems n]))"

lemma packed_snoc:
  "packed bytes m k (bs @ [make_batch bs stems n]) \<longleftrightarrow>
     packed bytes m k bs \<and> n = sum_list (map bytes stems) \<and> batch_fits m k stems n
     \<and> (bs = [] \<or> full_before bytes m k (last bs) (make_batch bs stems n))"
  by (auto simp: packed_def make_batch_def successively_append_iff)

lemma make_batch_simps [simp]:
  "sb_index (make_batch bs stems n) = length bs" "sb_stems (make_batch bs stems n) = stems"
  "sb_input_bytes (make_batch bs stems n) = n"
  by (simp_all add: make_batch_def)

lemma packing_flush:
  assumes "packing bytes m k bs stems n" and flush: "should_flush stems n (bytes stem) m k" and "1 \<le> m"
  shows "packing bytes m k (bs @ [make_batch bs stems n]) [stem] (bytes stem)"
proof -
  have complete: "packed bytes m k (bs @ [make_batch bs stems n])"
    using assms(1) flush by (auto simp: packing_def should_flush_def)
  have "full_before bytes m k (make_batch bs stems n) (make_batch (bs @ [make_batch bs stems n]) [stem] (bytes stem))"
    using flush by (auto simp: should_flush_def full_before_def)
  then have "packed bytes m k ((bs @ [make_batch bs stems n]) @ [make_batch (bs @ [make_batch bs stems n]) [stem] (bytes stem)])"
    unfolding packed_snoc [of bytes m k "bs @ [make_batch bs stems n]" "[stem]" "bytes stem"]
    using complete assms(3) by (auto simp: batch_fits_def within_limits_def oversized_region_def)
  then show ?thesis
    using complete by (simp add: packing_def)
qed

lemma packing_add:
  assumes "packing bytes m k bs stems n" and keep: "\<not> should_flush stems n (bytes stem) m k" and "1 \<le> m"
  shows "packing bytes m k bs (stems @ [stem]) (n + bytes stem)"
proof (cases "stems = []")
  case True
  then have "bs = []" "n = 0"
    using assms(1) by (auto simp: packing_def packed_snoc batch_fits_def within_limits_def oversized_region_def)
  then show ?thesis
    using True assms(3) packed_snoc [of bytes m k "[]" "[stem]" "bytes stem"]
    by (auto simp: packing_def batch_fits_def within_limits_def oversized_region_def packed_def)
next
  case False
  then have "packed bytes m k (bs @ [make_batch bs stems n])" and n: "n = sum_list (map bytes stems)"
    using assms(1) by (auto simp: packing_def)
  then have "packed bytes m k bs" "bs = [] \<or> full_before bytes m k (last bs) (make_batch bs (stems @ [stem]) (n + bytes stem))"
    using False by (auto simp: packed_snoc full_before_def)
  moreover have "batch_fits m k (stems @ [stem]) (n + bytes stem)"
    using False keep by (auto simp: should_flush_def batch_fits_def within_limits_def)
  ultimately have "packed bytes m k (bs @ [make_batch bs (stems @ [stem]) (n + bytes stem)])"
    unfolding packed_snoc using n by simp
  then show ?thesis
    using n \<open>packed bytes m k bs\<close> by (simp add: packing_def)
qed

lemma pack_loop_packed:
  assumes "1 \<le> m" and "packing bytes m k bs stems n" and "\<forall>(stem, b)\<in>set pending. b = bytes stem"
  shows "packed bytes m k (pack_loop pending m k bs stems n)
    \<and> concat (map sb_stems (pack_loop pending m k bs stems n)) = concat (map sb_stems bs) @ stems @ map fst pending"
  using assms
proof (induction pending m k bs stems n rule: pack_loop.induct)
  case (1 m k bs stems n)
  then show ?case
    by (auto simp: packing_def)
next
  case (2 stem b pending m k bs stems n)
  then have b: "b = bytes stem"
    by simp
  show ?case
  proof (cases "should_flush stems n b m k")
    case True
    then show ?thesis
      using 2 b packing_flush [OF "2.prems"(2) _ "2.prems"(1), of stem] by simp
  next
    case False
    then show ?thesis
      using 2 b packing_add [OF "2.prems"(2) _ "2.prems"(1), of stem] by simp
  qed
qed

lemma packed_within_limits:
  assumes "packed bytes m k batches" and "\<forall>stem\<in>set (concat (map sb_stems batches)). int (bytes stem) \<le> k"
  shows "\<forall>b\<in>set batches. within_limits m k (sb_stems b) (sb_input_bytes b)"
proof
  fix b assume b: "b \<in> set batches"
  then have fits: "batch_fits m k (sb_stems b) (sb_input_bytes b)" "sb_input_bytes b = sum_list (map bytes (sb_stems b))"
    using assms(1) unfolding packed_def by blast+
  have "\<not> oversized_region k (sb_stems b) (sb_input_bytes b)"
  proof
    assume "oversized_region k (sb_stems b) (sb_input_bytes b)"
    then obtain stem where "sb_stems b = [stem]" "k < int (bytes stem)"
      using fits(2) by (auto simp: oversized_region_def length_Suc_conv)
    then show False using assms(2) b by force
  qed
  then show "within_limits m k (sb_stems b) (sb_input_bytes b)" using fits(1) by (simp add: batch_fits_def)
qed

text \<open>
  C26. Planning loses no region: the batches cover exactly the pending regions (those finalized and
  not complete), each once and in increasing order; they are numbered from zero, the size of each is
  the sum of its files, and no two neighbouring batches could have been packed together from the left.
  Each is within both limits, or is a single region that exceeds the limit of bytes on its own; when no
  region does, every batch is within both limits.
\<close>

theorem plan_batches_exact:
  assumes "plan_sentence_batches v2_manifest sources sentence_manifest m k = Inr batches"
  shows "\<exists>finalized completed bytes. load_v2_manifest v2_manifest = Inr finalized
    \<and> (finalized \<noteq> [] \<longrightarrow> completed_regions sentence_manifest = Inr completed)
    \<and> (finalized = [] \<longrightarrow> completed = [])
    \<and> concat (map sb_stems batches) = filter (\<lambda>stem. case sentence_source_paths sources stem of
          Inl _ \<Rightarrow> False | Inr paths \<Rightarrow> \<not> is_complete stem (required_projects paths) completed) (sort (map fst finalized))
    \<and> (\<forall>stem\<in>fst ` set finalized. \<exists>paths. sentence_source_paths sources stem = Inr paths \<and> bytes stem = sum_list (map snd paths))
    \<and> packed bytes m k batches
    \<and> ((\<forall>stem\<in>set (concat (map sb_stems batches)). int (bytes stem) \<le> k) \<longrightarrow>
         (\<forall>b\<in>set batches. within_limits m k (sb_stems b) (sb_input_bytes b)))"
proof -
  obtain finalized where m: "1 \<le> m" and fin: "load_v2_manifest v2_manifest = Inr finalized"
    using assms by (auto simp: plan_sentence_batches_def validate_limits_def)
  show ?thesis
  proof (cases "finalized = []")
    case True
    then have "batches = []"
      using assms fin by (auto simp: plan_sentence_batches_def)
    with True fin show ?thesis
      by (simp add: packed_def exI [of _ "[]"])
  next
    case False
    then obtain completed pending where comp: "completed_regions sentence_manifest = Inr completed"
      and pend: "pending_stems sources (map fst finalized) completed = Inr pending"
      and batches: "batches = pack_batches pending m k"
      using assms fin by (auto simp: plan_sentence_batches_def)
    obtain parts where parts: "res_map (pending_stem sources completed) (sort (map fst finalized)) = Inr parts"
      and pending: "pending = concat parts"
      using pend by (auto simp: pending_stems_def)
    define bytes where "bytes stem = (case sentence_source_paths sources stem of Inl _ \<Rightarrow> 0 | Inr paths \<Rightarrow> sum_list (map snd paths))" for stem
    have ok: "\<forall>stem\<in>fst ` set finalized. \<exists>paths. sentence_source_paths sources stem = Inr paths \<and> bytes stem = sum_list (map snd paths)"
      using res_map_total [OF parts] by (fastforce simp: pending_stem_def bytes_def)
    have shape: "concat ps = map (\<lambda>stem. (stem, bytes stem)) (filter (\<lambda>stem. case sentence_source_paths sources stem of
          Inl _ \<Rightarrow> False | Inr paths \<Rightarrow> \<not> is_complete stem (required_projects paths) completed) stems)"
      if "res_map (pending_stem sources completed) stems = Inr ps" for stems ps
      using that by (induction stems arbitrary: ps) (auto simp: pending_stem_def bytes_def)
    have "packing bytes m k [] [] 0"
      by (simp add: packing_def packed_def)
    then have "packed bytes m k batches \<and> concat (map sb_stems batches) = map fst pending"
      unfolding batches pack_batches_def using pack_loop_packed [OF m, of bytes k "[]" "[]" 0 pending] shape [OF parts]
      by (auto simp: pending)
    then show ?thesis
      using False fin comp ok shape [OF parts] packed_within_limits [of bytes m k batches]
      by (intro exI [of _ finalized] exI [of _ completed] exI [of _ bytes]) (simp add: pending comp_def)
  qed
qed

theorem plan_batches_exact_witness:
  "\<exists>bytes. packed bytes 1 100 [\<lparr>sb_index = 0, sb_stems = [''a-latest''], sb_input_bytes = 10\<rparr>, \<lparr>sb_index = 1, sb_stems = [''b-latest''], sb_input_bytes = 10\<rparr>]"
proof -
  have "plan_sentence_batches (Parsed (JObj [(''regions'', JObj [(''b-latest'', JObj []), (''a-latest'', JObj [])])]))
      (\<lambda>project stem. if project = ''wikipedia'' then Some 10 else None) None 1 100
    = Inr [\<lparr>sb_index = 0, sb_stems = [''a-latest''], sb_input_bytes = 10\<rparr>, \<lparr>sb_index = 1, sb_stems = [''b-latest''], sb_input_bytes = 10\<rparr>]"
    by code_simp
  from plan_batches_exact [OF this] show ?thesis by blast
qed

text \<open>A region of ten bytes under a limit of five: its batch is planned although it exceeds the limit.\<close>

lemma oversized_region_planned:
  "plan_sentence_batches (Parsed (JObj [(''regions'', JObj [(''a-latest'', JObj [])])]))
      (\<lambda>project stem. if project = ''wikipedia'' then Some 10 else None) None 4 5
   = Inr [\<lparr>sb_index = 0, sb_stems = [''a-latest''], sb_input_bytes = 10\<rparr>]"
  by code_simp

text \<open>
  An accepted manifest extends the local one: every region that was recorded is still there with
  the same entry, the selected regions are present, regions are unique, and the invariant keys agree.
\<close>

theorem manifest_extension_keeps_regions:
  assumes "validate_manifest_extension local_payload incoming_payload selected = Inr ()"
  shows "\<exists>old new. manifest_regions local_payload = Inr old \<and> manifest_regions incoming_payload = Inr new
    \<and> (\<forall>identity region. map_of old identity = Some region \<longrightarrow> (\<exists>kept. map_of new identity = Some kept \<and> py_json_eq kept region))
    \<and> (\<forall>stem\<in>set selected. \<exists>project. map_of new (stem, project) \<noteq> None) \<and> selected \<noteq> []
    \<and> (\<forall>key\<in>set MANIFEST_INVARIANT_KEYS. \<exists>a b. map_of local_payload key = Some a \<and> map_of incoming_payload key = Some b \<and> py_json_eq a b)"
proof -
  obtain old new where regions: "manifest_regions local_payload = Inr old" "manifest_regions incoming_payload = Inr new"
    and inv: "validate_manifest_invariants local_payload incoming_payload = Inr ()"
    and keep: "validate_existing_regions old new = Inr ()"
    and sel: "validate_selected_stems new selected = Inr ()"
    using assms by (auto simp: validate_manifest_extension_def)
  have "\<exists>kept. map_of new identity = Some kept \<and> py_json_eq kept region" if "map_of old identity = Some region" for identity region
  proof -
    have "(identity, region) \<in> set old"
      using that by (rule map_of_SomeD)
    moreover obtain us where "res_map (validate_existing_region new) old = Inr us"
      using keep by (auto simp: validate_existing_regions_def)
    ultimately obtain u where "validate_existing_region new (identity, region) = Inr u"
      using res_map_total by blast
    then show ?thesis
      by (auto simp: validate_existing_region_def split: option.splits)
  qed
  moreover have "\<exists>project. map_of new (stem, project) \<noteq> None" if "stem \<in> set selected" for stem
  proof -
    have "stem \<in> (fst \<circ> fst) ` set new"
      using sel that by (simp add: validate_selected_stems_def list_all_iff)
    then obtain e where "e \<in> set new" "fst (fst e) = stem"
      by auto
    then have "(stem, snd (fst e)) \<in> fst ` set new"
      by (metis image_eqI prod.collapse)
    then show ?thesis
      by (auto simp: map_of_eq_None_iff)
  qed
  moreover have "\<exists>a b. map_of local_payload key = Some a \<and> map_of incoming_payload key = Some b \<and> py_json_eq a b"
    if "key \<in> set MANIFEST_INVARIANT_KEYS" for key
  proof -
    have "case (map_of local_payload key, map_of incoming_payload key) of (Some a, Some b) \<Rightarrow> py_json_eq a b | _ \<Rightarrow> False"
      using inv that by (simp add: validate_manifest_invariants_def list_all_iff)
    then show ?thesis
      by (cases "map_of local_payload key"; cases "map_of incoming_payload key") simp_all
  qed
  ultimately show ?thesis
    using regions sel by (intro exI [of _ old] exI [of _ new]) (simp add: validate_selected_stems_def)
qed

definition sample_manifest :: "string list \<Rightarrow> (string, json) dict" where
  "sample_manifest stems = map (\<lambda>key. (key, JStr ''v'')) MANIFEST_INVARIANT_KEYS
     @ [(''regions'', JList (map (\<lambda>stem. JObj [(''stem'', JStr stem), (''project'', JStr ''wikipedia'')]) stems))]"

theorem manifest_extension_keeps_regions_witness:
  "\<exists>new. manifest_regions (sample_manifest [''a'', ''b'']) = Inr new \<and> (\<exists>project. map_of new (''b'', project) \<noteq> None)"
proof -
  have "validate_manifest_extension (sample_manifest [''a'']) (sample_manifest [''a'', ''b'']) [''b''] = Inr ()"
    by code_simp
  from manifest_extension_keeps_regions [OF this] show ?thesis by fastforce
qed

lemma remote_job_root_inject:
  "remote_job_root r i a = remote_job_root r j b \<longleftrightarrow> i = j \<and> a = b"
proof
  assume "remote_job_root r i a = remote_job_root r j b"
  then have eq: "zero_pad 8 i @ CHR ''-'' # ''attempt-'' @ zero_pad 2 a = zero_pad 8 j @ CHR ''-'' # ''attempt-'' @ zero_pad 2 b"
    by (simp add: remote_job_root_def)
  have no: "CHR ''-'' \<notin> set (zero_pad w n)" for w n
    by (simp add: zero_pad_def)
  have "py_split (CHR ''-'') (zero_pad 8 i @ CHR ''-'' # t) = zero_pad 8 i # py_split (CHR ''-'') t" for i t
    by (rule py_split_append [OF no])
  with arg_cong [OF eq, of "py_split (CHR ''-'')"] have "zero_pad 8 i = zero_pad 8 j"
    by (metis list.inject)
  with eq show "i = j \<and> a = b"
    by simp
qed simp

end
