(* ===== verification/Grid_Controller.thy ===== *)
theory Grid_Controller
  imports Grid_Protocol
begin

text \<open>
  The controller of the remote sentence jobs (\<open>grid5000/sentence_controller.py\<close> and its mixins for
  the ledger, the batches, the import and the lifecycle).

  The state of a process is the ledger in memory, the ledger file, the batch in hand, and a script of
  answers: every call of the transport, the publisher, the local disk and the clock consumes one
  answer, which may be a failure, a keyboard interrupt or the death of the process; when the script is
  used up the process is killed before that call. Calls are recorded with their answers. A process starts with the file its
  predecessor left. Times are not represented. The import of verified files is one call.
\<close>

section \<open>The machine\<close>

datatype cexn = RunError string | CommandTimeout | OsError string | SubprocessError string | OtherError string

fun exn_name :: "cexn \<Rightarrow> string" where
  "exn_name (RunError _) = ''ControllerRunError''"
| "exn_name CommandTimeout = ''ControllerCommandTimeoutError''"
| "exn_name (OsError n) = n"
| "exn_name (SubprocessError n) = n"
| "exn_name (OtherError n) = n"

datatype fault = Fails cexn | Ctrl_C | Kill

record response =
  rs_fault :: "fault option"
  rs_code :: int
  rs_stdout :: string
  rs_hashes :: "string \<times> string"
  rs_receipt :: text_file

datatype event =
    WriteLedger string
  | Baseline
  | Mkdir nat
  | Stage nat
  | UploadTree nat
  | PolicyBefore nat
  | Oarsub nat nat
  | PolicyAfter nat
  | Oarstat nat string
  | Sleep
  | Download nat
  | ImportFiles nat
  | ImportPartial nat
  | Publish nat
  | Verify nat
  | RemoveTree string
  | PolicyFinal
  | Oardel string

record batch =
  bt_index :: nat
  bt_stems :: "string list"
  bt_input_bytes :: nat
  bt_state :: string
  bt_attempt :: nat
  bt_job_id :: "string option"
  bt_remote_root :: "string option"
  bt_hf_commit :: "string option"
  bt_error :: "string option"
  bt_remote_cleaned :: bool

text \<open>The fields of a run that a resumed process must find unchanged, but for the source commit.\<close>

record run_fields =
  rf_contract_version :: string
  rf_repo_id :: string
  rf_model_id :: string
  rf_model_revision :: string
  rf_segmenter_version :: string
  rf_site :: string
  rf_queue :: string
  rf_gpu_model :: string
  rf_max_stems :: int
  rf_max_input_bytes :: int
  rf_batch_size :: int
  rf_inference_batch_size :: int
  rf_walltime :: string

record ledger =
  lg_run_id :: string
  lg_fields :: run_fields
  lg_source_commit :: string
  lg_source_commit_updates :: "(string \<times> string) list"
  lg_baseline_readme :: string
  lg_baseline_map :: string
  lg_cleanup_state :: string
  lg_batches :: "batch list"

datatype ledger_file = NoLedger | InvalidLedger | Saved ledger

record ctl_config =
  cf_run_id :: "string option"
  cf_new_run_id :: string
  cf_fields :: run_fields
  cf_source_commit :: string
  cf_namespace :: string
  cf_v2_manifest :: text_file
  cf_sources :: section_files
  cf_sentence_manifest :: text_file
  cf_container_text :: "json \<Rightarrow> string"

record ctl_world =
  ledger_on_disk :: ledger_file
  memory :: "ledger option"
  run_id :: "string option"
  current :: "nat option"
  answers :: "response list"
  calls :: "(event \<times> response) list"

datatype 'a ctl_result = Done 'a | Raise cexn | Interrupt | Killed

type_synonym 'a ctl = "ctl_world \<Rightarrow> 'a ctl_result \<times> ctl_world"

definition ctl_ret :: "'a \<Rightarrow> 'a ctl" where
  "ctl_ret a w = (Done a, w)"

definition ctl_raise :: "cexn \<Rightarrow> 'a ctl" where
  "ctl_raise e w = (Raise e, w)"

definition ctl_bind :: "'a ctl \<Rightarrow> ('a \<Rightarrow> 'b ctl) \<Rightarrow> 'b ctl" where
  "ctl_bind m f w =
     (case m w of
        (Done a, w1) \<Rightarrow> f a w1
      | (Raise e, w1) \<Rightarrow> (Raise e, w1)
      | (Interrupt, w1) \<Rightarrow> (Interrupt, w1)
      | (Killed, w1) \<Rightarrow> (Killed, w1))"

text \<open>\<open>try: m except Exception as e: h(e)\<close>: interrupts pass.\<close>

definition ctl_catch :: "'a ctl \<Rightarrow> (cexn \<Rightarrow> 'a ctl) \<Rightarrow> 'a ctl" where
  "ctl_catch m h w = (case m w of (Raise e, w1) \<Rightarrow> h e w1 | r \<Rightarrow> r)"

definition ctl_of_res :: "'a res \<Rightarrow> 'a ctl" where
  "ctl_of_res r = (case r of Inl (RuntimeError m) \<Rightarrow> ctl_raise (RunError m) | Inl _ \<Rightarrow> ctl_raise (OtherError ''ValueError'') | Inr a \<Rightarrow> ctl_ret a)"

definition ctl_get :: "(ctl_world \<Rightarrow> 'a) \<Rightarrow> 'a ctl" where
  "ctl_get f w = (Done (f w), w)"

definition call :: "event \<Rightarrow> response ctl" where
  "call ev w =
     (case answers w of
        [] \<Rightarrow> (Killed, w)
      | r # rs \<Rightarrow>
          let w1 = w\<lparr>answers := rs, calls := calls w @ [(ev, r)]\<rparr> in
          (case rs_fault r of None \<Rightarrow> (Done r, w1) | Some (Fails e) \<Rightarrow> (Raise e, w1) | Some Ctrl_C \<Rightarrow> (Interrupt, w1)
           | Some Kill \<Rightarrow> (Killed, w1)))"

definition run_frontend :: "event \<Rightarrow> response ctl" where
  "run_frontend ev =
     ctl_bind (call ev) (\<lambda>r.
       if rs_code r \<noteq> 0 then ctl_raise (RunError ''Grid5000 frontend command failed'') else ctl_ret r)"

section \<open>The ledger\<close>

definition batches_of :: "ctl_world \<Rightarrow> batch list" where
  "batches_of w = (case memory w of None \<Rightarrow> [] | Some l \<Rightarrow> lg_batches l)"

definition get_batch :: "nat \<Rightarrow> batch ctl" where
  "get_batch i = ctl_get (\<lambda>w. batches_of w ! i)"

definition update_ledger :: "(ledger \<Rightarrow> ledger) \<Rightarrow> unit ctl" where
  "update_ledger f w = (Done (), w\<lparr>memory := map_option f (memory w)\<rparr>)"

text \<open>An assignment to fields of the batch, which is an object inside the ledger.\<close>

definition update_batch :: "nat \<Rightarrow> (batch \<Rightarrow> batch) \<Rightarrow> unit ctl" where
  "update_batch i f = update_ledger (\<lambda>l. l\<lparr>lg_batches := (lg_batches l)[i := f (lg_batches l ! i)]\<rparr>)"

definition write_ledger :: "string \<Rightarrow> unit ctl" where
  "write_ledger site w =
     (case memory w of
        None \<Rightarrow> (Raise (RunError ''Cannot write an uninitialized sentence ledger''), w)
      | Some l \<Rightarrow> ctl_bind (call (WriteLedger site)) (\<lambda>_ w1. (Done (), w1\<lparr>ledger_on_disk := Saved l\<rparr>)) w)"

definition RETRYABLE_ARTIFACT_FAILURES :: "string list" where
  "RETRYABLE_ARTIFACT_FAILURES = [''missing_receipt'', ''invalid_receipt'']"

definition blank :: "string option \<Rightarrow> bool" where
  "blank v \<longleftrightarrow> v = None \<or> v = Some []"

definition source_commit_job_is_safe :: "batch \<Rightarrow> bool" where
  "source_commit_job_is_safe b =
     (if bt_state b = ''planned'' then blank (bt_job_id b)
      else if bt_state b = ''failed''
      then blank (bt_job_id b) \<or> (\<exists>e\<in>set RETRYABLE_ARTIFACT_FAILURES. bt_error b = Some e)
      else True)"

definition source_commit_batch_is_safe :: "batch \<Rightarrow> bool" where
  "source_commit_batch_is_safe b \<longleftrightarrow>
     (bt_state b = ''planned'' \<or> bt_state b = ''failed'') \<and> source_commit_job_is_safe b \<and> blank (bt_hf_commit b)"

definition is_source_commit_migration_safe :: "ledger \<Rightarrow> bool" where
  "is_source_commit_migration_safe l \<longleftrightarrow> lg_batches l \<noteq> [] \<and> list_all source_commit_batch_is_safe (lg_batches l)"

definition refresh_resumable_source_commit :: "ctl_config \<Rightarrow> ledger \<Rightarrow> ledger ctl" where
  "refresh_resumable_source_commit cfg l =
     (if lg_source_commit l = cf_source_commit cfg \<or> \<not> is_source_commit_migration_safe l then ctl_ret l
      else
        let l1 = l\<lparr>lg_source_commit := cf_source_commit cfg,
                   lg_source_commit_updates := lg_source_commit_updates l @ [(lg_source_commit l, cf_source_commit cfg)]\<rparr> in
        ctl_bind (\<lambda>w. (Done (), w\<lparr>memory := Some l1\<rparr>)) (\<lambda>_.
        ctl_bind (write_ledger ''source_commit'') (\<lambda>_. ctl_ret l1)))"

definition validate_immutable_ledger :: "ctl_config \<Rightarrow> ledger \<Rightarrow> unit ctl" where
  "validate_immutable_ledger cfg l =
     (if lg_fields l = cf_fields cfg \<and> lg_source_commit l = cf_source_commit cfg then ctl_ret ()
      else ctl_raise (RunError ''Sentence ledger immutable field changed''))"

definition load_existing_ledger :: "ctl_config \<Rightarrow> ledger \<Rightarrow> ledger ctl" where
  "load_existing_ledger cfg l =
     ctl_bind (ctl_get run_id) (\<lambda>requested.
     if requested \<noteq> None \<and> requested \<noteq> Some (lg_run_id l)
     then ctl_raise (RunError ''Requested run_id does not match the existing ledger'')
     else
       ctl_bind (\<lambda>w. (Done (), w\<lparr>run_id := Some (lg_run_id l)\<rparr>)) (\<lambda>_.
       ctl_bind (refresh_resumable_source_commit cfg l) (\<lambda>l1.
       ctl_bind (validate_immutable_ledger cfg l1) (\<lambda>_. ctl_ret l1))))"

definition new_batch_record :: "sentence_batch \<Rightarrow> batch" where
  "new_batch_record b =
     \<lparr>bt_index = sb_index b, bt_stems = sb_stems b, bt_input_bytes = sb_input_bytes b, bt_state = ''planned'', bt_attempt = 0,
      bt_job_id = None, bt_remote_root = None, bt_hf_commit = None, bt_error = None, bt_remote_cleaned = False\<rparr>"

definition load_json_mapping :: "text_file \<Rightarrow> (string, json) dict option res" where
  "load_json_mapping file =
     (if file = Absent then Inr None
      else case read_json_strict (RuntimeError ''Invalid JSON artifact'') file of
             Inl _ \<Rightarrow> Inl (RuntimeError ''Invalid JSON artifact'')
           | Inr (JObj d) \<Rightarrow> Inr (Some d)
           | Inr _ \<Rightarrow> Inl (RuntimeError ''JSON artifact is not an object''))"

definition new_ledger :: "ctl_config \<Rightarrow> string \<Rightarrow> ledger ctl" where
  "new_ledger cfg rid =
     ctl_bind (ctl_of_res (load_json_mapping (cf_sentence_manifest cfg))) (\<lambda>manifest.
     ctl_bind (ctl_of_res (plan_sentence_batches (cf_v2_manifest cfg) (cf_sources cfg) manifest
         (rf_max_stems (cf_fields cfg)) (rf_max_input_bytes (cf_fields cfg)))) (\<lambda>planned.
     ctl_bind (call Baseline) (\<lambda>r.
       ctl_ret \<lparr>lg_run_id = rid, lg_fields = cf_fields cfg, lg_source_commit = cf_source_commit cfg,
         lg_source_commit_updates = [], lg_baseline_readme = fst (rs_hashes r), lg_baseline_map = snd (rs_hashes r),
         lg_cleanup_state = ''pending'', lg_batches = map new_batch_record planned\<rparr>)))"

definition create_ledger :: "ctl_config \<Rightarrow> ledger ctl" where
  "create_ledger cfg =
     ctl_bind (ctl_get run_id) (\<lambda>requested.
     let rid = (case requested of None \<Rightarrow> cf_new_run_id cfg | Some r \<Rightarrow> r) in
     ctl_bind (\<lambda>w. (Done (), w\<lparr>run_id := Some rid\<rparr>)) (\<lambda>_.
     if \<not> is_safe_run_id rid then ctl_raise (RunError ''Unsafe Grid5000 run_id'')
     else
       ctl_bind (new_ledger cfg rid) (\<lambda>l.
       ctl_bind (\<lambda>w. (Done (), w\<lparr>memory := Some l\<rparr>)) (\<lambda>_.
       ctl_bind (write_ledger ''create'') (\<lambda>_. ctl_ret l)))))"

definition initialize :: "ctl_config \<Rightarrow> unit ctl" where
  "initialize cfg w =
     (case memory w of
        Some l \<Rightarrow> (Done (), w)
      | None \<Rightarrow>
          ctl_bind (case ledger_on_disk w of
              NoLedger \<Rightarrow> create_ledger cfg
            | InvalidLedger \<Rightarrow> ctl_raise (RunError ''Invalid JSON artifact'')
            | Saved l \<Rightarrow> load_existing_ledger cfg l) (\<lambda>l w1. (Done (), w1\<lparr>memory := Some l\<rparr>)) w)"

definition remote_run_root :: "ctl_config \<Rightarrow> string ctl" where
  "remote_run_root cfg w =
     (case run_id w of
        None \<Rightarrow> (Raise (RunError ''Controller run has not been initialized''), w)
      | Some rid \<Rightarrow> (Done (cf_namespace cfg @ ''/'' @ rid), w))"

section \<open>Cleanup and publication\<close>

definition cleanup_remote_job :: "ctl_config \<Rightarrow> nat \<Rightarrow> unit ctl" where
  "cleanup_remote_job cfg i =
     ctl_bind (get_batch i) (\<lambda>b.
     ctl_bind (remote_run_root cfg) (\<lambda>root.
     case bt_remote_root b of
       None \<Rightarrow> ctl_raise (RunError ''Refusing cleanup outside the current Grid5000 run namespace'')
     | Some job_root \<Rightarrow>
         if \<not> py_startswith job_root (root @ ''/jobs/'')
         then ctl_raise (RunError ''Refusing cleanup outside the current Grid5000 run namespace'')
         else if bt_remote_cleaned b then ctl_ret ()
         else
           ctl_bind (call (RemoveTree job_root)) (\<lambda>_.
           ctl_bind (update_batch i (\<lambda>b. b\<lparr>bt_remote_cleaned := True\<rparr>)) (\<lambda>_.
             write_ledger ''cleaned''))))"

definition assert_baseline :: "unit ctl" where
  "assert_baseline =
     ctl_bind (call Baseline) (\<lambda>r.
     ctl_bind (ctl_get memory) (\<lambda>m.
     case m of
       None \<Rightarrow> ctl_raise (RunError ''Run ledger is not loaded'')
     | Some l \<Rightarrow>
         if fst (rs_hashes r) \<noteq> lg_baseline_readme l then ctl_raise (OtherError ''ValueError'')
         else if snd (rs_hashes r) \<noteq> lg_baseline_map l then ctl_raise (OtherError ''ValueError'')
         else ctl_ret ()))"

definition publication_message :: "batch \<Rightarrow> string ctl" where
  "publication_message b =
     (case bt_stems b of
        [] \<Rightarrow> ctl_raise (OtherError ''IndexError'')
      | [stem] \<Rightarrow> ctl_ret (''Add Grid5000 sentence split '' @ stem)
      | stem # stems \<Rightarrow>
          ctl_ret (''Add Grid5000 sentence splits '' @ stem @ '' through '' @ last stems @ '' ('' @ nat_digits (length (stem # stems)) @ '' regions)''))"

definition publish_batch :: "ctl_config \<Rightarrow> nat \<Rightarrow> unit ctl" where
  "publish_batch cfg i =
     ctl_bind (ctl_catch assert_baseline (\<lambda>e.
       ctl_bind (update_batch i (\<lambda>b. b\<lparr>bt_error := Some (exn_name e)\<rparr>)) (\<lambda>_.
       ctl_bind (write_ledger ''baseline'') (\<lambda>_. ctl_raise (RunError ''Protected publication baseline changed''))))) (\<lambda>_.
     ctl_bind (get_batch i) (\<lambda>b.
     ctl_bind (publication_message b) (\<lambda>message.
     ctl_bind (ctl_catch (ctl_bind (call (Publish i)) (\<lambda>r. ctl_bind (call (Verify i)) (\<lambda>_. ctl_ret (rs_stdout r)))) (\<lambda>e.
       ctl_bind (update_batch i (\<lambda>b. b\<lparr>bt_state := ''ready_to_publish'', bt_error := Some ''publisher_failure''\<rparr>)) (\<lambda>_.
       ctl_bind (write_ledger ''publisher_failure'') (\<lambda>_. ctl_raise e)))) (\<lambda>commit.
     ctl_bind (update_batch i (\<lambda>b. b\<lparr>bt_state := ''published'', bt_hf_commit := Some commit, bt_error := None\<rparr>)) (\<lambda>_.
     ctl_bind (write_ledger ''published'') (\<lambda>_.
       cleanup_remote_job cfg i))))))"

section \<open>Retrieval\<close>

definition stem_text :: "ctl_config \<Rightarrow> json \<Rightarrow> string" where
  "stem_text cfg v =
     (case v of
        JStr s \<Rightarrow> s | JNull \<Rightarrow> ''None'' | JBool b \<Rightarrow> (if b then ''True'' else ''False'') | JInt i \<Rightarrow> py_str_int i
      | _ \<Rightarrow> cf_container_text cfg v)"

definition validate_receipt :: "ctl_config \<Rightarrow> batch \<Rightarrow> (string, json) dict \<Rightarrow> bool" where
  "validate_receipt cfg b receipt \<longleftrightarrow>
     map_of receipt ''job_id'' = Some (JStr (case bt_job_id b of None \<Rightarrow> ''None'' | Some j \<Rightarrow> j))
     \<and> map_of receipt ''source_commit'' = Some (JStr (cf_source_commit cfg))
     \<and> map_of receipt ''model_id'' = Some (JStr (rf_model_id (cf_fields cfg)))
     \<and> map_of receipt ''model_revision'' = Some (JStr (rf_model_revision (cf_fields cfg)))
     \<and> (case map_of receipt ''stems'' of Some (JList xs) \<Rightarrow> map (stem_text cfg) xs = bt_stems b | _ \<Rightarrow> False)"

definition read_receipt :: "ctl_config \<Rightarrow> batch \<Rightarrow> text_file \<Rightarrow> (string, json) dict option" where
  "read_receipt cfg b file =
     (case load_json_mapping file of
        Inr (Some receipt) \<Rightarrow> if validate_receipt cfg b receipt then Some receipt else None
      | _ \<Rightarrow> None)"

definition remote_batch_succeeded :: "string \<Rightarrow> (string, json) dict \<Rightarrow> bool" where
  "remote_batch_succeeded state receipt \<longleftrightarrow>
     state \<in> set SUCCESS_STATES \<and> map_of receipt ''status'' = Some (JStr ''succeeded'')"

definition error_type_text :: "ctl_config \<Rightarrow> (string, json) dict \<Rightarrow> string" where
  "error_type_text cfg receipt =
     (let v = dict_get receipt ''error_type'' JNull in
      if v \<in> {JNull, JBool False, JInt 0, JStr [], JList [], JObj []} then ''remote_job_failed'' else stem_text cfg v)"

definition read_valid_receipt :: "ctl_config \<Rightarrow> nat \<Rightarrow> text_file \<Rightarrow> (string, json) dict ctl" where
  "read_valid_receipt cfg i file =
     ctl_bind (get_batch i) (\<lambda>b.
     case read_receipt cfg b file of
       Some receipt \<Rightarrow> ctl_ret receipt
     | None \<Rightarrow>
         ctl_bind (call (ImportPartial i)) (\<lambda>_.
         ctl_bind (update_batch i (\<lambda>b. b\<lparr>bt_state := ''failed'',
             bt_error := Some (if file = Absent then ''missing_receipt'' else ''invalid_receipt'')\<rparr>)) (\<lambda>_.
         ctl_bind (write_ledger ''receipt'') (\<lambda>_.
         ctl_bind (cleanup_remote_job cfg i) (\<lambda>_.
           ctl_raise (RunError ''Grid5000 batch produced an invalid receipt; retryable''))))))"

definition mark_batch_failed :: "ctl_config \<Rightarrow> nat \<Rightarrow> (string, json) dict \<Rightarrow> unit ctl" where
  "mark_batch_failed cfg i receipt =
     ctl_bind (call (ImportPartial i)) (\<lambda>_.
     ctl_bind (update_batch i (\<lambda>b. b\<lparr>bt_state := ''failed'', bt_error := Some (error_type_text cfg receipt)\<rparr>)) (\<lambda>_.
       write_ledger ''remote_failure''))"

definition retrieve_batch :: "ctl_config \<Rightarrow> nat \<Rightarrow> string \<Rightarrow> unit ctl" where
  "retrieve_batch cfg i state =
     ctl_bind (call (Download i)) (\<lambda>r.
     ctl_bind (read_valid_receipt cfg i (rs_receipt r)) (\<lambda>receipt.
     if remote_batch_succeeded state receipt then
       ctl_bind (call (ImportFiles i)) (\<lambda>_.
       ctl_bind (update_batch i (\<lambda>b. b\<lparr>bt_state := ''ready_to_publish''\<rparr>)) (\<lambda>_.
         write_ledger ''ready''))
     else
       ctl_bind (mark_batch_failed cfg i receipt) (\<lambda>_.
       ctl_bind (cleanup_remote_job cfg i) (\<lambda>_.
         ctl_raise (RunError ''Grid5000 batch failed and is retryable'')))))"

section \<open>Submission and polling\<close>

definition record_submission_failure :: "nat \<Rightarrow> cexn \<Rightarrow> unit ctl" where
  "record_submission_failure i e =
     (if e = CommandTimeout then ctl_ret ()
      else
        ctl_bind (update_batch i (\<lambda>b. b\<lparr>bt_state := ''failed'', bt_error := Some (exn_name e)\<rparr>)) (\<lambda>_.
          write_ledger ''submission_failure''))"

text \<open>The guarded part of a submission: staging, the upload, the policy checks and the submission proper.\<close>

definition submit_job :: "nat \<Rightarrow> nat \<Rightarrow> unit ctl" where
  "submit_job i attempt =
     ctl_bind (run_frontend (Mkdir i)) (\<lambda>_.
     ctl_bind (call (Stage i)) (\<lambda>_.
     ctl_bind (call (UploadTree i)) (\<lambda>_.
     ctl_bind (run_frontend (PolicyBefore i)) (\<lambda>_.
     ctl_bind (run_frontend (Oarsub i attempt)) (\<lambda>r.
     ctl_bind (ctl_of_res (parse_job_id (rs_stdout r))) (\<lambda>job_id.
     ctl_bind (update_batch i (\<lambda>b. b\<lparr>bt_job_id := Some job_id, bt_state := ''running''\<rparr>)) (\<lambda>_.
     ctl_bind (write_ledger ''running'') (\<lambda>_.
     ctl_bind (run_frontend (PolicyAfter i)) (\<lambda>_. ctl_ret ())))))))))"

definition announce_batch :: "nat \<Rightarrow> string \<Rightarrow> unit ctl" where
  "announce_batch i run_root =
     update_batch i (\<lambda>b. b\<lparr>bt_attempt := bt_attempt b + 1, bt_state := ''submitted'', bt_job_id := None,
       bt_remote_root := Some (remote_job_root run_root (bt_index b) (bt_attempt b + 1)),
       bt_remote_cleaned := False, bt_error := None\<rparr>)"

definition submit_batch :: "ctl_config \<Rightarrow> nat \<Rightarrow> unit ctl" where
  "submit_batch cfg i =
     ctl_bind (remote_run_root cfg) (\<lambda>run_root.
     ctl_bind (announce_batch i run_root) (\<lambda>_.
     ctl_bind (write_ledger ''submitted'') (\<lambda>_.
     ctl_bind (get_batch i) (\<lambda>b.
     ctl_catch (submit_job i (bt_attempt b)) (\<lambda>e.
       ctl_bind (record_submission_failure i e) (\<lambda>_. ctl_raise (RunError ''Grid5000 batch submission failed'')))))))"

definition query_job_status :: "nat \<Rightarrow> string \<Rightarrow> string ctl" where
  "query_job_status i job_id =
     ctl_catch (ctl_bind (call (Oarstat i job_id)) (\<lambda>r. ctl_ret (parse_job_status (rs_code r) (rs_stdout r) job_id)))
       (\<lambda>e. case e of
          OsError _ \<Rightarrow> ctl_ret ''unknown'' | SubprocessError _ \<Rightarrow> ctl_ret ''unknown'' | CommandTimeout \<Rightarrow> ctl_ret ''unknown''
        | _ \<Rightarrow> ctl_raise e)"

text \<open>
  The polling loop. Every round consumes an answer, so the number of answers left bounds the rounds;
  with no round left the process is killed in the next call.
\<close>

fun poll_job :: "ctl_config \<Rightarrow> nat \<Rightarrow> string \<Rightarrow> nat \<Rightarrow> unit ctl" where
  "poll_job cfg i job_id 0 w = (Killed, w)"
| "poll_job cfg i job_id (Suc n) w =
     ctl_bind (query_job_status i job_id) (\<lambda>state.
       if state \<in> set TERMINAL_STATES then retrieve_batch cfg i state
       else ctl_bind (call Sleep) (\<lambda>_. poll_job cfg i job_id n)) w"

definition reconcile_batch :: "ctl_config \<Rightarrow> nat \<Rightarrow> unit ctl" where
  "reconcile_batch cfg i =
     ctl_bind (get_batch i) (\<lambda>b.
     if blank (bt_job_id b)
     then ctl_raise (RunError ''without a recorded OAR job ID; refusing duplicate submission'')
     else (\<lambda>w. poll_job cfg i (the (bt_job_id b)) (Suc (length (answers w))) w))"

section \<open>Runs\<close>

definition ACTIVE_STATES :: "string list" where
  "ACTIVE_STATES = [''submitted'', ''running'']"

definition publish_if_ready :: "ctl_config \<Rightarrow> nat \<Rightarrow> unit ctl" where
  "publish_if_ready cfg i =
     ctl_bind (get_batch i) (\<lambda>b. if bt_state b = ''ready_to_publish'' then publish_batch cfg i else ctl_ret ())"

definition process_batch :: "ctl_config \<Rightarrow> nat \<Rightarrow> unit ctl" where
  "process_batch cfg i =
     ctl_bind (get_batch i) (\<lambda>b.
     let state = bt_state b in
     if state = ''published'' then ctl_ret ()
     else if state = ''ready_to_publish'' then publish_batch cfg i
     else
       ctl_bind (if state \<in> set ACTIVE_STATES then reconcile_batch cfg i
                 else if state = ''planned'' \<or> state = ''failed''
                 then ctl_bind (submit_batch cfg i) (\<lambda>_. reconcile_batch cfg i)
                 else ctl_raise (RunError ''Batch is in unsupported state'')) (\<lambda>_.
         publish_if_ready cfg i))"

fun process_batches :: "ctl_config \<Rightarrow> nat list \<Rightarrow> unit ctl" where
  "process_batches cfg [] w = (Done (), w)"
| "process_batches cfg (i # rest) w =
     ctl_bind (\<lambda>w. (Done (), w\<lparr>current := Some i\<rparr>)) (\<lambda>_.
     ctl_bind (process_batch cfg i) (\<lambda>_.
       process_batches cfg rest)) w"

definition finalize_run :: "ctl_config \<Rightarrow> unit ctl" where
  "finalize_run cfg =
     ctl_bind (ctl_get memory) (\<lambda>m.
     case m of
       None \<Rightarrow> ctl_raise (RunError ''Run ledger is not loaded'')
     | Some l \<Rightarrow>
         if lg_cleanup_state l = ''complete'' then ctl_ret ()
         else
           ctl_bind (run_frontend PolicyFinal) (\<lambda>_.
           ctl_bind (update_ledger (\<lambda>l. l\<lparr>lg_cleanup_state := ''pending''\<rparr>)) (\<lambda>_.
           ctl_bind (write_ledger ''finalizing'') (\<lambda>_.
           ctl_bind (remote_run_root cfg) (\<lambda>root.
           ctl_bind (call (RemoveTree root)) (\<lambda>_.
           ctl_bind (update_ledger (\<lambda>l. l\<lparr>lg_cleanup_state := ''complete''\<rparr>)) (\<lambda>_.
             write_ledger ''complete'')))))))"

definition handle_interrupt :: "unit ctl" where
  "handle_interrupt =
     ctl_bind (ctl_get current) (\<lambda>cur.
     ctl_bind (ctl_get batches_of) (\<lambda>bs.
     case cur of
       None \<Rightarrow> write_ledger ''interrupt''
     | Some i \<Rightarrow>
         if bt_state (bs ! i) \<notin> set ACTIVE_STATES then write_ledger ''interrupt''
         else
           ctl_bind (if blank (bt_job_id (bs ! i)) then ctl_ret ()
                     else ctl_catch (ctl_bind (call (Oardel (the (bt_job_id (bs ! i))))) (\<lambda>_. ctl_ret ())) (\<lambda>_. ctl_ret ())) (\<lambda>_.
           ctl_bind (update_batch i (\<lambda>b. b\<lparr>bt_state := ''cancelled'', bt_error := Some ''cancelled_by_interrupt''\<rparr>)) (\<lambda>_.
             write_ledger ''cancelled''))))"

definition run_batches :: "ctl_config \<Rightarrow> unit ctl" where
  "run_batches cfg =
     ctl_bind (ctl_get batches_of) (\<lambda>bs.
     ctl_bind (process_batches cfg [0..<length bs]) (\<lambda>_.
     ctl_bind (ctl_get batches_of) (\<lambda>bs.
     if \<not> list_all (\<lambda>b. bt_state b = ''published'') bs
     then ctl_raise (RunError ''Sentence run is incomplete and remains resumable'')
     else finalize_run cfg)))"

definition run :: "ctl_config \<Rightarrow> unit ctl" where
  "run cfg =
     ctl_bind (initialize cfg) (\<lambda>_ w.
       case run_batches cfg w of
         (Interrupt, w1) \<Rightarrow> ctl_bind handle_interrupt (\<lambda>_ w2. (Interrupt, w2)) w1
       | r \<Rightarrow> r)"

text \<open>A process starts with the file and the record of calls its predecessors left.\<close>

definition fresh_process :: "ctl_config \<Rightarrow> response list \<Rightarrow> ctl_world \<Rightarrow> ctl_world" where
  "fresh_process cfg script w =
     \<lparr>ledger_on_disk = ledger_on_disk w, memory = None, run_id = cf_run_id cfg, current = None, answers = script, calls = calls w\<rparr>"

inductive controller_history :: "ctl_world \<Rightarrow> bool" where
  no_run: "ledger_on_disk w = NoLedger \<Longrightarrow> calls w = [] \<Longrightarrow> controller_history w"
| next_run: "controller_history w \<Longrightarrow> run cfg (fresh_process cfg script w) = (r, w') \<Longrightarrow> controller_history w'"

end
