(* ===== verification/Grid_Safety.thy ===== *)
theory Grid_Safety
  imports Grid_Controller
begin

text \<open>
  The safety of the controller of the remote sentence jobs: what every history of runs, with failing
  calls, interrupts and deaths of the process, does to the batches. A relation on the states before and
  after a computation says which batches it touches and which calls it makes (\<open>frame\<close>); contracts over
  the result of a computation do the rest.
\<close>

section \<open>Relations kept by a computation\<close>

definition keeps :: "(ctl_world \<Rightarrow> ctl_world \<Rightarrow> bool) \<Rightarrow> 'a ctl \<Rightarrow> bool" where
  "keeps R m \<longleftrightarrow> (\<forall>w. R w (snd (m w)))"

definition preorder_rel :: "(ctl_world \<Rightarrow> ctl_world \<Rightarrow> bool) \<Rightarrow> bool" where
  "preorder_rel R \<longleftrightarrow> (\<forall>w. R w w) \<and> (\<forall>w1 w2 w3. R w1 w2 \<longrightarrow> R w2 w3 \<longrightarrow> R w1 w3)"

named_theorems keeps_rules \<open>which computations keep a relation\<close>

lemma preorder_relD:
  assumes "preorder_rel R"
  shows "R w w" and "R w1 w2 \<Longrightarrow> R w2 w3 \<Longrightarrow> R w1 w3"
  using assms unfolding preorder_rel_def by blast+

lemma keepsD: "keeps R m \<Longrightarrow> m w = (r, w') \<Longrightarrow> R w w'"
  unfolding keeps_def by (metis snd_conv)

lemma keeps_ret [keeps_rules]: "preorder_rel R \<Longrightarrow> keeps R (ctl_ret a)"
  by (simp add: keeps_def ctl_ret_def preorder_relD)

lemma keeps_raise [keeps_rules]: "preorder_rel R \<Longrightarrow> keeps R (ctl_raise e)"
  by (simp add: keeps_def ctl_raise_def preorder_relD)

lemma keeps_get [keeps_rules]: "preorder_rel R \<Longrightarrow> keeps R (ctl_get f)"
  by (simp add: keeps_def ctl_get_def preorder_relD)

lemma keeps_bind [keeps_rules]:
  assumes "preorder_rel R" "keeps R m" "\<And>a. keeps R (f a)"
  shows "keeps R (ctl_bind m f)"
  unfolding keeps_def
proof
  fix w
  obtain r w1 where m: "m w = (r, w1)" by fastforce
  have 1: "R w w1" using keepsD [OF assms(2) m] .
  have 2: "R w1 (snd (f a w1))" for a using assms(3) [of a] unfolding keeps_def by blast
  have 3: "R w (snd (f a w1))" for a using preorder_relD(2) [OF assms(1) 1 2] .
  show "R w (snd (ctl_bind m f w))" using 1 3 by (simp add: ctl_bind_def m split: ctl_result.split)
qed

lemma keeps_catch [keeps_rules]:
  assumes "preorder_rel R" "keeps R m" "\<And>e. keeps R (h e)"
  shows "keeps R (ctl_catch m h)"
  unfolding keeps_def
proof
  fix w
  obtain r w1 where m: "m w = (r, w1)" by fastforce
  have 1: "R w w1" using keepsD [OF assms(2) m] .
  have 2: "R w1 (snd (h e w1))" for e using assms(3) [of e] unfolding keeps_def by blast
  have 3: "R w (snd (h e w1))" for e using preorder_relD(2) [OF assms(1) 1 2] .
  show "R w (snd (ctl_catch m h w))" using 1 3 by (simp add: ctl_catch_def m split: ctl_result.split)
qed

lemma keeps_of_res [keeps_rules]: "preorder_rel R \<Longrightarrow> keeps R (ctl_of_res r)"
  unfolding ctl_of_res_def by (auto intro: keeps_rules split: sum.split exn.split)

lemma keeps_if [keeps_rules]: "(c \<Longrightarrow> keeps R m) \<Longrightarrow> (\<not> c \<Longrightarrow> keeps R n) \<Longrightarrow> keeps R (if c then m else n)"
  by simp

lemma keeps_let [keeps_rules]: "keeps R (f x) \<Longrightarrow> keeps R (let y = x in f y)"
  by simp

lemma keeps_option [keeps_rules]:
  "(v = None \<Longrightarrow> keeps R m) \<Longrightarrow> (\<And>a. v = Some a \<Longrightarrow> keeps R (f a)) \<Longrightarrow> keeps R (case v of None \<Rightarrow> m | Some a \<Rightarrow> f a)"
  by (cases v) auto

lemma keeps_mono: "keeps R m \<Longrightarrow> (\<And>w w'. R w w' \<Longrightarrow> S w w') \<Longrightarrow> keeps S m"
  unfolding keeps_def by blast

section \<open>Frames\<close>

text \<open>
  The calls made satisfy \<open>p\<close>, only the batches at positions in \<open>S\<close> are touched, and a ledger
  written agrees with the memory before on the other batches.
\<close>

definition same_batches :: "nat set \<Rightarrow> batch list \<Rightarrow> batch list \<Rightarrow> bool" where
  "same_batches S bs cs \<longleftrightarrow> length cs = length bs \<and> (\<forall>j. j \<notin> S \<longrightarrow> j < length bs \<longrightarrow> cs ! j = bs ! j)"

definition frame :: "(event \<Rightarrow> bool) \<Rightarrow> nat set \<Rightarrow> ctl_world \<Rightarrow> ctl_world \<Rightarrow> bool" where
  "frame p S w w' \<longleftrightarrow>
     (\<exists>cs. calls w' = calls w @ cs \<and> list_all (\<lambda>c. p (fst c)) cs)
     \<and> current w' = current w \<and> run_id w' = run_id w
     \<and> (memory w' = None \<longleftrightarrow> memory w = None) \<and> same_batches S (batches_of w) (batches_of w')
     \<and> (ledger_on_disk w' = ledger_on_disk w
        \<or> (\<exists>l. ledger_on_disk w' = Saved l \<and> same_batches S (batches_of w) (lg_batches l)))"

lemma same_batches_refl: "same_batches S bs bs"
  by (simp add: same_batches_def)

lemma same_batches_trans: "same_batches S as bs \<Longrightarrow> same_batches S bs cs \<Longrightarrow> same_batches S as cs"
  by (simp add: same_batches_def)

lemma same_batches_update: "i \<in> S \<Longrightarrow> same_batches S bs (bs[i := b])"
  unfolding same_batches_def by (metis length_list_update nth_list_update_neq)

lemma frame_preorder [keeps_rules, simp]: "preorder_rel (frame p S)"
  unfolding preorder_rel_def
proof (intro conjI allI impI)
  show "frame p S w w" for w by (simp add: frame_def same_batches_refl)
  fix w1 w2 w3 assume a: "frame p S w1 w2" and b: "frame p S w2 w3"
  obtain cs where cs: "calls w2 = calls w1 @ cs" "list_all (\<lambda>c. p (fst c)) cs" using a unfolding frame_def by blast
  obtain ds where ds: "calls w3 = calls w2 @ ds" "list_all (\<lambda>c. p (fst c)) ds" using b unfolding frame_def by blast
  have calls: "\<exists>es. calls w3 = calls w1 @ es \<and> list_all (\<lambda>c. p (fst c)) es"
    by (rule exI [of _ "cs @ ds"]) (simp add: cs ds)
  have disk: "ledger_on_disk w3 = ledger_on_disk w1
      \<or> (\<exists>l. ledger_on_disk w3 = Saved l \<and> same_batches S (batches_of w1) (lg_batches l))"
    using a b unfolding frame_def by (metis same_batches_trans)
  show "frame p S w1 w3"
    using a b calls disk same_batches_trans unfolding frame_def by (metis (no_types))
qed

lemma frame_mono: "frame p S w w' \<Longrightarrow> (\<And>ev. p ev \<Longrightarrow> q ev) \<Longrightarrow> S \<subseteq> T \<Longrightarrow> frame q T w w'"
  unfolding frame_def same_batches_def list_all_iff by blast

lemma keeps_call [keeps_rules]: "p ev \<Longrightarrow> keeps (frame p S) (call ev)"
  by (auto simp: keeps_def call_def frame_def Let_def batches_of_def same_batches_refl split: list.split option.split fault.split)

lemma keeps_run_frontend [keeps_rules]: "p ev \<Longrightarrow> keeps (frame p S) (run_frontend ev)"
  unfolding run_frontend_def by (intro keeps_rules)

lemma keeps_update_batch [keeps_rules]: "i \<in> S \<Longrightarrow> keeps (frame p S) (update_batch i f)"
  by (auto simp: keeps_def update_batch_def update_ledger_def frame_def batches_of_def same_batches_refl same_batches_update split: option.split)

lemma keeps_get_batch [keeps_rules]: "keeps (frame p S) (get_batch i)"
  unfolding get_batch_def by (intro keeps_rules)

lemma keeps_remote_run_root [keeps_rules]: "keeps (frame p S) (remote_run_root cfg)"
  by (auto simp: keeps_def remote_run_root_def preorder_relD split: option.split)

lemma keeps_update_ledger [keeps_rules]: "(\<And>l. lg_batches (f l) = lg_batches l) \<Longrightarrow> keeps (frame p S) (update_ledger f)"
  by (auto simp: keeps_def update_ledger_def frame_def batches_of_def same_batches_refl split: option.split)

lemma call_result: "call ev w = (r, w1) \<Longrightarrow> memory w1 = memory w \<and> ledger_on_disk w1 = ledger_on_disk w"
  by (auto simp: call_def Let_def split: list.splits option.splits fault.splits)

lemma write_ledger_cases:
  assumes "write_ledger site w = (r, w')"
  obtains "memory w = None" "w' = w"
  | l r1 w1 where "memory w = Some l" "call (WriteLedger site) w = (r1, w1)"
      "if r = Done () then w' = w1\<lparr>ledger_on_disk := Saved l\<rparr> else w' = w1"
  using assms unfolding write_ledger_def ctl_bind_def
  by (auto split: option.splits prod.splits ctl_result.splits)

lemma keeps_write_ledger [keeps_rules]:
  assumes "p (WriteLedger site)"
  shows "keeps (frame p S) (write_ledger site)"
  unfolding keeps_def
proof
  fix w
  obtain r w' where e: "write_ledger site w = (r, w')" by fastforce
  from e show "frame p S w (snd (write_ledger site w))"
  proof (cases rule: write_ledger_cases)
    case 1
    then show ?thesis by (simp add: e preorder_relD)
  next
    case (2 l r1 w1)
    have f: "frame p S w w1" using keepsD [OF keeps_call [of p "WriteLedger site", OF assms] 2(2)] .
    have g: "frame p S w (w1\<lparr>ledger_on_disk := Saved l\<rparr>)"
      using f 2(1) call_result [OF 2(2)] by (simp add: frame_def batches_of_def same_batches_refl)
    show ?thesis using 2(3) f g by (simp add: e split: if_splits)
  qed
qed


text \<open>Which calls concern the remote queue.\<close>

fun off_queue :: "event \<Rightarrow> bool" where
  "off_queue (Oarsub _ _) = False"
| "off_queue (Oarstat _ _) = False"
| "off_queue _ = True"

fun about :: "nat \<Rightarrow> event \<Rightarrow> bool" where
  "about i (Oarsub j _) = (j = i)"
| "about i (Oarstat j _) = (j = i)"
| "about i _ = True"

lemma off_queue_about: "off_queue ev \<Longrightarrow> about i ev"
  by (cases ev) auto

lemma keeps_about: "keeps (frame off_queue S) m \<Longrightarrow> keeps (frame (about i) S) m"
  by (erule keeps_mono) (auto elim: frame_mono intro: off_queue_about)

lemma keeps_cleanup [keeps_rules]: "keeps (frame off_queue {i}) (cleanup_remote_job cfg i)"
  unfolding cleanup_remote_job_def by (intro keeps_rules) simp_all

lemma keeps_assert_baseline [keeps_rules]: "keeps (frame off_queue S) assert_baseline"
  unfolding assert_baseline_def by (intro keeps_rules) simp_all

lemma keeps_message [keeps_rules]: "keeps (frame p S) (publication_message b)"
  unfolding publication_message_def by (auto intro: keeps_rules split: list.split)

lemma keeps_publish [keeps_rules]: "keeps (frame off_queue {i}) (publish_batch cfg i)"
  unfolding publish_batch_def by (intro keeps_rules) simp_all

lemma keeps_read_valid_receipt [keeps_rules]: "keeps (frame off_queue {i}) (read_valid_receipt cfg i file)"
  unfolding read_valid_receipt_def by (intro keeps_rules) simp_all

lemma keeps_mark_failed [keeps_rules]: "keeps (frame off_queue {i}) (mark_batch_failed cfg i receipt)"
  unfolding mark_batch_failed_def by (intro keeps_rules) simp_all

lemma keeps_retrieve [keeps_rules]: "keeps (frame off_queue {i}) (retrieve_batch cfg i state)"
  unfolding retrieve_batch_def by (intro keeps_rules) simp_all

lemma keeps_record_failure [keeps_rules]: "keeps (frame off_queue {i}) (record_submission_failure i e)"
  unfolding record_submission_failure_def by (intro keeps_rules) simp_all

lemma keeps_publish_if_ready [keeps_rules]: "keeps (frame off_queue {i}) (publish_if_ready cfg i)"
  unfolding publish_if_ready_def by (intro keeps_rules)

lemma keeps_finalize [keeps_rules]: "keeps (frame off_queue {}) (finalize_run cfg)"
  unfolding finalize_run_def by (intro keeps_rules) simp_all

lemma keeps_query [keeps_rules]: "keeps (frame (about i) S) (query_job_status i job_id)"
  unfolding query_job_status_def
  by (intro keeps_rules) (auto intro: keeps_rules split: cexn.split)

lemma keeps_submit: "keeps (frame (about i) {i}) (submit_batch cfg i)"
  unfolding submit_batch_def submit_job_def announce_batch_def by (intro keeps_rules keeps_about [OF keeps_record_failure]) simp_all

lemma keeps_poll: "keeps (frame (about i) {i}) (poll_job cfg i job_id n)"
proof (induction n)
  case 0
  show ?case by (simp add: keeps_def preorder_relD)
next
  case (Suc n)
  have "keeps (frame (about i) {i}) (ctl_bind (query_job_status i job_id) (\<lambda>state.
       if state \<in> set TERMINAL_STATES then retrieve_batch cfg i state
       else ctl_bind (call Sleep) (\<lambda>_. poll_job cfg i job_id n)))"
    by (intro keeps_rules keeps_about [OF keeps_retrieve] Suc.IH) simp_all
  then show ?case by (simp add: keeps_def)
qed

lemma keeps_reconcile: "keeps (frame (about i) {i}) (reconcile_batch cfg i)"
proof -
  have "keeps (frame (about i) {i}) (\<lambda>w. poll_job cfg i (the (bt_job_id b)) (Suc (length (answers w))) w)" for b
    using keeps_poll [of i cfg] unfolding keeps_def by blast
  then show ?thesis unfolding reconcile_batch_def by (intro keeps_rules) simp_all
qed

lemma keeps_process_batch: "keeps (frame (about i) {i}) (process_batch cfg i)"
  unfolding process_batch_def
  by (intro keeps_rules keeps_submit keeps_reconcile keeps_about [OF keeps_publish] keeps_about [OF keeps_publish_if_ready])


section \<open>The remote queue\<close>

text \<open>
  What the recorded calls say about the job of a batch: a submission that reported success, that timed
  out or during which the process was interrupted or killed may have queued a job; the job has left the
  queue when a status query for it reported a terminal state.
\<close>

datatype queued = NoJob | UnknownJob | JobQueued string

definition may_queue :: "response \<Rightarrow> bool" where
  "may_queue r =
     (case rs_fault r of
        None \<Rightarrow> rs_code r = 0 | Some Ctrl_C \<Rightarrow> True | Some Kill \<Rightarrow> True | Some (Fails e) \<Rightarrow> e = CommandTimeout)"

definition submitted_job :: "response \<Rightarrow> queued" where
  "submitted_job r =
     (if rs_fault r \<noteq> None then UnknownJob
      else case parse_job_id (rs_stdout r) of Inl _ \<Rightarrow> UnknownJob | Inr job_id \<Rightarrow> JobQueued job_id)"

definition reports_end :: "string \<Rightarrow> response \<Rightarrow> bool" where
  "reports_end job_id r \<longleftrightarrow>
     rs_fault r = None \<and> parse_job_status (rs_code r) (rs_stdout r) job_id \<in> set TERMINAL_STATES"

fun queue_step :: "nat \<Rightarrow> event \<times> response \<Rightarrow> queued \<Rightarrow> queued" where
  "queue_step i (Oarsub j _, r) q = (if j = i \<and> may_queue r then submitted_job r else q)"
| "queue_step i (Oarstat j job_id, r) q = (if j = i \<and> q = JobQueued job_id \<and> reports_end job_id r then NoJob else q)"
| "queue_step i (_, r) q = q"

definition queued_job :: "nat \<Rightarrow> (event \<times> response) list \<Rightarrow> queued" where
  "queued_job i cs = fold (queue_step i) cs NoJob"

definition no_duplicate :: "nat \<Rightarrow> (event \<times> response) list \<Rightarrow> bool" where
  "no_duplicate i cs \<longleftrightarrow>
     (\<forall>pre attempt r post. cs = pre @ (Oarsub i attempt, r) # post \<longrightarrow> queued_job i pre = NoJob)"

text \<open>
  The calls after a submission behave: the reply of a successful submission names the job, the write
  that records it does not fail, and the policy check after it passes or times out.
\<close>

fun settled_call :: "event \<times> response \<Rightarrow> bool" where
  "settled_call (Oarsub _ _, r) =
     (rs_fault r = None \<longrightarrow> rs_code r = 0 \<longrightarrow> (case parse_job_id (rs_stdout r) of Inl _ \<Rightarrow> False | Inr job_id \<Rightarrow> True))"
| "settled_call (WriteLedger site, r) =
     (site = ''running'' \<longrightarrow> (case rs_fault r of Some (Fails _) \<Rightarrow> False | _ \<Rightarrow> True))"
| "settled_call (PolicyAfter _, r) =
     (case rs_fault r of None \<Rightarrow> rs_code r = 0 | Some (Fails e) \<Rightarrow> e = CommandTimeout | _ \<Rightarrow> True)"
| "settled_call _ = True"

definition settled :: "(event \<times> response) list \<Rightarrow> bool" where
  "settled cs \<longleftrightarrow> list_all settled_call cs"

lemma settled_append [simp]: "settled (cs @ ds) \<longleftrightarrow> settled cs \<and> settled ds"
  by (simp add: settled_def)

lemma queued_job_append: "queued_job i (cs @ ds) = fold (queue_step i) ds (queued_job i cs)"
  by (simp add: queued_job_def)

lemma queued_job_snoc [simp]: "queued_job i (cs @ [c]) = queue_step i c (queued_job i cs)"
  by (simp add: queued_job_def)

lemma queued_job_Nil [simp]: "queued_job i [] = NoJob"
  by (simp add: queued_job_def)

lemma no_duplicate_Nil [simp]: "no_duplicate i []"
  by (simp add: no_duplicate_def)

lemma no_duplicate_snoc:
  "no_duplicate i (cs @ [c]) \<longleftrightarrow>
     no_duplicate i cs \<and> ((\<exists>attempt r. c = (Oarsub i attempt, r)) \<longrightarrow> queued_job i cs = NoJob)"
  (is "?L \<longleftrightarrow> ?R")
proof
  assume l: ?L
  have "no_duplicate i cs"
    unfolding no_duplicate_def
  proof (intro allI impI)
    fix pre attempt r post assume "cs = pre @ (Oarsub i attempt, r) # post"
    then have "cs @ [c] = pre @ (Oarsub i attempt, r) # (post @ [c])" by simp
    then show "queued_job i pre = NoJob" using l unfolding no_duplicate_def by blast
  qed
  then show ?R using l unfolding no_duplicate_def by blast
next
  assume r: ?R
  show ?L unfolding no_duplicate_def
  proof (intro allI impI)
    fix pre attempt r' post assume e: "cs @ [c] = pre @ (Oarsub i attempt, r') # post"
    show "queued_job i pre = NoJob"
    proof (cases post rule: rev_exhaust)
      case Nil
      then show ?thesis using e r by auto
    next
      case (snoc post' d)
      then have "cs = pre @ (Oarsub i attempt, r') # post'" using e by simp
      then show ?thesis using r unfolding no_duplicate_def by blast
    qed
  qed
qed

definition harmless :: "nat \<Rightarrow> event \<Rightarrow> bool" where
  "harmless i ev = (case ev of Oarsub j _ \<Rightarrow> j \<noteq> i | Oarstat j _ \<Rightarrow> j \<noteq> i | _ \<Rightarrow> True)"

lemma harmless_step: "harmless i (fst c) \<Longrightarrow> queue_step i c q = q"
  by (cases c; cases "fst c") (auto simp: harmless_def)

lemma harmless_calls:
  "list_all (\<lambda>c. harmless i (fst c)) ds \<Longrightarrow>
     queued_job i (cs @ ds) = queued_job i cs \<and> no_duplicate i (cs @ ds) = no_duplicate i cs"
proof (induction ds rule: rev_induct)
  case (snoc d ds)
  have h: "harmless i (fst d)" using snoc.prems by simp
  have "\<not> (\<exists>attempt r. d = (Oarsub i attempt, r))" using h by (auto simp: harmless_def)
  then show ?case using snoc harmless_step [OF h] by (simp add: no_duplicate_snoc flip: append_assoc)
qed simp

section \<open>The invariant of a batch\<close>

definition HELD_STATES :: "string list" where
  "HELD_STATES = [''submitted'', ''running'', ''cancelled'']"

text \<open>A batch whose job may be queued is held in a state in which no run submits it, and it names no other job.\<close>

definition holds :: "queued \<Rightarrow> nat \<Rightarrow> batch list \<Rightarrow> bool" where
  "holds q i bs \<longleftrightarrow>
     i < length bs \<and> bt_state (bs ! i) \<in> set HELD_STATES
     \<and> (blank (bt_job_id (bs ! i)) \<or> q = JobQueued (the (bt_job_id (bs ! i))))"

definition batch_ok :: "nat \<Rightarrow> ctl_world \<Rightarrow> bool" where
  "batch_ok i w \<longleftrightarrow>
     (settled (calls w) \<longrightarrow> no_duplicate i (calls w)
       \<and> (queued_job i (calls w) \<noteq> NoJob \<longrightarrow>
            (\<forall>l. memory w = Some l \<longrightarrow> holds (queued_job i (calls w)) i (lg_batches l))
            \<and> (\<exists>l. ledger_on_disk w = Saved l \<and> holds (queued_job i (calls w)) i (lg_batches l))))"

definition idle :: "nat \<Rightarrow> ctl_world \<Rightarrow> bool" where
  "idle i w \<longleftrightarrow> (settled (calls w) \<longrightarrow> no_duplicate i (calls w) \<and> queued_job i (calls w) = NoJob)"

lemma idle_ok: "idle i w \<Longrightarrow> batch_ok i w"
  unfolding idle_def batch_ok_def by blast

lemma batch_ok_idle:
  assumes "batch_ok i w" "memory w = Some l" "bt_state (lg_batches l ! i) \<notin> set HELD_STATES"
  shows "idle i w"
  using assms unfolding idle_def batch_ok_def holds_def by blast

lemma holds_same: "holds q i bs \<Longrightarrow> same_batches S bs cs \<Longrightarrow> i \<notin> S \<Longrightarrow> holds q i cs"
  by (simp add: holds_def same_batches_def)

lemma idle_frame:
  assumes f: "frame off_queue S w w'" and i: "idle i w"
  shows "idle i w'"
proof -
  obtain cs where c: "calls w' = calls w @ cs" and o: "list_all (\<lambda>c. off_queue (fst c)) cs"
    using f unfolding frame_def by blast
  have "harmless i ev" if "off_queue ev" for ev using that by (cases ev) (auto simp: harmless_def)
  then have h: "list_all (\<lambda>c. harmless i (fst c)) cs" using o by (auto simp: list_all_iff)
  show ?thesis using i by (simp add: idle_def c harmless_calls [OF h])
qed

lemma batch_ok_frame:
  assumes f: "frame p S w w'" and ok: "batch_ok j w" and m: "memory w \<noteq> None" and j: "j \<notin> S"
    and p: "\<And>ev. p ev \<Longrightarrow> harmless j ev"
  shows "batch_ok j w'"
proof -
  obtain cs where c: "calls w' = calls w @ cs" and o: "list_all (\<lambda>c. p (fst c)) cs"
    using f unfolding frame_def by blast
  have h: "list_all (\<lambda>c. harmless j (fst c)) cs" using o p by (auto simp: list_all_iff)
  note same = harmless_calls [OF h, of "calls w"]
  obtain l where l: "memory w = Some l" using m by blast
  then have b: "batches_of w = lg_batches l" by (simp add: batches_of_def)
  have mem: "holds q j (lg_batches l')" if "holds q j (lg_batches l)" "memory w' = Some l'" for q l'
  proof -
    have "same_batches S (lg_batches l) (lg_batches l')"
      using f that(2) unfolding frame_def by (simp add: b) (simp add: batches_of_def)
    then show ?thesis using holds_same [OF that(1)] j by blast
  qed
  have disk: "\<exists>l'. ledger_on_disk w' = Saved l' \<and> holds q j (lg_batches l')"
    if "holds q j (lg_batches l)" "\<exists>l'. ledger_on_disk w = Saved l' \<and> holds q j (lg_batches l')" for q
    using f that holds_same [OF that(1) _ j] unfolding frame_def b by metis
  show ?thesis unfolding batch_ok_def
  proof (intro impI conjI)
    assume s: "settled (calls w')"
    have ok': "no_duplicate j (calls w)" "queued_job j (calls w) \<noteq> NoJob \<Longrightarrow> holds (queued_job j (calls w)) j (lg_batches l)"
      "queued_job j (calls w) \<noteq> NoJob \<Longrightarrow> \<exists>l. ledger_on_disk w = Saved l \<and> holds (queued_job j (calls w)) j (lg_batches l)"
      using ok s l unfolding batch_ok_def c by auto
    show "no_duplicate j (calls w')" using ok'(1) by (simp add: c same)
    assume "queued_job j (calls w') \<noteq> NoJob"
    then have q: "queued_job j (calls w) \<noteq> NoJob" by (simp add: c same)
    show "\<forall>l. memory w' = Some l \<longrightarrow> holds (queued_job j (calls w')) j (lg_batches l)"
      using mem [OF ok'(2) [OF q]] by (simp add: c same)
    show "\<exists>l. ledger_on_disk w' = Saved l \<and> holds (queued_job j (calls w')) j (lg_batches l)"
      using disk [OF ok'(2) [OF q] ok'(3) [OF q]] by (simp add: c same)
  qed
qed


section \<open>Contracts\<close>

text \<open>One condition for a normal result, one for an exception, one for an interrupt or the death of the process.\<close>

fun outcome :: "('a \<Rightarrow> ctl_world \<Rightarrow> bool) \<Rightarrow> (cexn \<Rightarrow> ctl_world \<Rightarrow> bool) \<Rightarrow> (ctl_world \<Rightarrow> bool) \<Rightarrow> 'a ctl_result \<times> ctl_world \<Rightarrow> bool" where
  "outcome N E B (Done a, w) = N a w"
| "outcome N E B (Raise e, w) = E e w"
| "outcome N E B (Interrupt, w) = B w"
| "outcome N E B (Killed, w) = B w"

definition contract :: "(ctl_world \<Rightarrow> bool) \<Rightarrow> 'a ctl \<Rightarrow> ('a \<Rightarrow> ctl_world \<Rightarrow> bool) \<Rightarrow> (cexn \<Rightarrow> ctl_world \<Rightarrow> bool)
    \<Rightarrow> (ctl_world \<Rightarrow> bool) \<Rightarrow> bool" where
  "contract P m N E B \<longleftrightarrow> (\<forall>w. P w \<longrightarrow> outcome N E B (m w))"

lemma contractD: "contract P m N E B \<Longrightarrow> P w \<Longrightarrow> outcome N E B (m w)"
  unfolding contract_def by blast

lemma contract_bind:
  assumes "contract P m R E B" "\<And>a. contract (R a) (f a) N E B"
  shows "contract P (ctl_bind m f) N E B"
  unfolding contract_def
proof (intro allI impI)
  fix w assume "P w"
  then have o: "outcome R E B (m w)" by (rule contractD [OF assms(1)])
  obtain r w1 where m: "m w = (r, w1)" by fastforce
  show "outcome N E B (ctl_bind m f w)"
    using o contractD [OF assms(2)] by (cases r) (simp_all add: m ctl_bind_def)
qed

lemma contract_catch:
  assumes "contract P m N F B" "\<And>e. contract (F e) (h e) N E B"
  shows "contract P (ctl_catch m h) N E B"
  unfolding contract_def
proof (intro allI impI)
  fix w assume "P w"
  then have o: "outcome N F B (m w)" by (rule contractD [OF assms(1)])
  obtain r w1 where m: "m w = (r, w1)" by fastforce
  show "outcome N E B (ctl_catch m h w)"
    using o contractD [OF assms(2)] by (cases r) (simp_all add: m ctl_catch_def)
qed

lemma outcome_mono:
  assumes "outcome N' E' B' x" "\<And>a w. N' a w \<Longrightarrow> N a w" "\<And>e w. E' e w \<Longrightarrow> E e w" "\<And>w. B' w \<Longrightarrow> B w"
  shows "outcome N E B x"
proof -
  obtain r w where x: "x = (r, w)" by fastforce
  show ?thesis using assms by (cases r) (simp_all add: x)
qed

lemma contract_conseq:
  assumes "contract P' m N' E' B'" "\<And>w. P w \<Longrightarrow> P' w" "\<And>a w. N' a w \<Longrightarrow> N a w" "\<And>e w. E' e w \<Longrightarrow> E e w" "\<And>w. B' w \<Longrightarrow> B w"
  shows "contract P m N E B"
  unfolding contract_def
  by (intro allI impI outcome_mono [OF contractD [OF assms(1)]]) (use assms in blast)+

lemma contract_keeps:
  assumes "keeps R m" "\<And>w w'. P w \<Longrightarrow> R w w' \<Longrightarrow> Q w'"
  shows "contract P m (\<lambda>_. Q) (\<lambda>_. Q) Q"
  unfolding contract_def
proof (intro allI impI)
  fix w assume p: "P w"
  obtain r w' where m: "m w = (r, w')" by fastforce
  have "Q w'" by (rule assms(2) [OF p keepsD [OF assms(1) m]])
  then show "outcome (\<lambda>_. Q) (\<lambda>_. Q) Q (m w)" by (cases r) (simp_all add: m)
qed

lemma contract_ret: "(\<And>w. P w \<Longrightarrow> N a w) \<Longrightarrow> contract P (ctl_ret a) N E B"
  by (simp add: contract_def ctl_ret_def)

lemma contract_raise: "(\<And>w. P w \<Longrightarrow> E e w) \<Longrightarrow> contract P (ctl_raise e) N E B"
  by (simp add: contract_def ctl_raise_def)

lemma contract_get: "(\<And>w. P w \<Longrightarrow> N (f w) w) \<Longrightarrow> contract P (ctl_get f) N E B"
  by (simp add: contract_def ctl_get_def)

lemma contract_if: "(c \<Longrightarrow> contract P m N E B) \<Longrightarrow> (\<not> c \<Longrightarrow> contract P n N E B) \<Longrightarrow> contract P (if c then m else n) N E B"
  by simp

lemma contract_call:
  assumes "\<And>w r w'. P w \<Longrightarrow> memory w' = memory w \<Longrightarrow> ledger_on_disk w' = ledger_on_disk w \<Longrightarrow> calls w' = calls w @ [(ev, r)]
      \<Longrightarrow> (case rs_fault r of None \<Rightarrow> N r w' | Some (Fails e) \<Rightarrow> E e w' | Some Ctrl_C \<Rightarrow> B w' | Some Kill \<Rightarrow> B w')"
    and "\<And>w. P w \<Longrightarrow> B w"
  shows "contract P (call ev) N E B"
  unfolding contract_def
proof (intro allI impI)
  fix w assume p: "P w"
  show "outcome N E B (call ev w)"
  proof (cases "answers w")
    case Nil
    then show ?thesis using assms(2) [OF p] by (simp add: call_def)
  next
    case (Cons r rs)
    then show ?thesis
      using assms(1) [OF p, of "w\<lparr>answers := rs, calls := calls w @ [(ev, r)]\<rparr>" r]
      by (simp add: call_def Let_def split: option.splits fault.splits)
  qed
qed

lemma contract_frontend:
  assumes "\<And>w r w'. P w \<Longrightarrow> memory w' = memory w \<Longrightarrow> ledger_on_disk w' = ledger_on_disk w \<Longrightarrow> calls w' = calls w @ [(ev, r)]
      \<Longrightarrow> (case rs_fault r of None \<Rightarrow> if rs_code r = 0 then N r w' else (\<forall>m. E (RunError m) w')
            | Some (Fails e) \<Rightarrow> E e w' | Some Ctrl_C \<Rightarrow> B w' | Some Kill \<Rightarrow> B w')"
    and "\<And>w. P w \<Longrightarrow> B w"
  shows "contract P (run_frontend ev) N E B"
  unfolding run_frontend_def
proof (rule contract_bind [where R = "\<lambda>r w'. if rs_code r = 0 then N r w' else (\<forall>m. E (RunError m) w')"])
  show "contract P (call ev) (\<lambda>r w'. if rs_code r = 0 then N r w' else (\<forall>m. E (RunError m) w')) E B"
    by (rule contract_call) (use assms in blast)+
  show "contract (\<lambda>w'. if rs_code r = 0 then N r w' else (\<forall>m. E (RunError m) w'))
     (if rs_code r \<noteq> 0 then ctl_raise (RunError ''Grid5000 frontend command failed'') else ctl_ret r) N E B" for r
    by (auto intro: contract_ret contract_raise)
qed

lemma contract_write:
  assumes "\<And>w r w' l. P w \<Longrightarrow> memory w = Some l \<Longrightarrow> memory w' = memory w \<Longrightarrow> calls w' = calls w @ [(WriteLedger site, r)]
      \<Longrightarrow> (case rs_fault r of None \<Rightarrow> ledger_on_disk w' = Saved l \<longrightarrow> N () w'
            | Some (Fails e) \<Rightarrow> ledger_on_disk w' = ledger_on_disk w \<longrightarrow> E e w' | _ \<Rightarrow> ledger_on_disk w' = ledger_on_disk w \<longrightarrow> B w')"
    and "\<And>w. P w \<Longrightarrow> B w" and "\<And>w. P w \<Longrightarrow> memory w \<noteq> None"
  shows "contract P (write_ledger site) N E B"
  unfolding contract_def
proof (intro allI impI)
  fix w assume p: "P w"
  obtain l where l: "memory w = Some l" using assms(3) [OF p] by blast
  show "outcome N E B (write_ledger site w)"
  proof (cases "answers w")
    case Nil
    then show ?thesis using assms(2) [OF p] l by (simp add: write_ledger_def ctl_bind_def call_def)
  next
    case (Cons r rs)
    let ?w = "w\<lparr>answers := rs, calls := calls w @ [(WriteLedger site, r)]\<rparr>"
    show ?thesis
    proof (cases "rs_fault r")
      case None
      then show ?thesis
        using assms(1) [OF p l, of "?w\<lparr>ledger_on_disk := Saved l\<rparr>" r] Cons l
        by (simp add: write_ledger_def ctl_bind_def call_def Let_def)
    next
      case (Some f)
      then show ?thesis
        using assms(1) [OF p l, of ?w r] Cons l
        by (cases f) (simp_all add: write_ledger_def ctl_bind_def call_def Let_def)
    qed
  qed
qed


section \<open>Submitting a batch\<close>

definition has_batch :: "nat \<Rightarrow> ctl_world \<Rightarrow> bool" where
  "has_batch i w \<longleftrightarrow> (\<exists>l. memory w = Some l \<and> i < length (lg_batches l))"

definition unnamed :: "nat \<Rightarrow> batch list \<Rightarrow> bool" where
  "unnamed i bs \<longleftrightarrow> i < length bs \<and> bt_state (bs ! i) \<in> set HELD_STATES \<and> blank (bt_job_id (bs ! i))"

definition announced :: "nat \<Rightarrow> ctl_world \<Rightarrow> bool" where
  "announced i w \<longleftrightarrow>
     (\<exists>l. memory w = Some l \<and> unnamed i (lg_batches l)) \<and> (\<exists>l. ledger_on_disk w = Saved l \<and> unnamed i (lg_batches l))"

definition submitted_ok :: "nat \<Rightarrow> queued \<Rightarrow> ctl_world \<Rightarrow> bool" where
  "submitted_ok i q w \<longleftrightarrow> (settled (calls w) \<longrightarrow> no_duplicate i (calls w) \<and> queued_job i (calls w) = q)"

definition recorded :: "nat \<Rightarrow> string \<Rightarrow> ctl_world \<Rightarrow> bool" where
  "recorded i job_id w \<longleftrightarrow>
     submitted_ok i (JobQueued job_id) w
     \<and> (\<exists>l. memory w = Some l \<and> holds (JobQueued job_id) i (lg_batches l))
     \<and> (\<exists>l. ledger_on_disk w = Saved l \<and> holds (JobQueued job_id) i (lg_batches l))"

definition submit_failed :: "nat \<Rightarrow> cexn \<Rightarrow> ctl_world \<Rightarrow> bool" where
  "submit_failed i e w \<longleftrightarrow> batch_ok i w \<and> (e = CommandTimeout \<or> idle i w)"

lemma unnamed_holds: "unnamed i bs \<Longrightarrow> holds q i bs"
  by (simp add: unnamed_def holds_def)

lemma announced_ok: "announced i w \<Longrightarrow> submitted_ok i q w \<Longrightarrow> batch_ok i w"
  unfolding announced_def submitted_ok_def batch_ok_def using unnamed_holds by fastforce

lemma recorded_ok: "recorded i job_id w \<Longrightarrow> batch_ok i w"
  unfolding recorded_def submitted_ok_def batch_ok_def by fastforce

lemma idle_failed: "idle i w \<Longrightarrow> submit_failed i e w"
  by (simp add: submit_failed_def idle_ok)

lemma unsettled: "\<not> settled (calls w) \<Longrightarrow> idle i w"
  by (simp add: idle_def)

lemma idle_call: "idle i w \<Longrightarrow> calls w' = calls w @ [(ev, r)] \<Longrightarrow> off_queue ev \<Longrightarrow> idle i w'"
  by (cases ev) (auto simp: idle_def no_duplicate_snoc)

lemma submitted_ok_call:
  "submitted_ok i q w \<Longrightarrow> calls w' = calls w @ [(ev, r)] \<Longrightarrow> off_queue ev \<Longrightarrow> submitted_ok i q w'"
  by (cases ev) (auto simp: submitted_ok_def no_duplicate_snoc)

lemma announced_same: "announced i w \<Longrightarrow> memory w' = memory w \<Longrightarrow> ledger_on_disk w' = ledger_on_disk w \<Longrightarrow> announced i w'"
  by (simp add: announced_def)

lemma prepare_call:
  assumes "off_queue ev"
  shows "contract (\<lambda>w. idle i w \<and> announced i w) (call ev) (\<lambda>_ w. idle i w \<and> announced i w) (submit_failed i) (batch_ok i)"
proof (rule contract_call)
  fix w r and w' :: ctl_world assume p: "idle i w \<and> announced i w" and m: "memory w' = memory w" "ledger_on_disk w' = ledger_on_disk w"
    and c: "calls w' = calls w @ [(ev, r)]"
  have i: "idle i w'" using idle_call [OF _ c assms] p by blast
  have a: "announced i w'" using announced_same [OF _ m] p by blast
  show "case rs_fault r of None \<Rightarrow> idle i w' \<and> announced i w' | Some (Fails e) \<Rightarrow> submit_failed i e w'
      | Some Ctrl_C \<Rightarrow> batch_ok i w' | Some Kill \<Rightarrow> batch_ok i w'"
    using i a idle_failed [OF i] idle_ok [OF i] by (simp split: option.split fault.split)
qed (simp add: idle_ok)

lemma prepare_frontend:
  assumes "off_queue ev"
  shows "contract (\<lambda>w. idle i w \<and> announced i w) (run_frontend ev) (\<lambda>_ w. idle i w \<and> announced i w) (submit_failed i) (batch_ok i)"
proof -
  have 1: "contract (\<lambda>w. idle i w \<and> announced i w) (ctl_raise e) N (submit_failed i) (batch_ok i)" for e N
    by (rule contract_raise) (simp add: idle_failed)
  have 2: "contract (\<lambda>w. idle i w \<and> announced i w) (ctl_ret r) (\<lambda>_ w. idle i w \<and> announced i w) (submit_failed i) (batch_ok i)" for r
    by (rule contract_ret) simp
  show ?thesis unfolding run_frontend_def
    by (rule contract_bind [OF prepare_call [OF assms]], rule contract_if, rule 1, rule 2)
qed

lemma oarsub_call:
  "contract (\<lambda>w. idle i w \<and> announced i w) (run_frontend (Oarsub i attempt))
     (\<lambda>r w. announced i w \<and> submitted_ok i (submitted_job r) w \<and> rs_fault r = None
        \<and> (settled (calls w) \<longrightarrow> (\<exists>job_id. parse_job_id (rs_stdout r) = Inr job_id)))
     (submit_failed i) (batch_ok i)"
proof (rule contract_frontend)
  fix w r and w' :: ctl_world assume p: "idle i w \<and> announced i w" and m: "memory w' = memory w" "ledger_on_disk w' = ledger_on_disk w"
    and c: "calls w' = calls w @ [(Oarsub i attempt, r)]"
  have a: "announced i w'" using announced_same [OF _ m] p by blast
  have s: "submitted_ok i (if may_queue r then submitted_job r else NoJob) w'"
    using p by (auto simp: submitted_ok_def idle_def c no_duplicate_snoc)
  have ok: "batch_ok i w'" by (rule announced_ok [OF a s])
  have n: "submit_failed i e w'" if "\<not> may_queue r" for e
    using s that by (intro idle_failed) (simp add: submitted_ok_def idle_def)
  have t: "settled (calls w') \<longrightarrow> (\<exists>job_id. parse_job_id (rs_stdout r) = Inr job_id)" if "rs_fault r = None" "rs_code r = 0"
    using that by (auto simp: c settled_def split: sum.splits)
  show "case rs_fault r of None \<Rightarrow> if rs_code r = 0 then announced i w' \<and> submitted_ok i (submitted_job r) w' \<and> rs_fault r = None
            \<and> (settled (calls w') \<longrightarrow> (\<exists>job_id. parse_job_id (rs_stdout r) = Inr job_id))
          else \<forall>m. submit_failed i (RunError m) w'
      | Some (Fails e) \<Rightarrow> submit_failed i e w' | Some Ctrl_C \<Rightarrow> batch_ok i w' | Some Kill \<Rightarrow> batch_ok i w'"
  proof (cases "rs_fault r")
    case None
    then show ?thesis using a s n t by (cases "rs_code r = 0") (simp_all add: may_queue_def)
  next
    case (Some f)
    then show ?thesis using ok n by (cases f) (auto simp: may_queue_def submit_failed_def)
  qed
qed (simp add: idle_ok)


lemma record_job:
  "contract (\<lambda>w. announced i w \<and> submitted_ok i (JobQueued job_id) w)
     (update_batch i (\<lambda>b. b\<lparr>bt_job_id := Some job_id, bt_state := ''running''\<rparr>)) (\<lambda>_. recorded i job_id) E B"
  by (auto simp: contract_def update_batch_def update_ledger_def announced_def recorded_def submitted_ok_def unnamed_def holds_def
      HELD_STATES_def)

lemma write_running:
  "contract (recorded i job_id) (write_ledger ''running'') (\<lambda>_. recorded i job_id) (submit_failed i) (batch_ok i)"
proof (rule contract_write)
  fix w r l and w' :: ctl_world assume p: "recorded i job_id w" and l: "memory w = Some l" and m: "memory w' = memory w"
    and c: "calls w' = calls w @ [(WriteLedger ''running'', r)]"
  have s: "submitted_ok i (JobQueued job_id) w'" using submitted_ok_call [OF _ c] p by (simp add: recorded_def)
  have "recorded i job_id w'" if "ledger_on_disk w' = Saved l \<or> ledger_on_disk w' = ledger_on_disk w"
    using that s p l m unfolding recorded_def by auto
  moreover have "submit_failed i e w'" if "rs_fault r = Some (Fails e)" for e
    by (rule idle_failed, rule unsettled) (simp add: c settled_def that)
  ultimately show "case rs_fault r of None \<Rightarrow> ledger_on_disk w' = Saved l \<longrightarrow> recorded i job_id w'
      | Some (Fails e) \<Rightarrow> ledger_on_disk w' = ledger_on_disk w \<longrightarrow> submit_failed i e w'
      | _ \<Rightarrow> ledger_on_disk w' = ledger_on_disk w \<longrightarrow> batch_ok i w'"
    by (auto simp: recorded_ok split: option.split fault.split)
qed (auto simp: recorded_ok recorded_def)

lemma policy_after:
  "contract (recorded i job_id) (run_frontend (PolicyAfter i)) (\<lambda>_. recorded i job_id) (submit_failed i) (batch_ok i)"
proof (rule contract_frontend)
  fix w r and w' :: ctl_world assume p: "recorded i job_id w" and m: "memory w' = memory w" "ledger_on_disk w' = ledger_on_disk w"
    and c: "calls w' = calls w @ [(PolicyAfter i, r)]"
  have rec: "recorded i job_id w'"
    using submitted_ok_call [OF _ c] p m by (simp add: recorded_def)
  have "idle i w'" if "\<not> settled_call (PolicyAfter i, r)"
    by (rule unsettled) (use that in \<open>simp add: c settled_def\<close>)
  then show "case rs_fault r of None \<Rightarrow> if rs_code r = 0 then recorded i job_id w' else \<forall>m. submit_failed i (RunError m) w'
      | Some (Fails e) \<Rightarrow> submit_failed i e w' | Some Ctrl_C \<Rightarrow> batch_ok i w' | Some Kill \<Rightarrow> batch_ok i w'"
    using rec recorded_ok [OF rec] by (auto simp: submit_failed_def split: option.split fault.split) blast
qed (simp add: recorded_ok)

lemma submit_tail:
  "contract (\<lambda>w. announced i w \<and> submitted_ok i (submitted_job r) w \<and> rs_fault r = None
        \<and> (settled (calls w) \<longrightarrow> (\<exists>job_id. parse_job_id (rs_stdout r) = Inr job_id)))
     (ctl_bind (ctl_of_res (parse_job_id (rs_stdout r))) (\<lambda>job_id.
      ctl_bind (update_batch i (\<lambda>b. b\<lparr>bt_job_id := Some job_id, bt_state := ''running''\<rparr>)) (\<lambda>_.
      ctl_bind (write_ledger ''running'') (\<lambda>_.
      ctl_bind (run_frontend (PolicyAfter i)) (\<lambda>_. ctl_ret ())))))
     (\<lambda>_. batch_ok i) (submit_failed i) (batch_ok i)" (is "contract ?P _ _ _ _")
proof (rule contract_bind [where R = "\<lambda>job_id w. announced i w \<and> submitted_ok i (JobQueued job_id) w"])
  show "contract ?P (ctl_of_res (parse_job_id (rs_stdout r))) (\<lambda>job_id w. announced i w \<and> submitted_ok i (JobQueued job_id) w)
      (submit_failed i) (batch_ok i)"
  proof (cases "parse_job_id (rs_stdout r)")
    case (Inl x)
    then have "contract ?P (ctl_raise e) N (submit_failed i) (batch_ok i)" for e N
      by (intro contract_raise idle_failed unsettled) simp
    then show ?thesis using Inl by (cases x) (simp_all add: ctl_of_res_def)
  next
    case (Inr job_id)
    then show ?thesis by (auto simp: ctl_of_res_def submitted_job_def intro!: contract_ret)
  qed
  fix job_id
  show "contract (\<lambda>w. announced i w \<and> submitted_ok i (JobQueued job_id) w)
     (ctl_bind (update_batch i (\<lambda>b. b\<lparr>bt_job_id := Some job_id, bt_state := ''running''\<rparr>)) (\<lambda>_.
      ctl_bind (write_ledger ''running'') (\<lambda>_.
      ctl_bind (run_frontend (PolicyAfter i)) (\<lambda>_. ctl_ret ()))))
     (\<lambda>_. batch_ok i) (submit_failed i) (batch_ok i)"
    by (rule contract_bind [OF record_job], rule contract_bind [OF write_running], rule contract_bind [OF policy_after], rule contract_ret)
      (rule recorded_ok)
qed

lemma submission_failure:
  "contract (submit_failed i e) (ctl_bind (record_submission_failure i e) (\<lambda>_. ctl_raise (RunError m)))
     (\<lambda>_. batch_ok i) (\<lambda>_. batch_ok i) (batch_ok i)"
proof (rule contract_bind [where R = "\<lambda>_. batch_ok i"])
  show "contract (submit_failed i e) (record_submission_failure i e) (\<lambda>_. batch_ok i) (\<lambda>_. batch_ok i) (batch_ok i)"
  proof (cases "e = CommandTimeout")
    case True
    then show ?thesis unfolding record_submission_failure_def by simp (rule contract_ret, simp add: submit_failed_def)
  next
    case False
    then show ?thesis
      by (intro contract_keeps [OF keeps_record_failure]) (auto simp: submit_failed_def intro: idle_ok idle_frame)
  qed
qed (rule contract_raise)

lemma submit_announce:
  "contract (\<lambda>w. idle i w \<and> has_batch i w) (announce_batch i run_root)
     (\<lambda>_ w. idle i w \<and> (\<exists>l. memory w = Some l \<and> unnamed i (lg_batches l))) (\<lambda>_. batch_ok i) (batch_ok i)"
  by (auto simp: contract_def announce_batch_def update_batch_def update_ledger_def has_batch_def idle_def unnamed_def HELD_STATES_def
      blank_def)

lemma write_submitted:
  "contract (\<lambda>w. idle i w \<and> (\<exists>l. memory w = Some l \<and> unnamed i (lg_batches l))) (write_ledger ''submitted'')
     (\<lambda>_ w. idle i w \<and> announced i w) (\<lambda>_. batch_ok i) (batch_ok i)"
proof (rule contract_write)
  fix w r l and w' :: ctl_world
  assume p: "idle i w \<and> (\<exists>l. memory w = Some l \<and> unnamed i (lg_batches l))" and l: "memory w = Some l" and m: "memory w' = memory w"
    and c: "calls w' = calls w @ [(WriteLedger ''submitted'', r)]"
  have i: "idle i w'" using idle_call [OF _ c] p by simp
  show "case rs_fault r of None \<Rightarrow> ledger_on_disk w' = Saved l \<longrightarrow> idle i w' \<and> announced i w'
      | Some (Fails e) \<Rightarrow> ledger_on_disk w' = ledger_on_disk w \<longrightarrow> batch_ok i w'
      | _ \<Rightarrow> ledger_on_disk w' = ledger_on_disk w \<longrightarrow> batch_ok i w'"
    using i idle_ok [OF i] p l m by (auto simp: announced_def split: option.split fault.split)
qed (auto intro: idle_ok)

lemma submit_job_ok:
  "contract (\<lambda>w. idle i w \<and> announced i w) (submit_job i attempt) (\<lambda>_. batch_ok i) (submit_failed i) (batch_ok i)"
  unfolding submit_job_def
  by (rule contract_bind [OF prepare_frontend], simp, rule contract_bind [OF prepare_call], simp, rule contract_bind [OF prepare_call], simp,
      rule contract_bind [OF prepare_frontend], simp, rule contract_bind [OF oarsub_call], rule submit_tail)

lemma submit_batch_ok:
  "contract (\<lambda>w. idle i w \<and> has_batch i w) (submit_batch cfg i) (\<lambda>_. batch_ok i) (\<lambda>_. batch_ok i) (batch_ok i)"
  unfolding submit_batch_def get_batch_def
proof (rule contract_bind [where R = "\<lambda>_ w. idle i w \<and> has_batch i w"])
  show "contract (\<lambda>w. idle i w \<and> has_batch i w) (remote_run_root cfg) (\<lambda>_ w. idle i w \<and> has_batch i w) (\<lambda>_. batch_ok i) (batch_ok i)"
    by (auto simp: contract_def remote_run_root_def idle_ok split: option.split)
qed (rule contract_bind [OF submit_announce], rule contract_bind [OF write_submitted],
    rule contract_bind [where R = "\<lambda>_ w. idle i w \<and> announced i w"], rule contract_get, assumption,
    rule contract_catch [OF submit_job_ok], rule submission_failure)


section \<open>Polling and the whole step of a batch\<close>

definition watching :: "nat \<Rightarrow> string \<Rightarrow> ctl_world \<Rightarrow> bool" where
  "watching i job_id w \<longleftrightarrow>
     batch_ok i w \<and> (\<exists>l. memory w = Some l \<and> i < length (lg_batches l) \<and> bt_job_id (lg_batches l ! i) = Some job_id) \<and> job_id \<noteq> []"

lemma watching_queued:
  assumes "watching i job_id w" "settled (calls w)"
  shows "no_duplicate i (calls w) \<and> (queued_job i (calls w) = NoJob \<or> queued_job i (calls w) = JobQueued job_id)"
  using assms unfolding watching_def batch_ok_def holds_def blank_def by auto

lemma watching_same:
  assumes "watching i job_id w" "memory w' = memory w" "ledger_on_disk w' = ledger_on_disk w" "calls w' = calls w @ [(ev, r)]"
    and "harmless i ev \<or> (\<exists>job. ev = Oarstat i job)"
  shows "watching i job_id w'"
proof -
  have n: "no_duplicate i (calls w') = no_duplicate i (calls w)"
    using assms(5) by (auto simp: assms(4) no_duplicate_snoc harmless_def)
  have q: "queued_job i (calls w') = queued_job i (calls w) \<or> queued_job i (calls w') = NoJob"
    using assms(5) harmless_step [of i "(ev, r)"] by (auto simp: assms(4))
  have "batch_ok i w'"
    using assms(1,2,3) n q unfolding batch_ok_def watching_def by (auto simp: assms(4))
  then show ?thesis using assms(1,2) by (simp add: watching_def)
qed

lemma watching_ok: "watching i job_id w \<Longrightarrow> batch_ok i w"
  by (simp add: watching_def)

lemma unknown_not_terminal: "''unknown'' \<notin> set TERMINAL_STATES"
  by (simp add: TERMINAL_STATES_def)

lemma query_ok:
  "contract (watching i job_id) (query_job_status i job_id)
     (\<lambda>state w. watching i job_id w \<and> (state \<in> set TERMINAL_STATES \<longrightarrow> idle i w)) (\<lambda>_. batch_ok i) (batch_ok i)"
  unfolding query_job_status_def
proof (rule contract_catch [where F = "\<lambda>_. watching i job_id"])
  let ?N = "\<lambda>state w. watching i job_id w \<and> (state \<in> set TERMINAL_STATES \<longrightarrow> idle i w)"
  show "contract (watching i job_id) (ctl_bind (call (Oarstat i job_id)) (\<lambda>r. ctl_ret (parse_job_status (rs_code r) (rs_stdout r) job_id)))
      ?N (\<lambda>_. watching i job_id) (batch_ok i)"
  proof (rule contract_bind [where R = "\<lambda>r. ?N (parse_job_status (rs_code r) (rs_stdout r) job_id)"])
    show "contract (watching i job_id) (call (Oarstat i job_id)) (\<lambda>r. ?N (parse_job_status (rs_code r) (rs_stdout r) job_id))
        (\<lambda>_. watching i job_id) (batch_ok i)"
    proof (rule contract_call)
      fix w r and w' :: ctl_world assume p: "watching i job_id w" and m: "memory w' = memory w" "ledger_on_disk w' = ledger_on_disk w"
        and c: "calls w' = calls w @ [(Oarstat i job_id, r)]"
      have wat: "watching i job_id w'" by (rule watching_same [OF p m c]) simp
      have "idle i w'" if "reports_end job_id r"
        using watching_queued [OF p] that by (auto simp: idle_def c no_duplicate_snoc)
      then show "case rs_fault r of None \<Rightarrow> ?N (parse_job_status (rs_code r) (rs_stdout r) job_id) w'
          | Some (Fails e) \<Rightarrow> watching i job_id w' | Some Ctrl_C \<Rightarrow> batch_ok i w' | Some Kill \<Rightarrow> batch_ok i w'"
        using wat watching_ok [OF wat] by (auto simp: reports_end_def split: option.split fault.split)
    qed (rule watching_ok)
  qed (rule contract_ret)
  show "contract (watching i job_id) (case e of OsError _ \<Rightarrow> ctl_ret ''unknown'' | SubprocessError _ \<Rightarrow> ctl_ret ''unknown''
        | CommandTimeout \<Rightarrow> ctl_ret ''unknown'' | _ \<Rightarrow> ctl_raise e) ?N (\<lambda>_. batch_ok i) (batch_ok i)" for e
    by (cases e) (auto intro!: contract_ret contract_raise simp: unknown_not_terminal watching_ok)
qed

lemma retrieve_ok: "contract (idle i) (retrieve_batch cfg i state) (\<lambda>_. idle i) (\<lambda>_. batch_ok i) (batch_ok i)"
  by (rule contract_conseq [OF contract_keeps [OF keeps_retrieve, of "idle i" i "idle i"]]) (auto intro: idle_frame idle_ok)

lemma poll_ok: "contract (watching i job_id) (poll_job cfg i job_id n) (\<lambda>_. idle i) (\<lambda>_. batch_ok i) (batch_ok i)"
proof (induction n)
  case 0
  show ?case by (simp add: contract_def watching_ok)
next
  case (Suc n)
  have sleep: "contract (watching i job_id) (call Sleep) (\<lambda>_. watching i job_id) (\<lambda>_. batch_ok i) (batch_ok i)"
  proof (rule contract_call)
    fix w r and w' :: ctl_world assume p: "watching i job_id w" and m: "memory w' = memory w" "ledger_on_disk w' = ledger_on_disk w"
      and c: "calls w' = calls w @ [(Sleep, r)]"
    have "watching i job_id w'" by (rule watching_same [OF p m c]) (simp add: harmless_def)
    then show "case rs_fault r of None \<Rightarrow> watching i job_id w' | Some (Fails e) \<Rightarrow> batch_ok i w'
        | Some Ctrl_C \<Rightarrow> batch_ok i w' | Some Kill \<Rightarrow> batch_ok i w'"
      using watching_ok by (simp split: option.split fault.split)
  qed (rule watching_ok)
  have "contract (watching i job_id) (ctl_bind (query_job_status i job_id) (\<lambda>state.
       if state \<in> set TERMINAL_STATES then retrieve_batch cfg i state
       else ctl_bind (call Sleep) (\<lambda>_. poll_job cfg i job_id n))) (\<lambda>_. idle i) (\<lambda>_. batch_ok i) (batch_ok i)"
  proof (rule contract_bind [OF query_ok], rule contract_if)
    fix state
    show "contract (\<lambda>w. watching i job_id w \<and> (state \<in> set TERMINAL_STATES \<longrightarrow> idle i w)) (retrieve_batch cfg i state)
        (\<lambda>_. idle i) (\<lambda>_. batch_ok i) (batch_ok i)" if "state \<in> set TERMINAL_STATES"
      by (rule contract_conseq [OF retrieve_ok]) (use that in auto)
    show "contract (\<lambda>w. watching i job_id w \<and> (state \<in> set TERMINAL_STATES \<longrightarrow> idle i w)) (ctl_bind (call Sleep) (\<lambda>_. poll_job cfg i job_id n))
        (\<lambda>_. idle i) (\<lambda>_. batch_ok i) (batch_ok i)"
      by (rule contract_conseq [OF contract_bind [OF sleep Suc.IH]]) auto
  qed
  then show ?case by (simp add: contract_def)
qed


lemma reconcile_ok:
  "contract (\<lambda>w. batch_ok i w \<and> has_batch i w) (reconcile_batch cfg i) (\<lambda>_. idle i) (\<lambda>_. batch_ok i) (batch_ok i)"
  unfolding reconcile_batch_def get_batch_def
proof (rule contract_bind [where R = "\<lambda>b w. batch_ok i w \<and> has_batch i w \<and> b = batches_of w ! i"])
  show "contract (\<lambda>w. batch_ok i w \<and> has_batch i w) (ctl_get (\<lambda>w. batches_of w ! i))
      (\<lambda>b w. batch_ok i w \<and> has_batch i w \<and> b = batches_of w ! i) (\<lambda>_. batch_ok i) (batch_ok i)"
    by (rule contract_get) simp
  fix b
  show "contract (\<lambda>w. batch_ok i w \<and> has_batch i w \<and> b = batches_of w ! i)
     (if blank (bt_job_id b) then ctl_raise (RunError ''without a recorded OAR job ID; refusing duplicate submission'')
      else (\<lambda>w. poll_job cfg i (the (bt_job_id b)) (Suc (length (answers w))) w)) (\<lambda>_. idle i) (\<lambda>_. batch_ok i) (batch_ok i)"
  proof (rule contract_if)
    assume b: "\<not> blank (bt_job_id b)"
    show "contract (\<lambda>w. batch_ok i w \<and> has_batch i w \<and> b = batches_of w ! i)
        (\<lambda>w. poll_job cfg i (the (bt_job_id b)) (Suc (length (answers w))) w) (\<lambda>_. idle i) (\<lambda>_. batch_ok i) (batch_ok i)"
      unfolding contract_def
    proof (intro allI impI)
      fix w assume p: "batch_ok i w \<and> has_batch i w \<and> b = batches_of w ! i"
      have "watching i (the (bt_job_id b)) w"
        using p b by (auto simp: watching_def has_batch_def batches_of_def blank_def)
      then show "outcome (\<lambda>_. idle i) (\<lambda>_. batch_ok i) (batch_ok i) (poll_job cfg i (the (bt_job_id b)) (Suc (length (answers w))) w)"
        by (rule contractD [OF poll_ok])
    qed
  qed (rule contract_raise, simp)
qed

lemma publish_ok: "contract (idle i) (publish_batch cfg i) (\<lambda>_. batch_ok i) (\<lambda>_. batch_ok i) (batch_ok i)"
  by (rule contract_keeps [OF keeps_publish]) (auto intro: idle_frame idle_ok)

lemma publish_if_ready_ok: "contract (idle i) (publish_if_ready cfg i) (\<lambda>_. batch_ok i) (\<lambda>_. batch_ok i) (batch_ok i)"
  by (rule contract_keeps [OF keeps_publish_if_ready]) (auto intro: idle_frame idle_ok)

lemma has_batch_frame: "has_batch i w \<Longrightarrow> frame p S w w' \<Longrightarrow> has_batch i w'"
  unfolding has_batch_def frame_def same_batches_def batches_of_def by (auto split: option.splits)

lemma submit_batch_has:
  "contract (\<lambda>w. idle i w \<and> has_batch i w) (submit_batch cfg i) (\<lambda>_ w. batch_ok i w \<and> has_batch i w) (\<lambda>_. batch_ok i) (batch_ok i)"
  unfolding contract_def
proof (intro allI impI)
  fix w assume p: "idle i w \<and> has_batch i w"
  obtain r w' where e: "submit_batch cfg i w = (r, w')" by fastforce
  have "has_batch i w'" using has_batch_frame keepsD [OF keeps_submit e] p by blast
  then show "outcome (\<lambda>_ w. batch_ok i w \<and> has_batch i w) (\<lambda>_. batch_ok i) (batch_ok i) (submit_batch cfg i w)"
    using contractD [OF submit_batch_ok p, of cfg] by (cases r) (simp_all add: e)
qed

lemma unheld_idle: "batch_ok i w \<Longrightarrow> has_batch i w \<Longrightarrow> bt_state (batches_of w ! i) \<notin> set HELD_STATES \<Longrightarrow> idle i w"
  by (auto simp: has_batch_def batches_of_def intro: batch_ok_idle)

lemma process_batch_ok:
  "contract (\<lambda>w. batch_ok i w \<and> has_batch i w) (process_batch cfg i) (\<lambda>_. batch_ok i) (\<lambda>_. batch_ok i) (batch_ok i)"
  unfolding process_batch_def get_batch_def Let_def
proof (rule contract_bind [where R = "\<lambda>b w. batch_ok i w \<and> has_batch i w \<and> (bt_state b \<notin> set HELD_STATES \<longrightarrow> idle i w)"])
  show "contract (\<lambda>w. batch_ok i w \<and> has_batch i w) (ctl_get (\<lambda>w. batches_of w ! i))
      (\<lambda>b w. batch_ok i w \<and> has_batch i w \<and> (bt_state b \<notin> set HELD_STATES \<longrightarrow> idle i w)) (\<lambda>_. batch_ok i) (batch_ok i)"
    by (rule contract_get) (simp add: unheld_idle)
  fix b
  let ?P = "\<lambda>w. batch_ok i w \<and> has_batch i w \<and> (bt_state b \<notin> set HELD_STATES \<longrightarrow> idle i w)"
  show "contract ?P
     (if bt_state b = ''published'' then ctl_ret ()
      else if bt_state b = ''ready_to_publish'' then publish_batch cfg i
      else ctl_bind (if bt_state b \<in> set ACTIVE_STATES then reconcile_batch cfg i
                 else if bt_state b = ''planned'' \<or> bt_state b = ''failed''
                 then ctl_bind (submit_batch cfg i) (\<lambda>_. reconcile_batch cfg i)
                 else ctl_raise (RunError ''Batch is in unsupported state'')) (\<lambda>_. publish_if_ready cfg i))
     (\<lambda>_. batch_ok i) (\<lambda>_. batch_ok i) (batch_ok i)"
  proof (rule contract_if, rule contract_ret, simp, rule contract_if)
    show "contract ?P (publish_batch cfg i) (\<lambda>_. batch_ok i) (\<lambda>_. batch_ok i) (batch_ok i)" if "bt_state b = ''ready_to_publish''"
      by (rule contract_conseq [OF publish_ok]) (use that in \<open>auto simp: HELD_STATES_def\<close>)
    have re: "contract ?P (reconcile_batch cfg i) (\<lambda>_. idle i) (\<lambda>_. batch_ok i) (batch_ok i)"
      by (rule contract_conseq [OF reconcile_ok]) auto
    have sub: "contract ?P (ctl_bind (submit_batch cfg i) (\<lambda>_. reconcile_batch cfg i)) (\<lambda>_. idle i) (\<lambda>_. batch_ok i) (batch_ok i)"
      if "bt_state b = ''planned'' \<or> bt_state b = ''failed''"
      by (rule contract_conseq [OF contract_bind [OF submit_batch_has reconcile_ok]]) (use that in \<open>auto simp: HELD_STATES_def\<close>)
    have bad: "contract ?P (ctl_raise e) (\<lambda>_. idle i) (\<lambda>_. batch_ok i) (batch_ok i)" for e
      by (rule contract_raise) simp
    show "contract ?P (ctl_bind (if bt_state b \<in> set ACTIVE_STATES then reconcile_batch cfg i
                 else if bt_state b = ''planned'' \<or> bt_state b = ''failed''
                 then ctl_bind (submit_batch cfg i) (\<lambda>_. reconcile_batch cfg i)
                 else ctl_raise (RunError ''Batch is in unsupported state'')) (\<lambda>_. publish_if_ready cfg i))
        (\<lambda>_. batch_ok i) (\<lambda>_. batch_ok i) (batch_ok i)"
      by (rule contract_bind [OF _ publish_if_ready_ok], rule contract_if, rule re, rule contract_if, erule sub, rule bad)
  qed
qed

section \<open>Invariants of all histories\<close>

text \<open>The state of one process is only its ledger: a new process starts without it.\<close>

definition forget :: "ctl_world \<Rightarrow> ctl_world" where
  "forget w = w\<lparr>memory := None\<rparr>"

definition cancelled :: "batch \<Rightarrow> batch" where
  "cancelled b = b\<lparr>bt_state := ''cancelled'', bt_error := Some ''cancelled_by_interrupt''\<rparr>"

text \<open>
  The contract of an invariant of the controller: it holds before the first run, it survives the loss
  of the memory, the loading and the creation of a ledger, every step that touches no batch and makes no
  submission, the cancellation of a batch, and the processing of a batch. The loops, the interrupt
  handler and every history of runs keep it then.
\<close>

locale controller_invariant =
  fixes I :: "ctl_world \<Rightarrow> bool"
  assumes start: "ledger_on_disk w = NoLedger \<Longrightarrow> calls w = [] \<Longrightarrow> memory w = None \<Longrightarrow> I w"
    and same: "I w \<Longrightarrow> memory w' = memory w \<Longrightarrow> ledger_on_disk w' = ledger_on_disk w \<Longrightarrow> calls w' = calls w \<Longrightarrow> I w'"
    and forgotten: "I w \<Longrightarrow> I (forget w)"
    and extended: "I w \<Longrightarrow> memory w' = memory w \<Longrightarrow> ledger_on_disk w' = ledger_on_disk w \<Longrightarrow> calls w' = calls w @ [(ev, r)]
      \<Longrightarrow> off_queue ev \<Longrightarrow> I w'"
    and framed: "I w \<Longrightarrow> memory w \<noteq> None \<Longrightarrow> frame off_queue {} w w' \<Longrightarrow> I w'"
    and loaded: "I w \<Longrightarrow> ledger_on_disk w = Saved l \<Longrightarrow> lg_batches l' = lg_batches l \<Longrightarrow> I (w\<lparr>memory := Some l'\<rparr>)"
    and created: "I w \<Longrightarrow> ledger_on_disk w = NoLedger \<Longrightarrow> lg_batches l = map new_batch_record bs \<Longrightarrow> I (w\<lparr>memory := Some l\<rparr>)"
    and cancel: "I w \<Longrightarrow> memory w \<noteq> None \<Longrightarrow> I (snd (update_batch i cancelled w))"
    and processed: "I w \<Longrightarrow> has_batch i w \<Longrightarrow> process_batch cfg i w = (result, w') \<Longrightarrow> I w'"
begin

definition ready :: "ctl_world \<Rightarrow> bool" where
  "ready w \<longleftrightarrow> I w \<and> memory w \<noteq> None"

lemma process_batches_keep:
  "I w \<Longrightarrow> \<forall>i\<in>set is. has_batch i w \<Longrightarrow> memory w \<noteq> None \<Longrightarrow> process_batches cfg is w = (r, w') \<Longrightarrow> ready w'"
proof (induction "is" arbitrary: w)
  case (Cons i rest)
  let ?w = "w\<lparr>current := Some i\<rparr>"
  have ok: "I ?w" by (rule same [OF Cons.prems(1)]) simp_all
  have h: "has_batch j ?w" if "j \<in> set (i # rest)" for j using Cons.prems(2) that by (auto simp: has_batch_def)
  obtain r1 w1 where e: "process_batch cfg i ?w = (r1, w1)" by fastforce
  have f: "frame (about i) {i} ?w w1" by (rule keepsD [OF keeps_process_batch e])
  have ok1: "I w1" by (rule processed [OF ok h e]) simp
  have h1: "\<forall>j\<in>set rest. has_batch j w1" using has_batch_frame [OF h f] by simp
  have m1: "memory w1 \<noteq> None" using f Cons.prems(3) by (simp add: frame_def)
  show ?case
  proof (cases r1)
    case (Done a)
    then show ?thesis using Cons.IH [OF ok1 h1 m1] Cons.prems(4) by (simp add: ctl_bind_def e)
  qed (use Cons.prems(4) ok1 m1 in \<open>simp_all add: ctl_bind_def e ready_def\<close>)
qed (simp add: ready_def)

lemma ready_off_queue: "keeps (frame off_queue {}) n \<Longrightarrow> contract ready n (\<lambda>_. ready) (\<lambda>_. ready) ready"
  by (erule contract_keeps) (auto simp: ready_def frame_def intro: framed)

lemma run_batches_keep: "contract ready (run_batches cfg) (\<lambda>_. ready) (\<lambda>_. ready) ready"
  unfolding contract_def
proof (intro allI impI)
  fix w assume w: "ready w"
  obtain r1 w1 where e1: "process_batches cfg [0..<length (batches_of w)] w = (r1, w1)" by fastforce
  have 1: "ready w1"
    by (rule process_batches_keep [OF _ _ _ e1]) (use w in \<open>auto simp: ready_def has_batch_def batches_of_def\<close>)
  have 2: "outcome (\<lambda>_. ready) (\<lambda>_. ready) ready (finalize_run cfg w1)"
    by (rule contractD [OF ready_off_queue [OF keeps_finalize] 1])
  show "outcome (\<lambda>_. ready) (\<lambda>_. ready) ready (run_batches cfg w)"
    using 1 2 by (cases r1) (simp_all add: run_batches_def ctl_bind_def ctl_get_def e1 ctl_raise_def)
qed

lemma cancel_keep: "contract ready (update_batch i cancelled) (\<lambda>_. ready) (\<lambda>_. ready) ready"
  unfolding contract_def
proof (intro allI impI)
  fix w assume p: "ready w"
  have "I (snd (update_batch i cancelled w))" by (rule cancel) (use p in \<open>simp_all add: ready_def\<close>)
  then show "outcome (\<lambda>_. ready) (\<lambda>_. ready) ready (update_batch i cancelled w)"
    using p by (auto simp: update_batch_def update_ledger_def ready_def)
qed

lemma handle_interrupt_keep: "contract ready handle_interrupt (\<lambda>_. ready) (\<lambda>_. ready) ready"
proof -
  have wr: "contract ready (write_ledger site) (\<lambda>_. ready) (\<lambda>_. ready) ready" for site
    by (rule ready_off_queue) (intro keeps_rules; simp)
  have del: "contract ready (if c then ctl_ret () else ctl_catch (ctl_bind (call (Oardel j)) (\<lambda>_. ctl_ret ())) (\<lambda>_. ctl_ret ()))
      (\<lambda>_. ready) (\<lambda>_. ready) ready" for c j
    by (rule ready_off_queue) (intro keeps_rules; simp)
  have act: "contract ready
     (if c then write_ledger ''interrupt''
      else ctl_bind (if d then ctl_ret () else ctl_catch (ctl_bind (call (Oardel j)) (\<lambda>_. ctl_ret ())) (\<lambda>_. ctl_ret ())) (\<lambda>_.
           ctl_bind (update_batch i cancelled) (\<lambda>_. write_ledger ''cancelled'')))
     (\<lambda>_. ready) (\<lambda>_. ready) ready" for c d i j
    by (rule contract_if, rule wr, rule contract_bind [OF del], rule contract_bind [OF cancel_keep], rule wr)
  have all: "contract ready (case cur of None \<Rightarrow> write_ledger ''interrupt''
     | Some i \<Rightarrow>
         if bt_state (bs ! i) \<notin> set ACTIVE_STATES then write_ledger ''interrupt''
         else
           ctl_bind (if blank (bt_job_id (bs ! i)) then ctl_ret ()
                     else ctl_catch (ctl_bind (call (Oardel (the (bt_job_id (bs ! i))))) (\<lambda>_. ctl_ret ())) (\<lambda>_. ctl_ret ())) (\<lambda>_.
           ctl_bind (update_batch i cancelled) (\<lambda>_. write_ledger ''cancelled'')))
     (\<lambda>_. ready) (\<lambda>_. ready) ready" for cur bs
    by (cases cur) (simp only: option.case, rule wr, simp only: option.case, rule act)
  have c: "cancelled = (\<lambda>b. b\<lparr>bt_state := ''cancelled'', bt_error := Some ''cancelled_by_interrupt''\<rparr>)"
    by (rule ext) (simp add: cancelled_def)
  show ?thesis unfolding handle_interrupt_def
    by (rule contract_bind [where R = "\<lambda>_. ready"], rule contract_get, assumption, rule contract_bind [where R = "\<lambda>_. ready"],
      rule contract_get, assumption, rule all [unfolded c])
qed

text \<open>Loading a ledger and writing it back keeps its batches.\<close>

definition stored :: "batch list \<Rightarrow> ctl_world \<Rightarrow> bool" where
  "stored bs w \<longleftrightarrow> I w \<and> (\<exists>l. ledger_on_disk w = Saved l \<and> lg_batches l = bs)"

lemma stored_write:
  "contract (\<lambda>w. stored bs w \<and> (\<exists>l. memory w = Some l \<and> lg_batches l = bs)) (write_ledger site) (\<lambda>_. stored bs) (\<lambda>_. stored bs) (stored bs)"
proof (rule contract_write)
  fix w r l and w' :: ctl_world assume p: "stored bs w \<and> (\<exists>l. memory w = Some l \<and> lg_batches l = bs)" and l: "memory w = Some l"
    and m: "memory w' = memory w" and c: "calls w' = calls w @ [(WriteLedger site, r)]"
  have i: "I w" using p by (simp add: stored_def)
  have "stored bs w'" if "ledger_on_disk w' = ledger_on_disk w"
    using extended [OF i m that c] p that by (simp add: stored_def)
  moreover have "stored bs w'" if "ledger_on_disk w' = Saved l"
  proof -
    let ?w = "w\<lparr>calls := calls w @ [(WriteLedger site, r)]\<rparr>"
    have i1: "I ?w" by (rule extended [OF i, where ev = "WriteLedger site" and r = r]) simp_all
    have f: "frame off_queue {} ?w (?w\<lparr>ledger_on_disk := Saved l\<rparr>)"
      using l by (simp add: frame_def batches_of_def same_batches_refl)
    have "I (?w\<lparr>ledger_on_disk := Saved l\<rparr>)" by (rule framed [OF i1 _ f]) (simp add: l)
    then have "I w'" by (rule same) (simp_all add: that c m)
    then show ?thesis using p l that by (auto simp: stored_def)
  qed
  ultimately show "case rs_fault r of None \<Rightarrow> ledger_on_disk w' = Saved l \<longrightarrow> stored bs w'
      | Some (Fails e) \<Rightarrow> ledger_on_disk w' = ledger_on_disk w \<longrightarrow> stored bs w'
      | _ \<Rightarrow> ledger_on_disk w' = ledger_on_disk w \<longrightarrow> stored bs w'"
    by (simp split: option.split fault.split)
qed auto

lemma stored_load: "lg_batches l = bs \<Longrightarrow> stored bs w \<Longrightarrow> stored bs (w\<lparr>memory := Some l\<rparr>)"
  unfolding stored_def by (auto intro: loaded)

lemma refresh_stored:
  assumes "lg_batches l = bs"
  shows "contract (stored bs) (refresh_resumable_source_commit cfg l) (\<lambda>l1 w. stored bs w \<and> lg_batches l1 = bs) (\<lambda>_. stored bs) (stored bs)"
  unfolding refresh_resumable_source_commit_def Let_def
proof (rule contract_if, rule contract_ret, simp add: assms,
    rule contract_bind [where R = "\<lambda>_ w. stored bs w \<and> (\<exists>l. memory w = Some l \<and> lg_batches l = bs)"])
  show "contract (stored bs) (\<lambda>w. (Done (), w\<lparr>memory := Some (l\<lparr>lg_source_commit := a, lg_source_commit_updates := u\<rparr>)\<rparr>))
      (\<lambda>_ w. stored bs w \<and> (\<exists>l. memory w = Some l \<and> lg_batches l = bs)) (\<lambda>_. stored bs) (stored bs)" for a u
    using assms by (auto simp: contract_def intro: stored_load)
qed (rule contract_bind [OF stored_write], rule contract_ret, simp add: assms)

lemma validate_keep:
  "contract (\<lambda>w. stored bs w \<and> lg_batches l1 = bs) (ctl_bind (validate_immutable_ledger cfg l1) (\<lambda>_. ctl_ret l1))
     (\<lambda>l1 w. stored bs w \<and> lg_batches l1 = bs) (\<lambda>_. stored bs) (stored bs)"
  unfolding validate_immutable_ledger_def
  by (rule contract_bind [where R = "\<lambda>_ w. stored bs w \<and> lg_batches l1 = bs"]) (auto intro: contract_if contract_ret contract_raise)

lemma load_stored:
  assumes "lg_batches l = bs"
  shows "contract (stored bs) (load_existing_ledger cfg l) (\<lambda>l1 w. stored bs w \<and> lg_batches l1 = bs) (\<lambda>_. stored bs) (stored bs)"
  unfolding load_existing_ledger_def
proof (rule contract_bind [where R = "\<lambda>_. stored bs"], rule contract_get, assumption, rule contract_if, rule contract_raise, assumption,
    rule contract_bind [where R = "\<lambda>_. stored bs"])
  show "contract (stored bs) (\<lambda>w. (Done (), w\<lparr>run_id := Some (lg_run_id l)\<rparr>)) (\<lambda>_. stored bs) (\<lambda>_. stored bs) (stored bs)"
    unfolding contract_def stored_def by (auto intro: same)
qed (rule contract_bind [OF refresh_stored [OF assms]], rule validate_keep)

text \<open>A new ledger has planned batches only.\<close>

definition vacant :: "ctl_world \<Rightarrow> bool" where
  "vacant w \<longleftrightarrow> I w \<and> ledger_on_disk w = NoLedger"

lemma new_ledger_vacant:
  "contract vacant (new_ledger cfg rid) (\<lambda>l w. vacant w \<and> (\<exists>bs. lg_batches l = map new_batch_record bs)) (\<lambda>_. I) I"
proof -
  have res: "contract vacant (ctl_of_res x) (\<lambda>_. vacant) (\<lambda>_. I) I" for x :: "'x res"
    unfolding ctl_of_res_def by (auto intro!: contract_ret contract_raise simp: vacant_def split: sum.split exn.split)
  have base: "contract vacant (call Baseline) (\<lambda>_. vacant) (\<lambda>_. I) I"
  proof (rule contract_call)
    fix w r and w' :: ctl_world assume p: "vacant w" and m: "memory w' = memory w" "ledger_on_disk w' = ledger_on_disk w"
      and c: "calls w' = calls w @ [(Baseline, r)]"
    have "I w'" by (rule extended [OF _ m c]) (use p in \<open>simp_all add: vacant_def\<close>)
    then show "case rs_fault r of None \<Rightarrow> vacant w' | Some (Fails e) \<Rightarrow> I w' | Some Ctrl_C \<Rightarrow> I w' | Some Kill \<Rightarrow> I w'"
      using p m by (simp add: vacant_def split: option.split fault.split)
  qed (simp add: vacant_def)
  show ?thesis unfolding new_ledger_def
    by (rule contract_bind [OF res], rule contract_bind [OF res], rule contract_bind [OF base], rule contract_ret) auto
qed

lemma create_keep:
  "contract vacant (create_ledger cfg) (\<lambda>l w. I w \<and> memory w = Some l) (\<lambda>_. I) I"
  unfolding create_ledger_def Let_def
proof (rule contract_bind [where R = "\<lambda>_. vacant"], rule contract_get, assumption, rule contract_bind [where R = "\<lambda>_. vacant"])
  show "contract vacant (\<lambda>w. (Done (), w\<lparr>run_id := Some rid\<rparr>)) (\<lambda>_. vacant) (\<lambda>_. I) I" for rid
    unfolding contract_def vacant_def by (auto intro: same)
  have wr: "contract (\<lambda>w. I w \<and> memory w = Some l) (write_ledger site) (\<lambda>_ w. I w \<and> memory w = Some l) (\<lambda>_. I) I" for l site
  proof (rule contract_conseq [OF contract_write [where P = "\<lambda>w. I w \<and> memory w = Some l"]])
    fix w r l' and w' :: ctl_world assume p: "I w \<and> memory w = Some l" and l': "memory w = Some l'" and m: "memory w' = memory w"
      and c: "calls w' = calls w @ [(WriteLedger site, r)]"
    have f: "frame off_queue {} w (w\<lparr>calls := calls w @ [(WriteLedger site, r)], ledger_on_disk := d\<rparr>)"
      if "d = ledger_on_disk w \<or> d = Saved l" for d
      using p that by (auto simp: frame_def batches_of_def same_batches_refl)
    have "I w'" if "ledger_on_disk w' = ledger_on_disk w \<or> ledger_on_disk w' = Saved l"
    proof -
      have "I (w\<lparr>calls := calls w @ [(WriteLedger site, r)], ledger_on_disk := ledger_on_disk w'\<rparr>)"
        by (rule framed [OF _ _ f [OF that]]) (use p in simp_all)
      then show ?thesis by (rule same) (simp_all add: m c)
    qed
    then show "case rs_fault r of None \<Rightarrow> ledger_on_disk w' = Saved l' \<longrightarrow> I w' \<and> memory w' = Some l
        | Some (Fails e) \<Rightarrow> ledger_on_disk w' = ledger_on_disk w \<longrightarrow> I w'
        | _ \<Rightarrow> ledger_on_disk w' = ledger_on_disk w \<longrightarrow> I w'"
      using p l' m by (auto split: option.split fault.split)
  qed auto
  have set: "contract (\<lambda>w. vacant w \<and> (\<exists>bs. lg_batches l = map new_batch_record bs)) (\<lambda>w. (Done (), w\<lparr>memory := Some l\<rparr>))
      (\<lambda>_ w. I w \<and> memory w = Some l) (\<lambda>_. I) I" for l
    unfolding contract_def vacant_def by (auto intro: created)
  have rest: "contract (\<lambda>w. vacant w \<and> (\<exists>bs. lg_batches l = map new_batch_record bs))
      (ctl_bind (\<lambda>w. (Done (), w\<lparr>memory := Some l\<rparr>)) (\<lambda>_. ctl_bind (write_ledger ''create'') (\<lambda>_. ctl_ret l)))
      (\<lambda>l w. I w \<and> memory w = Some l) (\<lambda>_. I) I" for l
    by (rule contract_bind [OF set], rule contract_bind [OF wr], rule contract_ret)
  show "contract vacant (if \<not> is_safe_run_id rid then ctl_raise (RunError ''Unsafe Grid5000 run_id'')
      else ctl_bind (new_ledger cfg rid) (\<lambda>l. ctl_bind (\<lambda>w. (Done (), w\<lparr>memory := Some l\<rparr>)) (\<lambda>_.
        ctl_bind (write_ledger ''create'') (\<lambda>_. ctl_ret l)))) (\<lambda>l w. I w \<and> memory w = Some l) (\<lambda>_. I) I" for rid
    by (rule contract_if, rule contract_raise, simp add: vacant_def, rule contract_bind [OF new_ledger_vacant], rule rest)
qed

lemma initialize_keep: "contract (\<lambda>w. I w \<and> memory w = None) (initialize cfg) (\<lambda>_. ready) (\<lambda>_. I) I"
  unfolding contract_def
proof (intro allI impI)
  fix w assume w: "I w \<and> memory w = None"
  show "outcome (\<lambda>_. ready) (\<lambda>_. I) I (initialize cfg w)"
  proof (cases "ledger_on_disk w")
    case NoLedger
    have t: "contract (\<lambda>w. I w \<and> memory w = Some l) (\<lambda>w. (Done (), w\<lparr>memory := Some l\<rparr>)) (\<lambda>_. ready) (\<lambda>_. I) I" for l
      unfolding contract_def ready_def by (auto intro: same)
    show ?thesis
      using contractD [OF contract_bind [OF create_keep t], of w cfg] w NoLedger by (simp add: initialize_def vacant_def)
  next
    case InvalidLedger
    then show ?thesis using w by (simp add: initialize_def ctl_bind_def ctl_raise_def)
  next
    case (Saved l)
    have s: "stored (lg_batches l) w" using w Saved by (simp add: stored_def)
    have t: "contract (\<lambda>w. stored (lg_batches l) w \<and> lg_batches l1 = lg_batches l) (\<lambda>w. (Done (), w\<lparr>memory := Some l1\<rparr>))
        (\<lambda>_. ready) (\<lambda>_. I) I" for l1
      using stored_load unfolding contract_def ready_def stored_def by auto
    have c: "contract (stored (lg_batches l)) (load_existing_ledger cfg l)
        (\<lambda>l1 w. stored (lg_batches l) w \<and> lg_batches l1 = lg_batches l) (\<lambda>_. I) I"
      by (rule contract_conseq [OF load_stored [OF refl]]) (auto simp: stored_def)
    show ?thesis using contractD [OF contract_bind [OF c t] s] w Saved by (simp add: initialize_def)
  qed
qed

lemma run_keep:
  assumes i: "I w" and m: "memory w = None" and e: "run cfg w = (result, w')"
  shows "I w'" and "result = Done () \<Longrightarrow> memory w' \<noteq> None"
proof -
  obtain r1 w1 where ini: "initialize cfg w = (r1, w1)" by fastforce
  obtain r2 w2 where b: "run_batches cfg w1 = (r2, w2)" by fastforce
  obtain r3 w3 where h: "handle_interrupt w2 = (r3, w3)" by fastforce
  have 1: "outcome (\<lambda>_. ready) (\<lambda>_. I) I (r1, w1)" using contractD [OF initialize_keep, of w cfg] i m by (simp add: ini)
  have 2: "ready w2" if "r1 = Done ()"
    using contractD [OF run_batches_keep, of w1 cfg] 1 that by (cases r2) (simp_all add: b)
  have 3: "ready w3" if "r1 = Done ()"
    using contractD [OF handle_interrupt_keep 2 [OF that]] by (cases r3) (simp_all add: h)
  have "I w' \<and> (result = Done () \<longrightarrow> memory w' \<noteq> None)"
  proof (cases "r1 = Done ()")
    case True
    then show ?thesis using e 2 [OF True] 3 [OF True]
      by (cases r2; cases r3) (auto simp: run_def ctl_bind_def ini b h ready_def)
  next
    case False
    then show ?thesis using e 1 by (cases r1) (auto simp: run_def ctl_bind_def ini)
  qed
  then show "I w'" and "result = Done () \<Longrightarrow> memory w' \<noteq> None" by auto
qed

lemma fresh_keep: "I (forget w) \<Longrightarrow> I (fresh_process cfg script w)"
  by (erule same) (simp_all add: forget_def fresh_process_def)

lemma history_keeps: "controller_history w \<Longrightarrow> I (forget w)"
proof (induction rule: controller_history.induct)
  case (no_run w)
  then show ?case by (intro start) (simp_all add: forget_def)
next
  case (next_run w cfg script r w')
  have "I w'" by (rule run_keep(1) [OF fresh_keep [OF next_run.IH] _ next_run.hyps(2)]) (simp add: fresh_process_def)
  then show ?case by (rule forgotten)
qed

end

section \<open>No duplicate submission\<close>

definition all_ok :: "ctl_world \<Rightarrow> bool" where
  "all_ok w \<longleftrightarrow> (\<forall>i. batch_ok i w)"

lemma all_okI: "(\<And>i. batch_ok i w) \<Longrightarrow> all_ok w"
  by (simp add: all_ok_def)

lemma off_queue_harmless: "off_queue ev \<Longrightarrow> harmless j ev"
  by (cases ev) (auto simp: harmless_def)

lemma all_ok_processed:
  assumes ok: "all_ok w" and h: "has_batch i w" and e: "process_batch cfg i w = (r, w')"
  shows "all_ok w'"
proof (rule all_okI)
  fix j
  show "batch_ok j w'"
  proof (cases "j = i")
    case True
    have "outcome (\<lambda>_. batch_ok i) (\<lambda>_. batch_ok i) (batch_ok i) (process_batch cfg i w)"
      by (rule contractD [OF process_batch_ok]) (use ok h in \<open>simp add: all_ok_def\<close>)
    then show ?thesis using True by (cases r) (simp_all add: e)
  next
    case False
    have p: "harmless j ev" if "about i ev" for ev using that False by (cases ev) (auto simp: harmless_def)
    show ?thesis
      by (rule batch_ok_frame [OF keepsD [OF keeps_process_batch e] _ _ _ p])
        (use ok h False in \<open>auto simp: all_ok_def has_batch_def\<close>)
  qed
qed

text \<open>An interrupt only moves an active batch to \<open>cancelled\<close>, which is held as well.\<close>

lemma all_ok_cancel:
  assumes "all_ok w"
  shows "all_ok (snd (update_batch i cancelled w))"
proof -
  have "holds q j (bs[i := cancelled (bs ! i)])" if "holds q j bs" for q j bs
    using that by (cases "i = j") (auto simp: holds_def HELD_STATES_def cancelled_def)
  then show ?thesis
    using assms by (auto simp: all_ok_def batch_ok_def update_batch_def update_ledger_def)
qed

lemma all_ok_extended:
  assumes "all_ok w" "memory w' = memory w" "ledger_on_disk w' = ledger_on_disk w" "calls w' = calls w @ [(ev, r)]" "off_queue ev"
  shows "all_ok w'"
proof (rule all_okI)
  fix i
  have "list_all (\<lambda>c. harmless i (fst c)) [(ev, r)]" using off_queue_harmless [OF assms(5)] by simp
  note h = harmless_calls [OF this, of "calls w"]
  show "batch_ok i w'" using assms(1) h by (simp add: all_ok_def batch_ok_def assms)
qed

lemma all_ok_created:
  assumes "all_ok w" "ledger_on_disk w = NoLedger"
  shows "all_ok (w\<lparr>memory := m\<rparr>)"
  using assms unfolding all_ok_def batch_ok_def by simp

lemma all_ok_loaded:
  assumes "all_ok w" "ledger_on_disk w = Saved l" "lg_batches l' = lg_batches l"
  shows "all_ok (w\<lparr>memory := Some l'\<rparr>)"
  using assms unfolding all_ok_def batch_ok_def by simp

interpretation submissions: controller_invariant all_ok
proof
  show "all_ok w" if "ledger_on_disk w = NoLedger" "calls w = []" "memory w = None" for w :: ctl_world
    using that by (simp add: all_ok_def batch_ok_def)
  show "all_ok w'" if "all_ok w" "memory w' = memory w" "ledger_on_disk w' = ledger_on_disk w" "calls w' = calls w" for w w' :: ctl_world
    using that by (simp add: all_ok_def batch_ok_def)
  show "all_ok (forget w)" if "all_ok w" for w using that by (simp add: all_ok_def batch_ok_def forget_def)
  show "all_ok w'" if "all_ok w" "memory w \<noteq> None" "frame off_queue {} w w'" for w w'
    using batch_ok_frame [OF that(3) _ that(2) _ off_queue_harmless] that(1) by (simp add: all_ok_def)
qed (fact all_ok_extended all_ok_loaded | erule (1) all_ok_created | erule all_ok_cancel | erule (2) all_ok_processed)+

text \<open>
  C6. No remote job is submitted twice, as long as the calls that follow a submission behave: the reply
  of an accepted submission names the job, the ledger write that records the job does not fail, and the
  policy check after it passes or times out. In every such history of runs, with any other call failing
  and interrupts and deaths of the process at any point, a batch is submitted only when no job of it can
  be in the remote queue, as far as the calls show; and while one can be, the saved ledger holds the
  batch in a state that no run submits. The condition is needed: \<open>policy_failure_resubmits\<close> below is a
  history without it in which a job is submitted twice.
\<close>

theorem no_duplicate_submission:
  assumes "controller_history w" "settled (calls w)"
  shows "(\<forall>pre attempt r post. calls w = pre @ (Oarsub i attempt, r) # post \<longrightarrow> queued_job i pre = NoJob)
     \<and> (queued_job i (calls w) \<noteq> NoJob \<longrightarrow>
          (\<exists>l. ledger_on_disk w = Saved l \<and> i < length (lg_batches l) \<and> bt_state (lg_batches l ! i) \<in> set HELD_STATES))"
proof -
  have "batch_ok i (forget w)" using submissions.history_keeps [OF assms(1)] by (simp add: all_ok_def)
  then show ?thesis using assms(2)
    unfolding batch_ok_def no_duplicate_def holds_def forget_def by auto
qed

section \<open>Concrete runs\<close>

definition ok_reply :: response where
  "ok_reply = \<lparr>rs_fault = None, rs_code = 0, rs_stdout = [], rs_hashes = (''r'', ''m''), rs_receipt = Absent\<rparr>"

definition sample_fields :: run_fields where
  "sample_fields = \<lparr>rf_contract_version = ''1'', rf_repo_id = ''repo'', rf_model_id = ''sat'', rf_model_revision = ''main'',
     rf_segmenter_version = ''2.2.1'', rf_site = ''nancy'', rf_queue = ''default'', rf_gpu_model = ''A40'', rf_max_stems = 1,
     rf_max_input_bytes = 100, rf_batch_size = 8, rf_inference_batch_size = 8, rf_walltime = ''1:00:00''\<rparr>"

definition sample_config :: ctl_config where
  "sample_config = \<lparr>cf_run_id = None, cf_new_run_id = ''run1'', cf_fields = sample_fields, cf_source_commit = ''c0'', cf_namespace = ''ns'',
     cf_v2_manifest = Parsed (JObj [(''regions'', JObj [(''a-latest'', JObj [])])]),
     cf_sources = (\<lambda>project stem. if project = ''wikipedia'' then Some 10 else None),
     cf_sentence_manifest = Absent, cf_container_text = (\<lambda>_. [])\<rparr>"

definition first_world :: ctl_world where
  "first_world = \<lparr>ledger_on_disk = NoLedger, memory = None, run_id = None, current = None, answers = [], calls = []\<rparr>"

definition job_reply :: response where
  "job_reply = ok_reply\<lparr>rs_stdout := ''OAR_JOB_ID=7''\<rparr>"

text \<open>The replies up to a successful submission: baseline, first write, announcement, directory, staging, upload, policy, submission.\<close>

definition submission_script :: "response list" where
  "submission_script = [ok_reply, ok_reply, ok_reply, ok_reply, ok_reply, ok_reply, ok_reply, job_reply]"

definition failing_policy_script :: "response list" where
  "failing_policy_script = submission_script @ [ok_reply, ok_reply\<lparr>rs_code := 1\<rparr>, ok_reply]"

definition after_failed_policy :: ctl_world where
  "after_failed_policy = snd (run sample_config (fresh_process sample_config failing_policy_script first_world))"

definition after_resubmission :: ctl_world where
  "after_resubmission = snd (run sample_config (fresh_process sample_config (drop 2 submission_script) after_failed_policy))"

definition saved_states :: "ctl_world \<Rightarrow> string list" where
  "saved_states w = (case ledger_on_disk w of Saved l \<Rightarrow> map bt_state (lg_batches l) | _ \<Rightarrow> [])"

text \<open>
  Without the assumption a job is submitted twice: when the policy check after the submission fails, the
  batch is marked failed although its job is queued, and the next run submits it again.
\<close>

lemma policy_failure_resubmits:
  "queued_job 0 (calls after_failed_policy) = JobQueued ''7''
   \<and> saved_states after_failed_policy = [''failed'']
   \<and> (Oarsub 0 2, job_reply) \<in> set (calls after_resubmission)"
  by code_simp


text \<open>A submission that times out: its job may be queued, so the batch stays announced and the next run refuses it.\<close>

definition after_timeout :: ctl_world where
  "after_timeout = snd (run sample_config (fresh_process sample_config
     (take 7 submission_script @ [ok_reply\<lparr>rs_fault := Some (Fails CommandTimeout)\<rparr>]) first_world))"

definition after_refusal :: ctl_world where
  "after_refusal = snd (run sample_config (fresh_process sample_config submission_script after_timeout))"

lemma history_after: "controller_history w \<Longrightarrow> controller_history (snd (run cfg (fresh_process cfg script w)))"
  by (rule controller_history.next_run [OF _ prod.collapse [symmetric]])

lemma history_after_refusal: "controller_history after_refusal"
  unfolding after_refusal_def after_timeout_def
  by (intro history_after controller_history.no_run) (simp_all add: first_world_def)

lemma after_refusal_facts: "settled (calls after_refusal) \<and> queued_job 0 (calls after_refusal) = UnknownJob"
  by code_simp

theorem no_duplicate_submission_witness:
  "settled (calls after_refusal) \<and> queued_job 0 (calls after_refusal) = UnknownJob
   \<and> (\<exists>l. ledger_on_disk after_refusal = Saved l \<and> 0 < length (lg_batches l) \<and> bt_state (lg_batches l ! 0) \<in> set HELD_STATES)"
  using no_duplicate_submission [OF history_after_refusal, of 0] after_refusal_facts by simp

text \<open>
  An interrupt while a job runs leaves the batch \<open>cancelled\<close>, and every later run stops there: the
  ledger cannot be resumed.
\<close>

definition interrupted_script :: "response list" where
  "interrupted_script = submission_script @ [ok_reply, ok_reply, ok_reply\<lparr>rs_fault := Some Ctrl_C\<rparr>, ok_reply, ok_reply]"

definition after_interrupt :: ctl_world where
  "after_interrupt = snd (run sample_config (fresh_process sample_config interrupted_script first_world))"

lemma interrupt_blocks_resumption:
  "saved_states after_interrupt = [''cancelled'']
   \<and> run sample_config (fresh_process sample_config [ok_reply, ok_reply, ok_reply] after_interrupt)
     = (Raise (RunError ''Batch is in unsupported state''),
        (fresh_process sample_config [ok_reply, ok_reply, ok_reply] after_interrupt)
          \<lparr>memory := (case ledger_on_disk after_interrupt of Saved l \<Rightarrow> Some l | _ \<Rightarrow> None), run_id := Some ''run1'', current := Some 0\<rparr>)"
  by code_simp

end
