(* ===== verification/Grid_Cleanup.thy ===== *)
theory Grid_Cleanup
  imports Grid_Safety
begin

text \<open>
  The remote directory of a run: a ledger whose cleanup is complete belongs to a run whose directory was
  removed. The invariant is a relation between the states before and after a computation, which the
  rules of \<open>Grid_Safety\<close> lift from the calls to a run.
\<close>

section \<open>The invariant\<close>

definition removed :: "string \<Rightarrow> (event \<times> response) list \<Rightarrow> bool" where
  "removed rid cs \<longleftrightarrow> (\<exists>namespace r. (RemoveTree (namespace @ ''/'' @ rid), r) \<in> set cs \<and> rs_fault r = None)"

definition cleaned :: "(event \<times> response) list \<Rightarrow> ledger \<Rightarrow> bool" where
  "cleaned cs l \<longleftrightarrow> (lg_cleanup_state l = ''complete'' \<longrightarrow> removed (lg_run_id l) cs)"

definition tidy :: "ctl_world \<Rightarrow> bool" where
  "tidy w \<longleftrightarrow> (\<forall>l. memory w = Some l \<longrightarrow> run_id w = Some (lg_run_id l) \<and> cleaned (calls w) l)
     \<and> (\<forall>l. ledger_on_disk w = Saved l \<longrightarrow> cleaned (calls w) l)"

definition tidied :: "ctl_world \<Rightarrow> ctl_world \<Rightarrow> bool" where
  "tidied w w' \<longleftrightarrow> (tidy w \<longrightarrow> tidy w')"

lemma tidied_preorder [keeps_rules, simp]: "preorder_rel tidied"
  by (auto simp: preorder_rel_def tidied_def)

lemma cleaned_mono: "cleaned cs l \<Longrightarrow> cleaned (cs @ ds) l"
  by (auto simp: cleaned_def removed_def)

lemma call_fields:
  assumes "call ev w = (r, w')"
  shows "memory w' = memory w \<and> ledger_on_disk w' = ledger_on_disk w \<and> run_id w' = run_id w
    \<and> (\<exists>cs. calls w' = calls w @ cs) \<and> (\<forall>a. r = Done a \<longrightarrow> rs_fault a = None \<and> calls w' = calls w @ [(ev, a)])"
  using assms by (auto simp: call_def Let_def split: list.splits option.splits fault.splits)

lemma tidy_call: "call ev w = (r, w') \<Longrightarrow> tidy w \<Longrightarrow> tidy w'"
  using call_fields [of ev w r w'] by (auto simp: tidy_def cleaned_mono)

lemma tidied_call [keeps_rules]: "keeps tidied (call ev)"
  unfolding keeps_def tidied_def using tidy_call by (metis prod.collapse)

lemma tidied_frontend [keeps_rules]: "keeps tidied (run_frontend ev)"
  unfolding run_frontend_def by (intro keeps_rules)

lemma tidied_update_ledger [keeps_rules]:
  assumes "\<And>l. lg_run_id (f l) = lg_run_id l" "\<And>l. lg_cleanup_state (f l) = ''complete'' \<Longrightarrow> lg_cleanup_state l = ''complete''"
  shows "keeps tidied (update_ledger f)"
  using assms by (auto simp: keeps_def tidied_def update_ledger_def tidy_def cleaned_def)

lemma tidied_update_batch [keeps_rules]: "keeps tidied (update_batch i f)"
  unfolding update_batch_def by (rule tidied_update_ledger) simp_all

lemma tidied_get_batch [keeps_rules]: "keeps tidied (get_batch i)"
  unfolding get_batch_def by (intro keeps_rules)

lemma tidied_remote_root [keeps_rules]: "keeps tidied (remote_run_root cfg)"
  by (auto simp: keeps_def remote_run_root_def preorder_relD split: option.split)

lemma tidied_write [keeps_rules]: "keeps tidied (write_ledger site)"
  unfolding keeps_def
proof
  fix w
  obtain r w' where e: "write_ledger site w = (r, w')" by fastforce
  have "tidy w'" if "tidy w"
    using e
  proof (cases rule: write_ledger_cases)
    case 1
    then show ?thesis using that by simp
  next
    case (2 l r1 w1)
    have "tidy w1" using tidy_call [OF 2(2) that] .
    moreover have "memory w1 = Some l" using 2(1) call_fields [OF 2(2)] by simp
    ultimately show ?thesis using 2(3) by (auto simp: tidy_def split: if_splits)
  qed
  then show "tidied w (snd (write_ledger site w))" by (simp add: tidied_def e)
qed

section \<open>Batches\<close>

lemma tidied_cleanup [keeps_rules]: "keeps tidied (cleanup_remote_job cfg i)"
  unfolding cleanup_remote_job_def by (intro keeps_rules)

lemma tidied_baseline [keeps_rules]: "keeps tidied assert_baseline"
  unfolding assert_baseline_def by (intro keeps_rules)

lemma tidied_message [keeps_rules]: "keeps tidied (publication_message b)"
  unfolding publication_message_def by (auto intro: keeps_rules split: list.split)

lemma tidied_publish [keeps_rules]: "keeps tidied (publish_batch cfg i)"
  unfolding publish_batch_def by (intro keeps_rules)

lemma tidied_retrieve [keeps_rules]: "keeps tidied (retrieve_batch cfg i state)"
  unfolding retrieve_batch_def read_valid_receipt_def mark_batch_failed_def by (intro keeps_rules)

lemma tidied_submit [keeps_rules]: "keeps tidied (submit_batch cfg i)"
  unfolding submit_batch_def submit_job_def announce_batch_def record_submission_failure_def by (intro keeps_rules)

lemma tidied_query [keeps_rules]: "keeps tidied (query_job_status i job_id)"
  unfolding query_job_status_def by (intro keeps_rules) (auto intro: keeps_rules split: cexn.split)

lemma tidied_poll [keeps_rules]: "keeps tidied (poll_job cfg i job_id n)"
proof (induction n)
  case 0
  show ?case by (simp add: keeps_def preorder_relD)
next
  case (Suc n)
  have "keeps tidied (ctl_bind (query_job_status i job_id) (\<lambda>state.
       if state \<in> set TERMINAL_STATES then retrieve_batch cfg i state
       else ctl_bind (call Sleep) (\<lambda>_. poll_job cfg i job_id n)))"
    by (intro keeps_rules Suc.IH)
  then show ?case by (simp add: keeps_def)
qed

lemma tidied_reconcile [keeps_rules]: "keeps tidied (reconcile_batch cfg i)"
proof -
  have "keeps tidied (\<lambda>w. poll_job cfg i j (Suc (length (answers w))) w)" for j
    using tidied_poll unfolding keeps_def by blast
  then show ?thesis unfolding reconcile_batch_def by (intro keeps_rules)
qed

lemma tidied_process_batch [keeps_rules]: "keeps tidied (process_batch cfg i)"
  unfolding process_batch_def publish_if_ready_def by (intro keeps_rules)

lemma tidied_process_batches [keeps_rules]: "keeps tidied (process_batches cfg is)"
proof (induction "is")
  case Nil
  show ?case by (simp add: keeps_def preorder_relD)
next
  case (Cons i rest)
  have "keeps tidied (\<lambda>w. (Done (), w\<lparr>current := Some i\<rparr>))" by (simp add: keeps_def tidied_def tidy_def)
  then have "keeps tidied (ctl_bind (\<lambda>w. (Done (), w\<lparr>current := Some i\<rparr>)) (\<lambda>_.
     ctl_bind (process_batch cfg i) (\<lambda>_. process_batches cfg rest)))"
    by (intro keeps_rules Cons.IH)
  then show ?case by (simp add: keeps_def)
qed

section \<open>The end of a run\<close>

text \<open>The cleanup is called complete only when the call that removes the directory has returned.\<close>

lemma tidied_removal:
  "keeps tidied (ctl_bind (remote_run_root cfg) (\<lambda>root.
     ctl_bind (call (RemoveTree root)) (\<lambda>_.
     ctl_bind (update_ledger (\<lambda>l. l\<lparr>lg_cleanup_state := ''complete''\<rparr>)) (\<lambda>_.
       write_ledger ''complete''))))"
  unfolding keeps_def tidied_def
proof (intro allI impI)
  fix w assume w: "tidy w"
  show "tidy (snd (ctl_bind (remote_run_root cfg) (\<lambda>root. ctl_bind (call (RemoveTree root)) (\<lambda>_.
     ctl_bind (update_ledger (\<lambda>l. l\<lparr>lg_cleanup_state := ''complete''\<rparr>)) (\<lambda>_. write_ledger ''complete''))) w))"
  proof (cases "run_id w")
    case None
    then show ?thesis using w by (simp add: ctl_bind_def remote_run_root_def)
  next
    case (Some rid)
    let ?root = "cf_namespace cfg @ ''/'' @ rid"
    obtain r w1 where c: "call (RemoveTree ?root) w = (r, w1)" by fastforce
    have t: "tidy w1" by (rule tidy_call [OF c w])
    let ?w2 = "w1\<lparr>memory := map_option (\<lambda>l. l\<lparr>lg_cleanup_state := ''complete''\<rparr>) (memory w1)\<rparr>"
    have "tidy ?w2" if "r = Done a" for a
    proof -
      have "removed rid (calls w1)" using call_fields [OF c] that by (auto simp: removed_def)
      then show ?thesis using t call_fields [OF c] Some by (auto simp: tidy_def cleaned_def)
    qed
    then have "tidy (snd (write_ledger ''complete'' ?w2))" if "r = Done a" for a
      using that tidied_write unfolding keeps_def tidied_def by blast
    then show ?thesis using t
      by (cases r) (simp_all add: ctl_bind_def remote_run_root_def Some c [simplified] update_ledger_def)
  qed
qed

lemma tidied_finalize [keeps_rules]: "keeps tidied (finalize_run cfg)"
  unfolding finalize_run_def by (intro keeps_rules tidied_removal) simp_all

lemma tidied_interrupt [keeps_rules]: "keeps tidied handle_interrupt"
  unfolding handle_interrupt_def by (intro keeps_rules)

lemma tidied_run_batches [keeps_rules]: "keeps tidied (run_batches cfg)"
  unfolding run_batches_def by (intro keeps_rules)

section \<open>The start of a run\<close>

definition opened :: "ledger \<Rightarrow> ctl_world \<Rightarrow> bool" where
  "opened l w \<longleftrightarrow> tidy w \<and> run_id w = Some (lg_run_id l) \<and> cleaned (calls w) l"

lemma opened_tidy: "opened l w \<Longrightarrow> tidy w"
  by (simp add: opened_def)

lemma opened_memory: "opened l w \<Longrightarrow> opened l (w\<lparr>memory := Some l\<rparr>)"
  by (simp add: opened_def tidy_def)

lemma opened_write:
  assumes "opened l w" "write_ledger site w = (r, w')"
  shows "opened l w'"
proof -
  have t: "tidy w'" using keepsD [OF tidied_write assms(2)] opened_tidy [OF assms(1)] by (simp add: tidied_def)
  have f: "frame (\<lambda>_. True) {} w w'" by (rule keepsD [OF keeps_write_ledger assms(2)]) simp
  then obtain cs where "calls w' = calls w @ cs" "run_id w' = run_id w" unfolding frame_def by blast
  then show ?thesis using t assms(1) by (simp add: opened_def cleaned_mono)
qed

text \<open>Both ways to a ledger end with one that is opened; a failure on the way leaves a tidy state.\<close>

lemma refresh_opened:
  assumes "opened l w" "refresh_resumable_source_commit cfg l w = (r, w')"
  shows "tidy w' \<and> (\<forall>l1. r = Done l1 \<longrightarrow> opened l1 w')"
proof (cases "lg_source_commit l = cf_source_commit cfg \<or> \<not> is_source_commit_migration_safe l")
  case True
  then have "r = Done l" "w' = w"
    using assms(2) by (simp_all only: refresh_resumable_source_commit_def if_True ctl_ret_def prod.inject)
  then show ?thesis using assms(1) opened_tidy by simp
next
  case False
  let ?l1 = "l\<lparr>lg_source_commit := cf_source_commit cfg,
      lg_source_commit_updates := lg_source_commit_updates l @ [(lg_source_commit l, cf_source_commit cfg)]\<rparr>"
  have "opened ?l1 w" using assms(1) by (simp add: opened_def cleaned_def)
  then have o: "opened ?l1 (w\<lparr>memory := Some ?l1\<rparr>)" by (rule opened_memory)
  obtain r1 w1 where e: "write_ledger ''source_commit'' (w\<lparr>memory := Some ?l1\<rparr>) = (r1, w1)" by fastforce
  have "w' = w1 \<and> (\<forall>l1. r = Done l1 \<longrightarrow> l1 = ?l1)"
    using assms(2) False by (cases r1) (auto simp: refresh_resumable_source_commit_def ctl_bind_def ctl_ret_def Let_def e)
  then show ?thesis using opened_write [OF o e] opened_tidy by auto
qed

lemma load_opened:
  assumes "tidy w" "memory w = None" "ledger_on_disk w = Saved l" "load_existing_ledger cfg l w = (r, w')"
  shows "tidy w' \<and> (\<forall>l1. r = Done l1 \<longrightarrow> opened l1 w')"
proof (cases "run_id w \<noteq> None \<and> run_id w \<noteq> Some (lg_run_id l)")
  case True
  then have "w' = w" "\<exists>e. r = Raise e"
    using assms(4) by (auto simp: load_existing_ledger_def ctl_bind_def ctl_get_def ctl_raise_def)
  then show ?thesis using assms(1) by auto
next
  case False
  let ?w = "w\<lparr>run_id := Some (lg_run_id l)\<rparr>"
  have o: "opened l ?w" using assms(1-3) by (simp add: opened_def tidy_def)
  obtain r1 w1 where e: "refresh_resumable_source_commit cfg l ?w = (r1, w1)" by fastforce
  have "w' = w1 \<and> (\<forall>l1. r = Done l1 \<longrightarrow> r1 = Done l1)"
    using assms(4) False
    by (cases r1) (auto simp: load_existing_ledger_def ctl_bind_def ctl_get_def ctl_ret_def ctl_raise_def validate_immutable_ledger_def e
        split: if_splits)
  then show ?thesis using refresh_opened [OF o e] by auto
qed

lemma tidied_new_ledger: "keeps tidied (new_ledger cfg rid)"
  unfolding new_ledger_def by (intro keeps_rules)

lemma new_ledger_fields:
  assumes "new_ledger cfg rid w = (Done l, w')"
  shows "lg_run_id l = rid \<and> lg_cleanup_state l = ''pending'' \<and> run_id w' = run_id w"
proof -
  have "keeps (\<lambda>w w'. run_id w' = run_id w) (call Baseline)"
    unfolding keeps_def using call_fields by (metis prod.collapse)
  then show ?thesis using assms
    by (auto simp: new_ledger_def ctl_bind_def ctl_ret_def ctl_of_res_def ctl_raise_def keeps_def
        split: prod.splits ctl_result.splits sum.splits exn.splits) (metis snd_conv)+
qed

lemma create_opened:
  assumes "tidy w" "memory w = None" "create_ledger cfg w = (r, w')"
  shows "tidy w' \<and> (\<forall>l1. r = Done l1 \<longrightarrow> opened l1 w')"
proof -
  define rid where "rid = (case run_id w of None \<Rightarrow> cf_new_run_id cfg | Some r \<Rightarrow> r)"
  let ?w = "w\<lparr>run_id := Some rid\<rparr>"
  have t: "tidy ?w" using assms(1,2) by (simp add: tidy_def)
  obtain r1 w1 where n: "new_ledger cfg rid ?w = (r1, w1)" by fastforce
  have t1: "tidy w1" using keepsD [OF tidied_new_ledger n] t by (simp add: tidied_def)
  have run: "create_ledger cfg w =
      (if \<not> is_safe_run_id rid then (Raise (RunError ''Unsafe Grid5000 run_id''), ?w)
       else ctl_bind (new_ledger cfg rid) (\<lambda>l.
         ctl_bind (\<lambda>w. (Done (), w\<lparr>memory := Some l\<rparr>)) (\<lambda>_. ctl_bind (write_ledger ''create'') (\<lambda>_. ctl_ret l))) ?w)"
    by (simp add: create_ledger_def ctl_bind_def [of "ctl_get run_id"] ctl_get_def rid_def [symmetric] Let_def ctl_raise_def
        ctl_bind_def [of "\<lambda>w. (Done (), w\<lparr>run_id := Some rid\<rparr>)"])
  show ?thesis
  proof (cases "is_safe_run_id rid \<and> (\<exists>l. r1 = Done l)")
    case True
    then obtain l where l: "r1 = Done l" by blast
    have "opened l w1" using new_ledger_fields [OF n [unfolded l]] t1 by (simp add: opened_def cleaned_def)
    then have o: "opened l (w1\<lparr>memory := Some l\<rparr>)" by (rule opened_memory)
    obtain r2 w2 where e: "write_ledger ''create'' (w1\<lparr>memory := Some l\<rparr>) = (r2, w2)" by fastforce
    have "w' = w2 \<and> (\<forall>l1. r = Done l1 \<longrightarrow> l1 = l)"
      using assms(3) True unfolding run by (cases r2) (auto simp: ctl_bind_def ctl_ret_def n l e)
    then show ?thesis using opened_write [OF o e] opened_tidy by auto
  next
    case False
    then have "(w' = ?w \<or> w' = w1) \<and> (\<forall>l1. r \<noteq> Done l1)"
      using assms(3) unfolding run by (cases r1) (auto simp: ctl_bind_def n split: if_splits)
    then show ?thesis using t t1 by auto
  qed
qed

lemma tidied_initialize: "keeps tidied (initialize cfg)"
  unfolding keeps_def tidied_def
proof (intro allI impI)
  fix w assume w: "tidy w"
  show "tidy (snd (initialize cfg w))"
  proof (cases "memory w")
    case None
    let ?m = "case ledger_on_disk w of NoLedger \<Rightarrow> create_ledger cfg | InvalidLedger \<Rightarrow> ctl_raise (RunError ''Invalid JSON artifact'')
        | Saved l \<Rightarrow> load_existing_ledger cfg l"
    obtain r w1 where m: "?m w = (r, w1)" by fastforce
    have "tidy w1 \<and> (\<forall>l. r = Done l \<longrightarrow> opened l w1)"
    proof (cases "ledger_on_disk w")
      case NoLedger
      then show ?thesis using create_opened [OF w None] m by simp
    next
      case InvalidLedger
      then show ?thesis using m w by (auto simp: ctl_raise_def)
    next
      case (Saved l)
      then show ?thesis using load_opened [OF w None Saved] m by simp
    qed
    then show ?thesis using opened_memory opened_tidy
      by (cases r) (auto simp: initialize_def None ctl_bind_def m)
  qed (use w in \<open>simp add: initialize_def\<close>)
qed

lemma tidied_run: "keeps tidied (run cfg)"
proof -
  have "keeps tidied (ctl_bind handle_interrupt (\<lambda>_ w2. (Interrupt, w2)))"
    by (intro keeps_rules) (simp add: keeps_def preorder_relD)
  then have "keeps tidied (\<lambda>w. case run_batches cfg w of
         (Interrupt, w1) \<Rightarrow> ctl_bind handle_interrupt (\<lambda>_ w2. (Interrupt, w2)) w1 | r \<Rightarrow> r)"
    using tidied_run_batches [of cfg] unfolding keeps_def tidied_def
    by (auto split: prod.splits ctl_result.splits)
  then show ?thesis unfolding run_def by (intro keeps_rules tidied_initialize)
qed

lemma history_tidy: "controller_history w \<Longrightarrow> tidy (w\<lparr>memory := None\<rparr>)"
proof (induction rule: controller_history.induct)
  case (next_run w cfg script r w')
  have "tidy (fresh_process cfg script w)" using next_run.IH by (simp add: tidy_def fresh_process_def)
  then have "tidy w'" using keepsD [OF tidied_run next_run.hyps(2)] by (simp add: tidied_def)
  then show ?case by (simp add: tidy_def)
qed (simp add: tidy_def)

lemma run_tidy:
  assumes "controller_history w" "run cfg (fresh_process cfg script w) = (r, w')"
  shows "tidy w'"
proof -
  have "tidy (fresh_process cfg script w)" using history_tidy [OF assms(1)] by (simp add: tidy_def fresh_process_def)
  then show ?thesis using keepsD [OF tidied_run assms(2)] by (simp add: tidied_def)
qed

end
