(* ===== verification/Grid_Publication.thy ===== *)
theory Grid_Publication
  imports Grid_Cleanup
begin

text \<open>
  What the ledger of the remote sentence jobs says about the publication of a batch: a batch is ready
  only after its verified import, published only after its commit was published and verified, and a
  run that returns has published every batch.
\<close>

section \<open>The stages of a batch\<close>

definition succeeded :: "event \<times> response \<Rightarrow> event \<Rightarrow> bool" where
  "succeeded c ev \<longleftrightarrow> fst c = ev \<and> rs_fault (snd c) = None"

definition imported :: "nat \<Rightarrow> (event \<times> response) list \<Rightarrow> bool" where
  "imported i cs \<longleftrightarrow> (\<exists>c\<in>set cs. succeeded c (ImportFiles i))"

definition verified :: "nat \<Rightarrow> string option \<Rightarrow> (event \<times> response) list \<Rightarrow> bool" where
  "verified i commit cs \<longleftrightarrow>
     (\<exists>pre p v post. cs = pre @ [p, v] @ post \<and> succeeded p (Publish i) \<and> succeeded v (Verify i)
        \<and> imported i pre \<and> commit = Some (rs_stdout (snd p)))"

definition stage_ok :: "nat \<Rightarrow> (event \<times> response) list \<Rightarrow> batch \<Rightarrow> bool" where
  "stage_ok i cs b \<longleftrightarrow>
     (bt_state b = ''ready_to_publish'' \<longrightarrow> imported i cs) \<and> (bt_state b = ''published'' \<longrightarrow> verified i (bt_hf_commit b) cs)"

definition stages_ok :: "(event \<times> response) list \<Rightarrow> ledger \<Rightarrow> bool" where
  "stages_ok cs l \<longleftrightarrow> (\<forall>i < length (lg_batches l). stage_ok i cs (lg_batches l ! i))"

definition world_stages :: "ctl_world \<Rightarrow> bool" where
  "world_stages w \<longleftrightarrow>
     (\<forall>l. memory w = Some l \<longrightarrow> stages_ok (calls w) l) \<and> (\<forall>l. ledger_on_disk w = Saved l \<longrightarrow> stages_ok (calls w) l)"

lemma imported_mono: "imported i cs \<Longrightarrow> imported i (cs @ ds)"
  by (auto simp: imported_def)

lemma verified_mono:
  assumes "verified i commit cs"
  shows "verified i commit (cs @ ds)"
proof -
  obtain pre p v post where "cs = pre @ [p, v] @ post" "succeeded p (Publish i)" "succeeded v (Verify i)" "imported i pre"
    "commit = Some (rs_stdout (snd p))"
    using assms unfolding verified_def by blast
  then show ?thesis unfolding verified_def
    by (intro exI [of _ pre] exI [of _ p] exI [of _ v] exI [of _ "post @ ds"]) simp
qed

lemma stages_mono: "stages_ok cs l \<Longrightarrow> stages_ok (cs @ ds) l"
  by (simp add: stages_ok_def stage_ok_def imported_mono verified_mono)

text \<open>The condition that the steps of batch \<open>i\<close> keep; with \<open>k\<close> it says that the batch has been imported.\<close>

definition staged :: "bool \<Rightarrow> nat \<Rightarrow> ctl_world \<Rightarrow> bool" where
  "staged k i w \<longleftrightarrow> world_stages w \<and> has_batch i w \<and> (k \<longrightarrow> imported i (calls w))"

definition stages_kept :: "bool \<Rightarrow> nat \<Rightarrow> 'a ctl \<Rightarrow> bool" where
  "stages_kept k i m \<longleftrightarrow> contract (staged k i) m (\<lambda>_. staged k i) (\<lambda>_. staged k i) (staged k i)"

named_theorems stage_rules \<open>which computations keep the stages of all batches\<close>

lemma stages_bind [stage_rules]: "stages_kept k i m \<Longrightarrow> (\<And>a. stages_kept k i (f a)) \<Longrightarrow> stages_kept k i (ctl_bind m f)"
  unfolding stages_kept_def by (rule contract_bind)

lemma stages_catch [stage_rules]: "stages_kept k i m \<Longrightarrow> (\<And>e. stages_kept k i (h e)) \<Longrightarrow> stages_kept k i (ctl_catch m h)"
  unfolding stages_kept_def by (rule contract_catch)

lemma stages_ret [stage_rules]: "stages_kept k i (ctl_ret a)"
  unfolding stages_kept_def by (rule contract_ret)

lemma stages_raise [stage_rules]: "stages_kept k i (ctl_raise e)"
  unfolding stages_kept_def by (rule contract_raise)

lemma stages_get [stage_rules]: "stages_kept k i (ctl_get f)"
  unfolding stages_kept_def by (rule contract_get)

lemma stages_of_res [stage_rules]: "stages_kept k i (ctl_of_res r)"
  unfolding ctl_of_res_def by (auto intro: stage_rules split: sum.split exn.split)

lemma stages_if [stage_rules]: "stages_kept k i m \<Longrightarrow> stages_kept k i n \<Longrightarrow> stages_kept k i (if c then m else n)"
  by simp

lemma stages_option [stage_rules]:
  "stages_kept k i m \<Longrightarrow> (\<And>a. stages_kept k i (f a)) \<Longrightarrow> stages_kept k i (case v of None \<Rightarrow> m | Some a \<Rightarrow> f a)"
  by (cases v) auto

lemma staged_call:
  assumes "staged k i w" "memory w' = memory w" "calls w' = calls w @ cs"
    and "ledger_on_disk w' = ledger_on_disk w \<or> (\<exists>l. memory w = Some l \<and> ledger_on_disk w' = Saved l)"
  shows "staged k i w'"
  using assms unfolding staged_def world_stages_def has_batch_def by (auto simp: stages_mono imported_mono)

lemma stages_call [stage_rules]: "stages_kept k i (call ev)"
  unfolding stages_kept_def
proof (rule contract_call)
  fix w r and w' :: ctl_world assume p: "staged k i w" and m: "memory w' = memory w" "ledger_on_disk w' = ledger_on_disk w"
    and c: "calls w' = calls w @ [(ev, r)]"
  have "staged k i w'" by (rule staged_call [OF p m(1) c]) (simp add: m)
  then show "case rs_fault r of None \<Rightarrow> staged k i w' | Some (Fails e) \<Rightarrow> staged k i w' | Some Ctrl_C \<Rightarrow> staged k i w' | Some Kill \<Rightarrow> staged k i w'"
    by (simp split: option.split fault.split)
qed

lemma stages_frontend [stage_rules]: "stages_kept k i (run_frontend ev)"
  unfolding run_frontend_def by (intro stage_rules)

lemma stages_write [stage_rules]: "stages_kept k i (write_ledger site)"
  unfolding stages_kept_def
proof (rule contract_write)
  fix w r l and w' :: ctl_world assume p: "staged k i w" and l: "memory w = Some l" and m: "memory w' = memory w"
    and c: "calls w' = calls w @ [(WriteLedger site, r)]"
  have "staged k i w'" if "ledger_on_disk w' = Saved l \<or> ledger_on_disk w' = ledger_on_disk w"
    by (rule staged_call [OF p m c]) (use that l in blast)
  then show "case rs_fault r of None \<Rightarrow> ledger_on_disk w' = Saved l \<longrightarrow> staged k i w'
      | Some (Fails e) \<Rightarrow> ledger_on_disk w' = ledger_on_disk w \<longrightarrow> staged k i w'
      | _ \<Rightarrow> ledger_on_disk w' = ledger_on_disk w \<longrightarrow> staged k i w'"
    by (simp split: option.split fault.split)
qed (auto simp: staged_def has_batch_def)

lemma staged_update:
  assumes "staged k i w" "update_batch j f w = (r, w')"
    and f: "\<And>b. stage_ok j (calls w) b \<Longrightarrow> stage_ok j (calls w) (f b)"
  shows "r = Done () \<and> staged k i w'"
proof -
  obtain l where l: "memory w = Some l" using assms(1) unfolding staged_def has_batch_def by blast
  have w': "w' = w\<lparr>memory := Some (l\<lparr>lg_batches := (lg_batches l)[j := f (lg_batches l ! j)]\<rparr>)\<rparr>" and r: "r = Done ()"
    using assms(2) l by (auto simp: update_batch_def update_ledger_def)
  have s: "stage_ok n (calls w) (lg_batches l ! n)" if "n < length (lg_batches l)" for n
    using assms(1) l that unfolding staged_def world_stages_def stages_ok_def by blast
  have "stage_ok n (calls w) ((lg_batches l)[j := f (lg_batches l ! j)] ! n)" if "n < length (lg_batches l)" for n
    using s [OF that] f that by (cases "n = j") auto
  then have "stages_ok (calls w) (l\<lparr>lg_batches := (lg_batches l)[j := f (lg_batches l ! j)]\<rparr>)" by (simp add: stages_ok_def)
  then show ?thesis using assms(1) l r by (auto simp: staged_def world_stages_def has_batch_def w')
qed

lemma stages_update [stage_rules]:
  assumes "\<And>cs b. (k \<Longrightarrow> imported i cs) \<Longrightarrow> stage_ok i cs b \<Longrightarrow> stage_ok i cs (f b)"
  shows "stages_kept k i (update_batch i f)"
  unfolding stages_kept_def contract_def
proof (intro allI impI)
  fix w assume p: "staged k i w"
  obtain r w' where e: "update_batch i f w = (r, w')" by fastforce
  have "stage_ok i (calls w) (f b)" if "stage_ok i (calls w) b" for b
    by (rule assms [OF _ that]) (use p in \<open>simp add: staged_def\<close>)
  from staged_update [OF p e this]
  show "outcome (\<lambda>_. staged k i) (\<lambda>_. staged k i) (staged k i) (update_batch i f w)" by (simp add: e)
qed

lemma stages_update_ledger [stage_rules]:
  "(\<And>l. lg_batches (f l) = lg_batches l) \<Longrightarrow> stages_kept k i (update_ledger f)"
  by (auto simp: stages_kept_def contract_def update_ledger_def staged_def world_stages_def has_batch_def stages_ok_def)

lemma stages_get_batch [stage_rules]: "stages_kept k i (get_batch j)"
  unfolding get_batch_def by (rule stages_get)

lemma stages_remote_root [stage_rules]: "stages_kept k i (remote_run_root cfg)"
  by (auto simp: stages_kept_def contract_def remote_run_root_def split: option.split)

lemma stages_cleanup [stage_rules]: "stages_kept k i (cleanup_remote_job cfg i)"
  unfolding cleanup_remote_job_def by (intro stage_rules) (simp add: stage_ok_def)

lemma stages_assert_baseline [stage_rules]: "stages_kept k i assert_baseline"
  unfolding assert_baseline_def by (intro stage_rules)

lemma stages_read_receipt [stage_rules]: "stages_kept k i (read_valid_receipt cfg i file)"
  unfolding read_valid_receipt_def by (intro stage_rules) (simp add: stage_ok_def)

lemma stages_mark_failed [stage_rules]: "stages_kept k i (mark_batch_failed cfg i receipt)"
  unfolding mark_batch_failed_def by (intro stage_rules) (simp add: stage_ok_def)

lemma stages_record_failure [stage_rules]: "stages_kept k i (record_submission_failure i e)"
  unfolding record_submission_failure_def by (intro stage_rules) (simp add: stage_ok_def)

lemma stages_submit [stage_rules]: "stages_kept k i (submit_batch cfg i)"
  unfolding submit_batch_def submit_job_def announce_batch_def by (intro stage_rules) (simp_all add: stage_ok_def)

lemma stages_query [stage_rules]: "stages_kept k i (query_job_status j job_id)"
  unfolding query_job_status_def by (intro stage_rules) (auto intro: stage_rules split: cexn.split)

lemma stages_finalize [stage_rules]: "stages_kept k i (finalize_run cfg)"
  unfolding finalize_run_def by (intro stage_rules) simp_all

lemma stages_message [stage_rules]: "stages_kept k i (publication_message b)"
  unfolding publication_message_def by (auto intro: stage_rules split: list.split)


section \<open>Import and publication\<close>

lemma staged_weaken: "staged k i w \<Longrightarrow> staged False i w"
  by (simp add: staged_def)

lemma stages_weaken:
  "stages_kept True i m \<Longrightarrow> contract (staged True i) m (\<lambda>_. staged False i) (\<lambda>_. staged False i) (staged False i)"
  unfolding stages_kept_def by (erule contract_conseq) (auto intro: staged_weaken)

lemma import_call:
  "contract (staged False i) (call (ImportFiles i)) (\<lambda>_. staged True i) (\<lambda>_. staged False i) (staged False i)"
proof (rule contract_call)
  fix w r and w' :: ctl_world assume p: "staged False i w" and m: "memory w' = memory w" "ledger_on_disk w' = ledger_on_disk w"
    and c: "calls w' = calls w @ [(ImportFiles i, r)]"
  have s: "staged False i w'" by (rule staged_call [OF p m(1) c]) (simp add: m)
  have "staged True i w'" if "rs_fault r = None"
    using s that by (simp add: staged_def imported_def succeeded_def c)
  then show "case rs_fault r of None \<Rightarrow> staged True i w' | Some (Fails e) \<Rightarrow> staged False i w'
      | Some Ctrl_C \<Rightarrow> staged False i w' | Some Kill \<Rightarrow> staged False i w'"
    using s by (simp split: option.split fault.split)
qed

lemma stages_retrieve: "stages_kept False i (retrieve_batch cfg i state)"
proof -
  have "stages_kept True i (ctl_bind (update_batch i (\<lambda>b. b\<lparr>bt_state := ''ready_to_publish''\<rparr>)) (\<lambda>_. write_ledger ''ready''))"
    by (intro stage_rules) (simp add: stage_ok_def)
  then have imp: "stages_kept False i (ctl_bind (call (ImportFiles i)) (\<lambda>_.
       ctl_bind (update_batch i (\<lambda>b. b\<lparr>bt_state := ''ready_to_publish''\<rparr>)) (\<lambda>_. write_ledger ''ready'')))"
    unfolding stages_kept_def [of False] by (intro contract_bind [OF import_call] stages_weaken)
  show ?thesis unfolding retrieve_batch_def
    by (rule stages_bind [OF stages_call], rule stages_bind [OF stages_read_receipt], rule stages_if, rule imp, intro stage_rules)
qed

definition just_published :: "nat \<Rightarrow> string \<Rightarrow> ctl_world \<Rightarrow> bool" where
  "just_published i commit w \<longleftrightarrow>
     staged True i w \<and> (\<exists>pre p. calls w = pre @ [p] \<and> succeeded p (Publish i) \<and> imported i pre \<and> commit = rs_stdout (snd p))"

lemma publish_call:
  "contract (staged True i) (call (Publish i)) (\<lambda>r. just_published i (rs_stdout r)) (\<lambda>_. staged True i) (staged True i)"
proof (rule contract_call)
  fix w r and w' :: ctl_world assume p: "staged True i w" and m: "memory w' = memory w" "ledger_on_disk w' = ledger_on_disk w"
    and c: "calls w' = calls w @ [(Publish i, r)]"
  have s: "staged True i w'" by (rule staged_call [OF p m(1) c]) (simp add: m)
  have "just_published i (rs_stdout r) w'" if "rs_fault r = None"
    unfolding just_published_def using s p that
    by (intro conjI exI [of _ "calls w"] exI [of _ "(Publish i, r)"]) (simp_all add: c succeeded_def staged_def)
  then show "case rs_fault r of None \<Rightarrow> just_published i (rs_stdout r) w' | Some (Fails e) \<Rightarrow> staged True i w'
      | Some Ctrl_C \<Rightarrow> staged True i w' | Some Kill \<Rightarrow> staged True i w'"
    using s by (simp split: option.split fault.split)
qed

lemma verify_call:
  "contract (just_published i commit) (call (Verify i)) (\<lambda>_ w. staged True i w \<and> verified i (Some commit) (calls w))
     (\<lambda>_. staged True i) (staged True i)"
proof (rule contract_call)
  fix w r and w' :: ctl_world assume p: "just_published i commit w" and m: "memory w' = memory w" "ledger_on_disk w' = ledger_on_disk w"
    and c: "calls w' = calls w @ [(Verify i, r)]"
  obtain pre p where pp: "calls w = pre @ [p]" "succeeded p (Publish i)" "imported i pre" "commit = rs_stdout (snd p)" and w: "staged True i w"
    using p unfolding just_published_def by blast
  have s: "staged True i w'" by (rule staged_call [OF w m(1) c]) (simp add: m)
  have "verified i (Some commit) (calls w')" if "rs_fault r = None"
    unfolding verified_def
    by (rule exI [of _ pre], rule exI [of _ p], rule exI [of _ "(Verify i, r)"], rule exI [of _ "[]"])
      (use pp in \<open>simp add: c succeeded_def that\<close>)
  then show "case rs_fault r of None \<Rightarrow> staged True i w' \<and> verified i (Some commit) (calls w') | Some (Fails e) \<Rightarrow> staged True i w'
      | Some Ctrl_C \<Rightarrow> staged True i w' | Some Kill \<Rightarrow> staged True i w'"
    using s by (simp split: option.split fault.split)
qed (simp add: just_published_def)

lemma mark_published:
  "contract (\<lambda>w. staged True i w \<and> verified i (Some commit) (calls w))
     (update_batch i (\<lambda>b. b\<lparr>bt_state := ''published'', bt_hf_commit := Some commit, bt_error := None\<rparr>))
     (\<lambda>_. staged True i) (\<lambda>_. staged True i) (staged True i)"
  unfolding contract_def
proof (intro allI impI)
  fix w assume p: "staged True i w \<and> verified i (Some commit) (calls w)"
  obtain r w' where e: "update_batch i (\<lambda>b. b\<lparr>bt_state := ''published'', bt_hf_commit := Some commit, bt_error := None\<rparr>) w = (r, w')"
    by fastforce
  have "r = Done () \<and> staged True i w'"
    by (rule staged_update [OF _ e]) (use p in \<open>simp_all add: stage_ok_def\<close>)
  then show "outcome (\<lambda>_. staged True i) (\<lambda>_. staged True i) (staged True i)
      (update_batch i (\<lambda>b. b\<lparr>bt_state := ''published'', bt_hf_commit := Some commit, bt_error := None\<rparr>) w)"
    by (simp add: e)
qed

lemma stages_publish: "stages_kept True i (publish_batch cfg i)"
proof -
  have base: "stages_kept True i (ctl_catch assert_baseline (\<lambda>e.
       ctl_bind (update_batch i (\<lambda>b. b\<lparr>bt_error := Some (exn_name e)\<rparr>)) (\<lambda>_.
       ctl_bind (write_ledger ''baseline'') (\<lambda>_. ctl_raise (RunError ''Protected publication baseline changed'')))))"
    by (intro stage_rules) (simp add: stage_ok_def)
  have upd: "stages_kept True i (update_batch i (\<lambda>b. b\<lparr>bt_state := ''ready_to_publish'', bt_error := Some ''publisher_failure''\<rparr>))"
    by (rule stages_update) (simp add: stage_ok_def)
  have fail': "contract (staged True i) (ctl_bind (update_batch i (\<lambda>b. b\<lparr>bt_state := ''ready_to_publish'', bt_error := Some ''publisher_failure''\<rparr>))
      (\<lambda>_. ctl_bind (write_ledger ''publisher_failure'') (\<lambda>_. ctl_raise e)))
      (\<lambda>commit w. staged True i w \<and> verified i (Some commit) (calls w)) (\<lambda>_. staged True i) (staged True i)" for e
    by (rule contract_bind [OF upd [unfolded stages_kept_def]], rule contract_bind [OF stages_write [unfolded stages_kept_def]], rule contract_raise)
  have body: "contract (staged True i) (ctl_bind (call (Publish i)) (\<lambda>r. ctl_bind (call (Verify i)) (\<lambda>_. ctl_ret (rs_stdout r))))
      (\<lambda>commit w. staged True i w \<and> verified i (Some commit) (calls w)) (\<lambda>_. staged True i) (staged True i)"
    by (rule contract_bind [OF publish_call], rule contract_bind [OF verify_call], rule contract_ret)
  have tail: "stages_kept True i (ctl_bind (write_ledger ''published'') (\<lambda>_. cleanup_remote_job cfg i))"
    by (intro stage_rules)
  show ?thesis unfolding publish_batch_def
    by (rule stages_bind [OF base], rule stages_bind [OF stages_get_batch], rule stages_bind [OF stages_message], unfold stages_kept_def,
        rule contract_bind [OF contract_catch [OF body fail']], rule contract_bind [OF mark_published],
        rule tail [unfolded stages_kept_def])
qed


section \<open>Runs\<close>

lemma stages_poll: "stages_kept False i (poll_job cfg i job_id n)"
proof (induction n)
  case 0
  show ?case by (simp add: stages_kept_def contract_def)
next
  case (Suc n)
  have "stages_kept False i (ctl_bind (query_job_status i job_id) (\<lambda>state.
       if state \<in> set TERMINAL_STATES then retrieve_batch cfg i state
       else ctl_bind (call Sleep) (\<lambda>_. poll_job cfg i job_id n)))"
    by (intro stage_rules stages_retrieve Suc.IH)
  then show ?case by (simp add: stages_kept_def contract_def)
qed

lemma stages_reconcile: "stages_kept False i (reconcile_batch cfg i)"
proof -
  have "stages_kept False i (\<lambda>w. poll_job cfg i (the (bt_job_id b)) (Suc (length (answers w))) w)" for b
    using stages_poll [of i cfg] unfolding stages_kept_def contract_def by blast
  then show ?thesis unfolding reconcile_batch_def by (intro stage_rules)
qed

lemma read_state:
  "contract (staged False i) (get_batch i) (\<lambda>b w. staged False i w \<and> (bt_state b = ''ready_to_publish'' \<longrightarrow> staged True i w)) E B"
  unfolding get_batch_def
  by (rule contract_get) (auto simp: staged_def has_batch_def world_stages_def stages_ok_def stage_ok_def batches_of_def)

lemma stages_publish_ready:
  assumes "s = ''ready_to_publish''"
  shows "contract (\<lambda>w. staged False i w \<and> (s = ''ready_to_publish'' \<longrightarrow> staged True i w)) (publish_batch cfg i)
      (\<lambda>_. staged False i) (\<lambda>_. staged False i) (staged False i)"
  by (rule contract_conseq [OF stages_weaken [OF stages_publish]]) (simp_all add: assms)

lemma stages_publish_if_ready: "stages_kept False i (publish_if_ready cfg i)"
  unfolding publish_if_ready_def stages_kept_def
  by (rule contract_bind [OF read_state], rule contract_if, erule stages_publish_ready, rule contract_ret) simp

lemma stages_process_batch: "stages_kept False i (process_batch cfg i)"
  unfolding process_batch_def Let_def stages_kept_def
proof (rule contract_bind [OF read_state], rule contract_if, rule contract_ret, simp, rule contract_if, erule stages_publish_ready)
  fix b
  have "stages_kept False i (ctl_bind (if bt_state b \<in> set ACTIVE_STATES then reconcile_batch cfg i
                 else if bt_state b = ''planned'' \<or> bt_state b = ''failed''
                 then ctl_bind (submit_batch cfg i) (\<lambda>_. reconcile_batch cfg i)
                 else ctl_raise (RunError ''Batch is in unsupported state'')) (\<lambda>_. publish_if_ready cfg i))"
    by (intro stage_rules stages_reconcile stages_publish_if_ready)
  then show "contract (\<lambda>w. staged False i w \<and> (bt_state b = ''ready_to_publish'' \<longrightarrow> staged True i w))
     (ctl_bind (if bt_state b \<in> set ACTIVE_STATES then reconcile_batch cfg i
                 else if bt_state b = ''planned'' \<or> bt_state b = ''failed''
                 then ctl_bind (submit_batch cfg i) (\<lambda>_. reconcile_batch cfg i)
                 else ctl_raise (RunError ''Batch is in unsupported state'')) (\<lambda>_. publish_if_ready cfg i))
     (\<lambda>_. staged False i) (\<lambda>_. staged False i) (staged False i)"
    unfolding stages_kept_def by (rule contract_conseq) auto
qed

lemma stages_same_batches: "stages_ok cs l \<Longrightarrow> lg_batches l' = lg_batches l \<Longrightarrow> stages_ok (cs @ ds) l'"
  using stages_mono [of cs l ds] by (simp add: stages_ok_def)

lemma same_batches_all: "same_batches {} bs cs \<Longrightarrow> cs = bs"
  by (simp add: same_batches_def list_eq_iff_nth_eq)

lemma world_stages_framed:
  assumes s: "world_stages w" and m: "memory w \<noteq> None" and f: "frame p {} w w'"
  shows "world_stages w'"
proof -
  obtain l where l: "memory w = Some l" using m by blast
  obtain cs where c: "calls w' = calls w @ cs" using f unfolding frame_def by blast
  have ok: "stages_ok (calls w) l" using s l by (simp add: world_stages_def)
  have "lg_batches l' = lg_batches l" if "memory w' = Some l'" for l'
    using f that l same_batches_all unfolding frame_def batches_of_def by fastforce
  moreover have "ledger_on_disk w = Saved l' \<or> lg_batches l' = lg_batches l" if "ledger_on_disk w' = Saved l'" for l'
    using f that l same_batches_all unfolding frame_def batches_of_def by fastforce
  ultimately show ?thesis
    using s stages_same_batches [OF ok] unfolding world_stages_def c by (metis stages_mono)
qed

lemma world_stages_cancel:
  assumes "world_stages w" "memory w \<noteq> None"
  shows "world_stages (snd (update_batch i cancelled w))"
proof -
  obtain l where l: "memory w = Some l" using assms(2) by blast
  have s: "stages_ok (calls w) l" using assms(1) l by (simp add: world_stages_def)
  have "stage_ok n (calls w) ((lg_batches l)[i := cancelled (lg_batches l ! i)] ! n)" if "n < length (lg_batches l)" for n
    using s that by (cases "n = i") (auto simp: stages_ok_def stage_ok_def cancelled_def)
  then have "stages_ok (calls w) (l\<lparr>lg_batches := (lg_batches l)[i := cancelled (lg_batches l ! i)]\<rparr>)"
    by (simp add: stages_ok_def)
  then show ?thesis using assms(1) l by (simp add: world_stages_def update_batch_def update_ledger_def)
qed

lemma world_stages_processed:
  assumes "world_stages w" "has_batch i w" "process_batch cfg i w = (r, w')"
  shows "world_stages w'"
proof -
  have "staged False i w" using assms(1,2) by (simp add: staged_def)
  then have "staged False i w'"
    using contractD [OF stages_process_batch [unfolded stages_kept_def], of i w cfg] by (cases r) (simp_all add: assms(3))
  then show ?thesis by (simp add: staged_def)
qed

lemma world_stages_created: "world_stages w \<Longrightarrow> lg_batches l = map new_batch_record bs \<Longrightarrow> world_stages (w\<lparr>memory := Some l\<rparr>)"
  by (simp add: world_stages_def stages_ok_def stage_ok_def new_batch_record_def)

interpretation stages: controller_invariant world_stages
proof
  show "world_stages w" if "ledger_on_disk w = NoLedger" "calls w = []" "memory w = None" for w :: ctl_world
    using that by (simp add: world_stages_def)
  show "world_stages w'" if "world_stages w" "memory w' = memory w" "ledger_on_disk w' = ledger_on_disk w" "calls w' = calls w"
    for w w' :: ctl_world using that by (simp add: world_stages_def)
  show "world_stages (forget w)" if "world_stages w" for w using that by (simp add: world_stages_def forget_def)
  show "world_stages w'" if "world_stages w" "memory w' = memory w" "ledger_on_disk w' = ledger_on_disk w"
    "calls w' = calls w @ [(ev, r)]" for w w' :: ctl_world and ev r
    using that by (simp add: world_stages_def stages_mono)
  show "world_stages (w\<lparr>memory := Some l'\<rparr>)" if "world_stages w" "ledger_on_disk w = Saved l" "lg_batches l' = lg_batches l" for w l l'
    using that by (simp add: world_stages_def stages_ok_def)
qed (erule (2) world_stages_framed | erule (1) world_stages_created | erule (1) world_stages_cancel | erule (2) world_stages_processed)+

lemma bind_doneE:
  assumes "ctl_bind m f w = (Done u, w')"
  obtains a w1 where "m w = (Done a, w1)" "f a w1 = (Done u, w')"
  using assms by (auto simp: ctl_bind_def split: prod.splits ctl_result.splits)

lemma write_done:
  assumes "write_ledger site w = (Done (), w')"
  shows "\<exists>l. memory w = Some l \<and> memory w' = Some l"
  using assms
proof (cases rule: write_ledger_cases)
  case 1
  then show ?thesis using assms by (simp add: write_ledger_def)
next
  case (2 l r1 w1)
  have "memory w1 = memory w" using call_result [OF 2(2)] by blast
  then show ?thesis using 2 by simp
qed

lemma finalize_done:
  assumes e: "finalize_run cfg w = (Done u, w')" and p: "list_all (\<lambda>b. bt_state b = ''published'') (batches_of w)"
  shows "\<exists>l. memory w' = Some l \<and> lg_cleanup_state l = ''complete'' \<and> list_all (\<lambda>b. bt_state b = ''published'') (lg_batches l)"
proof -
  have f: "frame off_queue {} w w'" by (rule keepsD [OF keeps_finalize e])
  have b: "batches_of w' = batches_of w" using f same_batches_all unfolding frame_def by blast
  have "\<exists>l. memory w' = Some l \<and> lg_cleanup_state l = ''complete''"
  proof (cases "memory w")
    case None
    then show ?thesis using e by (simp add: finalize_run_def ctl_bind_def ctl_get_def ctl_raise_def)
  next
    case (Some l)
    show ?thesis
    proof (cases "lg_cleanup_state l = ''complete''")
      case True
      then show ?thesis using e Some by (simp add: finalize_run_def ctl_bind_def ctl_get_def ctl_ret_def)
    next
      case False
      have "ctl_bind (run_frontend PolicyFinal) (\<lambda>_.
           ctl_bind (update_ledger (\<lambda>l. l\<lparr>lg_cleanup_state := ''pending''\<rparr>)) (\<lambda>_.
           ctl_bind (write_ledger ''finalizing'') (\<lambda>_.
           ctl_bind (remote_run_root cfg) (\<lambda>root.
           ctl_bind (call (RemoveTree root)) (\<lambda>_.
           ctl_bind (update_ledger (\<lambda>l. l\<lparr>lg_cleanup_state := ''complete''\<rparr>)) (\<lambda>_.
             write_ledger ''complete'')))))) w = (Done u, w')"
        using e Some False by (simp add: finalize_run_def ctl_bind_def [of "ctl_get memory"] ctl_get_def)
      then obtain w1 w2 where w1: "update_ledger (\<lambda>l. l\<lparr>lg_cleanup_state := ''complete''\<rparr>) w1 = (Done (), w2)"
          "write_ledger ''complete'' w2 = (Done (), w')"
        by (auto elim!: bind_doneE)
      show ?thesis using write_done [OF w1(2)] w1(1) by (auto simp: update_ledger_def)
    qed
  qed
  then obtain l where "memory w' = Some l" "lg_cleanup_state l = ''complete''" by blast
  then show ?thesis using p b by (simp add: batches_of_def)
qed

lemma run_done:
  assumes "run cfg w = (Done u, w')"
  shows "\<exists>l. memory w' = Some l \<and> lg_cleanup_state l = ''complete'' \<and> list_all (\<lambda>b. bt_state b = ''published'') (lg_batches l)"
proof -
  obtain w1 where "run_batches cfg w1 = (Done u, w')"
    using assms by (auto simp: run_def ctl_bind_def split: prod.splits ctl_result.splits)
  then obtain w2 where "finalize_run cfg w2 = (Done u, w')" "list_all (\<lambda>b. bt_state b = ''published'') (batches_of w2)"
    by (auto simp: run_batches_def ctl_bind_def ctl_get_def ctl_raise_def split: prod.splits ctl_result.splits if_splits)
  then show ?thesis by (rule finalize_done)
qed

text \<open>
  C7. Publication follows verification. In every history of runs a batch that the saved ledger calls
  published was imported after the checks of its receipt, then published and verified by two successive
  calls, and the ledger names that commit. A run that returns normally has published every batch, and
  the call that removes the remote directory of this run has returned, in this process or in an earlier
  one of the same run.
\<close>

theorem published_after_verification:
  assumes "controller_history w"
  shows "(\<forall>l i. ledger_on_disk w = Saved l \<longrightarrow> i < length (lg_batches l) \<longrightarrow> bt_state (lg_batches l ! i) = ''published''
            \<longrightarrow> verified i (bt_hf_commit (lg_batches l ! i)) (calls w))
     \<and> (\<forall>cfg script w'. run cfg (fresh_process cfg script w) = (Done (), w') \<longrightarrow>
          (\<exists>l namespace r. memory w' = Some l \<and> lg_cleanup_state l = ''complete''
             \<and> (RemoveTree (namespace @ ''/'' @ lg_run_id l), r) \<in> set (calls w') \<and> rs_fault r = None
             \<and> (\<forall>i < length (lg_batches l). bt_state (lg_batches l ! i) = ''published''
                  \<and> verified i (bt_hf_commit (lg_batches l ! i)) (calls w'))))"
proof (intro conjI allI impI)
  have s: "world_stages (forget w)" by (rule stages.history_keeps [OF assms])
  show "verified i (bt_hf_commit (lg_batches l ! i)) (calls w)"
    if "ledger_on_disk w = Saved l" "i < length (lg_batches l)" "bt_state (lg_batches l ! i) = ''published''" for l i
    using s that by (auto simp: world_stages_def forget_def stages_ok_def stage_ok_def)
  fix cfg script w' assume e: "run cfg (fresh_process cfg script w) = (Done (), w')"
  have w': "world_stages w'" by (rule stages.run_keep(1) [OF stages.fresh_keep [OF s] _ e]) (simp add: fresh_process_def)
  obtain l where l: "memory w' = Some l" "lg_cleanup_state l = ''complete''" "list_all (\<lambda>b. bt_state b = ''published'') (lg_batches l)"
    using run_done [OF e] by blast
  then have "\<forall>i < length (lg_batches l). bt_state (lg_batches l ! i) = ''published'' \<and> verified i (bt_hf_commit (lg_batches l ! i)) (calls w')"
    using w' by (auto simp: world_stages_def stages_ok_def stage_ok_def list_all_length)
  moreover have "removed (lg_run_id l) (calls w')"
    using run_tidy [OF assms e] l(1,2) by (simp add: tidy_def cleaned_def)
  ultimately show "\<exists>l namespace r. memory w' = Some l \<and> lg_cleanup_state l = ''complete''
             \<and> (RemoveTree (namespace @ ''/'' @ lg_run_id l), r) \<in> set (calls w') \<and> rs_fault r = None
             \<and> (\<forall>i < length (lg_batches l). bt_state (lg_batches l ! i) = ''published''
                  \<and> verified i (bt_hf_commit (lg_batches l ! i)) (calls w'))"
    using l unfolding removed_def by blast
qed


definition sample_receipt :: json where
  "sample_receipt = JObj [(''job_id'', JStr ''7''), (''source_commit'', JStr ''c0''), (''model_id'', JStr ''sat''),
     (''model_revision'', JStr ''main''), (''stems'', JList [JStr ''a-latest'']), (''status'', JStr ''succeeded'')]"

definition complete_script :: "response list" where
  "complete_script = submission_script @
     [ok_reply, ok_reply, ok_reply\<lparr>rs_stdout := ''7: Terminated''\<rparr>, ok_reply\<lparr>rs_receipt := Parsed sample_receipt\<rparr>, ok_reply, ok_reply,
      ok_reply, ok_reply\<lparr>rs_stdout := ''abc''\<rparr>] @ replicate 8 ok_reply"

definition after_complete :: ctl_world where
  "after_complete = snd (run sample_config (fresh_process sample_config complete_script first_world))"

lemma complete_run:
  "fst (run sample_config (fresh_process sample_config complete_script first_world)) = Done ()
   \<and> saved_states after_complete = [''published'']"
  by code_simp

theorem published_after_verification_witness:
  "saved_states after_complete = [''published''] \<and> (\<exists>commit. verified 0 commit (calls after_complete))
   \<and> (\<exists>root r. (RemoveTree root, r) \<in> set (calls after_complete) \<and> rs_fault r = None)"
proof -
  have h: "controller_history first_world" by (rule controller_history.no_run) (simp_all add: first_world_def)
  have h': "controller_history after_complete" unfolding after_complete_def by (rule history_after [OF h])
  obtain l where l: "ledger_on_disk after_complete = Saved l" "map bt_state (lg_batches l) = [''published'']"
    using complete_run by (auto simp: saved_states_def split: ledger_file.splits)
  have "0 < length (lg_batches l)" "bt_state (lg_batches l ! 0) = ''published''" using l(2) by (auto simp: map_eq_Cons_conv)
  then have "\<exists>commit. verified 0 commit (calls after_complete)" using published_after_verification [OF h'] l(1) by blast
  moreover have "run sample_config (fresh_process sample_config complete_script first_world) = (Done (), after_complete)"
    using complete_run unfolding after_complete_def by (metis prod.collapse)
  then have "\<exists>root r. (RemoveTree root, r) \<in> set (calls after_complete) \<and> rs_fault r = None"
    using published_after_verification [OF h] by blast
  ultimately show ?thesis using complete_run by blast
qed

end
