(* ===== verification/Sentence_Checkpoints.thy ===== *)
theory Sentence_Checkpoints
  imports Sentence_Split Grid_Protocol
begin

text \<open>
  The checkpoints of a sentence pass (\<open>v2/sentence_checkpoints.py\<close>): a directory with a metadata file
  and one Parquet file per batch of sections. Parquet files are the rows they hold; a file may be
  unreadable or foreign, or have a readable footer and damaged rows. Every change of the disk is one
  step and consumes the budget of the world; with the budget used up the step fails and the process
  ends there, as it does when it is killed. Temporary files of interrupted writes and the directories
  themselves are not represented; column types are not represented.
\<close>

section \<open>Files and steps\<close>

datatype sentence_file = Unreadable | DamagedRows nat | SentenceRows "srow list"

record checkpoint_dir =
  metadata_file :: text_file
  batch_files :: "(string, sentence_file) dict"

type_synonym region = "string \<times> string"

record sentence_world =
  checkpoint_dirs :: "region \<Rightarrow> checkpoint_dir"
  sentence_files :: "region \<Rightarrow> sentence_file option"
  sentence_manifest :: text_file
  budget :: "nat option"

type_synonym 'a pass = "sentence_world \<Rightarrow> 'a res \<times> sentence_world"

definition pass_bind :: "'a pass \<Rightarrow> ('a \<Rightarrow> 'b pass) \<Rightarrow> 'b pass" where
  "pass_bind m f w = (case m w of (Inl e, w1) \<Rightarrow> (Inl e, w1) | (Inr x, w1) \<Rightarrow> f x w1)"

definition pass_ret :: "'a \<Rightarrow> 'a pass" where
  "pass_ret x w = (Inr x, w)"

definition pass_res :: "'a res \<Rightarrow> 'a pass" where
  "pass_res r w = (r, w)"

definition pass_get :: "(sentence_world \<Rightarrow> 'a res) \<Rightarrow> 'a pass" where
  "pass_get f w = (f w, w)"

definition durable :: "(sentence_world \<Rightarrow> sentence_world) \<Rightarrow> unit pass" where
  "durable f w =
     (case budget w of
        Some 0 \<Rightarrow> (Inl (OSError ''interrupted''), w)
      | Some (Suc n) \<Rightarrow> (Inr (), (f w)\<lparr>budget := Some n\<rparr>)
      | None \<Rightarrow> (Inr (), (f w)\<lparr>budget := None\<rparr>))"

definition update_dir :: "region \<Rightarrow> (checkpoint_dir \<Rightarrow> checkpoint_dir) \<Rightarrow> sentence_world \<Rightarrow> sentence_world" where
  "update_dir key f w = w\<lparr>checkpoint_dirs := (checkpoint_dirs w)(key := f (checkpoint_dirs w key))\<rparr>"

section \<open>The checkpoint of one region and project\<close>

definition SENTENCE_CHECKPOINT_CONTRACT_VERSION :: string where
  "SENTENCE_CHECKPOINT_CONTRACT_VERSION = ''v2-sentence-checkpoints-v1''"

record checkpoint =
  cp_key :: region
  cp_identity :: json
  cp_metadata :: "(string, json) dict"

definition checkpoint_identity :: "region \<Rightarrow> string \<Rightarrow> string \<Rightarrow> string \<Rightarrow> int \<Rightarrow> json" where
  "checkpoint_identity key input_fingerprint model_id model_revision batch_size =
     JObj [(''contract_version'', JStr SENTENCE_CHECKPOINT_CONTRACT_VERSION), (''stem'', JStr (fst key)), (''project'', JStr (snd key)),
       (''input_fingerprint'', JStr input_fingerprint), (''model_id'', JStr model_id), (''model_revision'', JStr model_revision),
       (''batch_size'', JInt batch_size)]"

text \<open>The patterns \<open>batch-*.parquet\<close>, \<open>*.tmp\<close> and \<open>.*.tmp\<close>.\<close>

definition is_batch_name :: "string \<Rightarrow> bool" where
  "is_batch_name name \<longleftrightarrow> py_startswith name ''batch-'' \<and> py_endswith name ''.parquet'' \<and> 14 \<le> length name"

definition is_payload :: "string \<Rightarrow> bool" where
  "is_payload name \<longleftrightarrow> is_batch_name name \<or> py_endswith name ''.tmp''"

definition unlink_payload :: "region \<Rightarrow> string \<Rightarrow> unit pass" where
  "unlink_payload key name = durable (update_dir key (\<lambda>d. d\<lparr>batch_files := AList.delete name (batch_files d)\<rparr>))"

fun unlink_payloads :: "region \<Rightarrow> string list \<Rightarrow> unit pass" where
  "unlink_payloads key [] w = (Inr (), w)"
| "unlink_payloads key (name # names) w = pass_bind (unlink_payload key name) (\<lambda>_. unlink_payloads key names) w"

definition remove_payloads :: "region \<Rightarrow> unit pass" where
  "remove_payloads key w = unlink_payloads key (filter is_payload (map fst (batch_files (checkpoint_dirs w key)))) w"

definition write_metadata :: "region \<Rightarrow> (string, json) dict \<Rightarrow> unit pass" where
  "write_metadata key metadata = durable (update_dir key (\<lambda>d. d\<lparr>metadata_file := write_json (JObj metadata)\<rparr>))"

definition initial_metadata :: "region \<Rightarrow> json \<Rightarrow> (string, json) dict pass" where
  "initial_metadata key identity =
     (let metadata = [(''identity'', identity), (''complete'', JBool False), (''batch_count'', JInt 0), (''row_count'', JInt 0)] in
      pass_bind (write_metadata key metadata) (\<lambda>_. pass_ret metadata))"

definition prepare_checkpoint :: "region \<Rightarrow> json \<Rightarrow> (string, json) dict pass" where
  "prepare_checkpoint key identity w =
     (let fresh = pass_bind (remove_payloads key) (\<lambda>_. initial_metadata key identity) in
      case read_json (metadata_file (checkpoint_dirs w key)) of
        JObj raw \<Rightarrow> if py_json_eq (dict_get raw ''identity'' JNull) identity then (Inr raw, w) else fresh w
      | _ \<Rightarrow> fresh w)"

definition open_checkpoint :: "string \<Rightarrow> string \<Rightarrow> string \<Rightarrow> string \<Rightarrow> string \<Rightarrow> int \<Rightarrow> checkpoint pass" where
  "open_checkpoint stem project input_fingerprint model_id model_revision batch_size =
     pass_bind (pass_res (require_safe_stem stem (ValueError ''Invalid sentence checkpoint stem''))) (\<lambda>_.
     pass_bind (pass_res (guard (project \<in> {''wikipedia'', ''wikivoyage''}) (ValueError ''Unsupported sentence project''))) (\<lambda>_.
     pass_bind (pass_res (guard (1 \<le> batch_size) (ValueError ''batch_size must be positive''))) (\<lambda>_.
     let key = (stem, project); identity = checkpoint_identity key input_fingerprint model_id model_revision batch_size in
     pass_bind (prepare_checkpoint key identity) (\<lambda>metadata.
       pass_ret \<lparr>cp_key = key, cp_identity = identity, cp_metadata = metadata\<rparr>))))"

definition cp_complete :: "checkpoint \<Rightarrow> bool" where
  "cp_complete cp \<longleftrightarrow> json_truthy (dict_get (cp_metadata cp) ''complete'' (JBool False))"

definition batch_path :: "int \<Rightarrow> string res" where
  "batch_path index =
     (if index < 0 then Inl (ValueError ''batch index must be non-negative'')
      else Inr (''batch-'' @ zero_pad 8 (nat index) @ ''.parquet''))"

definition batch_index :: "string \<Rightarrow> int option" where
  "batch_index name =
     (case py_int_str (py_removeprefix (py_removesuffix name ''.parquet'') ''batch-'') of Inl _ \<Rightarrow> None | Inr i \<Rightarrow> Some i)"

fun file_row_count :: "sentence_file option \<Rightarrow> nat option" where
  "file_row_count (Some (SentenceRows rows)) = Some (length rows)"
| "file_row_count (Some (DamagedRows n)) = Some n"
| "file_row_count _ = None"

fun file_rows :: "sentence_file option \<Rightarrow> srow list option" where
  "file_rows (Some (SentenceRows rows)) = Some rows"
| "file_rows _ = None"

definition batch_row_count :: "checkpoint_dir \<Rightarrow> int \<Rightarrow> nat option res" where
  "batch_row_count d index = res_bind (batch_path index) (\<lambda>path. Inr (file_row_count (map_of (batch_files d) path)))"

definition load_batch_table :: "checkpoint_dir \<Rightarrow> int \<Rightarrow> srow list option res" where
  "load_batch_table d index = res_bind (batch_path index) (\<lambda>path. Inr (file_rows (map_of (batch_files d) path)))"

definition completed_batch :: "checkpoint_dir \<Rightarrow> string \<Rightarrow> int list res" where
  "completed_batch d name =
     (case batch_index name of
        None \<Rightarrow> Inr []
      | Some index \<Rightarrow> res_bind (batch_row_count d index) (\<lambda>rows. Inr (if rows = None then [] else [index])))"

definition completed_batches :: "checkpoint_dir \<Rightarrow> int list res" where
  "completed_batches d =
     res_bind (res_map (completed_batch d) (sort (filter is_batch_name (map fst (batch_files d))))) (\<lambda>found. Inr (concat found))"

definition requested_batch_count :: "int option \<Rightarrow> checkpoint \<Rightarrow> int list \<Rightarrow> json" where
  "requested_batch_count requested cp indexes =
     (case requested of
        Some n \<Rightarrow> JInt n
      | None \<Rightarrow>
          if cp_complete cp then dict_get (cp_metadata cp) ''batch_count'' JNull
          else JInt (Max (set (-1 # indexes)) + 1))"

definition validated_batch_indexes :: "int list \<Rightarrow> json \<Rightarrow> int list res" where
  "validated_batch_indexes indexes expected =
     (case expected of
        JInt n \<Rightarrow>
          if n < 0 then Inl (ValueError ''Invalid sentence checkpoint batch count'')
          else if indexes \<noteq> map int [0..<nat n] then Inl (ValueError ''Sentence checkpoint batches are not contiguous'')
          else Inr indexes
      | JBool b \<Rightarrow>
          if indexes \<noteq> map int [0..<(if b then 1 else 0)] then Inl (ValueError ''Sentence checkpoint batches are not contiguous'')
          else Inr indexes
      | _ \<Rightarrow> Inl (ValueError ''Invalid sentence checkpoint batch count''))"

definition load_checkpoint_batch :: "checkpoint_dir \<Rightarrow> int \<Rightarrow> srow list res" where
  "load_checkpoint_batch d index =
     res_bind (load_batch_table d index) (\<lambda>batch.
       case batch of None \<Rightarrow> Inl (ValueError ''Invalid sentence checkpoint batch'') | Some rows \<Rightarrow> Inr rows)"

definition load_checkpoint_rows :: "checkpoint_dir \<Rightarrow> int list \<Rightarrow> srow list res" where
  "load_checkpoint_rows d indexes = res_bind (res_map (load_checkpoint_batch d) indexes) (\<lambda>batches. Inr (concat batches))"

definition load_rows :: "checkpoint \<Rightarrow> int option \<Rightarrow> srow list pass" where
  "load_rows cp batch_count =
     pass_get (\<lambda>w. let d = checkpoint_dirs w (cp_key cp) in
       res_bind (completed_batches d) (\<lambda>indexes.
       res_bind (validated_batch_indexes indexes (requested_batch_count batch_count cp indexes)) (\<lambda>indexes.
         load_checkpoint_rows d indexes)))"

definition normalize_row :: "srow \<Rightarrow> srow" where
  "normalize_row row = map (\<lambda>name. (name, cell_get row name)) SENTENCE_COLUMNS"

definition write_batch :: "checkpoint \<Rightarrow> int \<Rightarrow> srow list \<Rightarrow> checkpoint pass" where
  "write_batch cp index rows =
     pass_bind (pass_res (batch_path index)) (\<lambda>path.
     pass_bind (durable (update_dir (cp_key cp) (\<lambda>d.
         d\<lparr>batch_files := AList.update path (SentenceRows (map normalize_row rows)) (batch_files d)\<rparr>))) (\<lambda>_.
     let metadata = AList.update ''complete'' (JBool False) (cp_metadata cp) in
     pass_bind (write_metadata (cp_key cp) metadata) (\<lambda>_. pass_ret (cp\<lparr>cp_metadata := metadata\<rparr>))))"

text \<open>\<open>pq.read_metadata\<close> raises on a file that cannot be read; its schema is not looked at.\<close>

definition read_row_count :: "checkpoint_dir \<Rightarrow> int \<Rightarrow> nat res" where
  "read_row_count d index =
     res_bind (batch_row_count d index) (\<lambda>n. case n of None \<Rightarrow> Inl (OSError ''Could not open Parquet file'') | Some n \<Rightarrow> Inr n)"

definition mark_complete :: "checkpoint \<Rightarrow> nat \<Rightarrow> nat \<Rightarrow> checkpoint pass" where
  "mark_complete cp batch_count row_count =
     pass_bind (pass_get (\<lambda>w. let d = checkpoint_dirs w (cp_key cp) in
         res_bind (completed_batches d) (\<lambda>indexes.
         res_bind (guard (indexes = map int [0..<batch_count]) (ValueError ''Sentence checkpoint batches are not contiguous'')) (\<lambda>_.
         res_bind (res_map (read_row_count d) indexes) (\<lambda>counts.
           guard (sum_list counts = row_count) (ValueError ''Sentence checkpoint row accounting is invalid'')))))) (\<lambda>_.
     let metadata = AList.update ''row_count'' (JInt (int row_count))
         (AList.update ''batch_count'' (JInt (int batch_count)) (AList.update ''complete'' (JBool True) (cp_metadata cp))) in
     pass_bind (write_metadata (cp_key cp) metadata) (\<lambda>_. pass_ret (cp\<lparr>cp_metadata := metadata\<rparr>)))"

definition finalize_checkpoint :: "checkpoint \<Rightarrow> string \<Rightarrow> string \<Rightarrow> json \<Rightarrow> checkpoint pass" where
  "finalize_checkpoint cp output_path output_hash summary =
     pass_bind (pass_res (guard (cp_complete cp) (ValueError ''Cannot finalize an incomplete sentence checkpoint''))) (\<lambda>_.
     let metadata = AList.update ''summary'' summary (AList.update ''output_hash'' (JStr output_hash)
         (AList.update ''output_path'' (JStr output_path) (cp_metadata cp))) in
     pass_bind (write_metadata (cp_key cp) metadata) (\<lambda>_.
     pass_bind (remove_payloads (cp_key cp)) (\<lambda>_. pass_ret (cp\<lparr>cp_metadata := metadata\<rparr>))))"

definition output_matches :: "checkpoint \<Rightarrow> string \<Rightarrow> string \<Rightarrow> string option \<Rightarrow> bool" where
  "output_matches cp output_path output_hash digest \<longleftrightarrow>
     cp_complete cp \<and> map_of (cp_metadata cp) ''output_path'' = Some (JStr output_path)
     \<and> map_of (cp_metadata cp) ''output_hash'' = Some (JStr output_hash) \<and> digest = Some output_hash"

definition reset_checkpoint :: "checkpoint \<Rightarrow> checkpoint pass" where
  "reset_checkpoint cp =
     pass_bind (remove_payloads (cp_key cp)) (\<lambda>_.
     pass_bind (initial_metadata (cp_key cp) (cp_identity cp)) (\<lambda>metadata. pass_ret (cp\<lparr>cp_metadata := metadata\<rparr>)))"

definition clear_checkpoint :: "checkpoint \<Rightarrow> unit pass" where
  "clear_checkpoint cp =
     pass_bind (remove_payloads (cp_key cp)) (\<lambda>_.
       durable (update_dir (cp_key cp) (\<lambda>d. d\<lparr>metadata_file := Absent\<rparr>)))"

end
