(* ===== verification/Sentence_Runner.thy ===== *)
theory Sentence_Runner
  imports Sentence_Checkpoints
begin

text \<open>
  The resumable sentence pass (\<open>v2/sentence_runner.py\<close>). The tables of sections, the batches in which
  \<open>pyarrow\<close> reads them and the digests of Parquet files are arguments; a digest is a function of the
  content of the file.
\<close>

section \<open>Inputs\<close>

record section_table =
  schema_ok :: bool
  table_rows :: "srow list"

record sentence_env =
  section_tables :: "region \<Rightarrow> section_table option"
  read_batches :: "section_table \<Rightarrow> int \<Rightarrow> srow list list"
  section_digest :: "section_table \<Rightarrow> string"
  sentence_digest :: "sentence_file \<Rightarrow> string"
  output_root :: string
  container_text :: "json \<Rightarrow> string"
  v2_manifest_file :: text_file

record revised_segmenter = segmenter +
  seg_revision :: string

definition plain_segmenter :: "revised_segmenter \<Rightarrow> segmenter" where
  "plain_segmenter seg = segmenter.truncate seg"

definition DEFAULT_SENTENCE_BATCH_SIZE :: int where
  "DEFAULT_SENTENCE_BATCH_SIZE = 256"

definition SENTENCE_SPLIT_CONTRACT_VERSION :: string where
  "SENTENCE_SPLIT_CONTRACT_VERSION = ''v2-sentence-splitting-v1''"

section \<open>Accounting\<close>

record region_summary =
  rs_stem :: string
  rs_project :: string
  rs_sections :: int
  rs_split_sections :: int
  rs_unsplit_sections :: int
  rs_sentence_rows :: int
  rs_supported_languages :: "string list"
  rs_unsupported_languages :: "string list"

record counters =
  ct_sections :: nat
  ct_split_sections :: nat
  ct_unsplit_sections :: nat
  ct_sentence_rows :: nat
  ct_supported_languages :: "string list"
  ct_unsupported_languages :: "string list"

definition new_counters :: counters where
  "new_counters = \<lparr>ct_sections = 0, ct_split_sections = 0, ct_unsplit_sections = 0, ct_sentence_rows = 0,
     ct_supported_languages = [], ct_unsupported_languages = []\<rparr>"

definition add_section :: "srow \<Rightarrow> counters \<Rightarrow> counters" where
  "add_section sec c =
     (let lang = section_language sec; c = c\<lparr>ct_sections := ct_sections c + 1\<rparr> in
      if is_sat_supported_language lang
      then c\<lparr>ct_split_sections := ct_split_sections c + 1, ct_supported_languages := List.insert lang (ct_supported_languages c)\<rparr>
      else c\<lparr>ct_unsplit_sections := ct_unsplit_sections c + 1,
             ct_unsupported_languages := List.insert lang (ct_unsupported_languages c)\<rparr>)"

definition add_sections :: "srow list \<Rightarrow> counters \<Rightarrow> counters" where
  "add_sections sections c = fold add_section sections c"

definition counters_summary :: "region \<Rightarrow> counters \<Rightarrow> region_summary" where
  "counters_summary key c =
     \<lparr>rs_stem = fst key, rs_project = snd key, rs_sections = int (ct_sections c), rs_split_sections = int (ct_split_sections c),
      rs_unsplit_sections = int (ct_unsplit_sections c), rs_sentence_rows = int (ct_sentence_rows c),
      rs_supported_languages = sort (ct_supported_languages c), rs_unsupported_languages = sort (ct_unsupported_languages c)\<rparr>"

definition summary_json :: "region_summary \<Rightarrow> json" where
  "summary_json s =
     JObj [(''stem'', JStr (rs_stem s)), (''project'', JStr (rs_project s)), (''sections'', JInt (rs_sections s)),
       (''split_sections'', JInt (rs_split_sections s)), (''unsplit_sections'', JInt (rs_unsplit_sections s)),
       (''sentence_rows'', JInt (rs_sentence_rows s)), (''supported_languages'', JList (map JStr (rs_supported_languages s))),
       (''unsupported_languages'', JList (map JStr (rs_unsupported_languages s)))]"

text \<open>\<open>tuple(str(value) for value in v)\<close>: lists, strings and dictionaries can be iterated.\<close>

definition json_texts :: "(json \<Rightarrow> string) \<Rightarrow> json \<Rightarrow> string list res" where
  "json_texts container v =
     (case v of
        JList xs \<Rightarrow> Inr (map (json_text container) xs)
      | JStr s \<Rightarrow> Inr (map (\<lambda>c. [c]) s)
      | JObj d \<Rightarrow> Inr (map fst d)
      | _ \<Rightarrow> Inl (TypeError ''object is not iterable''))"

definition read_summary :: "(json \<Rightarrow> string) \<Rightarrow> (string, json) dict \<Rightarrow> region_summary res" where
  "read_summary container raw =
     res_bind (dict_item raw ''stem'') (\<lambda>stem.
     res_bind (dict_item raw ''project'') (\<lambda>project.
     res_bind (res_bind (dict_item raw ''sections'') py_int_json) (\<lambda>sections.
     res_bind (res_bind (dict_item raw ''split_sections'') py_int_json) (\<lambda>split.
     res_bind (res_bind (dict_item raw ''unsplit_sections'') py_int_json) (\<lambda>unsplit.
     res_bind (res_bind (dict_item raw ''sentence_rows'') py_int_json) (\<lambda>rows.
     res_bind (res_bind (dict_item raw ''supported_languages'') (json_texts container)) (\<lambda>langs.
     res_bind (res_bind (dict_item raw ''unsupported_languages'') (json_texts container)) (\<lambda>others.
       Inr \<lparr>rs_stem = json_text container stem, rs_project = json_text container project, rs_sections = sections,
         rs_split_sections = split, rs_unsplit_sections = unsplit, rs_sentence_rows = rows,
         rs_supported_languages = langs, rs_unsupported_languages = others\<rparr>))))))))"

definition summary_from_mapping :: "(json \<Rightarrow> string) \<Rightarrow> (string, json) dict \<Rightarrow> exn \<Rightarrow> region_summary res" where
  "summary_from_mapping container raw err = (case read_summary container raw of Inl _ \<Rightarrow> Inl err | Inr s \<Rightarrow> Inr s)"

definition summary_from_checkpoint :: "(json \<Rightarrow> string) \<Rightarrow> checkpoint \<Rightarrow> region_summary res" where
  "summary_from_checkpoint container cp =
     (case dict_get (cp_metadata cp) ''summary'' JNull of
        JObj raw \<Rightarrow> summary_from_mapping container raw (ValueError ''Completed sentence checkpoint has an invalid summary'')
      | _ \<Rightarrow> Inl (ValueError ''Completed sentence checkpoint has no summary''))"

section \<open>One region and project\<close>

definition sentence_path :: "sentence_env \<Rightarrow> region \<Rightarrow> string" where
  "sentence_path env key = output_root env @ ''/'' @ snd key @ ''/sentences/'' @ fst key @ ''.parquet''"

definition file_digest :: "sentence_env \<Rightarrow> region \<Rightarrow> sentence_world \<Rightarrow> string option" where
  "file_digest env key w = map_option (sentence_digest env) (sentence_files w key)"

definition recorded_output_matches :: "sentence_env \<Rightarrow> checkpoint \<Rightarrow> sentence_world \<Rightarrow> bool" where
  "recorded_output_matches env cp w =
     (case dict_get (cp_metadata cp) ''output_hash'' JNull of
        JStr h \<Rightarrow> output_matches cp (sentence_path env (cp_key cp)) h (file_digest env (cp_key cp) w)
      | _ \<Rightarrow> False)"

fun process_batches_of ::
  "segmenter \<Rightarrow> int \<Rightarrow> nat \<Rightarrow> srow list list \<Rightarrow> checkpoint \<Rightarrow> counters \<Rightarrow> nat \<Rightarrow> (checkpoint \<times> counters \<times> nat \<times> nat) pass" where
  "process_batches_of seg batch_size index [] cp c row_count w = (Inr (cp, c, index, row_count), w)"
| "process_batches_of seg batch_size index (sections # rest) cp c row_count w =
     (let c = add_sections sections c in
      pass_bind (pass_get (\<lambda>w. batch_row_count (checkpoint_dirs w (cp_key cp)) (int index))) (\<lambda>found.
        case found of
          Some n \<Rightarrow> process_batches_of seg batch_size (index + 1) rest cp c (row_count + n)
        | None \<Rightarrow>
            pass_bind (pass_res (split_sections seg batch_size sections)) (\<lambda>(rows, _).
            pass_bind (write_batch cp (int index) rows) (\<lambda>cp.
              process_batches_of seg batch_size (index + 1) rest cp c (row_count + length rows)))) w)"

definition process_source ::
  "sentence_env \<Rightarrow> section_table \<Rightarrow> checkpoint \<Rightarrow> segmenter \<Rightarrow> int \<Rightarrow> (checkpoint \<times> nat \<times> nat \<times> region_summary) pass" where
  "process_source env source cp seg batch_size =
     pass_bind (process_batches_of seg batch_size 0 (read_batches env source batch_size) cp new_counters 0) (\<lambda>(cp, c, batch_count, row_count).
       pass_ret (cp, batch_count, row_count, counters_summary (cp_key cp) (c\<lparr>ct_sentence_rows := row_count\<rparr>)))"

definition write_checkpoint_batches :: "checkpoint \<Rightarrow> nat \<Rightarrow> srow list pass" where
  "write_checkpoint_batches cp batch_count =
     pass_get (\<lambda>w. load_checkpoint_rows (checkpoint_dirs w (cp_key cp)) (map int [0..<batch_count]))"

definition write_output :: "checkpoint \<Rightarrow> nat \<Rightarrow> unit pass" where
  "write_output cp batch_count =
     pass_bind (write_checkpoint_batches cp batch_count) (\<lambda>rows.
       durable (\<lambda>w. w\<lparr>sentence_files := (sentence_files w)(cp_key cp \<mapsto> SentenceRows rows)\<rparr>))"

definition record_output :: "sentence_env \<Rightarrow> checkpoint \<Rightarrow> region_summary \<Rightarrow> region_summary pass" where
  "record_output env cp summary =
     pass_bind (pass_get (\<lambda>w. case file_digest env (cp_key cp) w of None \<Rightarrow> Inl (FileNotFoundError ''No such file'') | Some h \<Rightarrow> Inr h)) (\<lambda>h.
     pass_bind (finalize_checkpoint cp (sentence_path env (cp_key cp)) h (summary_json summary)) (\<lambda>_.
       pass_ret summary))"

definition complete_project :: "sentence_env \<Rightarrow> checkpoint \<times> nat \<times> nat \<times> region_summary \<Rightarrow> region_summary pass" where
  "complete_project env processed =
     (case processed of (cp, batch_count, row_count, summary) \<Rightarrow>
        pass_bind (mark_complete cp batch_count row_count) (\<lambda>cp.
        pass_bind (write_output cp batch_count) (\<lambda>_.
          record_output env cp summary)))"

definition run_project :: "sentence_env \<Rightarrow> string \<Rightarrow> string \<Rightarrow> revised_segmenter \<Rightarrow> int \<Rightarrow> region_summary pass" where
  "run_project env stem project seg batch_size =
     (case section_tables env (stem, project) of
        None \<Rightarrow> pass_res (Inl (FileNotFoundError ''V2 section source is missing''))
      | Some source \<Rightarrow>
          pass_bind (pass_res (guard (schema_ok source) (ValueError ''Unexpected Parquet schema''))) (\<lambda>_.
          pass_bind (open_checkpoint stem project (section_digest env source) (seg_model_id seg) (seg_revision seg) batch_size) (\<lambda>cp.
          pass_bind (pass_get (\<lambda>w. Inr (recorded_output_matches env cp w))) (\<lambda>done_before.
          if done_before then pass_res (summary_from_checkpoint (container_text env) cp)
          else
            pass_bind (process_source env source cp (plain_segmenter seg) batch_size) (\<lambda>processed.
              complete_project env processed)))))"

section \<open>The manifest and the run\<close>

definition manifest_metadata :: "revised_segmenter \<Rightarrow> (string, json) dict" where
  "manifest_metadata seg =
     [(''contract_version'', JStr SENTENCE_SPLIT_CONTRACT_VERSION), (''segmenter'', JStr SAT_MODEL_NAME), (''model_id'', JStr (seg_model_id seg)),
      (''model_revision'', JStr (seg_revision seg)), (''segmenter_version'', JStr (seg_version seg))]"

definition manifest_payload :: "revised_segmenter \<Rightarrow> region_summary list \<Rightarrow> json" where
  "manifest_payload seg summaries =
     JObj (manifest_metadata seg @
       [(''supported_languages'', JList (map JStr SAT_SUPPORTED_LANGUAGES)),
        (''unsupported_languages'', JList (map JStr (sort (remdups (concat (map rs_unsupported_languages summaries)))))),
        (''unsupported_language_policy'', JStr ''one unsplit row; never passed to SaT''),
        (''regions'', JList (map summary_json summaries))])"

definition load_manifest_payload :: "text_file \<Rightarrow> (string, json) dict res" where
  "load_manifest_payload file =
     (case read_json_strict (ValueError ''Invalid sentence manifest'') file of
        Inr (JObj payload) \<Rightarrow> Inr payload
      | _ \<Rightarrow> Inl (ValueError ''Invalid sentence manifest''))"

definition manifest_uses_segmenter :: "(string, json) dict \<Rightarrow> revised_segmenter \<Rightarrow> bool" where
  "manifest_uses_segmenter payload seg \<longleftrightarrow> list_all (\<lambda>(key, value). map_of payload key = Some value) (manifest_metadata seg)"

definition manifest_region_summary :: "(json \<Rightarrow> string) \<Rightarrow> json \<Rightarrow> region_summary res" where
  "manifest_region_summary container region =
     (case region of
        JObj raw \<Rightarrow> summary_from_mapping container raw (ValueError ''Invalid sentence manifest region'')
      | _ \<Rightarrow> Inl (ValueError ''Invalid sentence manifest region''))"

definition load_manifest_summaries :: "(json \<Rightarrow> string) \<Rightarrow> revised_segmenter \<Rightarrow> text_file \<Rightarrow> region_summary list res" where
  "load_manifest_summaries container seg file =
     (if file = Absent then Inr []
      else
        res_bind (load_manifest_payload file) (\<lambda>payload.
        res_bind (guard (manifest_uses_segmenter payload seg) (ValueError ''Sentence manifest uses a different segmenter'')) (\<lambda>_.
        case dict_get payload ''regions'' JNull of
          JList regions \<Rightarrow> res_map (manifest_region_summary container) regions
        | _ \<Rightarrow> Inl (ValueError ''Invalid sentence manifest regions''))))"

definition summary_key :: "region_summary \<Rightarrow> region" where
  "summary_key s = (rs_stem s, rs_project s)"

definition merge_summaries :: "region_summary list \<Rightarrow> region_summary list \<Rightarrow> region_summary list" where
  "merge_summaries recorded new =
     (let merged = fold (\<lambda>s d. AList.update (summary_key s) s d) (recorded @ new) [] in
      map (\<lambda>k. the (map_of merged k)) (sort (map fst merged)))"

definition write_sentence_manifest :: "sentence_env \<Rightarrow> revised_segmenter \<Rightarrow> region_summary list \<Rightarrow> unit pass" where
  "write_sentence_manifest env seg summaries =
     pass_bind (pass_get (\<lambda>w. load_manifest_summaries (container_text env) seg (sentence_manifest w))) (\<lambda>recorded.
       durable (\<lambda>w. w\<lparr>sentence_manifest := write_json (manifest_payload seg (merge_summaries recorded summaries))\<rparr>))"

definition select_stems :: "(string, json) dict \<Rightarrow> string list option \<Rightarrow> string list res" where
  "select_stems manifest stems =
     res_bind (guard (manifest \<noteq> []) (FileNotFoundError ''No finalized V2 regions found'')) (\<lambda>_.
     let selected = sort (remdups (case stems of None \<Rightarrow> map fst manifest | Some ss \<Rightarrow> ss)) in
     res_bind (guard (list_all (\<lambda>s. s \<in> set (map fst manifest)) selected) (ValueError ''Sentence split regions are not finalized in V2'')) (\<lambda>_.
     res_bind (guard (selected \<noteq> []) (ValueError ''At least one V2 region is required'')) (\<lambda>_.
     res_map (\<lambda>s. require_safe_stem s (ValueError ''Invalid V2 stem'')) selected)))"

fun run_regions :: "sentence_env \<Rightarrow> revised_segmenter \<Rightarrow> int \<Rightarrow> string list \<Rightarrow> region_summary list pass" where
  "run_regions env seg batch_size [] w = (Inr [], w)"
| "run_regions env seg batch_size (stem # stems) w =
     pass_bind (run_project env stem ''wikipedia'' seg batch_size) (\<lambda>s.
     pass_bind (if section_tables env (stem, ''wikivoyage'') = None then pass_ret []
                else pass_bind (run_project env stem ''wikivoyage'' seg batch_size) (\<lambda>v. pass_ret [v])) (\<lambda>vs.
     pass_bind (run_regions env seg batch_size stems) (\<lambda>rest. pass_ret (s # vs @ rest)))) w"

definition run_v2_sentence_split :: "sentence_env \<Rightarrow> revised_segmenter \<Rightarrow> int \<Rightarrow> string list option \<Rightarrow> region_summary list pass" where
  "run_v2_sentence_split env seg batch_size stems =
     pass_bind (pass_res (guard (1 \<le> batch_size) (ValueError ''batch_size must be positive''))) (\<lambda>_.
     pass_bind (pass_res (guard (seg_model_id seg = SAT_MODEL_ID) (ValueError ''Only sat-3l-sm is supported by this stage''))) (\<lambda>_.
     pass_bind (pass_res (load_v2_manifest (v2_manifest_file env))) (\<lambda>manifest.
     pass_bind (pass_res (select_stems manifest stems)) (\<lambda>selected.
     pass_bind (run_regions env seg batch_size selected) (\<lambda>summaries.
     pass_bind (write_sentence_manifest env seg summaries) (\<lambda>_.
       pass_ret summaries))))))"

end
