(* ===== verification/Numbered_Names.thy ===== *)
theory Numbered_Names
  imports Prelude
begin

text \<open>
  Files that are numbered by eight digits in their names: the names sort as the numbers do, as long as
  eight digits are enough.
\<close>

definition numbered_name :: "string \<Rightarrow> nat \<Rightarrow> string" where
  "numbered_name prefix k = prefix @ zero_pad 8 k @ ''.parquet''"

text \<open>\<open>int(path.stem.removeprefix(prefix))\<close> for a Parquet file.\<close>

definition name_number :: "string \<Rightarrow> string \<Rightarrow> int res" where
  "name_number prefix name = py_int_str (py_removeprefix (py_removesuffix name ''.parquet'') prefix)"

lemma numbered_name_inject [simp]: "numbered_name prefix j = numbered_name prefix k \<longleftrightarrow> j = k"
  by (simp add: numbered_name_def)

lemma length_zero_pad: "w \<le> length (zero_pad w n)"
  by (simp add: zero_pad_def)

lemma nat_of_digits_Cons: "nat_of_digits (c # s) = digit_val c * 10 ^ length s + nat_of_digits s"
proof -
  have "foldl (\<lambda>acc c. 10 * acc + digit_val c) a s = a * 10 ^ length s + foldl (\<lambda>acc c. 10 * acc + digit_val c) 0 s" for a
  proof (induction s arbitrary: a)
    case (Cons d s)
    show ?case
      using Cons.IH [of "10 * a + digit_val d"] Cons.IH [of "digit_val d"] by (simp add: algebra_simps)
  qed simp
  from this [of "digit_val c"] show ?thesis by (simp add: nat_of_digits_def)
qed

lemma digit_val_less: "py_isdigit c \<Longrightarrow> digit_val c < 10"
  unfolding py_isdigit_def digit_val_def Let_def by linarith

lemma nat_of_digits_less: "\<forall>c\<in>set s. py_isdigit c \<Longrightarrow> nat_of_digits s < 10 ^ length s"
proof (induction s)
  case (Cons c s)
  have "digit_val c * 10 ^ length s + nat_of_digits s < digit_val c * 10 ^ length s + 10 ^ length s"
    using Cons by simp
  also have "\<dots> \<le> 10 * 10 ^ length s"
    using digit_val_less [of c] Cons.prems mult_le_mono1 [of "digit_val c + 1" 10 "10 ^ length s"] by simp
  finally show ?case by (simp add: nat_of_digits_Cons)
qed (simp add: nat_of_digits_def)

lemma digit_order: "py_isdigit c \<Longrightarrow> py_isdigit d \<Longrightarrow> c < d \<longleftrightarrow> digit_val c < digit_val d"
  by (auto simp: py_isdigit_def digit_val_def less_char_def Let_def)

lemma digits_order:
  "length s = length t \<Longrightarrow> \<forall>c\<in>set s. py_isdigit c \<Longrightarrow> \<forall>c\<in>set t. py_isdigit c \<Longrightarrow> nat_of_digits s < nat_of_digits t \<Longrightarrow> s < t"
proof (induction s t rule: list_induct2)
  case (Cons c s d t)
  have b: "nat_of_digits s < 10 ^ length t" "nat_of_digits t < 10 ^ length t"
    using nat_of_digits_less [of s] nat_of_digits_less [of t] Cons by auto
  have less: "digit_val c * 10 ^ length t + nat_of_digits s < digit_val d * 10 ^ length t + nat_of_digits t"
    using Cons.prems(3) Cons.hyps by (simp add: nat_of_digits_Cons)
  have le: "digit_val c \<le> digit_val d"
  proof (rule ccontr)
    assume "\<not> digit_val c \<le> digit_val d"
    then have "(digit_val d + 1) * 10 ^ length t \<le> digit_val c * 10 ^ length t" by (intro mult_le_mono1) simp
    then show False using less b by (simp add: algebra_simps)
  qed
  show ?case
  proof (cases "digit_val c = digit_val d")
    case True
    have d: "py_isdigit c" "py_isdigit d" using Cons.prems by simp_all
    have "\<not> c < d" "\<not> d < c" using digit_order [OF d] digit_order [OF d(2) d(1)] True by simp_all
    then have "c = d" by simp
    then show ?thesis using True Cons.IH Cons.prems less by simp
  next
    case False
    then show ?thesis using le digit_order [of c d] Cons.prems by simp
  qed
qed simp

lemma length_nat_digits: "n < 10 ^ w \<Longrightarrow> 0 < w \<Longrightarrow> length (nat_digits n) \<le> w"
proof (induction w arbitrary: n)
  case (Suc w)
  show ?case
  proof (cases "n < 10")
    case True
    then show ?thesis by (subst nat_digits.simps) simp
  next
    case False
    then have w: "0 < w" using Suc.prems by (cases w) auto
    have "n div 10 < 10 ^ w" using Suc.prems by (simp add: less_mult_imp_div_less mult.commute)
    then show ?thesis using Suc.IH [of "n div 10"] w False by (subst nat_digits.simps) simp
  qed
qed simp

lemma zero_pad_order:
  assumes "j < k" "k < 10 ^ 8"
  shows "zero_pad 8 j < zero_pad 8 k"
proof (rule digits_order)
  have "length (nat_digits j) \<le> 8" "length (nat_digits k) \<le> 8"
    using assms by (auto intro!: length_nat_digits)
  then show "length (zero_pad 8 j) = length (zero_pad 8 k)" by (simp add: zero_pad_def)
  show "\<forall>c\<in>set (zero_pad 8 n). py_isdigit c" for n
    by (auto simp: zero_pad_def py_isdigit_def dest: nat_digits_all_digits)
  then show "\<forall>c\<in>set (zero_pad 8 k). py_isdigit c" .
  show "nat_of_digits (zero_pad 8 j) < nat_of_digits (zero_pad 8 k)" using assms(1) by (simp add: zero_pad_def)
qed

lemma numbered_name_order: "j < k \<Longrightarrow> k < 10 ^ 8 \<Longrightarrow> numbered_name prefix j < numbered_name prefix k"
proof -
  have app: "s @ u < t @ u" if "s < t" "length s = length t" for s t u :: string
    using that(2,1) by (induction s t rule: list_induct2) auto
  assume a: "j < k" "k < 10 ^ 8"
  have "length (nat_digits j) \<le> 8" "length (nat_digits k) \<le> 8"
    using a by (auto intro!: length_nat_digits)
  then have "length (zero_pad 8 j) = length (zero_pad 8 k)" by (simp add: zero_pad_def)
  then have "zero_pad 8 j @ ''.parquet'' < zero_pad 8 k @ ''.parquet''" by (rule app [OF zero_pad_order [OF a]])
  then show "numbered_name prefix j < numbered_name prefix k"
    unfolding numbered_name_def by (induction prefix) auto
qed

lemma sort_numbered_names:
  assumes "distinct names" "set names = numbered_name prefix ` {0..<n}" "n \<le> 10 ^ 8"
  shows "sort names = map (numbered_name prefix) [0..<n]"
proof (rule sorted_distinct_set_unique)
  show "sorted (map (numbered_name prefix) [0..<n])"
    unfolding sorted_wrt_map
    by (rule sorted_wrt_mono_rel [OF _ sorted_wrt_upt]) (use assms(3) in \<open>auto intro!: less_imp_le numbered_name_order\<close>)
qed (use assms in \<open>auto simp: distinct_map inj_on_def\<close>)

lemma py_strip_digits: "\<forall>c\<in>set s. py_isdigit c \<Longrightarrow> py_strip s = s"
  by (rule py_strip_id) (auto dest: isdigit_not_space)

lemma name_number_numbered [simp]: "name_number prefix (numbered_name prefix k) = Inr (int k)"
proof -
  let ?d = "zero_pad 8 k"
  have d: "\<forall>c\<in>set ?d. py_isdigit c" by (auto intro: zero_pad_digits)
  have ne: "?d \<noteq> []" by (simp add: zero_pad_def)
  have "py_removesuffix (numbered_name prefix k) ''.parquet'' = prefix @ ?d"
    unfolding numbered_name_def by (simp only: append_assoc [symmetric] py_removesuffix_append)
  then have name: "py_removeprefix (py_removesuffix (numbered_name prefix k) ''.parquet'') prefix = ?d" by simp
  obtain c t where ct: "?d = c # t" using ne by (cases ?d) auto
  then have "c \<noteq> CHR ''-''" "c \<noteq> CHR ''+''" using d by (auto simp: py_isdigit_def)
  then have "py_int_str ?d = parse_unsigned ?d" using py_strip_digits [OF d] ct by (simp add: py_int_str_def)
  also have "\<dots> = Inr (int (nat_of_digits ?d))"
    using int_digits_ok_digits [OF ne d] d by (simp add: parse_unsigned_def filter_id_conv)
  also have "nat_of_digits ?d = k" by (simp add: zero_pad_def)
  finally show ?thesis by (simp add: name_number_def name)
qed

end
