(* ===== verification/Sentence_Resume.thy ===== *)
theory Sentence_Resume
  imports Sentence_Runner Numbered_Names "HOL-Library.Countable"
begin

text \<open>
  The correctness of the resumable sentence pass: whatever was interrupted before, a pass writes exactly
  the rows of its own source, and it succeeds when it is not interrupted.
\<close>

section \<open>Names of batch files\<close>

abbreviation batch_name :: "nat \<Rightarrow> string" where
  "batch_name \<equiv> numbered_name ''batch-''"

lemma batch_path_nat [simp]: "batch_path (int k) = Inr (batch_name k)"
  by (simp add: batch_path_def numbered_name_def)

lemma is_batch_name_batch_name [simp]: "is_batch_name (batch_name k)"
  using length_zero_pad [of 8 k]
  by (simp add: is_batch_name_def numbered_name_def py_startswith_def py_endswith_def)

lemma is_payload_batch_name [simp]: "is_payload (batch_name k)"
  by (simp add: is_payload_def)

lemma batch_index_batch_name [simp]: "batch_index (batch_name k) = Some (int k)"
  using name_number_numbered [of "''batch-''" k, unfolded name_number_def] by (simp add: batch_index_def)

lemma completed_batches_all:
  assumes "distinct (map fst (batch_files d))" "fst ` set (batch_files d) = batch_name ` {0..<n}" "n \<le> 10 ^ 8"
    and "\<And>k. k < n \<Longrightarrow> file_row_count (map_of (batch_files d) (batch_name k)) \<noteq> None"
  shows "completed_batches d = Inr (map int [0..<n])"
proof -
  have f: "filter is_batch_name (map fst (batch_files d)) = map fst (batch_files d)"
  proof (rule filter_True)
    show "\<forall>x\<in>set (map fst (batch_files d)). is_batch_name x" using assms(2) by (force simp flip: image_set)
  qed
  have s: "sort (map fst (batch_files d)) = map batch_name [0..<n]"
    by (rule sort_numbered_names) (use assms in simp_all)
  have "res_map (completed_batch d) (map batch_name ks) = Inr (map (\<lambda>k. [int k]) ks)" if "set ks \<subseteq> {0..<n}" for ks
    using that assms(4) by (induction ks) (auto simp: completed_batch_def batch_row_count_def)
  from this [of "[0..<n]"] show ?thesis by (simp add: completed_batches_def f s comp_def)
qed


section \<open>What a pass should write\<close>

definition expected_rows :: "revised_segmenter \<Rightarrow> (string \<Rightarrow> string list) \<Rightarrow> srow list \<Rightarrow> srow list" where
  "expected_rows seg split_text sections = map normalize_row (concat (map (section_rows (plain_segmenter seg) split_text) sections))"

definition expected_summary :: "region \<Rightarrow> revised_segmenter \<Rightarrow> (string \<Rightarrow> string list) \<Rightarrow> srow list \<Rightarrow> region_summary" where
  "expected_summary key seg split_text sections =
     counters_summary key ((add_sections sections new_counters)\<lparr>ct_sentence_rows := length (expected_rows seg split_text sections)\<rparr>)"

text \<open>
  What is assumed of the other parts: digests separate files, the batches of a table are its rows in
  order, and the segmenter of a revision splits every text in the same lossless way, whenever and with
  whatever other texts it is asked.
\<close>

definition faithful_inputs ::
  "sentence_env \<Rightarrow> (string \<Rightarrow> revised_segmenter) \<Rightarrow> (string \<Rightarrow> string \<Rightarrow> string list) \<Rightarrow> bool" where
  "faithful_inputs env fam g \<longleftrightarrow>
     inj (section_digest env) \<and> inj (sentence_digest env)
     \<and> (\<forall>source n. 1 \<le> n \<longrightarrow> concat (read_batches env source n) = table_rows source)
     \<and> (\<forall>rev. segments_with (plain_segmenter (fam rev)) (g rev) \<and> seg_model_id (fam rev) = SAT_MODEL_ID \<and> seg_revision (fam rev) = rev)"

text \<open>The parameters of a pass: the source table, the revision of the model and the batch size.\<close>

record pass_input =
  pi_source :: section_table
  pi_revision :: string
  pi_batch_size :: int

definition pass_identity :: "sentence_env \<Rightarrow> region \<Rightarrow> pass_input \<Rightarrow> json" where
  "pass_identity env key p =
     checkpoint_identity key (section_digest env (pi_source p)) SAT_MODEL_ID (pi_revision p) (pi_batch_size p)"

lemma pass_identity_inject:
  assumes "inj (section_digest env)" "py_json_eq (pass_identity env key p) (pass_identity env key q)"
  shows "p = q"
proof -
  have "map_option json_view (map_of [(''contract_version'', JStr SENTENCE_CHECKPOINT_CONTRACT_VERSION), (''stem'', JStr (fst key)), (''project'', JStr (snd key)),
       (''input_fingerprint'', JStr (section_digest env (pi_source p))), (''model_id'', JStr SAT_MODEL_ID), (''model_revision'', JStr (pi_revision p)),
       (''batch_size'', JInt (pi_batch_size p))] k) =
    map_option json_view (map_of [(''contract_version'', JStr SENTENCE_CHECKPOINT_CONTRACT_VERSION), (''stem'', JStr (fst key)), (''project'', JStr (snd key)),
       (''input_fingerprint'', JStr (section_digest env (pi_source q))), (''model_id'', JStr SAT_MODEL_ID), (''model_revision'', JStr (pi_revision q)),
       (''batch_size'', JInt (pi_batch_size q))] k)" for k
    using json_view_fields assms(2) unfolding py_json_eq_def pass_identity_def checkpoint_identity_def by blast
  note f = this [of "''input_fingerprint''"] this [of "''model_revision''"] this [of "''batch_size''"]
  have "section_digest env (pi_source p) = section_digest env (pi_source q)" "pi_revision p = pi_revision q" "pi_batch_size p = pi_batch_size q"
    using f by simp_all
  then show ?thesis using assms(1) by (simp add: inj_eq)
qed

section \<open>The invariant of a checkpoint directory\<close>

definition matches :: "sentence_env \<Rightarrow> region \<Rightarrow> pass_input \<Rightarrow> (string, json) dict \<Rightarrow> bool" where
  "matches env key p raw \<longleftrightarrow> py_json_eq (dict_get raw ''identity'' JNull) (pass_identity env key p)"

definition batch_of :: "sentence_env \<Rightarrow> pass_input \<Rightarrow> nat \<Rightarrow> srow list" where
  "batch_of env p k = read_batches env (pi_source p) (pi_batch_size p) ! k"

definition batch_count_of :: "sentence_env \<Rightarrow> pass_input \<Rightarrow> nat" where
  "batch_count_of env p = length (read_batches env (pi_source p) (pi_batch_size p))"

definition files_ok :: "sentence_env \<Rightarrow> (string \<Rightarrow> revised_segmenter) \<Rightarrow> (string \<Rightarrow> string \<Rightarrow> string list) \<Rightarrow> pass_input
    \<Rightarrow> (string, sentence_file) dict \<Rightarrow> bool" where
  "files_ok env fam g p files \<longleftrightarrow>
     (\<forall>name f. (name, f) \<in> set files \<longrightarrow> (\<exists>k < batch_count_of env p. name = batch_name k
        \<and> f = SentenceRows (expected_rows (fam (pi_revision p)) (g (pi_revision p)) (batch_of env p k))))"

definition the_summary :: "(string \<Rightarrow> revised_segmenter) \<Rightarrow> (string \<Rightarrow> string \<Rightarrow> string list) \<Rightarrow> region \<Rightarrow> pass_input \<Rightarrow> region_summary" where
  "the_summary fam g key p = expected_summary key (fam (pi_revision p)) (g (pi_revision p)) (table_rows (pi_source p))"

definition the_output :: "(string \<Rightarrow> revised_segmenter) \<Rightarrow> (string \<Rightarrow> string \<Rightarrow> string list) \<Rightarrow> pass_input \<Rightarrow> sentence_file" where
  "the_output fam g p = SentenceRows (expected_rows (fam (pi_revision p)) (g (pi_revision p)) (table_rows (pi_source p)))"

definition record_ok :: "sentence_env \<Rightarrow> (string \<Rightarrow> revised_segmenter) \<Rightarrow> (string \<Rightarrow> string \<Rightarrow> string list) \<Rightarrow> region \<Rightarrow> pass_input
    \<Rightarrow> (string, json) dict \<Rightarrow> bool" where
  "record_ok env fam g key p raw \<longleftrightarrow>
     (\<forall>h. map_of raw ''output_hash'' = Some (JStr h) \<longrightarrow>
        h = sentence_digest env (the_output fam g p)
        \<and> (\<exists>v\<in>{summary_json (the_summary fam g key p), jsort (summary_json (the_summary fam g key p))}. map_of raw ''summary'' = Some v))"

definition names_ok :: "(string, sentence_file) dict \<Rightarrow> bool" where
  "names_ok files \<longleftrightarrow> distinct (map fst files) \<and> (\<forall>name\<in>fst ` set files. \<exists>k. name = batch_name k)"

definition dir_ok :: "sentence_env \<Rightarrow> (string \<Rightarrow> revised_segmenter) \<Rightarrow> (string \<Rightarrow> string \<Rightarrow> string list) \<Rightarrow> region \<Rightarrow> checkpoint_dir \<Rightarrow> bool" where
  "dir_ok env fam g key d \<longleftrightarrow>
     names_ok (batch_files d)
     \<and> (\<forall>raw p. read_json (metadata_file d) = JObj raw \<longrightarrow> matches env key p raw \<longrightarrow>
          files_ok env fam g p (batch_files d) \<and> record_ok env fam g key p raw)"

definition all_dirs_ok :: "sentence_env \<Rightarrow> (string \<Rightarrow> revised_segmenter) \<Rightarrow> (string \<Rightarrow> string \<Rightarrow> string list) \<Rightarrow> sentence_world \<Rightarrow> bool" where
  "all_dirs_ok env fam g w \<longleftrightarrow> (\<forall>key. dir_ok env fam g key (checkpoint_dirs w key))"

text \<open>What is written to the metadata file is read back with sorted keys.\<close>

lemma summary_keys_sorted:
  "sort [''stem'', ''project'', ''sections'', ''split_sections'', ''unsplit_sections'', ''sentence_rows'', ''supported_languages'', ''unsupported_languages'']
   = [''project'', ''sections'', ''sentence_rows'', ''split_sections'', ''stem'', ''supported_languages'', ''unsplit_sections'', ''unsupported_languages'']"
  by code_simp

lemma jsort_string_list: "jsort (JList (map JStr xs)) = JList (map JStr xs)"
  by (simp add: comp_def)

lemma jsort_summary:
  "jsort (summary_json s) =
     JObj [(''project'', JStr (rs_project s)), (''sections'', JInt (rs_sections s)), (''sentence_rows'', JInt (rs_sentence_rows s)),
       (''split_sections'', JInt (rs_split_sections s)), (''stem'', JStr (rs_stem s)),
       (''supported_languages'', JList (map JStr (rs_supported_languages s))), (''unsplit_sections'', JInt (rs_unsplit_sections s)),
       (''unsupported_languages'', JList (map JStr (rs_unsupported_languages s)))]"
  by (simp add: summary_json_def sorted_entries_def summary_keys_sorted comp_def)

lemma jsort_summary_idem: "jsort (jsort (summary_json s)) = jsort (summary_json s)"
proof -
  have "sort [''project'', ''sections'', ''sentence_rows'', ''split_sections'', ''stem'', ''supported_languages'', ''unsplit_sections'', ''unsupported_languages'']
   = [''project'', ''sections'', ''sentence_rows'', ''split_sections'', ''stem'', ''supported_languages'', ''unsplit_sections'', ''unsupported_languages'']"
    by code_simp
  then show ?thesis unfolding jsort_summary by (simp add: sorted_entries_def comp_def)
qed

lemma read_summary_json:
  "v \<in> {summary_json s, jsort (summary_json s)} \<Longrightarrow> \<exists>raw. v = JObj raw \<and> read_summary container raw = Inr s"
  unfolding jsort_summary unfolding summary_json_def
  by (auto simp: read_summary_def dict_item_def py_int_json_def json_texts_def json_text_def comp_def)

lemma matches_reread: "matches env key p (reread raw) \<longleftrightarrow> matches env key p raw"
  by (simp add: matches_def py_json_eq_def dict_get_def map_of_reread view_jsort split: option.split)

lemma jsort_JStr: "jsort v = JStr h \<longleftrightarrow> v = JStr h"
  by (cases v) auto

lemma record_reread:
  assumes "record_ok env fam g key p raw"
  shows "record_ok env fam g key p (reread raw)"
  unfolding record_ok_def
proof (intro allI impI)
  fix h assume "map_of (reread raw) ''output_hash'' = Some (JStr h)"
  then have "map_of raw ''output_hash'' = Some (JStr h)" by (auto simp: map_of_reread jsort_JStr)
  then show "h = sentence_digest env (the_output fam g p)
      \<and> (\<exists>v\<in>{summary_json (the_summary fam g key p), jsort (summary_json (the_summary fam g key p))}. map_of (reread raw) ''summary'' = Some v)"
    using assms unfolding record_ok_def by (auto simp: map_of_reread jsort_summary_idem)
qed


section \<open>Contracts of the steps\<close>

text \<open>A computation fails only where the budget ends, and then \<open>E\<close> holds.\<close>

fun pass_outcome :: "(sentence_world \<Rightarrow> bool) \<Rightarrow> ('a \<Rightarrow> sentence_world \<Rightarrow> bool) \<Rightarrow> 'a res \<times> sentence_world \<Rightarrow> bool" where
  "pass_outcome E Q (Inr a, w) = Q a w"
| "pass_outcome E Q (Inl e, w) = (E w \<and> budget w = Some 0)"

definition pass_contract :: "(sentence_world \<Rightarrow> bool) \<Rightarrow> (sentence_world \<Rightarrow> bool) \<Rightarrow> 'a pass \<Rightarrow> ('a \<Rightarrow> sentence_world \<Rightarrow> bool) \<Rightarrow> bool" where
  "pass_contract E P m Q \<longleftrightarrow> (\<forall>w. P w \<longrightarrow> pass_outcome E Q (m w))"

lemma pass_contractD: "pass_contract E P m Q \<Longrightarrow> P w \<Longrightarrow> pass_outcome E Q (m w)"
  unfolding pass_contract_def by blast

lemma pass_contractI: "(\<And>w. P w \<Longrightarrow> pass_outcome E Q (m w)) \<Longrightarrow> pass_contract E P m Q"
  unfolding pass_contract_def by blast

lemma pass_contract_bind:
  assumes "pass_contract E P m R" "\<And>a. pass_contract E (R a) (f a) Q"
  shows "pass_contract E P (pass_bind m f) Q"
proof (rule pass_contractI)
  fix w assume "P w"
  then have o: "pass_outcome E R (m w)" by (rule pass_contractD [OF assms(1)])
  obtain r w1 where m: "m w = (r, w1)" by fastforce
  show "pass_outcome E Q (pass_bind m f w)"
    using o pass_contractD [OF assms(2)] by (cases r) (simp_all add: pass_bind_def m)
qed

lemma pass_outcome_mono: "pass_outcome E Q' x \<Longrightarrow> (\<And>a w. Q' a w \<Longrightarrow> Q a w) \<Longrightarrow> pass_outcome E Q x"
  by (cases x; cases "fst x") auto

lemma pass_bind_res: "pass_bind (pass_res (Inr x)) f = f x"
  by (rule ext) (simp add: pass_bind_def pass_res_def)

lemma pass_contract_conseq:
  assumes "pass_contract E P' m Q'" "\<And>w. P w \<Longrightarrow> P' w" "\<And>a w. Q' a w \<Longrightarrow> Q a w"
  shows "pass_contract E P m Q"
  by (rule pass_contractI, rule pass_outcome_mono [OF pass_contractD [OF assms(1)]]) (erule assms(2), erule assms(3))

lemma pass_contract_vacuous: "(\<And>w. \<not> P w) \<Longrightarrow> pass_contract E P m Q"
  by (simp add: pass_contract_def)

lemma pass_contract_ret: "(\<And>w. P w \<Longrightarrow> Q a w) \<Longrightarrow> pass_contract E P (pass_ret a) Q"
  by (simp add: pass_contract_def pass_ret_def)

lemma pass_contract_res: "(\<And>w. P w \<Longrightarrow> \<exists>a. r = Inr a \<and> Q a w) \<Longrightarrow> pass_contract E P (pass_res r) Q"
  by (rule pass_contractI) (fastforce simp: pass_res_def)

lemma pass_contract_get: "(\<And>w. P w \<Longrightarrow> \<exists>a. f w = Inr a \<and> Q a w) \<Longrightarrow> pass_contract E P (pass_get f) Q"
  by (rule pass_contractI) (fastforce simp: pass_get_def)

lemma pass_contract_durable:
  assumes "\<And>w b. P w \<Longrightarrow> Q () ((f w)\<lparr>budget := b\<rparr>)" "\<And>w. P w \<Longrightarrow> E w"
  shows "pass_contract E P (durable f) Q"
  by (rule pass_contractI) (use assms in \<open>simp add: durable_def split: option.split nat.split\<close>)

definition on_dir :: "sentence_env \<Rightarrow> (string \<Rightarrow> revised_segmenter) \<Rightarrow> (string \<Rightarrow> string \<Rightarrow> string list) \<Rightarrow> region
    \<Rightarrow> (checkpoint_dir \<Rightarrow> bool) \<Rightarrow> sentence_world \<Rightarrow> bool" where
  "on_dir env fam g key P w \<longleftrightarrow> all_dirs_ok env fam g w \<and> P (checkpoint_dirs w key)"

lemma on_dir_update:
  assumes "on_dir env fam g key P w" "\<And>d. dir_ok env fam g key d \<Longrightarrow> P d \<Longrightarrow> dir_ok env fam g key (f d) \<and> R (f d)"
  shows "on_dir env fam g key R ((update_dir key f w)\<lparr>budget := b\<rparr>)"
proof -
  have "dir_ok env fam g key (checkpoint_dirs w key)" "P (checkpoint_dirs w key)"
    using assms(1) unfolding on_dir_def all_dirs_ok_def by blast+
  from assms(2) [OF this] show ?thesis
    using assms(1) by (auto simp: on_dir_def all_dirs_ok_def update_dir_def)
qed

lemma durable_dir:
  assumes "\<And>d. dir_ok env fam g key d \<Longrightarrow> P d \<Longrightarrow> dir_ok env fam g key (f d) \<and> R (f d)"
  shows "pass_contract (all_dirs_ok env fam g) (on_dir env fam g key P) (durable (update_dir key f)) (\<lambda>_. on_dir env fam g key R)"
  by (rule pass_contract_durable, erule on_dir_update, erule (1) assms) (simp add: on_dir_def)

text \<open>Removing files keeps every directory sound, and removes everything.\<close>

lemma names_delete: "names_ok files \<Longrightarrow> names_ok (AList.delete name files)"
  unfolding names_ok_def AList.delete_eq by (auto simp: distinct_map_filter)

lemma delete_set_subset: "set (AList.delete name files) \<subseteq> set files"
  by (auto simp: AList.delete_eq)

lemma dir_ok_delete: "dir_ok env fam g key d \<Longrightarrow> dir_ok env fam g key (d\<lparr>batch_files := AList.delete name (batch_files d)\<rparr>)"
  unfolding dir_ok_def files_ok_def by (simp add: names_delete) (meson delete_set_subset subsetD)

lemma unlink_payloads_ok:
  assumes P: "\<And>d files. P d \<Longrightarrow> P (d\<lparr>batch_files := files\<rparr>)"
  shows "pass_contract (all_dirs_ok env fam g) (on_dir env fam g key (\<lambda>d. P d \<and> fst ` set (batch_files d) \<subseteq> set names))
     (unlink_payloads key names) (\<lambda>_. on_dir env fam g key (\<lambda>d. P d \<and> batch_files d = []))"
proof (induction names)
  case Nil
  show ?case by (simp add: pass_contract_def on_dir_def)
next
  case (Cons name names)
  have step: "pass_contract (all_dirs_ok env fam g) (on_dir env fam g key (\<lambda>d. P d \<and> fst ` set (batch_files d) \<subseteq> set (name # names)))
      (unlink_payload key name) (\<lambda>_. on_dir env fam g key (\<lambda>d. P d \<and> fst ` set (batch_files d) \<subseteq> set names))"
    unfolding unlink_payload_def
  proof (rule durable_dir)
    fix d assume d: "dir_ok env fam g key d" "P d \<and> fst ` set (batch_files d) \<subseteq> set (name # names)"
    have "fst ` set (AList.delete name (batch_files d)) \<subseteq> set names" using d(2) by (auto simp: AList.delete_eq)
    then show "dir_ok env fam g key (d\<lparr>batch_files := AList.delete name (batch_files d)\<rparr>)
        \<and> P (d\<lparr>batch_files := AList.delete name (batch_files d)\<rparr>)
        \<and> fst ` set (batch_files (d\<lparr>batch_files := AList.delete name (batch_files d)\<rparr>)) \<subseteq> set names"
      using dir_ok_delete [OF d(1)] P d(2) by simp
  qed
  have "pass_contract (all_dirs_ok env fam g) (on_dir env fam g key (\<lambda>d. P d \<and> fst ` set (batch_files d) \<subseteq> set (name # names)))
      (pass_bind (unlink_payload key name) (\<lambda>_. unlink_payloads key names)) (\<lambda>_. on_dir env fam g key (\<lambda>d. P d \<and> batch_files d = []))"
    by (rule pass_contract_bind [OF step Cons.IH])
  then show ?case by (simp add: pass_contract_def)
qed

lemma remove_payloads_ok:
  assumes P: "\<And>d files. P d \<Longrightarrow> P (d\<lparr>batch_files := files\<rparr>)"
  shows "pass_contract (all_dirs_ok env fam g) (on_dir env fam g key P) (remove_payloads key)
     (\<lambda>_. on_dir env fam g key (\<lambda>d. P d \<and> batch_files d = []))"
proof (rule pass_contractI)
  fix w assume w: "on_dir env fam g key P w"
  let ?d = "checkpoint_dirs w key"
  have "dir_ok env fam g key ?d" using w unfolding on_dir_def all_dirs_ok_def by blast
  then have f: "filter is_payload (map fst (batch_files ?d)) = map fst (batch_files ?d)"
    by (intro filter_True) (force simp: dir_ok_def names_ok_def)
  have "on_dir env fam g key (\<lambda>d. P d \<and> fst ` set (batch_files d) \<subseteq> set (map fst (batch_files ?d))) w"
    using w by (simp add: on_dir_def)
  from pass_contractD [OF unlink_payloads_ok [of P, OF P] this]
  show "pass_outcome (all_dirs_ok env fam g) (\<lambda>_. on_dir env fam g key (\<lambda>d. P d \<and> batch_files d = [])) (remove_payloads key w)"
    by (simp add: remove_payloads_def f)
qed


section \<open>Opening a checkpoint\<close>

definition in_pass :: "sentence_env \<Rightarrow> region \<Rightarrow> pass_input \<Rightarrow> checkpoint_dir \<Rightarrow> bool" where
  "in_pass env key p d \<longleftrightarrow> (\<exists>raw. read_json (metadata_file d) = JObj raw \<and> matches env key p raw)"

text \<open>The object in memory and the directory belong to the pass.\<close>

definition holds_pass :: "sentence_env \<Rightarrow> (string \<Rightarrow> revised_segmenter) \<Rightarrow> (string \<Rightarrow> string \<Rightarrow> string list) \<Rightarrow> region \<Rightarrow> pass_input
    \<Rightarrow> (string, json) dict \<Rightarrow> bool" where
  "holds_pass env fam g key p raw \<longleftrightarrow> matches env key p raw \<and> record_ok env fam g key p raw"

lemma in_pass_files:
  assumes "dir_ok env fam g key d" "in_pass env key p d"
  shows "files_ok env fam g p (batch_files d)" and "names_ok (batch_files d)"
  using assms unfolding dir_ok_def in_pass_def by blast+

text \<open>A directory with sound files keeps its soundness under a metadata file of the pass.\<close>

lemma dir_ok_metadata:
  assumes inj: "inj (section_digest env)" and raw: "holds_pass env fam g key p raw"
    and files: "names_ok (batch_files d)" "files_ok env fam g p (batch_files d)"
  shows "dir_ok env fam g key (d\<lparr>metadata_file := write_json (JObj raw)\<rparr>) \<and> in_pass env key p (d\<lparr>metadata_file := write_json (JObj raw)\<rparr>)"
proof -
  have m: "matches env key p (reread raw)" and r: "record_ok env fam g key p (reread raw)"
    using raw by (simp_all add: holds_pass_def matches_reread record_reread)
  have same: "q = p" if "matches env key q (reread raw)" for q
    by (rule pass_identity_inject [OF inj, of key]) (use m that in \<open>simp add: matches_def py_json_eq_def\<close>)
  have "files_ok env fam g q (batch_files d) \<and> record_ok env fam g key q (reread raw)" if "matches env key q (reread raw)" for q
    unfolding same [OF that] using files(2) r by blast
  then show ?thesis using files(1) m unfolding dir_ok_def in_pass_def by (simp add: read_written)
qed

lemma write_metadata_ok:
  assumes inj: "inj (section_digest env)" and raw: "holds_pass env fam g key p raw"
    and P: "\<And>d m. P d \<Longrightarrow> P (d\<lparr>metadata_file := m\<rparr>)"
  shows "pass_contract (all_dirs_ok env fam g) (on_dir env fam g key (\<lambda>d. in_pass env key p d \<and> P d)) (write_metadata key raw)
      (\<lambda>_. on_dir env fam g key (\<lambda>d. in_pass env key p d \<and> P d))"
  unfolding write_metadata_def
proof (rule durable_dir)
  fix d assume d: "dir_ok env fam g key d" "in_pass env key p d \<and> P d"
  show "dir_ok env fam g key (d\<lparr>metadata_file := write_json (JObj raw)\<rparr>)
      \<and> in_pass env key p (d\<lparr>metadata_file := write_json (JObj raw)\<rparr>) \<and> P (d\<lparr>metadata_file := write_json (JObj raw)\<rparr>)"
    using dir_ok_metadata [OF inj raw in_pass_files(2) [of env fam g key d p] in_pass_files(1) [of env fam g key d p]] d P by blast
qed

definition first_metadata :: "json \<Rightarrow> (string, json) dict" where
  "first_metadata identity = [(''identity'', identity), (''complete'', JBool False), (''batch_count'', JInt 0), (''row_count'', JInt 0)]"

lemma first_metadata_holds: "holds_pass env fam g key p (first_metadata (pass_identity env key p))"
  by (simp add: holds_pass_def matches_def record_ok_def first_metadata_def py_json_eq_def dict_get_def)

lemma initial_metadata_ok:
  assumes inj: "inj (section_digest env)"
  shows "pass_contract (all_dirs_ok env fam g) (on_dir env fam g key (\<lambda>d. batch_files d = [])) (initial_metadata key (pass_identity env key p))
     (\<lambda>raw w. holds_pass env fam g key p raw \<and> on_dir env fam g key (in_pass env key p) w)"
proof -
  have "pass_contract (all_dirs_ok env fam g) (on_dir env fam g key (\<lambda>d. batch_files d = []))
      (write_metadata key (first_metadata (pass_identity env key p))) (\<lambda>_. on_dir env fam g key (in_pass env key p))"
    unfolding write_metadata_def
  proof (rule durable_dir)
    fix d :: checkpoint_dir assume "batch_files d = []"
    then show "dir_ok env fam g key (d\<lparr>metadata_file := write_json (JObj (first_metadata (pass_identity env key p)))\<rparr>)
        \<and> in_pass env key p (d\<lparr>metadata_file := write_json (JObj (first_metadata (pass_identity env key p)))\<rparr>)"
      by (intro dir_ok_metadata [OF inj first_metadata_holds]) (simp_all add: names_ok_def files_ok_def)
  qed
  then show ?thesis
    unfolding initial_metadata_def Let_def first_metadata_def [symmetric]
    by (rule pass_contract_bind) (rule pass_contract_ret, simp add: first_metadata_holds)
qed

lemma prepare_ok:
  assumes inj: "inj (section_digest env)"
  shows "pass_contract (all_dirs_ok env fam g) (all_dirs_ok env fam g) (prepare_checkpoint key (pass_identity env key p))
     (\<lambda>raw w. holds_pass env fam g key p raw \<and> on_dir env fam g key (in_pass env key p) w)" (is "pass_contract ?E _ _ ?Q")
proof (rule pass_contractI)
  fix w assume w: "all_dirs_ok env fam g w"
  let ?fresh = "pass_bind (remove_payloads key) (\<lambda>_. initial_metadata key (pass_identity env key p))"
  have "pass_contract ?E (on_dir env fam g key (\<lambda>_. True)) ?fresh ?Q"
  proof (rule pass_contract_bind [OF remove_payloads_ok [of "\<lambda>_. True"]])
    show "pass_contract ?E (on_dir env fam g key (\<lambda>d. True \<and> batch_files d = [])) (initial_metadata key (pass_identity env key p)) ?Q"
      using initial_metadata_ok [OF inj] by simp
  qed simp
  then have fresh: "pass_outcome ?E ?Q (?fresh w)" by (rule pass_contractD) (simp add: on_dir_def w)
  have known: "pass_outcome ?E ?Q (Inr raw, w)"
    if "read_json (metadata_file (checkpoint_dirs w key)) = JObj raw" "py_json_eq (dict_get raw ''identity'' JNull) (pass_identity env key p)" for raw
  proof -
    have m: "matches env key p raw" using that(2) by (simp add: matches_def)
    have "dir_ok env fam g key (checkpoint_dirs w key)" using w unfolding all_dirs_ok_def by blast
    then have "record_ok env fam g key p raw" using that(1) m unfolding dir_ok_def by blast
    then show ?thesis using m that(1) w by (auto simp: holds_pass_def on_dir_def in_pass_def)
  qed
  show "pass_outcome ?E ?Q (prepare_checkpoint key (pass_identity env key p) w)"
    using fresh known by (cases "read_json (metadata_file (checkpoint_dirs w key))") (simp_all add: prepare_checkpoint_def Let_def)
qed


section \<open>Processing the batches\<close>

abbreviation batch_rows :: "(string \<Rightarrow> revised_segmenter) \<Rightarrow> (string \<Rightarrow> string \<Rightarrow> string list) \<Rightarrow> pass_input \<Rightarrow> srow list \<Rightarrow> srow list" where
  "batch_rows fam g p \<equiv> expected_rows (fam (pi_revision p)) (g (pi_revision p))"

definition written :: "sentence_env \<Rightarrow> (string \<Rightarrow> revised_segmenter) \<Rightarrow> (string \<Rightarrow> string \<Rightarrow> string list) \<Rightarrow> pass_input \<Rightarrow> nat \<Rightarrow> checkpoint_dir \<Rightarrow> bool" where
  "written env fam g p n d \<longleftrightarrow>
     (\<forall>k < n. map_of (batch_files d) (batch_name k) = Some (SentenceRows (batch_rows fam g p (batch_of env p k))))"

lemma expected_append: "expected_rows seg split_text (xs @ ys) = expected_rows seg split_text xs @ expected_rows seg split_text ys"
  by (simp add: expected_rows_def)

lemma expected_concat: "expected_rows seg split_text (concat bs) = concat (map (expected_rows seg split_text) bs)"
  by (induction bs) (simp_all add: expected_append, simp add: expected_rows_def)

lemma add_sections_append: "add_sections (xs @ ys) c = add_sections ys (add_sections xs c)"
  by (simp add: add_sections_def)

lemma holds_update:
  assumes "k \<notin> {''identity'', ''output_hash'', ''summary''}"
  shows "holds_pass env fam g key p (AList.update k v raw) \<longleftrightarrow> holds_pass env fam g key p raw"
  using assms by (auto simp: holds_pass_def matches_def record_ok_def dict_get_def update_conv')

lemma names_update: "names_ok files \<Longrightarrow> names_ok (AList.update (batch_name k) f files)"
  by (auto simp: names_ok_def distinct_update dom_update)

lemma dir_ok_write:
  assumes inj: "inj (section_digest env)" and d: "dir_ok env fam g key d" "in_pass env key p d" and k: "k < batch_count_of env p"
  shows "dir_ok env fam g key (d\<lparr>batch_files := AList.update (batch_name k) (SentenceRows (batch_rows fam g p (batch_of env p k))) (batch_files d)\<rparr>)"
proof -
  let ?files = "AList.update (batch_name k) (SentenceRows (batch_rows fam g p (batch_of env p k))) (batch_files d)"
  have sub: "set ?files \<subseteq> insert (batch_name k, SentenceRows (batch_rows fam g p (batch_of env p k))) (set (batch_files d))"
    by (rule set_AList_update)
  have "\<exists>j < batch_count_of env p. name = batch_name j \<and> f = SentenceRows (batch_rows fam g p (batch_of env p j))" if "(name, f) \<in> set ?files" for name f
    using that sub in_pass_files(1) [OF d] k unfolding files_ok_def by fastforce
  then have files: "files_ok env fam g p ?files" unfolding files_ok_def by blast
  obtain raw where raw: "read_json (metadata_file d) = JObj raw" "matches env key p raw" using d(2) unfolding in_pass_def by blast
  have "files_ok env fam g q ?files \<and> record_ok env fam g key q raw" if "matches env key q raw" for q
  proof -
    have "q = p" by (rule pass_identity_inject [OF inj, of key]) (use raw(2) that in \<open>simp add: matches_def py_json_eq_def\<close>)
    then show ?thesis using files d(1) raw that unfolding dir_ok_def by blast
  qed
  then show ?thesis using names_update [OF in_pass_files(2) [OF d]] raw(1) by (simp add: dir_ok_def)
qed

lemma write_batch_ok:
  assumes inj: "inj (section_digest env)" and cp: "cp_key cp = key" "holds_pass env fam g key p (cp_metadata cp)"
    and k: "k < batch_count_of env p" and rows: "map normalize_row rows = batch_rows fam g p (batch_of env p k)"
  shows "pass_contract (all_dirs_ok env fam g) (on_dir env fam g key (\<lambda>d. in_pass env key p d \<and> written env fam g p k d))
      (write_batch cp (int k) rows)
      (\<lambda>cp' w. cp_key cp' = key \<and> holds_pass env fam g key p (cp_metadata cp')
         \<and> on_dir env fam g key (\<lambda>d. in_pass env key p d \<and> written env fam g p (k + 1) d) w)"
proof -
  let ?meta = "AList.update ''complete'' (JBool False) (cp_metadata cp)"
  have meta: "holds_pass env fam g key p ?meta" using cp(2) by (simp add: holds_update)
  have stored: "pass_contract (all_dirs_ok env fam g) (on_dir env fam g key (\<lambda>d. in_pass env key p d \<and> written env fam g p k d))
      (durable (update_dir key (\<lambda>d. d\<lparr>batch_files := AList.update (batch_name k) (SentenceRows (map normalize_row rows)) (batch_files d)\<rparr>)))
      (\<lambda>_. on_dir env fam g key (\<lambda>d. in_pass env key p d \<and> written env fam g p (k + 1) d))"
    unfolding rows
  proof (rule durable_dir)
    fix d assume d: "dir_ok env fam g key d" "in_pass env key p d \<and> written env fam g p k d"
    let ?d = "d\<lparr>batch_files := AList.update (batch_name k) (SentenceRows (batch_rows fam g p (batch_of env p k))) (batch_files d)\<rparr>"
    have "written env fam g p (k + 1) ?d" using d(2) by (auto simp: written_def update_conv' less_Suc_eq)
    moreover have "in_pass env key p ?d" using d(2) by (simp add: in_pass_def)
    ultimately show "dir_ok env fam g key ?d \<and> in_pass env key p ?d \<and> written env fam g p (k + 1) ?d"
      using dir_ok_write [OF inj d(1) _ k] d(2) by blast
  qed
  have meta_write: "pass_contract (all_dirs_ok env fam g) (on_dir env fam g key (\<lambda>d. in_pass env key p d \<and> written env fam g p (k + 1) d))
      (write_metadata key ?meta) (\<lambda>_. on_dir env fam g key (\<lambda>d. in_pass env key p d \<and> written env fam g p (k + 1) d))"
    by (rule write_metadata_ok [OF inj meta]) (simp add: written_def)
  show ?thesis unfolding write_batch_def Let_def cp(1) batch_path_nat pass_bind_res
    by (rule pass_contract_bind [OF stored], rule pass_contract_bind [OF meta_write], rule pass_contract_ret) (simp add: meta cp(1))
qed

text \<open>The rows a batch holds are those the splitter would give.\<close>

lemma split_batch:
  assumes "faithful_inputs env fam g" "1 \<le> pi_batch_size p"
  shows "\<exists>rows summary. split_sections (plain_segmenter (fam (pi_revision p))) (pi_batch_size p) sections = Inr (rows, summary)
      \<and> map normalize_row rows = batch_rows fam g p sections"
proof -
  have "segments_with (plain_segmenter (fam (pi_revision p))) (g (pi_revision p))" using assms(1) unfolding faithful_inputs_def by blast
  from split_sections_reference [OF this assms(2), of sections] show ?thesis by (auto simp: expected_rows_def)
qed

definition processed :: "sentence_env \<Rightarrow> (string \<Rightarrow> revised_segmenter) \<Rightarrow> (string \<Rightarrow> string \<Rightarrow> string list) \<Rightarrow> region \<Rightarrow> pass_input
    \<Rightarrow> srow list list \<Rightarrow> checkpoint \<times> counters \<times> nat \<times> nat \<Rightarrow> sentence_world \<Rightarrow> bool" where
  "processed env fam g key p done_batches r w \<longleftrightarrow>
     (case r of (cp, c, index, row_count) \<Rightarrow>
        cp_key cp = key \<and> holds_pass env fam g key p (cp_metadata cp) \<and> index = length done_batches
        \<and> c = add_sections (concat done_batches) new_counters \<and> row_count = length (batch_rows fam g p (concat done_batches))
        \<and> on_dir env fam g key (\<lambda>d. in_pass env key p d \<and> written env fam g p index d) w)"

lemma process_batches_ok:
  assumes f: "faithful_inputs env fam g" and bs: "1 \<le> pi_batch_size p"
  shows "read_batches env (pi_source p) (pi_batch_size p) = done_batches @ rest \<Longrightarrow>
     pass_contract (all_dirs_ok env fam g) (processed env fam g key p done_batches (cp, c, index, row_count))
       (process_batches_of (plain_segmenter (fam (pi_revision p))) (pi_batch_size p) index rest cp c row_count)
       (processed env fam g key p (done_batches @ rest))"
proof (induction rest arbitrary: done_batches cp c index row_count)
  case Nil
  show ?case by (simp add: pass_contract_def)
next
  case (Cons sections rest)
  let ?E = "all_dirs_ok env fam g" and ?P = "processed env fam g key p done_batches (cp, c, index, row_count)"
  let ?seg = "plain_segmenter (fam (pi_revision p))" and ?n = "pi_batch_size p"
  have inj: "inj (section_digest env)" using f by (simp add: faithful_inputs_def)
  obtain rows summary where split: "split_sections ?seg ?n sections = Inr (rows, summary)" "map normalize_row rows = batch_rows fam g p sections"
    using split_batch [OF f bs] by blast
  have len: "length rows = length (batch_rows fam g p sections)" using split(2) by (metis length_map)
  show ?case
  proof (rule pass_contractI)
    fix w assume w: "?P w"
    then have cp: "cp_key cp = key" "holds_pass env fam g key p (cp_metadata cp)" and i: "index = length done_batches"
      and c: "c = add_sections (concat done_batches) new_counters" and rc: "row_count = length (batch_rows fam g p (concat done_batches))"
      and d: "on_dir env fam g key (\<lambda>d. in_pass env key p d \<and> written env fam g p index d) w"
      unfolding processed_def by auto
    have k: "index < batch_count_of env p" "batch_of env p index = sections"
      using Cons.prems by (simp_all add: i batch_count_of_def batch_of_def)
    let ?d = "checkpoint_dirs w key"
    have ok: "dir_ok env fam g key ?d" "in_pass env key p ?d" "written env fam g p index ?d"
      using d unfolding on_dir_def all_dirs_ok_def by blast+
    have IH: "pass_contract ?E (processed env fam g key p (done_batches @ [sections]) (cp', add_sections sections c, index + 1, row_count + length rows))
        (process_batches_of ?seg ?n (index + 1) rest cp' (add_sections sections c) (row_count + length rows))
        (processed env fam g key p (done_batches @ sections # rest))" for cp'
      using Cons.IH [of "done_batches @ [sections]" cp' "add_sections sections c" "index + 1" "row_count + length rows"] Cons.prems by simp
    have next_state: "processed env fam g key p (done_batches @ [sections]) (cp', add_sections sections c, index + 1, row_count + length rows) w'"
      if "cp_key cp' = key" "holds_pass env fam g key p (cp_metadata cp')"
        "on_dir env fam g key (\<lambda>d. in_pass env key p d \<and> written env fam g p (index + 1) d) w'" for cp' w'
      using that by (simp add: processed_def i c rc len add_sections_append expected_append)
    show "pass_outcome ?E (processed env fam g key p (done_batches @ sections # rest))
        (process_batches_of ?seg ?n index (sections # rest) cp c row_count w)"
    proof (cases "file_row_count (map_of (batch_files ?d) (batch_name index))")
      case None
      have "pass_contract ?E (on_dir env fam g key (\<lambda>d. in_pass env key p d \<and> written env fam g p index d))
          (pass_bind (write_batch cp (int index) rows) (\<lambda>cp'.
             process_batches_of ?seg ?n (index + 1) rest cp' (add_sections sections c) (row_count + length rows)))
          (processed env fam g key p (done_batches @ sections # rest))"
      proof (rule pass_contract_bind [OF write_batch_ok [OF inj cp k(1)]])
        show "map normalize_row rows = batch_rows fam g p (batch_of env p index)" by (simp add: k(2) split(2))
        show "pass_contract ?E (\<lambda>w. cp_key cp' = key \<and> holds_pass env fam g key p (cp_metadata cp')
            \<and> on_dir env fam g key (\<lambda>d. in_pass env key p d \<and> written env fam g p (index + 1) d) w)
            (process_batches_of ?seg ?n (index + 1) rest cp' (add_sections sections c) (row_count + length rows))
            (processed env fam g key p (done_batches @ sections # rest))" for cp'
          by (rule pass_contract_conseq [OF IH], elim conjE, rule next_state, assumption+)
      qed
      from pass_contractD [OF this d] show ?thesis
        using None by (simp add: pass_bind_def [of "pass_get _"] pass_get_def batch_row_count_def cp(1) Let_def split(1) pass_bind_res)
    next
      case (Some n)
      obtain fl where fl: "map_of (batch_files ?d) (batch_name index) = Some fl"
        using Some by (cases "map_of (batch_files ?d) (batch_name index)") auto
      have "(batch_name index, fl) \<in> set (batch_files ?d)" using fl by (rule map_of_SomeD)
      then have flr: "fl = SentenceRows (batch_rows fam g p sections)"
        using in_pass_files(1) [OF ok(1,2)] k(2) unfolding files_ok_def by fastforce
      then have n: "n = length rows" using Some fl by (simp add: len)
      have "written env fam g p (index + 1) ?d" using ok(3) fl flr k(2) by (auto simp: written_def less_Suc_eq)
      then have "on_dir env fam g key (\<lambda>d. in_pass env key p d \<and> written env fam g p (index + 1) d) w"
        using d ok(2) by (simp add: on_dir_def)
      from pass_contractD [OF IH next_state [OF cp this]] show ?thesis
        using Some n by (simp add: pass_bind_def [of "pass_get _"] pass_get_def batch_row_count_def cp(1) Let_def)
    qed
  qed
qed


section \<open>Completing a pass\<close>

lemma all_written:
  assumes d: "dir_ok env fam g key d" "in_pass env key p d" "written env fam g p (batch_count_of env p) d"
    and n: "batch_count_of env p \<le> 10 ^ 8"
  shows "completed_batches d = Inr (map int [0..<batch_count_of env p])"
proof (rule completed_batches_all)
  show "distinct (map fst (batch_files d))" using in_pass_files(2) [OF d(1,2)] by (simp add: names_ok_def)
  have "name \<in> batch_name ` {0..<batch_count_of env p}" if "name \<in> fst ` set (batch_files d)" for name
    using in_pass_files(1) [OF d(1,2)] that unfolding files_ok_def by fastforce
  moreover have "batch_name k \<in> fst ` set (batch_files d)" if "k < batch_count_of env p" for k
  proof -
    have "map_of (batch_files d) (batch_name k) \<noteq> None" using d(3) that by (simp add: written_def)
    then show ?thesis by (simp add: map_of_eq_None_iff)
  qed
  ultimately show "fst ` set (batch_files d) = batch_name ` {0..<batch_count_of env p}" by fastforce
  show "file_row_count (map_of (batch_files d) (batch_name k)) \<noteq> None" if "k < batch_count_of env p" for k
    using d(3) that by (simp add: written_def)
qed (rule n)

lemma loaded_rows:
  assumes "written env fam g p n d"
  shows "load_checkpoint_rows d (map int [0..<n]) = Inr (concat (map (\<lambda>k. batch_rows fam g p (batch_of env p k)) [0..<n]))"
    and "res_map (read_row_count d) (map int [0..<n]) = Inr (map (\<lambda>k. length (batch_rows fam g p (batch_of env p k))) [0..<n])"
proof -
  have "res_map (load_checkpoint_batch d) (map int ks) = Inr (map (\<lambda>k. batch_rows fam g p (batch_of env p k)) ks)
      \<and> res_map (read_row_count d) (map int ks) = Inr (map (\<lambda>k. length (batch_rows fam g p (batch_of env p k))) ks)"
    if "set ks \<subseteq> {0..<n}" for ks
    using that assms
    by (induction ks) (auto simp: load_checkpoint_batch_def load_batch_table_def read_row_count_def batch_row_count_def written_def)
  from this [of "[0..<n]"]
  show "load_checkpoint_rows d (map int [0..<n]) = Inr (concat (map (\<lambda>k. batch_rows fam g p (batch_of env p k)) [0..<n]))"
    "res_map (read_row_count d) (map int [0..<n]) = Inr (map (\<lambda>k. length (batch_rows fam g p (batch_of env p k))) [0..<n])"
    by (simp_all add: load_checkpoint_rows_def)
qed

lemma all_rows:
  assumes "faithful_inputs env fam g" "1 \<le> pi_batch_size p"
  shows "concat (map (\<lambda>k. batch_rows fam g p (batch_of env p k)) [0..<batch_count_of env p]) = batch_rows fam g p (table_rows (pi_source p))"
proof -
  let ?B = "read_batches env (pi_source p) (pi_batch_size p)"
  have "map (\<lambda>k. batch_rows fam g p (batch_of env p k)) [0..<batch_count_of env p] = map (batch_rows fam g p) ?B"
    by (rule nth_equalityI) (simp_all add: batch_count_of_def batch_of_def)
  moreover have "concat ?B = table_rows (pi_source p)" using assms by (simp add: faithful_inputs_def)
  ultimately show ?thesis by (metis expected_concat)
qed

lemma mark_complete_ok:
  assumes f: "faithful_inputs env fam g" "1 \<le> pi_batch_size p" and cp: "cp_key cp = key" "holds_pass env fam g key p (cp_metadata cp)"
    and n: "batch_count_of env p \<le> 10 ^ 8"
  shows "pass_contract (all_dirs_ok env fam g) (on_dir env fam g key (\<lambda>d. in_pass env key p d \<and> written env fam g p (batch_count_of env p) d))
      (mark_complete cp (batch_count_of env p) (length (batch_rows fam g p (table_rows (pi_source p)))))
      (\<lambda>cp' w. cp_key cp' = key \<and> holds_pass env fam g key p (cp_metadata cp') \<and> cp_complete cp'
         \<and> on_dir env fam g key (\<lambda>d. in_pass env key p d \<and> written env fam g p (batch_count_of env p) d) w)"
    (is "pass_contract ?E ?P _ _")
proof -
  let ?rows = "batch_rows fam g p (table_rows (pi_source p))"
  let ?meta = "AList.update ''row_count'' (JInt (int (length ?rows)))
       (AList.update ''batch_count'' (JInt (int (batch_count_of env p))) (AList.update ''complete'' (JBool True) (cp_metadata cp)))"
  have meta: "holds_pass env fam g key p ?meta" using cp(2) by (simp add: holds_update)
  have complete: "cp_complete (cp\<lparr>cp_metadata := ?meta\<rparr>)"
    by (simp add: cp_complete_def dict_get_def update_conv' json_truthy_def)
  have guards: "pass_contract ?E ?P (pass_get (\<lambda>w. let d = checkpoint_dirs w (cp_key cp) in
         res_bind (completed_batches d) (\<lambda>indexes.
         res_bind (guard (indexes = map int [0..<batch_count_of env p]) (ValueError ''Sentence checkpoint batches are not contiguous'')) (\<lambda>_.
         res_bind (res_map (read_row_count d) indexes) (\<lambda>counts.
           guard (sum_list counts = length ?rows) (ValueError ''Sentence checkpoint row accounting is invalid'')))))) (\<lambda>_. ?P)"
  proof (rule pass_contract_get)
    fix w assume w: "?P w"
    let ?d = "checkpoint_dirs w key"
    have ok: "dir_ok env fam g key ?d" "in_pass env key p ?d" "written env fam g p (batch_count_of env p) ?d"
      using w unfolding on_dir_def all_dirs_ok_def by blast+
    have "sum_list (map (\<lambda>k. length (batch_rows fam g p (batch_of env p k))) [0..<batch_count_of env p]) = length ?rows"
      unfolding all_rows [OF f, symmetric] by (simp add: length_concat comp_def)
    then show "\<exists>a. (let d = checkpoint_dirs w (cp_key cp) in
         res_bind (completed_batches d) (\<lambda>indexes.
         res_bind (guard (indexes = map int [0..<batch_count_of env p]) (ValueError ''Sentence checkpoint batches are not contiguous'')) (\<lambda>_.
         res_bind (res_map (read_row_count d) indexes) (\<lambda>counts.
           guard (sum_list counts = length ?rows) (ValueError ''Sentence checkpoint row accounting is invalid''))))) = Inr a \<and> ?P w"
      using w by (simp add: Let_def cp(1) all_written [OF ok n] loaded_rows(2) [OF ok(3)] guard_def)
  qed
  have wr: "pass_contract ?E ?P (write_metadata key ?meta) (\<lambda>_. ?P)"
    by (rule write_metadata_ok [OF _ meta]) (use f(1) in \<open>simp_all add: faithful_inputs_def written_def\<close>)
  show ?thesis unfolding mark_complete_def
    by (rule pass_contract_bind [OF guards], unfold Let_def cp(1), rule pass_contract_bind [OF wr], rule pass_contract_ret)
      (use meta complete cp(1) in simp)
qed

lemma write_output_ok:
  assumes f: "faithful_inputs env fam g" "1 \<le> pi_batch_size p" and cp: "cp_key cp = key"
  shows "pass_contract (all_dirs_ok env fam g) (on_dir env fam g key (\<lambda>d. in_pass env key p d \<and> written env fam g p (batch_count_of env p) d))
      (write_output cp (batch_count_of env p))
      (\<lambda>_ w. on_dir env fam g key (in_pass env key p) w \<and> sentence_files w key = Some (the_output fam g p))"
    (is "pass_contract ?E ?P _ _")
proof -
  let ?rows = "batch_rows fam g p (table_rows (pi_source p))"
  have load: "pass_contract ?E ?P (write_checkpoint_batches cp (batch_count_of env p)) (\<lambda>rows w. rows = ?rows \<and> ?P w)"
    unfolding write_checkpoint_batches_def
  proof (rule pass_contract_get)
    fix w assume w: "?P w"
    have "written env fam g p (batch_count_of env p) (checkpoint_dirs w key)" using w by (simp add: on_dir_def)
    from loaded_rows(1) [OF this] show "\<exists>a. load_checkpoint_rows (checkpoint_dirs w (cp_key cp)) (map int [0..<batch_count_of env p]) = Inr a \<and> a = ?rows \<and> ?P w"
      using w by (simp add: cp all_rows [OF f])
  qed
  show ?thesis unfolding write_output_def
    by (rule pass_contract_bind [OF load], rule pass_contract_durable)
      (auto simp: on_dir_def all_dirs_ok_def cp the_output_def)
qed


lemma finalize_ok:
  assumes f: "faithful_inputs env fam g" and cp: "cp_key cp = key" "holds_pass env fam g key p (cp_metadata cp)" "cp_complete cp"
  shows "pass_contract (all_dirs_ok env fam g)
      (\<lambda>w. on_dir env fam g key (in_pass env key p) w \<and> sentence_files w key = Some (the_output fam g p))
      (finalize_checkpoint cp path (sentence_digest env (the_output fam g p)) (summary_json (the_summary fam g key p)))
      (\<lambda>_ w. all_dirs_ok env fam g w \<and> sentence_files w key = Some (the_output fam g p))"
    (is "pass_contract ?E ?P _ _")
proof -
  let ?meta = "AList.update ''summary'' (summary_json (the_summary fam g key p)) (AList.update ''output_hash'' (JStr (sentence_digest env (the_output fam g p)))
         (AList.update ''output_path'' (JStr path) (cp_metadata cp)))"
  have meta: "holds_pass env fam g key p ?meta"
    using cp(2) by (auto simp: holds_pass_def matches_def record_ok_def dict_get_def update_conv')
  have inj: "inj (section_digest env)" using f by (simp add: faithful_inputs_def)
  have wr: "pass_contract ?E ?P (write_metadata key ?meta) (\<lambda>_. ?P)"
    unfolding write_metadata_def
  proof (rule pass_contract_durable)
    fix w b assume w: "?P w"
    have "on_dir env fam g key (in_pass env key p) ((update_dir key (\<lambda>d. d\<lparr>metadata_file := write_json (JObj ?meta)\<rparr>) w)\<lparr>budget := b\<rparr>)"
      using w dir_ok_metadata [OF inj meta in_pass_files(2) [of env fam g key _ p] in_pass_files(1) [of env fam g key _ p]]
      by (intro on_dir_update [of env fam g key "in_pass env key p"]) blast+
    then show "?P ((update_dir key (\<lambda>d. d\<lparr>metadata_file := write_json (JObj ?meta)\<rparr>) w)\<lparr>budget := b\<rparr>)"
      using w by (simp add: update_dir_def)
  qed (simp add: on_dir_def)
  have rm: "pass_contract ?E ?P (remove_payloads key) (\<lambda>_ w. all_dirs_ok env fam g w \<and> sentence_files w key = Some (the_output fam g p))"
  proof (rule pass_contractI)
    fix w assume w: "?P w"
    have o: "pass_outcome ?E (\<lambda>_. on_dir env fam g key (\<lambda>d. in_pass env key p d \<and> batch_files d = [])) (remove_payloads key w)"
      by (rule pass_contractD [OF remove_payloads_ok]) (simp add: in_pass_def, use w in blast)
    have "sentence_files (snd (unlink_payloads key names w)) = sentence_files w" for names w
      by (induction names arbitrary: w)
        (auto simp: unlink_payload_def durable_def pass_bind_def update_dir_def split: option.split nat.split)
    then have "sentence_files (snd (remove_payloads key w)) key = Some (the_output fam g p)" using w by (simp add: remove_payloads_def)
    then show "pass_outcome ?E (\<lambda>_ w. all_dirs_ok env fam g w \<and> sentence_files w key = Some (the_output fam g p)) (remove_payloads key w)"
      using o by (cases "remove_payloads key w"; cases "fst (remove_payloads key w)") (auto simp: on_dir_def)
  qed
  show ?thesis unfolding finalize_checkpoint_def Let_def cp(1)
    using cp(3) by (simp add: guard_def pass_bind_res)
      (rule pass_contract_bind [OF wr], rule pass_contract_bind [OF rm], rule pass_contract_ret, simp)
qed


section \<open>The pass\<close>

definition pass_allowed :: "sentence_env \<Rightarrow> string \<Rightarrow> string \<Rightarrow> pass_input \<Rightarrow> bool" where
  "pass_allowed env stem project p \<longleftrightarrow>
     is_safe_stem (JStr stem) \<and> project \<in> {''wikipedia'', ''wikivoyage''} \<and> schema_ok (pi_source p) \<and> 1 \<le> pi_batch_size p
     \<and> batch_count_of env p \<le> 10 ^ 8"

text \<open>A recorded output that still has its digest is the output of this pass.\<close>

lemma recorded_output:
  assumes f: "faithful_inputs env fam g" and cp: "holds_pass env fam g (cp_key cp) p (cp_metadata cp)" and r: "recorded_output_matches env cp w"
  shows "sentence_files w (cp_key cp) = Some (the_output fam g p)
     \<and> summary_from_checkpoint container cp = Inr (the_summary fam g (cp_key cp) p)"
proof -
  obtain h where h: "map_of (cp_metadata cp) ''output_hash'' = Some (JStr h)" "file_digest env (cp_key cp) w = Some h"
    using r by (auto simp: recorded_output_matches_def output_matches_def dict_get_def split: option.splits json.splits)
  have rec: "h = sentence_digest env (the_output fam g p)"
    and sum: "\<exists>v\<in>{summary_json (the_summary fam g (cp_key cp) p), jsort (summary_json (the_summary fam g (cp_key cp) p))}.
       map_of (cp_metadata cp) ''summary'' = Some v"
    using cp h(1) unfolding holds_pass_def record_ok_def by blast+
  obtain out where out: "sentence_files w (cp_key cp) = Some out" "sentence_digest env out = h"
    using h(2) by (auto simp: file_digest_def)
  have "inj (sentence_digest env)" using f by (simp add: faithful_inputs_def)
  then have 1: "out = the_output fam g p" using out(2) rec by (simp add: inj_eq)
  obtain v where v: "v \<in> {summary_json (the_summary fam g (cp_key cp) p), jsort (summary_json (the_summary fam g (cp_key cp) p))}"
      "map_of (cp_metadata cp) ''summary'' = Some v"
    using sum by blast
  obtain raw where "v = JObj raw" "read_summary container raw = Inr (the_summary fam g (cp_key cp) p)"
    using read_summary_json [OF v(1)] by blast
  then show ?thesis using 1 out(1) v(2) by (simp add: summary_from_checkpoint_def dict_get_def summary_from_mapping_def)
qed

lemma open_checkpoint_ok:
  assumes f: "faithful_inputs env fam g" and ok: "pass_allowed env stem project p"
  shows "pass_contract (all_dirs_ok env fam g) (all_dirs_ok env fam g)
     (open_checkpoint stem project (section_digest env (pi_source p)) SAT_MODEL_ID (pi_revision p) (pi_batch_size p))
     (\<lambda>cp w. cp_key cp = (stem, project) \<and> holds_pass env fam g (stem, project) p (cp_metadata cp)
        \<and> on_dir env fam g (stem, project) (in_pass env (stem, project) p) w)"
proof -
  have g: "require_safe_stem stem e = Inr stem" "guard (project \<in> {''wikipedia'', ''wikivoyage''}) e = Inr ()" "guard (1 \<le> pi_batch_size p) e = Inr ()" for e
    using ok by (simp_all add: pass_allowed_def require_safe_stem_def guard_def)
  have inj: "inj (section_digest env)" using f by (simp add: faithful_inputs_def)
  show ?thesis
    unfolding open_checkpoint_def g pass_bind_res Let_def pass_identity_def [symmetric]
    by (rule pass_contract_bind [OF prepare_ok [OF inj]], rule pass_contract_ret) simp
qed

definition source_done :: "sentence_env \<Rightarrow> (string \<Rightarrow> revised_segmenter) \<Rightarrow> (string \<Rightarrow> string \<Rightarrow> string list) \<Rightarrow> region \<Rightarrow> pass_input
    \<Rightarrow> checkpoint \<times> nat \<times> nat \<times> region_summary \<Rightarrow> sentence_world \<Rightarrow> bool" where
  "source_done env fam g key p r w \<longleftrightarrow>
     (case r of (cp, n, rc, summary) \<Rightarrow>
        cp_key cp = key \<and> holds_pass env fam g key p (cp_metadata cp) \<and> n = batch_count_of env p
        \<and> rc = length (batch_rows fam g p (table_rows (pi_source p))) \<and> summary = the_summary fam g key p
        \<and> on_dir env fam g key (\<lambda>d. in_pass env key p d \<and> written env fam g p (batch_count_of env p) d) w)"

lemma process_source_ok:
  assumes f: "faithful_inputs env fam g" and bs: "1 \<le> pi_batch_size p" and cp: "cp_key cp = key" "holds_pass env fam g key p (cp_metadata cp)"
  shows "pass_contract (all_dirs_ok env fam g) (on_dir env fam g key (in_pass env key p))
     (process_source env (pi_source p) cp (plain_segmenter (fam (pi_revision p))) (pi_batch_size p))
     (source_done env fam g key p)"
proof -
  let ?B = "read_batches env (pi_source p) (pi_batch_size p)"
  have B: "concat ?B = table_rows (pi_source p)" using f bs by (simp add: faithful_inputs_def)
  have loop: "pass_contract (all_dirs_ok env fam g) (on_dir env fam g key (in_pass env key p))
      (process_batches_of (plain_segmenter (fam (pi_revision p))) (pi_batch_size p) 0 ?B cp new_counters 0) (processed env fam g key p ?B)"
  proof (rule pass_contract_conseq [OF process_batches_ok [OF f bs, of "[]" ?B]])
    show "processed env fam g key p [] (cp, new_counters, 0, 0) w" if "on_dir env fam g key (in_pass env key p) w" for w
      using that cp by (simp add: processed_def on_dir_def written_def add_sections_def expected_rows_def)
  qed simp_all
  show ?thesis unfolding process_source_def
  proof (rule pass_contract_bind [OF loop])
    fix r :: "checkpoint \<times> counters \<times> nat \<times> nat"
    obtain cp' c n rc where r: "r = (cp', c, n, rc)" by (cases r) auto
    show "pass_contract (all_dirs_ok env fam g) (processed env fam g key p ?B r)
       (case r of (cp, c, batch_count, row_count) \<Rightarrow>
          pass_ret (cp, batch_count, row_count, counters_summary (cp_key cp) (c\<lparr>ct_sentence_rows := row_count\<rparr>)))
       (source_done env fam g key p)"
      unfolding r prod.case
      by (rule pass_contract_ret)
        (auto simp: processed_def source_done_def B the_summary_def expected_summary_def batch_count_of_def)
  qed
qed

definition pass_done :: "sentence_env \<Rightarrow> (string \<Rightarrow> revised_segmenter) \<Rightarrow> (string \<Rightarrow> string \<Rightarrow> string list) \<Rightarrow> region \<Rightarrow> pass_input
    \<Rightarrow> region_summary \<Rightarrow> sentence_world \<Rightarrow> bool" where
  "pass_done env fam g key p summary w \<longleftrightarrow>
     all_dirs_ok env fam g w \<and> summary = the_summary fam g key p \<and> sentence_files w key = Some (the_output fam g p)"

lemma record_output_ok:
  assumes f: "faithful_inputs env fam g" and cp: "cp_key cp = key" "holds_pass env fam g key p (cp_metadata cp)" "cp_complete cp"
  shows "pass_contract (all_dirs_ok env fam g)
     (\<lambda>w. on_dir env fam g key (in_pass env key p) w \<and> sentence_files w key = Some (the_output fam g p))
     (record_output env cp (the_summary fam g key p)) (pass_done env fam g key p)"
proof -
  let ?E = "all_dirs_ok env fam g" and ?out = "the_output fam g p"
  let ?P = "\<lambda>w. on_dir env fam g key (in_pass env key p) w \<and> sentence_files w key = Some ?out"
  have digest: "pass_contract ?E ?P
      (pass_get (\<lambda>w. case file_digest env (cp_key cp) w of None \<Rightarrow> Inl (FileNotFoundError ''No such file'') | Some h \<Rightarrow> Inr h))
      (\<lambda>h w. h = sentence_digest env ?out \<and> ?P w)"
    by (rule pass_contract_get) (simp add: file_digest_def cp(1))
  have "pass_contract ?E (\<lambda>w. h = sentence_digest env ?out \<and> ?P w)
      (pass_bind (finalize_checkpoint cp (sentence_path env (cp_key cp)) h (summary_json (the_summary fam g key p))) (\<lambda>_. pass_ret (the_summary fam g key p)))
      (pass_done env fam g key p)" for h
  proof (cases "h = sentence_digest env ?out")
    case True
    have "pass_contract ?E ?P (pass_bind (finalize_checkpoint cp (sentence_path env (cp_key cp)) (sentence_digest env ?out)
        (summary_json (the_summary fam g key p))) (\<lambda>_. pass_ret (the_summary fam g key p))) (pass_done env fam g key p)"
      by (rule pass_contract_bind [OF finalize_ok [OF f cp]], rule pass_contract_ret) (simp add: pass_done_def)
    then show ?thesis using True by simp
  qed (simp add: pass_contract_def)
  then show ?thesis unfolding record_output_def by (rule pass_contract_bind [OF digest])
qed

lemma complete_project_ok:
  assumes f: "faithful_inputs env fam g" and bs: "1 \<le> pi_batch_size p" and n: "batch_count_of env p \<le> 10 ^ 8"
  shows "pass_contract (all_dirs_ok env fam g) (source_done env fam g key p r) (complete_project env r) (pass_done env fam g key p)"
proof -
  obtain cp m rc summary where r: "r = (cp, m, rc, summary)" by (cases r) auto
  let ?E = "all_dirs_ok env fam g"
  let ?W = "on_dir env fam g key (\<lambda>d. in_pass env key p d \<and> written env fam g p (batch_count_of env p) d)"
  show ?thesis
  proof (cases "cp_key cp = key \<and> holds_pass env fam g key p (cp_metadata cp) \<and> m = batch_count_of env p
      \<and> rc = length (batch_rows fam g p (table_rows (pi_source p))) \<and> summary = the_summary fam g key p")
    case True
    then have cp: "cp_key cp = key" "holds_pass env fam g key p (cp_metadata cp)"
      and m: "m = batch_count_of env p" "rc = length (batch_rows fam g p (table_rows (pi_source p)))" "summary = the_summary fam g key p"
      by blast+
    have rest: "pass_contract ?E (\<lambda>w. cp_key cp1 = key \<and> holds_pass env fam g key p (cp_metadata cp1) \<and> cp_complete cp1 \<and> ?W w)
        (pass_bind (write_output cp1 (batch_count_of env p)) (\<lambda>_. record_output env cp1 (the_summary fam g key p))) (pass_done env fam g key p)" for cp1
    proof (cases "cp_key cp1 = key \<and> holds_pass env fam g key p (cp_metadata cp1) \<and> cp_complete cp1")
      case True
      show ?thesis
        by (rule pass_contract_conseq [OF pass_contract_bind [OF write_output_ok [OF f bs] record_output_ok [OF f]]]) (use True in auto)
    qed (rule pass_contract_vacuous, blast)
    have "pass_contract ?E ?W (complete_project env r) (pass_done env fam g key p)"
      unfolding r complete_project_def prod.case m by (rule pass_contract_bind [OF mark_complete_ok [OF f bs cp n] rest])
    then show ?thesis by (rule pass_contract_conseq) (simp_all add: source_done_def r)
  qed (rule pass_contract_vacuous, unfold source_done_def r prod.case, blast)
qed

lemma run_project_ok:
  assumes f: "faithful_inputs env fam g" and ok: "pass_allowed env stem project p"
    and src: "section_tables env (stem, project) = Some (pi_source p)"
  shows "pass_contract (all_dirs_ok env fam g) (all_dirs_ok env fam g)
     (run_project env stem project (fam (pi_revision p)) (pi_batch_size p)) (pass_done env fam g (stem, project) p)"
proof -
  let ?E = "all_dirs_ok env fam g" and ?key = "(stem, project)" and ?Q = "pass_done env fam g (stem, project) p"
  have bs: "1 \<le> pi_batch_size p" and n: "batch_count_of env p \<le> 10 ^ 8" and s: "schema_ok (pi_source p)"
    using ok by (simp_all add: pass_allowed_def)
  have fam: "seg_model_id (fam (pi_revision p)) = SAT_MODEL_ID" "seg_revision (fam (pi_revision p)) = pi_revision p"
    using f unfolding faithful_inputs_def by blast+
  have rest: "pass_contract ?E (\<lambda>w. cp_key cp = ?key \<and> holds_pass env fam g ?key p (cp_metadata cp) \<and> on_dir env fam g ?key (in_pass env ?key p) w)
      (pass_bind (pass_get (\<lambda>w. Inr (recorded_output_matches env cp w))) (\<lambda>done_before.
         if done_before then pass_res (summary_from_checkpoint (container_text env) cp)
         else pass_bind (process_source env (pi_source p) cp (plain_segmenter (fam (pi_revision p))) (pi_batch_size p)) (\<lambda>processed.
           complete_project env processed))) ?Q" for cp
  proof (cases "cp_key cp = ?key \<and> holds_pass env fam g ?key p (cp_metadata cp)")
    case True
    then have cp: "cp_key cp = ?key" "holds_pass env fam g ?key p (cp_metadata cp)" by blast+
    have fresh: "pass_contract ?E (on_dir env fam g ?key (in_pass env ?key p))
        (pass_bind (process_source env (pi_source p) cp (plain_segmenter (fam (pi_revision p))) (pi_batch_size p)) (\<lambda>processed.
           complete_project env processed)) ?Q"
      by (rule pass_contract_bind [OF process_source_ok [OF f bs cp] complete_project_ok [OF f bs n]])
    show ?thesis
    proof (rule pass_contractI)
      fix w assume w: "cp_key cp = ?key \<and> holds_pass env fam g ?key p (cp_metadata cp) \<and> on_dir env fam g ?key (in_pass env ?key p) w"
      have old: "summary_from_checkpoint (container_text env) cp = Inr (the_summary fam g ?key p) \<and> ?Q (the_summary fam g ?key p) w"
        if "recorded_output_matches env cp w"
        using recorded_output [OF f, of cp p w "container_text env"] that cp w by (simp add: pass_done_def on_dir_def)
      show "pass_outcome ?E ?Q (pass_bind (pass_get (\<lambda>w. Inr (recorded_output_matches env cp w))) (\<lambda>done_before.
         if done_before then pass_res (summary_from_checkpoint (container_text env) cp)
         else pass_bind (process_source env (pi_source p) cp (plain_segmenter (fam (pi_revision p))) (pi_batch_size p)) (\<lambda>processed.
           complete_project env processed)) w)"
        using old pass_contractD [OF fresh] w
        by (cases "recorded_output_matches env cp w") (simp_all add: pass_bind_def [of "pass_get _"] pass_get_def pass_res_def)
    qed
  qed (rule pass_contract_vacuous, blast)
  show ?thesis
    unfolding run_project_def src option.case fam guard_def using s
    by (simp add: pass_bind_res) (rule pass_contract_bind [OF open_checkpoint_ok [OF f ok] rest])
qed


section \<open>Histories\<close>

text \<open>A computation that starts without a limit ends without one.\<close>

definition unlimited :: "'a pass \<Rightarrow> bool" where
  "unlimited m \<longleftrightarrow> (\<forall>w. budget w = None \<longrightarrow> budget (snd (m w)) = None)"

named_theorems unlimited_rules \<open>which computations keep an unlimited budget\<close>

lemma unlimited_bind [unlimited_rules]:
  assumes "unlimited m" "\<And>a. unlimited (f a)"
  shows "unlimited (pass_bind m f)"
  unfolding unlimited_def
proof (intro allI impI)
  fix w :: sentence_world assume w: "budget w = None"
  obtain r w1 where m: "m w = (r, w1)" by fastforce
  have "budget w1 = None" using assms(1) w m unfolding unlimited_def by (metis snd_conv)
  then show "budget (snd (pass_bind m f w)) = None"
    using assms(2) by (cases r) (simp_all add: pass_bind_def m unlimited_def)
qed

lemma unlimited_ret [unlimited_rules]: "unlimited (pass_ret a)"
  by (simp add: unlimited_def pass_ret_def)

lemma unlimited_res [unlimited_rules]: "unlimited (pass_res r)"
  by (simp add: unlimited_def pass_res_def)

lemma unlimited_get [unlimited_rules]: "unlimited (pass_get f)"
  by (simp add: unlimited_def pass_get_def)

lemma unlimited_durable [unlimited_rules]: "unlimited (durable f)"
  by (simp add: unlimited_def durable_def)

lemma unlimited_if [unlimited_rules]: "unlimited m \<Longrightarrow> unlimited n \<Longrightarrow> unlimited (if c then m else n)"
  by simp

lemma unlimited_unlink [unlimited_rules]: "unlimited (unlink_payloads key names)"
proof (induction names)
  case (Cons name names)
  have "unlimited (pass_bind (unlink_payload key name) (\<lambda>_. unlink_payloads key names))"
    unfolding unlink_payload_def by (intro unlimited_rules Cons.IH)
  then show ?case by (simp add: unlimited_def)
qed (simp add: unlimited_def)

lemma unlimited_remove [unlimited_rules]: "unlimited (remove_payloads key)"
  using unlimited_unlink by (simp add: unlimited_def remove_payloads_def)

lemma unlimited_prepare [unlimited_rules]: "unlimited (prepare_checkpoint key identity)"
proof -
  have "unlimited (pass_bind (remove_payloads key) (\<lambda>_. initial_metadata key identity))"
    unfolding initial_metadata_def write_metadata_def Let_def by (intro unlimited_rules)
  then show ?thesis by (auto simp: unlimited_def prepare_checkpoint_def Let_def split: json.split)
qed

lemma unlimited_batches [unlimited_rules]: "unlimited (process_batches_of seg n index bs cp c rc)"
proof (induction bs arbitrary: index cp c rc)
  case (Cons b bs)
  have "unlimited (pass_bind (pass_get (\<lambda>w. batch_row_count (checkpoint_dirs w (cp_key cp)) (int index))) (\<lambda>found.
        case found of
          Some k \<Rightarrow> process_batches_of seg n (index + 1) bs cp (add_sections b c) (rc + k)
        | None \<Rightarrow>
            pass_bind (pass_res (split_sections seg n b)) (\<lambda>(rows, _).
            pass_bind (write_batch cp (int index) rows) (\<lambda>cp.
              process_batches_of seg n (index + 1) bs cp (add_sections b c) (rc + length rows)))))"
    unfolding write_batch_def write_metadata_def Let_def
    by (auto intro!: unlimited_rules Cons.IH split: option.split)
  then show ?case by (simp add: unlimited_def Let_def)
qed (simp add: unlimited_def)

lemma unlimited_project: "unlimited (run_project env stem project seg n)"
proof -
  have "unlimited (complete_project env r)" for r
    unfolding complete_project_def record_output_def mark_complete_def write_output_def write_checkpoint_batches_def
      finalize_checkpoint_def write_metadata_def Let_def
    by (cases r) (auto intro!: unlimited_rules)
  moreover have "unlimited (process_source env source cp s n)" for source cp s
    unfolding process_source_def by (auto intro!: unlimited_rules)
  ultimately show ?thesis
    unfolding run_project_def open_checkpoint_def Let_def by (auto intro!: unlimited_rules split: option.split)
qed

lemma unlimitedD: "unlimited m \<Longrightarrow> m w = (r, w') \<Longrightarrow> budget w = None \<Longrightarrow> budget w' = None"
  unfolding unlimited_def by (metis snd_conv)

text \<open>
  Passes over any tables, with any revisions and batch sizes, each interrupted anywhere; in between
  the output files may be changed or removed.
\<close>

inductive sentence_history :: "sentence_env \<Rightarrow> (string \<Rightarrow> revised_segmenter) \<Rightarrow> sentence_world \<Rightarrow> bool" for env fam where
  no_pass: "(\<And>key. checkpoint_dirs w key = \<lparr>metadata_file = Absent, batch_files = []\<rparr>) \<Longrightarrow> sentence_history env fam w"
| next_pass: "sentence_history env fam w \<Longrightarrow> pass_allowed env stem project p \<Longrightarrow> tables (stem, project) = Some (pi_source p) \<Longrightarrow>
    run_project (env\<lparr>section_tables := tables\<rparr>) stem project (fam (pi_revision p)) (pi_batch_size p) (w\<lparr>budget := b\<rparr>) = (r, w') \<Longrightarrow>
    sentence_history env fam w'"
| outputs_changed: "sentence_history env fam w \<Longrightarrow> sentence_history env fam (w\<lparr>sentence_files := outputs\<rparr>)"

lemma tables_irrelevant:
  "all_dirs_ok (env\<lparr>section_tables := tables\<rparr>) = all_dirs_ok env"
  "faithful_inputs (env\<lparr>section_tables := tables\<rparr>) = faithful_inputs env"
  "pass_allowed (env\<lparr>section_tables := tables\<rparr>) = pass_allowed env"
  unfolding all_dirs_ok_def dir_ok_def files_ok_def record_ok_def matches_def pass_identity_def batch_count_of_def batch_of_def
    faithful_inputs_def pass_allowed_def by (simp_all add: fun_eq_iff)

lemma history_dirs_ok:
  assumes f: "faithful_inputs env fam g"
  shows "sentence_history env fam w \<Longrightarrow> all_dirs_ok env fam g w"
proof (induction rule: sentence_history.induct)
  case (no_pass w)
  then show ?case by (simp add: all_dirs_ok_def dir_ok_def names_ok_def read_json_def)
next
  case (next_pass w stem project p tables b r w')
  let ?env = "env\<lparr>section_tables := tables\<rparr>"
  have "pass_outcome (all_dirs_ok ?env fam g) (pass_done ?env fam g (stem, project) p)
      (run_project ?env stem project (fam (pi_revision p)) (pi_batch_size p) (w\<lparr>budget := b\<rparr>))"
    by (rule pass_contractD [OF run_project_ok])
      (use f next_pass in \<open>simp_all add: tables_irrelevant all_dirs_ok_def\<close>)
  then show ?case using next_pass.hyps(4) by (cases r) (simp_all add: tables_irrelevant pass_done_def)
next
  case (outputs_changed w outputs)
  then show ?case by (simp add: all_dirs_ok_def)
qed

text \<open>
  C8. A sentence pass is exact whatever was interrupted before: after any history of passes with other
  tables, revisions or batch sizes, each ended anywhere, a pass that returns has written exactly the
  rows of its own table, in order, and its summary counts them; and a pass that is not interrupted
  returns.
\<close>

theorem sentence_pass_exact:
  assumes "faithful_inputs env fam g" and "sentence_history env fam w"
    and "pass_allowed env stem project p" and "tables (stem, project) = Some (pi_source p)"
  shows "case run_project (env\<lparr>section_tables := tables\<rparr>) stem project (fam (pi_revision p)) (pi_batch_size p) (w\<lparr>budget := b\<rparr>) of
      (Inr summary, w') \<Rightarrow>
        sentence_files w' (stem, project)
          = Some (SentenceRows (expected_rows (fam (pi_revision p)) (g (pi_revision p)) (table_rows (pi_source p))))
        \<and> summary = expected_summary (stem, project) (fam (pi_revision p)) (g (pi_revision p)) (table_rows (pi_source p))
    | (Inl _, w') \<Rightarrow> b \<noteq> None"
proof -
  let ?env = "env\<lparr>section_tables := tables\<rparr>"
  let ?run = "run_project ?env stem project (fam (pi_revision p)) (pi_batch_size p) (w\<lparr>budget := b\<rparr>)"
  have o: "pass_outcome (all_dirs_ok ?env fam g) (pass_done ?env fam g (stem, project) p) ?run"
    by (rule pass_contractD [OF run_project_ok])
      (use assms history_dirs_ok [OF assms(1,2)] in \<open>simp_all add: tables_irrelevant all_dirs_ok_def\<close>)
  obtain r w' where run: "?run = (r, w')" by fastforce
  have "budget w' = None" if "b = None"
    by (rule unlimitedD [OF unlimited_project run]) (simp add: that)
  then show ?thesis using o by (cases r) (auto simp: run pass_done_def the_output_def the_summary_def)
qed


section \<open>A sample\<close>

instance cell :: countable
  by countable_datatype

instance sentence_file :: countable
  by countable_datatype

definition sample_env :: sentence_env where
  "sample_env = \<lparr>section_tables = Map.empty, read_batches = (\<lambda>t n. slices (nat n) (table_rows t)),
     section_digest = (\<lambda>t. nat_digits (to_nat (schema_ok t, table_rows t))), sentence_digest = (\<lambda>f. nat_digits (to_nat f)),
     output_root = ''out'', container_text = (\<lambda>_. []), v2_manifest_file = Absent\<rparr>"

definition sample_segmenter :: "string \<Rightarrow> revised_segmenter" where
  "sample_segmenter revision = \<lparr>seg_model_id = SAT_MODEL_ID, seg_version = ''2'', supports_mixed_languages = False,
     seg_split = (\<lambda>texts _. Inr (map (\<lambda>t. map CStr (dot_split t)) texts)), seg_revision = revision\<rparr>"

definition sample_pass :: pass_input where
  "sample_pass = \<lparr>pi_source = \<lparr>schema_ok = True, table_rows = sample_sections\<rparr>, pi_revision = ''main'', pi_batch_size = 1\<rparr>"

definition sample_world :: sentence_world where
  "sample_world = \<lparr>checkpoint_dirs = (\<lambda>_. \<lparr>metadata_file = Absent, batch_files = []\<rparr>), sentence_files = Map.empty,
     sentence_manifest = Absent, budget = None\<rparr>"

lemma sample_faithful: "faithful_inputs sample_env sample_segmenter (\<lambda>_. dot_split)"
proof -
  have "plain_segmenter (sample_segmenter rev) = dot_segmenter" for rev
    by (simp add: plain_segmenter_def sample_segmenter_def dot_segmenter_def segmenter.defs)
  moreover have "inj (\<lambda>t :: section_table. nat_digits (to_nat (schema_ok t, table_rows t)))"
    by (rule injI) simp
  moreover have "inj (\<lambda>f :: sentence_file. nat_digits (to_nat f))"
    by (rule injI) simp
  ultimately show ?thesis
    by (auto simp: faithful_inputs_def sample_env_def dot_segments_with sample_segmenter_def concat_slices)
qed

lemma sample_history: "sentence_history sample_env sample_segmenter sample_world"
  by (rule sentence_history.no_pass) (simp add: sample_world_def)

lemma sample_allowed: "pass_allowed sample_env ''a-latest'' ''wikipedia'' sample_pass"
proof -
  have "is_safe_stem (JStr ''a-latest'') \<and> length (slices 1 sample_sections) = 2" by code_simp
  then show ?thesis by (simp add: pass_allowed_def sample_pass_def batch_count_of_def sample_env_def)
qed

theorem sentence_pass_exact_witness:
  "\<exists>summary w'. run_project (sample_env\<lparr>section_tables := (\<lambda>_. Some (pi_source sample_pass))\<rparr>) ''a-latest'' ''wikipedia''
       (sample_segmenter (pi_revision sample_pass)) (pi_batch_size sample_pass) (sample_world\<lparr>budget := None\<rparr>) = (Inr summary, w')
     \<and> sentence_files w' (''a-latest'', ''wikipedia'')
       = Some (SentenceRows (expected_rows (sample_segmenter (pi_revision sample_pass)) dot_split sample_sections))"
proof -
  let ?run = "run_project (sample_env\<lparr>section_tables := (\<lambda>_. Some (pi_source sample_pass))\<rparr>) ''a-latest'' ''wikipedia''
       (sample_segmenter (pi_revision sample_pass)) (pi_batch_size sample_pass) (sample_world\<lparr>budget := None\<rparr>)"
  note exact = sentence_pass_exact [OF sample_faithful sample_history sample_allowed, of "\<lambda>_. Some (pi_source sample_pass)" None]
  obtain r w' where run: "?run = (r, w')" by fastforce
  have rows: "table_rows (pi_source sample_pass) = sample_sections" by (simp add: sample_pass_def)
  show ?thesis using exact by (cases r) (simp_all add: run rows)
qed


section \<open>The manifest\<close>

lemma load_written_manifest:
  "load_manifest_summaries container seg (write_json (manifest_payload seg summaries)) = Inr summaries"
proof -
  let ?d = "manifest_metadata seg @
       [(''supported_languages'', JList (map JStr SAT_SUPPORTED_LANGUAGES)),
        (''unsupported_languages'', JList (map JStr (sort (remdups (concat (map rs_unsupported_languages summaries)))))),
        (''unsupported_language_policy'', JStr ''one unsplit row; never passed to SaT''),
        (''regions'', JList (map summary_json summaries))]"
  have p: "write_json (manifest_payload seg summaries) = Parsed (JObj (reread ?d))"
    by (simp add: write_json_def manifest_payload_def reread_def)
  have uses: "manifest_uses_segmenter (reread ?d) seg"
    by (simp add: manifest_uses_segmenter_def map_of_reread manifest_metadata_def)
  have reg: "dict_get (reread ?d) ''regions'' JNull = JList (map (\<lambda>s. jsort (summary_json s)) summaries)"
    by (simp add: dict_get_def map_of_reread manifest_metadata_def comp_def)
  have one: "manifest_region_summary container (jsort (summary_json s)) = Inr s" for s
    using read_summary_json [of "jsort (summary_json s)" s container]
    by (auto simp: manifest_region_summary_def summary_from_mapping_def)
  have "res_map (manifest_region_summary container) (map (\<lambda>s. jsort (summary_json s)) summaries) = Inr summaries"
    by (induction summaries) (simp_all add: one)
  then show ?thesis
    unfolding p load_manifest_summaries_def
    by (simp add: load_manifest_payload_def read_json_strict_def uses guard_def reg)
qed

lemma merged_lookup:
  "map_of (fold (\<lambda>s d. AList.update (summary_key s) s d) xs d) k
   = (case map_of (rev (map (\<lambda>s. (summary_key s, s)) xs)) k of Some s \<Rightarrow> Some s | None \<Rightarrow> map_of d k)"
  by (induction xs arbitrary: d) (auto simp: update_conv' map_add_def split: option.split)

lemma merged_distinct: "distinct (map fst d) \<Longrightarrow> distinct (map fst (fold (\<lambda>s d. AList.update (summary_key s) s d) xs d))"
  by (induction xs arbitrary: d) (simp_all add: distinct_update)

lemma map_of_the: "k \<in> set (map fst m) \<Longrightarrow> map_of m k = Some (the (map_of m k))"
  by (cases "map_of m k") (auto simp: map_of_eq_None_iff)

lemma map_of_sorted_keys: "map_of (map (\<lambda>k. (k, the (map_of m k))) (sort (map fst m))) k = map_of m k"
proof (cases "k \<in> set (map fst m)")
  case True
  then show ?thesis using map_of_the [OF True] by (simp add: map_of_map_key)
next
  case False
  then show ?thesis by (simp add: map_of_map_key map_of_eq_None_iff [THEN iffD2])
qed

text \<open>
  C40. The manifest accumulates: after a successful write it reads back, lists every region once in
  increasing order, with the summary of this run where there is one and the recorded one otherwise.
\<close>

theorem sentence_manifest_accumulates:
  assumes "load_manifest_summaries (container_text env) seg (sentence_manifest w) = Inr recorded"
    and "write_sentence_manifest env seg summaries w = (Inr (), w')"
  shows "\<exists>ss. load_manifest_summaries (container_text env) seg (sentence_manifest w') = Inr ss
     \<and> sorted_wrt (<) (map summary_key ss)
     \<and> map_of (map (\<lambda>s. (summary_key s, s)) ss) = map_of (rev (map (\<lambda>s. (summary_key s, s)) (recorded @ summaries)))"
proof -
  let ?m = "fold (\<lambda>s d. AList.update (summary_key s) s d) (recorded @ summaries) []"
  let ?ss = "merge_summaries recorded summaries"
  have w': "sentence_manifest w' = write_json (manifest_payload seg ?ss)"
    using assms by (auto simp: write_sentence_manifest_def pass_bind_def pass_get_def durable_def split: option.splits nat.splits)
  have look: "map_of ?m k = map_of (rev (map (\<lambda>s. (summary_key s, s)) (recorded @ summaries))) k" for k
    by (simp add: merged_lookup del: fold_append map_append rev_append split: option.split)
  have ok: "summary_key s = k" if "map_of ?m k = Some s" for k s
    using map_of_SomeD [OF that [unfolded look]] by auto
  have keys: "map summary_key ?ss = sort (map fst ?m)"
  proof -
    have "summary_key (the (map_of ?m k)) = k" if "k \<in> set (map fst ?m)" for k
      by (rule ok [OF map_of_the [OF that]])
    then have "map (\<lambda>k. summary_key (the (map_of ?m k))) (sort (map fst ?m)) = map id (sort (map fst ?m))"
      by (intro map_cong) simp_all
    then show ?thesis by (simp add: merge_summaries_def Let_def comp_def)
  qed
  have "sorted_wrt (<) (map summary_key ?ss)"
    unfolding keys using merged_distinct [of "[]" "recorded @ summaries"] by (simp add: strict_sorted_iff)
  moreover have "map_of (map (\<lambda>s. (summary_key s, s)) ?ss) k = map_of ?m k" for k
  proof -
    have "map (\<lambda>s. (summary_key s, s)) ?ss = map (\<lambda>k. (k, the (map_of ?m k))) (sort (map fst ?m))"
      using keys by (simp add: merge_summaries_def Let_def comp_def list_eq_iff_nth_eq)
    then show ?thesis
      by (simp only: map_of_sorted_keys)
  qed
  ultimately show ?thesis
    using look w' by (intro exI [of _ ?ss]) (simp add: load_written_manifest fun_eq_iff)
qed

definition sample_summary :: region_summary where
  "sample_summary = \<lparr>rs_stem = ''a-latest'', rs_project = ''wikipedia'', rs_sections = 2, rs_split_sections = 2, rs_unsplit_sections = 0,
     rs_sentence_rows = 5, rs_supported_languages = [''en''], rs_unsupported_languages = []\<rparr>"

theorem sentence_manifest_accumulates_witness:
  "\<exists>w' ss. write_sentence_manifest sample_env (sample_segmenter ''main'') [sample_summary] sample_world = (Inr (), w')
     \<and> load_manifest_summaries (container_text sample_env) (sample_segmenter ''main'') (sentence_manifest w') = Inr ss
     \<and> map_of (map (\<lambda>s. (summary_key s, s)) ss) (''a-latest'', ''wikipedia'') = Some sample_summary"
proof -
  have fresh: "load_manifest_summaries (container_text sample_env) (sample_segmenter ''main'') (sentence_manifest sample_world) = Inr []"
    by (simp add: sample_world_def load_manifest_summaries_def load_manifest_payload_def)
  obtain w' where written: "write_sentence_manifest sample_env (sample_segmenter ''main'') [sample_summary] sample_world = (Inr (), w')"
    using fresh by (simp add: write_sentence_manifest_def pass_bind_def pass_get_def durable_def sample_world_def)
  show ?thesis
    using sentence_manifest_accumulates [OF fresh written] written by (auto simp: sample_summary_def summary_key_def)
qed


section \<open>Two failures that a later run repeats\<close>

text \<open>
  A batch file whose footer is readable and whose rows are not counts as completed, so that it is
  not split again, and stops the pass when its rows are read for the output. Nothing is changed, so
  the next pass stops in the same way.
\<close>

lemma damaged_batch_blocks:
  assumes "map_of (batch_files (checkpoint_dirs w (cp_key cp))) (batch_name k) = Some (DamagedRows n)" and "k < batch_count"
  shows "batch_row_count (checkpoint_dirs w (cp_key cp)) (int k) = Inr (Some n)"
    and "write_output cp batch_count w = (Inl (ValueError ''Invalid sentence checkpoint batch''), w)"
proof -
  let ?d = "checkpoint_dirs w (cp_key cp)"
  have "\<exists>rows. load_checkpoint_batch ?d (int j) = Inr rows" if "res_map (load_checkpoint_batch ?d) (map int js) = Inr bs" "j \<in> set js" for j js bs
    using that by (induction js arbitrary: bs) (auto simp: res_bind_def split: sum.splits)
  moreover have "load_checkpoint_batch ?d (int k) = Inl (ValueError ''Invalid sentence checkpoint batch'')"
    using assms(1) by (simp add: load_checkpoint_batch_def load_batch_table_def)
  moreover have "e = ValueError ''Invalid sentence checkpoint batch''" if "res_map (load_checkpoint_batch ?d) (map int js) = Inl e" for js e
    using that by (induction js) (auto simp: res_bind_def load_checkpoint_batch_def load_batch_table_def split: sum.splits option.splits)
  ultimately have "res_map (load_checkpoint_batch ?d) (map int [0..<batch_count]) = Inl (ValueError ''Invalid sentence checkpoint batch'')"
    using assms(2) by (cases "res_map (load_checkpoint_batch ?d) (map int [0..<batch_count])") (auto, fastforce)
  then show "write_output cp batch_count w = (Inl (ValueError ''Invalid sentence checkpoint batch''), w)"
    by (simp add: write_output_def write_checkpoint_batches_def load_checkpoint_rows_def pass_bind_def pass_get_def)
qed (use assms(1) in \<open>simp add: batch_row_count_def\<close>)

text \<open>
  A manifest of another segmenter is refused only after the regions have been run and their outputs
  replaced.
\<close>

lemma foreign_manifest_fails_last:
  assumes "1 \<le> batch_size" and "seg_model_id seg = SAT_MODEL_ID" and "load_v2_manifest (v2_manifest_file env) = Inr manifest"
    and "select_stems manifest stems = Inr selected" and "run_regions env seg batch_size selected w = (Inr summaries, w1)"
    and "load_manifest_summaries (container_text env) seg (sentence_manifest w1) = Inl e"
  shows "run_v2_sentence_split env seg batch_size stems w = (Inl e, w1)"
  using assms by (simp add: run_v2_sentence_split_def write_sentence_manifest_def pass_bind_def pass_res_def pass_get_def guard_def)

end
