(* ===== verification/Wikipedia_Tags.thy ===== *)
theory Wikipedia_Tags
  imports Osm_Domain
begin

text \<open>
  The references in the Wikipedia tags of a map element (\<open>v2/wikipedia_tags.py\<close>). Three parts of the
  library of Python work on characters or addresses beyond this model and are arguments: the decoding
  of percent escapes, the check of an address in brackets, and the check of a host name that is not
  ASCII; the last two can refuse a value, and \<open>urlparse\<close> raises then.
\<close>

section \<open>URLs\<close>

record url_rules =
  unquote :: "string \<Rightarrow> string"
  bracketed_ok :: "string \<Rightarrow> bool"
  unicode_netloc_ok :: "string \<Rightarrow> bool"

definition is_ascii :: "char \<Rightarrow> bool" where
  "is_ascii c \<longleftrightarrow> (of_char c :: nat) < 128"

definition is_ascii_alpha :: "char \<Rightarrow> bool" where
  "is_ascii_alpha c \<longleftrightarrow> (let n = (of_char c :: nat) in 65 \<le> n \<and> n \<le> 90 \<or> 97 \<le> n \<and> n \<le> 122)"

definition is_ascii_alnum :: "char \<Rightarrow> bool" where
  "is_ascii_alnum c \<longleftrightarrow> is_ascii_alpha c \<or> py_isdigit c"

text \<open>\<open>s.partition(c)\<close> and \<open>s.rpartition(c)\<close>, with whether the separator was found.\<close>

definition py_partition :: "char \<Rightarrow> string \<Rightarrow> string \<times> bool \<times> string" where
  "py_partition c s = (takeWhile (\<lambda>x. x \<noteq> c) s, c \<in> set s, drop 1 (dropWhile (\<lambda>x. x \<noteq> c) s))"

definition after_last :: "char \<Rightarrow> string \<Rightarrow> string" where
  "after_last c s = rev (takeWhile (\<lambda>x. x \<noteq> c) (rev s))"

definition py_replace_char :: "char \<Rightarrow> char \<Rightarrow> string \<Rightarrow> string" where
  "py_replace_char a b s = map (\<lambda>x. if x = a then b else x) s"

record url_parts =
  url_scheme :: string
  url_netloc :: string
  url_path :: string

text \<open>The characters that \<open>urlsplit\<close> removes: control characters and spaces in front, and tabs and line ends everywhere.\<close>

definition url_clean :: "string \<Rightarrow> string" where
  "url_clean url = filter (\<lambda>c. (of_char c :: nat) \<notin> {9, 10, 13}) (dropWhile (\<lambda>c. (of_char c :: nat) \<le> 32) url)"

definition split_scheme :: "string \<Rightarrow> string \<times> string" where
  "split_scheme url =
     (case py_partition CHR '':'' url of (name, found, rest) \<Rightarrow>
        if found \<and> name \<noteq> [] \<and> is_ascii_alpha (hd name) \<and> list_all (\<lambda>c. is_ascii_alnum c \<or> c \<in> set ''+-.'') name
        then (py_lower name, rest) else ([], url))"

definition split_netloc :: "string \<Rightarrow> string \<times> string" where
  "split_netloc url =
     (if take 2 url = ''//'' then (takeWhile (\<lambda>c. c \<notin> set ''/?#'') (drop 2 url), dropWhile (\<lambda>c. c \<notin> set ''/?#'') (drop 2 url))
      else ([], url))"

definition netloc_ok :: "url_rules \<Rightarrow> string \<Rightarrow> bool" where
  "netloc_ok rules netloc \<longleftrightarrow>
     (CHR ''['' \<in> set netloc \<longleftrightarrow> CHR '']'' \<in> set netloc)
     \<and> (CHR ''['' \<in> set netloc \<longrightarrow> bracketed_ok rules netloc)
     \<and> (list_all is_ascii netloc \<or> unicode_netloc_ok rules netloc)"

definition urlparse :: "url_rules \<Rightarrow> string \<Rightarrow> url_parts res" where
  "urlparse rules url =
     (case split_scheme (url_clean url) of (scheme, rest) \<Rightarrow>
      case split_netloc rest of (netloc, rest) \<Rightarrow>
        res_bind (guard (netloc_ok rules netloc) (ValueError ''Invalid URL'')) (\<lambda>_.
          Inr \<lparr>url_scheme = scheme, url_netloc = netloc, url_path = takeWhile (\<lambda>c. c \<notin> set ''?#'') rest\<rparr>))"

definition url_hostname :: "url_parts \<Rightarrow> string option" where
  "url_hostname parts =
     (let hostinfo = after_last CHR ''@'' (url_netloc parts);
          host = (case py_partition CHR ''['' hostinfo of (_, found, bracketed) \<Rightarrow>
                    if found then fst (py_partition CHR '']'' bracketed) else fst (py_partition CHR '':'' hostinfo)) in
      if host = [] then None
      else Some (py_lower (takeWhile (\<lambda>c. c \<noteq> CHR ''%'') host) @ dropWhile (\<lambda>c. c \<noteq> CHR ''%'') host))"

section \<open>Normalising one value\<close>

record tag_ref =
  ref_language :: string
  ref_title :: string
  ref_raw_key :: string
  ref_raw_value :: string

record tag_rejection =
  rej_raw_key :: string
  rej_raw_value :: string
  rej_reason :: string

type_synonym normalized = "(string \<times> string) option \<times> string"

text \<open>\<open>[a-z]{2,3}(?:-[a-z0-9]{2,8})*\<close> on a whole text, without regard to case.\<close>

definition LANGUAGE_RE :: "string \<Rightarrow> bool" where
  "LANGUAGE_RE s \<longleftrightarrow>
     (case py_split CHR ''-'' s of
        [] \<Rightarrow> False
      | p # ps \<Rightarrow> length p \<in> {2, 3} \<and> list_all is_ascii_alpha p
          \<and> list_all (\<lambda>q. 2 \<le> length q \<and> length q \<le> 8 \<and> list_all is_ascii_alnum q) ps)"

definition language_code :: "string \<Rightarrow> string option" where
  "language_code value =
     (let n = py_lower (py_replace_char CHR ''_'' CHR ''-'' (py_strip value)) in
      if LANGUAGE_RE n then Some n else None)"

definition wikipedia_host :: "string option \<Rightarrow> string option" where
  "wikipedia_host host =
     (case host of
        None \<Rightarrow> None
      | Some h \<Rightarrow> (let n = py_lower h in if py_endswith n ''.wikipedia.org'' then Some n else None))"

definition clean_title :: "url_rules \<Rightarrow> string \<Rightarrow> string" where
  "clean_title rules title = py_strip (py_replace_char CHR ''_'' CHR '' '' (unquote rules title))"

definition url_reference :: "url_rules \<Rightarrow> url_parts \<Rightarrow> (string \<times> string) option" where
  "url_reference rules parsed =
     (if url_scheme parsed = [] then None
      else case wikipedia_host (url_hostname parsed) of
        None \<Rightarrow> None
      | Some host \<Rightarrow>
          case language_code (py_removesuffix (py_removesuffix host ''.wikipedia.org'') ''.m'') of
            None \<Rightarrow> None
          | Some language \<Rightarrow>
              if py_startswith (url_path parsed) ''/wiki/''
              then Some (language, clean_title rules (py_removeprefix (url_path parsed) ''/wiki/'')) else None)"

definition from_url :: "url_rules \<Rightarrow> string \<Rightarrow> (string \<times> string) option res" where
  "from_url rules value = res_bind (urlparse rules (py_strip value)) (\<lambda>parsed. Inr (url_reference rules parsed))"

definition normalize_url_reference :: "string option \<Rightarrow> string \<times> string \<Rightarrow> normalized" where
  "normalize_url_reference key_language url_ref =
     (if key_language \<noteq> None \<and> key_language \<noteq> Some (fst url_ref) then (None, ''language disagrees with URL'')
      else (Some url_ref, ''''))"

definition title_reference_parts :: "string option \<Rightarrow> string \<Rightarrow> normalized" where
  "title_reference_parts key_language value =
     (case key_language of
        None \<Rightarrow>
          (case py_partition CHR '':'' value of (language_text, separator, title) \<Rightarrow>
             if \<not> separator then (None, ''missing language prefix'')
             else case language_code language_text of
               None \<Rightarrow> (None, ''invalid language code'')
             | Some language \<Rightarrow> (Some (language, title), ''''))
      | Some language \<Rightarrow> (Some (language, value), ''''))"

definition normalize_title_reference :: "url_rules \<Rightarrow> string option \<Rightarrow> string \<Rightarrow> normalized" where
  "normalize_title_reference rules key_language value =
     (case title_reference_parts key_language value of
        (None, reason) \<Rightarrow> (None, reason)
      | (Some (language, raw), _) \<Rightarrow>
          (let title = clean_title rules raw in
           if title = [] \<or> py_startswith title '':'' then (None, ''empty language or title'') else (Some (language, title), '''')))"

definition normalize_value :: "url_rules \<Rightarrow> string option \<Rightarrow> string \<Rightarrow> normalized res" where
  "normalize_value rules key_language value =
     (let value = py_strip value in
      if value = [] then Inr (None, ''empty language or title'')
      else res_bind (from_url rules value) (\<lambda>url_ref.
        Inr (case url_ref of Some r \<Rightarrow> normalize_url_reference key_language r | None \<Rightarrow> normalize_title_reference rules key_language value)))"

section \<open>All tags of an element\<close>

definition is_wikipedia_key :: "string \<Rightarrow> bool" where
  "is_wikipedia_key key \<longleftrightarrow> key = ''wikipedia'' \<or> py_startswith key ''wikipedia:''"

definition tag_language :: "string \<Rightarrow> string option \<times> string option" where
  "tag_language key =
     (if key = ''wikipedia'' then (None, None)
      else case language_code (py_removeprefix key ''wikipedia:'') of
        None \<Rightarrow> (None, Some ''invalid language code'')
      | Some language \<Rightarrow> (Some language, None))"

record tag_scan =
  seen_refs :: "(string \<times> string) list"
  found_refs :: "tag_ref list"
  rejected_tags :: "tag_rejection list"

definition reject_tag :: "string \<Rightarrow> string \<Rightarrow> string \<Rightarrow> tag_scan \<Rightarrow> tag_scan" where
  "reject_tag key value reason st =
     st\<lparr>rejected_tags := rejected_tags st @ [\<lparr>rej_raw_key = key, rej_raw_value = value, rej_reason = reason\<rparr>]\<rparr>"

definition append_tag_value :: "url_rules \<Rightarrow> string \<Rightarrow> string \<Rightarrow> string option \<Rightarrow> string \<Rightarrow> tag_scan \<Rightarrow> tag_scan res" where
  "append_tag_value rules key raw key_language value st =
     (if value = [] then Inr (reject_tag key raw ''empty value'' st)
      else res_bind (normalize_value rules key_language value) (\<lambda>(normalized, reason).
        case normalized of
          None \<Rightarrow> Inr (reject_tag key value reason st)
        | Some identity \<Rightarrow>
            if identity \<in> set (seen_refs st) then Inr st
            else Inr (st\<lparr>seen_refs := identity # seen_refs st,
              found_refs := found_refs st @
                [\<lparr>ref_language = fst identity, ref_title = snd identity, ref_raw_key = key, ref_raw_value = value\<rparr>]\<rparr>)))"

definition consume_tag_values :: "url_rules \<Rightarrow> string \<Rightarrow> string \<Rightarrow> string option \<Rightarrow> tag_scan \<Rightarrow> tag_scan res" where
  "consume_tag_values rules key raw key_language =
     res_fold (append_tag_value rules key raw key_language) (map py_strip (py_split CHR '';'' raw))"

definition consume_tag :: "url_rules \<Rightarrow> string \<times> string \<Rightarrow> tag_scan \<Rightarrow> tag_scan res" where
  "consume_tag rules tag st =
     (case tag of (key, raw) \<Rightarrow>
        if \<not> is_wikipedia_key key then Inr st
        else case tag_language key of
          (_, Some reason) \<Rightarrow> Inr (reject_tag key raw reason st)
        | (key_language, None) \<Rightarrow> consume_tag_values rules key raw key_language st)"

definition ref_order :: "tag_ref \<Rightarrow> string \<times> string \<times> string \<times> string" where
  "ref_order r = (ref_language r, ref_title r, ref_raw_key r, ref_raw_value r)"

definition rejection_order :: "tag_rejection \<Rightarrow> string \<times> string \<times> string" where
  "rejection_order r = (rej_raw_key r, rej_raw_value r, rej_reason r)"

definition parse_wikipedia_tags :: "url_rules \<Rightarrow> (string, string) dict \<Rightarrow> (tag_ref list \<times> tag_rejection list) res" where
  "parse_wikipedia_tags rules tags =
     res_bind (res_fold (consume_tag rules) tags \<lparr>seen_refs = [], found_refs = [], rejected_tags = []\<rparr>) (\<lambda>st.
       Inr (sort_key ref_order (found_refs st), sort_key rejection_order (rejected_tags st)))"

section \<open>The parser as a function of its verdicts\<close>

datatype verdict = Reference tag_ref | Rejection tag_rejection

definition value_verdict :: "url_rules \<Rightarrow> string \<Rightarrow> string \<Rightarrow> string option \<Rightarrow> string \<Rightarrow> verdict res" where
  "value_verdict rules key raw key_language value =
     (if value = [] then Inr (Rejection \<lparr>rej_raw_key = key, rej_raw_value = raw, rej_reason = ''empty value''\<rparr>)
      else res_bind (normalize_value rules key_language value) (\<lambda>(normalized, reason).
        Inr (case normalized of
          None \<Rightarrow> Rejection \<lparr>rej_raw_key = key, rej_raw_value = value, rej_reason = reason\<rparr>
        | Some (language, title) \<Rightarrow>
            Reference \<lparr>ref_language = language, ref_title = title, ref_raw_key = key, ref_raw_value = value\<rparr>)))"

definition tag_verdicts :: "url_rules \<Rightarrow> string \<times> string \<Rightarrow> verdict list res" where
  "tag_verdicts rules tag =
     (case tag of (key, raw) \<Rightarrow>
        if \<not> is_wikipedia_key key then Inr []
        else case tag_language key of
          (_, Some reason) \<Rightarrow> Inr [Rejection \<lparr>rej_raw_key = key, rej_raw_value = raw, rej_reason = reason\<rparr>]
        | (key_language, None) \<Rightarrow> res_map (value_verdict rules key raw key_language) (map py_strip (py_split CHR '';'' raw)))"

definition all_verdicts :: "url_rules \<Rightarrow> (string, string) dict \<Rightarrow> verdict list res" where
  "all_verdicts rules tags = res_bind (res_map (tag_verdicts rules) tags) (\<lambda>vss. Inr (concat vss))"

definition ref_identity :: "tag_ref \<Rightarrow> string \<times> string" where
  "ref_identity r = (ref_language r, ref_title r)"

fun references :: "verdict list \<Rightarrow> tag_ref list" where
  "references [] = []"
| "references (Reference r # vs) = r # references vs"
| "references (Rejection _ # vs) = references vs"

fun rejections :: "verdict list \<Rightarrow> tag_rejection list" where
  "rejections [] = []"
| "rejections (Rejection r # vs) = r # rejections vs"
| "rejections (Reference _ # vs) = rejections vs"

text \<open>The first element of each class.\<close>

fun first_by :: "('a \<Rightarrow> 'b) \<Rightarrow> 'a list \<Rightarrow> 'a list" where
  "first_by f [] = []"
| "first_by f (x # xs) = x # filter (\<lambda>y. f y \<noteq> f x) (first_by f xs)"

lemma first_by_image: "f ` set (first_by f xs) = f ` set xs"
proof (induction xs)
  case (Cons x xs)
  have "f ` {y \<in> set (first_by f xs). f y \<noteq> f x} = f ` set (first_by f xs) - {f x}" by auto
  then show ?case using Cons by auto
qed simp

lemma first_by_subset: "set (first_by f xs) \<subseteq> set xs"
  by (induction xs) auto

lemma first_by_distinct: "distinct (map f (first_by f xs))"
  by (induction xs) (auto simp: distinct_map inj_on_def)

fun absorb :: "verdict \<Rightarrow> tag_scan \<Rightarrow> tag_scan" where
  "absorb (Reference r) st =
     (if ref_identity r \<in> set (seen_refs st) then st
      else st\<lparr>seen_refs := ref_identity r # seen_refs st, found_refs := found_refs st @ [r]\<rparr>)"
| "absorb (Rejection r) st = st\<lparr>rejected_tags := rejected_tags st @ [r]\<rparr>"

lemma absorbed_refs:
  "found_refs (fold absorb vs st)
   = found_refs st @ filter (\<lambda>r. ref_identity r \<notin> set (seen_refs st)) (first_by ref_identity (references vs))"
proof (induction vs arbitrary: st)
  case (Cons v vs)
  show ?case by (cases v) (auto simp: Cons.IH intro!: filter_cong)
qed simp

lemma absorbed_rejections: "rejected_tags (fold absorb vs st) = rejected_tags st @ rejections vs"
proof (induction vs arbitrary: st)
  case (Cons v vs)
  show ?case by (cases v) (auto simp: Cons.IH)
qed simp

lemma append_tag_value_verdict:
  "append_tag_value rules key raw lang value st = res_bind (value_verdict rules key raw lang value) (\<lambda>v. Inr (absorb v st))"
  by (auto simp: append_tag_value_def value_verdict_def reject_tag_def ref_identity_def res_bind_def
      split: sum.split option.split)

lemma res_fold_verdicts:
  assumes "\<And>x st. f x st = res_bind (g x) (\<lambda>vs. Inr (fold absorb vs st))"
  shows "res_fold f xs st = res_bind (res_map g xs) (\<lambda>vss. Inr (fold absorb (concat vss) st))"
  by (induction xs arbitrary: st) (auto simp: assms res_bind_def split: sum.split)

lemma consume_tag_verdicts: "consume_tag rules tag st = res_bind (tag_verdicts rules tag) (\<lambda>vs. Inr (fold absorb vs st))"
proof -
  obtain key raw where tag: "tag = (key, raw)" by fastforce
  have judged: "res_fold (append_tag_value rules key raw lang) vals st
      = res_bind (res_map (value_verdict rules key raw lang) vals) (\<lambda>vs. Inr (fold absorb vs st))" for lang vals
    by (induction vals arbitrary: st) (auto simp: append_tag_value_verdict res_bind_def split: sum.split)
  show ?thesis
    by (auto simp: tag consume_tag_def tag_verdicts_def consume_tag_values_def judged reject_tag_def split: option.split prod.split)
qed

text \<open>
  C27. The parser judges every value of every Wikipedia tag, keeps the first reference of each page and
  all rejections, and sorts both; it raises exactly when a judgement does.
\<close>

theorem parse_wikipedia_tags_exact:
  "parse_wikipedia_tags rules tags =
     res_bind (all_verdicts rules tags) (\<lambda>vs.
       Inr (sort_key ref_order (first_by ref_identity (references vs)), sort_key rejection_order (rejections vs)))"
  unfolding parse_wikipedia_tags_def all_verdicts_def
  by (simp only: res_fold_verdicts [of "consume_tag rules" "tag_verdicts rules", OF consume_tag_verdicts])
    (auto simp: absorbed_refs absorbed_rejections res_bind_def split: sum.split)

text \<open>The pages found are those of the judged values, each once and from a value that names it, in strict order.\<close>

lemma parsed_refs_unique:
  assumes "parse_wikipedia_tags rules tags = Inr (refs, rejected)"
  shows "distinct (map ref_identity refs)" and "sorted (map ref_order refs)"
    and "\<exists>vs. all_verdicts rules tags = Inr vs \<and> set refs \<subseteq> set (references vs)
      \<and> ref_identity ` set refs = ref_identity ` set (references vs) \<and> mset rejected = mset (rejections vs)"
proof -
  obtain vs where vs: "all_verdicts rules tags = Inr vs"
    and r: "refs = sort_key ref_order (first_by ref_identity (references vs))" "rejected = sort_key rejection_order (rejections vs)"
    using assms unfolding parse_wikipedia_tags_exact by (auto simp: res_bind_def split: sum.splits)
  have "mset (map ref_identity refs) = mset (map ref_identity (first_by ref_identity (references vs)))"
    by (simp add: r)
  then show "distinct (map ref_identity refs)"
    using first_by_distinct mset_eq_imp_distinct_iff by blast
  show "sorted (map ref_order refs)" by (simp add: r)
  show "\<exists>vs. all_verdicts rules tags = Inr vs \<and> set refs \<subseteq> set (references vs)
      \<and> ref_identity ` set refs = ref_identity ` set (references vs) \<and> mset rejected = mset (rejections vs)"
    using vs first_by_subset [of ref_identity "references vs"] by (intro exI [of _ vs]) (auto simp: r first_by_image)
qed

text \<open>A value with an unmatched bracket is not reported but raises, whatever the other tags are.\<close>

lemma unmatched_bracket_raises:
  "parse_wikipedia_tags rules [(''wikipedia'', ''http://[x'')] = Inl (ValueError ''Invalid URL'')"
  by code_simp

text \<open>A URL without a page is accepted as a reference with an empty title.\<close>

lemma empty_page_accepted:
  "parse_wikipedia_tags \<lparr>unquote = id, bracketed_ok = (\<lambda>_. True), unicode_netloc_ok = (\<lambda>_. True)\<rparr>
     [(''wikipedia'', ''https://en.wikipedia.org/wiki/'')]
   = Inr ([\<lparr>ref_language = ''en'', ref_title = [], ref_raw_key = ''wikipedia'', ref_raw_value = ''https://en.wikipedia.org/wiki/''\<rparr>], [])"
  by code_simp

end
