(* ===== verification/V2_Extraction.thy ===== *)
theory V2_Extraction
  imports Wikipedia_Tags Hashing Numbered_Names Effects
begin

text \<open>
  The extraction of the second dataset version with its checkpoint (\<open>v2/extractor.py\<close>, the class
  \<open>ExtractionCheckpoint\<close> of \<open>v2/checkpoints.py\<close>, \<open>pipeline/polygon_fields.py\<close>). The world holds the
  checkpoint directory of one extract and the memory of the process, which survives an exception and is
  set up anew by every run. Each change of the disk is one step of the fault script; a failing step has
  no effect, as files are replaced atomically. The geometry of a candidate, the reader of the extract
  and the version of the package are arguments. A Parquet file is the rows it holds; a file that cannot
  be read or has another schema is bad.
\<close>

section \<open>Rows\<close>

record 'g v2_env =
  url_env :: url_rules
  geometry_of :: "string \<Rightarrow> 'g option res"
  package_version :: string

record candidate =
  cand_type :: string
  cand_id :: int
  cand_tags :: "(string, string) dict"
  cand_geometry :: string

record pbf_stem =
  pbf_name :: string
  pbf_stem :: string
  pbf_region :: string

definition stem_from_path :: "string \<Rightarrow> pbf_stem" where
  "stem_from_path name =
     (let stem = py_removesuffix name ''.osm.pbf'' in
      \<lparr>pbf_name = name, pbf_stem = stem, pbf_region = py_removesuffix stem ''-latest''\<rparr>)"

text \<open>The columns computed from the geometry are a function of it and stay together.\<close>

record 'g common_fields =
  cf_region :: string
  cf_source_pbf :: string
  cf_osm_type :: string
  cf_osm_id :: int
  cf_name :: string
  cf_tags :: "(string, string) dict"
  cf_tag_keys :: "string list"
  cf_tag_count :: nat
  cf_osm_primary_tag :: string
  cf_geometry :: 'g
  cf_has_name :: bool
  cf_extraction_version :: string
  cf_extracted_at :: string

record 'g v2_row = "'g common_fields" +
  row_polygon_id :: string
  row_wikidata :: "string option"
  row_has_wikidata :: bool
  row_has_wikipedia :: bool
  row_wikipedia_language_count :: int
  row_wikipedia_languages :: "string list"
  row_wikipedia_article_count :: int
  row_has_english_wikipedia :: bool
  row_has_french_wikipedia :: bool
  row_text_available :: bool
  row_best_language :: string
  row_tag_refs :: "tag_ref list"
  row_tag_rejections :: "tag_rejection list"
  row_discovery_sources :: "string list"

definition build_common_polygon_fields ::
  "string \<Rightarrow> candidate \<Rightarrow> 'g \<Rightarrow> string \<Rightarrow> string \<Rightarrow> string \<Rightarrow> 'g common_fields" where
  "build_common_polygon_fields version c geom region source_pbf extracted_at =
     (let cleaned_tags = filter (\<lambda>(key, _). key \<noteq> ''wikidata'') (cand_tags c); name = dict_get cleaned_tags ''name'' [] in
      \<lparr>cf_region = region, cf_source_pbf = source_pbf, cf_osm_type = cand_type c, cf_osm_id = cand_id c, cf_name = name,
       cf_tags = cleaned_tags, cf_tag_keys = sort (map fst cleaned_tags), cf_tag_count = length cleaned_tags,
       cf_osm_primary_tag = osm_primary_tag cleaned_tags, cf_geometry = geom, cf_has_name = (name \<noteq> []),
       cf_extraction_version = version, cf_extracted_at = extracted_at\<rparr>)"

definition discovery_sources :: "string list \<Rightarrow> tag_ref list \<Rightarrow> string list" where
  "discovery_sources qids refs = (if qids \<noteq> [] then [''wikidata''] else []) @ (if refs \<noteq> [] then [''wikipedia_tag''] else [])"

definition build_v2_row ::
  "string \<Rightarrow> 'g common_fields \<Rightarrow> string list \<Rightarrow> tag_ref list \<Rightarrow> tag_rejection list \<Rightarrow> 'g v2_row" where
  "build_v2_row source_pbf_stem common qids refs rejs =
     common_fields.extend common
       (v2_row.fields (polygon_id source_pbf_stem (cf_osm_type common) (cf_osm_id common))
          (if qids \<noteq> [] then Some (py_join '';'' qids) else None) (qids \<noteq> []) False 0 [] 0 False False False []
          refs rejs (discovery_sources qids refs))"

definition candidate_to_v2_row :: "'g v2_env \<Rightarrow> pbf_stem \<Rightarrow> string \<Rightarrow> candidate \<Rightarrow> 'g v2_row option res" where
  "candidate_to_v2_row env stem extracted_at c =
     (let qids = qids_from_osm_tag (dict_get (cand_tags c) ''wikidata'' []) in
      res_bind (parse_wikipedia_tags (url_env env) (cand_tags c)) (\<lambda>(refs, rejs).
      if qids = [] \<and> refs = [] then Inr None
      else res_bind (geometry_of env (cand_geometry c)) (\<lambda>parsed.
        case parsed of
          None \<Rightarrow> Inr None
        | Some geom \<Rightarrow>
            let common = build_common_polygon_fields (package_version env) c geom (pbf_region stem) (pbf_name stem) extracted_at in
            Inr (Some (build_v2_row (pbf_stem stem) common qids refs rejs)))))"

section \<open>The checkpoint\<close>

datatype 'g chunk_file = BadChunk | ChunkRows "'g v2_row list"

record 'g ex_world =
  ex_metadata_file :: text_file
  ex_files :: "(string, 'g chunk_file) dict"
  ex_script :: "fault list"
  ck_metadata :: "(string, json) dict"
  ck_next_chunk :: int
  ex_rows :: "'g v2_row list"
  ex_seen :: "string list"
  ex_pending :: "'g v2_row list"

type_synonym ('g, 'a) ex = "('g ex_world, 'a) effect"

definition ex_step :: "('g ex_world \<Rightarrow> 'g ex_world) \<Rightarrow> ('g, unit) ex" where
  "ex_step f w =
     (let w1 = w\<lparr>ex_script := drop 1 (ex_script w)\<rparr> in
      case ex_script w of
        Fails # _ \<Rightarrow> (Raises (OSError ''system call failed''), w1)
      | Crashes # _ \<Rightarrow> (Crashed, w1)
      | _ \<Rightarrow> (Ok (), f w1))"

definition ex_do :: "('g ex_world \<Rightarrow> 'g ex_world) \<Rightarrow> ('g, unit) ex" where
  "ex_do f w = (Ok (), f w)"

definition ex_get :: "('g ex_world \<Rightarrow> 'a) \<Rightarrow> ('g, 'a) ex" where
  "ex_get f w = (Ok (f w), w)"

definition CHECKPOINT_CONTRACT_VERSION :: string where
  "CHECKPOINT_CONTRACT_VERSION = ''wikipedia-tags-v2-checkpoints-v2''"

definition extraction_identity :: "string \<Rightarrow> file_stat_fingerprint \<Rightarrow> int option \<Rightarrow> json" where
  "extraction_identity name fp limit =
     JObj [(''contract_version'', JStr CHECKPOINT_CONTRACT_VERSION), (''source'', JObj (fp_checkpoint fp name)),
       (''limit'', case limit of None \<Rightarrow> JNull | Some n \<Rightarrow> JInt n)]"

definition fresh_extraction :: "json \<Rightarrow> (string, json) dict" where
  "fresh_extraction identity =
     [(''identity'', identity), (''complete'', JBool False), (''next_chunk'', JInt 0), (''chunk_count'', JInt 0), (''row_count'', JInt 0)]"

definition is_chunk_name :: "string \<Rightarrow> bool" where
  "is_chunk_name name \<longleftrightarrow> py_startswith name ''chunk-'' \<and> py_endswith name ''.parquet'' \<and> 14 \<le> length name"

definition chunk_names :: "'g ex_world \<Rightarrow> string list" where
  "chunk_names w = sort (filter is_chunk_name (map fst (ex_files w)))"

definition unlink_chunk :: "string \<Rightarrow> ('g, unit) ex" where
  "unlink_chunk name = ex_step (\<lambda>w. w\<lparr>ex_files := AList.delete name (ex_files w)\<rparr>)"

definition clear_files :: "('g, unit) ex" where
  "clear_files w = io_each unlink_chunk (filter (\<lambda>n. is_chunk_name n \<or> py_endswith n ''.tmp'') (map fst (ex_files w))) w"

definition save_metadata :: "('g, unit) ex" where
  "save_metadata = io_bind (ex_get ck_metadata) (\<lambda>m. ex_step (\<lambda>w. w\<lparr>ex_metadata_file := write_json (JObj m)\<rparr>))"

definition set_metadata :: "(string, json) dict \<Rightarrow> ('g, unit) ex" where
  "set_metadata m = ex_do (\<lambda>w. w\<lparr>ck_metadata := m\<rparr>)"

definition prepare_extraction :: "json \<Rightarrow> ('g, unit) ex" where
  "prepare_extraction identity w =
     (let fresh = io_bind clear_files (\<lambda>_. io_bind (set_metadata (fresh_extraction identity)) (\<lambda>_. save_metadata)) in
      case read_json (ex_metadata_file w) of
        JObj raw \<Rightarrow> if py_json_eq (dict_get raw ''identity'' JNull) identity then set_metadata raw w else fresh w
      | _ \<Rightarrow> fresh w)"

definition open_extraction :: "json \<Rightarrow> ('g, unit) ex" where
  "open_extraction identity =
     io_bind (prepare_extraction identity) (\<lambda>_.
     io_bind (ex_get chunk_names) (\<lambda>names.
     io_bind (io_of_res (res_map (name_number ''chunk-'') names)) (\<lambda>numbers.
       ex_do (\<lambda>w. w\<lparr>ck_next_chunk := Max (set (-1 # numbers)) + 1\<rparr>))))"

definition ck_complete :: "'g ex_world \<Rightarrow> bool" where
  "ck_complete w \<longleftrightarrow> json_truthy (dict_get (ck_metadata w) ''complete'' (JBool False))"

definition read_chunk :: "(string, 'g chunk_file) dict \<Rightarrow> string \<Rightarrow> 'g v2_row list res" where
  "read_chunk files name =
     (case map_of files name of Some (ChunkRows rows) \<Rightarrow> Inr rows | _ \<Rightarrow> Inl (ValueError ''Invalid extraction checkpoint schema''))"

definition read_extraction_rows :: "(string, 'g chunk_file) dict \<Rightarrow> string list \<Rightarrow> 'g v2_row list res" where
  "read_extraction_rows files chunks =
     res_bind (res_map (name_number ''chunk-'') chunks) (\<lambda>indices.
     res_bind (guard (indices = map int [0..<length indices]) (ValueError ''Extraction checkpoint chunks are not contiguous'')) (\<lambda>_.
     res_bind (res_map (read_chunk files) chunks) (\<lambda>rowss. Inr (concat rowss))))"

text \<open>\<open>isinstance(value, int)\<close> holds for truth values too.\<close>

definition json_int :: "json \<Rightarrow> int option" where
  "json_int v = (case v of JInt i \<Rightarrow> Some i | JBool b \<Rightarrow> Some (if b then 1 else 0) | _ \<Rightarrow> None)"

definition extraction_accounting_matches :: "(string, json) dict \<Rightarrow> string list \<Rightarrow> 'g v2_row list \<Rightarrow> bool" where
  "extraction_accounting_matches metadata chunks rows \<longleftrightarrow>
     json_int (dict_get metadata ''chunk_count'' JNull) = Some (int (length chunks))
     \<and> json_int (dict_get metadata ''row_count'' JNull) = Some (int (length rows))"

definition validate_complete_extraction_accounting ::
  "(string, json) dict \<Rightarrow> string list \<Rightarrow> 'g v2_row list \<Rightarrow> unit res" where
  "validate_complete_extraction_accounting metadata chunks rows =
     guard (json_truthy (dict_get metadata ''complete'' (JBool False)) \<longrightarrow> extraction_accounting_matches metadata chunks rows)
       (ValueError ''Complete extraction checkpoint accounting is invalid'')"

definition checked_rows :: "'g ex_world \<Rightarrow> 'g v2_row list res" where
  "checked_rows w =
     res_bind (read_extraction_rows (ex_files w) (chunk_names w)) (\<lambda>rows.
     res_bind (validate_complete_extraction_accounting (ck_metadata w) (chunk_names w) rows) (\<lambda>_. Inr rows))"

definition load_extraction_rows :: "json \<Rightarrow> ('g, 'g v2_row list) ex" where
  "load_extraction_rows identity w =
     (case checked_rows w of
        Inl _ \<Rightarrow>
          io_bind clear_files (\<lambda>_.
          io_bind (ex_do (\<lambda>w. w\<lparr>ck_metadata := fresh_extraction identity, ck_next_chunk := 0\<rparr>)) (\<lambda>_.
          io_bind save_metadata (\<lambda>_. io_ret []))) w
      | Inr rows \<Rightarrow>
          if ck_complete w then (Ok rows, w)
          else
            let n = JInt (int (length (chunk_names w))) in
            io_bind (ex_do (\<lambda>w. w\<lparr>ck_metadata := AList.update ''row_count'' (JInt (int (length rows)))
              (AList.update ''chunk_count'' n (AList.update ''next_chunk'' n (ck_metadata w)))\<rparr>)) (\<lambda>_.
            io_bind save_metadata (\<lambda>_. io_ret rows)) w)"

text \<open>\<open>f"chunk-{index:08d}.parquet"\<close>; the sign of a negative number counts as a digit.\<close>

definition chunk_path :: "int \<Rightarrow> string" where
  "chunk_path index =
     (if 0 \<le> index then numbered_name ''chunk-'' (nat index)
      else ''chunk--'' @ zero_pad 7 (nat (- index)) @ ''.parquet'')"

definition append_metadata :: "int \<Rightarrow> nat \<Rightarrow> (string, json) dict \<Rightarrow> (string, json) dict" where
  "append_metadata next_chunk added m =
     (let previous = (case json_int (dict_get m ''row_count'' (JInt 0)) of None \<Rightarrow> 0 | Some i \<Rightarrow> i) in
      AList.update ''row_count'' (JInt (previous + int added)) (AList.update ''chunk_count'' (JInt (next_chunk + 1))
        (AList.update ''next_chunk'' (JInt (next_chunk + 1)) (AList.update ''complete'' (JBool False) m))))"

definition append_chunk :: "'g v2_row list \<Rightarrow> ('g, unit) ex" where
  "append_chunk rows =
     (if rows = [] then io_ret ()
      else
        io_bind (ex_get ck_next_chunk) (\<lambda>next_chunk.
        io_bind (ex_step (\<lambda>w. w\<lparr>ex_files := AList.update (chunk_path next_chunk) (ChunkRows rows) (ex_files w)\<rparr>)) (\<lambda>_.
        io_bind (ex_do (\<lambda>w. w\<lparr>ck_next_chunk := ck_next_chunk w + 1, ck_metadata := append_metadata next_chunk (length rows) (ck_metadata w)\<rparr>)) (\<lambda>_.
          save_metadata))))"

definition mark_extraction_complete :: "('g, unit) ex" where
  "mark_extraction_complete =
     io_bind (ex_do (\<lambda>w. w\<lparr>ck_metadata := AList.update ''chunk_count'' (JInt (int (length (chunk_names w))))
       (AList.update ''complete'' (JBool True) (ck_metadata w))\<rparr>)) (\<lambda>_. save_metadata)"

definition clear_extraction :: "('g, unit) ex" where
  "clear_extraction = io_bind clear_files (\<lambda>_. ex_step (\<lambda>w. w\<lparr>ex_metadata_file := Absent\<rparr>))"

section \<open>The extraction\<close>

text \<open>A scan of the extract: whether the reader opens it, what it hands over, and how it ends.\<close>

record scan =
  scan_opens :: "unit res"
  scan_candidates :: "candidate list"
  scan_end :: fault

record extraction_run =
  run_name :: string
  run_fingerprint :: file_stat_fingerprint
  run_limit :: "int option"
  run_every :: int
  run_checkpointed :: bool
  run_started_at :: string
  run_scan :: scan

definition run_identity :: "extraction_run \<Rightarrow> json" where
  "run_identity r = extraction_identity (run_name r) (run_fingerprint r) (run_limit r)"

definition limit_reached :: "int option \<Rightarrow> nat \<Rightarrow> bool" where
  "limit_reached limit row_count \<longleftrightarrow> (case limit of None \<Rightarrow> False | Some n \<Rightarrow> n \<le> int row_count)"

definition checkpoint_if_due :: "extraction_run \<Rightarrow> ('g, unit) ex" where
  "checkpoint_if_due r =
     io_bind (ex_get ex_pending) (\<lambda>pending.
       if \<not> run_checkpointed r \<or> int (length pending) < max 1 (run_every r) then io_ret ()
       else io_bind (append_chunk pending) (\<lambda>_. ex_do (\<lambda>w. w\<lparr>ex_pending := []\<rparr>)))"

definition append_extraction_row :: "'g v2_env \<Rightarrow> extraction_run \<Rightarrow> candidate \<Rightarrow> ('g, unit) ex" where
  "append_extraction_row env r c =
     io_bind (ex_get (\<lambda>w. limit_reached (run_limit r) (length (ex_rows w)))) (\<lambda>reached.
       if reached then io_ret ()
       else
         io_bind (io_of_res (candidate_to_v2_row env (stem_from_path (run_name r)) (run_started_at r) c)) (\<lambda>row.
           case row of
             None \<Rightarrow> io_ret ()
           | Some row \<Rightarrow>
               io_bind (ex_get ex_seen) (\<lambda>seen.
                 if row_polygon_id row \<in> set seen then io_ret ()
                 else
                   io_bind (ex_do (\<lambda>w. w\<lparr>ex_rows := ex_rows w @ [row], ex_seen := row_polygon_id row # ex_seen w,
                     ex_pending := ex_pending w @ [row]\<rparr>)) (\<lambda>_. checkpoint_if_due r))))"

definition consume_candidates :: "'g v2_env \<Rightarrow> extraction_run \<Rightarrow> ('g, unit) ex" where
  "consume_candidates env r =
     io_bind (io_each (append_extraction_row env r) (scan_candidates (run_scan r))) (\<lambda>_.
       case scan_end (run_scan r) of
         Fine \<Rightarrow> io_ret ()
       | Fails \<Rightarrow> io_raise (RuntimeError ''PBF read error'')
       | Crashes \<Rightarrow> (\<lambda>w. (Crashed, w)))"

definition flush_checkpoint :: "extraction_run \<Rightarrow> ('g, unit) ex" where
  "flush_checkpoint r = (if run_checkpointed r then io_bind (ex_get ex_pending) append_chunk else io_ret ())"

definition finish_checkpoint :: "extraction_run \<Rightarrow> ('g, unit) ex" where
  "finish_checkpoint r =
     (if run_checkpointed r then io_bind (io_bind (ex_get ex_pending) append_chunk) (\<lambda>_. mark_extraction_complete) else io_ret ())"

text \<open>\<open>try: m except BaseException: h; raise\<close>: an exception of the handler replaces the first one.\<close>

definition io_on_exception :: "('w, 'a) effect \<Rightarrow> ('w, unit) effect \<Rightarrow> ('w, 'a) effect" where
  "io_on_exception m h w =
     (case m w of
        (Raises e, w1) \<Rightarrow> io_bind h (\<lambda>_. io_raise e) w1
      | result \<Rightarrow> result)"

definition load_checkpoint :: "extraction_run \<Rightarrow> ('g, 'g v2_row list) ex" where
  "load_checkpoint r =
     (if run_checkpointed r then io_bind (open_extraction (run_identity r)) (\<lambda>_. load_extraction_rows (run_identity r)) else io_ret [])"

definition extract_v2_pbf :: "'g v2_env \<Rightarrow> extraction_run \<Rightarrow> ('g, 'g v2_row list) ex" where
  "extract_v2_pbf env r =
     io_bind (load_checkpoint r) (\<lambda>rows.
     io_bind (ex_do (\<lambda>w. w\<lparr>ex_rows := rows, ex_seen := map row_polygon_id rows, ex_pending := []\<rparr>)) (\<lambda>_.
     io_bind (ex_get (\<lambda>w. run_checkpointed r \<and> ck_complete w)) (\<lambda>finished.
       if finished then io_ret rows
       else
         io_bind (io_of_res (scan_opens (run_scan r))) (\<lambda>_.
         io_bind (io_on_exception (consume_candidates env r) (flush_checkpoint r)) (\<lambda>_.
         io_bind (finish_checkpoint r) (\<lambda>_. ex_get ex_rows))))))"

end
