(* ===== verification/Extraction_Resume.thy ===== *)
theory Extraction_Resume
  imports V2_Extraction
begin

text \<open>
  The correctness of the resumable extraction: after any history of runs that were killed, or stopped by
  the reader or by a bad candidate, a run that returns has exactly the polygons of the extract.
\<close>

section \<open>What an extraction should return\<close>

definition converted :: "'g v2_env \<Rightarrow> string \<Rightarrow> string \<Rightarrow> candidate \<Rightarrow> 'g v2_row option res" where
  "converted env name t c = candidate_to_v2_row env (stem_from_path name) t c"

definition candidate_key :: "string \<Rightarrow> candidate \<Rightarrow> string" where
  "candidate_key name c = polygon_id (pbf_stem (stem_from_path name)) (cand_type c) (cand_id c)"

definition accepts :: "'g v2_env \<Rightarrow> string \<Rightarrow> candidate \<Rightarrow> bool" where
  "accepts env name c \<longleftrightarrow> (case converted env name [] c of Inr (Some _) \<Rightarrow> True | _ \<Rightarrow> False)"

text \<open>A row is made of a candidate, at whatever time.\<close>

definition renders :: "'g v2_env \<Rightarrow> string \<Rightarrow> 'g v2_row \<Rightarrow> candidate \<Rightarrow> bool" where
  "renders env name row c \<longleftrightarrow> (\<exists>t. converted env name t c = Inr (Some row))"

definition limited :: "int option \<Rightarrow> 'a list \<Rightarrow> 'a list" where
  "limited limit xs = (case limit of None \<Rightarrow> xs | Some n \<Rightarrow> take (nat n) xs)"

text \<open>The first candidate of each accepted polygon, up to the limit.\<close>

definition expected_candidates :: "'g v2_env \<Rightarrow> string \<Rightarrow> int option \<Rightarrow> candidate list \<Rightarrow> candidate list" where
  "expected_candidates env name limit cs = limited limit (first_by (candidate_key name) (filter (accepts env name) cs))"

lemma converted_key: "converted env name t c = Inr (Some row) \<Longrightarrow> row_polygon_id row = candidate_key name c"
  by (auto simp: converted_def candidate_to_v2_row_def candidate_key_def build_v2_row_def build_common_polygon_fields_def
      v2_row.defs common_fields.defs Let_def res_bind_def split: sum.splits if_splits option.splits)

lemma converted_time:
  "case converted env name t c of Inr None \<Rightarrow> converted env name t' c = Inr None | Inl e \<Rightarrow> converted env name t' c = Inl e
   | Inr (Some _) \<Rightarrow> \<exists>row. converted env name t' c = Inr (Some row)"
  by (auto simp: converted_def candidate_to_v2_row_def Let_def res_bind_def split: sum.split option.split)

lemma accepts_iff: "accepts env name c \<longleftrightarrow> (\<exists>row. converted env name t c = Inr (Some row))"
proof -
  have "case converted env name t c of Inr None \<Rightarrow> converted env name [] c = Inr None | Inl e \<Rightarrow> converted env name [] c = Inl e
   | Inr (Some _) \<Rightarrow> \<exists>row. converted env name [] c = Inr (Some row)" by (rule converted_time)
  then show ?thesis by (auto simp: accepts_def split: sum.splits option.splits)
qed

lemma first_by_append: "first_by f (xs @ ys) = first_by f xs @ filter (\<lambda>y. f y \<notin> f ` set xs) (first_by f ys)"
proof (induction xs)
  case (Cons x xs)
  then show ?case by (auto intro!: filter_cong)
qed simp

text \<open>The next polygon: everything accepted before it has been seen, and it has not.\<close>

lemma next_expected:
  assumes "cs = before @ c # rest" and "accepts env name c"
    and "candidate_key name ` set (take n (first_by (candidate_key name) (filter (accepts env name) cs))) = K"
    and "candidate_key name ` set (filter (accepts env name) before) \<subseteq> K" and "candidate_key name c \<notin> K"
    and "n \<le> length (first_by (candidate_key name) (filter (accepts env name) cs))"
  shows "n < length (first_by (candidate_key name) (filter (accepts env name) cs))
    \<and> first_by (candidate_key name) (filter (accepts env name) cs) ! n = c"
proof -
  let ?k = "candidate_key name"
  let ?F = "first_by ?k (filter (accepts env name) cs)"
  let ?B = "first_by ?k (filter (accepts env name) before)"
  have new: "?k c \<notin> ?k ` set (filter (accepts env name) before)" using assms(4,5) by blast
  obtain T where F: "?F = ?B @ c # T"
    using assms(1,2) new by (simp add: first_by_append)
  have d: "distinct (map ?k ?F)" by (rule first_by_distinct)
  have le: "length ?B \<le> n"
  proof (rule ccontr)
    assume "\<not> length ?B \<le> n"
    then have n: "n < length ?B" by simp
    have "?k (?B ! n) \<in> ?k ` set ?B" using n by simp
    then have "?k (?B ! n) \<in> K" using assms(4) by (auto simp: first_by_image)
    then obtain i where i: "i < n" "?k (?F ! i) = ?k (?F ! n)"
      unfolding assms(3) [symmetric] using n F by (auto simp: in_set_conv_nth nth_append)
    then show False using d n F nth_eq_iff_index_eq [OF d, of i n] by (simp add: nth_append)
  qed
  have "\<not> length ?B < n"
  proof
    assume "length ?B < n"
    then have "c \<in> set (take n ?F)" unfolding F by (auto simp: take_Cons' split: if_splits)
    then show False using assms(3,5) by auto
  qed
  then show ?thesis using le F by (simp add: nth_append)
qed

section \<open>The directory\<close>

text \<open>
  An extract: the environment of the conversion, its file name, and its candidates, which the recorded
  metadata of the file identify.
\<close>

record 'g ex_source =
  src_env :: "'g v2_env"
  src_name :: string
  src_content :: "file_stat_fingerprint \<Rightarrow> candidate list"

definition source_ok :: "'g ex_source \<Rightarrow> bool" where
  "source_ok src \<longleftrightarrow>
     (\<forall>fp fp'. fp_checkpoint fp (src_name src) = fp_checkpoint fp' (src_name src) \<longrightarrow> src_content src fp = src_content src fp')"

definition goal :: "'g ex_source \<Rightarrow> file_stat_fingerprint \<Rightarrow> int option \<Rightarrow> candidate list" where
  "goal src fp limit = expected_candidates (src_env src) (src_name src) limit (src_content src fp)"

definition row_prefix :: "'g ex_source \<Rightarrow> candidate list \<Rightarrow> 'g v2_row list \<Rightarrow> bool" where
  "row_prefix src cs rows \<longleftrightarrow> length rows \<le> length cs
     \<and> list_all2 (renders (src_env src) (src_name src)) rows (take (length rows) cs)"

lemma row_prefix_full: "row_prefix src cs rows \<Longrightarrow> length rows = length cs \<Longrightarrow> list_all2 (renders (src_env src) (src_name src)) rows cs"
  by (simp add: row_prefix_def)

lemma row_prefix_append:
  assumes "row_prefix src cs (xs @ ys)"
  shows "row_prefix src cs xs"
proof -
  have "list_all2 (renders (src_env src) (src_name src)) (take (length xs) (xs @ ys)) (take (length xs) (take (length (xs @ ys)) cs))"
    by (rule list_all2_takeI) (use assms in \<open>simp only: row_prefix_def\<close>)
  then show ?thesis using assms by (simp add: row_prefix_def)
qed

abbreviation chunk_name :: "nat \<Rightarrow> string" where
  "chunk_name \<equiv> numbered_name ''chunk-''"

definition is_complete :: "(string, json) dict \<Rightarrow> bool" where
  "is_complete raw \<longleftrightarrow> json_truthy (dict_get raw ''complete'' (JBool False))"

definition identifies :: "'g ex_source \<Rightarrow> file_stat_fingerprint \<Rightarrow> int option \<Rightarrow> (string, json) dict \<Rightarrow> bool" where
  "identifies src fp limit raw \<longleftrightarrow> py_json_eq (dict_get raw ''identity'' JNull) (extraction_identity (src_name src) fp limit)"

text \<open>
  The chunks that were written for a goal: some of them may have been deleted since. When the metadata
  call the extraction complete, they make up the whole goal and are as many as recorded.
\<close>

definition written_for :: "'g ex_source \<Rightarrow> candidate list \<Rightarrow> (string, 'g chunk_file) dict \<Rightarrow> (string, json) dict \<Rightarrow> 'g v2_row list list \<Rightarrow> bool" where
  "written_for src cs files raw R \<longleftrightarrow>
     row_prefix src cs (concat R)
     \<and> (\<forall>n f. (n, f) \<in> set files \<longrightarrow> (\<exists>k<length R. n = chunk_name k \<and> f = ChunkRows (R ! k)))
     \<and> (is_complete raw \<longrightarrow> length (concat R) = length cs \<and> json_int (dict_get raw ''chunk_count'' JNull) = Some (int (length R)))"

definition files_named :: "(string, 'g chunk_file) dict \<Rightarrow> bool" where
  "files_named files \<longleftrightarrow> distinct (map fst files) \<and> (\<forall>n. n \<in> fst ` set files \<longrightarrow> is_chunk_name n)"

definition disk_ok :: "'g ex_source \<Rightarrow> 'g ex_world \<Rightarrow> bool" where
  "disk_ok src w \<longleftrightarrow> files_named (ex_files w)
     \<and> (\<forall>raw fp limit. read_json (ex_metadata_file w) = JObj raw \<longrightarrow> identifies src fp limit raw
         \<longrightarrow> (\<exists>R. written_for src (goal src fp limit) (ex_files w) raw R))"

lemma identifies_goal:
  assumes "source_ok src" "identifies src fp limit raw" "identifies src fp' limit' raw"
  shows "goal src fp limit = goal src fp' limit'"
proof -
  let ?i = "\<lambda>fp limit. [(''contract_version'', JStr CHECKPOINT_CONTRACT_VERSION), (''source'', JObj (fp_checkpoint fp (src_name src))),
       (''limit'', case limit of None \<Rightarrow> JNull | Some n \<Rightarrow> JInt n)]"
  have view: "json_view (JObj (?i fp limit)) = json_view (JObj (?i fp' limit'))"
    using assms(2,3) by (simp add: identifies_def py_json_eq_def extraction_identity_def)
  have "json_view (case limit of None \<Rightarrow> JNull | Some n \<Rightarrow> JInt n) = json_view (case limit' of None \<Rightarrow> JNull | Some n \<Rightarrow> JInt n)"
    using json_view_fields [OF view, of "''limit''"] by simp
  then have l: "limit = limit'" by (auto split: option.splits)
  have s: "json_view (JObj (fp_checkpoint fp (src_name src))) = json_view (JObj (fp_checkpoint fp' (src_name src)))"
    using json_view_fields [OF view, of "''source''"] by simp
  have "fp_checkpoint fp (src_name src) = fp_checkpoint fp' (src_name src)"
    using json_view_fields [OF s, of "''size''"] json_view_fields [OF s, of "''mtime_ns''"] json_view_fields [OF s, of "''ctime_ns''"]
      json_view_fields [OF s, of "''inode''"]
    by (simp add: fp_checkpoint_def)
  then have "src_content src fp = src_content src fp'" using assms(1) unfolding source_ok_def by blast
  then show ?thesis using l by (simp add: goal_def)
qed

lemma identifies_reread [simp]: "identifies src fp limit (reread raw) \<longleftrightarrow> identifies src fp limit raw"
  by (simp add: identifies_def py_json_eq_def dict_get_def map_of_reread view_jsort split: option.split)

lemma is_complete_reread [simp]: "is_complete (reread raw) \<longleftrightarrow> is_complete raw"
  by (simp add: is_complete_def dict_get_def map_of_reread split: option.split)

lemma json_int_jsort [simp]: "json_int (jsort v) = json_int v"
  by (cases v) (simp_all add: json_int_def)

lemma written_reread [simp]: "written_for src cs files (reread raw) R \<longleftrightarrow> written_for src cs files raw R"
proof -
  have "json_int (dict_get (reread raw) ''chunk_count'' JNull) = json_int (dict_get raw ''chunk_count'' JNull)"
    by (simp add: dict_get_def map_of_reread split: option.split)
  then show ?thesis by (simp add: written_for_def)
qed


lemma disk_ok_subset:
  assumes "disk_ok src w" "set (ex_files w') \<subseteq> set (ex_files w)" "distinct (map fst (ex_files w'))" "ex_metadata_file w' = ex_metadata_file w"
  shows "disk_ok src w'"
proof -
  have named: "files_named (ex_files w')" using assms(1-3) unfolding disk_ok_def files_named_def by blast
  have "\<exists>R. written_for src (goal src fp limit) (ex_files w') raw R"
    if raw: "read_json (ex_metadata_file w') = JObj raw" and i: "identifies src fp limit raw" for raw fp limit
  proof -
    obtain R where "written_for src (goal src fp limit) (ex_files w) raw R"
      using assms(1) raw i unfolding disk_ok_def assms(4) by blast
    then have "written_for src (goal src fp limit) (ex_files w') raw R"
      using assms(2) unfolding written_for_def by blast
    then show ?thesis ..
  qed
  then show ?thesis using named unfolding disk_ok_def by blast
qed

lemma disk_okI:
  assumes "source_ok src" "files_named (ex_files w)" "read_json (ex_metadata_file w) = JObj raw" "identifies src fp limit raw"
    and "written_for src (goal src fp limit) (ex_files w) raw R"
  shows "disk_ok src w"
proof -
  have "\<exists>R. written_for src (goal src fp' limit') (ex_files w) raw' R"
    if "read_json (ex_metadata_file w) = JObj raw'" "identifies src fp' limit' raw'" for raw' fp' limit'
  proof -
    have "raw' = raw" using that(1) assms(3) by simp
    then have "goal src fp' limit' = goal src fp limit" using identifies_goal [OF assms(1) assms(4)] that(2) by simp
    then show ?thesis using assms(5) \<open>raw' = raw\<close> by auto
  qed
  then show ?thesis using assms(2) unfolding disk_ok_def by blast
qed

section \<open>Steps\<close>

definition calm :: "fault set \<Rightarrow> 'g ex_world \<Rightarrow> bool" where
  "calm S w \<longleftrightarrow> set (ex_script w) \<subseteq> S"

text \<open>Where a run can leave the disk when the process dies, and when it raises.\<close>

definition died :: "'g ex_source \<Rightarrow> fault set \<Rightarrow> 'g ex_world \<Rightarrow> bool" where
  "died src S w \<longleftrightarrow> Crashes \<in> S \<and> disk_ok src w"

definition stopped :: "'g ex_source \<Rightarrow> bool \<Rightarrow> 'g ex_world \<Rightarrow> bool" where
  "stopped src trouble w \<longleftrightarrow> trouble \<and> disk_ok src w"

lemma assures_step:
  assumes "Fails \<notin> S" and "\<And>w. P w \<Longrightarrow> calm S w"
    and "\<And>w s. P w \<Longrightarrow> set s \<subseteq> S \<Longrightarrow> Q () (f (w\<lparr>ex_script := s\<rparr>))"
    and "\<And>w s. P w \<Longrightarrow> Crashes \<in> S \<Longrightarrow> C (w\<lparr>ex_script := s\<rparr>)"
  shows "assures P (ex_step f) Q X C"
proof (rule assuresI)
  fix w assume p: "P w"
  have s: "set (ex_script w) \<subseteq> S" using assms(2) [OF p] by (simp add: calm_def)
  have d: "set (drop 1 (ex_script w)) \<subseteq> S" using s set_drop_subset by fastforce
  show "ends_in Q X C (ex_step f w)"
  proof (cases "ex_script w")
    case Nil
    then show ?thesis using assms(3) [OF p d] by (simp add: ex_step_def)
  next
    case (Cons a t)
    then show ?thesis using assms(1) assms(3) [OF p d] assms(4) [OF p, of "drop 1 (ex_script w)"] s
      by (cases a) (simp_all add: ex_step_def)
  qed
qed

lemma assures_do: "(\<And>w. P w \<Longrightarrow> Q () (f w)) \<Longrightarrow> assures P (ex_do f) Q X C"
  by (simp add: assures_def ex_do_def)

lemma assures_get: "(\<And>w. P w \<Longrightarrow> Q (f w) w) \<Longrightarrow> assures P (ex_get f) Q X C"
  by (simp add: assures_def ex_get_def)

lemma disk_ok_script [simp]: "disk_ok src (w\<lparr>ex_script := s\<rparr>) = disk_ok src w"
  by (simp add: disk_ok_def)

lemma clear_files_ok:
  assumes "Fails \<notin> S"
  shows "assures (\<lambda>w. disk_ok src w \<and> calm S w) clear_files (\<lambda>_ w. ex_files w = [] \<and> calm S w \<and> disk_ok src w) X (died src S)"
proof (rule assuresI)
  fix w :: "'a ex_world"
  assume w: "disk_ok src w \<and> calm S w"
  let ?ns = "filter (\<lambda>n. is_chunk_name n \<or> py_endswith n ''.tmp'') (map fst (ex_files w))"
  let ?I = "\<lambda>i v. ex_files v = filter (\<lambda>(n, _). n \<notin> set (take i ?ns)) (ex_files w) \<and> ex_metadata_file v = ex_metadata_file w \<and> calm S v"
  have ns: "?ns = map fst (ex_files w)"
    using w unfolding disk_ok_def files_named_def by (intro filter_True) auto
  have sub: "disk_ok src v" if "?I i v" for i v
    by (rule disk_ok_subset [of src w]) (use that w in \<open>auto simp: disk_ok_def files_named_def intro: distinct_map_filter\<close>)
  have one: "assures (?I i) (unlink_chunk (?ns ! i)) (\<lambda>_. ?I (Suc i)) X (died src S)" if "i < length ?ns" for i
    unfolding unlink_chunk_def
  proof (rule assures_step [OF assms])
    fix v s assume "?I i v" "set s \<subseteq> S"
    then show "?I (Suc i) ((v\<lparr>ex_script := s\<rparr>)\<lparr>ex_files := AList.delete (?ns ! i) (ex_files (v\<lparr>ex_script := s\<rparr>))\<rparr>)"
      using that by (simp add: AList.delete_eq calm_def take_Suc_conv_app_nth) (auto intro!: filter_cong)
  next
    fix v s assume "?I i v" "Crashes \<in> S"
    then show "died src S (v\<lparr>ex_script := s\<rparr>)" using sub by (simp add: died_def)
  qed blast
  have "assures (?I 0) (io_each unlink_chunk ?ns) (\<lambda>_. ?I (length ?ns)) X (died src S)"
    by (rule assures_each [OF one])
  then have "ends_in (\<lambda>_. ?I (length ?ns)) X (died src S) (io_each unlink_chunk ?ns w)"
    by (rule assuresD) (use w in simp)
  then have "ends_in (\<lambda>_ w. ex_files w = [] \<and> calm S w \<and> disk_ok src w) X (died src S) (io_each unlink_chunk ?ns w)"
  proof (rule ends_in_mono)
    fix a v assume v: "?I (length ?ns) v"
    then have "ex_files v = []" by (simp add: ns) (force simp: filter_empty_conv)
    then show "ex_files v = [] \<and> calm S v \<and> disk_ok src v" using v sub [OF v] by simp
  qed
  then show "ends_in (\<lambda>_ w. ex_files w = [] \<and> calm S w \<and> disk_ok src w) X (died src S) (clear_files w)"
    by (simp add: clear_files_def)
qed

section \<open>Opening and loading\<close>

text \<open>The metadata on disk are those in memory, up to the order of keys.\<close>

definition in_sync :: "'g ex_world \<Rightarrow> bool" where
  "in_sync w \<longleftrightarrow> (\<exists>raw. read_json (ex_metadata_file w) = JObj raw \<and> (raw = ck_metadata w \<or> raw = reread (ck_metadata w)))"

definition opened :: "'g ex_source \<Rightarrow> fault set \<Rightarrow> file_stat_fingerprint \<Rightarrow> int option \<Rightarrow> 'g ex_world \<Rightarrow> bool" where
  "opened src S fp limit w \<longleftrightarrow> calm S w \<and> disk_ok src w \<and> in_sync w \<and> identifies src fp limit (ck_metadata w)"

lemma openedD:
  assumes "opened src S fp limit w"
  obtains R where "written_for src (goal src fp limit) (ex_files w) (ck_metadata w) R"
proof -
  obtain raw where raw: "read_json (ex_metadata_file w) = JObj raw" "raw = ck_metadata w \<or> raw = reread (ck_metadata w)"
    using assms unfolding opened_def in_sync_def by blast
  then have "identifies src fp limit raw" using assms by (auto simp: opened_def)
  then obtain R where "written_for src (goal src fp limit) (ex_files w) raw R"
    using assms raw(1) unfolding opened_def disk_ok_def by blast
  then show thesis using raw(2) that by auto
qed

definition saveable :: "'g ex_source \<Rightarrow> fault set \<Rightarrow> file_stat_fingerprint \<Rightarrow> int option \<Rightarrow> 'g ex_world \<Rightarrow> bool" where
  "saveable src S fp limit w \<longleftrightarrow> calm S w \<and> disk_ok src w \<and> identifies src fp limit (ck_metadata w)
     \<and> (\<exists>R. written_for src (goal src fp limit) (ex_files w) (ck_metadata w) R)"

lemma save_metadata_ok:
  assumes "source_ok src" "Fails \<notin> S" "\<And>w m s. Z w \<Longrightarrow> Z (w\<lparr>ex_script := s, ex_metadata_file := m\<rparr>)"
  shows "assures (\<lambda>w. saveable src S fp limit w \<and> Z w) save_metadata (\<lambda>_ w. opened src S fp limit w \<and> Z w) X (died src S)"
  unfolding save_metadata_def
proof (rule assures_bind)
  show "assures (\<lambda>w. saveable src S fp limit w \<and> Z w) (ex_get ck_metadata)
      (\<lambda>m w. (saveable src S fp limit w \<and> Z w) \<and> m = ck_metadata w) X (died src S)"
    by (rule assures_get) simp
  show "assures (\<lambda>w. (saveable src S fp limit w \<and> Z w) \<and> m = ck_metadata w) (ex_step (\<lambda>w. w\<lparr>ex_metadata_file := write_json (JObj m)\<rparr>))
      (\<lambda>_ w. opened src S fp limit w \<and> Z w) X (died src S)" for m
  proof (rule assures_step [OF assms(2)])
    fix w :: "'a ex_world" and s
    assume w: "(saveable src S fp limit w \<and> Z w) \<and> m = ck_metadata w" and s: "set s \<subseteq> S"
    let ?w = "(w\<lparr>ex_script := s\<rparr>)\<lparr>ex_metadata_file := write_json (JObj m)\<rparr>"
    have r: "read_json (ex_metadata_file ?w) = JObj (reread m)" by (simp add: read_written)
    obtain R where R: "written_for src (goal src fp limit) (ex_files w) m R" using w unfolding saveable_def by blast
    have n: "files_named (ex_files ?w)" using w by (simp add: saveable_def disk_ok_def)
    have "disk_ok src ?w"
      by (rule disk_okI [OF assms(1) n r, of fp limit R]) (use w R in \<open>simp_all add: saveable_def\<close>)
    moreover have "in_sync ?w" using w r by (simp add: in_sync_def)
    moreover have "Z ?w" using assms(3) w by simp
    ultimately show "opened src S fp limit ?w \<and> Z ?w" using w s by (simp add: opened_def calm_def saveable_def)
  next
    fix w :: "'a ex_world" and s
    assume "(saveable src S fp limit w \<and> Z w) \<and> m = ck_metadata w" "Crashes \<in> S"
    then show "died src S (w\<lparr>ex_script := s\<rparr>)" by (simp add: died_def saveable_def)
  qed (simp add: saveable_def)
qed

lemma fresh_saveable:
  assumes "ex_files w = []" "calm S w" "ck_metadata w = fresh_extraction (extraction_identity (src_name src) fp limit)" "disk_ok src w"
  shows "saveable src S fp limit w"
  using assms
  by (auto simp: saveable_def identifies_def py_json_eq_def fresh_extraction_def dict_get_def written_for_def row_prefix_def
      is_complete_def json_truthy_def intro!: exI [of _ "[]"])

lemma prepare_extraction_ok:
  assumes "source_ok src" "Fails \<notin> S"
  shows "assures (\<lambda>w. disk_ok src w \<and> calm S w) (prepare_extraction (extraction_identity (src_name src) fp limit))
    (\<lambda>_. opened src S fp limit) X (died src S)"
proof (rule assuresI)
  fix w :: "'a ex_world"
  assume w: "disk_ok src w \<and> calm S w"
  let ?id = "extraction_identity (src_name src) fp limit"
  let ?fresh = "io_bind clear_files (\<lambda>_. io_bind (set_metadata (fresh_extraction ?id)) (\<lambda>_. save_metadata))"
  have fresh: "ends_in (\<lambda>_. opened src S fp limit) X (died src S) (?fresh w)"
  proof (rule assuresD [of "\<lambda>w. disk_ok src w \<and> calm S w", OF assures_bind [OF _ assures_bind]])
    show "assures (\<lambda>w. disk_ok src w \<and> calm S w) clear_files (\<lambda>_ w. ex_files w = [] \<and> calm S w \<and> disk_ok src w) X (died src S)"
      by (rule clear_files_ok [OF assms(2)])
    show "assures (\<lambda>w. ex_files w = [] \<and> calm S w \<and> disk_ok src w) (set_metadata (fresh_extraction ?id))
        (\<lambda>_ w. saveable src S fp limit w \<and> True) X (died src S)"
      unfolding set_metadata_def by (rule assures_do) (auto intro!: fresh_saveable simp: calm_def disk_ok_def)
    show "assures (\<lambda>w. saveable src S fp limit w \<and> True) save_metadata (\<lambda>_. opened src S fp limit) X (died src S)"
      by (rule assures_weaken [OF save_metadata_ok [OF assms, of "\<lambda>_. True"]]) simp_all
  qed (rule w)
  show "ends_in (\<lambda>_. opened src S fp limit) X (died src S) (prepare_extraction ?id w)"
  proof (cases "\<exists>raw. read_json (ex_metadata_file w) = JObj raw \<and> py_json_eq (dict_get raw ''identity'' JNull) ?id")
    case True
    then obtain raw where raw: "read_json (ex_metadata_file w) = JObj raw" "py_json_eq (dict_get raw ''identity'' JNull) ?id" by blast
    then have "opened src S fp limit (w\<lparr>ck_metadata := raw\<rparr>)"
      using w by (simp add: opened_def in_sync_def identifies_def calm_def disk_ok_def)
    then show ?thesis using raw by (simp add: prepare_extraction_def set_metadata_def ex_do_def)
  next
    case False
    then have "prepare_extraction ?id w = ?fresh w"
      by (auto simp: prepare_extraction_def Let_def split: json.split)
    then show ?thesis using fresh by simp
  qed
qed

lemma written_names:
  assumes "written_for src cs files raw R" "files_named files"
  shows "\<exists>ks. sort (filter is_chunk_name (map fst files)) = map chunk_name ks \<and> distinct ks \<and> set ks \<subseteq> {0..<length R}"
proof -
  let ?ns = "sort (filter is_chunk_name (map fst files))"
  have "\<forall>n\<in>set ?ns. \<exists>k<length R. n = chunk_name k"
    using assms(1) unfolding written_for_def by fastforce
  then obtain f where f: "\<And>n. n \<in> set ?ns \<Longrightarrow> f n < length R \<and> n = chunk_name (f n)" by metis
  have "map (chunk_name \<circ> f) ?ns = ?ns"
  proof (rule map_idI)
    show "(chunk_name \<circ> f) n = n" if "n \<in> set ?ns" for n using f [OF that] by simp
  qed
  then have "map chunk_name (map f ?ns) = ?ns" by simp
  moreover have "distinct ?ns" using assms(2) by (simp add: files_named_def)
  ultimately have "distinct (map f ?ns)" by (metis distinct_map)
  moreover have "\<forall>n\<in>set ?ns. f n < length R" using f by blast
  ultimately show ?thesis using \<open>map chunk_name (map f ?ns) = ?ns\<close> by (intro exI [of _ "map f ?ns"]) auto
qed

lemma numbers_of_names [simp]: "res_map (name_number ''chunk-'') (map chunk_name ks) = Inr (map int ks)"
  by (induction ks) simp_all

definition numbered :: "'g ex_world \<Rightarrow> bool" where
  "numbered w \<longleftrightarrow> (\<exists>ks. chunk_names w = map chunk_name ks \<and> ck_next_chunk w = Max (set (-1 # map int ks)) + 1)"

lemma open_extraction_ok:
  assumes "source_ok src" "Fails \<notin> S"
  shows "assures (\<lambda>w. disk_ok src w \<and> calm S w) (open_extraction (extraction_identity (src_name src) fp limit))
    (\<lambda>_ w. opened src S fp limit w \<and> numbered w) (stopped src trouble) (died src S)"
  unfolding open_extraction_def
proof (rule assures_bind [OF prepare_extraction_ok [OF assms]], rule assures_bind)
  show "assures (opened src S fp limit) (ex_get chunk_names) (\<lambda>names w. opened src S fp limit w \<and> names = chunk_names w)
      (stopped src trouble) (died src S)"
    by (rule assures_get) simp
  show "assures (\<lambda>w. opened src S fp limit w \<and> names = chunk_names w)
      (io_bind (io_of_res (res_map (name_number ''chunk-'') names)) (\<lambda>numbers. ex_do (\<lambda>w. w\<lparr>ck_next_chunk := Max (set (-1 # numbers)) + 1\<rparr>)))
      (\<lambda>_ w. opened src S fp limit w \<and> numbered w) (stopped src trouble) (died src S)" for names
  proof (rule assuresI)
    fix w :: "'a ex_world"
    assume w: "opened src S fp limit w \<and> names = chunk_names w"
    then obtain R where R: "written_for src (goal src fp limit) (ex_files w) (ck_metadata w) R" by (blast elim: openedD)
    obtain ks where ks: "names = map chunk_name ks"
      using written_names [OF R] w by (auto simp: opened_def disk_ok_def chunk_names_def)
    let ?w = "w\<lparr>ck_next_chunk := Max (set (-1 # map int ks)) + 1\<rparr>"
    have "opened src S fp limit ?w" using w by (simp add: opened_def calm_def disk_ok_def in_sync_def)
    moreover have "numbered ?w" using w ks unfolding numbered_def by (intro exI [of _ ks]) (simp add: chunk_names_def)
    ultimately show "ends_in (\<lambda>_ w. opened src S fp limit w \<and> numbered w) (stopped src trouble) (died src S)
        (io_bind (io_of_res (res_map (name_number ''chunk-'') names)) (\<lambda>numbers. ex_do (\<lambda>w. w\<lparr>ck_next_chunk := Max (set (-1 # numbers)) + 1\<rparr>)) w)"
      by (simp add: ks io_of_res_def ex_do_def)
  qed
qed

text \<open>What was read is the beginning of what was written, and all of it when the metadata call it complete.\<close>

lemma checked_rows_ok:
  assumes "opened src S fp limit w" "checked_rows w = Inr rows"
  obtains R where "chunk_names w = map chunk_name [0..<length R]" "rows = concat R"
    "written_for src (goal src fp limit) (ex_files w) (ck_metadata w) R"
    "\<forall>k<length R. map_of (ex_files w) (chunk_name k) = Some (ChunkRows (R ! k))"
proof -
  obtain R where R: "written_for src (goal src fp limit) (ex_files w) (ck_metadata w) R" by (rule openedD [OF assms(1)])
  have n: "files_named (ex_files w)" using assms(1) by (simp add: opened_def disk_ok_def)
  obtain ks where ks: "chunk_names w = map chunk_name ks" "set ks \<subseteq> {0..<length R}"
    using written_names [OF R n] by (auto simp: chunk_names_def)
  let ?m = "length ks"
  obtain rowss where rows: "map int ks = map int [0..<?m]" "res_map (read_chunk (ex_files w)) (chunk_names w) = Inr rowss" "rows = concat rowss"
    and acc: "is_complete (ck_metadata w) \<Longrightarrow> json_int (dict_get (ck_metadata w) ''chunk_count'' JNull) = Some (int ?m)"
    using assms(2) unfolding checked_rows_def read_extraction_rows_def ks(1)
    by (auto simp: res_bind_def guard_def validate_complete_extraction_accounting_def extraction_accounting_matches_def is_complete_def
        split: sum.splits if_splits)
  have k: "ks = [0..<?m]" using rows(1) by (simp add: inj_map_eq_map)
  have le: "?m \<le> length R"
  proof (cases ?m)
    case (Suc m)
    then have "m \<in> set ks" by (subst k) simp
    then show ?thesis using ks(2) Suc by auto
  qed simp
  have look: "map_of (ex_files w) (chunk_name j) = Some (ChunkRows (R ! j))" if "j < ?m" for j
  proof -
    have "j \<in> set ks" using that by (subst k) simp
    then have "chunk_name j \<in> set (chunk_names w)" using ks(1) by simp
    then obtain f where f: "(chunk_name j, f) \<in> set (ex_files w)" by (auto simp: chunk_names_def)
    then have "f = ChunkRows (R ! j)" using R unfolding written_for_def by fastforce
    then show ?thesis using f n by (simp add: files_named_def)
  qed
  have "rowss = map (\<lambda>j. R ! j) [0..<?m]"
  proof -
    have "res_map (read_chunk (ex_files w)) (map chunk_name js) = Inr (map (\<lambda>j. R ! j) js)" if "set js \<subseteq> {0..<?m}" for js
      using that look by (induction js) (auto simp: read_chunk_def)
    moreover have "set ks \<subseteq> {0..<?m}" by (subst k) simp
    ultimately have "rowss = map (\<lambda>j. R ! j) ks" using rows(2) ks(1) by simp
    then show ?thesis using k by metis
  qed
  then have rowss: "rowss = take ?m R" using le by (auto intro: nth_equalityI)
  show thesis
  proof (rule that [of "take ?m R"])
    show "chunk_names w = map chunk_name [0..<length (take ?m R)]" using ks(1) k le by simp
    show "rows = concat (take ?m R)" using rows(3) rowss by simp
    show "\<forall>j<length (take ?m R). map_of (ex_files w) (chunk_name j) = Some (ChunkRows (take ?m R ! j))" using look by simp
    have len: "length (take ?m R) = ?m" using le by simp
    have whole: "take ?m R = R" if "is_complete (ck_metadata w)"
      using R acc [OF that] that by (simp add: written_for_def)
    have "row_prefix src (goal src fp limit) (concat (take ?m R))"
    proof -
      have split: "concat R = concat (take ?m R) @ concat (drop ?m R)" by (metis append_take_drop_id concat_append)
      have "row_prefix src (goal src fp limit) (concat R)" using R by (simp add: written_for_def)
      then show ?thesis unfolding split by (rule row_prefix_append)
    qed
    moreover have "\<exists>j<length (take ?m R). name = chunk_name j \<and> f = ChunkRows (take ?m R ! j)" if f: "(name, f) \<in> set (ex_files w)" for name f
    proof -
      have "is_chunk_name name" using f n by (force simp: files_named_def)
      then have "name \<in> set (chunk_names w)" using f by (force simp: chunk_names_def)
      then obtain j where "j \<in> set ks" "name = chunk_name j" using ks(1) by auto
      moreover have "set ks = {0..<?m}" by (subst k) simp
      ultimately have j: "j < ?m" "name = chunk_name j" by auto
      have "map_of (ex_files w) name = Some f" using f n by (simp add: files_named_def)
      then have "f = ChunkRows (R ! j)" using look [OF j(1)] j(2) by simp
      then show ?thesis using j len by auto
    qed
    ultimately show "written_for src (goal src fp limit) (ex_files w) (ck_metadata w) (take ?m R)"
      using R whole unfolding written_for_def by (metis (no_types, lifting))
  qed
qed

section \<open>The state of a running extraction\<close>

definition running ::
  "'g ex_source \<Rightarrow> fault set \<Rightarrow> file_stat_fingerprint \<Rightarrow> int option \<Rightarrow> 'g v2_row list list \<Rightarrow> 'g ex_world \<Rightarrow> bool" where
  "running src S fp limit R w \<longleftrightarrow> calm S w \<and> files_named (ex_files w)
     \<and> written_for src (goal src fp limit) (ex_files w) (ck_metadata w) R
     \<and> (\<forall>k<length R. map_of (ex_files w) (chunk_name k) = Some (ChunkRows (R ! k)))
     \<and> identifies src fp limit (ck_metadata w) \<and> \<not> is_complete (ck_metadata w) \<and> ck_next_chunk w = int (length R)
     \<and> (\<exists>raw. read_json (ex_metadata_file w) = JObj raw \<and> identifies src fp limit raw \<and> \<not> is_complete raw)"

lemma written_incomplete: "written_for src cs files raw R \<Longrightarrow> \<not> is_complete raw' \<Longrightarrow> written_for src cs files raw' R"
  unfolding written_for_def by blast

lemma running_disk:
  assumes "source_ok src" "running src S fp limit R w"
  shows "disk_ok src w"
proof -
  obtain raw where raw: "read_json (ex_metadata_file w) = JObj raw" "identifies src fp limit raw" "\<not> is_complete raw"
    using assms(2) unfolding running_def by blast
  have "written_for src (goal src fp limit) (ex_files w) raw R" "files_named (ex_files w)"
    using assms(2) written_incomplete [OF _ raw(3)] unfolding running_def by blast+
  then show ?thesis using disk_okI [OF assms(1) _ raw(1,2)] by blast
qed

lemma opened_running:
  assumes "opened src S fp limit w" "written_for src (goal src fp limit) (ex_files w) (ck_metadata w) R"
    and "\<forall>k<length R. map_of (ex_files w) (chunk_name k) = Some (ChunkRows (R ! k))"
    and "\<not> is_complete (ck_metadata w)" "ck_next_chunk w = int (length R)"
  shows "running src S fp limit R w"
proof -
  have "\<exists>raw. read_json (ex_metadata_file w) = JObj raw \<and> identifies src fp limit raw \<and> \<not> is_complete raw"
    using assms(1,4) unfolding opened_def in_sync_def by auto
  then show ?thesis using assms unfolding running_def opened_def disk_ok_def by blast
qed

lemma ck_complete_eq: "ck_complete w \<longleftrightarrow> is_complete (ck_metadata w)"
  by (simp add: ck_complete_def is_complete_def)

definition loaded ::
  "'g ex_source \<Rightarrow> fault set \<Rightarrow> file_stat_fingerprint \<Rightarrow> int option \<Rightarrow> 'g v2_row list \<Rightarrow> 'g ex_world \<Rightarrow> bool" where
  "loaded src S fp limit rows w \<longleftrightarrow>
     (if is_complete (ck_metadata w)
      then calm S w \<and> disk_ok src w \<and> row_prefix src (goal src fp limit) rows \<and> length rows = length (goal src fp limit)
      else \<exists>R. running src S fp limit R w \<and> rows = concat R)"

lemma next_number: "Max (set (-1 # map int [0..<m])) + 1 = int m"
proof (cases m)
  case (Suc n)
  have "Max (set (-1 # map int [0..<Suc n])) = int n"
    by (rule Max_eqI) auto
  then show ?thesis unfolding Suc by linarith
qed simp

declare dict_get_update [simp]

lemma load_extraction_rows_ok:
  assumes "source_ok src" "Fails \<notin> S"
  shows "assures (\<lambda>w. opened src S fp limit w \<and> numbered w) (load_extraction_rows (extraction_identity (src_name src) fp limit))
    (loaded src S fp limit) X (died src S)"
proof (rule assuresI)
  fix w :: "'a ex_world"
  assume w: "opened src S fp limit w \<and> numbered w"
  let ?id = "extraction_identity (src_name src) fp limit"
  show "ends_in (loaded src S fp limit) X (died src S) (load_extraction_rows ?id w)"
  proof (cases "checked_rows w")
    case (Inl e)
    let ?Z = "\<lambda>w :: 'a ex_world. ex_files w = [] \<and> ck_next_chunk w = 0 \<and> ck_metadata w = fresh_extraction ?id"
    let ?m = "io_bind clear_files (\<lambda>_.
          io_bind (ex_do (\<lambda>w. w\<lparr>ck_metadata := fresh_extraction ?id, ck_next_chunk := 0\<rparr>)) (\<lambda>_.
          io_bind save_metadata (\<lambda>_. io_ret [])))"
    have "assures (\<lambda>w. disk_ok src w \<and> calm S w) ?m (loaded src S fp limit) X (died src S)"
    proof (rule assures_bind [OF clear_files_ok [OF assms(2)]], rule assures_bind [OF _ assures_bind])
      show "assures (\<lambda>w. ex_files w = [] \<and> calm S w \<and> disk_ok src w) (ex_do (\<lambda>w. w\<lparr>ck_metadata := fresh_extraction ?id, ck_next_chunk := 0\<rparr>))
          (\<lambda>_ w. saveable src S fp limit w \<and> ?Z w) X (died src S)"
        by (rule assures_do) (auto intro!: fresh_saveable simp: calm_def disk_ok_def)
      show "assures (\<lambda>w. saveable src S fp limit w \<and> ?Z w) save_metadata (\<lambda>_ w. opened src S fp limit w \<and> ?Z w) X (died src S)"
        by (rule save_metadata_ok [OF assms]) simp
      show "assures (\<lambda>w. opened src S fp limit w \<and> ?Z w) (io_ret []) (loaded src S fp limit) X (died src S)"
      proof (rule assures_ret)
        fix w :: "'a ex_world" assume w: "opened src S fp limit w \<and> ?Z w"
        have c: "\<not> is_complete (ck_metadata w)"
          using w by (simp add: is_complete_def fresh_extraction_def dict_get_def json_truthy_def)
        have "running src S fp limit [] w"
          by (rule opened_running) (use w c in \<open>simp_all add: written_for_def row_prefix_def\<close>)
        then show "loaded src S fp limit [] w" using c by (auto simp: loaded_def intro!: exI [of _ "[]"])
      qed
    qed
    from assuresD [OF this, of w] show ?thesis using w Inl by (simp add: load_extraction_rows_def opened_def)
  next
    case (Inr rows)
    from w have "opened src S fp limit w" ..
    from checked_rows_ok [OF this Inr] obtain R where R: "chunk_names w = map chunk_name [0..<length R]" "rows = concat R"
      "written_for src (goal src fp limit) (ex_files w) (ck_metadata w) R"
      "\<forall>k<length R. map_of (ex_files w) (chunk_name k) = Some (ChunkRows (R ! k))" by blast
    show ?thesis
    proof (cases "is_complete (ck_metadata w)")
      case True
      then have "loaded src S fp limit rows w" using R w by (simp add: loaded_def written_for_def opened_def)
      then show ?thesis using Inr True by (simp add: load_extraction_rows_def ck_complete_eq)
    next
      case False
      obtain ks where ks: "chunk_names w = map chunk_name ks" "ck_next_chunk w = Max (set (-1 # map int ks)) + 1"
        using w by (auto simp: numbered_def)
      have "inj chunk_name" by (rule injI) simp
      then have "ks = [0..<length R]" using ks(1) R(1) by (simp add: inj_map_eq_map)
      then have next_chunk: "ck_next_chunk w = int (length R)" using ks(2) next_number by metis
      let ?n = "JInt (int (length (chunk_names w)))"
      let ?u = "\<lambda>m. AList.update ''row_count'' (JInt (int (length rows))) (AList.update ''chunk_count'' ?n (AList.update ''next_chunk'' ?n m))"
      let ?w = "w\<lparr>ck_metadata := ?u (ck_metadata w)\<rparr>"
      let ?Z = "\<lambda>v. ck_next_chunk v = int (length R) \<and> ex_files v = ex_files w \<and> ck_metadata v = ck_metadata ?w"
      have c: "\<not> is_complete (ck_metadata ?w)" using False by (simp add: is_complete_def)
      have wr: "written_for src (goal src fp limit) (ex_files w) (ck_metadata ?w) R" by (rule written_incomplete [OF R(3) c])
      have "saveable src S fp limit ?w \<and> ?Z ?w"
        using w wr next_chunk by (auto simp: saveable_def opened_def calm_def disk_ok_def identifies_def)
      then have "ends_in (\<lambda>_ w. opened src S fp limit w \<and> ?Z w) X (died src S) (save_metadata ?w)"
        by (intro assuresD [OF save_metadata_ok [OF assms, of ?Z]]) simp_all
      then have "ends_in (\<lambda>_. loaded src S fp limit rows) X (died src S) (save_metadata ?w)"
      proof (rule ends_in_mono)
        fix v assume v: "opened src S fp limit v \<and> ?Z v"
        have "running src S fp limit R v"
          by (rule opened_running) (use v c wr R(4) in simp_all)
        then show "loaded src S fp limit rows v" using v c R(2) by (auto simp: loaded_def)
      qed
      then show ?thesis using Inr False
        by (cases "save_metadata ?w" rule: prod.exhaust, cases "fst (save_metadata ?w)")
          (simp_all add: load_extraction_rows_def ck_complete_eq ex_do_def io_bind_def io_ret_def Let_def)
    qed
  qed
qed

section \<open>Appending\<close>

lemma is_chunk_name_chunk_name [simp]: "is_chunk_name (chunk_name k)"
  using length_zero_pad [of 8 k] by (simp add: is_chunk_name_def numbered_name_def py_startswith_def py_endswith_def)

lemma identifies_append [simp]: "identifies src fp limit (append_metadata n m raw) \<longleftrightarrow> identifies src fp limit raw"
  by (simp add: identifies_def append_metadata_def Let_def)

lemma append_incomplete [simp]: "\<not> is_complete (append_metadata n m raw)"
  by (simp add: is_complete_def append_metadata_def Let_def json_truthy_def)

text \<open>The memory of the scan, which the checkpoint does not touch.\<close>

definition scan_memory :: "'g ex_world \<Rightarrow> 'g v2_row list \<times> string list \<times> 'g v2_row list" where
  "scan_memory w = (ex_rows w, ex_seen w, ex_pending w)"

lemma written_snoc:
  assumes "written_for src cs files raw R" "row_prefix src cs (concat R @ rows)" "\<not> is_complete raw"
  shows "written_for src cs (AList.update (chunk_name (length R)) (ChunkRows rows) files) raw (R @ [rows])"
proof -
  have "\<exists>k<length (R @ [rows]). n = chunk_name k \<and> f = ChunkRows ((R @ [rows]) ! k)"
    if "(n, f) \<in> set (AList.update (chunk_name (length R)) (ChunkRows rows) files)" for n f
  proof (cases "(n, f) \<in> set files")
    case True
    then obtain k where "k < length R" "n = chunk_name k" "f = ChunkRows (R ! k)"
      using assms(1) unfolding written_for_def by blast
    then show ?thesis by (intro exI [of _ k]) (simp add: nth_append)
  next
    case False
    then have "n = chunk_name (length R) \<and> f = ChunkRows rows" using that set_AList_update by fastforce
    then show ?thesis by (intro exI [of _ "length R"]) simp
  qed
  then show ?thesis using assms(2,3) unfolding written_for_def by simp
qed

lemma running_written:
  assumes "running src S fp limit R w" "row_prefix src (goal src fp limit) (concat R @ rows)" "set s \<subseteq> S"
  shows "running src S fp limit (R @ [rows])
    (w\<lparr>ex_script := s, ex_files := AList.update (chunk_name (length R)) (ChunkRows rows) (ex_files w), ck_next_chunk := ck_next_chunk w + 1\<rparr>)"
proof -
  have "files_named (AList.update (chunk_name (length R)) (ChunkRows rows) (ex_files w))"
    using assms(1) by (auto simp: running_def files_named_def distinct_update)
  moreover have "written_for src (goal src fp limit) (AList.update (chunk_name (length R)) (ChunkRows rows) (ex_files w)) (ck_metadata w) (R @ [rows])"
    by (rule written_snoc) (use assms in \<open>simp_all add: running_def\<close>)
  moreover have "\<forall>k<length (R @ [rows]). map_of (AList.update (chunk_name (length R)) (ChunkRows rows) (ex_files w)) (chunk_name k)
      = Some (ChunkRows ((R @ [rows]) ! k))"
    using assms(1) by (auto simp: running_def update_conv' nth_append less_Suc_eq)
  ultimately show ?thesis using assms unfolding running_def by (simp add: calm_def)
qed

lemma append_chunk_ok:
  assumes "source_ok src" "Fails \<notin> S" "rows \<noteq> []" "row_prefix src (goal src fp limit) (concat R @ rows)"
  shows "assures (\<lambda>w. running src S fp limit R w \<and> scan_memory w = y) (append_chunk rows)
    (\<lambda>_ w. running src S fp limit (R @ [rows]) w \<and> scan_memory w = y) X (died src S)"
proof -
  let ?path = "chunk_name (length R)"
  let ?m1 = "\<lambda>w. running src S fp limit (R @ [rows]) (w\<lparr>ck_next_chunk := ck_next_chunk w + 1\<rparr>) \<and> scan_memory w = y"
  have "assures (\<lambda>w. (running src S fp limit R w \<and> scan_memory w = y) \<and> n = ck_next_chunk w)
      (ex_step (\<lambda>w. w\<lparr>ex_files := AList.update (chunk_path n) (ChunkRows rows) (ex_files w)\<rparr>)) (\<lambda>_. ?m1) X (died src S)" for n
  proof (rule assures_step [OF assms(2)])
    fix w :: "'a ex_world" and s
    assume w: "(running src S fp limit R w \<and> scan_memory w = y) \<and> n = ck_next_chunk w" and s: "set s \<subseteq> S"
    then have "chunk_path n = ?path" by (simp add: running_def chunk_path_def)
    then show "?m1 ((w\<lparr>ex_script := s\<rparr>)\<lparr>ex_files := AList.update (chunk_path n) (ChunkRows rows) (ex_files (w\<lparr>ex_script := s\<rparr>))\<rparr>)"
      using running_written [OF _ assms(4) s, of w] w by (simp add: scan_memory_def)
  next
    fix w :: "'a ex_world" and s
    assume "(running src S fp limit R w \<and> scan_memory w = y) \<and> n = ck_next_chunk w" "Crashes \<in> S"
    then show "died src S (w\<lparr>ex_script := s\<rparr>)" using running_disk [OF assms(1)] by (auto simp: died_def)
  qed (simp add: running_def)
  note chunk = this
  let ?R = "\<lambda>w. running src S fp limit (R @ [rows]) w"
  let ?Z = "\<lambda>w. (\<forall>k<length (R @ [rows]). map_of (ex_files w) (chunk_name k) = Some (ChunkRows ((R @ [rows]) ! k)))
      \<and> written_for src (goal src fp limit) (ex_files w) (ck_metadata w) (R @ [rows])
      \<and> \<not> is_complete (ck_metadata w) \<and> ck_next_chunk w = int (length (R @ [rows])) \<and> scan_memory w = y"
  have memory: "assures ?m1 (ex_do (\<lambda>w. w\<lparr>ck_next_chunk := ck_next_chunk w + 1, ck_metadata := append_metadata n (length rows) (ck_metadata w)\<rparr>))
      (\<lambda>_ w. saveable src S fp limit w \<and> ?Z w) X (died src S)" for n
  proof (rule assures_do)
    fix w :: "'a ex_world" assume w: "?m1 w"
    let ?v = "w\<lparr>ck_next_chunk := ck_next_chunk w + 1\<rparr>"
    let ?w = "w\<lparr>ck_next_chunk := ck_next_chunk w + 1, ck_metadata := append_metadata n (length rows) (ck_metadata w)\<rparr>"
    have r: "?R ?v" using w ..
    have wr: "written_for src (goal src fp limit) (ex_files w) (append_metadata n (length rows) (ck_metadata w)) (R @ [rows])"
      by (rule written_incomplete [of _ _ _ "ck_metadata w"]) (use r in \<open>simp_all add: running_def\<close>)
    have "disk_ok src ?v" by (rule running_disk [OF assms(1) r])
    then have "saveable src S fp limit ?w" using r wr unfolding saveable_def by (auto simp: running_def calm_def disk_ok_def)
    moreover have "?Z ?w" using r w wr by (simp add: running_def scan_memory_def)
    ultimately show "saveable src S fp limit ?w \<and> ?Z ?w" ..
  qed
  have save: "assures (\<lambda>w. saveable src S fp limit w \<and> ?Z w) save_metadata (\<lambda>_ w. ?R w \<and> scan_memory w = y) X (died src S)"
    by (rule assures_weaken [OF save_metadata_ok [OF assms(1,2), of ?Z]]) (auto simp: scan_memory_def intro!: opened_running)
  have get: "assures (\<lambda>w. running src S fp limit R w \<and> scan_memory w = y) (ex_get ck_next_chunk)
      (\<lambda>n w. (running src S fp limit R w \<and> scan_memory w = y) \<and> n = ck_next_chunk w) X (died src S)"
    by (rule assures_get) simp
  show ?thesis
    using assures_bind [OF get assures_bind [OF chunk assures_bind [OF memory save]]] assms(3) by (simp add: append_chunk_def)
qed

section \<open>Scanning\<close>

abbreviation src_key :: "'g ex_source \<Rightarrow> candidate \<Rightarrow> string" where
  "src_key src \<equiv> candidate_key (src_name src)"

abbreviation src_accepts :: "'g ex_source \<Rightarrow> candidate \<Rightarrow> bool" where
  "src_accepts src \<equiv> accepts (src_env src) (src_name src)"

definition all_polygons :: "'g ex_source \<Rightarrow> file_stat_fingerprint \<Rightarrow> candidate list" where
  "all_polygons src fp = first_by (src_key src) (filter (src_accepts src) (src_content src fp))"

lemma goal_limited: "goal src fp limit = limited limit (all_polygons src fp)"
  by (simp add: goal_def expected_candidates_def all_polygons_def)

lemma limited_take: "n \<le> length (limited limit xs) \<Longrightarrow> take n (limited limit xs) = take n xs"
  by (auto simp: limited_def min_absorb1 split: option.splits)

lemma limited_next:
  assumes "\<not> limit_reached limit n" "n < length xs"
  shows "n < length (limited limit xs)" and "limited limit xs ! n = xs ! n"
  using assms by (auto simp: limited_def limit_reached_def split: option.splits)

lemma limited_room: "n < length (limited limit xs) \<Longrightarrow> n < length xs \<and> \<not> limit_reached limit n"
  by (auto simp: limited_def limit_reached_def split: option.splits)

definition scan_state :: "'g ex_source \<Rightarrow> fault set \<Rightarrow> file_stat_fingerprint \<Rightarrow> int option \<Rightarrow> 'g ex_world \<Rightarrow> bool" where
  "scan_state src S fp limit w \<longleftrightarrow>
     (\<exists>R. running src S fp limit R w \<and> ex_rows w = concat R @ ex_pending w) \<and> row_prefix src (goal src fp limit) (ex_rows w)
     \<and> set (ex_seen w) = row_polygon_id ` set (ex_rows w)"

definition scanned :: "'g ex_source \<Rightarrow> fault set \<Rightarrow> file_stat_fingerprint \<Rightarrow> int option \<Rightarrow> candidate list \<Rightarrow> 'g ex_world \<Rightarrow> bool" where
  "scanned src S fp limit before w \<longleftrightarrow> scan_state src S fp limit w
     \<and> (limit_reached limit (length (ex_rows w)) \<or> src_key src ` set (filter (src_accepts src) before) \<subseteq> set (ex_seen w))"

lemma row_prefix_keys:
  assumes "row_prefix src cs rows"
  shows "row_polygon_id ` set rows = src_key src ` set (take (length rows) cs)"
proof -
  have "map row_polygon_id rows = map (src_key src) cs'" if "list_all2 (renders (src_env src) (src_name src)) rows cs'" for cs'
    using that by (induction rule: list_all2_induct) (auto simp: renders_def dest: converted_key)
  then have "map row_polygon_id rows = map (src_key src) (take (length rows) cs)" using assms by (simp add: row_prefix_def)
  then show ?thesis by (metis list.set_map)
qed

lemma row_prefix_snoc:
  assumes "row_prefix src cs rows" "length rows < length cs" "renders (src_env src) (src_name src) row (cs ! length rows)"
  shows "row_prefix src cs (rows @ [row])"
  using assms by (simp add: row_prefix_def take_Suc_conv_app_nth list_all2_appendI)

lemma next_row:
  assumes "row_prefix src (goal src fp limit) rows" "\<not> limit_reached limit (length rows)"
    and "src_content src fp = before @ c # rest" "converted (src_env src) (src_name src) t c = Inr (Some row)"
    and "src_key src ` set (filter (src_accepts src) before) \<subseteq> row_polygon_id ` set rows" "row_polygon_id row \<notin> row_polygon_id ` set rows"
  shows "row_prefix src (goal src fp limit) (rows @ [row])"
proof -
  let ?F = "all_polygons src fp"
  have n: "length rows \<le> length (limited limit ?F)" using assms(1) by (simp add: row_prefix_def goal_limited)
  have le: "length rows \<le> length ?F" using n by (auto simp: limited_def split: option.splits)
  have acc: "src_accepts src c" using assms(4) accepts_iff by blast
  have keys: "src_key src ` set (take (length rows) ?F) = row_polygon_id ` set rows"
    using row_prefix_keys [OF assms(1)] limited_take [OF n] by (simp add: goal_limited)
  have k: "src_key src c \<notin> row_polygon_id ` set rows" using assms(6) converted_key [OF assms(4)] by simp
  have f: "length rows < length ?F \<and> ?F ! length rows = c"
    using next_expected [OF assms(3) acc keys [unfolded all_polygons_def] assms(5) k le [unfolded all_polygons_def]]
    by (simp add: all_polygons_def)
  have "length rows < length (goal src fp limit)" "goal src fp limit ! length rows = c"
    using limited_next [OF assms(2) conjunct1 [OF f]] f by (simp_all add: goal_limited)
  then show ?thesis using row_prefix_snoc [OF assms(1)] assms(4) by (auto simp: renders_def)
qed

text \<open>When everything has been scanned, everything has been found.\<close>

lemma scanned_all:
  assumes "scanned src S fp limit (src_content src fp) w"
  shows "length (ex_rows w) = length (goal src fp limit)"
proof (rule ccontr)
  let ?F = "all_polygons src fp" let ?n = "length (ex_rows w)"
  have p: "row_prefix src (goal src fp limit) (ex_rows w)" and seen: "set (ex_seen w) = row_polygon_id ` set (ex_rows w)"
    using assms by (simp_all add: scanned_def scan_state_def)
  assume "?n \<noteq> length (goal src fp limit)"
  then have n: "?n < length (limited limit ?F)" using p by (simp add: row_prefix_def goal_limited)
  note room = limited_room [OF n]
  have "src_key src ` set (filter (src_accepts src) (src_content src fp)) \<subseteq> set (ex_seen w)"
    using assms room by (simp add: scanned_def)
  moreover have "?F ! ?n \<in> set ?F" using room by simp
  then have "?F ! ?n \<in> set (filter (src_accepts src) (src_content src fp))"
    unfolding all_polygons_def by (rule subsetD [OF first_by_subset])
  ultimately have "src_key src (?F ! ?n) \<in> set (ex_seen w)" by blast
  then have "src_key src (?F ! ?n) \<in> src_key src ` set (take ?n (limited limit ?F))"
    unfolding seen row_prefix_keys [OF p] goal_limited .
  then have "src_key src (?F ! ?n) \<in> src_key src ` set (take ?n ?F)"
    unfolding limited_take [OF less_imp_le [OF n]] .
  then obtain i where "i < ?n" "src_key src (?F ! i) = src_key src (?F ! ?n)" using room by (auto simp: in_set_conv_nth)
  moreover have "distinct (map (src_key src) ?F)" unfolding all_polygons_def by (rule first_by_distinct)
  ultimately show False using room nth_eq_iff_index_eq [of "map (src_key src) ?F" i ?n] by simp
qed

lemma scan_state_disk: "source_ok src \<Longrightarrow> scan_state src S fp limit w \<Longrightarrow> disk_ok src w"
  unfolding scan_state_def by (blast intro: running_disk)

lemma append_pending_ok:
  assumes "source_ok src" "Fails \<notin> S"
  shows "assures (\<lambda>w. scan_state src S fp limit w \<and> scan_memory w = (rows, seen, pending)) (append_chunk pending)
    (\<lambda>_ w. \<exists>R. running src S fp limit R w \<and> scan_memory w = (rows, seen, pending) \<and> rows = concat R) X (died src S)"
proof (rule assuresI)
  fix w :: "'a ex_world"
  assume w: "scan_state src S fp limit w \<and> scan_memory w = (rows, seen, pending)"
  then obtain R where R: "running src S fp limit R w" "rows = concat R @ pending" "row_prefix src (goal src fp limit) (concat R @ pending)"
    by (auto simp: scan_state_def scan_memory_def)
  show "ends_in (\<lambda>_ w. \<exists>R. running src S fp limit R w \<and> scan_memory w = (rows, seen, pending) \<and> rows = concat R) X (died src S) (append_chunk pending w)"
  proof (cases "pending = []")
    case True
    then show ?thesis using R w by (auto simp: append_chunk_def io_ret_def)
  next
    case False
    have "ends_in (\<lambda>_ w. running src S fp limit (R @ [pending]) w \<and> scan_memory w = (rows, seen, pending)) X (died src S) (append_chunk pending w)"
      by (rule assuresD [OF append_chunk_ok [OF assms False R(3)]]) (use w R in simp)
    then show ?thesis
      by (rule ends_in_mono) (use R(2) in \<open>auto intro!: exI [of _ "R @ [pending]"]\<close>)
  qed
qed

text \<open>A run over an extract: the reader hands over the beginning of its candidates, and all of them when it ends well.\<close>

definition run_of :: "'g ex_source \<Rightarrow> extraction_run \<Rightarrow> bool" where
  "run_of src r \<longleftrightarrow> run_name r = src_name src \<and> run_checkpointed r
     \<and> (\<exists>rest. src_content src (run_fingerprint r) = scan_candidates (run_scan r) @ rest \<and> (scan_end (run_scan r) = Fine \<longrightarrow> rest = []))"

definition troubled :: "'g ex_source \<Rightarrow> extraction_run \<Rightarrow> bool" where
  "troubled src r \<longleftrightarrow> isl (scan_opens (run_scan r)) \<or> scan_end (run_scan r) = Fails
     \<or> (\<exists>c. c \<in> set (scan_candidates (run_scan r)) \<and> isl (converted (src_env src) (src_name src) (run_started_at r) c))"

abbreviation run_scanned :: "'g ex_source \<Rightarrow> fault set \<Rightarrow> extraction_run \<Rightarrow> candidate list \<Rightarrow> 'g ex_world \<Rightarrow> bool" where
  "run_scanned src S r \<equiv> scanned src S (run_fingerprint r) (run_limit r)"

abbreviation run_scanning :: "'g ex_source \<Rightarrow> fault set \<Rightarrow> extraction_run \<Rightarrow> 'g ex_world \<Rightarrow> bool" where
  "run_scanning src S r \<equiv> scan_state src S (run_fingerprint r) (run_limit r)"

lemma checkpoint_if_due_ok:
  assumes "source_ok src" "Fails \<notin> S"
  shows "assures (run_scanned src S r before) (checkpoint_if_due r) (\<lambda>_. run_scanned src S r before) X (died src S)"
proof (rule assuresI)
  fix w :: "'a ex_world"
  assume w: "run_scanned src S r before w"
  let ?P = "ex_pending w"
  let ?Q = "\<lambda>_ v. \<exists>R. running src S (run_fingerprint r) (run_limit r) R v \<and> scan_memory v = (ex_rows w, ex_seen w, ?P) \<and> ex_rows w = concat R"
  have "ends_in ?Q X (died src S) (append_chunk ?P w)"
    by (rule assuresD [OF append_pending_ok [OF assms]]) (use w in \<open>simp add: scanned_def scan_memory_def\<close>)
  moreover have "run_scanned src S r before (v\<lparr>ex_pending := []\<rparr>)" if q: "?Q () v" for v
  proof -
    obtain R where R: "running src S (run_fingerprint r) (run_limit r) R v" "scan_memory v = (ex_rows w, ex_seen w, ?P)" "ex_rows w = concat R"
      using q by blast
    have "running src S (run_fingerprint r) (run_limit r) R (v\<lparr>ex_pending := []\<rparr>)"
      using R(1) by (simp add: running_def calm_def)
    then show ?thesis using w R by (auto simp: scanned_def scan_state_def scan_memory_def)
  qed
  ultimately show "ends_in (\<lambda>_. run_scanned src S r before) X (died src S) (checkpoint_if_due r w)"
    using w unfolding checkpoint_if_due_def
    by (cases "append_chunk ?P w" rule: prod.exhaust, cases "fst (append_chunk ?P w)")
      (auto simp: io_bind_def ex_get_def ex_do_def io_ret_def)
qed

lemma append_extraction_row_eval:
  "append_extraction_row env r c w =
     (if limit_reached (run_limit r) (length (ex_rows w)) then (Ok (), w)
      else case converted env (run_name r) (run_started_at r) c of
        Inl e \<Rightarrow> (Raises e, w)
      | Inr None \<Rightarrow> (Ok (), w)
      | Inr (Some row) \<Rightarrow>
          if row_polygon_id row \<in> set (ex_seen w) then (Ok (), w)
          else checkpoint_if_due r (w\<lparr>ex_rows := ex_rows w @ [row], ex_seen := row_polygon_id row # ex_seen w, ex_pending := ex_pending w @ [row]\<rparr>))"
  by (simp add: append_extraction_row_def io_bind_def ex_get_def ex_do_def io_of_res_def io_ret_def io_raise_def converted_def
      split: sum.split option.split)

lemma found_row_scanned:
  assumes "run_scanned src S r before w" "\<not> limit_reached (run_limit r) (length (ex_rows w))"
    and "src_content src (run_fingerprint r) = before @ c # rest" "converted (src_env src) (src_name src) t c = Inr (Some row)"
    and "row_polygon_id row \<notin> set (ex_seen w)"
  shows "run_scanned src S r (before @ [c])
    (w\<lparr>ex_rows := ex_rows w @ [row], ex_seen := row_polygon_id row # ex_seen w, ex_pending := ex_pending w @ [row]\<rparr>)"
proof -
  have st: "run_scanning src S r w" and covered: "src_key src ` set (filter (src_accepts src) before) \<subseteq> set (ex_seen w)"
    using assms(1,2) by (simp_all add: scanned_def)
  have "row_prefix src (goal src (run_fingerprint r) (run_limit r)) (ex_rows w @ [row])"
    by (rule next_row [OF _ assms(2-4)]) (use st covered assms(5) in \<open>simp_all add: scan_state_def\<close>)
  then show ?thesis
    using st covered converted_key [OF assms(4)] unfolding scanned_def scan_state_def by (auto simp: running_def calm_def)
qed

lemma append_extraction_row_ok:
  assumes "source_ok src" "Fails \<notin> S" "run_of src r" "scan_candidates (run_scan r) = before @ c # rest"
  shows "assures (run_scanned src S r before) (append_extraction_row (src_env src) r c) (\<lambda>_. run_scanned src S r (before @ [c]))
    (\<lambda>w. troubled src r \<and> run_scanning src S r w) (died src S)"
proof (rule assuresI)
  fix w :: "'a ex_world"
  assume w: "run_scanned src S r before w"
  obtain rest' where content: "src_content src (run_fingerprint r) = before @ c # rest'" using assms(3,4) unfolding run_of_def by auto
  have name: "run_name r = src_name src" using assms(3) by (simp add: run_of_def)
  let ?row = "converted (src_env src) (src_name src) (run_started_at r) c"
  have acc: "src_accepts src c \<longleftrightarrow> (\<exists>row. ?row = Inr (Some row))" by (rule accepts_iff)
  have in_scan: "c \<in> set (scan_candidates (run_scan r))" using assms(4) by simp
  consider "limit_reached (run_limit r) (length (ex_rows w))"
    | e where "\<not> limit_reached (run_limit r) (length (ex_rows w))" "?row = Inl e"
    | "\<not> limit_reached (run_limit r) (length (ex_rows w))" "?row = Inr None"
    | row where "\<not> limit_reached (run_limit r) (length (ex_rows w))" "?row = Inr (Some row)" by (metis not_None_eq sum.exhaust)
  then show "ends_in (\<lambda>_. run_scanned src S r (before @ [c])) (\<lambda>w. troubled src r \<and> run_scanning src S r w) (died src S)
      (append_extraction_row (src_env src) r c w)"
  proof cases
    case 1
    then show ?thesis using w by (simp add: append_extraction_row_eval scanned_def)
  next
    case (2 e)
    then have "troubled src r" using in_scan unfolding troubled_def by (metis sum.disc(1))
    then show ?thesis using w 2 by (simp add: append_extraction_row_eval scanned_def name)
  next
    case 3
    then show ?thesis using w acc by (simp add: append_extraction_row_eval scanned_def name)
  next
    case (4 row)
    show ?thesis
    proof (cases "row_polygon_id row \<in> set (ex_seen w)")
      case True
      then show ?thesis using w 4 converted_key [OF 4(2)] by (auto simp: append_extraction_row_eval scanned_def name)
    next
      case False
      from assuresD [OF checkpoint_if_due_ok [OF assms(1,2)] found_row_scanned [OF w 4(1) content 4(2) False]]
      show ?thesis using 4 False by (simp add: append_extraction_row_eval name)
    qed
  qed
qed

lemma consume_candidates_ok:
  assumes "source_ok src" "Fails \<notin> S" "run_of src r" "scan_end (run_scan r) = Crashes \<longrightarrow> Crashes \<in> S"
  shows "assures (run_scanned src S r []) (consume_candidates (src_env src) r)
    (\<lambda>_. run_scanned src S r (src_content src (run_fingerprint r))) (\<lambda>w. troubled src r \<and> run_scanning src S r w) (died src S)"
  unfolding consume_candidates_def
proof (rule assures_bind)
  let ?cs = "scan_candidates (run_scan r)"
  have "assures (run_scanned src S r (take i ?cs)) (append_extraction_row (src_env src) r (?cs ! i)) (\<lambda>_. run_scanned src S r (take (Suc i) ?cs))
      (\<lambda>w. troubled src r \<and> run_scanning src S r w) (died src S)" if "i < length ?cs" for i
    using append_extraction_row_ok [OF assms(1-3), of "take i ?cs" "?cs ! i" "drop (Suc i) ?cs"] that
    by (simp add: id_take_nth_drop take_Suc_conv_app_nth)
  from assures_each [of ?cs "\<lambda>i. run_scanned src S r (take i ?cs)", OF this]
  show "assures (run_scanned src S r []) (io_each (append_extraction_row (src_env src) r) ?cs) (\<lambda>_. run_scanned src S r ?cs)
      (\<lambda>w. troubled src r \<and> run_scanning src S r w) (died src S)" by simp
  show "assures (run_scanned src S r ?cs) (case scan_end (run_scan r) of Fine \<Rightarrow> io_ret () | Fails \<Rightarrow> io_raise (RuntimeError ''PBF read error'')
        | Crashes \<Rightarrow> (\<lambda>w. (Crashed, w)))
      (\<lambda>_. run_scanned src S r (src_content src (run_fingerprint r))) (\<lambda>w. troubled src r \<and> run_scanning src S r w) (died src S)"
  proof (cases "scan_end (run_scan r)")
    case Fine
    then have "src_content src (run_fingerprint r) = ?cs" using assms(3) by (auto simp: run_of_def)
    then show ?thesis using Fine by (simp add: assures_ret)
  next
    case Fails
    then show ?thesis by (auto simp: assures_def io_raise_def scanned_def troubled_def)
  next
    case Crashes
    then show ?thesis using assms(1,4) scan_state_disk by (auto simp: assures_def scanned_def died_def)
  qed
qed

section \<open>A whole run\<close>

lemma flush_checkpoint_ok:
  assumes "source_ok src" "Fails \<notin> S"
  shows "assures (run_scanning src S r) (flush_checkpoint r) (\<lambda>_. disk_ok src) X (died src S)"
proof (rule assuresI)
  fix w :: "'a ex_world"
  assume w: "run_scanning src S r w"
  have "ends_in (\<lambda>_ v. \<exists>R. running src S (run_fingerprint r) (run_limit r) R v \<and> scan_memory v = scan_memory w \<and> ex_rows w = concat R) X (died src S)
      (append_chunk (ex_pending w) w)"
    using assuresD [OF append_pending_ok [OF assms, of "run_fingerprint r" "run_limit r" "ex_rows w" "ex_seen w" "ex_pending w" X], of w] w
    by (simp add: scan_memory_def)
  then have "ends_in (\<lambda>_. disk_ok src) X (died src S) (append_chunk (ex_pending w) w)"
    by (rule ends_in_mono) (auto intro: running_disk [OF assms(1)])
  then show "ends_in (\<lambda>_. disk_ok src) X (died src S) (flush_checkpoint r w)"
    using scan_state_disk [OF assms(1) w] by (simp add: flush_checkpoint_def io_bind_def ex_get_def io_ret_def)
qed

lemma running_chunks:
  assumes "running src S fp limit R w"
  shows "length (chunk_names w) = length R"
proof -
  have n: "files_named (ex_files w)" and wr: "written_for src (goal src fp limit) (ex_files w) (ck_metadata w) R"
    and look: "\<forall>k<length R. map_of (ex_files w) (chunk_name k) = Some (ChunkRows (R ! k))"
    using assms unfolding running_def by blast+
  have "set (map fst (ex_files w)) = chunk_name ` {0..<length R}"
  proof (rule set_eqI, rule iffI)
    fix n assume "n \<in> set (map fst (ex_files w))"
    then show "n \<in> chunk_name ` {0..<length R}" using wr unfolding written_for_def by fastforce
  next
    fix n assume "n \<in> chunk_name ` {0..<length R}"
    then obtain k where "k < length R" "n = chunk_name k" by auto
    then have "map_of (ex_files w) n = Some (ChunkRows (R ! k))" using look by blast
    then show "n \<in> set (map fst (ex_files w))" by (force dest: map_of_SomeD)
  qed
  then have "card (set (map fst (ex_files w))) = length R"
    by (simp add: card_image inj_on_def del: set_map)
  moreover have "filter is_chunk_name (map fst (ex_files w)) = map fst (ex_files w)"
    using n unfolding files_named_def by (intro filter_True) auto
  ultimately show ?thesis using n distinct_card unfolding chunk_names_def files_named_def by fastforce
qed

lemma mark_extraction_ok:
  assumes "source_ok src" "Fails \<notin> S" "row_prefix src (goal src fp limit) rows" "length rows = length (goal src fp limit)"
  shows "assures (\<lambda>w. \<exists>R. running src S fp limit R w \<and> scan_memory w = y \<and> rows = concat R) mark_extraction_complete
    (\<lambda>_ w. disk_ok src w \<and> scan_memory w = y) X (died src S)"
  unfolding mark_extraction_complete_def
proof (rule assures_bind)
  show "assures (\<lambda>w. \<exists>R. running src S fp limit R w \<and> scan_memory w = y \<and> rows = concat R)
      (ex_do (\<lambda>w. w\<lparr>ck_metadata := AList.update ''chunk_count'' (JInt (int (length (chunk_names w)))) (AList.update ''complete'' (JBool True) (ck_metadata w))\<rparr>))
      (\<lambda>_ w. saveable src S fp limit w \<and> scan_memory w = y) X (died src S)"
  proof (rule assures_do)
    fix w :: "'a ex_world" assume "\<exists>R. running src S fp limit R w \<and> scan_memory w = y \<and> rows = concat R"
    then obtain R where R: "running src S fp limit R w" "scan_memory w = y" "rows = concat R" by blast
    let ?m = "AList.update ''chunk_count'' (JInt (int (length (chunk_names w)))) (AList.update ''complete'' (JBool True) (ck_metadata w))"
    have "written_for src (goal src fp limit) (ex_files w) ?m R"
      using R assms(4) running_chunks [OF R(1)] unfolding written_for_def running_def by (auto simp: json_int_def)
    then have "saveable src S fp limit (w\<lparr>ck_metadata := ?m\<rparr>)"
      using R(1) running_disk [OF assms(1) R(1)] unfolding saveable_def
      by (auto simp: running_def calm_def disk_ok_def identifies_def)
    then show "saveable src S fp limit (w\<lparr>ck_metadata := ?m\<rparr>) \<and> scan_memory (w\<lparr>ck_metadata := ?m\<rparr>) = y"
      using R(2) by (simp add: scan_memory_def)
  qed
  show "assures (\<lambda>w. saveable src S fp limit w \<and> scan_memory w = y) save_metadata (\<lambda>_ w. disk_ok src w \<and> scan_memory w = y) X (died src S)"
    by (rule assures_weaken [OF save_metadata_ok [OF assms(1,2), of "\<lambda>w. scan_memory w = y"]]) (auto simp: scan_memory_def opened_def)
qed

definition run_complete :: "'g ex_source \<Rightarrow> extraction_run \<Rightarrow> 'g v2_row list \<Rightarrow> 'g ex_world \<Rightarrow> bool" where
  "run_complete src r rows w \<longleftrightarrow> disk_ok src w \<and> row_prefix src (goal src (run_fingerprint r) (run_limit r)) rows
     \<and> length rows = length (goal src (run_fingerprint r) (run_limit r))"

lemma finish_checkpoint_ok:
  assumes "source_ok src" "Fails \<notin> S" "run_of src r"
  shows "assures (run_scanned src S r (src_content src (run_fingerprint r))) (finish_checkpoint r) (\<lambda>_ w. run_complete src r (ex_rows w) w) X (died src S)"
proof (rule assuresI)
  fix w :: "'a ex_world"
  assume w: "run_scanned src S r (src_content src (run_fingerprint r)) w"
  let ?G = "goal src (run_fingerprint r) (run_limit r)"
  have p: "row_prefix src ?G (ex_rows w)" "length (ex_rows w) = length ?G"
    using w scanned_all [OF w] by (simp_all add: scanned_def scan_state_def)
  have "assures (\<lambda>v. run_scanning src S r v \<and> scan_memory v = scan_memory w)
      (io_bind (append_chunk (ex_pending w)) (\<lambda>_. mark_extraction_complete)) (\<lambda>_ v. disk_ok src v \<and> scan_memory v = scan_memory w) X (died src S)"
    unfolding scan_memory_def [of w]
    by (rule assures_bind [OF append_pending_ok [OF assms(1,2)] mark_extraction_ok [OF assms(1,2) p]])
  from assuresD [OF this, of w]
  have "ends_in (\<lambda>_ v. disk_ok src v \<and> scan_memory v = scan_memory w) X (died src S)
      (io_bind (append_chunk (ex_pending w)) (\<lambda>_. mark_extraction_complete) w)"
    using w by (simp add: scanned_def)
  then have "ends_in (\<lambda>_ v. run_complete src r (ex_rows v) v) X (died src S)
      (io_bind (append_chunk (ex_pending w)) (\<lambda>_. mark_extraction_complete) w)"
    by (rule ends_in_mono) (use p in \<open>auto simp: run_complete_def scan_memory_def\<close>)
  then show "ends_in (\<lambda>_ w. run_complete src r (ex_rows w) w) X (died src S) (finish_checkpoint r w)"
    using assms(3) by (simp add: finish_checkpoint_def run_of_def io_bind_def ex_get_def)
qed

lemma assures_on_exception:
  assumes "assures P m Q Y C" "assures Y h (\<lambda>_. X) X C"
  shows "assures P (io_on_exception m h) Q X C"
proof (rule assuresI)
  fix w assume "P w"
  then have "ends_in Q Y C (m w)" by (rule assuresD [OF assms(1)])
  moreover have "ends_in Q X C (io_bind h (\<lambda>_. io_raise e) v)" if y: "Y v" for e v
    by (rule assuresD [OF assures_bind [OF assms(2) assures_raise]]) (simp_all add: y)
  ultimately show "ends_in Q X C (io_on_exception m h w)"
    by (cases "m w" rule: prod.exhaust, cases "fst (m w)") (simp_all add: io_on_exception_def)
qed

lemma extract_v2_pbf_ok:
  assumes "source_ok src" "Fails \<notin> S" "run_of src r" "scan_end (run_scan r) = Crashes \<longrightarrow> Crashes \<in> S"
  shows "assures (\<lambda>w. disk_ok src w \<and> calm S w) (extract_v2_pbf (src_env src) r) (run_complete src r) (stopped src (troubled src r)) (died src S)"
  (is "assures ?P _ ?Q ?X ?C")
proof -
  let ?fp = "run_fingerprint r" and ?limit = "run_limit r"
  let ?set = "\<lambda>rows w. w\<lparr>ex_rows := rows, ex_seen := map row_polygon_id rows, ex_pending := []\<rparr>"
  let ?ready = "\<lambda>rows w. if ck_complete w then run_complete src r rows w else run_scanned src S r [] w"
  have id: "run_identity r = extraction_identity (src_name src) ?fp ?limit" and c: "run_checkpointed r"
    using assms(3) by (simp_all add: run_identity_def run_of_def)
  have load: "assures ?P (load_checkpoint r) (loaded src S ?fp ?limit) ?X ?C"
    using assures_bind [OF open_extraction_ok [OF assms(1,2)] load_extraction_rows_ok [OF assms(1,2)]] c
    by (simp add: load_checkpoint_def id)
  have memory: "assures (loaded src S ?fp ?limit rows) (ex_do (?set rows)) (\<lambda>_. ?ready rows) ?X ?C" for rows
  proof (rule assures_do)
    fix w :: "'a ex_world" assume l: "loaded src S ?fp ?limit rows w"
    show "?ready rows (?set rows w)"
    proof (cases "is_complete (ck_metadata w)")
      case True
      then show ?thesis using l by (simp add: loaded_def ck_complete_eq run_complete_def disk_ok_def)
    next
      case False
      then obtain R where R: "running src S ?fp ?limit R w" "rows = concat R" using l by (auto simp: loaded_def)
      then have "running src S ?fp ?limit R (?set rows w)" by (simp add: running_def calm_def)
      moreover have "row_prefix src (goal src ?fp ?limit) rows" using R by (simp add: running_def written_for_def)
      ultimately show ?thesis using False R(2) by (auto simp: ck_complete_eq scanned_def scan_state_def)
    qed
  qed
  have opens: "assures (run_scanned src S r []) (io_of_res (scan_opens (run_scan r))) (\<lambda>_. run_scanned src S r []) ?X ?C"
    by (rule assures_of_res) (use assms(1) in \<open>auto simp: scanned_def stopped_def troubled_def scan_state_disk\<close>)
  have flush: "assures (\<lambda>w. troubled src r \<and> run_scanning src S r w) (flush_checkpoint r) (\<lambda>_. ?X) ?X ?C"
  proof (cases "troubled src r")
    case True
    show ?thesis
      by (rule assures_weaken [OF flush_checkpoint_ok [OF assms(1,2), of r "\<lambda>_. False"]]) (auto simp: stopped_def True)
  qed (simp add: assures_vacuous)
  note scan = assures_on_exception [OF consume_candidates_ok [OF assms] flush]
  have finish: "assures (run_scanned src S r (src_content src ?fp)) (finish_checkpoint r) (\<lambda>_ w. run_complete src r (ex_rows w) w) ?X ?C"
    by (rule finish_checkpoint_ok [OF assms(1-3)])
  have rows: "assures (\<lambda>w. run_complete src r (ex_rows w) w) (ex_get ex_rows) ?Q ?X ?C"
    by (rule assures_get)
  note body = assures_bind [OF opens assures_bind [OF scan assures_bind [OF finish rows]]]
  have branch: "assures (\<lambda>w. ?ready rows w \<and> b = (run_checkpointed r \<and> ck_complete w))
      (if b then io_ret rows else io_bind (io_of_res (scan_opens (run_scan r))) (\<lambda>_. io_bind (io_on_exception (consume_candidates (src_env src) r) (flush_checkpoint r)) (\<lambda>_.
        io_bind (finish_checkpoint r) (\<lambda>_. ex_get ex_rows)))) ?Q ?X ?C" for rows b
  proof (cases b)
    case True
    then show ?thesis by (auto simp: assures_def io_ret_def)
  next
    case False
    then show ?thesis using c by (simp, intro assures_weaken [OF body]) (auto split: if_splits)
  qed
  show ?thesis unfolding extract_v2_pbf_def
    by (rule assures_bind [OF load assures_bind [OF memory assures_bind [OF assures_get branch]]]) simp
qed

section \<open>Histories\<close>

text \<open>
  A directory starts empty. Runs over versions of the extract follow each other, each with its own limit,
  batch size and time; a run can be killed at any step, and its reader can fail. The checkpoint can be
  cleared, which can be interrupted too.
\<close>

inductive extraction_history :: "'g ex_source \<Rightarrow> 'g ex_world \<Rightarrow> bool" for src where
  no_run: "ex_files w = [] \<Longrightarrow> ex_metadata_file w = Absent \<Longrightarrow> extraction_history src w"
| next_run: "extraction_history src w \<Longrightarrow> run_of src r \<Longrightarrow> Fails \<notin> set script
    \<Longrightarrow> extract_v2_pbf (src_env src) r (w\<lparr>ex_script := script\<rparr>) = (result, w') \<Longrightarrow> extraction_history src w'"
| clear_up: "extraction_history src w \<Longrightarrow> Fails \<notin> set script
    \<Longrightarrow> clear_extraction (w\<lparr>ex_script := script\<rparr>) = (cleared, w') \<Longrightarrow> extraction_history src w'"

lemma clear_extraction_ok:
  assumes "Fails \<notin> S"
  shows "assures (\<lambda>w. disk_ok src w \<and> calm S w) clear_extraction (\<lambda>_. disk_ok src) X (died src S)"
  unfolding clear_extraction_def
proof (rule assures_bind [OF clear_files_ok [OF assms]], rule assures_step [OF assms])
  fix w :: "'a ex_world" and s
  assume "ex_files w = [] \<and> calm S w \<and> disk_ok src w"
  then show "disk_ok src ((w\<lparr>ex_script := s\<rparr>)\<lparr>ex_metadata_file := Absent\<rparr>)"
    by (simp add: disk_ok_def files_named_def read_json_def)
qed (simp_all add: died_def)

lemma run_outcome:
  assumes "source_ok src" "disk_ok src w" "run_of src r" "Fails \<notin> set script"
  shows "ends_in (run_complete src r) (stopped src (troubled src r))
    (\<lambda>v. (Crashes \<in> set script \<or> scan_end (run_scan r) = Crashes) \<and> disk_ok src v) (extract_v2_pbf (src_env src) r (w\<lparr>ex_script := script\<rparr>))"
proof -
  let ?S = "set script \<union> (if scan_end (run_scan r) = Crashes then {Crashes} else {})"
  have "ends_in (run_complete src r) (stopped src (troubled src r)) (died src ?S) (extract_v2_pbf (src_env src) r (w\<lparr>ex_script := script\<rparr>))"
    by (rule assuresD [OF extract_v2_pbf_ok [OF assms(1)]]) (use assms in \<open>auto simp: calm_def\<close>)
  then show ?thesis by (rule ends_in_mono) (auto simp: died_def split: if_splits)
qed

lemma history_disk_ok:
  assumes "source_ok src" "extraction_history src w"
  shows "disk_ok src w"
  using assms(2)
proof induction
  case (no_run w)
  then show ?case by (simp add: disk_ok_def files_named_def read_json_def)
next
  case (next_run w r script result w')
  from run_outcome [OF assms(1) next_run.IH next_run.hyps(2,3)]
  show ?case unfolding next_run.hyps(4) by (cases result) (simp_all add: run_complete_def stopped_def)
next
  case (clear_up w script cleared w')
  have "ends_in (\<lambda>_. disk_ok src) (disk_ok src) (died src (set script)) (clear_extraction (w\<lparr>ex_script := script\<rparr>))"
    by (rule assuresD [OF clear_extraction_ok]) (use clear_up in \<open>simp_all add: calm_def\<close>)
  then show ?case using clear_up.hyps(3) by (cases cleared) (simp_all add: died_def)
qed

text \<open>
  C9. The extraction is exact whatever was interrupted before: a run that returns has one row for each
  accepted polygon of its version of the extract, made of the first candidate of the polygon and in their
  order, up to the limit. It raises only when the reader or the conversion of a candidate does, and ends
  early only when the process does.
\<close>

theorem extraction_exact:
  assumes "source_ok src" and "extraction_history src w" and "run_of src r" and "Fails \<notin> set script"
  shows "case extract_v2_pbf (src_env src) r (w\<lparr>ex_script := script\<rparr>) of
      (Ok rows, _) \<Rightarrow> list_all2 (renders (src_env src) (src_name src)) rows
        (expected_candidates (src_env src) (src_name src) (run_limit r) (src_content src (run_fingerprint r)))
    | (Raises _, _) \<Rightarrow> troubled src r
    | (Crashed, _) \<Rightarrow> Crashes \<in> set script \<or> scan_end (run_scan r) = Crashes"
proof -
  note o = run_outcome [OF assms(1) history_disk_ok [OF assms(1,2)] assms(3,4)]
  obtain res w' where run: "extract_v2_pbf (src_env src) r (w\<lparr>ex_script := script\<rparr>) = (res, w')" by fastforce
  show ?thesis
    using o by (cases res) (simp_all add: run run_complete_def row_prefix_full stopped_def goal_def)
qed

section \<open>A sample\<close>

definition sample_v2_env :: "unit v2_env" where
  "sample_v2_env = \<lparr>url_env = \<lparr>unquote = id, bracketed_ok = (\<lambda>_. True), unicode_netloc_ok = (\<lambda>_. True)\<rparr>,
     geometry_of = (\<lambda>_. Inr (Some ())), package_version = ''1''\<rparr>"

definition sample_candidates :: "candidate list" where
  "sample_candidates =
     [\<lparr>cand_type = ''way'', cand_id = 1, cand_tags = [(''wikidata'', ''Q1'')], cand_geometry = []\<rparr>,
      \<lparr>cand_type = ''way'', cand_id = 2, cand_tags = [(''wikipedia'', ''en:Paris'')], cand_geometry = []\<rparr>,
      \<lparr>cand_type = ''way'', cand_id = 1, cand_tags = [(''wikidata'', ''Q1'')], cand_geometry = []\<rparr>]"

definition sample_extract :: "unit ex_source" where
  "sample_extract = \<lparr>src_env = sample_v2_env, src_name = ''a-latest.osm.pbf'', src_content = (\<lambda>_. sample_candidates)\<rparr>"

definition sample_extraction :: "int \<Rightarrow> candidate list \<Rightarrow> extraction_run" where
  "sample_extraction every cs = \<lparr>run_name = ''a-latest.osm.pbf'', run_fingerprint = \<lparr>st_size = 9, mtime_ns = 1, ctime_ns = 1, inode = 1, device = 1, birthtime_ns = 1\<rparr>,
     run_limit = None, run_every = every, run_checkpointed = True, run_started_at = ''t'',
     run_scan = \<lparr>scan_opens = Inr (), scan_candidates = cs, scan_end = Fine\<rparr>\<rparr>"

definition empty_directory :: "unit ex_world" where
  "empty_directory = \<lparr>ex_metadata_file = Absent, ex_files = [], ex_script = [], ck_metadata = [], ck_next_chunk = 0, ex_rows = [], ex_seen = [], ex_pending = []\<rparr>"

lemma sample_not_troubled: "\<not> troubled sample_extract (sample_extraction 1 sample_candidates)"
proof -
  have "list_all (\<lambda>c. \<not> isl (converted sample_v2_env ''a-latest.osm.pbf'' ''t'' c)) sample_candidates" by code_simp
  then show ?thesis by (auto simp: troubled_def sample_extract_def sample_extraction_def list_all_iff)
qed

theorem extraction_exact_witness:
  "\<exists>rows w'. extract_v2_pbf sample_v2_env (sample_extraction 1 sample_candidates) empty_directory = (Ok rows, w')
     \<and> list_all2 (renders sample_v2_env ''a-latest.osm.pbf'') rows (take 2 sample_candidates)"
proof -
  let ?r = "sample_extraction 1 sample_candidates"
  have src: "source_ok sample_extract" by (simp add: source_ok_def sample_extract_def)
  have start: "extraction_history sample_extract empty_directory" by (rule extraction_history.no_run) (simp_all add: empty_directory_def)
  have run: "run_of sample_extract ?r" by (simp add: run_of_def sample_extract_def sample_extraction_def)
  have goal: "expected_candidates sample_v2_env ''a-latest.osm.pbf'' None sample_candidates = take 2 sample_candidates" by code_simp
  obtain res w' where res: "extract_v2_pbf sample_v2_env ?r empty_directory = (res, w')" by fastforce
  have w: "empty_directory\<lparr>ex_script := []\<rparr> = empty_directory" by (simp add: empty_directory_def)
  have env: "src_env sample_extract = sample_v2_env" "src_name sample_extract = ''a-latest.osm.pbf''" "run_limit ?r = None"
    "src_content sample_extract (run_fingerprint ?r) = sample_candidates" "scan_end (run_scan ?r) = Fine"
    by (simp_all add: sample_extract_def sample_extraction_def)
  show ?thesis
    using extraction_exact [OF src start run, of "[]"] sample_not_troubled res by (cases res) (simp_all add: w env goal)
qed

text \<open>
  An exception between the two writes of an append is different: the handler appends the same rows
  again, and the next run returns them twice.
\<close>

definition interrupted_world :: "unit ex_world" where
  "interrupted_world =
     snd (extract_v2_pbf sample_v2_env (sample_extraction 1 (take 1 sample_candidates)) (empty_directory\<lparr>ex_script := [Fine, Fine, Fine, Fails]\<rparr>))"

lemma failed_metadata_write_duplicates:
  "case extract_v2_pbf sample_v2_env (sample_extraction 1 (take 1 sample_candidates)) (interrupted_world\<lparr>ex_script := []\<rparr>) of
     (Ok rows, _) \<Rightarrow> map row_polygon_id rows = [''a-latest:way:1'', ''a-latest:way:1''] | _ \<Rightarrow> False"
  by code_simp

end
