(* ===== verification/Fetch_Checkpoint.thy ===== *)
theory Fetch_Checkpoint
  imports V2_Extraction
begin

text \<open>
  The checkpoint of fetched pages (the class \<open>RegionFetchCheckpoint\<close> and its helpers in
  \<open>v2/checkpoints.py\<close>): one JSON file for each polygon and one for each document, under metadata that
  name the inputs of the region. Each change of the disk is one step of a fault script; files are
  replaced atomically. Temporary files of interrupted writes and the directories themselves are not
  represented. The text of a JSON list or object is an argument.
\<close>

section \<open>Results\<close>

record direct_status =
  ds_ref :: tag_ref
  ds_status :: string
  ds_error :: string
  ds_reused_v1 :: bool

type_synonym json_row = "(string, json) dict"

record direct_result =
  dr_documents :: "json_row list"
  dr_links :: "json_row list"
  dr_statuses :: "direct_status list"
  dr_deferred_errors :: "(nat \<times> exn) list"

definition ref_json :: "tag_ref \<Rightarrow> json" where
  "ref_json r =
     JObj [(''language'', JStr (ref_language r)), (''title'', JStr (ref_title r)), (''raw_key'', JStr (ref_raw_key r)),
       (''raw_value'', JStr (ref_raw_value r))]"

definition status_json :: "direct_status \<Rightarrow> json" where
  "status_json st =
     JObj [(''ref'', ref_json (ds_ref st)), (''status'', JStr (ds_status st)), (''error'', JStr (ds_error st)),
       (''reused_v1'', JBool (ds_reused_v1 st))]"

definition direct_payload :: "string \<Rightarrow> tag_ref list \<Rightarrow> direct_result \<Rightarrow> json" where
  "direct_payload pid refs result =
     JObj [(''polygon_id'', JStr pid), (''refs'', JList (map ref_json refs)), (''documents'', JList (map JObj (dr_documents result))),
       (''links'', JList (map JObj (dr_links result))), (''statuses'', JList (map status_json (dr_statuses result)))]"

definition direct_payload_matches :: "json_row \<Rightarrow> string \<Rightarrow> tag_ref list \<Rightarrow> bool" where
  "direct_payload_matches payload pid refs \<longleftrightarrow>
     dict_get payload ''polygon_id'' JNull = JStr pid \<and> py_json_eq (dict_get payload ''refs'' JNull) (JList (map ref_json refs))"

definition decode_direct_status :: "(json \<Rightarrow> string) \<Rightarrow> json \<Rightarrow> tag_ref \<Rightarrow> direct_status option" where
  "decode_direct_status container raw ref =
     (case raw of
        JObj d \<Rightarrow> Some \<lparr>ds_ref = ref, ds_status = json_text container (dict_get d ''status'' (JStr [])),
          ds_error = json_text container (dict_get d ''error'' (JStr [])), ds_reused_v1 = json_truthy (dict_get d ''reused_v1'' (JBool False))\<rparr>
      | _ \<Rightarrow> None)"

fun decode_status_list :: "(json \<Rightarrow> string) \<Rightarrow> json list \<Rightarrow> tag_ref list \<Rightarrow> direct_status list option" where
  "decode_status_list container (raw # raws) (ref # refs) =
     (case decode_direct_status container raw ref of
        None \<Rightarrow> None
      | Some st \<Rightarrow> map_option ((#) st) (decode_status_list container raws refs))"
| "decode_status_list container _ _ = Some []"

definition decode_direct_statuses :: "(json \<Rightarrow> string) \<Rightarrow> json \<Rightarrow> tag_ref list \<Rightarrow> direct_status list option" where
  "decode_direct_statuses container raw refs =
     (case raw of
        JList raws \<Rightarrow> if length raws \<noteq> length refs then None else decode_status_list container raws refs
      | _ \<Rightarrow> None)"

fun json_object :: "json \<Rightarrow> json_row option" where
  "json_object (JObj d) = Some d"
| "json_object _ = None"

definition direct_rows :: "json \<Rightarrow> json_row list option" where
  "direct_rows value =
     (case value of
        JList rows \<Rightarrow> if list_all (\<lambda>row. json_object row \<noteq> None) rows then Some (map (the \<circ> json_object) rows) else None
      | _ \<Rightarrow> None)"

definition load_direct_rows :: "json_row \<Rightarrow> (json_row list \<times> json_row list) option" where
  "load_direct_rows payload =
     (case (direct_rows (dict_get payload ''documents'' (JList [])), direct_rows (dict_get payload ''links'' (JList []))) of
        (Some documents, Some links) \<Rightarrow> Some (documents, links)
      | _ \<Rightarrow> None)"

definition read_direct :: "(json \<Rightarrow> string) \<Rightarrow> text_file \<Rightarrow> string \<Rightarrow> tag_ref list \<Rightarrow> direct_result option" where
  "read_direct container f pid refs =
     (case read_json f of
        JObj payload \<Rightarrow>
          if \<not> direct_payload_matches payload pid refs then None
          else
            (case decode_direct_statuses container (dict_get payload ''statuses'' JNull) refs of
               None \<Rightarrow> None
             | Some statuses \<Rightarrow>
                 map_option (\<lambda>(documents, links).
                   \<lparr>dr_documents = documents, dr_links = links, dr_statuses = statuses, dr_deferred_errors = []\<rparr>) (load_direct_rows payload))
      | _ \<Rightarrow> None)"

section \<open>The directory\<close>

record fetch_world =
  fw_metadata :: text_file
  fw_direct :: "(string, text_file) dict"
  fw_sections :: "(string, text_file) dict"
  fw_script :: "fault list"

record fetch_checkpoint =
  fc_fingerprint :: "string option"
  fc_full_text :: bool

definition fetch_step :: "(fetch_world \<Rightarrow> fetch_world) \<Rightarrow> (fetch_world, unit) effect" where
  "fetch_step f w =
     (let w1 = w\<lparr>fw_script := drop 1 (fw_script w)\<rparr> in
      case fw_script w of
        Fails # _ \<Rightarrow> (Raises (OSError ''system call failed''), w1)
      | Crashes # _ \<Rightarrow> (Crashed, w1)
      | _ \<Rightarrow> (Ok (), f w1))"

definition V2_CONTRACT_VERSION :: string where
  "V2_CONTRACT_VERSION = ''wikipedia-tags-v2''"

definition fetch_metadata :: "fetch_checkpoint \<Rightarrow> json" where
  "fetch_metadata cp =
     JObj [(''contract_version'', JStr CHECKPOINT_CONTRACT_VERSION), (''v2_contract_version'', JStr V2_CONTRACT_VERSION),
       (''input_fingerprint'', case fc_fingerprint cp of None \<Rightarrow> JNull | Some f \<Rightarrow> JStr f), (''fetch_full_text'', JBool (fc_full_text cp))]"

definition metadata_is_valid :: "fetch_checkpoint \<Rightarrow> json_row \<Rightarrow> bool" where
  "metadata_is_valid cp raw \<longleftrightarrow>
     dict_get raw ''contract_version'' JNull = JStr CHECKPOINT_CONTRACT_VERSION
     \<and> dict_get raw ''v2_contract_version'' JNull = JStr V2_CONTRACT_VERSION
     \<and> py_json_eq (dict_get raw ''fetch_full_text'' JNull) (JBool (fc_full_text cp))"

definition fingerprint_changed :: "fetch_checkpoint \<Rightarrow> json_row \<Rightarrow> bool" where
  "fingerprint_changed cp raw \<longleftrightarrow>
     (case fc_fingerprint cp of None \<Rightarrow> False | Some f \<Rightarrow> dict_get raw ''input_fingerprint'' JNull \<noteq> JStr f)"

definition needs_reset :: "fetch_checkpoint \<Rightarrow> json \<Rightarrow> bool" where
  "needs_reset cp raw = (case raw of JObj d \<Rightarrow> \<not> metadata_is_valid cp d \<or> fingerprint_changed cp d | _ \<Rightarrow> True)"

definition unlink_direct :: "string \<Rightarrow> (fetch_world, unit) effect" where
  "unlink_direct name = fetch_step (\<lambda>w. w\<lparr>fw_direct := AList.delete name (fw_direct w)\<rparr>)"

definition unlink_section :: "string \<Rightarrow> (fetch_world, unit) effect" where
  "unlink_section name = fetch_step (\<lambda>w. w\<lparr>fw_sections := AList.delete name (fw_sections w)\<rparr>)"

definition clear_fetch :: "(fetch_world, unit) effect" where
  "clear_fetch w =
     io_bind (io_each unlink_direct (filter (\<lambda>n. py_endswith n ''.json'' \<or> py_endswith n ''.tmp'') (map fst (fw_direct w)))) (\<lambda>_.
     io_bind (io_each unlink_section (filter (\<lambda>n. py_endswith n ''.json'' \<or> py_endswith n ''.tmp'') (map fst (fw_sections w)))) (\<lambda>_.
       fetch_step (\<lambda>w. w\<lparr>fw_metadata := Absent\<rparr>))) w"

definition open_fetch :: "fetch_checkpoint \<Rightarrow> (fetch_world, unit) effect" where
  "open_fetch cp w =
     (if needs_reset cp (read_json (fw_metadata w))
      then io_bind clear_fetch (\<lambda>_. fetch_step (\<lambda>w. w\<lparr>fw_metadata := write_json (fetch_metadata cp)\<rparr>)) w
      else (Ok (), w))"

definition has_work :: "fetch_world \<Rightarrow> bool" where
  "has_work w \<longleftrightarrow> list_ex (\<lambda>n. py_endswith n ''.json'') (map fst (fw_direct w)) \<or> list_ex (\<lambda>n. py_endswith n ''.json'') (map fst (fw_sections w))"

definition checkpoint_file :: "string \<Rightarrow> string" where
  "checkpoint_file value = content_hash value @ ''.json''"

definition save_direct :: "string \<Rightarrow> tag_ref list \<Rightarrow> direct_result \<Rightarrow> (fetch_world, unit) effect" where
  "save_direct pid refs result =
     (if dr_deferred_errors result \<noteq> [] then io_ret ()
      else fetch_step (\<lambda>w. w\<lparr>fw_direct := AList.update (checkpoint_file pid) (write_json (direct_payload pid refs result)) (fw_direct w)\<rparr>))"

definition load_direct :: "(json \<Rightarrow> string) \<Rightarrow> string \<Rightarrow> tag_ref list \<Rightarrow> fetch_world \<Rightarrow> direct_result option" where
  "load_direct container pid refs w =
     (case map_of (fw_direct w) (checkpoint_file pid) of None \<Rightarrow> None | Some f \<Rightarrow> read_direct container f pid refs)"

definition section_rows_match_document :: "(json \<Rightarrow> string) \<Rightarrow> json list \<Rightarrow> string \<Rightarrow> bool" where
  "section_rows_match_document container rows doc \<longleftrightarrow>
     list_all (\<lambda>row. case row of JObj d \<Rightarrow> json_text container (dict_get d ''document_id'' (JStr [])) = doc | _ \<Rightarrow> False) rows"

definition section_payload :: "string \<Rightarrow> json_row list \<Rightarrow> json" where
  "section_payload doc rows = JObj [(''document_id'', JStr doc), (''rows'', JList (map JObj rows))]"

definition save_sections :: "(json \<Rightarrow> string) \<Rightarrow> string \<Rightarrow> json_row list \<Rightarrow> (fetch_world, unit) effect" where
  "save_sections container doc rows =
     io_bind (io_guard (section_rows_match_document container (map JObj rows) doc)
         (ValueError ''Section checkpoint rows do not match document'')) (\<lambda>_.
       fetch_step (\<lambda>w. w\<lparr>fw_sections := AList.update (checkpoint_file doc) (write_json (section_payload doc rows)) (fw_sections w)\<rparr>))"

definition section_payload_parts :: "json \<Rightarrow> (string \<times> json list) option" where
  "section_payload_parts payload =
     (case payload of
        JObj d \<Rightarrow>
          (case (dict_get d ''document_id'' JNull, dict_get d ''rows'' JNull) of
             (JStr doc, JList rows) \<Rightarrow> if doc = [] then None else Some (doc, rows)
           | _ \<Rightarrow> None)
      | _ \<Rightarrow> None)"

definition parse_section_payload :: "(json \<Rightarrow> string) \<Rightarrow> json \<Rightarrow> (string \<times> json list) option" where
  "parse_section_payload container payload =
     (case section_payload_parts payload of
        None \<Rightarrow> None
      | Some (doc, rows) \<Rightarrow> if section_rows_match_document container rows doc then Some (doc, rows) else None)"

definition load_section_state :: "(json \<Rightarrow> string) \<Rightarrow> fetch_world \<Rightarrow> json_row list \<times> string list" where
  "load_section_state container w =
     (let names = sort (filter (\<lambda>n. py_endswith n ''.json'') (map fst (fw_sections w)));
          payloads = List.map_filter (\<lambda>n. parse_section_payload container (read_json (the (map_of (fw_sections w) n)))) names in
      (concat (map (\<lambda>(_, rows). List.map_filter json_object rows) payloads), remdups (map fst payloads)))"

text \<open>The values that make up the fingerprint of a region: the order of its polygons does not matter.\<close>

definition CONTEXT_FIELDS :: "string list" where
  "CONTEXT_FIELDS = [''polygon_id'', ''wikipedia_tag_refs'', ''wikidata'', ''source_pbf'', ''region'', ''osm_type'', ''osm_id'']"

definition region_input_values :: "(json \<Rightarrow> string) \<Rightarrow> json_row list \<Rightarrow> string list list" where
  "region_input_values container polygons =
     sort (map (\<lambda>row. map (\<lambda>field. json_text container (dict_get row field (JStr []))) CONTEXT_FIELDS) polygons)"

definition region_input_fingerprint :: "(json \<Rightarrow> string) \<Rightarrow> (string list list \<Rightarrow> string) \<Rightarrow> json_row list \<Rightarrow> string" where
  "region_input_fingerprint container dumps polygons = content_hash (dumps (region_input_values container polygons))"

definition clear_v2_checkpoints :: "('g ex_world \<times> fetch_world, unit) effect" where
  "clear_v2_checkpoints w =
     (case clear_extraction (fst w) of
        (Ok _, e) \<Rightarrow> (case clear_fetch (snd w) of (r, f) \<Rightarrow> (r, (e, f)))
      | (r, e) \<Rightarrow> (r, (e, snd w)))"

end
