(* ===== verification/Fetch_Safety.thy ===== *)
theory Fetch_Safety
  imports Fetch_Checkpoint
begin

text \<open>
  The checkpoint of fetched pages returns what was saved, and only what was saved for the present inputs
  of the region, whatever was interrupted before.
\<close>

section \<open>Reading what was written\<close>

definition reloaded :: "tag_ref list \<Rightarrow> direct_result \<Rightarrow> direct_result" where
  "reloaded refs result =
     \<lparr>dr_documents = map reread (dr_documents result), dr_links = map reread (dr_links result),
      dr_statuses = map2 (\<lambda>st ref. st\<lparr>ds_ref := ref\<rparr>) (dr_statuses result) refs, dr_deferred_errors = []\<rparr>"

lemma jsort_object [simp]: "jsort (JObj d) = JObj (reread d)"
  by (simp add: reread_def)

declare jsort.simps(6) [simp del]

lemma dict_get_reread: "dict_get (reread d) k (jsort v) = jsort (dict_get d k v)"
  by (simp add: dict_get_def map_of_reread split: option.split)

lemma view_ref_inject: "json_view (ref_json r) = json_view (ref_json r') \<longleftrightarrow> r = r'"
proof
  assume v: "json_view (ref_json r) = json_view (ref_json r')"
  note f = json_view_fields [OF v [unfolded ref_json_def]]
  show "r = r'"
    using f [of "''language''"] f [of "''title''"] f [of "''raw_key''"] f [of "''raw_value''"]
    by (cases r; cases r') simp
qed simp

lemma refs_equal: "py_json_eq (jsort (JList (map ref_json refs))) (JList (map ref_json refs')) \<longleftrightarrow> refs = refs'"
proof -
  have inj: "inj (\<lambda>r. json_view (ref_json r))" by (rule injI) (simp add: view_ref_inject)
  have "py_json_eq (jsort (JList (map ref_json refs))) (JList (map ref_json refs'))
      \<longleftrightarrow> map (\<lambda>r. json_view (ref_json r)) refs = map (\<lambda>r. json_view (ref_json r)) refs'"
    unfolding py_json_eq_def view_jsort by (simp add: comp_def)
  then show ?thesis by (simp only: inj_map_eq_map [OF inj])
qed

lemma decode_written_status: "decode_direct_status container (jsort (status_json st)) ref = Some (st\<lparr>ds_ref := ref\<rparr>)"
  unfolding status_json_def
  by (simp add: decode_direct_status_def dict_get_def map_of_reread json_text_def json_truthy_def)

lemma decode_written_statuses:
  "length sts = length refs \<Longrightarrow>
   decode_status_list container (map (\<lambda>st. jsort (status_json st)) sts) refs = Some (map2 (\<lambda>st ref. st\<lparr>ds_ref := ref\<rparr>) sts refs)"
  by (induction sts refs rule: list_induct2) (simp_all add: decode_written_status)

lemma direct_rows_written: "direct_rows (jsort (JList (map JObj rows))) = Some (map reread rows)"
  by (simp add: direct_rows_def comp_def list_all_iff)

lemma read_direct_written:
  "read_direct container (write_json (direct_payload pid refs result)) pid' refs' =
     (if pid = pid' \<and> refs = refs' \<and> length (dr_statuses result) = length refs then Some (reloaded refs result) else None)"
proof -
  let ?d = "[(''polygon_id'', JStr pid), (''refs'', JList (map ref_json refs)), (''documents'', JList (map JObj (dr_documents result))),
       (''links'', JList (map JObj (dr_links result))), (''statuses'', JList (map status_json (dr_statuses result)))]"
  have r: "read_json (write_json (direct_payload pid refs result)) = JObj (reread ?d)"
    by (simp only: direct_payload_def read_written)
  have m: "direct_payload_matches (reread ?d) pid' refs' \<longleftrightarrow> pid = pid' \<and> refs = refs'"
    using refs_equal [of refs refs'] by (auto simp: direct_payload_matches_def dict_get_def map_of_reread simp del: jsort.simps(5))
  have rows: "load_direct_rows (reread ?d) = Some (map reread (dr_documents result), map reread (dr_links result))"
    using direct_rows_written [of "dr_documents result"] direct_rows_written [of "dr_links result"]
    by (simp add: load_direct_rows_def dict_get_def map_of_reread del: jsort.simps(5))
  have "dict_get (reread ?d) ''statuses'' JNull = JList (map (\<lambda>st. jsort (status_json st)) (dr_statuses result))"
    by (simp add: dict_get_def map_of_reread comp_def)
  then have "decode_direct_statuses container (dict_get (reread ?d) ''statuses'' JNull) refs =
      (if length (dr_statuses result) = length refs then Some (map2 (\<lambda>st ref. st\<lparr>ds_ref := ref\<rparr>) (dr_statuses result) refs) else None)"
    by (simp add: decode_direct_statuses_def decode_written_statuses)
  note st = this
  show ?thesis
  proof (cases "pid = pid' \<and> refs = refs'")
    case True
    then show ?thesis unfolding read_direct_def r using m rows st by (simp add: reloaded_def)
  next
    case False
    then show ?thesis unfolding read_direct_def r using m by auto
  qed
qed

lemma parse_section_written:
  "parse_section_payload container (read_json (write_json (section_payload doc rows))) = Some (doc', rows')
   \<Longrightarrow> doc' = doc \<and> List.map_filter json_object rows' = map reread rows"
  by (auto simp: section_payload_def read_written parse_section_payload_def section_payload_parts_def dict_get_def map_of_reread
      map_filter_def comp_def split: if_splits)

text \<open>A saved result is loaded again: the same rows, and the status of each reference.\<close>

lemma direct_roundtrip:
  assumes "save_direct pid refs result w = (Ok (), w')" "dr_deferred_errors result = []" "length (dr_statuses result) = length refs"
  shows "load_direct container pid refs w' = Some (reloaded refs result)"
proof -
  have "fw_direct w' = AList.update (checkpoint_file pid) (write_json (direct_payload pid refs result)) (fw_direct w)"
    using assms(1,2) by (auto simp: save_direct_def fetch_step_def Let_def split: list.splits fault.splits)
  then show ?thesis using assms(3) by (simp add: load_direct_def update_conv' read_direct_written)
qed

text \<open>The fingerprint of a region does not depend on the order in which its polygons were extracted.\<close>

lemma fingerprint_order_free:
  assumes "mset polygons = mset polygons'"
  shows "region_input_fingerprint container dumps polygons = region_input_fingerprint container dumps polygons'"
proof -
  let ?key = "\<lambda>row. map (\<lambda>field. json_text container (dict_get row field (JStr []))) CONTEXT_FIELDS"
  have "mset (map ?key polygons) = mset (map ?key polygons')" using assms by simp
  then have "region_input_values container polygons = region_input_values container polygons'"
    unfolding region_input_values_def by (intro properties_for_sort) (simp_all only: mset_sort sorted_sort)
  then show ?thesis by (simp add: region_input_fingerprint_def)
qed

section \<open>Sessions\<close>

text \<open>What was saved: for which inputs, for which polygon or document, and what.\<close>

type_synonym direct_log = "(fetch_checkpoint \<times> string \<times> tag_ref list \<times> direct_result) set"

type_synonym section_log = "(fetch_checkpoint \<times> string \<times> json_row list) set"

definition direct_logged :: "direct_log \<Rightarrow> fetch_checkpoint \<Rightarrow> fetch_world \<Rightarrow> bool" where
  "direct_logged dl cp w \<longleftrightarrow> (\<forall>n f. (n, f) \<in> set (fw_direct w) \<longrightarrow>
     (\<exists>pid refs result. (cp, pid, refs, result) \<in> dl \<and> dr_deferred_errors result = [] \<and> f = write_json (direct_payload pid refs result)))"

definition sections_logged :: "section_log \<Rightarrow> fetch_checkpoint \<Rightarrow> fetch_world \<Rightarrow> bool" where
  "sections_logged sl cp w \<longleftrightarrow> (\<forall>n f. (n, f) \<in> set (fw_sections w) \<longrightarrow>
     (\<exists>doc rows. (cp, doc, rows) \<in> sl \<and> f = write_json (section_payload doc rows)))"

text \<open>The inputs that the metadata on disk name.\<close>

definition current :: "fetch_checkpoint \<Rightarrow> fetch_world \<Rightarrow> bool" where
  "current cp w \<longleftrightarrow> fc_fingerprint cp \<noteq> None \<and> \<not> needs_reset cp (read_json (fw_metadata w))"

definition names_json :: "fetch_world \<Rightarrow> bool" where
  "names_json w \<longleftrightarrow> (\<forall>n. n \<in> fst ` set (fw_direct w) \<union> fst ` set (fw_sections w) \<longrightarrow> py_endswith n ''.json'')"

definition fetch_ok :: "direct_log \<Rightarrow> section_log \<Rightarrow> fetch_world \<Rightarrow> bool" where
  "fetch_ok dl sl w \<longleftrightarrow> names_json w \<and> (\<forall>cp. current cp w \<longrightarrow> direct_logged dl cp w \<and> sections_logged sl cp w)"

lemma current_unique:
  assumes "current cp w" "current cp' w"
  shows "cp = cp'"
proof -
  obtain d where d: "read_json (fw_metadata w) = JObj d" using assms(1) by (cases "read_json (fw_metadata w)") (auto simp: current_def needs_reset_def)
  have "json_view (JBool (fc_full_text cp)) = json_view (JBool (fc_full_text cp'))"
    using assms by (simp add: current_def needs_reset_def d metadata_is_valid_def py_json_eq_def)
  moreover have "fc_fingerprint cp = fc_fingerprint cp'"
    using assms by (auto simp: current_def needs_reset_def d fingerprint_changed_def)
  ultimately show ?thesis by (cases cp; cases cp') (auto split: if_splits)
qed

lemma current_written: "fc_fingerprint cp \<noteq> None \<Longrightarrow> current cp (w\<lparr>fw_metadata := write_json (fetch_metadata cp)\<rparr>)"
  by (auto simp: current_def fetch_metadata_def read_written needs_reset_def metadata_is_valid_def fingerprint_changed_def
      dict_get_def map_of_reread py_json_eq_def)

lemma current_script [simp]: "current cp (w\<lparr>fw_script := s\<rparr>) = current cp w"
  by (simp add: current_def)

lemma fetch_ok_script [simp]: "fetch_ok dl sl (w\<lparr>fw_script := s\<rparr>) = fetch_ok dl sl w"
  by (simp add: fetch_ok_def names_json_def direct_logged_def sections_logged_def)

lemma fetch_ok_subset:
  assumes "fetch_ok dl sl w" "set (fw_direct w') \<subseteq> set (fw_direct w)" "set (fw_sections w') \<subseteq> set (fw_sections w)"
    and "fw_metadata w' = fw_metadata w"
  shows "fetch_ok dl sl w'"
proof -
  have "names_json w'" using assms(1-3) unfolding fetch_ok_def names_json_def by blast
  moreover have "direct_logged dl cp w' \<and> sections_logged sl cp w'" if "current cp w'" for cp
  proof -
    have "current cp w" using that assms(4) by (simp add: current_def)
    then have "direct_logged dl cp w" "sections_logged sl cp w" using assms(1) unfolding fetch_ok_def by blast+
    then show ?thesis using assms(2,3) unfolding direct_logged_def sections_logged_def by blast
  qed
  ultimately show ?thesis unfolding fetch_ok_def by blast
qed

lemma fetch_ok_fewer:
  "set d \<subseteq> set (fw_direct w) \<Longrightarrow> fetch_ok dl sl w \<Longrightarrow> fetch_ok dl sl (w\<lparr>fw_direct := d\<rparr>)"
  "set d \<subseteq> set (fw_sections w) \<Longrightarrow> fetch_ok dl sl w \<Longrightarrow> fetch_ok dl sl (w\<lparr>fw_sections := d\<rparr>)"
  by (auto elim!: fetch_ok_subset)

lemma assures_fetch_step:
  assumes "\<And>w s. P w \<Longrightarrow> Q () (f (w\<lparr>fw_script := s\<rparr>))" "\<And>w s. P w \<Longrightarrow> E (w\<lparr>fw_script := s\<rparr>)"
  shows "assures P (fetch_step f) Q E E"
  using assms by (auto simp: assures_def fetch_step_def Let_def split: list.split fault.split)

lemma unlink_each:
  assumes "\<And>name. unlink name = fetch_step (\<lambda>w. upd (\<lambda>_. AList.delete name (get w)) w)"
    and "\<And>d w. get (upd (\<lambda>_. d) w) = d" "\<And>s w. get (w\<lparr>fw_script := s\<rparr>) = get w"
    and "\<And>d w. set d \<subseteq> set (get w) \<Longrightarrow> I w \<Longrightarrow> I (upd (\<lambda>_. d) w)" "\<And>s w. I w \<Longrightarrow> I (w\<lparr>fw_script := s\<rparr>)"
  shows "assures (\<lambda>w. I w \<and> (\<forall>n. n \<in> fst ` set (get w) \<longrightarrow> n \<in> set names)) (io_each unlink names) (\<lambda>_ w. I w \<and> get w = []) I I"
proof (induction names)
  case Nil
  show ?case by (auto simp: assures_def io_ret_def)
next
  case (Cons name names)
  show ?case unfolding io_each.simps
  proof (rule assures_bind [OF _ Cons.IH])
    show "assures (\<lambda>w. I w \<and> (\<forall>n. n \<in> fst ` set (get w) \<longrightarrow> n \<in> set (name # names))) (unlink name)
        (\<lambda>_ w. I w \<and> (\<forall>n. n \<in> fst ` set (get w) \<longrightarrow> n \<in> set names)) I I"
      unfolding assms(1)
      by (rule assures_fetch_step) (auto simp: assms(2,3) AList.delete_eq intro!: assms(4,5))
  qed
qed

lemma clear_fetch_ok:
  "assures (fetch_ok dl sl) clear_fetch (\<lambda>_ w. fw_direct w = [] \<and> fw_sections w = [] \<and> fw_metadata w = Absent) (fetch_ok dl sl) (fetch_ok dl sl)"
proof (rule assuresI)
  fix w assume w: "fetch_ok dl sl w"
  let ?pick = "\<lambda>d :: (string, text_file) dict. filter (\<lambda>n. py_endswith n ''.json'' \<or> py_endswith n ''.tmp'') (map fst d)"
  let ?K = "\<lambda>v. fetch_ok dl sl v \<and> (\<forall>n. n \<in> fst ` set (fw_sections v) \<longrightarrow> n \<in> set (?pick (fw_sections w)))"
  let ?L = "\<lambda>v. fetch_ok dl sl v \<and> fw_direct v = []"
  have named: "n \<in> set (?pick (fw_direct w))" if "n \<in> fst ` set (fw_direct w)" for n
    using that w unfolding fetch_ok_def names_json_def by auto
  have named': "n \<in> set (?pick (fw_sections w))" if "n \<in> fst ` set (fw_sections w)" for n
    using that w unfolding fetch_ok_def names_json_def by auto
  have direct: "assures (\<lambda>v. ?K v \<and> (\<forall>n. n \<in> fst ` set (fw_direct v) \<longrightarrow> n \<in> set (?pick (fw_direct w))))
      (io_each unlink_direct (?pick (fw_direct w))) (\<lambda>_ v. ?K v \<and> fw_direct v = []) ?K ?K"
    by (rule unlink_each [where upd = "\<lambda>f. fw_direct_update (\<lambda>_. f [])"]) (auto simp: unlink_direct_def intro: fetch_ok_fewer)
  have sections: "assures (\<lambda>v. ?L v \<and> (\<forall>n. n \<in> fst ` set (fw_sections v) \<longrightarrow> n \<in> set (?pick (fw_sections w))))
      (io_each unlink_section (?pick (fw_sections w))) (\<lambda>_ v. ?L v \<and> fw_sections v = []) ?L ?L"
    by (rule unlink_each [where upd = "\<lambda>f. fw_sections_update (\<lambda>_. f [])"]) (auto simp: unlink_section_def intro: fetch_ok_fewer)
  have metadata: "assures (\<lambda>v. ?L v \<and> fw_sections v = []) (fetch_step (\<lambda>w. w\<lparr>fw_metadata := Absent\<rparr>))
      (\<lambda>_ v. fw_direct v = [] \<and> fw_sections v = [] \<and> fw_metadata v = Absent) (fetch_ok dl sl) (fetch_ok dl sl)"
    by (rule assures_fetch_step) auto
  have d: "assures (\<lambda>v. ?K v \<and> (\<forall>n. n \<in> fst ` set (fw_direct v) \<longrightarrow> n \<in> set (?pick (fw_direct w))))
      (io_each unlink_direct (?pick (fw_direct w)))
      (\<lambda>_ v. ?L v \<and> (\<forall>n. n \<in> fst ` set (fw_sections v) \<longrightarrow> n \<in> set (?pick (fw_sections w)))) (fetch_ok dl sl) (fetch_ok dl sl)"
    by (rule assures_weaken [OF direct]) auto
  have s: "assures (\<lambda>v. ?L v \<and> (\<forall>n. n \<in> fst ` set (fw_sections v) \<longrightarrow> n \<in> set (?pick (fw_sections w))))
      (io_each unlink_section (?pick (fw_sections w))) (\<lambda>_ v. ?L v \<and> fw_sections v = []) (fetch_ok dl sl) (fetch_ok dl sl)"
    by (rule assures_weaken [OF sections]) auto
  have "ends_in (\<lambda>_ v. fw_direct v = [] \<and> fw_sections v = [] \<and> fw_metadata v = Absent) (fetch_ok dl sl) (fetch_ok dl sl)
      (io_bind (io_each unlink_direct (?pick (fw_direct w))) (\<lambda>_. io_bind (io_each unlink_section (?pick (fw_sections w))) (\<lambda>_.
        fetch_step (\<lambda>w. w\<lparr>fw_metadata := Absent\<rparr>))) w)"
    by (rule assuresD [OF assures_bind [OF d assures_bind [OF s metadata]]]) (use w named named' in blast)
  then show "ends_in (\<lambda>_ w. fw_direct w = [] \<and> fw_sections w = [] \<and> fw_metadata w = Absent) (fetch_ok dl sl) (fetch_ok dl sl) (clear_fetch w)"
    by (simp add: clear_fetch_def)
qed

lemma fetch_ok_empty: "fw_direct w = [] \<Longrightarrow> fw_sections w = [] \<Longrightarrow> fetch_ok dl sl w"
  by (simp add: fetch_ok_def names_json_def direct_logged_def sections_logged_def)

lemma open_fetch_ok:
  assumes "fc_fingerprint cp \<noteq> None"
  shows "assures (fetch_ok dl sl) (open_fetch cp) (\<lambda>_ w. fetch_ok dl sl w \<and> current cp w) (fetch_ok dl sl) (fetch_ok dl sl)"
proof (rule assuresI)
  fix w assume w: "fetch_ok dl sl w"
  have "assures (fetch_ok dl sl) (io_bind clear_fetch (\<lambda>_. fetch_step (\<lambda>w. w\<lparr>fw_metadata := write_json (fetch_metadata cp)\<rparr>)))
      (\<lambda>_ w. fetch_ok dl sl w \<and> current cp w) (fetch_ok dl sl) (fetch_ok dl sl)"
    by (rule assures_bind [OF clear_fetch_ok], rule assures_fetch_step) (auto intro!: fetch_ok_empty current_written assms)
  from assuresD [OF this w] w assms
  show "ends_in (\<lambda>_ w. fetch_ok dl sl w \<and> current cp w) (fetch_ok dl sl) (fetch_ok dl sl) (open_fetch cp w)"
    by (simp add: open_fetch_def current_def)
qed

section \<open>Histories\<close>

text \<open>
  A session opens the checkpoint for a fingerprint and saves results; any step can fail or be the last of
  the process. Sessions follow each other, and the checkpoint can be cleared. The logs record what each
  session was asked to save.
\<close>

inductive fetch_history ::
  "(json \<Rightarrow> string) \<Rightarrow> fetch_checkpoint option \<Rightarrow> direct_log \<Rightarrow> section_log \<Rightarrow> fetch_world \<Rightarrow> bool" for container where
  nothing_fetched: "fw_direct w = [] \<Longrightarrow> fw_sections w = [] \<Longrightarrow> fetch_history container None {} {} w"
| session_opened: "fetch_history container session dl sl w \<Longrightarrow> fc_fingerprint cp \<noteq> None
    \<Longrightarrow> open_fetch cp (w\<lparr>fw_script := script\<rparr>) = (r, w')
    \<Longrightarrow> fetch_history container (if r = Ok () then Some cp else None) dl sl w'"
| direct_saved: "fetch_history container (Some cp) dl sl w \<Longrightarrow> save_direct pid refs result (w\<lparr>fw_script := script\<rparr>) = (r, w')
    \<Longrightarrow> fetch_history container (Some cp) (insert (cp, pid, refs, result) dl) sl w'"
| sections_saved: "fetch_history container (Some cp) dl sl w \<Longrightarrow> save_sections container doc rows (w\<lparr>fw_script := script\<rparr>) = (r, w')
    \<Longrightarrow> fetch_history container (Some cp) dl (insert (cp, doc, rows) sl) w'"
| fetch_cleared: "fetch_history container session dl sl w \<Longrightarrow> clear_fetch (w\<lparr>fw_script := script\<rparr>) = (r, w')
    \<Longrightarrow> fetch_history container None dl sl w'"

lemma fetch_ok_mono:
  assumes "fetch_ok dl sl w" "dl \<subseteq> dl'" "sl \<subseteq> sl'"
  shows "fetch_ok dl' sl' w"
  using assms unfolding fetch_ok_def direct_logged_def sections_logged_def by blast

lemma checkpoint_file_json: "py_endswith (checkpoint_file v) ''.json''"
  by (simp add: checkpoint_file_def)

lemma fetch_ok_direct_saved:
  assumes "fetch_ok dl sl w" "current cp w" "dr_deferred_errors result = []"
  shows "fetch_ok (insert (cp, pid, refs, result) dl) sl
    (w\<lparr>fw_direct := AList.update (checkpoint_file pid) (write_json (direct_payload pid refs result)) (fw_direct w)\<rparr>)" (is "fetch_ok ?dl sl ?w")
proof -
  have "names_json ?w" using assms(1) checkpoint_file_json by (auto simp: fetch_ok_def names_json_def)
  moreover have "direct_logged ?dl cp' ?w \<and> sections_logged sl cp' ?w" if "current cp' ?w" for cp'
  proof -
    have "current cp' w" using that by (simp add: current_def)
    then have cp: "cp' = cp" by (rule current_unique [OF _ assms(2)])
    have "direct_logged dl cp w" "sections_logged sl cp w" using assms(1,2) unfolding fetch_ok_def by blast+
    have "direct_logged ?dl cp ?w" unfolding direct_logged_def
    proof (intro allI impI)
      fix n f assume "(n, f) \<in> set (fw_direct ?w)"
      then consider "(n, f) \<in> set (fw_direct w)" | "f = write_json (direct_payload pid refs result)"
        using set_AList_update [of "checkpoint_file pid" "write_json (direct_payload pid refs result)" "fw_direct w"] by auto
      then show "\<exists>pid' refs' result'. (cp, pid', refs', result') \<in> ?dl \<and> dr_deferred_errors result' = [] \<and> f = write_json (direct_payload pid' refs' result')"
        by cases (use \<open>direct_logged dl cp w\<close> assms(3) in \<open>unfold direct_logged_def, blast+\<close>)
    qed
    then show ?thesis using \<open>sections_logged sl cp w\<close> cp by (simp add: sections_logged_def)
  qed
  ultimately show ?thesis unfolding fetch_ok_def by blast
qed

lemma fetch_ok_sections_saved:
  assumes "fetch_ok dl sl w" "current cp w"
  shows "fetch_ok dl (insert (cp, doc, rows) sl)
    (w\<lparr>fw_sections := AList.update (checkpoint_file doc) (write_json (section_payload doc rows)) (fw_sections w)\<rparr>)" (is "fetch_ok dl ?sl ?w")
proof -
  have "names_json ?w" using assms(1) checkpoint_file_json by (auto simp: fetch_ok_def names_json_def)
  moreover have "direct_logged dl cp' ?w \<and> sections_logged ?sl cp' ?w" if "current cp' ?w" for cp'
  proof -
    have "current cp' w" using that by (simp add: current_def)
    then have cp: "cp' = cp" by (rule current_unique [OF _ assms(2)])
    have "direct_logged dl cp w" "sections_logged sl cp w" using assms(1,2) unfolding fetch_ok_def by blast+
    have "sections_logged ?sl cp ?w" unfolding sections_logged_def
    proof (intro allI impI)
      fix n f assume "(n, f) \<in> set (fw_sections ?w)"
      then consider "(n, f) \<in> set (fw_sections w)" | "f = write_json (section_payload doc rows)"
        using set_AList_update [of "checkpoint_file doc" "write_json (section_payload doc rows)" "fw_sections w"] by auto
      then show "\<exists>doc' rows'. (cp, doc', rows') \<in> ?sl \<and> f = write_json (section_payload doc' rows')"
        by cases (use \<open>sections_logged sl cp w\<close> in \<open>unfold sections_logged_def, blast+\<close>)
    qed
    then show ?thesis using \<open>direct_logged dl cp w\<close> cp by (simp add: direct_logged_def)
  qed
  ultimately show ?thesis unfolding fetch_ok_def by blast
qed

lemma save_direct_ok:
  fixes dl :: direct_log
  assumes "dl' = insert (cp, pid, refs, result) dl"
  shows "assures (\<lambda>v. fetch_ok dl sl v \<and> current cp v) (save_direct pid refs result) (\<lambda>_ v. fetch_ok dl' sl v \<and> current cp v)
      (\<lambda>v. fetch_ok dl' sl v \<and> current cp v) (\<lambda>v. fetch_ok dl' sl v \<and> current cp v)"
proof -
  have more: "fetch_ok dl' sl v" if "fetch_ok dl sl v" for v
    by (rule fetch_ok_mono [OF that]) (auto simp: assms)
  show ?thesis
  proof (cases "dr_deferred_errors result = []")
    case True
    have "fetch_ok dl' sl (v\<lparr>fw_script := s,
        fw_direct := AList.update (checkpoint_file pid) (write_json (direct_payload pid refs result)) (fw_direct v)\<rparr>)"
      if "fetch_ok dl sl v" "current cp v" for v s
      using fetch_ok_direct_saved [of dl sl "v\<lparr>fw_script := s\<rparr>" cp result pid refs] that True by (simp add: assms)
    then show ?thesis unfolding save_direct_def using True more
      by simp (rule assures_fetch_step, simp_all add: current_def)
  next
    case False
    then show ?thesis using more by (auto simp: save_direct_def intro: assures_ret)
  qed
qed

lemma save_sections_ok:
  fixes sl :: section_log
  assumes "sl' = insert (cp, doc, rows) sl"
  shows "assures (\<lambda>v. fetch_ok dl sl v \<and> current cp v) (save_sections container doc rows) (\<lambda>_ v. fetch_ok dl sl' v \<and> current cp v)
      (\<lambda>v. fetch_ok dl sl' v \<and> current cp v) (\<lambda>v. fetch_ok dl sl' v \<and> current cp v)"
proof -
  have more: "fetch_ok dl sl' v" if "fetch_ok dl sl v" for v
    by (rule fetch_ok_mono [OF that]) (auto simp: assms)
  let ?Q = "\<lambda>v. fetch_ok dl sl' v \<and> current cp v"
  have guard: "assures (\<lambda>v. fetch_ok dl sl v \<and> current cp v) (io_guard (section_rows_match_document container (map JObj rows) doc)
      (ValueError ''Section checkpoint rows do not match document'')) (\<lambda>_ v. fetch_ok dl sl v \<and> current cp v) ?Q ?Q"
    using more by (simp add: io_guard_def assures_def io_ret_def io_raise_def)
  have "assures (\<lambda>v. fetch_ok dl sl v \<and> current cp v) (fetch_step (\<lambda>w. w\<lparr>fw_sections := AList.update (checkpoint_file doc)
      (write_json (section_payload doc rows)) (fw_sections w)\<rparr>)) (\<lambda>_. ?Q) ?Q ?Q"
  proof (rule assures_fetch_step)
    fix v s assume v: "fetch_ok dl sl v \<and> current cp v"
    then show "?Q ((v\<lparr>fw_script := s\<rparr>)\<lparr>fw_sections := AList.update (checkpoint_file doc)
        (write_json (section_payload doc rows)) (fw_sections (v\<lparr>fw_script := s\<rparr>))\<rparr>)"
      using fetch_ok_sections_saved [of dl sl "v\<lparr>fw_script := s\<rparr>" cp doc rows] by (simp add: current_def assms)
    show "?Q (v\<lparr>fw_script := s\<rparr>)" using v more by simp
  qed
  then show ?thesis unfolding save_sections_def by (rule assures_bind [OF guard])
qed

lemma history_fetch_ok:
  "fetch_history container session dl sl w \<Longrightarrow> fetch_ok dl sl w \<and> (\<forall>cp. session = Some cp \<longrightarrow> current cp w)"
proof (induction rule: fetch_history.induct)
  case (nothing_fetched w)
  then show ?case by (simp add: fetch_ok_empty)
next
  case (session_opened session dl sl w cp script r w')
  have "fetch_ok dl sl (w\<lparr>fw_script := script\<rparr>)" using session_opened.IH by simp
  from assuresD [OF open_fetch_ok [OF session_opened.hyps(2)] this] show ?case
    unfolding session_opened.hyps(3) by (cases r) simp_all
next
  case (direct_saved cp dl sl w pid refs result script r w')
  have "fetch_ok dl sl (w\<lparr>fw_script := script\<rparr>) \<and> current cp (w\<lparr>fw_script := script\<rparr>)" using direct_saved.IH by simp
  from assuresD [OF save_direct_ok [OF refl] this, of pid refs result] show ?case
    unfolding direct_saved.hyps(2) by (cases r) simp_all
next
  case (sections_saved cp dl sl w doc rows script r w')
  have "fetch_ok dl sl (w\<lparr>fw_script := script\<rparr>) \<and> current cp (w\<lparr>fw_script := script\<rparr>)" using sections_saved.IH by simp
  from assuresD [OF save_sections_ok [OF refl] this, of doc rows container] show ?case
    unfolding sections_saved.hyps(2) by (cases r) simp_all
next
  case (fetch_cleared session dl sl w script r w')
  have "fetch_ok dl sl (w\<lparr>fw_script := script\<rparr>)" using fetch_cleared.IH by simp
  from assuresD [OF clear_fetch_ok this] show ?case
    unfolding fetch_cleared.hyps(2) by (cases r) (simp_all add: fetch_ok_empty)
qed

lemma sections_logged_payload:
  assumes "sections_logged sl cp w" "n \<in> fst ` set (fw_sections w)"
    and "parse_section_payload container (read_json (the (map_of (fw_sections w) n))) = Some (doc, rows)"
  shows "\<exists>saved. (cp, doc, saved) \<in> sl \<and> List.map_filter json_object rows = map reread saved"
proof -
  obtain f where f: "map_of (fw_sections w) n = Some f" using assms(2) by (metis map_of_eq_None_iff not_None_eq)
  then obtain d saved where l: "(cp, d, saved) \<in> sl" "f = write_json (section_payload d saved)"
    using assms(1) map_of_SomeD [OF f] unfolding sections_logged_def by blast
  show ?thesis using parse_section_written [of container d saved doc rows] assms(3) l f by auto
qed

lemma logged_groups:
  assumes "sections_logged sl cp w" "set names \<subseteq> fst ` set (fw_sections w)"
  shows "\<exists>groups. set groups \<subseteq> {(doc, rows). (cp, doc, rows) \<in> sl}
    \<and> map (\<lambda>(doc, rows). (doc, List.map_filter json_object rows))
        (List.map_filter (\<lambda>n. parse_section_payload container (read_json (the (map_of (fw_sections w) n)))) names)
      = map (\<lambda>(doc, rows). (doc, map reread rows)) groups"
  using assms(2)
proof (induction names)
  case Nil
  show ?case by (rule exI [of _ "[]"]) (simp add: map_filter_simps)
next
  case (Cons n names)
  then obtain groups where g: "set groups \<subseteq> {(doc, rows). (cp, doc, rows) \<in> sl}"
      "map (\<lambda>(doc, rows). (doc, List.map_filter json_object rows))
        (List.map_filter (\<lambda>n. parse_section_payload container (read_json (the (map_of (fw_sections w) n)))) names)
       = map (\<lambda>(doc, rows). (doc, map reread rows)) groups" by auto
  show ?case
  proof (cases "parse_section_payload container (read_json (the (map_of (fw_sections w) n)))")
    case None
    then show ?thesis using g by (auto simp: map_filter_simps)
  next
    case (Some p)
    obtain doc rows where p: "p = (doc, rows)" by (cases p)
    then obtain saved where "(cp, doc, saved) \<in> sl" "List.map_filter json_object rows = map reread saved"
      using sections_logged_payload [OF assms(1), of n container doc rows] Cons.prems Some by auto
    then show ?thesis using g Some p by (intro exI [of _ "(doc, saved) # groups"]) (auto simp: map_filter_simps)
  qed
qed

lemma load_section_state_logged:
  assumes "sections_logged sl cp w"
  shows "\<exists>groups. set groups \<subseteq> {(doc, rows). (cp, doc, rows) \<in> sl}
    \<and> load_section_state container w = (concat (map (\<lambda>(_, rows). map reread rows) groups), remdups (map fst groups))"
proof -
  define names where "names = sort (filter (\<lambda>n. py_endswith n ''.json'') (map fst (fw_sections w)))"
  define payloads where
    "payloads = List.map_filter (\<lambda>n. parse_section_payload container (read_json (the (map_of (fw_sections w) n)))) names"
  have "set names \<subseteq> fst ` set (fw_sections w)" by (auto simp: names_def)
  from logged_groups [OF assms this, of container] obtain groups where g: "set groups \<subseteq> {(doc, rows). (cp, doc, rows) \<in> sl}"
      "map (\<lambda>(doc, rows). (doc, List.map_filter json_object rows)) payloads = map (\<lambda>(doc, rows). (doc, map reread rows)) groups"
    unfolding payloads_def by blast
  have "map fst payloads = map fst groups" using arg_cong [OF g(2), of "map fst"] by (simp add: comp_def case_prod_beta)
  moreover have "map (\<lambda>(_, rows). List.map_filter json_object rows) payloads = map (\<lambda>(_, rows). map reread rows) groups"
    using arg_cong [OF g(2), of "map snd"] by (simp add: comp_def case_prod_beta')
  moreover have "load_section_state container w
      = (concat (map (\<lambda>(_, rows). List.map_filter json_object rows) payloads), remdups (map fst payloads))"
    by (simp add: load_section_state_def Let_def payloads_def names_def)
  ultimately show ?thesis using g(1) by auto
qed

text \<open>
  C10. At any time of any history of sessions, crashes and clears, what an open session loads was saved
  under the same fingerprint of the region and the same kind of fetch. A direct result is the one saved
  for this very polygon with these very references, and had no deferred error. The section rows are those
  of saved documents, group by group, and the completed documents are the documents of these groups.
\<close>

theorem fetch_results_never_stale:
  assumes "fetch_history container (Some cp) dl sl w"
  shows "(\<forall>pid refs r. load_direct container pid refs w = Some r \<longrightarrow>
      (\<exists>result. (cp, pid, refs, result) \<in> dl \<and> dr_deferred_errors result = [] \<and> r = reloaded refs result))
    \<and> (\<exists>groups. set groups \<subseteq> {(doc, rows). (cp, doc, rows) \<in> sl}
      \<and> load_section_state container w = (concat (map (\<lambda>(_, rows). map reread rows) groups), remdups (map fst groups)))"
proof -
  have logged: "direct_logged dl cp w" "sections_logged sl cp w"
    using history_fetch_ok [OF assms] unfolding fetch_ok_def by blast+
  have "\<exists>result. (cp, pid, refs, result) \<in> dl \<and> dr_deferred_errors result = [] \<and> r = reloaded refs result"
    if r: "load_direct container pid refs w = Some r" for pid refs r
  proof -
    obtain f where f: "map_of (fw_direct w) (checkpoint_file pid) = Some f" "read_direct container f pid refs = Some r"
      using r by (auto simp: load_direct_def split: option.splits)
    obtain pid' refs' result where l: "(cp, pid', refs', result) \<in> dl" "dr_deferred_errors result = []"
        "f = write_json (direct_payload pid' refs' result)"
      using logged(1) map_of_SomeD [OF f(1)] unfolding direct_logged_def by blast
    then show ?thesis using f(2) by (auto simp: read_direct_written split: if_splits)
  qed
  then show ?thesis using load_section_state_logged [OF logged(2)] by blast
qed

text \<open>A polygon without references is fetched in a first session and loaded again in it.\<close>

definition one_fetch :: fetch_checkpoint where
  "one_fetch = \<lparr>fc_fingerprint = Some ''f'', fc_full_text = True\<rparr>"

definition one_result :: direct_result where
  "one_result = \<lparr>dr_documents = [], dr_links = [], dr_statuses = [], dr_deferred_errors = []\<rparr>"

definition opened_fetch :: fetch_world where
  "opened_fetch = \<lparr>fw_metadata = write_json (fetch_metadata one_fetch), fw_direct = [], fw_sections = [], fw_script = []\<rparr>"

lemma one_opened: "open_fetch one_fetch \<lparr>fw_metadata = Absent, fw_direct = [], fw_sections = [], fw_script = []\<rparr> = (Ok (), opened_fetch)"
  by (simp add: open_fetch_def needs_reset_def read_json_def clear_fetch_def io_bind_def io_ret_def fetch_step_def opened_fetch_def)

lemma one_history:
  assumes "save_direct ''p'' [] one_result opened_fetch = (Ok (), w)"
  shows "fetch_history container (Some one_fetch) {(one_fetch, ''p'', [], one_result)} {} w"
proof -
  have "fetch_history container None {} {} \<lparr>fw_metadata = Absent, fw_direct = [], fw_sections = [], fw_script = []\<rparr>"
    by (rule nothing_fetched) simp_all
  from session_opened [OF this, of one_fetch "[]" "Ok ()" opened_fetch]
  have "fetch_history container (Some one_fetch) {} {} opened_fetch" by (simp add: one_opened) (simp add: one_fetch_def)
  from direct_saved [OF this, of "''p''" "[]" one_result "[]" "Ok ()" w] show ?thesis
    using assms by (simp add: opened_fetch_def)
qed

theorem fetch_results_never_stale_witness:
  "\<exists>w. fetch_history (\<lambda>_. []) (Some one_fetch) {(one_fetch, ''p'', [], one_result)} {} w
    \<and> load_direct (\<lambda>_. []) ''p'' [] w = Some one_result \<and> load_section_state (\<lambda>_. []) w = ([], [])"
proof -
  obtain w where w: "save_direct ''p'' [] one_result opened_fetch = (Ok (), w)"
    by (simp add: save_direct_def one_result_def fetch_step_def opened_fetch_def)
  note h = one_history [OF w, of "\<lambda>_. []"]
  have "load_direct (\<lambda>_. []) ''p'' [] w = Some (reloaded [] one_result)"
    by (rule direct_roundtrip [OF w]) (simp_all add: one_result_def)
  moreover have "reloaded [] one_result = one_result" by (simp add: reloaded_def one_result_def)
  moreover have "load_section_state (\<lambda>_. []) w = ([], [])"
    using fetch_results_never_stale [OF h] by auto
  ultimately show ?thesis using h by auto
qed

end
