(* ===== verification/Spec2Isabelle.thy ===== *)
theory Spec2Isabelle
  imports
    Doc_Links
    V2_Dedup
    Sync_Run
    Pending_Publications
    Staged_Install
    Text_Cleaning
    Sat_Adapter
    Request_Scheduler
    Upload_Queue
    Link_Recovery
    Rejection_Ledger
    Grid_Publication
    Sentence_Resume
    Extraction_Resume
    Fetch_Safety
    Retry
begin

text \<open>
  A verification of the core of \<open>osm-polygon-wikidata-only\<close>, a pipeline that extracts polygons with
  a \<open>wikidata\<close> tag from OpenStreetMap extracts, joins them with Wikipedia and Wikivoyage documents,
  splits the documents into sentences and publishes the tables as a dataset. File names below are
  relative to \<open>src/src/osm_polygon_wikidata_only/\<close>.

  \<^bold>\<open>How the parts interact.\<close> \<open>cli/\<close> builds a plan of regions (\<open>pipeline/sync_planner.py\<close>,
  \<open>pipeline/sync_planning.py\<close>) from the local files and from a comparison with the remote
  repository (\<open>hf/reconciliation.py\<close>). \<open>pipeline/sync_runner.py\<close> executes it: it recovers, augments,
  publishes and processes regions, extracting one file ahead, and submits each finished region to a
  background upload queue (\<open>hf/upload_queue.py\<close>), whose durable state is
  \<open>hf/_upload_state.py\<close> and whose worker retries by \<open>hf/_upload_retry.py\<close>. Regions that wait for a
  publication are kept in an envelope file (\<open>pipeline/pending_publications.py\<close>). Tables are replaced
  by staged installations (\<open>io/staged_install.py\<close>). Calls of remote hosts go through
  \<open>utils/request_scheduler.py\<close> and \<open>utils/retry.py\<close>. The tables themselves are made by the link
  builder (\<open>domain/polygon_document_links.py\<close>), the deduplication of \<open>v2/deduplication.py\<close>, the text
  cleaning of \<open>enrichment/text_cleaning.py\<close> and the sentence splitter of \<open>v2/sentence_logic.py\<close>,
  with hashes and identifiers from \<open>io/hashing.py\<close> and \<open>domain/ids.py\<close>. The second dataset version
  extracts polygons by their Wikipedia tags too (\<open>v2/extractor.py\<close>, \<open>v2/wikipedia_tags.py\<close>). Sentences of large regions
  are split by jobs on a remote cluster, which a resumable local controller (\<open>grid5000/\<close>) submits,
  watches, imports and publishes.

  \<^bold>\<open>Conventions.\<close> Code that can raise returns \<open>exn + 'a\<close> (\<open>res\<close> in \<open>Prelude\<close>); code that changes
  state takes and returns a record, also when it raises. A dictionary is an association list with
  distinct keys where its order can be seen. Python integers are \<open>int\<close> or \<open>nat\<close>, floats that carry
  durations and rates are \<open>real\<close>, SHA-256 works on 32-bit words. What the program does not decide is
  an argument: which system calls fail (fault scripts), the readings of the clock, the jitter, the
  outcome of each remote call, the segmentation model, the text of foreign errors. Messages of
  exceptions are shortened; logging is left out.

  \<^bold>\<open>Theories.\<close>
  \<^item> \<open>Prelude\<close>: results and exceptions, Python strings and lists, folds over results, JSON values,
    and the lemmas on them that all components share.
  \<^item> \<open>Keyed_Rows\<close>: the interface of a table keyed by an identity, as a locale: rows with equal keys
    must be equal, and the table is sorted by key. It is interpreted for the link rows in \<open>Doc_Links\<close>
    and for documents and links in \<open>V2_Dedup\<close>.
  \<^item> \<open>Osm_Domain\<close>: \<open>domain/filters.py\<close>, \<open>domain/ids.py\<close>, \<open>domain/stems.py\<close>,
    \<open>domain/wikidata_qids.py\<close>, \<open>domain/analysis.py\<close>: no component of a tag is lost, and lists of QIDs
    survive joining and parsing.
  \<^item> \<open>Doc_Links\<close>: \<open>domain/polygon_document_links.py\<close>: the builder is the exact join, validation fails
    exactly on bad rows, and its result is canonical, idempotent and independent of order.
  \<^item> \<open>V2_Dedup\<close>: \<open>v2/deduplication.py\<close>: deduplication loses no row and fails only on conflicts.
  \<^item> \<open>Json_Files\<close>: \<open>io/json_files.py\<close>, \<open>io/manifest.py\<close>: what a reader sees of each kind of file.
  \<^item> \<open>Hashing\<close>: \<open>io/hashing.py\<close>, \<open>io/fingerprints.py\<close>: SHA-256, the memoised digests and their index
    file; memoised digests are exact as long as a write changes the fingerprint, and can be stale
    otherwise.
  \<^item> \<open>Text_Cleaning\<close>: \<open>enrichment/text_cleaning.py\<close>: normalised white space, and an HTML machine in
    which ignored elements leave no trace.
  \<^item> \<open>Sentence_Split\<close>, \<open>Sat_Adapter\<close>: \<open>v2/sentence_logic.py\<close>, \<open>v2/sat.py\<close>: splitting is lossless,
    independent of batching, and its identifiers are digests of different inputs; a required GPU is in use.
  \<^item> \<open>Sentence_Checkpoints\<close>, \<open>Sentence_Runner\<close>, \<open>Sentence_Resume\<close>: \<open>v2/sentence_checkpoints.py\<close>,
    \<open>v2/sentence_runner.py\<close>: the resumable sentence pass over batch files and metadata on disk. Each
    change of the disk is a step; a budget of steps says where the process ends. Contracts with a crash
    condition show that a pass is exact after any history of interrupted passes over other sections,
    models and batch sizes. Names of batches are padded to eight digits and sorted as text, so the
    statement is for less than 10 to the power of 8 batches. Digests are taken to be injective.
  \<^item> \<open>Wikipedia_Tags\<close>: \<open>v2/wikipedia_tags.py\<close> with the part of \<open>urlparse\<close> it uses: the parser is a function
    of its verdicts on single values; every value is accounted for and each page is named once.
  \<^item> \<open>V2_Extraction\<close>, \<open>Extraction_Resume\<close>: \<open>v2/extractor.py\<close>, \<open>pipeline/polygon_fields.py\<close> and the class
    \<open>ExtractionCheckpoint\<close> of \<open>v2/checkpoints.py\<close>: an extraction that returns has exactly the polygons of
    the extract, after any history of killed runs; a run that raises between the two writes of an append
    is shown to leave duplicates.
  \<^item> \<open>Fetch_Checkpoint\<close>, \<open>Fetch_Safety\<close>: the class \<open>RegionFetchCheckpoint\<close> and the fingerprint of a region in
    \<open>v2/checkpoints.py\<close>: a saved result is loaded again, and after any history of sessions, crashes and
    clears only results of the same inputs are loaded.
  \<^item> \<open>Effects\<close>, \<open>Numbered_Names\<close>: programs that return, raise or die, with contracts for the three ends;
    files numbered in their names. They are shared by the theories on the disk.
  \<^item> \<open>Request_Scheduler\<close>: \<open>utils/request_scheduler.py\<close>: every locked section is one step and threads
    are interleavings of steps; bounds of rate and concurrency, pacing, cooldowns and recovery. A
    thread that paces a host sleeps and looks again; the number of rounds is fuel, and the theorem
    gives the number that suffices.
  \<^item> \<open>Retry\<close>: \<open>utils/retry.py\<close>, \<open>utils/http_retry.py\<close>, \<open>hf/_upload_retry.py\<close>: the unbounded backoff
    loop is a partial function; it does what its documentation says, and it ends.
  \<^item> \<open>Upload_State\<close>, \<open>Upload_Durability\<close>, \<open>Upload_Resume\<close>: \<open>hf/_upload_state.py\<close>,
    \<open>hf/_upload_state_files.py\<close>, \<open>hf/_uploader/plan.py\<close>: sequence numbers are never used twice, and
    resuming after any history refines the abstract queue of pending submissions. Every change of the
    disk is logged in the state; a process killed inside an operation leaves the changes of a prefix of
    the log, the last of them in part.
  \<^item> \<open>Upload_Queue\<close>: \<open>hf/upload_queue.py\<close>: producer, worker and state directory as one step relation;
    jobs are handled once and in order, undelivered ones stay on disk, and closing terminates by the
    measure \<open>remaining\<close>.
  \<^item> \<open>Link_Transaction\<close>, \<open>Link_Recovery\<close>: \<open>pipeline/_link_migration/transaction.py\<close>: every system call
    can fail or be the last of the process; total-correctness triples with a crash condition show
    that a crash leaves the region untouched or recoverable, also by a recovery that is interrupted.
  \<^item> \<open>Integrity\<close>: \<open>augmentation/integrity.py\<close> with its readers, records and the two partitions: the
    contract of an enforcing pass is a locale, interpreted for the links and for the Wikivoyage
    tables; a pass establishes its join, is idempotent, and a dry run predicts it exactly. Writes
    consume a budget, which shows what a failing device leaves behind.
  \<^item> \<open>Rejection_Ledger\<close>: \<open>augmentation/rejection_ledger.py\<close>: merging refines the join of maps from
    identities to counts, files are read back, and the cumulative ledger only grows.
  \<^item> \<open>Grid_Protocol\<close>, \<open>Grid_Controller\<close>: \<open>grid5000/sentence_protocol.py\<close> and the mixins of
    \<open>grid5000/sentence_controller.py\<close>: the planning of remote batches, the answers of the batch system
    and the controller as a monad over its ledger, with a script of answers of the outside world that
    can fail, interrupt or kill the process in any call.
  \<^item> \<open>Grid_Safety\<close>, \<open>Grid_Cleanup\<close>, \<open>Grid_Publication\<close>: the contract of an invariant of the controller is a
    locale, which lifts it to every history of runs; it is interpreted for the remote queue (no duplicate
    submission, as long as the calls that follow a submission behave) and for the stages of a batch
    (published only after import and verification). A run that is complete has removed its directory.
  \<^item> \<open>Sync_Plan\<close>: \<open>pipeline/sync_planner.py\<close>, \<open>pipeline/sync_planning.py\<close>,
    \<open>pipeline/sync_reconciliation.py\<close>, \<open>hf/reconciliation.py\<close>, \<open>hf/repo_layout.py\<close>: plans are
    deterministic, report exactly the gaps and converge.
  \<^item> \<open>Sync_Run\<close>: \<open>pipeline/sync_runner.py\<close>, \<open>pipeline/sync_orchestrator.py\<close>: each run is an outcome with
    the trace of its calls; order of the phases, one file ahead, completion and closing of the queue.
  \<^item> \<open>Pending_Publications\<close>: \<open>pipeline/pending_publications.py\<close>: the envelope refines two independent
    fields; interleaved updates can lose a stem.
  \<^item> \<open>Staged_Install\<close>: \<open>io/staged_install.py\<close>: all or nothing under one failing system call, the
    manifest last, and the loss of an original when the rollback fails too.

  \<^bold>\<open>Not modelled.\<close> The command line and configuration (argument parsing and wiring); the HTTP, Hub
  and ssh clients (third-party libraries); reading of OpenStreetMap extracts, geometry and Parquet
  files (osmium, shapely, pyarrow); cards, maps and statistics (rendering). The recovery and
  augmentation pipelines, the planning of the link migration and the direct enrichment of the
  second dataset version are parts with logic of their own that are not yet modelled.
\<close>

end
